(* ===== verification/Prelude.thy ===== *)
theory Prelude
  imports
    Complex_Main
    "HOL-Library.AList"
    "HOL-Library.Multiset"
    "HOL-Library.Product_Lexorder"
    "HOL-Library.List_Lexorder"
    "HOL-Library.Char_ord"
    "HOL-Library.Sublist"
begin

text \<open>
  What every component theory shares: the type of instants, Python's \<open>x or y\<close> on optional
  strings, \<open>dict.fromkeys\<close>, Python's stable \<open>sorted(xs, key=f)\<close> and \<open>min(xs, key=f)\<close> read as
  \<^const>\<open>sort_key\<close> and \<open>py_min_by\<close>, and the collections the component proofs feed to the
  simplifier.
\<close>

named_theorems table_simps
  \<open>how a statement over a SQL table changes what a key looks up\<close>

named_theorems keyed_intros
  \<open>statements keep the primary key of a table unique\<close>

section \<open>Instants\<close>

text \<open>
  An instant is a whole number of microseconds since the epoch, in UTC, the resolution of
  Python's \<open>datetime\<close>. The code stores instants as ISO-8601 text and compares the text; both are
  written by \<open>isoformat\<close> in UTC, whose text order is the order of the instants (a whole second
  has \<open>+\<close> where a fraction has \<open>.\<close>, which is the later character).
\<close>

type_synonym instant = int

definition seconds :: "int \<Rightarrow> int" where
  "seconds n = n * 1000000"

lemma seconds_mono [simp]: "seconds a \<le> seconds b \<longleftrightarrow> a \<le> b"
  by (simp add: seconds_def)

lemma seconds_pos [simp]: "0 < seconds a \<longleftrightarrow> 0 < a"
  by (simp add: seconds_def)

section \<open>Python values\<close>

text \<open>\<open>str(x or d)\<close> for an optional string: a missing and an empty string are both falsy.\<close>

definition str_or :: "string option \<Rightarrow> string \<Rightarrow> string" where
  "str_or v d = (case v of None \<Rightarrow> d | Some s \<Rightarrow> if s = [] then d else s)"

lemma str_or_simps [simp]:
  "str_or None d = d"
  "str_or (Some []) d = d"
  "str_or (Some (c # cs)) d = c # cs"
  by (simp_all add: str_or_def)

lemma str_or_empty: "str_or v [] = (case v of None \<Rightarrow> [] | Some s \<Rightarrow> s)"
  by (cases v) (auto simp: str_or_def)

text \<open>\<open>str(n)\<close> of a number that is not negative: its decimal digits\<close>

fun nat_text :: "nat \<Rightarrow> string" where
  "nat_text n =
     (if n < 10 then [char_of (48 + n)] else nat_text (n div 10) @ [char_of (48 + n mod 10)])"

declare nat_text.simps [simp del]

text \<open>A list is truthy when it is there and holds something.\<close>

definition list_or :: "'a list option \<Rightarrow> 'a list" where
  "list_or v = (case v of None \<Rightarrow> [] | Some xs \<Rightarrow> xs)"

lemma list_or_simps [simp]: "list_or None = []" "list_or (Some xs) = xs"
  by (simp_all add: list_or_def)

text \<open>\<open>list(dict.fromkeys(xs))\<close>: the first occurrence of each element, in order.\<close>

fun dict_fromkeys :: "'a list \<Rightarrow> 'a list" where
  "dict_fromkeys [] = []"
| "dict_fromkeys (x # xs) = x # filter (\<lambda>y. y \<noteq> x) (dict_fromkeys xs)"

lemma set_dict_fromkeys [simp]: "set (dict_fromkeys xs) = set xs"
  by (induction xs) auto

lemma distinct_dict_fromkeys [simp]: "distinct (dict_fromkeys xs)"
  by (induction xs) auto

lemma dict_fromkeys_Nil_iff [simp]: "dict_fromkeys xs = [] \<longleftrightarrow> xs = []"
  by (cases xs) auto

section \<open>Stable sorting and first minimum\<close>

lemma hd_sort_key_least:
  assumes "sort_key f xs = y # ys"
  shows "y \<in> set xs \<and> (\<forall>x \<in> set xs. f y \<le> f x)"
proof -
  have "set xs = set (y # ys)" by (metis assms set_sort)
  moreover have "sorted (map f (y # ys))" by (metis assms sorted_sort_key)
  ultimately show ?thesis by auto
qed

lemma sort_key_Nil_iff [simp]: "sort_key f xs = [] \<longleftrightarrow> xs = []"
  by (metis length_0_conv length_sort)

text \<open>\<open>min(xs, key=f)\<close> returns the first element with the least key.\<close>

fun py_min_by :: "('a \<Rightarrow> 'k::linorder) \<Rightarrow> 'a \<Rightarrow> 'a list \<Rightarrow> 'a" where
  "py_min_by f b [] = b"
| "py_min_by f b (x # xs) = py_min_by f (if f x < f b then x else b) xs"

lemma py_min_by_in: "py_min_by f b xs \<in> set (b # xs)"
  by (induction xs arbitrary: b) (auto split: if_splits)

lemma py_min_by_le_start: "f (py_min_by f b xs) \<le> f b"
proof (induction xs arbitrary: b)
  case Nil
  then show ?case by simp
next
  case (Cons y ys)
  have "f (if f y < f b then y else b) \<le> f b" by auto
  with Cons.IH[of "if f y < f b then y else b"] show ?case
    by (simp del: if_split)
qed

lemma py_min_by_least: "x \<in> set (b # xs) \<Longrightarrow> f (py_min_by f b xs) \<le> f x"
proof (induction xs arbitrary: b)
  case Nil
  then show ?case by simp
next
  case (Cons y ys)
  let ?b = "if f y < f b then y else b"
  have start: "f (py_min_by f ?b ys) \<le> f ?b" by (rule py_min_by_le_start)
  show ?case
  proof (cases "x \<in> set ys")
    case True
    then show ?thesis using Cons.IH[of ?b] by simp
  next
    case False
    then have "x = b \<or> x = y" using Cons.prems by auto
    then have "f ?b \<le> f x" by auto
    with start show ?thesis by (simp del: if_split)
  qed
qed

section \<open>Sums over lists\<close>

lemma sum_list_map_filter_le:
  "sum_list (map (g :: 'a \<Rightarrow> nat) (filter p xs)) \<le> sum_list (map g xs)"
  by (induction xs) auto

lemma sum_list_map_le:
  "(\<And>x. x \<in> set xs \<Longrightarrow> (f x :: nat) \<le> g x) \<Longrightarrow> sum_list (map f xs) \<le> sum_list (map g xs)"
  by (induction xs) (auto intro: add_mono)

lemma sum_list_map_less:
  assumes "\<And>x. x \<in> set xs \<Longrightarrow> (f x :: nat) \<le> g x" and "y \<in> set xs" and "f y < g y"
  shows "sum_list (map f xs) < sum_list (map g xs)"
  using assms
proof (induction xs)
  case Nil
  then show ?case by simp
next
  case (Cons x xs)
  have le: "sum_list (map f xs) \<le> sum_list (map g xs)"
    by (rule sum_list_map_le) (simp add: Cons.prems(1))
  show ?case
  proof (cases "y = x")
    case True
    with le Cons.prems(3) show ?thesis by simp
  next
    case False
    then have "sum_list (map f xs) < sum_list (map g xs)"
      using Cons.IH Cons.prems by simp
    then show ?thesis using Cons.prems(1)[of x] by simp
  qed
qed

lemma length_filter_map_le:
  "(\<And>x. x \<in> set xs \<Longrightarrow> P (g x) \<Longrightarrow> P x) \<Longrightarrow>
   length (filter P (map g xs)) \<le> length (filter P xs)"
proof (induction xs)
  case Nil
  then show ?case by simp
next
  case (Cons x xs)
  have "length (filter P (map g xs)) \<le> length (filter P xs)"
    by (rule Cons.IH) (simp add: Cons.prems)
  then show ?case using Cons.prems[of x] by auto
qed

lemma length_filter_map_less:
  assumes "\<And>x. x \<in> set xs \<Longrightarrow> P (g x) \<Longrightarrow> P x" and "y \<in> set xs" and "P y" and "\<not> P (g y)"
  shows "length (filter P (map g xs)) < length (filter P xs)"
  using assms
proof (induction xs)
  case Nil
  then show ?case by simp
next
  case (Cons x xs)
  have le: "length (filter P (map g xs)) \<le> length (filter P xs)"
    by (rule length_filter_map_le) (simp add: Cons.prems(1))
  show ?case
  proof (cases "y \<in> set xs")
    case True
    then have "length (filter P (map g xs)) < length (filter P xs)"
      using Cons.IH Cons.prems by simp
    then show ?thesis using Cons.prems(1)[of x] by auto
  next
    case False
    then have "y = x" using Cons.prems(2) by simp
    then show ?thesis using le Cons.prems(3,4) by simp
  qed
qed

section \<open>Splitting and joining text\<close>

text \<open>\<open>s.split(c)\<close> for a separator of one character, and \<open>sep.join(parts)\<close>\<close>

fun split_char :: "char \<Rightarrow> string \<Rightarrow> string list" where
  "split_char c [] = [[]]"
| "split_char c (x # xs) =
     (if x = c then [] # split_char c xs
      else (case split_char c xs of [] \<Rightarrow> [[x]] | p # ps \<Rightarrow> (x # p) # ps))"

fun join_with :: "string \<Rightarrow> string list \<Rightarrow> string" where
  "join_with sep [] = []"
| "join_with sep [p] = p"
| "join_with sep (p # q # ps) = p @ sep @ join_with sep (q # ps)"

definition replace_char :: "char \<Rightarrow> char \<Rightarrow> string \<Rightarrow> string" where
  "replace_char a b s = map (\<lambda>x. if x = a then b else x) s"

lemma split_char_ne [simp]: "split_char c s \<noteq> []"
  by (cases s) (auto split: list.split)

lemma join_with_Cons: "join_with sep (p # ps) = (if ps = [] then p else p @ sep @ join_with sep ps)"
  by (cases ps) simp_all

lemma join_split [simp]: "join_with [c] (split_char c s) = s"
proof (induction s)
  case (Cons x xs)
  obtain p ps where "split_char c xs = p # ps" by (cases "split_char c xs") auto
  then show ?case using Cons by (auto simp: join_with_Cons)
qed simp

end
