(* ===== verification/SqlTable.thy ===== *)
theory SqlTable
  imports Prelude
begin

text \<open>
  The SQL statements the program issues against its state store, over a table held as the
  list of its rows. A table has a primary key \<open>key\<close>; \<open>keyed key t\<close> says it is unique, which is
  what the database enforces. Each statement is atomic, as one statement of SQLite or
  Postgres is.
\<close>

definition keyed :: "('r \<Rightarrow> 'k) \<Rightarrow> 'r list \<Rightarrow> bool" where
  "keyed key t \<longleftrightarrow> distinct (map key t)"

text \<open>\<open>SELECT ... WHERE key = k\<close>\<close>

fun tbl_get :: "('r \<Rightarrow> 'k) \<Rightarrow> 'k \<Rightarrow> 'r list \<Rightarrow> 'r option" where
  "tbl_get key k [] = None"
| "tbl_get key k (r # t) = (if key r = k then Some r else tbl_get key k t)"

text \<open>\<open>UPDATE ... SET f WHERE p\<close>, and the rows its \<open>RETURNING\<close> clause gives back\<close>

definition tbl_update :: "('r \<Rightarrow> bool) \<Rightarrow> ('r \<Rightarrow> 'r) \<Rightarrow> 'r list \<Rightarrow> 'r list" where
  "tbl_update p f t = map (\<lambda>r. if p r then f r else r) t"

definition tbl_update_returning :: "('r \<Rightarrow> bool) \<Rightarrow> ('r \<Rightarrow> 'r) \<Rightarrow> 'r list \<Rightarrow> 'r list" where
  "tbl_update_returning p f t = map f (filter p t)"

text \<open>\<open>DELETE ... WHERE p\<close>; \<open>RETURNING\<close> gives the rows that went, \<open>filter p t\<close>\<close>

definition tbl_delete :: "('r \<Rightarrow> bool) \<Rightarrow> 'r list \<Rightarrow> 'r list" where
  "tbl_delete p t = filter (\<lambda>r. \<not> p r) t"

text \<open>\<open>INSERT row ON CONFLICT(key) DO UPDATE SET f WHERE p\<close>, and what \<open>RETURNING\<close> gives\<close>

definition tbl_upsert :: "('r \<Rightarrow> 'k) \<Rightarrow> 'r \<Rightarrow> ('r \<Rightarrow> bool) \<Rightarrow> ('r \<Rightarrow> 'r) \<Rightarrow> 'r list \<Rightarrow> 'r list" where
  "tbl_upsert key row p f t =
     (if tbl_get key (key row) t = None then t @ [row]
      else tbl_update (\<lambda>r. key r = key row \<and> p r) f t)"

definition tbl_upsert_returning ::
    "('r \<Rightarrow> 'k) \<Rightarrow> 'r \<Rightarrow> ('r \<Rightarrow> bool) \<Rightarrow> ('r \<Rightarrow> 'r) \<Rightarrow> 'r list \<Rightarrow> 'r list" where
  "tbl_upsert_returning key row p f t =
     (if tbl_get key (key row) t = None then [row]
      else tbl_update_returning (\<lambda>r. key r = key row \<and> p r) f t)"

section \<open>Lookup\<close>

lemma tbl_get_Some: "tbl_get key k t = Some r \<Longrightarrow> r \<in> set t \<and> key r = k"
  by (induction t) (auto split: if_splits)

lemma tbl_get_None: "tbl_get key k t = None \<longleftrightarrow> k \<notin> key ` set t"
  by (induction t) auto

lemma tbl_get_mem: "keyed key t \<Longrightarrow> r \<in> set t \<Longrightarrow> tbl_get key (key r) t = Some r"
  by (induction t) (force simp: keyed_def)+

lemma keyed_unique: "keyed key t \<Longrightarrow> r \<in> set t \<Longrightarrow> r' \<in> set t \<Longrightarrow> key r = key r' \<Longrightarrow> r = r'"
  by (metis option.inject tbl_get_mem)

lemma keyed_mem_iff: "keyed key t \<Longrightarrow> r \<in> set t \<longleftrightarrow> tbl_get key (key r) t = Some r"
  by (metis tbl_get_Some tbl_get_mem)

lemma tbl_get_append:
  "tbl_get key k (t @ u) = (case tbl_get key k t of None \<Rightarrow> tbl_get key k u | Some r \<Rightarrow> Some r)"
  by (induction t) auto

section \<open>What a statement changes\<close>

lemma tbl_get_update [table_simps]:
  "(\<And>r. key (f r) = key r) \<Longrightarrow>
   tbl_get key k (tbl_update p f t) =
     map_option (\<lambda>r. if p r then f r else r) (tbl_get key k t)"
  by (induction t) (auto simp: tbl_update_def)

lemma map_key_update:
  "(\<And>r. key (f r) = key r) \<Longrightarrow> map key (tbl_update p f t) = map key t"
  by (simp add: tbl_update_def)

lemma set_tbl_update: "set (tbl_update p f t) = (\<lambda>r. if p r then f r else r) ` set t"
  by (simp add: tbl_update_def)

lemma length_tbl_update [simp]: "length (tbl_update p f t) = length t"
  by (simp add: tbl_update_def)

lemma tbl_update_id: "(\<And>r. r \<in> set t \<Longrightarrow> \<not> p r) \<Longrightarrow> tbl_update p f t = t"
  by (simp add: tbl_update_def map_idI)

lemma keyed_update [keyed_intros]:
  "(\<And>r. key (f r) = key r) \<Longrightarrow> keyed key t \<Longrightarrow> keyed key (tbl_update p f t)"
  by (simp add: keyed_def map_key_update)

lemma keyed_delete [keyed_intros]: "keyed key t \<Longrightarrow> keyed key (tbl_delete p t)"
  by (induction t) (auto simp: keyed_def tbl_delete_def)

lemma keyed_upsert [keyed_intros]:
  "(\<And>r. key (f r) = key r) \<Longrightarrow> keyed key t \<Longrightarrow> keyed key (tbl_upsert key row p f t)"
  by (auto simp: keyed_def tbl_upsert_def map_key_update tbl_get_None)

lemma tbl_get_delete [table_simps]:
  assumes "keyed key t"
  shows "tbl_get key k (tbl_delete p t) =
    (case tbl_get key k t of None \<Rightarrow> None | Some r \<Rightarrow> if p r then None else Some r)"
  using assms
proof (induction t)
  case Nil
  then show ?case by (simp add: tbl_delete_def)
next
  case (Cons a t)
  have gone: "tbl_get key (key a) t = None" "tbl_get key (key a) (filter (\<lambda>r. \<not> p r) t) = None"
    using Cons.prems by (auto simp: keyed_def tbl_get_None)
  show ?case
    using Cons gone by (auto simp: keyed_def tbl_delete_def)
qed

lemma tbl_get_upsert [table_simps]:
  assumes "\<And>r. key (f r) = key r"
  shows "tbl_get key k (tbl_upsert key row p f t) =
    (if k = key row
     then (case tbl_get key k t of None \<Rightarrow> Some row | Some r \<Rightarrow> Some (if p r then f r else r))
     else tbl_get key k t)"
proof (cases "tbl_get key (key row) t")
  case None
  then show ?thesis by (auto simp: tbl_upsert_def tbl_get_append split: option.splits)
next
  case (Some r)
  then show ?thesis
    by (cases "tbl_get key k t")
      (auto simp: tbl_upsert_def tbl_get_update assms split: option.splits dest: tbl_get_Some)
qed

lemma filter_key_keyed:
  assumes "keyed key t"
  shows "filter (\<lambda>r. key r = k \<and> p r) t =
    (case tbl_get key k t of None \<Rightarrow> [] | Some r \<Rightarrow> if p r then [r] else [])"
  using assms
proof (induction t)
  case Nil
  then show ?case by simp
next
  case (Cons r t)
  have "key r = k \<Longrightarrow> filter (\<lambda>r. key r = k \<and> p r) t = []"
    using Cons.prems by (auto simp: keyed_def filter_empty_conv image_iff)
  then show ?case using Cons by (auto simp: keyed_def)
qed

lemma upsert_returning_keyed:
  "keyed key t \<Longrightarrow> tbl_upsert_returning key row p f t =
    (case tbl_get key (key row) t of None \<Rightarrow> [row] | Some r \<Rightarrow> if p r then [f r] else [])"
  by (auto simp: tbl_upsert_returning_def tbl_update_returning_def filter_key_keyed
      split: option.splits)

lemma update_returning_keyed:
  "keyed key t \<Longrightarrow> tbl_update_returning (\<lambda>r. key r = k \<and> p r) f t =
    (case tbl_get key k t of None \<Rightarrow> [] | Some r \<Rightarrow> if p r then [f r] else [])"
  by (auto simp: tbl_update_returning_def filter_key_keyed split: option.splits)

end
