(* ===== verification/Queue.thy ===== *)
theory Queue
  imports SqlTable
begin

text \<open>
  The durable index work queue, \<open>src/pheasant/sync/queue.py\<close>: the task row, every statement of
  \<open>LocalQueue\<close> over the table \<open>index_tasks\<close>, the bounded claim loop, and the \<open>drain\<close> loop that
  runs handlers. Instants are read by the caller and passed in; the JSON payload is the value
  it decodes to.
\<close>

section \<open>Rows and tasks\<close>

datatype task_status = PENDING | INFLIGHT | DONE | DEAD

record task_row =
  row_id :: string
  source_id :: string
  row_mode :: string
  payload :: "(string \<times> string) list"
  status :: task_status
  attempts :: int
  max_attempts :: int
  owner :: "string option"
  visible_at :: instant
  enqueued_at :: instant
  updated_at :: instant
  last_error :: "string option"

text \<open>\<open>IndexTask\<close>: what a claim hands to the worker.\<close>

record index_task =
  t_id :: string
  t_source_id :: string
  t_mode :: string
  t_payload :: "(string \<times> string) list"
  t_attempts :: int
  t_max_attempts :: int

type_synonym task_table = "task_row list"

definition DEFAULT_VISIBILITY_SECONDS :: int where "DEFAULT_VISIBILITY_SECONDS = 300"
definition MAX_HEARTBEAT_INTERVAL_SECONDS :: rat where "MAX_HEARTBEAT_INTERVAL_SECONDS = 10"
definition DEFAULT_MAX_ATTEMPTS :: int where "DEFAULT_MAX_ATTEMPTS = 3"
definition CLAIM_ATTEMPTS :: nat where "CLAIM_ATTEMPTS = 8"

definition build_task :: "task_row \<Rightarrow> index_task" where
  "build_task r =
     \<lparr>t_id = row_id r, t_source_id = source_id r, t_mode = row_mode r, t_payload = payload r,
      t_attempts = attempts r, t_max_attempts = max_attempts r\<rparr>"

lemma build_task_simps [simp]:
  "t_id (build_task r) = row_id r"
  "t_attempts (build_task r) = attempts r"
  "t_max_attempts (build_task r) = max_attempts r"
  by (simp_all add: build_task_def)

section \<open>The statements of LocalQueue\<close>

subsection \<open>publish\<close>

definition fresh_row :: "instant \<Rightarrow> index_task \<Rightarrow> task_row" where
  "fresh_row now task =
     \<lparr>row_id = t_id task, source_id = t_source_id task, row_mode = t_mode task,
      payload = t_payload task, status = PENDING, attempts = 0,
      max_attempts = t_max_attempts task, owner = None, visible_at = now, enqueued_at = now,
      updated_at = now, last_error = None\<rparr>"

text \<open>\<open>ON CONFLICT(id) DO UPDATE SET\<close>: source and mode stay, the lifecycle is re-armed.\<close>

definition rearm_row :: "instant \<Rightarrow> index_task \<Rightarrow> task_row \<Rightarrow> task_row" where
  "rearm_row now task r =
     r\<lparr>status := PENDING, attempts := 0, owner := None, payload := t_payload task,
       max_attempts := t_max_attempts task, visible_at := now, enqueued_at := now,
       updated_at := now, last_error := None\<rparr>"

definition publish :: "instant \<Rightarrow> index_task \<Rightarrow> task_table \<Rightarrow> task_table" where
  "publish now task tbl =
     tbl_upsert row_id (fresh_row now task) (\<lambda>r. status r = DONE) (rearm_row now task) tbl"

subsection \<open>claim\<close>

definition claimable :: "instant \<Rightarrow> task_row \<Rightarrow> bool" where
  "claimable now r \<longleftrightarrow> (status r = PENDING \<or> status r = INFLIGHT) \<and> visible_at r \<le> now"

text \<open>The sub-select: \<open>ORDER BY enqueued_at, id LIMIT 1\<close> over the claimable rows.\<close>

definition claim_order :: "task_row \<Rightarrow> instant \<times> string" where
  "claim_order r = (enqueued_at r, row_id r)"

definition claim_select :: "instant \<Rightarrow> task_table \<Rightarrow> string option" where
  "claim_select now tbl =
     (case sort_key claim_order (filter (claimable now) tbl) of
        [] \<Rightarrow> None | r # _ \<Rightarrow> Some (row_id r))"

definition take_row :: "string \<Rightarrow> instant \<Rightarrow> instant \<Rightarrow> task_row \<Rightarrow> task_row" where
  "take_row who deadline now r =
     r\<lparr>status := INFLIGHT, owner := Some who, attempts := attempts r + 1,
       visible_at := deadline, updated_at := now\<rparr>"

text \<open>
  The outer \<open>UPDATE\<close>, for the id the sub-select chose. Under READ COMMITTED its \<open>WHERE\<close> is
  evaluated against the row as the last committed writer left it, which need not be the table
  the sub-select saw; \<open>claim_statement\<close> is the case where both see one table.
\<close>

definition claim_update ::
    "string \<Rightarrow> instant \<Rightarrow> instant \<Rightarrow> string option \<Rightarrow> task_table \<Rightarrow> task_row list \<times> task_table" where
  "claim_update who deadline now chosen tbl =
     (case chosen of
        None \<Rightarrow> ([], tbl)
      | Some i \<Rightarrow>
          (tbl_update_returning (\<lambda>r. row_id r = i \<and> claimable now r) (take_row who deadline now) tbl,
           tbl_update (\<lambda>r. row_id r = i \<and> claimable now r) (take_row who deadline now) tbl))"

definition claim_statement ::
    "string \<Rightarrow> instant \<Rightarrow> instant \<Rightarrow> task_table \<Rightarrow> task_row list \<times> task_table" where
  "claim_statement who deadline now tbl =
     claim_update who deadline now (claim_select now tbl) tbl"

definition has_claimable :: "instant \<Rightarrow> task_table \<Rightarrow> bool" where
  "has_claimable now tbl \<longleftrightarrow> 0 < length (filter (claimable now) tbl)"

definition dead_row :: "instant \<Rightarrow> string \<Rightarrow> task_row \<Rightarrow> task_row" where
  "dead_row now err r =
     r\<lparr>status := DEAD, owner := None, updated_at := now, last_error := Some (take 500 err)\<rparr>"

definition dead_letter :: "instant \<Rightarrow> index_task \<Rightarrow> string \<Rightarrow> task_table \<Rightarrow> task_table" where
  "dead_letter now task err tbl =
     tbl_update (\<lambda>r. row_id r = t_id task) (dead_row now err) tbl"

text \<open>
  The bounded loop. \<open>later n\<close> is the clock \<open>_dead_letter\<close> reads when \<open>n\<close> further tries remain.
\<close>

fun claim_loop ::
    "nat \<Rightarrow> (nat \<Rightarrow> instant) \<Rightarrow> string \<Rightarrow> instant \<Rightarrow> instant \<Rightarrow> task_table \<Rightarrow>
     index_task option \<times> task_table" where
  "claim_loop 0 later who deadline now tbl = (None, tbl)"
| "claim_loop (Suc n) later who deadline now tbl =
     (case claim_statement who deadline now tbl of
        ([], tbl') \<Rightarrow>
          if has_claimable now tbl' then claim_loop n later who deadline now tbl'
          else (None, tbl')
      | (r # _, tbl') \<Rightarrow>
          (let task = build_task r in
           if t_max_attempts task < t_attempts task
           then claim_loop n later who deadline now
                  (dead_letter (later n) task ''exceeded max_attempts before running'' tbl')
           else (Some task, tbl')))"

definition claim ::
    "(nat \<Rightarrow> instant) \<Rightarrow> string \<Rightarrow> int \<Rightarrow> instant \<Rightarrow> task_table \<Rightarrow> index_task option \<times> task_table" where
  "claim later who visibility now tbl =
     claim_loop CLAIM_ATTEMPTS later who (now + visibility) now tbl"

subsection \<open>ack, nack, heartbeat\<close>

definition ack_row :: "instant \<Rightarrow> task_row \<Rightarrow> task_row" where
  "ack_row now r = r\<lparr>status := DONE, owner := None, updated_at := now, last_error := None\<rparr>"

definition ack :: "instant \<Rightarrow> index_task \<Rightarrow> task_table \<Rightarrow> task_table" where
  "ack now task tbl = tbl_update (\<lambda>r. row_id r = t_id task) (ack_row now) tbl"

definition retry_row :: "instant \<Rightarrow> int \<Rightarrow> string \<Rightarrow> task_row \<Rightarrow> task_row" where
  "retry_row now retry_in err r =
     r\<lparr>status := PENDING, owner := None, visible_at := now + max 0 retry_in, updated_at := now,
       last_error := Some (take 500 err)\<rparr>"

definition nack :: "instant \<Rightarrow> int \<Rightarrow> index_task \<Rightarrow> string \<Rightarrow> task_table \<Rightarrow> task_table" where
  "nack now retry_in task err tbl =
     (if t_max_attempts task \<le> t_attempts task then dead_letter now task err tbl
      else tbl_update (\<lambda>r. row_id r = t_id task) (retry_row now retry_in err) tbl)"

definition beat_row :: "instant \<Rightarrow> int \<Rightarrow> task_row \<Rightarrow> task_row" where
  "beat_row now visibility r = r\<lparr>visible_at := now + visibility, updated_at := now\<rparr>"

definition heartbeat :: "int \<Rightarrow> instant \<Rightarrow> index_task \<Rightarrow> task_table \<Rightarrow> task_table" where
  "heartbeat visibility now task tbl =
     tbl_update (\<lambda>r. row_id r = t_id task \<and> status r = INFLIGHT) (beat_row now visibility) tbl"

subsection \<open>depth, outstanding, requeue_dead, purge_completed\<close>

definition depth :: "task_table \<Rightarrow> task_status \<Rightarrow> nat" where
  "depth tbl s = length (filter (\<lambda>r. status r = s) tbl)"

definition outstanding :: "int \<Rightarrow> task_table \<Rightarrow> task_row list" where
  "outstanding limit tbl =
     take (nat (max 1 limit))
       (sort_key claim_order
         (filter (\<lambda>r. status r = PENDING \<or> status r = INFLIGHT \<or> status r = DEAD) tbl))"

definition requeue_row :: "instant \<Rightarrow> task_row \<Rightarrow> task_row" where
  "requeue_row now r =
     r\<lparr>status := PENDING, attempts := 0, owner := None, visible_at := now, updated_at := now\<rparr>"

definition requeue_dead :: "instant \<Rightarrow> task_table \<Rightarrow> nat \<times> task_table" where
  "requeue_dead now tbl =
     (length (tbl_update_returning (\<lambda>r. status r = DEAD) (requeue_row now) tbl),
      tbl_update (\<lambda>r. status r = DEAD) (requeue_row now) tbl)"

definition purge_completed :: "int \<Rightarrow> instant \<Rightarrow> task_table \<Rightarrow> nat \<times> task_table" where
  "purge_completed older_than now tbl =
     (let gone = (\<lambda>r. status r = DONE \<and> updated_at r < now - max 0 older_than)
      in (length (filter gone tbl), tbl_delete gone tbl))"

lemmas row_defs = fresh_row_def rearm_row_def take_row_def dead_row_def ack_row_def
  retry_row_def beat_row_def requeue_row_def

lemma row_ids_kept [simp]:
  "row_id (fresh_row now task) = t_id task"
  "row_id (rearm_row now task r) = row_id r"
  "row_id (take_row who deadline now r) = row_id r"
  "row_id (dead_row now err r) = row_id r"
  "row_id (ack_row now r) = row_id r"
  "row_id (retry_row now d err r) = row_id r"
  "row_id (beat_row now v r) = row_id r"
  "row_id (requeue_row now r) = row_id r"
  by (simp_all add: row_defs)


section \<open>What each statement does to one row\<close>

text \<open>The view of the table a caller has by id: status and attempts, if the task exists.\<close>

definition view :: "task_table \<Rightarrow> string \<Rightarrow> (task_status \<times> int) option" where
  "view tbl i = map_option (\<lambda>r. (status r, attempts r)) (tbl_get row_id i tbl)"

lemma keyed_statements [keyed_intros]:
  "keyed row_id tbl \<Longrightarrow> keyed row_id (publish now task tbl)"
  "keyed row_id tbl \<Longrightarrow> keyed row_id (ack now task tbl)"
  "keyed row_id tbl \<Longrightarrow> keyed row_id (dead_letter now task err tbl)"
  "keyed row_id tbl \<Longrightarrow> keyed row_id (nack now d task err tbl)"
  "keyed row_id tbl \<Longrightarrow> keyed row_id (heartbeat v now task tbl)"
  "keyed row_id tbl \<Longrightarrow> keyed row_id (snd (requeue_dead now tbl))"
  "keyed row_id tbl \<Longrightarrow> keyed row_id (snd (purge_completed older now tbl))"
  by (simp_all add: publish_def ack_def dead_letter_def nack_def heartbeat_def requeue_dead_def
      purge_completed_def Let_def keyed_intros)

lemma get_publish [table_simps]:
  "tbl_get row_id i (publish now task tbl) =
     (if i = t_id task
      then (case tbl_get row_id i tbl of None \<Rightarrow> Some (fresh_row now task)
            | Some r \<Rightarrow> Some (if status r = DONE then rearm_row now task r else r))
      else tbl_get row_id i tbl)"
  by (simp add: publish_def tbl_get_upsert)

lemma get_ack [table_simps]:
  "tbl_get row_id i (ack now task tbl) =
     map_option (\<lambda>r. if row_id r = t_id task then ack_row now r else r) (tbl_get row_id i tbl)"
  by (simp add: ack_def tbl_get_update)

lemma get_dead_letter [table_simps]:
  "tbl_get row_id i (dead_letter now task err tbl) =
     map_option (\<lambda>r. if row_id r = t_id task then dead_row now err r else r) (tbl_get row_id i tbl)"
  by (simp add: dead_letter_def tbl_get_update)

lemma get_nack [table_simps]:
  "tbl_get row_id i (nack now d task err tbl) =
     map_option (\<lambda>r. if row_id r = t_id task
        then if t_max_attempts task \<le> t_attempts task then dead_row now err r
             else retry_row now d err r
        else r) (tbl_get row_id i tbl)"
  by (cases "tbl_get row_id i tbl") (simp_all add: nack_def tbl_get_update get_dead_letter)

lemma get_heartbeat [table_simps]:
  "tbl_get row_id i (heartbeat v now task tbl) =
     map_option (\<lambda>r. if row_id r = t_id task \<and> status r = INFLIGHT then beat_row now v r else r)
       (tbl_get row_id i tbl)"
  by (simp add: heartbeat_def tbl_get_update)

section \<open>The claim\<close>

lemma claim_select_None: "claim_select now tbl = None \<longleftrightarrow> (\<forall>r \<in> set tbl. \<not> claimable now r)"
proof (cases "filter (claimable now) tbl")
  case Nil
  then show ?thesis by (simp add: claim_select_def filter_empty_conv)
next
  case (Cons r rs)
  then have "claimable now r \<and> r \<in> set tbl" by (auto dest: filter_eq_ConsD)
  moreover have "sort_key claim_order (filter (claimable now) tbl) \<noteq> []" using Cons by simp
  ultimately show ?thesis by (auto simp: claim_select_def split: list.splits)
qed

lemma claim_select_Some:
  assumes "claim_select now tbl = Some i"
  shows "\<exists>r \<in> set tbl. row_id r = i \<and> claimable now r \<and>
    (\<forall>x \<in> set tbl. claimable now x \<longrightarrow> claim_order r \<le> claim_order x)"
proof -
  obtain r rs where srt: "sort_key claim_order (filter (claimable now) tbl) = r # rs" "row_id r = i"
    using assms by (auto simp: claim_select_def split: list.splits)
  from hd_sort_key_least[OF srt(1)] srt(2) show ?thesis by auto
qed

definition claim_head :: "instant \<Rightarrow> task_table \<Rightarrow> task_row \<Rightarrow> bool" where
  "claim_head now tbl r \<longleftrightarrow> r \<in> set tbl \<and> claimable now r \<and>
     (\<forall>x \<in> set tbl. claimable now x \<longrightarrow> claim_order r \<le> claim_order x)"

abbreviation granted_table ::
    "string \<Rightarrow> instant \<Rightarrow> instant \<Rightarrow> task_row \<Rightarrow> task_table \<Rightarrow> task_table" where
  "granted_table who deadline now r tbl \<equiv>
     tbl_update (\<lambda>x. row_id x = row_id r \<and> claimable now x) (take_row who deadline now) tbl"

lemma claim_statement_cases:
  assumes "keyed row_id tbl"
  obtains (none) "claim_statement who deadline now tbl = ([], tbl)" "\<not> has_claimable now tbl"
  | (won) r where "claim_head now tbl r"
      "claim_statement who deadline now tbl =
         ([take_row who deadline now r], granted_table who deadline now r tbl)"
proof (cases "claim_select now tbl")
  case None
  then have "\<forall>r \<in> set tbl. \<not> claimable now r" by (simp add: claim_select_None)
  then have "\<not> has_claimable now tbl" by (simp add: has_claimable_def filter_empty_conv)
  moreover have "claim_statement who deadline now tbl = ([], tbl)"
    by (simp add: claim_statement_def claim_update_def None)
  ultimately show thesis by (rule none[rotated])
next
  case (Some i)
  then obtain r where r: "row_id r = i" "claim_head now tbl r"
    using claim_select_Some[OF Some] unfolding claim_head_def by blast
  then have "tbl_get row_id i tbl = Some r" "claimable now r"
    using tbl_get_mem[OF assms] by (auto simp: claim_head_def)
  then have "claim_statement who deadline now tbl =
      ([take_row who deadline now r], granted_table who deadline now r tbl)"
    using r(1) by (simp add: claim_statement_def claim_update_def Some
        update_returning_keyed[OF assms])
  with r(2) show thesis by (rule won)
qed

lemma get_granted:
  assumes "keyed row_id tbl" and "claim_head now tbl r"
  shows "tbl_get row_id i (granted_table who deadline now r tbl) =
    (if i = row_id r then Some (take_row who deadline now r) else tbl_get row_id i tbl)"
proof -
  have r: "tbl_get row_id (row_id r) tbl = Some r" "claimable now r"
    using assms tbl_get_mem by (auto simp: claim_head_def)
  show ?thesis
  proof (cases "i = row_id r")
    case True
    then show ?thesis using r by (simp add: tbl_get_update)
  next
    case False
    then show ?thesis
      by (cases "tbl_get row_id i tbl") (auto simp: tbl_get_update dest: tbl_get_Some)
  qed
qed

text \<open>A row that one more claim would push past its cap.\<close>

definition spent :: "task_row \<Rightarrow> bool" where
  "spent r \<longleftrightarrow> max_attempts r \<le> attempts r"

abbreviation buried_table ::
    "instant \<Rightarrow> string \<Rightarrow> instant \<Rightarrow> instant \<Rightarrow> task_row \<Rightarrow> task_table \<Rightarrow> task_table" where
  "buried_table moment who deadline now r tbl \<equiv>
     dead_letter moment (build_task (take_row who deadline now r))
       ''exceeded max_attempts before running'' (granted_table who deadline now r tbl)"

lemma claim_loop_cases:
  assumes keyed: "keyed row_id tbl"
  obtains (empty) "claim_loop (Suc n) later who deadline now tbl = (None, tbl)"
      "\<not> has_claimable now tbl"
  | (bury) r where "claim_head now tbl r" "spent r"
      "claim_loop (Suc n) later who deadline now tbl =
         claim_loop n later who deadline now (buried_table (later n) who deadline now r tbl)"
  | (grant) r where "claim_head now tbl r" "\<not> spent r"
      "claim_loop (Suc n) later who deadline now tbl =
         (Some (build_task (take_row who deadline now r)), granted_table who deadline now r tbl)"
proof (cases rule: claim_statement_cases[OF keyed, of who deadline now])
  case 1
  then show thesis using empty by simp
next
  case (2 r)
  show thesis
  proof (cases "spent r")
    case True
    with 2 show thesis by (intro bury[of r]) (simp_all add: Let_def take_row_def spent_def)
  next
    case False
    with 2 show thesis by (intro grant[of r]) (simp_all add: Let_def take_row_def spent_def)
  qed
qed

lemma keyed_granted: "keyed row_id tbl \<Longrightarrow> keyed row_id (granted_table who deadline now r tbl)"
  by (intro keyed_intros) simp_all

lemma keyed_buried: "keyed row_id tbl \<Longrightarrow> keyed row_id (buried_table moment who deadline now r tbl)"
  by (intro keyed_statements keyed_granted)

lemma get_buried:
  assumes "keyed row_id tbl" and "claim_head now tbl r"
  shows "tbl_get row_id i (buried_table moment who deadline now r tbl) =
    (if i = row_id r
     then Some (dead_row moment ''exceeded max_attempts before running'' (take_row who deadline now r))
     else tbl_get row_id i tbl)"
proof (cases "i = row_id r")
  case True
  then show ?thesis by (simp add: get_dead_letter get_granted[OF assms])
next
  case False
  then show ?thesis
    by (cases "tbl_get row_id i tbl")
      (auto simp: get_dead_letter get_granted[OF assms] dest: tbl_get_Some)
qed

lemma keyed_claim_loop:
  "keyed row_id tbl \<Longrightarrow> keyed row_id (snd (claim_loop n later who deadline now tbl))"
proof (induction n arbitrary: tbl)
  case 0
  then show ?case by simp
next
  case (Suc n)
  show ?case
    by (cases rule: claim_loop_cases[OF Suc.prems, of n later who deadline now])
      (simp_all add: Suc.IH keyed_buried keyed_granted Suc.prems del: claim_loop.simps)
qed

end
