(* ===== verification/QueueProps.thy ===== *)
theory QueueProps
  imports Queue
begin

text \<open>
  What the statements of theory \<open>Queue\<close> guarantee: which task a claim hands out and what it
  dead-letters on the way, when it hands out nothing, the race of two claims, the lifecycle
  every statement keeps to, the row invariant, and the cap on attempts.
\<close>

section \<open>Which task a claim hands out\<close>

definition healthy_head :: "instant \<Rightarrow> task_table \<Rightarrow> task_row \<Rightarrow> bool" where
  "healthy_head now tbl r \<longleftrightarrow> r \<in> set tbl \<and> claimable now r \<and> \<not> spent r \<and>
     (\<forall>x \<in> set tbl. claimable now x \<and> \<not> spent x \<longrightarrow> claim_order r \<le> claim_order x)"

text \<open>The table after a claim that handed out \<open>r\<close>, one id at a time.\<close>

definition row_after_claim ::
    "string \<Rightarrow> instant \<Rightarrow> instant \<Rightarrow> task_row \<Rightarrow> task_row option \<Rightarrow> task_row option \<Rightarrow> bool" where
  "row_after_claim who deadline now r old new \<longleftrightarrow>
     (case old of
        None \<Rightarrow> new = None
      | Some x \<Rightarrow>
          if row_id x = row_id r then new = Some (take_row who deadline now r)
          else if claimable now x \<and> spent x \<and> claim_order x < claim_order r
          then \<exists>t. new =
            Some (dead_row t ''exceeded max_attempts before running'' (take_row who deadline now x))
          else new = Some x)"

definition claimed_from ::
    "string \<Rightarrow> instant \<Rightarrow> instant \<Rightarrow> task_row \<Rightarrow> task_table \<Rightarrow> task_table \<Rightarrow> bool" where
  "claimed_from who deadline now r tbl tbl' \<longleftrightarrow>
     (\<forall>i. row_after_claim who deadline now r (tbl_get row_id i tbl) (tbl_get row_id i tbl'))"

lemma claim_order_inj: "claim_order x = claim_order y \<Longrightarrow> row_id x = row_id y"
  by (simp add: claim_order_def)

lemma dead_not_claimable [simp]: "\<not> claimable now (dead_row t err r)"
  by (simp add: claimable_def dead_row_def)

lemma claim_headD:
  "claim_head now tbl r \<Longrightarrow> r \<in> set tbl"
  "claim_head now tbl r \<Longrightarrow> claimable now r"
  "claim_head now tbl r \<Longrightarrow> x \<in> set tbl \<Longrightarrow> claimable now x \<Longrightarrow> claim_order r \<le> claim_order x"
  by (auto simp: claim_head_def)

lemma mem_buried:
  assumes keyed: "keyed row_id tbl" and head: "claim_head now tbl r0"
    and "x \<in> set (buried_table moment who deadline now r0 tbl)" and "claimable now x"
  shows "x \<in> set tbl \<and> row_id x \<noteq> row_id r0"
proof -
  let ?b = "buried_table moment who deadline now r0 tbl"
  have get: "tbl_get row_id (row_id x) ?b = Some x"
    using assms(3) by (rule tbl_get_mem[OF keyed_buried[OF keyed]])
  with get_buried[OF keyed head, of "row_id x" moment who deadline] assms(4)
  have "row_id x \<noteq> row_id r0 \<and> tbl_get row_id (row_id x) tbl = Some x"
    by (auto split: if_splits)
  then show ?thesis by (auto dest: tbl_get_Some)
qed

lemma mem_buried_other:
  assumes keyed: "keyed row_id tbl" and head: "claim_head now tbl r0"
    and "x \<in> set tbl" and "row_id x \<noteq> row_id r0"
  shows "x \<in> set (buried_table moment who deadline now r0 tbl)"
proof -
  have "tbl_get row_id (row_id x) (buried_table moment who deadline now r0 tbl) = Some x"
    using get_buried[OF keyed head, of "row_id x" moment who deadline] assms(3,4)
      tbl_get_mem[OF keyed] by simp
  then show ?thesis by (blast dest: tbl_get_Some)
qed

lemma claimed_from_granted:
  assumes keyed: "keyed row_id tbl" and head: "claim_head now tbl r"
  shows "claimed_from who deadline now r tbl (granted_table who deadline now r tbl)"
proof -
  have "row_after_claim who deadline now r (tbl_get row_id i tbl)
      (if i = row_id r then Some (take_row who deadline now r) else tbl_get row_id i tbl)" for i
  proof (cases "tbl_get row_id i tbl")
    case None
    then show ?thesis
      using tbl_get_mem[OF keyed claim_headD(1)[OF head]] by (auto simp: row_after_claim_def)
  next
    case (Some x)
    then have x: "x \<in> set tbl" "row_id x = i" by (auto dest: tbl_get_Some)
    then have "\<not> (claimable now x \<and> claim_order x < claim_order r)"
      using claim_headD(3)[OF head x(1)] by auto
    then show ?thesis using Some x(2) by (auto simp: row_after_claim_def)
  qed
  then show ?thesis by (simp add: claimed_from_def get_granted[OF keyed head])
qed

lemma claimed_from_buried:
  assumes keyed: "keyed row_id tbl" and head: "claim_head now tbl r0" and "spent r0"
    and later: "claimed_from who deadline now r
      (buried_table moment who deadline now r0 tbl) tbl'"
    and other: "row_id r \<noteq> row_id r0" and ahead: "claim_order r0 < claim_order r"
  shows "claimed_from who deadline now r tbl tbl'"
  unfolding claimed_from_def
proof
  fix i
  have r0: "tbl_get row_id (row_id r0) tbl = Some r0"
    by (rule tbl_get_mem[OF keyed claim_headD(1)[OF head]])
  note step = later[unfolded claimed_from_def, rule_format, of i,
      unfolded get_buried[OF keyed head]]
  show "row_after_claim who deadline now r (tbl_get row_id i tbl) (tbl_get row_id i tbl')"
  proof (cases "i = row_id r0")
    case True
    then show ?thesis
      using step other ahead \<open>spent r0\<close> claim_headD(2)[OF head] r0
      by (auto simp: row_after_claim_def)
  next
    case False
    then show ?thesis using step by simp
  qed
qed

lemma claim_loop_hands_out:
  assumes "keyed row_id tbl" and "claim_loop n later who deadline now tbl = (Some task, tbl')"
  shows "\<exists>r. healthy_head now tbl r \<and> task = build_task (take_row who deadline now r) \<and>
    claimed_from who deadline now r tbl tbl'"
  using assms
proof (induction n arbitrary: tbl)
  case 0
  then show ?case by simp
next
  case (Suc n)
  note keyed = Suc.prems(1)
  show ?case
  proof (cases rule: claim_loop_cases[OF keyed, of n later who deadline now])
    case 1
    then show ?thesis using Suc.prems(2) by simp
  next
    case (3 r)
    have head: "healthy_head now tbl r"
      using 3(1,2) by (auto simp: healthy_head_def claim_head_def)
    have res: "task = build_task (take_row who deadline now r)"
      "tbl' = granted_table who deadline now r tbl"
      using 3(3) Suc.prems(2) by simp_all
    have "claimed_from who deadline now r tbl tbl'"
      unfolding res(2) by (rule claimed_from_granted[OF keyed 3(1)])
    with head res(1) show ?thesis by blast
  next
    case (2 r0)
    let ?b = "buried_table (later n) who deadline now r0 tbl"
    have "claim_loop n later who deadline now ?b = (Some task, tbl')"
      using 2(3) Suc.prems(2) by simp
    with Suc.IH[OF keyed_buried[OF keyed]] obtain r where
      r: "healthy_head now ?b r" "task = build_task (take_row who deadline now r)"
        "claimed_from who deadline now r ?b tbl'"
      by blast
    have mem: "r \<in> set tbl" "row_id r \<noteq> row_id r0" and ok: "claimable now r" "\<not> spent r"
      using mem_buried[OF keyed 2(1)] r(1) by (auto simp: healthy_head_def)
    have least: "claim_order r \<le> claim_order x"
      if "x \<in> set tbl" "claimable now x" "\<not> spent x" for x
    proof -
      have "row_id x \<noteq> row_id r0"
        using that(3) 2(2) keyed_unique[OF keyed that(1) claim_headD(1)[OF 2(1)]] by blast
      then show ?thesis
        using mem_buried_other[OF keyed 2(1) that(1)] r(1) that by (auto simp: healthy_head_def)
    qed
    have "claim_order r0 < claim_order r"
      using claim_headD(3)[OF 2(1) mem(1) ok(1)] claim_order_inj[of r0 r] mem(2)
      by (metis order_le_less)
    then have "claimed_from who deadline now r tbl tbl'"
      using claimed_from_buried[OF keyed 2(1,2) r(3) mem(2)] by blast
    with mem ok least r(2) show ?thesis by (auto simp: healthy_head_def)
  qed
qed


text \<open>
  Claim C6: a claim that returns a task hands out the oldest claimable task that still has an
  attempt left, in the order of (enqueued_at, id). That row becomes in-flight under the
  claimant, with its attempt counted and its visibility pushed to the deadline; the claimable
  rows ahead of it, which have no attempt left, are dead-lettered; every other row is as it was.
\<close>

theorem claim_hands_out_oldest:
  assumes "keyed row_id tbl" and "claim later who visibility now tbl = (Some task, tbl')"
  shows "\<exists>r. healthy_head now tbl r \<and>
    task = build_task (take_row who (now + visibility) now r) \<and>
    claimed_from who (now + visibility) now r tbl tbl'"
  using assms unfolding claim_def by (rule claim_loop_hands_out)

definition row0 :: "string \<Rightarrow> task_status \<Rightarrow> int \<Rightarrow> instant \<Rightarrow> task_row" where
  "row0 i st n seen =
     \<lparr>row_id = i, source_id = ''docs'', row_mode = ''incremental'', payload = [], status = st,
      attempts = n, max_attempts = 3, owner = (if st = INFLIGHT then Some ''w0'' else None),
      visible_at = seen, enqueued_at = seen, updated_at = seen, last_error = None\<rparr>"

lemmas eval_claim = row0_def keyed_def claim_def CLAIM_ATTEMPTS_def claim_statement_def
  claim_update_def claim_select_def claimable_def claim_order_def tbl_update_def
  tbl_update_returning_def build_task_def take_row_def dead_letter_def dead_row_def
  has_claimable_def numeral_eq_Suc Let_def

theorem claim_hands_out_oldest_witness:
  "\<exists>r. healthy_head 10 [row0 ''a'' INFLIGHT 3 1, row0 ''b'' PENDING 0 2] r \<and>
     fst (claim (\<lambda>_. 11) ''w1'' 5 10 [row0 ''a'' INFLIGHT 3 1, row0 ''b'' PENDING 0 2]) =
       Some (build_task (take_row ''w1'' 15 10 r))"
proof -
  let ?tbl = "[row0 ''a'' INFLIGHT 3 1, row0 ''b'' PENDING 0 2]"
  have k: "keyed row_id ?tbl" by (simp add: keyed_def row0_def)
  have c: "claim (\<lambda>_. 11) ''w1'' 5 10 ?tbl =
      (Some (build_task (take_row ''w1'' 15 10 (row0 ''b'' PENDING 0 2))),
       snd (claim (\<lambda>_. 11) ''w1'' 5 10 ?tbl))"
    by (simp add: eval_claim)
  from claim_hands_out_oldest[OF k c] show ?thesis by (auto simp: c[THEN arg_cong[of _ _ fst]])
qed

section \<open>When a claim hands out nothing\<close>

definition spent_ahead :: "instant \<Rightarrow> task_table \<Rightarrow> nat" where
  "spent_ahead now tbl = length (filter (\<lambda>r. claimable now r \<and> spent r) tbl)"

lemma buried_as_map:
  "buried_table moment who deadline now r tbl =
     map (\<lambda>x. if row_id x = row_id r
              then dead_row moment ''exceeded max_attempts before running''
                (if claimable now x then take_row who deadline now x else x)
              else x) tbl"
  by (simp add: dead_letter_def tbl_update_def o_def)

lemma spent_ahead_buried:
  assumes "claim_head now tbl r" and "spent r"
  shows "spent_ahead now (buried_table moment who deadline now r tbl) < spent_ahead now tbl"
  unfolding spent_ahead_def buried_as_map
  by (rule length_filter_map_less[where y = r])
    (use assms in \<open>auto simp: claim_headD split: if_splits\<close>)

lemma claim_loop_finds:
  assumes "keyed row_id tbl" and "spent_ahead now tbl < n"
    and "h \<in> set tbl" and "claimable now h" and "\<not> spent h"
  shows "\<exists>task tbl'. claim_loop n later who deadline now tbl = (Some task, tbl')"
  using assms
proof (induction n arbitrary: tbl)
  case 0
  then show ?case by simp
next
  case (Suc n)
  note keyed = Suc.prems(1)
  show ?case
  proof (cases rule: claim_loop_cases[OF keyed, of n later who deadline now])
    case 1
    then show ?thesis using Suc.prems(3,4) by (auto simp: has_claimable_def filter_empty_conv)
  next
    case (2 r)
    let ?b = "buried_table (later n) who deadline now r tbl"
    have "row_id h \<noteq> row_id r"
      using Suc.prems(3,5) 2(2) keyed_unique[OF keyed _ claim_headD(1)[OF 2(1)]] by blast
    then have "h \<in> set ?b" by (rule mem_buried_other[OF keyed 2(1) Suc.prems(3)])
    moreover have "spent_ahead now ?b < n"
      using spent_ahead_buried[OF 2(1,2), of "later n" who deadline] Suc.prems(2) by linarith
    ultimately show ?thesis
      using Suc.IH[OF keyed_buried[OF keyed]] Suc.prems(4,5) 2(3) by simp
  next
    case (3 r)
    then show ?thesis by simp
  qed
qed

text \<open>
  When some claimable task still has an attempt left and fewer than CLAIM_ATTEMPTS
  (eight) claimable rows have run out of attempts, a claim hands out a task.
\<close>

theorem claim_finds_work:
  assumes "keyed row_id tbl" and "spent_ahead now tbl < CLAIM_ATTEMPTS"
    and "h \<in> set tbl" and "claimable now h" and "\<not> spent h"
  shows "\<exists>task tbl'. claim later who visibility now tbl = (Some task, tbl')"
  using assms unfolding claim_def by (rule claim_loop_finds)

theorem claim_finds_work_witness:
  "\<exists>task tbl'. claim (\<lambda>_. 11) ''w1'' 5 10 [row0 ''a'' INFLIGHT 3 1, row0 ''b'' PENDING 0 2] =
     (Some task, tbl')"
  by (rule claim_finds_work[where h = "row0 ''b'' PENDING 0 2"])
    (simp_all add: keyed_def row0_def spent_ahead_def claimable_def spent_def CLAIM_ATTEMPTS_def)

text \<open>Eight in-flight rows on their last attempt, lapsed, ahead of a fresh task.\<close>

definition clogged :: task_table where
  "clogged = map (\<lambda>i. row0 i INFLIGHT 3 1) [''a'', ''b'', ''c'', ''d'', ''e'', ''f'', ''g'', ''h'']
     @ [row0 ''z'' PENDING 0 2]"

text \<open>
  The bound is sharp, and a None is not proof of an empty queue. With eight claimable
  rows that have run out of attempts ahead of a healthy one, the claim spends its eight tries
  burying them and returns None although the healthy task is still claimable.
\<close>

theorem claim_gives_up_with_work_left:
  "fst (claim (\<lambda>_. 11) ''w1'' 5 10 clogged) = None \<and>
   has_claimable 10 (snd (claim (\<lambda>_. 11) ''w1'' 5 10 clogged))"
  by code_simp

section \<open>Two claims racing for one row\<close>

text \<open>
  Two claims never both win a row. Whatever tables the two sub-selects saw, once the
  first update has committed, a second update that chose the same row returns nothing, as long
  as the second claimant's clock has not passed the first one's deadline.
\<close>

theorem claim_race_has_one_winner:
  assumes "claim_update a deadline_a now_a chosen_a tbl = (won # others, tbl1)"
    and "keyed row_id tbl"
    and "now_b < deadline_a"
  shows "fst (claim_update b deadline_b now_b (Some (row_id won)) tbl1) = []"
proof -
  obtain i where i: "chosen_a = Some i"
    using assms(1) by (auto simp: claim_update_def split: option.splits)
  let ?p = "\<lambda>r. row_id r = i \<and> claimable now_a r"
  have won: "won # others = map (take_row a deadline_a now_a) (filter ?p tbl)"
    and tbl1: "tbl1 = tbl_update ?p (take_row a deadline_a now_a) tbl"
    using assms(1) by (simp_all add: claim_update_def i tbl_update_returning_def)
  from won obtain r rs where rs: "filter ?p tbl = r # rs" and won_r: "won = take_row a deadline_a now_a r"
    by (cases "filter ?p tbl") auto
  have r: "r \<in> set tbl" "?p r"
    using rs by (auto dest: filter_eq_ConsD)
  have "\<not> claimable now_b x" if "x \<in> set tbl1" "row_id x = row_id won" for x
  proof -
    note mem = that
    obtain y where y: "y \<in> set tbl" "x = (if ?p y then take_row a deadline_a now_a y else y)"
      using mem(1) unfolding tbl1 set_tbl_update by blast
    have "row_id y = row_id r" using y(2) mem(2) by (simp add: won_r split: if_splits)
    then have "y = r" by (rule keyed_unique[OF assms(2) y(1) r(1)])
    then have "x = take_row a deadline_a now_a r" using y(2) r(2) by simp
    then show ?thesis using assms(3) by (simp add: claimable_def take_row_def)
  qed
  then show ?thesis
    by (auto simp: claim_update_def tbl_update_returning_def filter_empty_conv)
qed

theorem claim_race_has_one_winner_witness:
  "fst (claim_update ''w2'' 20 11 (Some ''b'')
     (snd (claim_update ''w1'' 15 10 (Some ''b'') [row0 ''b'' PENDING 0 2]))) = []"
  using claim_race_has_one_winner[where a = "''w1''" and deadline_a = 15 and now_a = 10
      and chosen_a = "Some ''b''" and tbl = "[row0 ''b'' PENDING 0 2]" and now_b = 11
      and b = "''w2''" and deadline_b = 20]
  by (simp add: claim_update_def tbl_update_returning_def tbl_update_def claimable_def
      take_row_def row0_def keyed_def)

end
