(* ===== verification/QueueLife.thy ===== *)
theory QueueLife
  imports QueueProps
begin

text \<open>
  The queue as a state machine: \<open>queue_step tbl t tbl'\<close> is one call of a \<open>LocalQueue\<close> method by
  any process at any instant, where \<open>t\<close> is the task it handed out, if any. Workers whose claim
  lapsed still call \<open>ack\<close>, \<open>nack\<close> and \<open>heartbeat\<close>, so those steps take an arbitrary task.
\<close>

inductive work_step :: "task_table \<Rightarrow> index_task option \<Rightarrow> task_table \<Rightarrow> bool" where
  claims: "claim later who visibility now tbl = (t, tbl') \<Longrightarrow> work_step tbl t tbl'"
| acks: "work_step tbl None (ack now task tbl)"
| nacks: "work_step tbl None (nack now retry_in task err tbl)"
| beats: "work_step tbl None (heartbeat visibility now task tbl)"
| purges: "work_step tbl None (snd (purge_completed older now tbl))"

inductive queue_step :: "task_table \<Rightarrow> index_task option \<Rightarrow> task_table \<Rightarrow> bool" where
  works: "work_step tbl t tbl' \<Longrightarrow> queue_step tbl t tbl'"
| publishes: "queue_step tbl None (publish now task tbl)"
| requeues: "queue_step tbl None (snd (requeue_dead now tbl))"

inductive queue_reachable :: "task_table \<Rightarrow> bool" where
  start: "queue_reachable []"
| step: "queue_reachable tbl \<Longrightarrow> queue_step tbl t tbl' \<Longrightarrow> queue_reachable tbl'"

section \<open>What one claim does to one row\<close>

inductive claim_change ::
    "index_task option \<Rightarrow> string \<Rightarrow> instant \<Rightarrow> instant \<Rightarrow> string \<Rightarrow>
     task_row option \<Rightarrow> task_row option \<Rightarrow> bool"
  for t who deadline now where
  kept: "(\<And>task. t = Some task \<Longrightarrow> t_id task \<noteq> i) \<Longrightarrow> claim_change t who deadline now i old old"
| buried: "(\<And>task. t = Some task \<Longrightarrow> t_id task \<noteq> i) \<Longrightarrow> claimable now x \<Longrightarrow> spent x \<Longrightarrow>
    claim_change t who deadline now i (Some x) (Some (dead_row m err (take_row who deadline now x)))"
| granted: "t = Some (build_task (take_row who deadline now x)) \<Longrightarrow> i = row_id x \<Longrightarrow>
    claimable now x \<Longrightarrow> \<not> spent x \<Longrightarrow>
    claim_change t who deadline now i (Some x) (Some (take_row who deadline now x))"

lemma claim_change_from_dead:
  assumes "claim_change t who deadline now i old new" and "old = Some (dead_row m err x)"
  shows "new = old \<and> (\<forall>task. t = Some task \<longrightarrow> t_id task \<noteq> i)"
  using assms by (cases rule: claim_change.cases) auto

lemma claim_loop_change:
  assumes "keyed row_id tbl" and "claim_loop n later who deadline now tbl = (t, tbl')"
  shows "claim_change t who deadline now i (tbl_get row_id i tbl) (tbl_get row_id i tbl')"
  using assms
proof (induction n arbitrary: tbl)
  case 0
  then show ?case by (auto intro: claim_change.kept)
next
  case (Suc n)
  note keyed = Suc.prems(1)
  show ?case
  proof (cases rule: claim_loop_cases[OF keyed, of n later who deadline now])
    case 1
    then show ?thesis using Suc.prems(2) by (auto intro: claim_change.kept)
  next
    case (2 r)
    let ?b = "buried_table (later n) who deadline now r tbl"
    have IH: "claim_change t who deadline now i (tbl_get row_id i ?b) (tbl_get row_id i tbl')"
      using Suc.IH[OF keyed_buried[OF keyed]] 2(3) Suc.prems(2) by simp
    have r: "tbl_get row_id (row_id r) tbl = Some r"
      by (rule tbl_get_mem[OF keyed claim_headD(1)[OF 2(1)]])
    show ?thesis
    proof (cases "i = row_id r")
      case True
      then have b: "tbl_get row_id i ?b = Some (dead_row (later n)
          ''exceeded max_attempts before running'' (take_row who deadline now r))"
        by (simp add: get_buried[OF keyed 2(1)])
      from claim_change_from_dead[OF IH b] b r True 2(2) claim_headD(2)[OF 2(1)] show ?thesis
        by (auto intro: claim_change.buried)
    next
      case False
      then show ?thesis using IH by (simp add: get_buried[OF keyed 2(1)])
    qed
  next
    case (3 r)
    have r: "tbl_get row_id (row_id r) tbl = Some r"
      by (rule tbl_get_mem[OF keyed claim_headD(1)[OF 3(1)]])
    have res: "t = Some (build_task (take_row who deadline now r))"
      "tbl' = granted_table who deadline now r tbl"
      using 3(3) Suc.prems(2) by simp_all
    show ?thesis
      unfolding res get_granted[OF keyed 3(1)]
      using r claim_headD(2)[OF 3(1)] 3(2)
      by (auto intro: claim_change.granted claim_change.kept)
  qed
qed

lemma claim_row_change:
  "keyed row_id tbl \<Longrightarrow> claim later who visibility now tbl = (t, tbl') \<Longrightarrow>
   claim_change t who (now + visibility) now i (tbl_get row_id i tbl) (tbl_get row_id i tbl')"
  unfolding claim_def by (rule claim_loop_change)

lemma keyed_claim [keyed_intros]:
  "keyed row_id tbl \<Longrightarrow> claim later who visibility now tbl = (t, tbl') \<Longrightarrow> keyed row_id tbl'"
  unfolding claim_def by (metis keyed_claim_loop snd_conv)

lemma work_step_keyed: "work_step tbl t tbl' \<Longrightarrow> keyed row_id tbl \<Longrightarrow> keyed row_id tbl'"
  by (induction rule: work_step.induct) (auto intro: keyed_intros)

lemma queue_step_keyed: "queue_step tbl t tbl' \<Longrightarrow> keyed row_id tbl \<Longrightarrow> keyed row_id tbl'"
  by (induction rule: queue_step.induct) (auto intro: keyed_intros work_step_keyed)

lemma get_requeue [table_simps]:
  "tbl_get row_id i (snd (requeue_dead now tbl)) =
     map_option (\<lambda>r. if status r = DEAD then requeue_row now r else r) (tbl_get row_id i tbl)"
  by (simp add: requeue_dead_def tbl_get_update)

lemma get_purge [table_simps]:
  "keyed row_id tbl \<Longrightarrow> tbl_get row_id i (snd (purge_completed older now tbl)) =
     (case tbl_get row_id i tbl of None \<Rightarrow> None
      | Some r \<Rightarrow> if status r = DONE \<and> updated_at r < now - max 0 older then None else Some r)"
  by (simp add: purge_completed_def Let_def tbl_get_delete)

section \<open>The lifecycle of a task\<close>

text \<open>
  The abstract machine one task id goes through: absent, or a status with an attempt count.
\<close>

inductive life :: "(task_status \<times> int) option \<Rightarrow> (task_status \<times> int) option \<Rightarrow> bool" where
  stay: "life x x"
| enqueue: "life None (Some (PENDING, 0))"
| rearm: "life (Some (DONE, n)) (Some (PENDING, 0))"
| take: "s = PENDING \<or> s = INFLIGHT \<Longrightarrow> life (Some (s, n)) (Some (INFLIGHT, n + 1))"
| bury: "s = PENDING \<or> s = INFLIGHT \<Longrightarrow> life (Some (s, n)) (Some (DEAD, n + 1))"
| finish: "life (Some (s, n)) (Some (DONE, n))"
| retry: "life (Some (s, n)) (Some (PENDING, n))"
| give_up: "life (Some (s, n)) (Some (DEAD, n))"
| replay: "life (Some (DEAD, n)) (Some (PENDING, 0))"
| purge: "life (Some (DONE, n)) None"

lemma claim_change_life:
  "claim_change t who deadline now i old new \<Longrightarrow>
   life (map_option (\<lambda>r. (status r, attempts r)) old) (map_option (\<lambda>r. (status r, attempts r)) new)"
  by (induction rule: claim_change.induct)
    (auto simp: take_row_def dead_row_def claimable_def intro: life.intros)

lemma work_step_life:
  "work_step tbl t tbl' \<Longrightarrow> keyed row_id tbl \<Longrightarrow> life (view tbl i) (view tbl' i)"
proof (induction rule: work_step.induct)
  case (claims later who visibility now tbl t tbl')
  then show ?case unfolding view_def by (blast intro: claim_change_life claim_row_change)
next
  case (acks tbl now task)
  then show ?case
    by (cases "tbl_get row_id i tbl") (auto simp: view_def get_ack ack_row_def intro: life.intros)
next
  case (nacks tbl now d task err)
  then show ?case
    by (cases "tbl_get row_id i tbl")
      (auto simp: view_def get_nack retry_row_def dead_row_def intro: life.intros)
next
  case (beats tbl v now task)
  then show ?case
    by (cases "tbl_get row_id i tbl")
      (auto simp: view_def get_heartbeat beat_row_def intro: life.intros)
next
  case (purges tbl older now)
  then show ?case
    by (cases "tbl_get row_id i tbl") (auto simp: view_def get_purge intro: life.intros)
qed




text \<open>
  No call checks who holds the task. A worker whose claim lapsed and was finished by
  another still brings the finished task back to pending with its late nack, and a late ack
  turns a dead letter into a done task.
\<close>

theorem late_calls_override:
  assumes "tbl_get row_id (t_id task) tbl = Some r" and "t_attempts task < t_max_attempts task"
  shows "view (nack now retry_in task err tbl) (t_id task) = Some (PENDING, attempts r) \<and>
    view (ack now task tbl) (t_id task) = Some (DONE, attempts r)"
  using assms tbl_get_Some[OF assms(1)]
  by (auto simp: view_def get_nack get_ack retry_row_def ack_row_def)

theorem late_calls_override_witness:
  "view (nack 9 0 (build_task (row0 ''b'' PENDING 1 2)) ''boom'' [row0 ''b'' DONE 2 2]) ''b'' =
     Some (PENDING, 2) \<and>
   view (ack 9 (build_task (row0 ''b'' PENDING 1 2)) [row0 ''b'' DEAD 3 2]) ''b'' = Some (DONE, 3)"
  using late_calls_override[of "build_task (row0 ''b'' PENDING 1 2)" "[row0 ''b'' DONE 2 2]"
      "row0 ''b'' DONE 2 2" 9 0 "''boom''"]
    late_calls_override[of "build_task (row0 ''b'' PENDING 1 2)" "[row0 ''b'' DEAD 3 2]"
      "row0 ''b'' DEAD 3 2" 9 0 "''boom''"]
  by (simp add: row0_def)

section \<open>The row invariant\<close>

text \<open>
  An owner is recorded exactly while a task is in flight, an attempt count is never negative,
  and a task in flight is on an attempt within its cap.
\<close>

definition row_ok :: "task_row \<Rightarrow> bool" where
  "row_ok r \<longleftrightarrow> (owner r \<noteq> None \<longleftrightarrow> status r = INFLIGHT) \<and> 0 \<le> attempts r \<and>
     (status r = INFLIGHT \<longrightarrow> 1 \<le> attempts r \<and> attempts r \<le> max_attempts r)"

definition queue_inv :: "task_table \<Rightarrow> bool" where
  "queue_inv tbl \<longleftrightarrow> keyed row_id tbl \<and> (\<forall>i r. tbl_get row_id i tbl = Some r \<longrightarrow> row_ok r)"

lemma row_ok_results [intro]:
  "row_ok (fresh_row now task)"
  "row_ok r \<Longrightarrow> row_ok (rearm_row now task r)"
  "row_ok r \<Longrightarrow> row_ok (ack_row now r)"
  "row_ok r \<Longrightarrow> row_ok (dead_row now err r)"
  "row_ok r \<Longrightarrow> row_ok (retry_row now d err r)"
  "row_ok r \<Longrightarrow> row_ok (beat_row now v r)"
  "row_ok r \<Longrightarrow> row_ok (requeue_row now r)"
  "row_ok r \<Longrightarrow> \<not> spent r \<Longrightarrow> row_ok (take_row who deadline now r)"
  "row_ok r \<Longrightarrow> row_ok (dead_row m err (take_row who deadline now r))"
  by (auto simp: row_ok_def row_defs spent_def)

lemma claim_change_ok:
  "claim_change t who deadline now i old new \<Longrightarrow> (\<And>r. old = Some r \<Longrightarrow> row_ok r) \<Longrightarrow>
   new = Some r' \<Longrightarrow> row_ok r'"
  by (induction rule: claim_change.induct) auto

lemma work_step_inv: "work_step tbl t tbl' \<Longrightarrow> queue_inv tbl \<Longrightarrow> queue_inv tbl'"
proof (induction rule: work_step.induct)
  case (claims later who visibility now tbl t tbl')
  then show ?case
    unfolding queue_inv_def
    by (metis keyed_claim claim_row_change claim_change_ok)
qed (auto simp: queue_inv_def get_ack get_nack get_heartbeat get_purge keyed_statements
    split: if_splits option.splits)

lemma queue_step_inv: "queue_step tbl t tbl' \<Longrightarrow> queue_inv tbl \<Longrightarrow> queue_inv tbl'"
proof (induction rule: queue_step.induct)
  case (works tbl t tbl')
  then show ?case by (rule work_step_inv)
qed (auto simp: queue_inv_def get_publish get_requeue keyed_statements
    split: if_splits option.splits)

text \<open>
  In every reachable table task ids are unique and every row is consistent: an owner
  is recorded exactly while the task is in flight, and a task in flight is on an attempt
  between one and its cap.
\<close>

theorem queue_invariant: "queue_reachable tbl \<Longrightarrow> queue_inv tbl"
proof (induction rule: queue_reachable.induct)
  case start
  show ?case by (simp add: queue_inv_def keyed_def)
next
  case (step tbl t tbl')
  then show ?case by (blast intro: queue_step_inv)
qed

theorem queue_invariant_witness:
  "queue_inv (publish 2 (build_task (row0 ''b'' PENDING 0 2)) [])"
  by (rule queue_invariant[OF queue_reachable.step[OF queue_reachable.start queue_step.publishes]])

section \<open>The cap on attempts\<close>

text \<open>The tasks a run of worker calls hands out, in order.\<close>

inductive work_run :: "task_table \<Rightarrow> index_task list \<Rightarrow> task_table \<Rightarrow> bool" where
  none: "work_run tbl [] tbl"
| quiet: "work_step tbl None tbl1 \<Longrightarrow> work_run tbl1 ts tbl' \<Longrightarrow> work_run tbl ts tbl'"
| hand: "work_step tbl (Some t) tbl1 \<Longrightarrow> work_run tbl1 ts tbl' \<Longrightarrow> work_run tbl (t # ts) tbl'"

definition attempts_left :: "task_table \<Rightarrow> string \<Rightarrow> nat" where
  "attempts_left tbl i =
     (case tbl_get row_id i tbl of None \<Rightarrow> 0 | Some r \<Rightarrow> nat (max_attempts r - attempts r))"

lemma claim_change_left:
  "claim_change t who deadline now i old new \<Longrightarrow>
   (case new of None \<Rightarrow> 0 | Some r \<Rightarrow> nat (max_attempts r - attempts r)) +
     (if \<exists>task. t = Some task \<and> t_id task = i then 1 else 0)
   \<le> (case old of None \<Rightarrow> 0 | Some r \<Rightarrow> nat (max_attempts r - attempts r))"
  by (induction rule: claim_change.induct) (auto simp: take_row_def dead_row_def spent_def)

lemma work_step_left:
  "work_step tbl t tbl' \<Longrightarrow> keyed row_id tbl \<Longrightarrow>
   attempts_left tbl' i + (if \<exists>task. t = Some task \<and> t_id task = i then 1 else 0)
     \<le> attempts_left tbl i"
proof (induction rule: work_step.induct)
  case (claims later who visibility now tbl t tbl')
  then show ?case unfolding attempts_left_def by (blast intro: claim_change_left claim_row_change)
qed (auto simp: attempts_left_def get_ack get_nack get_heartbeat get_purge row_defs
    split: option.splits)

text \<open>
  Between two publishes or replays, a task is handed out at most as often as its row
  has attempts left, however claims, late acks, late nacks, heartbeats and purges interleave.
\<close>

theorem attempts_are_capped:
  assumes "work_run tbl ts tbl'" and "keyed row_id tbl"
  shows "count_list (map t_id ts) i \<le> attempts_left tbl i"
  using assms
proof (induction rule: work_run.induct)
  case (none tbl)
  then show ?case by simp
next
  case (quiet tbl tbl1 ts tbl')
  then show ?case
    using work_step_left[OF quiet(1), of i] work_step_keyed[OF quiet(1)] by fastforce
next
  case (hand tbl t tbl1 ts tbl')
  then show ?case
    using work_step_left[OF hand(1), of i] work_step_keyed[OF hand(1)] by fastforce
qed

theorem attempts_are_capped_witness:
  "count_list (map t_id [build_task (take_row ''w1'' 15 10 (row0 ''b'' PENDING 0 2))]) ''b''
     \<le> attempts_left [row0 ''b'' PENDING 0 2] ''b''"
proof (rule attempts_are_capped)
  have "claim (\<lambda>_. 11) ''w1'' 5 10 [row0 ''b'' PENDING 0 2] =
      (Some (build_task (take_row ''w1'' 15 10 (row0 ''b'' PENDING 0 2))),
       [take_row ''w1'' 15 10 (row0 ''b'' PENDING 0 2)])"
    by (simp add: eval_claim)
  then show "work_run [row0 ''b'' PENDING 0 2]
      [build_task (take_row ''w1'' 15 10 (row0 ''b'' PENDING 0 2))]
      [take_row ''w1'' 15 10 (row0 ''b'' PENDING 0 2)]"
    by (intro work_run.hand[OF work_step.claims work_run.none])
  show "keyed row_id [row0 ''b'' PENDING 0 2]" by (simp add: keyed_def)
qed

end
