(* ===== verification/Drain.thy ===== *)
theory Drain
  imports QueueLife
begin

text \<open>
  The worker loop \<open>drain\<close> of \<open>src/pheasant/sync/queue.py\<close> over any backend, the contract of a
  backend as the locale \<open>task_queue\<close> (the abstract class \<open>TaskQueue\<close>), and \<open>LocalQueue\<close> as its
  interpretation. The k-th pass of the loop reads the clocks through the operations' first
  argument; \<open>q_beats\<close> is the keepalive thread's heartbeats while the handler of that pass runs.
\<close>

record ('q, 't) queue_ops =
  q_claim :: "nat \<Rightarrow> 'q \<Rightarrow> 't option \<times> 'q"
  q_beats :: "nat \<Rightarrow> 't \<Rightarrow> 'q \<Rightarrow> 'q"
  q_ack :: "nat \<Rightarrow> 't \<Rightarrow> 'q \<Rightarrow> 'q"
  q_nack :: "nat \<Rightarrow> 't \<Rightarrow> string \<Rightarrow> 'q \<Rightarrow> 'q"

text \<open>
  \<open>drain\<close>: \<open>idle k\<close> is the monotonic clock in pass \<open>k\<close>; a handler returns an error for an
  exception. None is running out of fuel.
\<close>

fun drain ::
    "nat \<Rightarrow> ('q, 't) queue_ops \<Rightarrow> ('t \<Rightarrow> string + 'r) \<Rightarrow> (nat \<Rightarrow> int) \<Rightarrow> int option \<Rightarrow> int \<Rightarrow>
     nat \<Rightarrow> int option \<Rightarrow> 'r list \<Rightarrow> 'q \<Rightarrow> ('r list \<times> 'q) option" where
  "drain 0 ops handler idle max_tasks idle_timeout k idle_since results q = None"
| "drain (Suc fuel) ops handler idle max_tasks idle_timeout k idle_since results q =
     (if (case max_tasks of None \<Rightarrow> True | Some m \<Rightarrow> int (length results) < m) then
        (case q_claim ops k q of
           (None, q1) \<Rightarrow>
             if idle_timeout \<le> 0 then Some (results, q1)
             else (case idle_since of
                 None \<Rightarrow>
                   drain fuel ops handler idle max_tasks idle_timeout (Suc k) (Some (idle k)) results q1
               | Some since \<Rightarrow>
                   if idle_timeout \<le> idle k - since then Some (results, q1)
                   else drain fuel ops handler idle max_tasks idle_timeout (Suc k) idle_since results q1)
         | (Some task, q1) \<Rightarrow>
             (case handler task of
                Inl err \<Rightarrow>
                  drain fuel ops handler idle max_tasks idle_timeout (Suc k) None results
                    (q_nack ops k task err (q_beats ops k task q1))
              | Inr res \<Rightarrow>
                  drain fuel ops handler idle max_tasks idle_timeout (Suc k) None (results @ [res])
                    (q_ack ops k task (q_beats ops k task q1))))
      else Some (results, q))"

definition heartbeat_interval :: "rat \<Rightarrow> rat" where
  "heartbeat_interval visibility = min MAX_HEARTBEAT_INTERVAL_SECONDS (max 1 (visibility / 3))"

section \<open>The contract of a backend\<close>

text \<open>
  \<open>ok q\<close>: the claimant holds nothing. \<open>held q t\<close>: it holds exactly \<open>t\<close>. \<open>work q\<close> bounds the
  claims the queue can still grant.
\<close>

locale task_queue =
  fixes ops :: "('q, 't) queue_ops"
    and ok :: "'q \<Rightarrow> bool"
    and held :: "'q \<Rightarrow> 't \<Rightarrow> bool"
    and work :: "'q \<Rightarrow> nat"
  assumes claim_none: "ok q \<Longrightarrow> q_claim ops k q = (None, q1) \<Longrightarrow> ok q1 \<and> work q1 \<le> work q"
    and claim_some: "ok q \<Longrightarrow> q_claim ops k q = (Some t, q1) \<Longrightarrow> held q1 t \<and> work q1 < work q"
    and beats_hold: "held q t \<Longrightarrow> held (q_beats ops k t q) t \<and> work (q_beats ops k t q) \<le> work q"
    and ack_settles: "held q t \<Longrightarrow> ok (q_ack ops k t q) \<and> work (q_ack ops k t q) \<le> work q"
    and nack_settles: "held q t \<Longrightarrow> ok (q_nack ops k t e q) \<and> work (q_nack ops k t e q) \<le> work q"
begin

lemma settled:
  assumes "ok q" and "q_claim ops k q = (Some t, q1)"
  shows "ok (q_ack ops k t (q_beats ops k t q1)) \<and> work (q_ack ops k t (q_beats ops k t q1)) < work q"
    and "ok (q_nack ops k t e (q_beats ops k t q1)) \<and>
      work (q_nack ops k t e (q_beats ops k t q1)) < work q"
proof -
  have h: "held q1 t" "work q1 < work q" using claim_some[OF assms] by auto
  note b = beats_hold[OF h(1), of k]
  show "ok (q_ack ops k t (q_beats ops k t q1)) \<and>
      work (q_ack ops k t (q_beats ops k t q1)) < work q"
    using ack_settles[of "q_beats ops k t q1" t k] b h(2) by fastforce
  show "ok (q_nack ops k t e (q_beats ops k t q1)) \<and>
      work (q_nack ops k t e (q_beats ops k t q1)) < work q"
    using nack_settles[of "q_beats ops k t q1" t k e] b h(2) by fastforce
qed

lemma drain_returns:
  assumes "ok q" and "idle_timeout \<le> 0" and "work q < fuel"
  shows "\<exists>results' q'. drain fuel ops handler idle max_tasks idle_timeout k since results q =
      Some (results', q') \<and> ok q' \<and> length results' \<le> length results + work q"
  using assms
proof (induction fuel arbitrary: q k since results)
  case 0
  then show ?case by simp
next
  case (Suc fuel)
  show ?case
  proof (cases "q_claim ops k q")
    case (Pair t q1)
    show ?thesis
    proof (cases t)
      case None
      then show ?thesis
        using Pair Suc.prems claim_none[of q k q1] by simp
    next
      case (Some task)
      note claimed = Suc.prems(1) Pair[unfolded Some]
      show ?thesis
      proof (cases "handler task")
        case (Inl e)
        have less: "work (q_nack ops k task e (q_beats ops k task q1)) < fuel"
          using settled(2)[OF claimed, of e] Suc.prems(3) by linarith
        from Suc.IH[OF _ Suc.prems(2) less, of "Suc k" None results] settled(2)[OF claimed, of e]
        show ?thesis using Pair Some Inl Suc.prems(1) by force
      next
        case (Inr r)
        have less: "work (q_ack ops k task (q_beats ops k task q1)) < fuel"
          using settled(1)[OF claimed] Suc.prems(3) by linarith
        from Suc.IH[OF _ Suc.prems(2) less, of "Suc k" None "results @ [r]"] settled(1)[OF claimed]
        show ?thesis using Pair Some Inr Suc.prems(1) by force
      qed
    qed
  qed
qed

end

section \<open>LocalQueue as a backend\<close>

text \<open>The clocks of a run: one record per pass of the loop.\<close>

record wall_clock =
  claim_now :: "nat \<Rightarrow> instant"
  bury_now :: "nat \<Rightarrow> nat \<Rightarrow> instant"
  beat_now :: "nat \<Rightarrow> instant list"
  settle_now :: "nat \<Rightarrow> instant"

definition local_ops :: "wall_clock \<Rightarrow> string \<Rightarrow> int \<Rightarrow> (task_table, index_task) queue_ops" where
  "local_ops clk who visibility =
     \<lparr>q_claim = (\<lambda>k. claim (bury_now clk k) who visibility (claim_now clk k)),
      q_beats = (\<lambda>k task tbl. fold (\<lambda>now. heartbeat visibility now task) (beat_now clk k) tbl),
      q_ack = (\<lambda>k. ack (settle_now clk k)),
      q_nack = (\<lambda>k. nack (settle_now clk k) (seconds 30))\<rparr>"

definition credit :: "task_row option \<Rightarrow> nat" where
  "credit x = (case x of None \<Rightarrow> 0
     | Some r \<Rightarrow> if status r = PENDING \<or> status r = INFLIGHT
         then nat (max_attempts r - attempts r) + 1 else 0)"

definition local_work :: "task_table \<Rightarrow> nat" where
  "local_work tbl = sum_list (map (\<lambda>i. credit (tbl_get row_id i tbl)) (map row_id tbl))"

definition free_of :: "string \<Rightarrow> task_row option \<Rightarrow> bool" where
  "free_of who x = (case x of None \<Rightarrow> True | Some r \<Rightarrow> owner r \<noteq> Some who)"

definition only_of :: "string \<Rightarrow> index_task \<Rightarrow> string \<Rightarrow> task_row option \<Rightarrow> bool" where
  "only_of who t i x = (case x of None \<Rightarrow> True
     | Some r \<Rightarrow> (owner r = Some who \<longrightarrow> i = t_id t) \<and>
         (i = t_id t \<longrightarrow> status r = INFLIGHT \<and> attempts r = t_attempts t \<and>
            max_attempts r = t_max_attempts t))"

definition holds_nothing :: "string \<Rightarrow> task_table \<Rightarrow> bool" where
  "holds_nothing who tbl \<longleftrightarrow> queue_inv tbl \<and> (\<forall>i. free_of who (tbl_get row_id i tbl))"

definition holds_only :: "string \<Rightarrow> task_table \<Rightarrow> index_task \<Rightarrow> bool" where
  "holds_only who tbl t \<longleftrightarrow> queue_inv tbl \<and> (\<forall>i. only_of who t i (tbl_get row_id i tbl))"

lemma local_work_le:
  "map row_id tbl' = map row_id tbl \<Longrightarrow>
   (\<And>i. credit (tbl_get row_id i tbl') \<le> credit (tbl_get row_id i tbl)) \<Longrightarrow>
   local_work tbl' \<le> local_work tbl"
  unfolding local_work_def by (simp only:) (rule sum_list_map_le)

lemma local_work_less:
  assumes "map row_id tbl' = map row_id tbl"
    and "\<And>i. credit (tbl_get row_id i tbl') \<le> credit (tbl_get row_id i tbl)"
    and "j \<in> set (map row_id tbl)"
    and "credit (tbl_get row_id j tbl') < credit (tbl_get row_id j tbl)"
  shows "local_work tbl' < local_work tbl"
  unfolding local_work_def assms(1) by (rule sum_list_map_less[where y = j]) (use assms in auto)

lemma ids_kept [simp]:
  "map row_id (ack now task tbl) = map row_id tbl"
  "map row_id (dead_letter now task err tbl) = map row_id tbl"
  "map row_id (nack now d task err tbl) = map row_id tbl"
  "map row_id (heartbeat v now task tbl) = map row_id tbl"
  "map row_id (granted_table who deadline now r tbl) = map row_id tbl"
  by (simp_all add: ack_def nack_def dead_letter_def heartbeat_def map_key_update)

lemma ids_kept_claim_loop:
  "keyed row_id tbl \<Longrightarrow>
   map row_id (snd (claim_loop n later who deadline now tbl)) = map row_id tbl"
proof (induction n arbitrary: tbl)
  case 0
  then show ?case by simp
next
  case (Suc n)
  show ?case
    by (cases rule: claim_loop_cases[OF Suc.prems, of n later who deadline now])
      (simp_all add: Suc.IH keyed_buried Suc.prems del: claim_loop.simps)
qed

lemma ids_kept_claim:
  "keyed row_id tbl \<Longrightarrow> claim later who v now tbl = (t, tbl') \<Longrightarrow> map row_id tbl' = map row_id tbl"
  unfolding claim_def by (metis ids_kept_claim_loop snd_conv)

lemma claim_change_credit:
  "claim_change t who deadline now i old new \<Longrightarrow> credit new \<le> credit old"
  by (induction rule: claim_change.induct)
    (auto simp: credit_def take_row_def dead_row_def spent_def claimable_def)

lemma claim_work_le:
  assumes "keyed row_id tbl" and "claim later who v now tbl = (t, tbl')"
  shows "local_work tbl' \<le> local_work tbl"
  by (rule local_work_le[OF ids_kept_claim[OF assms]])
    (rule claim_change_credit[OF claim_row_change[OF assms]])

lemma claim_work_less:
  assumes keyed: "keyed row_id tbl" and c: "claim later who v now tbl = (Some t, tbl')"
  shows "local_work tbl' < local_work tbl"
proof -
  from claim_loop_hands_out[OF keyed c[unfolded claim_def]] obtain r where
    r: "healthy_head now tbl r" "claimed_from who (now + v) now r tbl tbl'" by blast
  have get: "tbl_get row_id (row_id r) tbl = Some r"
    using r(1) tbl_get_mem[OF keyed] by (auto simp: healthy_head_def)
  have "tbl_get row_id (row_id r) tbl' = Some (take_row who (now + v) now r)"
    using r(2)[unfolded claimed_from_def, rule_format, of "row_id r"] get
    by (simp add: row_after_claim_def)
  then have "credit (tbl_get row_id (row_id r) tbl') < credit (tbl_get row_id (row_id r) tbl)"
    using get r(1) by (simp add: credit_def take_row_def healthy_head_def claimable_def spent_def)
  moreover have "row_id r \<in> set (map row_id tbl)" using r(1) by (simp add: healthy_head_def)
  ultimately show ?thesis
    by (intro local_work_less[OF ids_kept_claim[OF keyed c]])
      (auto intro: claim_change_credit[OF claim_row_change[OF keyed c]])
qed


lemma claim_change_none:
  "claim_change None who deadline now i old new \<Longrightarrow> free_of who old \<Longrightarrow> free_of who new"
  by (cases rule: claim_change.cases, assumption) (auto simp: free_of_def dead_row_def)

lemma claim_change_some:
  "claim_change (Some t) who deadline now i old new \<Longrightarrow> free_of who old \<Longrightarrow> only_of who t i new"
  by (cases rule: claim_change.cases, assumption)
    (auto simp: free_of_def only_of_def dead_row_def take_row_def split: option.splits)

lemma claim_none_local:
  assumes "holds_nothing who tbl" and c: "claim later who v now tbl = (None, tbl')"
  shows "holds_nothing who tbl' \<and> local_work tbl' \<le> local_work tbl"
proof -
  have inv: "queue_inv tbl" and keyed: "keyed row_id tbl"
    using assms(1) by (auto simp: holds_nothing_def queue_inv_def)
  have "free_of who (tbl_get row_id i tbl')" for i
    using claim_change_none[OF claim_row_change[OF keyed c]] assms(1)
    by (simp add: holds_nothing_def)
  then show ?thesis
    using work_step_inv[OF work_step.claims[OF c] inv] claim_work_le[OF keyed c]
    by (simp add: holds_nothing_def)
qed

lemma claim_some_local:
  assumes "holds_nothing who tbl" and c: "claim later who v now tbl = (Some t, tbl')"
  shows "holds_only who tbl' t \<and> local_work tbl' < local_work tbl"
proof -
  have inv: "queue_inv tbl" and keyed: "keyed row_id tbl"
    using assms(1) by (auto simp: holds_nothing_def queue_inv_def)
  have "only_of who t i (tbl_get row_id i tbl')" for i
    using claim_change_some[OF claim_row_change[OF keyed c]] assms(1)
    by (simp add: holds_nothing_def)
  then show ?thesis
    using work_step_inv[OF work_step.claims[OF c] inv] claim_work_less[OF keyed c]
    by (simp add: holds_only_def)
qed

lemma beat_local:
  assumes "holds_only who tbl t"
  shows "holds_only who (heartbeat v now t tbl) t \<and>
    local_work (heartbeat v now t tbl) \<le> local_work tbl"
proof -
  have inv: "queue_inv (heartbeat v now t tbl)"
    by (rule work_step_inv[OF work_step.beats]) (use assms in \<open>simp add: holds_only_def\<close>)
  have only: "only_of who t i (tbl_get row_id i (heartbeat v now t tbl))" for i
    using assms[unfolded holds_only_def, THEN conjunct2, rule_format, of i]
    by (cases "tbl_get row_id i tbl") (auto simp: get_heartbeat only_of_def beat_row_def)
  have "credit (tbl_get row_id i (heartbeat v now t tbl)) \<le> credit (tbl_get row_id i tbl)" for i
    by (cases "tbl_get row_id i tbl") (auto simp: get_heartbeat credit_def beat_row_def)
  then show ?thesis using inv only by (simp add: local_work_le holds_only_def)
qed

lemma beats_local:
  "holds_only who tbl t \<Longrightarrow>
   holds_only who (fold (\<lambda>now. heartbeat v now t) ns tbl) t \<and>
   local_work (fold (\<lambda>now. heartbeat v now t) ns tbl) \<le> local_work tbl"
proof (induction ns arbitrary: tbl)
  case Nil
  then show ?case by simp
next
  case (Cons n ns)
  note beat = beat_local[OF Cons.prems, of v n]
  from Cons.IH[OF beat[THEN conjunct1]] beat[THEN conjunct2] show ?case by simp
qed

lemma ack_local:
  assumes "holds_only who tbl t"
  shows "holds_nothing who (ack now t tbl) \<and> local_work (ack now t tbl) \<le> local_work tbl"
proof -
  have inv: "queue_inv (ack now t tbl)"
    by (rule work_step_inv[OF work_step.acks]) (use assms in \<open>simp add: holds_only_def\<close>)
  have free: "free_of who (tbl_get row_id i (ack now t tbl))" for i
    using assms[unfolded holds_only_def, THEN conjunct2, rule_format, of i]
      tbl_get_Some[of row_id i tbl]
    by (cases "tbl_get row_id i tbl") (auto simp: get_ack only_of_def free_of_def ack_row_def)
  have "credit (tbl_get row_id i (ack now t tbl)) \<le> credit (tbl_get row_id i tbl)" for i
    by (cases "tbl_get row_id i tbl") (auto simp: get_ack credit_def ack_row_def)
  then show ?thesis using inv free by (simp add: local_work_le holds_nothing_def)
qed

lemma nack_local:
  assumes "holds_only who tbl t"
  shows "holds_nothing who (nack now d t e tbl) \<and> local_work (nack now d t e tbl) \<le> local_work tbl"
proof -
  have inv: "queue_inv (nack now d t e tbl)"
    by (rule work_step_inv[OF work_step.nacks]) (use assms in \<open>simp add: holds_only_def\<close>)
  note only = assms[unfolded holds_only_def, THEN conjunct2, rule_format]
  have free: "free_of who (tbl_get row_id i (nack now d t e tbl))" for i
    using only[of i] tbl_get_Some[of row_id i tbl]
    by (cases "tbl_get row_id i tbl")
      (auto simp: get_nack only_of_def free_of_def retry_row_def dead_row_def)
  have "credit (tbl_get row_id i (nack now d t e tbl)) \<le> credit (tbl_get row_id i tbl)" for i
    using only[of i] tbl_get_Some[of row_id i tbl]
    by (cases "tbl_get row_id i tbl")
      (auto simp: get_nack only_of_def credit_def retry_row_def dead_row_def)
  then show ?thesis using inv free by (simp add: local_work_le holds_nothing_def)
qed

interpretation lq: task_queue "local_ops clk who v" "holds_nothing who" "holds_only who" local_work
  by unfold_locales
    (simp_all add: local_ops_def claim_none_local claim_some_local beats_local
      ack_local nack_local)

text \<open>
  Claim C31: a worker that drains the local queue without waiting always returns. Whatever its
  clocks read and whichever handlers fail, it stops after at most as many passes as the live
  tasks have attempts left plus one each, the table is still consistent, and no task is left in
  flight under that worker.
\<close>

theorem drain_returns_and_settles:
  assumes "holds_nothing who tbl" and "idle_timeout \<le> 0" and "local_work tbl < fuel"
  shows "\<exists>results tbl'.
    drain fuel (local_ops clk who v) handler idle max_tasks idle_timeout 0 None [] tbl =
      Some (results, tbl') \<and> holds_nothing who tbl' \<and> length results \<le> local_work tbl"
  using lq.drain_returns[OF assms, where results = "[]"] by simp

definition clk0 :: wall_clock where
  "clk0 = \<lparr>claim_now = (\<lambda>k. 10 + int k), bury_now = (\<lambda>k n. 10 + int k), beat_now = (\<lambda>_. []),
     settle_now = (\<lambda>k. 10 + int k)\<rparr>"

theorem drain_returns_and_settles_witness:
  "\<exists>results tbl'. drain 5 (local_ops clk0 ''w1'' 5) (\<lambda>t. Inr (t_id t)) int None 0 0 None []
     [row0 ''b'' PENDING 0 2] = Some (results, tbl')"
proof -
  have "holds_nothing ''w1'' [row0 ''b'' PENDING 0 2]"
    by (auto simp: holds_nothing_def free_of_def queue_inv_def keyed_def row0_def row_ok_def)
  moreover have "local_work [row0 ''b'' PENDING 0 2] < 5"
    by (simp add: local_work_def credit_def row0_def)
  ultimately show ?thesis
    using drain_returns_and_settles[of "''w1''" "[row0 ''b'' PENDING 0 2]" 0 5 clk0 5
        "\<lambda>t. Inr (t_id t)" int None] by blast
qed

text \<open>
  The keepalive beats often enough. For any visibility of at least three seconds the
  heartbeat interval is positive, at most ten seconds, and at most a third of the visibility,
  so at least three beats fit before a claim lapses.
\<close>

theorem heartbeat_interval_bounds:
  assumes "3 \<le> visibility"
  shows "1 \<le> heartbeat_interval visibility \<and> heartbeat_interval visibility \<le> 10 \<and>
    3 * heartbeat_interval visibility \<le> visibility"
  using assms by (auto simp: heartbeat_interval_def MAX_HEARTBEAT_INTERVAL_SECONDS_def min_def max_def)

theorem heartbeat_interval_bounds_witness:
  "1 \<le> heartbeat_interval 300 \<and> heartbeat_interval 300 \<le> 10 \<and> 3 * heartbeat_interval 300 \<le> 300"
  by (rule heartbeat_interval_bounds) simp

end
