(* ===== verification/IndexStatus.thy ===== *)
theory IndexStatus
  imports Drain
begin

text \<open>
  The index queue as a caller sees it, \<open>src/pheasant/services/index_queue.py\<close>: each outstanding
  row gets one of five states from its status and the clock, the rows awaiting a claim are
  numbered, and the states are counted. Waiting times are kept in microseconds, before the
  report rounds them to tenths of a second.
\<close>

datatype queue_state = Awaiting_Claim | Retry_Scheduled | Claimed | Claim_Lapsed | Dead_Task

definition STATES :: "queue_state list" where
  "STATES = [Awaiting_Claim, Retry_Scheduled, Claimed, Claim_Lapsed, Dead_Task]"

record status_entry =
  task_id :: string
  entry_source :: string
  entry_mode :: string
  entry_state :: queue_state
  entry_enqueued :: instant
  entry_visible :: instant
  waiting :: int
  claimed_by :: "string option"
  entry_attempts :: int
  entry_max_attempts :: int
  entry_error :: "string option"
  position :: "nat option"

definition task_state :: "instant \<Rightarrow> task_row \<Rightarrow> queue_state" where
  "task_state now r =
     (let visible = visible_at r \<le> now in
      case status r of
        DEAD \<Rightarrow> Dead_Task
      | INFLIGHT \<Rightarrow> if visible then Claim_Lapsed else Claimed
      | PENDING \<Rightarrow> if visible then Awaiting_Claim else Retry_Scheduled
      | DONE \<Rightarrow> Dead_Task)"

definition task_entry :: "instant \<Rightarrow> task_row \<Rightarrow> status_entry" where
  "task_entry now r =
     \<lparr>task_id = row_id r, entry_source = source_id r, entry_mode = row_mode r,
      entry_state = task_state now r, entry_enqueued = enqueued_at r,
      entry_visible = visible_at r, waiting = max 0 (now - enqueued_at r),
      claimed_by =
        (case owner r of
           Some who \<Rightarrow> if who \<noteq> [] \<and> task_state now r = Claimed
             then Some (takeWhile (\<lambda>c. c \<noteq> CHR '':'') who) else None
         | None \<Rightarrow> None),
      entry_attempts = attempts r, entry_max_attempts = max_attempts r,
      entry_error = last_error r, position = None\<rparr>"

text \<open>The loop that numbers the entries awaiting a claim.\<close>

fun number_waiting :: "nat \<Rightarrow> status_entry list \<Rightarrow> status_entry list" where
  "number_waiting n [] = []"
| "number_waiting n (e # es) =
     (if entry_state e = Awaiting_Claim
      then e\<lparr>position := Some (Suc n)\<rparr> # number_waiting (Suc n) es
      else e # number_waiting n es)"

record queue_report =
  enabled :: bool
  listing :: string
  report_depth :: "(task_status \<Rightarrow> nat) option"
  tasks :: "status_entry list"
  state_counts :: "queue_state \<Rightarrow> nat"

text \<open>
  \<open>queue_status\<close>: no queue, or a queue that may know its depth and may be able to list its rows
  up to a limit. \<open>local_listing\<close> is what the local queue answers.
\<close>

definition queue_status ::
    "((task_status \<Rightarrow> nat) option \<times> (int \<Rightarrow> task_row list option)) option \<Rightarrow> int \<Rightarrow> instant \<Rightarrow>
     queue_report" where
  "queue_status queue limit now =
     (case queue of
        None \<Rightarrow> \<lparr>enabled = False, listing = ''not_applicable'', report_depth = None, tasks = [],
                 state_counts = (\<lambda>_. 0)\<rparr>
      | Some (known_depth, list_rows) \<Rightarrow>
          (let rows = list_rows (max 1 (min limit 500));
               entries = (case rows of None \<Rightarrow> []
                 | Some rs \<Rightarrow> number_waiting 0 (map (task_entry now) rs))
           in \<lparr>enabled = True,
               listing = (if rows = None then ''unavailable'' else ''complete''),
               report_depth = known_depth, tasks = entries,
               state_counts = (\<lambda>s. length (filter (\<lambda>e. entry_state e = s) entries))\<rparr>))"

definition local_listing ::
    "task_table \<Rightarrow> (task_status \<Rightarrow> nat) option \<times> (int \<Rightarrow> task_row list option)" where
  "local_listing tbl = (Some (depth tbl), \<lambda>limit. Some (outstanding limit tbl))"

lemma task_entry_simps [simp]:
  "task_id (task_entry now r) = row_id r"
  "entry_state (task_entry now r) = task_state now r"
  "position (task_entry now r) = None"
  by (simp_all add: task_entry_def)

lemma number_waiting_kept [simp]:
  "map task_id (number_waiting n es) = map task_id es"
  "map entry_state (number_waiting n es) = map entry_state es"
  "length (number_waiting n es) = length es"
  by (induction es arbitrary: n) auto

lemma number_waiting_positions:
  "map position (filter (\<lambda>e. entry_state e = Awaiting_Claim) (number_waiting n es)) =
     map Some [Suc n..<Suc (n + length (filter (\<lambda>e. entry_state e = Awaiting_Claim) es))]"
  by (induction es arbitrary: n) (auto simp: upt_conv_Cons simp del: upt_Suc)

lemma state_count_total:
  "(\<Sum>s \<leftarrow> STATES. length (filter (\<lambda>e. entry_state e = s) es)) = length es"
proof (induction es)
  case Nil
  then show ?case by (simp add: STATES_def)
next
  case (Cons e es)
  then show ?case by (cases "entry_state e") (simp_all add: STATES_def)
qed

lemma outstanding_status:
  "r \<in> set (outstanding limit tbl) \<Longrightarrow> status r \<noteq> DONE"
  unfolding outstanding_def by (auto dest: in_set_takeD)

text \<open>
  The report of the local queue lists the outstanding rows in queue order, says of
  each that it is awaiting a claim or lapsed exactly when a claim at that instant could take it,
  numbers those awaiting a claim 1, 2, 3 and so on, and its five counts add up to the tasks
  listed.
\<close>

theorem queue_status_correct:
  fixes limit :: int and now :: instant and tbl :: task_table
  defines "rep \<equiv> queue_status (Some (local_listing tbl)) limit now"
    and "rows \<equiv> outstanding (max 1 (min limit 500)) tbl"
  shows "map task_id (tasks rep) = map row_id rows \<and>
    map (\<lambda>e. entry_state e = Awaiting_Claim \<or> entry_state e = Claim_Lapsed) (tasks rep) =
      map (claimable now) rows \<and>
    map position (filter (\<lambda>e. entry_state e = Awaiting_Claim) (tasks rep)) =
      map Some [1..<Suc (state_counts rep Awaiting_Claim)] \<and>
    (\<Sum>s \<leftarrow> STATES. state_counts rep s) = length (tasks rep)"
proof -
  let ?es = "map (task_entry now) rows"
  have t: "tasks rep = number_waiting 0 ?es"
    and c: "state_counts rep = (\<lambda>s. length (filter (\<lambda>e. entry_state e = s) (tasks rep)))"
    by (simp_all add: rep_def rows_def queue_status_def local_listing_def Let_def)
  have st: "map entry_state (tasks rep) = map (task_state now) rows"
    by (simp add: t o_def)
  have "task_state now r = Awaiting_Claim \<or> task_state now r = Claim_Lapsed \<longleftrightarrow> claimable now r"
    if "r \<in> set rows" for r
    using outstanding_status[of r "max 1 (min limit 500)" tbl] that
    by (auto simp: task_state_def claimable_def rows_def Let_def split: task_status.splits)
  then have cl: "map (\<lambda>e. entry_state e = Awaiting_Claim \<or> entry_state e = Claim_Lapsed) (tasks rep) =
      map (claimable now) rows"
    using st by (simp add: list_eq_iff_nth_eq) 
  have len: "length (filter (\<lambda>e. entry_state e = s) (number_waiting n es)) =
      length (filter (\<lambda>e. entry_state e = s) es)" for s n es
    by (induction es arbitrary: n) auto
  show ?thesis
    using cl number_waiting_positions[of 0 ?es] state_count_total[of "tasks rep"]
    by (simp add: c t len o_def)
qed

end
