(* ===== verification/Leases.thy ===== *)
theory Leases
  imports SqlTable
begin

text \<open>
  The write locks of \<open>src/pheasant/sync/locks.py\<close>: the per-source lock file \<open>source_lock\<close>, the
  single-writer file lease \<open>EngineLease\<close>, and the database lease \<open>SourceLease\<close>. What a holder
  may rely on is the locale \<open>exclusive_lease\<close>, which the source lease satisfies by its one
  conditional statement; the engine lease, a read and a later write, does not.
\<close>

section \<open>The contract of a lease\<close>

text \<open>
  \<open>take w now s\<close> tries to take the lease for \<open>w\<close>, \<open>refresh\<close> and \<open>drop\<close> are a holder's other
  calls, \<open>reap now s\<close> clears a lease whose stamp has run out, \<open>holds s p t\<close> says \<open>p\<close> holds the lease with a stamp no older than \<open>t\<close>, and \<open>grace\<close>
  is how long a stamp stands.
\<close>

locale exclusive_lease =
  fixes take :: "'o \<Rightarrow> instant \<Rightarrow> 's \<Rightarrow> bool \<times> 's"
    and refresh :: "'o \<Rightarrow> instant \<Rightarrow> 's \<Rightarrow> 's"
    and drop :: "'o \<Rightarrow> 's \<Rightarrow> 's"
    and reap :: "instant \<Rightarrow> 's \<Rightarrow> 's"
    and holds :: "'s \<Rightarrow> 'o \<Rightarrow> instant \<Rightarrow> bool"
    and grace :: int
    and ok :: "'s \<Rightarrow> bool"
  assumes take_ok: "ok s \<Longrightarrow> ok (snd (take w now s))"
    and refresh_ok: "ok s \<Longrightarrow> ok (refresh w now s)"
    and drop_ok: "ok s \<Longrightarrow> ok (drop w s)"
    and reap_ok: "ok s \<Longrightarrow> ok (reap now s)"
    and take_wins: "ok s \<Longrightarrow> fst (take w now s) \<Longrightarrow> holds (snd (take w now s)) w now"
    and take_excluded: "ok s \<Longrightarrow> holds s p t \<Longrightarrow> w \<noteq> p \<Longrightarrow> now \<le> t + grace \<Longrightarrow>
      \<not> fst (take w now s) \<and> holds (snd (take w now s)) p t"
    and refresh_frame: "ok s \<Longrightarrow> holds s p t \<Longrightarrow> w \<noteq> p \<Longrightarrow> holds (refresh w now s) p t"
    and drop_frame: "ok s \<Longrightarrow> holds s p t \<Longrightarrow> w \<noteq> p \<Longrightarrow> holds (drop w s) p t"
    and reap_frame: "ok s \<Longrightarrow> holds s p t \<Longrightarrow> now \<le> t + grace \<Longrightarrow> holds (reap now s) p t"
begin

text \<open>Anything processes other than \<open>p\<close> do up to the instant \<open>until\<close>, and whether one won.\<close>

inductive others_run :: "'o \<Rightarrow> instant \<Rightarrow> 's \<Rightarrow> bool \<Rightarrow> 's \<Rightarrow> bool" for p until where
  idle: "others_run p until s False s"
| taking: "w \<noteq> p \<Longrightarrow> now \<le> until \<Longrightarrow> others_run p until (snd (take w now s)) won s' \<Longrightarrow>
    others_run p until s (fst (take w now s) \<or> won) s'"
| refreshing: "w \<noteq> p \<Longrightarrow> others_run p until (refresh w now s) won s' \<Longrightarrow> others_run p until s won s'"
| dropping: "w \<noteq> p \<Longrightarrow> others_run p until (drop w s) won s' \<Longrightarrow> others_run p until s won s'"
| reaping: "now \<le> until \<Longrightarrow> others_run p until (reap now s) won s' \<Longrightarrow> others_run p until s won s'"

lemma others_cannot_win:
  assumes "others_run p (t + grace) s won s'" and "ok s" and "holds s p t"
  shows "\<not> won \<and> ok s' \<and> holds s' p t"
  using assms
proof (induction rule: others_run.induct)
  case (taking w now s won s')
  then show ?case using take_excluded take_ok by blast
qed (auto simp: take_ok refresh_ok drop_ok reap_ok refresh_frame drop_frame reap_frame)

lemma exclusive_after_win:
  assumes "ok s" and "fst (take p t s)"
    and "others_run p (t + grace) (snd (take p t s)) won s'"
  shows "\<not> won \<and> holds s' p t"
  using others_cannot_win[OF assms(3)] take_ok take_wins assms(1,2) by blast

end

section \<open>SourceLease\<close>

record lease_row =
  lease_source :: string
  lease_owner :: string
  acquired_at :: instant
  heartbeat_at :: instant

type_synonym lease_table = "lease_row list"

text \<open>
  The handle's own state: \<open>_held\<close>, whether \<open>_thread\<close> is set, whether that thread's loop still
  runs, and the loop's count of failures.
\<close>

record lease =
  l_source :: string
  l_owner :: string
  l_stale_after :: int
  l_held :: bool
  l_thread :: bool
  l_beating :: bool
  l_failures :: nat

definition SOURCE_HEARTBEAT_SECONDS :: int where "SOURCE_HEARTBEAT_SECONDS = 10"
definition SOURCE_STALE_SECONDS :: int where "SOURCE_STALE_SECONDS = 45"

definition new_lease :: "string \<Rightarrow> string \<Rightarrow> lease" where
  "new_lease source who =
     \<lparr>l_source = source, l_owner = who, l_stale_after = seconds SOURCE_STALE_SECONDS,
      l_held = False, l_thread = False, l_beating = False, l_failures = 0\<rparr>"

definition claims_lease :: "string \<Rightarrow> instant \<Rightarrow> lease_row \<Rightarrow> bool" where
  "claims_lease who stale_before r \<longleftrightarrow> lease_owner r = who \<or> heartbeat_at r < stale_before"

definition stamp_lease :: "string \<Rightarrow> instant \<Rightarrow> lease_row \<Rightarrow> lease_row" where
  "stamp_lease who now r = r\<lparr>lease_owner := who, acquired_at := now, heartbeat_at := now\<rparr>"

definition lease_statement ::
    "string \<Rightarrow> string \<Rightarrow> instant \<Rightarrow> instant \<Rightarrow> lease_table \<Rightarrow> lease_row list \<times> lease_table" where
  "lease_statement source who now stale_before tbl =
     (let row = \<lparr>lease_source = source, lease_owner = who, acquired_at = now, heartbeat_at = now\<rparr>
      in (tbl_upsert_returning lease_source row (claims_lease who stale_before) (stamp_lease who now) tbl,
          tbl_upsert lease_source row (claims_lease who stale_before) (stamp_lease who now) tbl))"

definition try_acquire :: "instant \<Rightarrow> lease \<Rightarrow> lease_table \<Rightarrow> bool \<times> lease \<times> lease_table" where
  "try_acquire now l tbl =
     (case lease_statement (l_source l) (l_owner l) now (now - l_stale_after l) tbl of
        (rows, tbl') \<Rightarrow>
          (let won = (case rows of [] \<Rightarrow> False | r # _ \<Rightarrow> lease_owner r = l_owner l)
           in (won,
               (if won \<and> \<not> l_held l then l\<lparr>l_held := True, l_thread := True, l_beating := True, l_failures := 0\<rparr>
                else l),
               tbl')))"

datatype 'a acquired = Acquired 'a | SourceLeaseError

text \<open>
  \<open>acquire\<close>: pass \<open>k\<close> tries at \<open>wall k\<close>, looks at the monotonic clock \<open>ticks k\<close>, and sleeps;
  \<open>env k\<close> is what everybody else does to the table meanwhile. None is running out of fuel.
\<close>

fun acquire_loop ::
    "nat \<Rightarrow> (nat \<Rightarrow> instant) \<Rightarrow> (nat \<Rightarrow> int) \<Rightarrow> (nat \<Rightarrow> lease_table \<Rightarrow> lease_table) \<Rightarrow> int \<Rightarrow>
     nat \<Rightarrow> lease \<Rightarrow> lease_table \<Rightarrow> (lease \<times> lease_table) acquired option" where
  "acquire_loop 0 wall ticks env deadline k l tbl = None"
| "acquire_loop (Suc fuel) wall ticks env deadline k l tbl =
     (case try_acquire (wall k) l tbl of
        (True, l', tbl') \<Rightarrow> Some (Acquired (l', tbl'))
      | (False, l', tbl') \<Rightarrow>
          if deadline \<le> ticks k then Some SourceLeaseError
          else acquire_loop fuel wall ticks env deadline (Suc k) l' (env k tbl'))"

definition acquire ::
    "nat \<Rightarrow> (nat \<Rightarrow> instant) \<Rightarrow> (nat \<Rightarrow> int) \<Rightarrow> (nat \<Rightarrow> lease_table \<Rightarrow> lease_table) \<Rightarrow> int \<Rightarrow>
     int \<Rightarrow> lease \<Rightarrow> lease_table \<Rightarrow> (lease \<times> lease_table) acquired option" where
  "acquire fuel wall ticks env started wait_timeout l tbl =
     acquire_loop fuel wall ticks env (started + max 0 wait_timeout) 0 l tbl"

definition release :: "lease \<Rightarrow> lease_table \<Rightarrow> lease \<times> lease_table" where
  "release l tbl =
     (if \<not> l_held l \<and> \<not> l_thread l then (l, tbl)
      else (let l' = l\<lparr>l_held := False, l_thread := False, l_beating := False\<rparr>
            in if \<not> l_held l then (l', tbl)
               else (l', tbl_delete (\<lambda>r. lease_source r = l_source l \<and> lease_owner r = l_owner l) tbl)))"

text \<open>One pass of the heartbeat thread: the statement ran, or it raised.\<close>

definition beat_statement :: "string \<Rightarrow> string \<Rightarrow> instant \<Rightarrow> lease_table \<Rightarrow> lease_table" where
  "beat_statement source who now tbl =
     tbl_update (\<lambda>r. lease_source r = source \<and> lease_owner r = who) (\<lambda>r. r\<lparr>heartbeat_at := now\<rparr>) tbl"

definition heartbeat_pass :: "instant option \<Rightarrow> lease \<Rightarrow> lease_table \<Rightarrow> lease \<times> lease_table" where
  "heartbeat_pass outcome l tbl =
     (if \<not> l_beating l then (l, tbl) else
      case outcome of
        Some now \<Rightarrow>
          (if filter (\<lambda>r. lease_source r = l_source l \<and> lease_owner r = l_owner l) tbl = []
           then (l\<lparr>l_held := False, l_beating := False, l_failures := 0\<rparr>, tbl)
           else (l\<lparr>l_failures := 0\<rparr>, beat_statement (l_source l) (l_owner l) now tbl))
      | None \<Rightarrow>
          (if 3 \<le> l_failures l + 1
           then (l\<lparr>l_failures := l_failures l + 1, l_held := False, l_beating := False\<rparr>, tbl)
           else (l\<lparr>l_failures := l_failures l + 1\<rparr>, tbl)))"

definition release_stale_lease :: "string \<Rightarrow> instant \<Rightarrow> lease_table \<Rightarrow> bool \<times> lease_table" where
  "release_stale_lease source stale_before tbl =
     (let gone = (\<lambda>r. lease_source r = source \<and> heartbeat_at r < stale_before)
      in (filter gone tbl \<noteq> [], tbl_delete gone tbl))"


section \<open>What the statements do to the row of a source\<close>

lemma lease_source_kept [simp]:
  "lease_source (stamp_lease who now r) = lease_source r"
  "lease_source (r\<lparr>heartbeat_at := now\<rparr>) = lease_source r"
  by (simp_all add: stamp_lease_def)

lemma get_lease_statement:
  "tbl_get lease_source i (snd (lease_statement source who now stale_before tbl)) =
     (if i = source
      then (case tbl_get lease_source i tbl of
              None \<Rightarrow> Some \<lparr>lease_source = source, lease_owner = who, acquired_at = now,
                            heartbeat_at = now\<rparr>
            | Some r \<Rightarrow> Some (if claims_lease who stale_before r then stamp_lease who now r else r))
      else tbl_get lease_source i tbl)"
  by (simp add: lease_statement_def Let_def tbl_get_upsert)

lemma lease_statement_rows:
  "keyed lease_source tbl \<Longrightarrow> fst (lease_statement source who now stale_before tbl) =
     (case tbl_get lease_source source tbl of
        None \<Rightarrow> [\<lparr>lease_source = source, lease_owner = who, acquired_at = now, heartbeat_at = now\<rparr>]
      | Some r \<Rightarrow> if claims_lease who stale_before r then [stamp_lease who now r] else [])"
  by (simp add: lease_statement_def Let_def upsert_returning_keyed)

lemma keyed_lease_statement [keyed_intros]:
  "keyed lease_source tbl \<Longrightarrow> keyed lease_source (snd (lease_statement source who now b tbl))"
  by (simp add: lease_statement_def Let_def keyed_upsert)

lemma get_beat_statement:
  "tbl_get lease_source i (beat_statement source who now tbl) =
     map_option (\<lambda>r. if lease_source r = source \<and> lease_owner r = who then r\<lparr>heartbeat_at := now\<rparr> else r)
       (tbl_get lease_source i tbl)"
  by (simp add: beat_statement_def tbl_get_update)

lemma keyed_beat_statement [keyed_intros]:
  "keyed lease_source tbl \<Longrightarrow> keyed lease_source (beat_statement source who now tbl)"
  by (simp add: beat_statement_def keyed_update)

text \<open>The three calls of one owner on one source, without the handle's own flags.\<close>

definition lease_take :: "string \<Rightarrow> int \<Rightarrow> string \<Rightarrow> instant \<Rightarrow> lease_table \<Rightarrow> bool \<times> lease_table" where
  "lease_take source stale_after who now tbl =
     (case lease_statement source who now (now - stale_after) tbl of
        (rows, tbl') \<Rightarrow> (case rows of [] \<Rightarrow> False | r # _ \<Rightarrow> lease_owner r = who, tbl'))"

definition lease_drop :: "string \<Rightarrow> string \<Rightarrow> lease_table \<Rightarrow> lease_table" where
  "lease_drop source who tbl = tbl_delete (\<lambda>r. lease_source r = source \<and> lease_owner r = who) tbl"

definition lease_reap :: "string \<Rightarrow> int \<Rightarrow> instant \<Rightarrow> lease_table \<Rightarrow> lease_table" where
  "lease_reap source stale_after now tbl = snd (release_stale_lease source (now - stale_after) tbl)"

definition lease_holds :: "string \<Rightarrow> lease_table \<Rightarrow> string \<Rightarrow> instant \<Rightarrow> bool" where
  "lease_holds source tbl who t \<longleftrightarrow>
     (\<exists>r. tbl_get lease_source source tbl = Some r \<and> lease_owner r = who \<and> t \<le> heartbeat_at r)"

lemma try_acquire_take:
  "fst (try_acquire now l tbl) = fst (lease_take (l_source l) (l_stale_after l) (l_owner l) now tbl)"
  "snd (snd (try_acquire now l tbl)) = snd (lease_take (l_source l) (l_stale_after l) (l_owner l) now tbl)"
  by (simp_all add: try_acquire_def lease_take_def Let_def split: prod.splits)

lemma lease_take_eq:
  "keyed lease_source tbl \<Longrightarrow> lease_take source stale_after who now tbl =
     (case tbl_get lease_source source tbl of None \<Rightarrow> True
      | Some r \<Rightarrow> claims_lease who (now - stale_after) r,
      snd (lease_statement source who now (now - stale_after) tbl))"
  by (simp add: lease_take_def case_prod_unfold lease_statement_rows stamp_lease_def
      split: option.split)

interpretation sl: exclusive_lease "lease_take source stale_after" "beat_statement source"
    "lease_drop source" "lease_reap source stale_after" "lease_holds source" stale_after
    "keyed lease_source"
proof
  fix s :: lease_table and w p :: string and now t :: instant
  show "keyed lease_source s \<Longrightarrow> keyed lease_source (snd (lease_take source stale_after w now s))"
    by (simp add: lease_take_eq keyed_lease_statement)
  show "keyed lease_source s \<Longrightarrow> keyed lease_source (beat_statement source w now s)"
    by (rule keyed_beat_statement)
  show "keyed lease_source s \<Longrightarrow> keyed lease_source (lease_drop source w s)"
    by (simp add: lease_drop_def keyed_delete)
  show "keyed lease_source s \<Longrightarrow> fst (lease_take source stale_after w now s) \<Longrightarrow>
      lease_holds source (snd (lease_take source stale_after w now s)) w now"
    by (auto simp: lease_take_eq get_lease_statement lease_holds_def stamp_lease_def
        split: option.splits)
  show "\<not> fst (lease_take source stale_after w now s) \<and>
      lease_holds source (snd (lease_take source stale_after w now s)) p t"
    if "keyed lease_source s" "lease_holds source s p t" "w \<noteq> p" "now \<le> t + stale_after"
    using that by (auto simp: lease_take_eq get_lease_statement lease_holds_def claims_lease_def)
  show "keyed lease_source s \<Longrightarrow> lease_holds source s p t \<Longrightarrow> w \<noteq> p \<Longrightarrow>
      lease_holds source (beat_statement source w now s) p t"
    by (auto simp: get_beat_statement lease_holds_def)
  show "keyed lease_source s \<Longrightarrow> lease_holds source s p t \<Longrightarrow> w \<noteq> p \<Longrightarrow>
      lease_holds source (lease_drop source w s) p t"
    by (auto simp: lease_drop_def lease_holds_def tbl_get_delete)
  show "keyed lease_source s \<Longrightarrow> keyed lease_source (lease_reap source stale_after now s)"
    by (simp add: lease_reap_def release_stale_lease_def Let_def keyed_delete)
  show "lease_holds source (lease_reap source stale_after now s) p t"
    if "keyed lease_source s" "lease_holds source s p t" "now \<le> t + stale_after"
    using that
    by (auto simp: lease_reap_def release_stale_lease_def Let_def lease_holds_def tbl_get_delete)
qed


section \<open>What a holder may rely on\<close>

text \<open>
  Everything the other holders and the recovery code may do about a source up to an instant:
  handles of other owners try, beat and release, and \<open>release_stale_lease\<close> is called with the
  cutoff of that moment.
\<close>

inductive rivals_run :: "string \<Rightarrow> string \<Rightarrow> instant \<Rightarrow> lease_table \<Rightarrow> bool \<Rightarrow> lease_table \<Rightarrow> bool"
  for source p until where
  idle: "rivals_run source p until tbl False tbl"
| tries: "l_owner l \<noteq> p \<Longrightarrow> l_source l = source \<Longrightarrow> l_stale_after l = seconds SOURCE_STALE_SECONDS \<Longrightarrow>
    now \<le> until \<Longrightarrow> try_acquire now l tbl = (won, l', tbl1) \<Longrightarrow>
    rivals_run source p until tbl1 won' tbl' \<Longrightarrow> rivals_run source p until tbl (won \<or> won') tbl'"
| beats: "l_owner l \<noteq> p \<Longrightarrow> l_source l = source \<Longrightarrow>
    rivals_run source p until (snd (heartbeat_pass outcome l tbl)) won tbl' \<Longrightarrow>
    rivals_run source p until tbl won tbl'"
| releases: "l_owner l \<noteq> p \<Longrightarrow> l_source l = source \<Longrightarrow>
    rivals_run source p until (snd (release l tbl)) won tbl' \<Longrightarrow>
    rivals_run source p until tbl won tbl'"
| recovers: "stale_before \<le> until - seconds SOURCE_STALE_SECONDS \<Longrightarrow>
    rivals_run source p until (snd (release_stale_lease source stale_before tbl)) won tbl' \<Longrightarrow>
    rivals_run source p until tbl won tbl'"

lemma heartbeat_pass_table:
  "snd (heartbeat_pass outcome l tbl) = tbl \<or>
   (\<exists>now. snd (heartbeat_pass outcome l tbl) = beat_statement (l_source l) (l_owner l) now tbl)"
  by (auto simp: heartbeat_pass_def split: option.splits)

lemma release_table:
  "snd (release l tbl) = tbl \<or> snd (release l tbl) = lease_drop (l_source l) (l_owner l) tbl"
  by (auto simp: release_def lease_drop_def Let_def)

lemma rivals_are_others:
  "rivals_run source p until tbl won tbl' \<Longrightarrow>
   exclusive_lease.others_run (lease_take source (seconds SOURCE_STALE_SECONDS))
     (beat_statement source) (lease_drop source) (lease_reap source (seconds SOURCE_STALE_SECONDS))
     p until tbl won tbl'"
proof (induction rule: rivals_run.induct)
  case (idle tbl)
  show ?case by (rule sl.others_run.idle)
next
  case (tries l now tbl won l' tbl1 won' tbl')
  have "won = fst (lease_take source (seconds SOURCE_STALE_SECONDS) (l_owner l) now tbl)"
    and "tbl1 = snd (lease_take source (seconds SOURCE_STALE_SECONDS) (l_owner l) now tbl)"
    using try_acquire_take[of now l tbl] tries(2,3,5) by simp_all
  then show ?case
    using sl.others_run.taking[OF tries(1,4), of source "seconds SOURCE_STALE_SECONDS" tbl won' tbl']
      tries(7) by simp
next
  case (beats l outcome tbl won tbl')
  then show ?case
    using heartbeat_pass_table[of outcome l tbl] sl.others_run.refreshing by metis
next
  case (releases l tbl won tbl')
  then show ?case using release_table[of l tbl] sl.others_run.dropping by metis
next
  case (recovers stale_before tbl won tbl')
  have "lease_reap source (seconds SOURCE_STALE_SECONDS)
      (stale_before + seconds SOURCE_STALE_SECONDS) tbl =
      snd (release_stale_lease source stale_before tbl)"
    by (simp add: lease_reap_def)
  moreover have "stale_before + seconds SOURCE_STALE_SECONDS \<le> until"
    using recovers(1) by simp
  ultimately show ?case using recovers(3) sl.others_run.reaping by metis
qed

text \<open>
  Claim C7: once a writer has taken the lease of a source, no other owner takes it for the next
  45 seconds, whatever the others and the recovery code do meanwhile, and the row stays the
  writer's with that stamp or a later one.
\<close>

theorem source_lease_exclusive:
  assumes "keyed lease_source tbl"
    and "l_stale_after l = seconds SOURCE_STALE_SECONDS"
    and "try_acquire now l tbl = (True, l', tbl1)"
    and "rivals_run (l_source l) (l_owner l) (now + seconds SOURCE_STALE_SECONDS) tbl1 won tbl'"
  shows "\<not> won \<and> lease_holds (l_source l) tbl' (l_owner l) now"
proof -
  have "fst (lease_take (l_source l) (seconds SOURCE_STALE_SECONDS) (l_owner l) now tbl)"
    and "snd (lease_take (l_source l) (seconds SOURCE_STALE_SECONDS) (l_owner l) now tbl) = tbl1"
    using try_acquire_take[of now l tbl] assms(2,3) by simp_all
  then show ?thesis
    using sl.exclusive_after_win[OF assms(1)] rivals_are_others[OF assms(4)] by metis
qed

theorem source_lease_exclusive_witness:
  "\<not> False \<and> lease_holds ''docs'' (snd (snd (try_acquire 7 (new_lease ''docs'' ''h:1'') []))) ''h:1'' 7"
proof -
  let ?l = "new_lease ''docs'' ''h:1''"
  let ?r = "try_acquire 7 ?l []"
  have won: "?r = (True, fst (snd ?r), snd (snd ?r))"
    by (simp add: try_acquire_def lease_statement_def tbl_upsert_returning_def new_lease_def Let_def)
  from source_lease_exclusive[OF _ _ won rivals_run.idle] show ?thesis
    by (simp add: new_lease_def keyed_def)
qed

text \<open>
  A writer that lost its lease steps down. If the row of its source is gone or another
  owner's, its next heartbeat changes nothing in the table and clears \<open>_held\<close>, and its release
  afterwards leaves the successor's row alone.
\<close>

theorem loser_steps_down:
  assumes "keyed lease_source tbl" and "l_beating l"
    and "\<forall>r. tbl_get lease_source (l_source l) tbl = Some r \<longrightarrow> lease_owner r \<noteq> l_owner l"
  shows "\<not> l_held (fst (heartbeat_pass (Some now) l tbl)) \<and>
    snd (heartbeat_pass (Some now) l tbl) = tbl \<and>
    snd (release (fst (heartbeat_pass (Some now) l tbl)) tbl) = tbl"
proof -
  have "filter (\<lambda>r. lease_source r = l_source l \<and> lease_owner r = l_owner l) tbl = []"
    using assms(3) by (simp add: filter_key_keyed[OF assms(1)] split: option.splits)
  then show ?thesis using assms(2) by (simp add: heartbeat_pass_def release_def)
qed

theorem loser_steps_down_witness:
  "let tbl = [\<lparr>lease_source = ''docs'', lease_owner = ''h:2'', acquired_at = 90, heartbeat_at = 95\<rparr>];
       l = (new_lease ''docs'' ''h:1'')\<lparr>l_held := True, l_thread := True, l_beating := True\<rparr>
   in \<not> l_held (fst (heartbeat_pass (Some 99) l tbl)) \<and> snd (heartbeat_pass (Some 99) l tbl) = tbl"
  using loser_steps_down[of "[\<lparr>lease_source = ''docs'', lease_owner = ''h:2'', acquired_at = 90,
        heartbeat_at = 95\<rparr>]" "(new_lease ''docs'' ''h:1'')\<lparr>l_held := True, l_thread := True,
        l_beating := True\<rparr>" 99]
  by (simp add: keyed_def new_lease_def Let_def)

lemma acquire_loop_returns:
  assumes "\<forall>j. started + int j * 250000 \<le> ticks j"
    and "deadline \<le> started + int (k + fuel) * 250000" and "0 < fuel"
  shows "\<exists>out. acquire_loop (Suc fuel) wall ticks env deadline k l tbl = Some out"
  using assms(2,3)
proof (induction fuel arbitrary: k l tbl)
  case 0
  then show ?case by simp
next
  case (Suc fuel)
  obtain won l' tbl' where t: "try_acquire (wall k) l tbl = (won, l', tbl')"
    by (cases "try_acquire (wall k) l tbl") auto
  show ?case
  proof (cases "won \<or> deadline \<le> ticks k")
    case True
    then show ?thesis using t by (cases won) simp_all
  next
    case False
    show ?thesis
    proof (cases fuel)
      case 0
      obtain won2 l2 tbl2 where t2: "try_acquire (wall (Suc k)) l' (env k tbl') = (won2, l2, tbl2)"
        by (cases "try_acquire (wall (Suc k)) l' (env k tbl')") auto
      have "deadline \<le> ticks (Suc k)"
        using assms(1)[rule_format, of "Suc k"] Suc.prems(1) 0 by simp
      then show ?thesis using t t2 False 0 by (cases won2) simp_all
    next
      case (Suc m)
      then show ?thesis
        using Suc.IH[of "Suc k" l' "env k tbl'"] Suc.prems(1) t False by (simp add: ac_simps)
    qed
  qed
qed

lemma try_acquire_won_held: "try_acquire now l tbl = (True, l', tbl') \<Longrightarrow> l_held l'"
  by (auto simp: try_acquire_def Let_def split: prod.splits if_splits)

lemma acquire_loop_held:
  "acquire_loop fuel wall ticks env deadline k l tbl = Some (Acquired (l', tbl')) \<Longrightarrow> l_held l'"
proof (induction fuel arbitrary: k l tbl)
  case (Suc fuel)
  obtain won l1 tbl1 where t: "try_acquire (wall k) l tbl = (won, l1, tbl1)"
    by (cases "try_acquire (wall k) l tbl") auto
  show ?case
  proof (cases won)
    case True
    then show ?thesis using Suc.prems t try_acquire_won_held by simp
  next
    case False
    then show ?thesis using Suc.prems Suc.IH t by (simp split: if_splits)
  qed
qed simp

text \<open>
  \<open>acquire\<close> always returns. With a clock that advances by the quarter second slept in
  each pass, it has either taken the lease or raised \<open>SourceLeaseError\<close> after at most one pass
  per quarter second of the timeout and two more, whatever the other writers do in between.
\<close>

theorem acquire_returns:
  assumes "\<forall>j. started + int j * 250000 \<le> ticks j"
    and "max 0 wait_timeout \<le> int fuel * 250000" and "0 < fuel"
  shows "\<exists>out. acquire (Suc fuel) wall ticks env started wait_timeout l tbl = Some out \<and>
    (\<forall>l' tbl'. out = Acquired (l', tbl') \<longrightarrow> l_held l')"
proof -
  have "\<exists>out. acquire (Suc fuel) wall ticks env started wait_timeout l tbl = Some out"
    unfolding acquire_def by (rule acquire_loop_returns[OF assms(1) _ assms(3)]) (use assms(2) in simp)
  then show ?thesis unfolding acquire_def using acquire_loop_held by blast
qed

theorem acquire_returns_witness:
  "\<exists>out. acquire 5 (\<lambda>k. int k) (\<lambda>k. int k * 250000) (\<lambda>_ t. t) 0 1000000
     (new_lease ''docs'' ''h:1'')
     [\<lparr>lease_source = ''docs'', lease_owner = ''h:2'', acquired_at = 0, heartbeat_at = 0\<rparr>] = Some out"
  using acquire_returns[of 0 "\<lambda>k. int k * 250000" 1000000 4 "\<lambda>k. int k" "\<lambda>_ t. t"
      "new_lease ''docs'' ''h:1''"
      "[\<lparr>lease_source = ''docs'', lease_owner = ''h:2'', acquired_at = 0, heartbeat_at = 0\<rparr>]"]
  by auto

end
