(* ===== verification/SyncCancel.thy ===== *)
theory SyncCancel
  imports Leases
begin

text \<open>
  Stopping a running sync, \<open>src/pheasant/sync/cancellation.py\<close>: the \<open>sync_runs\<close> row a run
  holds, the request another process writes into it, the checks of the run between two items,
  and what a cancelled pass records. Every statement may also raise, which the code swallows:
  the Booleans \<open>ok\<close> say that it did not.
\<close>

section \<open>The row and the run\<close>

record run_row =
  rr_source :: string
  rr_run :: string
  rr_owner :: string
  rr_started :: instant
  rr_heartbeat :: instant
  rr_requested_at :: "instant option"
  rr_requested_by :: "string option"
  rr_reason :: "string option"

type_synonym run_table = "run_row list"

record sync_run =
  sr_source :: string
  sr_run :: string
  sr_owner :: string
  sr_check_interval :: int
  sr_registered :: bool
  sr_predecessor_died :: bool
  sr_next_check :: int

definition CHECK_INTERVAL_SECONDS :: int where "CHECK_INTERVAL_SECONDS = 1"

text \<open>\<open>SyncRun.__init__\<close>, with the fresh \<open>uuid4\<close> and the host and PID as arguments\<close>

definition new_run :: "string \<Rightarrow> string \<Rightarrow> string \<Rightarrow> int option \<Rightarrow> sync_run" where
  "new_run source run_id who check_interval =
     \<lparr>sr_source = source, sr_run = run_id, sr_owner = who,
      sr_check_interval =
        (case check_interval of None \<Rightarrow> seconds CHECK_INTERVAL_SECONDS | Some n \<Rightarrow> n),
      sr_registered = False, sr_predecessor_died = False, sr_next_check = 0\<rparr>"

definition run_start_row :: "instant \<Rightarrow> sync_run \<Rightarrow> run_row" where
  "run_start_row now r =
     \<lparr>rr_source = sr_source r, rr_run = sr_run r, rr_owner = sr_owner r, rr_started = now,
      rr_heartbeat = now, rr_requested_at = None, rr_requested_by = None, rr_reason = None\<rparr>"

definition restart_row :: "run_row \<Rightarrow> run_row \<Rightarrow> run_row" where
  "restart_row new r =
     r\<lparr>rr_run := rr_run new, rr_owner := rr_owner new, rr_started := rr_started new,
       rr_heartbeat := rr_heartbeat new, rr_requested_at := None, rr_requested_by := None,
       rr_reason := None\<rparr>"

text \<open>\<open>__enter__\<close>: the SELECT ran, and the INSERT ran\<close>

definition enter_run ::
    "bool \<Rightarrow> bool \<Rightarrow> instant \<Rightarrow> sync_run \<Rightarrow> run_table \<Rightarrow> sync_run \<times> run_table" where
  "enter_run ok_select ok_insert now r tbl =
     (if \<not> ok_select then (r, tbl)
      else (let r1 = r\<lparr>sr_predecessor_died := filter (\<lambda>x. rr_source x = sr_source r) tbl \<noteq> []\<rparr>
            in if \<not> ok_insert then (r1, tbl)
               else (r1\<lparr>sr_registered := True\<rparr>,
                     tbl_upsert rr_source (run_start_row now r) (\<lambda>_. True)
                       (restart_row (run_start_row now r)) tbl)))"

definition mine :: "sync_run \<Rightarrow> run_row \<Rightarrow> bool" where
  "mine r x \<longleftrightarrow> rr_source x = sr_source r \<and> rr_run x = sr_run r"

definition exit_run :: "bool \<Rightarrow> sync_run \<Rightarrow> run_table \<Rightarrow> run_table" where
  "exit_run ok r tbl = (if sr_registered r \<and> ok then tbl_delete (mine r) tbl else tbl)"

definition beat_run :: "bool \<Rightarrow> instant \<Rightarrow> sync_run \<Rightarrow> run_table \<Rightarrow> run_table" where
  "beat_run ok now r tbl =
     (if ok then tbl_update (mine r) (\<lambda>x. x\<lparr>rr_heartbeat := now\<rparr>) tbl else tbl)"

record cancelled =
  requested_by :: string
  cancel_reason :: string

definition SyncCancelled :: "string \<Rightarrow> string \<Rightarrow> cancelled" where
  "SyncCancelled who why =
     \<lparr>requested_by = (if who = [] then ''a caller'' else who), cancel_reason = why\<rparr>"

text \<open>\<open>checkpoint\<close>: the run with its next check moved, and the exception it raised, if any\<close>

definition checkpoint :: "bool \<Rightarrow> int \<Rightarrow> sync_run \<Rightarrow> run_table \<Rightarrow> sync_run \<times> cancelled option" where
  "checkpoint ok clock r tbl =
     (if \<not> sr_registered r then (r, None)
      else if clock < sr_next_check r then (r, None)
      else (r\<lparr>sr_next_check := clock + sr_check_interval r\<rparr>,
            if \<not> ok then None
            else case filter (mine r) tbl of
                   [] \<Rightarrow> None
                 | x # _ \<Rightarrow>
                     (case rr_requested_at x of
                        None \<Rightarrow> None
                      | Some _ \<Rightarrow> Some (SyncCancelled (str_or (rr_requested_by x) [])
                                          (str_or (rr_reason x) [])))))"

section \<open>The request\<close>

definition live_run :: "string \<Rightarrow> instant \<Rightarrow> run_row \<Rightarrow> bool" where
  "live_run source stale_before x \<longleftrightarrow> rr_source x = source \<and> stale_before \<le> rr_heartbeat x"

definition set_request :: "string \<Rightarrow> string \<Rightarrow> instant \<Rightarrow> run_row \<Rightarrow> run_row" where
  "set_request who why now x =
     x\<lparr>rr_requested_by := (if rr_requested_at x = None then Some who else rr_requested_by x),
       rr_reason := (if rr_requested_at x = None then (if why = [] then None else Some why)
                     else rr_reason x),
       rr_requested_at := (case rr_requested_at x of None \<Rightarrow> Some now | Some t \<Rightarrow> Some t)\<rparr>"

text \<open>The accepted row with its \<open>first_request\<close> flag, or None, and the table.\<close>

definition request_cancel ::
    "string \<Rightarrow> string \<Rightarrow> string \<Rightarrow> int \<Rightarrow> instant \<Rightarrow> run_table \<Rightarrow> (run_row \<times> bool) option \<times> run_table" where
  "request_cancel source who why stale_after now tbl =
     (let live = live_run source (now - stale_after)
      in (case tbl_update_returning live (set_request who why now) tbl of
            [] \<Rightarrow> None
          | x # _ \<Rightarrow> Some (x, rr_requested_at x = Some now),
          tbl_update live (set_request who why now) tbl))"

definition running :: "string \<Rightarrow> int \<Rightarrow> instant \<Rightarrow> run_table \<Rightarrow> run_row option" where
  "running source stale_after now tbl =
     (case filter (live_run source (now - stale_after)) tbl of [] \<Rightarrow> None | x # _ \<Rightarrow> Some x)"

section \<open>Lookups\<close>

lemma run_source_kept [simp]:
  "rr_source (restart_row new x) = rr_source x"
  "rr_source (set_request who why now x) = rr_source x"
  "rr_run (set_request who why now x) = rr_run x"
  "rr_heartbeat (set_request who why now x) = rr_heartbeat x"
  by (simp_all add: restart_row_def set_request_def)

lemma mine_filter:
  "keyed rr_source tbl \<Longrightarrow> filter (mine r) tbl =
     (case tbl_get rr_source (sr_source r) tbl of
        None \<Rightarrow> [] | Some x \<Rightarrow> if rr_run x = sr_run r then [x] else [])"
  using filter_key_keyed[of rr_source tbl "sr_source r" "\<lambda>x. rr_run x = sr_run r"]
  by (simp add: mine_def[abs_def])

lemma live_filter:
  "keyed rr_source tbl \<Longrightarrow> filter (live_run source b) tbl =
     (case tbl_get rr_source source tbl of
        None \<Rightarrow> [] | Some x \<Rightarrow> if b \<le> rr_heartbeat x then [x] else [])"
  using filter_key_keyed[of rr_source tbl source "\<lambda>x. b \<le> rr_heartbeat x"]
  by (simp add: live_run_def[abs_def])

lemma run_table_keyed [keyed_intros]:
  "keyed rr_source tbl \<Longrightarrow> keyed rr_source (snd (enter_run s i now r tbl))"
  "keyed rr_source tbl \<Longrightarrow> keyed rr_source (exit_run ok r tbl)"
  "keyed rr_source tbl \<Longrightarrow> keyed rr_source (beat_run ok now r tbl)"
  "keyed rr_source tbl \<Longrightarrow> keyed rr_source (snd (request_cancel source who why d now tbl))"
  by (auto simp: enter_run_def exit_run_def beat_run_def request_cancel_def Let_def
      intro!: keyed_upsert keyed_delete keyed_update)

lemma get_request:
  "tbl_get rr_source i (snd (request_cancel source who why d now tbl)) =
     map_option (\<lambda>x. if live_run source (now - d) x then set_request who why now x else x)
       (tbl_get rr_source i tbl)"
  by (simp add: request_cancel_def Let_def tbl_get_update)

lemma get_beat_run:
  "tbl_get rr_source i (beat_run ok now r tbl) =
     map_option (\<lambda>x. if ok \<and> mine r x then x\<lparr>rr_heartbeat := now\<rparr> else x) (tbl_get rr_source i tbl)"
  by (cases "tbl_get rr_source i tbl") (auto simp: beat_run_def tbl_get_update)

lemma get_exit_run:
  "keyed rr_source tbl \<Longrightarrow> tbl_get rr_source i (exit_run ok r tbl) =
     (case tbl_get rr_source i tbl of None \<Rightarrow> None
      | Some x \<Rightarrow> if sr_registered r \<and> ok \<and> mine r x then None else Some x)"
  by (auto simp: exit_run_def tbl_get_delete split: option.splits)

lemma checkpoint_keyed:
  "keyed rr_source tbl \<Longrightarrow> sr_registered r \<Longrightarrow> sr_next_check r \<le> clock \<Longrightarrow>
   snd (checkpoint True clock r tbl) =
     (case tbl_get rr_source (sr_source r) tbl of
        None \<Rightarrow> None
      | Some x \<Rightarrow>
          if rr_run x = sr_run r \<and> rr_requested_at x \<noteq> None
          then Some (SyncCancelled (str_or (rr_requested_by x) []) (str_or (rr_reason x) []))
          else None)"
  by (auto simp: checkpoint_def mine_filter split: option.splits)

text \<open>A request is refused exactly when \<open>running\<close> finds no live run, and then it writes nothing.\<close>

lemma refused_iff_not_running:
  "keyed rr_source tbl \<Longrightarrow>
   fst (request_cancel source who why d now tbl) = None \<longleftrightarrow> running source d now tbl = None"
  by (simp add: request_cancel_def running_def tbl_update_returning_def Let_def split: list.split)

lemma refused_writes_nothing:
  "fst (request_cancel source who why d now tbl) = None \<Longrightarrow>
   snd (request_cancel source who why d now tbl) = tbl"
  by (auto simp: request_cancel_def tbl_update_returning_def Let_def filter_empty_conv
      intro!: tbl_update_id split: list.splits)

lemma accepted_request:
  assumes "keyed rr_source tbl"
    and "request_cancel source who why d now tbl = (Some (x, first), tbl')"
  obtains x0 where "tbl_get rr_source source tbl = Some x0" and "now - d \<le> rr_heartbeat x0"
    and "x = set_request who why now x0" and "tbl_get rr_source source tbl' = Some x"
    and "rr_requested_at x \<noteq> None"
proof -
  have f: "fst (request_cancel source who why d now tbl) = Some (x, first)"
    and t: "tbl' = snd (request_cancel source who why d now tbl)"
    using assms(2) by simp_all
  from f assms(1) obtain x0 where x0: "tbl_get rr_source source tbl = Some x0"
    "now - d \<le> rr_heartbeat x0" "x = set_request who why now x0"
    by (auto simp: request_cancel_def tbl_update_returning_def Let_def live_filter
        split: option.splits if_splits)
  moreover have "tbl_get rr_source source tbl' = Some x"
    using x0 tbl_get_Some[of rr_source source tbl x0] by (simp add: t get_request live_run_def)
  moreover have "rr_requested_at x \<noteq> None"
    by (simp add: x0(3) set_request_def split: option.split)
  ultimately show ?thesis using that by blast
qed

section \<open>What other processes do meanwhile\<close>

datatype run_event =
    Enters bool bool instant sync_run
  | Exits bool sync_run
  | Beats bool instant sync_run
  | Requests string string string int instant

fun apply_event :: "run_event \<Rightarrow> run_table \<Rightarrow> run_table" where
  "apply_event (Enters ok1 ok2 now r) tbl = snd (enter_run ok1 ok2 now r tbl)"
| "apply_event (Exits ok r) tbl = exit_run ok r tbl"
| "apply_event (Beats ok now r) tbl = beat_run ok now r tbl"
| "apply_event (Requests source who why d now) tbl = snd (request_cancel source who why d now tbl)"

text \<open>The write lock keeps other runs of the source out; the run itself has not ended.\<close>

fun leaves_run :: "sync_run \<Rightarrow> run_event \<Rightarrow> bool" where
  "leaves_run r (Enters _ _ _ r') \<longleftrightarrow> sr_source r' \<noteq> sr_source r"
| "leaves_run r (Exits _ r') \<longleftrightarrow> sr_source r' \<noteq> sr_source r \<or> sr_run r' \<noteq> sr_run r"
| "leaves_run r _ \<longleftrightarrow> True"

fun requests_for :: "string \<Rightarrow> run_event \<Rightarrow> bool" where
  "requests_for source (Requests s _ _ _ _) \<longleftrightarrow> s = source"
| "requests_for source _ \<longleftrightarrow> False"

lemma apply_event_keyed [keyed_intros]:
  "keyed rr_source tbl \<Longrightarrow> keyed rr_source (apply_event e tbl)"
  by (cases e) (auto intro: run_table_keyed)

lemma enter_other_get:
  "sr_source r \<noteq> i \<Longrightarrow> tbl_get rr_source i (snd (enter_run a b now r tbl)) = tbl_get rr_source i tbl"
  by (simp add: enter_run_def Let_def tbl_get_upsert run_start_row_def)

definition asked :: "sync_run \<Rightarrow> string option \<Rightarrow> string option \<Rightarrow> run_row option \<Rightarrow> bool" where
  "asked r who why row \<longleftrightarrow>
     (case row of None \<Rightarrow> False
      | Some x \<Rightarrow> rr_run x = sr_run r \<and> rr_requested_at x \<noteq> None \<and> rr_requested_by x = who \<and>
          rr_reason x = why)"

lemma asked_kept:
  assumes "keyed rr_source tbl" and "leaves_run r e"
    and "asked r who why (tbl_get rr_source (sr_source r) tbl)"
  shows "asked r who why (tbl_get rr_source (sr_source r) (apply_event e tbl))"
proof -
  obtain x where x: "tbl_get rr_source (sr_source r) tbl = Some x" "rr_run x = sr_run r"
    "rr_requested_at x \<noteq> None" "rr_requested_by x = who" "rr_reason x = why"
    using assms(3) by (auto simp: asked_def split: option.splits)
  have src: "rr_source x = sr_source r" using tbl_get_Some[OF x(1)] by simp
  show ?thesis
  proof (cases e)
    case (Enters a b now r')
    then show ?thesis using assms(2,3) by (simp add: enter_other_get)
  next
    case (Exits ok r')
    then show ?thesis
      using assms(1,2) x src by (auto simp: get_exit_run asked_def mine_def)
  next
    case (Beats ok now r')
    then show ?thesis using x by (simp add: get_beat_run asked_def)
  next
    case (Requests source who' why' d now)
    then show ?thesis using x by (auto simp: get_request asked_def set_request_def)
  qed
qed

lemma asked_run:
  "keyed rr_source tbl \<Longrightarrow> \<forall>e \<in> set es. leaves_run r e \<Longrightarrow>
   asked r who why (tbl_get rr_source (sr_source r) tbl) \<Longrightarrow>
   asked r who why (tbl_get rr_source (sr_source r) (fold apply_event es tbl)) \<and>
   keyed rr_source (fold apply_event es tbl)"
  by (induction es arbitrary: tbl) (auto intro: asked_kept apply_event_keyed)


definition demo_run :: sync_run where
  "demo_run = (new_run ''docs'' ''r2'' ''h:1'' None)\<lparr>sr_registered := True\<rparr>"

definition demo_table :: run_table where
  "demo_table =
     [\<lparr>rr_source = ''docs'', rr_run = ''r2'', rr_owner = ''h:1'', rr_started = 5, rr_heartbeat = 5,
       rr_requested_at = None, rr_requested_by = None, rr_reason = None\<rparr>]"


lemma enter_registers:
  "keyed rr_source tbl \<Longrightarrow> enter_run True True now r tbl = (r', tbl') \<Longrightarrow>
   keyed rr_source tbl' \<and> sr_source r' = sr_source r \<and>
   (\<forall>x. tbl_get rr_source (sr_source r) tbl' = Some x \<longrightarrow> rr_requested_at x = None)"
  by (auto simp: enter_run_def Let_def tbl_get_upsert run_start_row_def restart_row_def
      keyed_upsert split: option.splits)

definition unasked :: "run_row option \<Rightarrow> bool" where
  "unasked row \<longleftrightarrow> (case row of None \<Rightarrow> True | Some x \<Rightarrow> rr_requested_at x = None)"

lemma unasked_kept:
  assumes "keyed rr_source tbl" and "\<not> requests_for source e"
    and "unasked (tbl_get rr_source source tbl)"
  shows "unasked (tbl_get rr_source source (apply_event e tbl))"
proof (cases e)
  case (Enters a b now r')
  then show ?thesis
    using assms(3)
    by (auto simp: enter_run_def Let_def tbl_get_upsert run_start_row_def restart_row_def unasked_def
        split: option.splits)
next
  case (Exits ok r')
  then show ?thesis using assms by (auto simp: get_exit_run unasked_def split: option.splits)
next
  case (Beats ok now r')
  then show ?thesis
    using assms(3) by (cases "tbl_get rr_source source tbl") (auto simp: get_beat_run unasked_def)
next
  case (Requests s who' why' d now)
  then show ?thesis
    using assms(2,3) tbl_get_Some[of rr_source source tbl]
    by (cases "tbl_get rr_source source tbl") (auto simp: get_request unasked_def live_run_def)
qed

lemma unasked_run:
  "keyed rr_source tbl \<Longrightarrow> \<forall>e \<in> set es. \<not> requests_for source e \<Longrightarrow>
   unasked (tbl_get rr_source source tbl) \<Longrightarrow>
   unasked (tbl_get rr_source source (fold apply_event es tbl)) \<and>
   keyed rr_source (fold apply_event es tbl)"
  by (induction es arbitrary: tbl) (auto intro: unasked_kept apply_event_keyed)

text \<open>
  A request stops only the run it was made to. A run that has registered itself is never
  cancelled by a request left in the table from before: until somebody asks for its source again,
  no checkpoint of it raises, whatever other runs and requests for other sources do.
\<close>

theorem old_request_never_reaches_new_run:
  assumes "keyed rr_source tbl" and "enter_run True True now r tbl = (r', tbl1)"
    and "\<forall>e \<in> set es. \<not> requests_for (sr_source r) e"
  shows "snd (checkpoint ok clock (r'\<lparr>sr_next_check := due\<rparr>) (fold apply_event es tbl1)) = None"
proof -
  have "keyed rr_source tbl1" and src: "sr_source r' = sr_source r"
    and "unasked (tbl_get rr_source (sr_source r) tbl1)"
    using enter_registers[OF assms(1,2)] by (auto simp: unasked_def split: option.splits)
  from unasked_run[OF this(1) assms(3) this(3)] show ?thesis
    using src by (auto simp: checkpoint_def mine_filter unasked_def split: option.splits)
qed

theorem old_request_never_reaches_new_run_witness:
  "let tbl0 = map (set_request ''ann'' ''why'' 7) demo_table;
       r = new_run ''docs'' ''r3'' ''h:2'' None
   in snd (checkpoint True 99 ((fst (enter_run True True 50 r tbl0))\<lparr>sr_next_check := 0\<rparr>)
        (fold apply_event [Requests ''code'' ''bob'' ''x'' 10 60]
          (snd (enter_run True True 50 r tbl0)))) = None"
  unfolding Let_def
  by (rule old_request_never_reaches_new_run[where r = "new_run ''docs'' ''r3'' ''h:2'' None"
        and tbl = "map (set_request ''ann'' ''why'' 7) demo_table" and now = 50])
    (simp_all add: demo_table_def keyed_def new_run_def)

section \<open>The loop of the sync\<close>

text \<open>
  \<open>cancellable\<close>: before item \<open>k\<close> is handed out the run is checked, \<open>check k\<close> is what the checkpoint
  raised. The result is the items handed out, the identities counted as processed when the
  consumer has drained the generator, and the exception left for it.
\<close>

fun cancellable ::
    "(nat \<Rightarrow> cancelled option) \<Rightarrow> ('i \<Rightarrow> 'id) \<Rightarrow> nat \<Rightarrow> 'i list \<Rightarrow> 'id set \<Rightarrow>
     'i list \<times> 'id set \<times> cancelled list" where
  "cancellable check identity k [] processed = ([], processed, [])"
| "cancellable check identity k (i # items) processed =
     (case check k of
        Some c \<Rightarrow> ([], processed, [c])
      | None \<Rightarrow>
          (case cancellable check identity (Suc k) items (insert (identity i) processed) of
             (out, processed', stopped) \<Rightarrow> (i # out, processed', stopped)))"

lemma cancellable_prefix:
  "cancellable check identity k items processed = (out, processed', stopped) \<Longrightarrow>
   out = take (length out) items \<and> processed' = processed \<union> identity ` set out \<and>
   (\<forall>j < length out. check (k + j) = None) \<and>
   (if stopped = [] then out = items
    else length out < length items \<and> check (k + length out) = Some (hd stopped) \<and> tl stopped = [])"
proof (induction check identity k items processed arbitrary: out processed' stopped
    rule: cancellable.induct)
  case (1 check identity k processed)
  then show ?case by simp
next
  case (2 check identity k i items processed)
  show ?case
  proof (cases "check k")
    case (Some c)
    then show ?thesis using 2(2) by auto
  next
    case None
    obtain out1 where out: "out = i # out1"
      and rec: "cancellable check identity (Suc k) items (insert (identity i) processed) =
        (out1, processed', stopped)"
      using 2(2) None by (auto split: prod.splits)
    have "\<forall>j < Suc (length out1). check (k + j) = None"
      using 2(1)[OF None rec] None by (auto simp: less_Suc_eq_0_disj)
    then show ?thesis using 2(1)[OF None rec] out by (auto split: if_splits)
  qed
qed

text \<open>\<open>skip_disabled\<close>: does a queued task of the source run? The row's \<open>enabled\<close> column, if there.\<close>

definition skip_disabled :: "int option option \<Rightarrow> bool" where
  "skip_disabled registered =
     (case registered of None \<Rightarrow> False
      | Some enabled \<Rightarrow> (case enabled of None \<Rightarrow> True | Some n \<Rightarrow> n = 0))"

section \<open>Ending a cancelled pass\<close>

text \<open>
  \<open>finish_cancelled\<close> as the calls it makes, in order. The connector's partial checkpoint is the
  cursor and the high watermark \<open>partial_checkpoint_from_items\<close> returned, or None; the fields the
  code adds to the watermark are written out.
\<close>

datatype 'm finish_call =
    ReportCancelling nat nat
  | FlushVectors
  | FlushNodeIndex
  | SaveGraph
  | ClearGraphDirty
  | SetEnrichDirty string
  | SaveManifest string 'm
  | ReconcileNodeIndex string
  | SetCheckpoint string nat nat bool string
  | MarkStatus string string
  | AppendEvent string string nat nat nat nat bool

record sync_result =
  res_source :: string
  res_indexed :: nat
  res_skipped :: nat
  res_status :: string
  res_processed :: nat
  res_total :: nat
  res_checkpoint_saved :: bool

definition finish_cancelled ::
    "string \<Rightarrow> 'm \<Rightarrow> nat \<Rightarrow> 'id set \<Rightarrow> nat option \<Rightarrow> nat option \<Rightarrow> bool \<Rightarrow> string option \<Rightarrow>
     'm finish_call list \<times> sync_result" where
  "finish_cancelled source manifest total_items processed counted_indexed counted_skipped
     has_vectors partial =
     (let indexed = (case counted_indexed of None \<Rightarrow> 0 | Some n \<Rightarrow> n);
          skipped = (case counted_skipped of None \<Rightarrow> 0 | Some n \<Rightarrow> n);
          saved = (partial \<noteq> None)
      in ([ReportCancelling (card processed) total_items] @
          (if has_vectors then [FlushVectors] else []) @
          (if indexed \<noteq> 0
           then [FlushNodeIndex, SaveGraph, ClearGraphDirty, SetEnrichDirty source] else []) @
          [SaveManifest source manifest, ReconcileNodeIndex source] @
          (case partial of None \<Rightarrow> []
           | Some cursor \<Rightarrow> [SetCheckpoint cursor indexed skipped True ''cancelled'']) @
          [MarkStatus source ''cancelled'',
           AppendEvent source ''cancelled'' (card processed) total_items indexed skipped saved],
          \<lparr>res_source = source, res_indexed = indexed, res_skipped = skipped,
           res_status = ''cancelled'', res_processed = card processed, res_total = total_items,
           res_checkpoint_saved = saved\<rparr>))"

text \<open>
  The vectors are flushed before the graph and the manifest are saved, so no saved manifest names
  an item whose vectors are missing; and the source is marked only \<open>cancelled\<close>.
\<close>

lemma finish_flushes_first:
  assumes "fst (finish_cancelled source manifest n processed i k True partial) =
      before @ SaveManifest source' m # after"
  shows "FlushVectors \<in> set before"
  using assms
  by (auto simp: finish_cancelled_def Let_def Cons_eq_append_conv split: if_splits option.splits)

lemma finish_never_healthy:
  "MarkStatus s status \<in> set (fst (finish_cancelled source manifest n processed i k v partial)) \<Longrightarrow>
   s = source \<and> status = ''cancelled''"
  by (auto simp: finish_cancelled_def Let_def split: if_splits option.splits)

text \<open>
  A cancelled pass accounts for exactly what it committed. The items handed out are the
  longest prefix of the listing before which no checkpoint raised; the identities counted are
  those of this prefix and no item read ahead; the exception kept is the one of the first raising
  check; and the result reports that many processed items, never more than were handed out.
\<close>

theorem cancelled_pass_accounts:
  assumes "cancellable check identity 0 items {} = (out, processed, stopped)"
  shows "out = take (length out) items \<and> processed = identity ` set out \<and>
    (\<forall>j < length out. check j = None) \<and>
    (stopped = [] \<longrightarrow> out = items) \<and>
    (stopped \<noteq> [] \<longrightarrow> stopped = [the (check (length out))] \<and> length out < length items) \<and>
    res_processed (snd (finish_cancelled source manifest (length items) processed i k v partial))
      \<le> length out"
proof -
  note p = cancellable_prefix[OF assms]
  have "card processed \<le> length out"
    using p by (metis Un_empty_left card_image_le card_length finite_set order_trans)
  then have "res_processed (snd (finish_cancelled source manifest (length items) processed i k v
      partial)) \<le> length out"
    by (simp add: finish_cancelled_def Let_def)
  moreover have "stopped \<noteq> [] \<Longrightarrow> stopped = [the (check (length out))]"
    using p by (cases stopped) auto
  ultimately show ?thesis using p by (auto split: if_splits)
qed

theorem cancelled_pass_accounts_witness:
  "fst (cancellable (\<lambda>k. if k = 2 then Some (SyncCancelled ''ann'' []) else None) id 0
      [3, 4, 5, 6 :: nat] {}) = [3, 4]"
  using cancelled_pass_accounts[of "\<lambda>k. if k = 2 then Some (SyncCancelled ''ann'' []) else None" id
      "[3, 4, 5, 6 :: nat]" "[3, 4]" "{3, 4}" "[SyncCancelled ''ann'' []]" "''docs''" "()" None None
      True None]
  by (simp add: numeral_2_eq_2 insert_commute)

end
