(* ===== verification/WriterFiles.thy ===== *)
theory WriterFiles
  imports Prelude
begin

text \<open>
  The two lock files of \<open>src/pheasant/sync/locks.py\<close>: \<open>EngineLease\<close>, one JSON file that names the
  writer process of a state directory, and \<open>source_lock\<close>, one file created with mode \<open>x\<close> for each
  source. Both are built of several file operations, and what another process does between two
  of them is an argument (\<open>env\<close>) of the definitions. \<open>os.kill(pid, 0)\<close> is the parameter \<open>kill\<close>.
  Heartbeats that parse carry an offset, as \<open>_write\<close> writes them.
\<close>

section \<open>Is the process of a PID alive\<close>

datatype kill_result = Delivered | NoSuchProcess | NotPermitted

definition pid_is_running :: "(int \<Rightarrow> kill_result) \<Rightarrow> int \<Rightarrow> bool" where
  "pid_is_running kill pid \<longleftrightarrow> \<not> pid \<le> 0 \<and> kill pid \<noteq> NoSuchProcess"

section \<open>EngineLease\<close>

text \<open>
  The payload as \<open>_read\<close> and \<open>_is_stale\<close> look at it: a PID that is an int, a host name, and a
  heartbeat that parses; None where the JSON has anything else. The file is None when it is
  missing or is not a JSON object.
\<close>

record engine_file =
  ef_pid :: "int option"
  ef_host :: "string option"
  ef_heartbeat :: "instant option"

record engine =
  e_pid :: int
  e_host :: string
  e_stale_after :: int
  e_wait :: int
  e_held :: bool

definition engine_is_stale ::
    "(int \<Rightarrow> kill_result) \<Rightarrow> engine \<Rightarrow> instant \<Rightarrow> engine_file \<Rightarrow> bool \<Rightarrow> bool" where
  "engine_is_stale kill e now f same_host =
     (case ef_heartbeat f of
        None \<Rightarrow> True
      | Some h \<Rightarrow>
          if e_stale_after e < now - h then True
          else same_host \<and>
            (case ef_pid f of None \<Rightarrow> False | Some pid \<Rightarrow> \<not> pid_is_running kill pid))"

definition same_host :: "engine \<Rightarrow> engine_file \<Rightarrow> bool" where
  "same_host e f \<longleftrightarrow> ef_host f = None \<or> ef_host f = Some (e_host e)"

text \<open>One look of \<open>acquire\<close> at the file: does its loop break?\<close>

definition may_write :: "(int \<Rightarrow> kill_result) \<Rightarrow> engine \<Rightarrow> instant \<Rightarrow> engine_file option \<Rightarrow> bool" where
  "may_write kill e now file =
     (case file of
        None \<Rightarrow> True
      | Some f \<Rightarrow>
          (ef_pid f = Some (e_pid e) \<and> same_host e f) \<or> engine_is_stale kill e now f (same_host e f))"

definition engine_write :: "engine \<Rightarrow> instant \<Rightarrow> engine_file option" where
  "engine_write e now =
     Some \<lparr>ef_pid = Some (e_pid e), ef_host = Some (e_host e), ef_heartbeat = Some now\<rparr>"

datatype engine_outcome = EngineHeld engine "engine_file option" | EngineLeaseError "engine_file option"

text \<open>
  \<open>acquire\<close>: pass \<open>k\<close> reads the file at \<open>wall k\<close>, the monotonic clock reads \<open>ticks k\<close>, and
  \<open>env k\<close> is what others do before the next operation of this process: the next read, or the write.
\<close>

fun engine_loop ::
    "nat \<Rightarrow> (int \<Rightarrow> kill_result) \<Rightarrow> (nat \<Rightarrow> instant) \<Rightarrow> (nat \<Rightarrow> int) \<Rightarrow>
     (nat \<Rightarrow> engine_file option \<Rightarrow> engine_file option) \<Rightarrow> int \<Rightarrow> nat \<Rightarrow> engine \<Rightarrow>
     engine_file option \<Rightarrow> engine_outcome option" where
  "engine_loop 0 kill wall ticks env deadline k e file = None"
| "engine_loop (Suc fuel) kill wall ticks env deadline k e file =
     (if may_write kill e (wall k) file
      then Some (EngineHeld (e\<lparr>e_held := True\<rparr>) (engine_write e (wall k)))
      else if deadline \<le> ticks k then Some (EngineLeaseError file)
      else engine_loop fuel kill wall ticks env deadline (Suc k) e (env k file))"

definition engine_acquire ::
    "nat \<Rightarrow> (int \<Rightarrow> kill_result) \<Rightarrow> (nat \<Rightarrow> instant) \<Rightarrow> (nat \<Rightarrow> int) \<Rightarrow>
     (nat \<Rightarrow> engine_file option \<Rightarrow> engine_file option) \<Rightarrow> int \<Rightarrow> engine \<Rightarrow>
     engine_file option \<Rightarrow> engine_outcome option" where
  "engine_acquire fuel kill wall ticks env started e file =
     (if e_held e then Some (EngineHeld e file)
      else engine_loop fuel kill wall ticks env (started + e_wait e) 0 e file)"

definition engine_release :: "engine \<Rightarrow> engine_file option \<Rightarrow> engine \<times> engine_file option" where
  "engine_release e file =
     (if \<not> e_held e then (e, file)
      else (e\<lparr>e_held := False\<rparr>,
            case file of None \<Rightarrow> None
            | Some f \<Rightarrow> if ef_pid f = Some (e_pid e) then None else Some f))"

text \<open>One pass of the heartbeat thread; its \<open>_stop\<close> event is set by \<open>release\<close>.\<close>

definition engine_beat :: "engine \<Rightarrow> instant \<Rightarrow> engine_file option \<Rightarrow> engine_file option" where
  "engine_beat e now file = (if e_held e then engine_write e now else file)"

text \<open>A writer other than \<open>e\<close>'s process that is alive as far as \<open>e\<close> can tell.\<close>

definition live_writer :: "(int \<Rightarrow> kill_result) \<Rightarrow> engine \<Rightarrow> instant \<Rightarrow> engine_file \<Rightarrow> bool" where
  "live_writer kill e now f \<longleftrightarrow>
     (case (ef_pid f, ef_heartbeat f) of
        (Some pid, Some h) \<Rightarrow> now - h \<le> e_stale_after e \<and>
          (same_host e f \<longrightarrow> pid \<noteq> e_pid e \<and> pid_is_running kill pid)
      | _ \<Rightarrow> False)"

lemma live_writer_blocks: "live_writer kill e now f \<Longrightarrow> \<not> may_write kill e now (Some f)"
  by (auto simp: may_write_def live_writer_def engine_is_stale_def split: option.splits)

lemma engine_loop_waits:
  assumes "\<forall>j. k \<le> j \<and> j \<le> m \<longrightarrow> live_writer kill e (wall j) f"
    and "\<forall>j. k \<le> j \<and> j < m \<longrightarrow> ticks j < deadline \<and> env j (Some f) = Some f"
    and "k \<le> m" and "deadline \<le> ticks m" and "m - k < fuel"
  shows "engine_loop fuel kill wall ticks env deadline k e (Some f) =
    Some (EngineLeaseError (Some f))"
  using assms
proof (induction fuel arbitrary: k)
  case (Suc fuel)
  have blocked: "\<not> may_write kill e (wall k) (Some f)"
    using Suc.prems(1,3) by (simp add: live_writer_blocks)
  show ?case
  proof (cases "k = m")
    case True
    then show ?thesis using blocked Suc.prems(4) by simp
  next
    case False
    then have "k < m" using Suc.prems(3) by simp
    then have "engine_loop fuel kill wall ticks env deadline (Suc k) e (Some f) =
        Some (EngineLeaseError (Some f))"
      using Suc.prems by (intro Suc.IH) auto
    then show ?thesis using blocked Suc.prems(2) \<open>k < m\<close> by simp
  qed
qed simp



text \<open>
  What the file lease does not give. The look and the write are two operations, so two processes
  may both look before either writes, and both go on to hold the lease; a holder that missed its
  window writes over its successor at its next beat; and \<open>release\<close> compares the PID only, so it
  removes the lease another host holds under the same PID, or that another engine of the same
  process still relies on.
\<close>

definition two_engines :: "string \<Rightarrow> string \<Rightarrow> int \<Rightarrow> int \<Rightarrow> engine \<times> engine" where
  "two_engines host1 host2 pid1 pid2 =
     (\<lparr>e_pid = pid1, e_host = host1, e_stale_after = seconds 30, e_wait = 0, e_held = False\<rparr>,
      \<lparr>e_pid = pid2, e_host = host2, e_stale_after = seconds 30, e_wait = 0, e_held = False\<rparr>)"

text \<open>
  The engine lease is no mutual exclusion under a race. Of two processes that both read
  the state directory before either has written, both acquire the lease, whatever their hosts and
  PIDs; only the second is named in the file.
\<close>

theorem engine_race_has_two_winners:
  "let (e1, e2) = two_engines host1 host2 pid1 pid2;
       won1 = engine_acquire 1 kill wall ticks env started e1 None;
       won2 = engine_acquire 1 kill wall ticks env started e2 None
   in won1 = Some (EngineHeld (e1\<lparr>e_held := True\<rparr>) (engine_write e1 (wall 0))) \<and>
      won2 = Some (EngineHeld (e2\<lparr>e_held := True\<rparr>) (engine_write e2 (wall 0)))"
  by (simp add: two_engines_def engine_acquire_def may_write_def)

lemma engine_beat_overwrites_successor:
  "e_held e \<Longrightarrow> engine_beat e now (engine_write e2 t) = engine_write e now"
  by (simp add: engine_beat_def)

lemma engine_release_drops_foreign_lease:
  "e_held e \<Longrightarrow> e_pid e2 = e_pid e \<Longrightarrow> snd (engine_release e (engine_write e2 t)) = None"
  by (simp add: engine_release_def engine_write_def)

lemma engine_release_keeps_other_pid:
  "e_pid e2 \<noteq> e_pid e \<Longrightarrow> snd (engine_release e (engine_write e2 t)) = engine_write e2 t"
  by (simp add: engine_release_def engine_write_def)

section \<open>source\<open>_\<close>lock\<close>

text \<open>
  The lock file: missing, unreadable as JSON (as it is between \<open>open("x")\<close> and \<open>json.dump\<close>), or a
  payload.
\<close>

record lock_payload =
  lp_pid :: "int option"
  lp_host :: "string option"

datatype lock_file = NoLock | Unreadable | Locked lock_payload

definition lock_is_active :: "(int \<Rightarrow> kill_result) \<Rightarrow> string \<Rightarrow> lock_file \<Rightarrow> bool" where
  "lock_is_active kill host lock =
     (case lock of
        Locked p \<Rightarrow>
          (if lp_host p \<noteq> Some host then False
           else (case lp_pid p of None \<Rightarrow> False | Some pid \<Rightarrow> pid_is_running kill pid))
      | _ \<Rightarrow> False)"

definition clears_lock :: "(int \<Rightarrow> kill_result) \<Rightarrow> string \<Rightarrow> lock_file \<Rightarrow> bool" where
  "clears_lock kill host lock \<longleftrightarrow> lock \<noteq> NoLock \<and> \<not> lock_is_active kill host lock"

text \<open>Unlinking never fails here on a missing file, and the open fails on an existing one.\<close>

definition unlink_lock :: "lock_file \<Rightarrow> lock_file" where "unlink_lock lock = NoLock"

definition open_x :: "lock_file \<Rightarrow> lock_file option" where
  "open_x lock = (if lock = NoLock then Some Unreadable else None)"

definition my_payload :: "int \<Rightarrow> string \<Rightarrow> lock_payload" where
  "my_payload pid host = \<lparr>lp_pid = Some pid, lp_host = Some host\<rparr>"

datatype locked = HoldsLock lock_file | AlreadyLocked lock_file

fun source_lock ::
    "nat \<Rightarrow> (int \<Rightarrow> kill_result) \<Rightarrow> (nat \<Rightarrow> int) \<Rightarrow> (nat \<Rightarrow> lock_file \<Rightarrow> lock_file) \<Rightarrow>
     int \<Rightarrow> nat \<Rightarrow> int \<Rightarrow> string \<Rightarrow> lock_file \<Rightarrow> locked option" where
  "source_lock 0 kill ticks env deadline k pid host lock = None"
| "source_lock (Suc fuel) kill ticks env deadline k pid host lock =
     (let lock' = (if clears_lock kill host lock then unlink_lock lock else lock)
      in case open_x lock' of
           Some _ \<Rightarrow> Some (HoldsLock (Locked (my_payload pid host)))
         | None \<Rightarrow>
             if deadline \<le> ticks k then Some (AlreadyLocked lock')
             else source_lock fuel kill ticks env deadline (Suc k) pid host (env k lock'))"

text \<open>A lock of a live process of this host stands, and the contender reports it.\<close>

lemma live_lock_stands:
  assumes "pid_is_running kill other" and "deadline \<le> ticks k"
  shows "source_lock (Suc fuel) kill ticks env deadline k pid host
      (Locked (my_payload other host)) = Some (AlreadyLocked (Locked (my_payload other host)))"
  using assms by (simp add: clears_lock_def lock_is_active_def my_payload_def open_x_def)

text \<open>A lock of another host or of a dead process is cleared and taken.\<close>

lemma dead_lock_taken:
  assumes "\<not> lock_is_active kill host lock"
  shows "source_lock (Suc fuel) kill ticks env deadline k pid host lock =
    Some (HoldsLock (Locked (my_payload pid host)))"
  using assms by (simp add: clears_lock_def unlink_lock_def open_x_def)

text \<open>
  \<open>source_lock\<close> lets two live writers in. The winner's file is empty between its
  exclusive open and its dump, and an empty file counts as a stale lock: a contender that looks
  in that window removes it and takes the lock too, although the winner is alive on the same host.
\<close>

theorem source_lock_window:
  assumes "open_x lock = Some opened"
  shows "source_lock (Suc fuel) (\<lambda>_. Delivered) ticks env deadline k pid2 host opened =
    Some (HoldsLock (Locked (my_payload pid2 host)))"
  using assms
  by (simp add: open_x_def clears_lock_def lock_is_active_def unlink_lock_def split: if_splits)

theorem source_lock_window_witness:
  "source_lock 1 (\<lambda>_. Delivered) (\<lambda>_. 0) (\<lambda>_ f. f) 0 0 22 ''host'' Unreadable =
     Some (HoldsLock (Locked (my_payload 22 ''host'')))"
  using source_lock_window[of NoLock Unreadable 0 "\<lambda>_. 0" "\<lambda>_ f. f" 0 0 22 "''host''"]
  by (simp add: open_x_def)

end
