(* ===== verification/Graph.thy ===== *)
theory Graph
  imports Prelude
begin

text \<open>
  The in-memory knowledge graph, class \<open>SimpleMultiDiGraph\<close> of \<open>src/pheasant/graph/simple.py\<close>:
  its dicts, which keep insertion order, as association lists changed by \<^const>\<open>AList.update\<close> and
  \<^const>\<open>AList.delete\<close>, and its sets of pending work as lists read through \<^const>\<open>set\<close>. The
  parallel edges of a pair are the list of their attributes, since their keys are always
  \<open>0 .. n - 1\<close>. The search blobs are a function of a node's attributes and are left out; the lock
  makes each method one step.
\<close>

section \<open>Attributes\<close>

text \<open>A value of an attribute: \<open>None\<close>, a text, or another value, held as the text of it.\<close>

datatype pyval = PNone | PText string | PJson string

type_synonym attrs = "(string \<times> pyval) list"
type_synonym pair = "string \<times> string"

definition attr_get :: "attrs \<Rightarrow> string \<Rightarrow> pyval option" where
  "attr_get a k = (case map_of a k of Some v \<Rightarrow> if v = PNone then None else Some v | None \<Rightarrow> None)"

fun py_str :: "pyval \<Rightarrow> string" where
  "py_str PNone = ''None''"
| "py_str (PText s) = s"
| "py_str (PJson s) = s"

text \<open>\<open>{**old, **new}\<close>\<close>

definition dict_merge :: "attrs \<Rightarrow> attrs \<Rightarrow> attrs" where
  "dict_merge old new = fold (\<lambda>(k, v). AList.update k v) new old"

definition type_of :: "attrs \<Rightarrow> pyval option" where
  "type_of a = attr_get a ''type''"

section \<open>The graph\<close>

record graph =
  g_nodes :: "(string \<times> attrs) list"
  g_edges :: "(pair \<times> attrs list) list"
  g_out :: "(string \<times> string list) list"
  g_edge_count :: int
  g_types :: "(string \<times> int) list"
  g_dirty :: "string list"
  g_removed :: "string list"
  pending_nodes :: "string list"
  pending_removed_nodes :: "string list"
  pending_pairs :: "pair list"
  pending_removed_pairs :: "pair list"

definition empty_graph :: graph where
  "empty_graph =
     \<lparr>g_nodes = [], g_edges = [], g_out = [], g_edge_count = 0, g_types = [], g_dirty = [],
      g_removed = [], pending_nodes = [], pending_removed_nodes = [], pending_pairs = [],
      pending_removed_pairs = []\<rparr>"

definition has_node :: "graph \<Rightarrow> string \<Rightarrow> bool" where
  "has_node g n \<longleftrightarrow> map_of (g_nodes g) n \<noteq> None"

definition edges_of :: "graph \<Rightarrow> pair \<Rightarrow> attrs list" where
  "edges_of g p = (case map_of (g_edges g) p of None \<Rightarrow> [] | Some es \<Rightarrow> es)"

definition discard :: "'a \<Rightarrow> 'a list \<Rightarrow> 'a list" where
  "discard x xs = removeAll x xs"

text \<open>\<open>_retype\<close> on the tally of node types\<close>

definition tally :: "(string \<times> int) list \<Rightarrow> string \<Rightarrow> int" where
  "tally t s = (case map_of t s of None \<Rightarrow> 0 | Some n \<Rightarrow> n)"

definition retype_out :: "pyval option \<Rightarrow> (string \<times> int) list \<Rightarrow> (string \<times> int) list" where
  "retype_out old t =
     (case old of
        None \<Rightarrow> t
      | Some v \<Rightarrow>
          (let remaining = tally t (py_str v) - 1
           in if 0 < remaining then AList.update (py_str v) remaining t
              else AList.delete (py_str v) t))"

definition retype_in :: "pyval option \<Rightarrow> (string \<times> int) list \<Rightarrow> (string \<times> int) list" where
  "retype_in new t =
     (case new of None \<Rightarrow> t | Some v \<Rightarrow> AList.update (py_str v) (tally t (py_str v) + 1) t)"

definition retype :: "pyval option \<Rightarrow> pyval option \<Rightarrow> (string \<times> int) list \<Rightarrow> (string \<times> int) list" where
  "retype old new t = (if old = new then t else retype_in new (retype_out old t))"

definition add_node :: "string \<Rightarrow> attrs \<Rightarrow> graph \<Rightarrow> graph" where
  "add_node n a g =
     (let existing = map_of (g_nodes g) n;
          merged = dict_merge (case existing of None \<Rightarrow> [] | Some e \<Rightarrow> e) a
      in g\<lparr>g_nodes := AList.update n merged (g_nodes g),
           g_types := retype (case existing of None \<Rightarrow> None | Some e \<Rightarrow> type_of e) (type_of merged)
             (g_types g),
           g_dirty := List.insert n (g_dirty g),
           g_removed := discard n (g_removed g),
           pending_nodes := List.insert n (pending_nodes g)\<rparr>)"

definition link_out :: "string \<Rightarrow> string \<Rightarrow> (string \<times> string list) list \<Rightarrow> (string \<times> string list) list" where
  "link_out s t out =
     (let targets = (case map_of out s of None \<Rightarrow> [] | Some ts \<Rightarrow> ts)
      in AList.update s (if t \<in> set targets then targets else targets @ [t]) out)"

definition add_edge :: "string \<Rightarrow> string \<Rightarrow> attrs \<Rightarrow> graph \<Rightarrow> graph" where
  "add_edge s t a g =
     g\<lparr>g_edges := AList.update (s, t) (edges_of g (s, t) @ [a]) (g_edges g),
       g_edge_count := g_edge_count g + 1,
       g_out := link_out s t (g_out g),
       pending_pairs := List.insert (s, t) (pending_pairs g),
       pending_removed_pairs := discard (s, t) (pending_removed_pairs g)\<rparr>"

definition touch_edge :: "string \<Rightarrow> string \<Rightarrow> graph \<Rightarrow> graph" where
  "touch_edge s t g =
     (if map_of (g_edges g) (s, t) \<noteq> None
      then g\<lparr>pending_pairs := List.insert (s, t) (pending_pairs g),
             pending_removed_pairs := discard (s, t) (pending_removed_pairs g)\<rparr>
      else g)"

definition drop_adjacency ::
    "string \<Rightarrow> string \<Rightarrow> (string \<times> string list) list \<Rightarrow> (string \<times> string list) list" where
  "drop_adjacency s t out =
     (case map_of out s of
        None \<Rightarrow> out
      | Some targets \<Rightarrow>
          (let left = removeAll t targets
           in if left = [] then AList.delete s out else AList.update s left out))"

text \<open>The first loop of \<open>remove_nodes_from\<close>, for one node\<close>

definition forget_node :: "string \<Rightarrow> graph \<Rightarrow> graph" where
  "forget_node n g =
     (let existing = map_of (g_nodes g) n
      in g\<lparr>g_nodes := AList.delete n (g_nodes g),
           g_types := (case existing of None \<Rightarrow> g_types g
                       | Some e \<Rightarrow> retype (type_of e) None (g_types g)),
           g_dirty := discard n (g_dirty g),
           pending_nodes := discard n (pending_nodes g),
           g_removed := (if existing = None then g_removed g else List.insert n (g_removed g)),
           pending_removed_nodes := (if existing = None then pending_removed_nodes g
             else List.insert n (pending_removed_nodes g)),
           g_out := AList.delete n (g_out g)\<rparr>)"

text \<open>The second loop, for one pair\<close>

definition drop_pair :: "pair \<Rightarrow> graph \<Rightarrow> graph" where
  "drop_pair p g =
     g\<lparr>g_edges := AList.delete p (g_edges g),
       g_edge_count := g_edge_count g - int (length (edges_of g p)),
       g_out := drop_adjacency (fst p) (snd p) (g_out g),
       pending_pairs := discard p (pending_pairs g)\<rparr>"

definition remove_nodes_from :: "string list \<Rightarrow> graph \<Rightarrow> graph" where
  "remove_nodes_from nodes g =
     (let remove = dict_fromkeys nodes;
          g1 = fold forget_node remove g
      in fold drop_pair
           (filter (\<lambda>p. fst p \<in> set remove \<or> snd p \<in> set remove) (map fst (g_edges g1))) g1)"

definition remove_edge_pair :: "pair \<Rightarrow> graph \<Rightarrow> graph" where
  "remove_edge_pair p g =
     (let dropped = edges_of g p
      in (drop_pair p g)\<lparr>pending_removed_pairs :=
            (if dropped = [] then pending_removed_pairs g
             else List.insert p (pending_removed_pairs g))\<rparr>)"

definition remove_edges_from :: "pair list \<Rightarrow> graph \<Rightarrow> graph" where
  "remove_edges_from pairs g = fold remove_edge_pair pairs g"

definition remove_edges_where ::
    "string \<Rightarrow> string \<Rightarrow> (attrs \<Rightarrow> bool) \<Rightarrow> graph \<Rightarrow> graph \<times> nat" where
  "remove_edges_where s t predicate g =
     (let data = edges_of g (s, t);
          kept = filter (\<lambda>a. \<not> predicate a) data;
          removed = length data - length kept
      in if data = [] then (g, 0)
         else if removed = 0 then (g, 0)
         else (let g1 = g\<lparr>g_edge_count := g_edge_count g - int removed\<rparr>
               in (if kept \<noteq> []
                   then g1\<lparr>g_edges := AList.update (s, t) kept (g_edges g),
                           pending_pairs := List.insert (s, t) (pending_pairs g),
                           pending_removed_pairs := discard (s, t) (pending_removed_pairs g)\<rparr>
                   else g1\<lparr>g_edges := AList.delete (s, t) (g_edges g),
                           g_out := drop_adjacency s t (g_out g),
                           pending_pairs := discard (s, t) (pending_pairs g),
                           pending_removed_pairs := List.insert (s, t) (pending_removed_pairs g)\<rparr>,
                   removed)))"

section \<open>Reading\<close>

definition out_edges :: "graph \<Rightarrow> string \<Rightarrow> (string \<times> string \<times> attrs list) list" where
  "out_edges g n =
     (case map_of (g_out g) n of
        None \<Rightarrow> []
      | Some targets \<Rightarrow>
          map (\<lambda>t. (n, t, edges_of g (n, t))) (filter (\<lambda>t. edges_of g (n, t) \<noteq> []) targets))"

definition targets_in :: "(string \<times> string list) list \<Rightarrow> string \<Rightarrow> string list" where
  "targets_in out n = (case map_of out n of None \<Rightarrow> [] | Some targets \<Rightarrow> targets)"

definition neighbors :: "graph \<Rightarrow> string \<Rightarrow> string list" where
  "neighbors g n = targets_in (g_out g) n"

definition in_edges :: "graph \<Rightarrow> string \<Rightarrow> (string \<times> string \<times> attrs list) list" where
  "in_edges g n =
     map (\<lambda>((s, t), es). (s, t, es)) (filter (\<lambda>((s, t), es). t = n \<and> es \<noteq> []) (g_edges g))"

definition number_of_nodes :: "graph \<Rightarrow> nat" where
  "number_of_nodes g = length (g_nodes g)"

definition number_of_edges :: "graph \<Rightarrow> int" where
  "number_of_edges g = g_edge_count g"

section \<open>The delta for the persisted graph\<close>

record graph_delta =
  node_upserts :: "(string \<times> attrs) list"
  node_removals :: "string list"
  edge_upserts :: "(string \<times> string \<times> nat \<times> attrs) list"
  edge_removals :: "pair list"

definition pair_rows :: "graph \<Rightarrow> pair \<Rightarrow> (string \<times> string \<times> nat \<times> attrs) list" where
  "pair_rows g p = map (\<lambda>(seq, a). (fst p, snd p, seq, a)) (List.enumerate 0 (edges_of g p))"

definition graph_delta :: "graph \<Rightarrow> graph_delta" where
  "graph_delta g =
     \<lparr>node_upserts =
        concat (map (\<lambda>n. case map_of (g_nodes g) n of None \<Rightarrow> [] | Some a \<Rightarrow> [(n, a)])
          (pending_nodes g)),
      node_removals = sort (pending_removed_nodes g),
      edge_upserts = concat (map (pair_rows g) (pending_pairs g)),
      edge_removals = sort (dict_fromkeys (pending_pairs g @ pending_removed_pairs g))\<rparr>"

definition without :: "'a list \<Rightarrow> 'a list \<Rightarrow> 'a list" where
  "without xs gone = filter (\<lambda>x. x \<notin> set gone) xs"

definition clear_graph_delta :: "graph_delta \<Rightarrow> graph \<Rightarrow> graph" where
  "clear_graph_delta d g =
     g\<lparr>pending_nodes := without (pending_nodes g) (map fst (node_upserts d)),
       pending_removed_nodes := without (pending_removed_nodes g) (node_removals d),
       pending_pairs := without (pending_pairs g) (map (\<lambda>(s, t, _, _). (s, t)) (edge_upserts d)),
       pending_removed_pairs := without (pending_removed_pairs g) (edge_removals d)\<rparr>"

definition mark_all_pending :: "graph \<Rightarrow> graph" where
  "mark_all_pending g =
     g\<lparr>pending_nodes := map fst (g_nodes g), pending_pairs := map fst (g_edges g),
       pending_removed_nodes := [], pending_removed_pairs := []\<rparr>"

definition settled :: "graph \<Rightarrow> bool" where
  "settled g \<longleftrightarrow> pending_nodes g = [] \<and> pending_pairs g = [] \<and> pending_removed_nodes g = [] \<and>
     pending_removed_pairs g = []"

text \<open>\<open>take_index_delta\<close>: the nodes the search index owes, and the claimed sets emptied\<close>

definition take_index_delta :: "graph \<Rightarrow> (string list \<times> string list) \<times> graph" where
  "take_index_delta g =
     ((filter (has_node g) (g_dirty g), g_removed g), g\<lparr>g_dirty := [], g_removed := []\<rparr>)"

section \<open>\<open>upsert\<close> of the graph builder\<close>

text \<open>\<open>_same_content\<close>: equal as dicts, but for \<open>updated_at\<close>\<close>

definition same_content :: "attrs \<Rightarrow> attrs \<Rightarrow> bool" where
  "same_content old new \<longleftrightarrow>
     (\<forall>k \<in> set (map fst old @ map fst new). k = ''updated_at'' \<or> map_of old k = map_of new k)"

text \<open>\<open>d.get(k, default)\<close>, where the default may be None\<close>

definition get_or :: "attrs \<Rightarrow> string \<Rightarrow> pyval \<Rightarrow> pyval" where
  "get_or a k d = (case map_of a k of Some v \<Rightarrow> v | None \<Rightarrow> d)"

definition upsert_node ::
    "string \<Rightarrow> pyval \<Rightarrow> string \<Rightarrow> string \<Rightarrow> string \<Rightarrow> attrs \<Rightarrow> graph \<Rightarrow> graph" where
  "upsert_node kb now n ty label a g =
     (let existing = map_of (g_nodes g) n;
          merged = dict_merge
            [(''id'', PText n), (''type'', PText ty), (''label'', PText label),
             (''created_at'', get_or (case existing of None \<Rightarrow> [] | Some e \<Rightarrow> e) ''created_at'' now),
             (''knowledge_base_id'', PText kb)] a
      in add_node n
           (AList.update ''updated_at''
             (case existing of
                None \<Rightarrow> now
              | Some e \<Rightarrow> if same_content e (dict_merge e merged) then get_or e ''updated_at'' now else now)
             merged) g)"

fun first_of_type :: "string \<Rightarrow> attrs list \<Rightarrow> nat option" where
  "first_of_type ty [] = None"
| "first_of_type ty (a # as) =
     (if attr_get a ''type'' = Some (PText ty) then Some 0
      else map_option Suc (first_of_type ty as))"

text \<open>The edit of an edge's dict in place, and the edit with its \<open>touch_edge\<close>\<close>

definition edit_in_place :: "string \<Rightarrow> string \<Rightarrow> nat \<Rightarrow> attrs \<Rightarrow> graph \<Rightarrow> graph" where
  "edit_in_place s t i a g =
     g\<lparr>g_edges := AList.update (s, t) ((edges_of g (s, t))[i := a]) (g_edges g)\<rparr>"

definition edit_edge :: "string \<Rightarrow> string \<Rightarrow> nat \<Rightarrow> attrs \<Rightarrow> graph \<Rightarrow> graph" where
  "edit_edge s t i a g = touch_edge s t (edit_in_place s t i a g)"

definition upsert_edge :: "pyval \<Rightarrow> string \<Rightarrow> string \<Rightarrow> string \<Rightarrow> attrs \<Rightarrow> graph \<Rightarrow> graph" where
  "upsert_edge now s t ty a g =
     (case first_of_type ty (edges_of g (s, t)) of
        Some i \<Rightarrow>
          (let before = edges_of g (s, t) ! i;
               data = dict_merge before a
           in if same_content before data
              then edit_in_place s t i
                     (AList.update ''updated_at''
                       (get_or before ''updated_at'' (get_or before ''created_at'' PNone)) data) g
              else edit_edge s t i (AList.update ''updated_at'' now data) g)
      | None \<Rightarrow>
          add_edge s t
            (dict_merge
              [(''type'', PText ty), (''created_at'', now),
               (''confidence'', get_or a ''confidence'' (PJson ''1.0''))]
              (AList.delete ''confidence'' a)) g)"

end
