(* ===== verification/GraphInv.thy ===== *)
theory GraphInv
  imports Graph
begin

text \<open>
  The running aggregates of the in-memory graph never drift: every mutation of
  \<open>SimpleMultiDiGraph\<close> keeps the out-adjacency, the edge count and the tally of node types equal to
  what a scan of the nodes and edges would give.
\<close>

section \<open>Sums over an association list\<close>

definition alist_total :: "('v \<Rightarrow> int) \<Rightarrow> ('k \<times> 'v) list \<Rightarrow> int" where
  "alist_total w al = sum_list (map (\<lambda>(k, v). w v) al)"

definition weight_at :: "('v \<Rightarrow> int) \<Rightarrow> ('k \<times> 'v) list \<Rightarrow> 'k \<Rightarrow> int" where
  "weight_at w al k = (case map_of al k of None \<Rightarrow> 0 | Some v \<Rightarrow> w v)"

lemma total_simps [simp]:
  "alist_total w [] = 0" "alist_total w ((k, v) # al) = w v + alist_total w al"
  by (simp_all add: alist_total_def)

lemma weight_at_simps [simp]:
  "weight_at w [] k = 0"
  "weight_at w ((k', v) # al) k = (if k' = k then w v else weight_at w al k)"
  by (simp_all add: weight_at_def)

lemma weight_at_absent: "k \<notin> fst ` set al \<Longrightarrow> weight_at w al k = 0"
  by (induction al) auto

lemma total_update [simp]:
  "distinct (map fst al) \<Longrightarrow>
   alist_total w (AList.update k v al) = alist_total w al - weight_at w al k + w v"
  by (induction al) (auto simp: weight_at_absent)

lemma delete_absent: "k \<notin> fst ` set al \<Longrightarrow> AList.delete k al = al"
  by (induction al) auto

lemma total_delete [simp]:
  "distinct (map fst al) \<Longrightarrow> alist_total w (AList.delete k al) = alist_total w al - weight_at w al k"
  by (induction al) (auto simp: delete_absent weight_at_absent)

lemma total_nonneg: "(\<And>v. 0 \<le> w v) \<Longrightarrow> 0 \<le> alist_total w al"
  by (induction al) auto

lemma weight_at_le_total:
  assumes "\<And>v. 0 \<le> w v"
  shows "weight_at w al k \<le> alist_total w al"
proof (induction al)
  case (Cons e al)
  then show ?case using assms[of "snd e"] total_nonneg[of w al, OF assms] by (cases e) auto
qed simp

section \<open>The invariant\<close>

definition type_key :: "attrs \<Rightarrow> string option" where
  "type_key a = map_option py_str (type_of a)"

definition of_type :: "string \<Rightarrow> attrs \<Rightarrow> int" where
  "of_type ty a = of_bool (type_key a = Some ty)"

definition keys_ok :: "graph \<Rightarrow> bool" where
  "keys_ok g \<longleftrightarrow> distinct (map fst (g_nodes g)) \<and> distinct (map fst (g_edges g))"

definition adjacency_ok :: "graph \<Rightarrow> bool" where
  "adjacency_ok g \<longleftrightarrow> (\<forall>s t. t \<in> set (neighbors g s) \<longleftrightarrow> edges_of g (s, t) \<noteq> [])"

definition count_ok :: "graph \<Rightarrow> bool" where
  "count_ok g \<longleftrightarrow> g_edge_count g = alist_total (int \<circ> length) (g_edges g)"

definition types_ok :: "graph \<Rightarrow> bool" where
  "types_ok g \<longleftrightarrow> (\<forall>ty. tally (g_types g) ty = alist_total (of_type ty) (g_nodes g)) \<and>
     (\<forall>ty n. map_of (g_types g) ty = Some n \<longrightarrow> 0 < n)"

definition graph_ok :: "graph \<Rightarrow> bool" where
  "graph_ok g \<longleftrightarrow> keys_ok g \<and> adjacency_ok g \<and> count_ok g \<and> types_ok g"

lemma of_type_nonneg [simp]: "0 \<le> of_type ty a"
  by (simp add: of_type_def)

lemma graph_ok_empty: "graph_ok empty_graph"
  by (simp add: graph_ok_def keys_ok_def adjacency_ok_def count_ok_def types_ok_def empty_graph_def
      neighbors_def targets_in_def edges_of_def tally_def)

section \<open>What the operations do to the tables\<close>

lemma edges_of_simps [simp]:
  "edges_of (g\<lparr>g_edges := AList.update p es (g_edges g)\<rparr>) q = (if q = p then es else edges_of g q)"
  "edges_of (g\<lparr>g_edges := AList.delete p (g_edges g)\<rparr>) q = (if q = p then [] else edges_of g q)"
  by (auto simp: edges_of_def update_conv' delete_conv')

lemma targets_update [simp]:
  "targets_in (AList.update s ts out) n = (if n = s then ts else targets_in out n)"
  by (simp add: targets_in_def update_conv')

lemma targets_delete [simp]:
  "targets_in (AList.delete s out) n = (if n = s then [] else targets_in out n)"
  by (auto simp: targets_in_def delete_conv' restrict_map_def)

lemma targets_link [simp]:
  "targets_in (link_out s t out) n =
     (if n = s then (if t \<in> set (targets_in out s) then targets_in out s
                     else targets_in out s @ [t]) else targets_in out n)"
  by (auto simp: link_out_def Let_def targets_in_def[symmetric])

lemma targets_drop [simp]:
  "targets_in (drop_adjacency s t out) n =
     (if n = s then removeAll t (targets_in out s) else targets_in out n)"
proof (cases "map_of out s")
  case None
  then show ?thesis by (auto simp: drop_adjacency_def targets_in_def)
next
  case (Some ts)
  then have "targets_in out s = ts" by (simp add: targets_in_def)
  with Some show ?thesis by (auto simp: drop_adjacency_def Let_def)
qed

lemma tally_update [simp]: "tally (AList.update k n t) ty = (if ty = k then n else tally t ty)"
  by (simp add: tally_def update_conv')

lemma tally_delete [simp]: "tally (AList.delete k t) ty = (if ty = k then 0 else tally t ty)"
  by (auto simp: tally_def delete_conv' restrict_map_def)

definition at_key :: "pyval option \<Rightarrow> string \<Rightarrow> int" where
  "at_key v ty = of_bool (map_option py_str v = Some ty)"

definition positive :: "(string \<times> int) list \<Rightarrow> bool" where
  "positive t \<longleftrightarrow> (\<forall>ty n. map_of t ty = Some n \<longrightarrow> 0 < n)"

lemma positive_tally: "positive t \<Longrightarrow> 0 \<le> tally t ty"
  by (auto simp: positive_def tally_def split: option.split dest: less_imp_le)

lemma retype_out_tally:
  assumes "at_key old ty \<le> tally t ty" and "positive t"
    and "\<And>k. map_option py_str old = Some k \<Longrightarrow> 1 \<le> tally t k"
  shows "tally (retype_out old t) ty = tally t ty - at_key old ty \<and> positive (retype_out old t)"
  using assms
  by (auto simp: retype_out_def at_key_def Let_def positive_def update_conv' delete_conv'
      restrict_map_def split: option.splits if_splits)

lemma retype_in_tally:
  assumes "positive t"
  shows "tally (retype_in new t) ty = tally t ty + at_key new ty \<and> positive (retype_in new t)"
proof (cases new)
  case None
  then show ?thesis using assms by (simp add: retype_in_def at_key_def)
next
  case (Some v)
  then show ?thesis using assms positive_tally[OF assms, of "py_str v"]
    by (auto simp: retype_in_def at_key_def positive_def update_conv')
qed

lemma retype_tally:
  assumes "positive t" and "\<And>k. map_option py_str old = Some k \<Longrightarrow> 1 \<le> tally t k"
  shows "tally (retype old new t) ty = tally t ty - at_key old ty + at_key new ty"
    and "positive (retype old new t)"
proof -
  have le: "at_key old ty \<le> tally t ty" for ty
    using assms(2) positive_tally[OF assms(1), of ty] by (auto simp: at_key_def)
  have out: "tally (retype_out old t) ty = tally t ty - at_key old ty"
    "positive (retype_out old t)" for ty
    using retype_out_tally[OF le assms(1) assms(2)] by blast+
  show "tally (retype old new t) ty = tally t ty - at_key old ty + at_key new ty"
    using out retype_in_tally[OF out(2)] by (simp add: retype_def)
  show "positive (retype old new t)"
    using assms(1) retype_in_tally[OF out(2)] by (simp add: retype_def)
qed

lemma types_ok_alt:
  "types_ok g \<longleftrightarrow> (\<forall>ty. tally (g_types g) ty = alist_total (of_type ty) (g_nodes g)) \<and> positive (g_types g)"
  by (simp add: types_ok_def positive_def)

lemma of_type_at_key: "of_type ty a = at_key (type_of a) ty"
  by (simp add: of_type_def at_key_def type_key_def)

lemma types_ok_has:
  assumes "types_ok g" and "map_of (g_nodes g) n = Some a" and "map_option py_str (type_of a) = Some k"
  shows "1 \<le> tally (g_types g) k"
proof -
  have "weight_at (of_type k) (g_nodes g) n = 1"
    using assms(2,3) by (simp add: weight_at_def of_type_def type_key_def)
  moreover have "weight_at (of_type k) (g_nodes g) n \<le> alist_total (of_type k) (g_nodes g)"
    by (rule weight_at_le_total) simp
  ultimately show ?thesis using assms(1) by (simp add: types_ok_def)
qed

section \<open>Preservation\<close>

lemma add_node_ok:
  assumes "graph_ok g"
  shows "graph_ok (add_node n a g)"
proof -
  let ?old = "case map_of (g_nodes g) n of None \<Rightarrow> None | Some e \<Rightarrow> type_of e"
  have has: "1 \<le> tally (g_types g) k" if "map_option py_str ?old = Some k" for k
    using that assms types_ok_has[of g n _ k]
    by (auto simp: graph_ok_def split: option.splits)
  have pos: "positive (g_types g)" using assms by (simp add: graph_ok_def types_ok_alt)
  note rt = retype_tally[OF pos has]
  have old: "weight_at (of_type ty) (g_nodes g) n = at_key ?old ty" for ty
    by (simp add: weight_at_def of_type_at_key at_key_def split: option.split)
  have "types_ok (add_node n a g)"
    using assms rt
    by (simp add: types_ok_alt graph_ok_def keys_ok_def add_node_def Let_def old of_type_at_key)
  then show ?thesis
    using assms
    by (simp add: graph_ok_def keys_ok_def adjacency_ok_def count_ok_def add_node_def
        Let_def neighbors_def edges_of_def distinct_update)
qed

lemma weight_at_edges: "weight_at (int \<circ> length) (g_edges g) p = int (length (edges_of g p))"
  by (simp add: weight_at_def edges_of_def split: option.split)

lemma add_edge_ok: "graph_ok g \<Longrightarrow> graph_ok (add_edge s t a g)"
  by (auto simp: graph_ok_def keys_ok_def adjacency_ok_def count_ok_def types_ok_def add_edge_def
      neighbors_def weight_at_edges edges_of_def update_conv' distinct_update split: if_splits)

lemma touch_edge_ok: "graph_ok g \<Longrightarrow> graph_ok (touch_edge s t g)"
  by (simp add: graph_ok_def keys_ok_def adjacency_ok_def count_ok_def types_ok_def touch_edge_def
      neighbors_def edges_of_def)

lemma drop_pair_simps [simp]:
  "edges_of (drop_pair p g) q = (if q = p then [] else edges_of g q)"
  "neighbors (drop_pair p g) s = (if s = fst p then removeAll (snd p) (neighbors g s) else neighbors g s)"
  "g_nodes (drop_pair p g) = g_nodes g" "g_types (drop_pair p g) = g_types g"
  "pending_nodes (drop_pair p g) = pending_nodes g"
  "pending_removed_nodes (drop_pair p g) = pending_removed_nodes g"
  "pending_removed_pairs (drop_pair p g) = pending_removed_pairs g"
  "set (pending_pairs (drop_pair p g)) = set (pending_pairs g) - {p}"
  by (auto simp: drop_pair_def edges_of_def neighbors_def discard_def delete_conv' restrict_map_def)

lemma drop_pair_counts:
  "keys_ok g \<Longrightarrow> count_ok g \<Longrightarrow> keys_ok (drop_pair p g) \<and> count_ok (drop_pair p g)"
  by (simp add: drop_pair_def keys_ok_def count_ok_def weight_at_edges distinct_delete)

lemma remove_edge_pair_ok: "graph_ok g \<Longrightarrow> graph_ok (remove_edge_pair p g)"
proof -
  assume ok: "graph_ok g"
  have "graph_ok (drop_pair p g)"
    using ok drop_pair_counts[of g p]
    by (cases p) (auto simp: graph_ok_def adjacency_ok_def types_ok_def)
  then show ?thesis
    by (simp add: remove_edge_pair_def Let_def graph_ok_def keys_ok_def adjacency_ok_def count_ok_def
        types_ok_def neighbors_def edges_of_def)
qed

lemma remove_edges_from_ok: "graph_ok g \<Longrightarrow> graph_ok (remove_edges_from ps g)"
  unfolding remove_edges_from_def by (induction ps arbitrary: g) (auto simp: remove_edge_pair_ok)

lemma pair_change_ok:
  assumes "graph_ok g" and "es \<noteq> []" and "edges_of g (s, t) \<noteq> []"
  shows "graph_ok (g\<lparr>g_edge_count := g_edge_count g - int (length (edges_of g (s, t))) + int (length es),
      g_edges := AList.update (s, t) es (g_edges g)\<rparr>)"
  using assms
  by (simp add: graph_ok_def keys_ok_def adjacency_ok_def count_ok_def types_ok_def neighbors_def
      weight_at_edges distinct_update) (auto simp: edges_of_def update_conv')

lemma graph_ok_cong:
  assumes "g_nodes g = g_nodes h" and "g_edges g = g_edges h" and "g_out g = g_out h"
    and "g_edge_count g = g_edge_count h" and "g_types g = g_types h"
  shows "graph_ok g = graph_ok h"
  by (simp add: graph_ok_def keys_ok_def adjacency_ok_def count_ok_def types_ok_def neighbors_def
      edges_of_def assms)

lemma remove_edges_where_ok:
  assumes "graph_ok g"
  shows "graph_ok (fst (remove_edges_where s t q g))"
proof (cases "edges_of g (s, t) = [] \<or> filter (\<lambda>a. \<not> q a) (edges_of g (s, t)) = edges_of g (s, t)")
  case True
  then show ?thesis using assms by (auto simp: remove_edges_where_def Let_def)
next
  case False
  let ?es = "edges_of g (s, t)"
  let ?kept = "filter (\<lambda>a. \<not> q a) ?es"
  have less: "length ?kept < length ?es" using False by (metis filter_id_conv length_filter_less)
  show ?thesis
  proof (cases "?kept = []")
    case True
    have "fst (remove_edges_where s t q g) = (drop_pair (s, t) g)
        \<lparr>pending_removed_pairs := List.insert (s, t) (pending_removed_pairs g)\<rparr>"
      using less True by (simp add: remove_edges_where_def Let_def drop_pair_def)
    moreover have "graph_ok (remove_edge_pair (s, t) g)" by (rule remove_edge_pair_ok[OF assms])
    ultimately show ?thesis
      using False by (simp add: remove_edge_pair_def Let_def)
  next
    case kept: False
    show ?thesis
      using less kept pair_change_ok[OF assms kept, of s t] False
      by (subst graph_ok_cong[where h = "g\<lparr>g_edge_count := g_edge_count g - int (length ?es) +
            int (length ?kept), g_edges := AList.update (s, t) ?kept (g_edges g)\<rparr>"])
        (simp_all add: remove_edges_where_def Let_def of_nat_diff)
  qed
qed

section \<open>\<open>remove_nodes_from\<close>\<close>

lemma forget_node_simps [simp]:
  "g_edges (forget_node n g) = g_edges g"
  "g_edge_count (forget_node n g) = g_edge_count g"
  "edges_of (forget_node n g) q = edges_of g q"
  "neighbors (forget_node n g) s = (if s = n then [] else neighbors g s)"
  "map_of (g_nodes (forget_node n g)) m = (if m = n then None else map_of (g_nodes g) m)"
  by (auto simp: forget_node_def Let_def edges_of_def neighbors_def delete_conv' restrict_map_def)

lemma forget_node_types:
  assumes "keys_ok g" and "types_ok g"
  shows "keys_ok (forget_node n g) \<and> types_ok (forget_node n g)"
proof (cases "map_of (g_nodes g) n")
  case None
  then have "n \<notin> fst ` set (g_nodes g)" by (simp add: map_of_eq_None_iff)
  then have "AList.delete n (g_nodes g) = g_nodes g" by (simp add: delete_absent)
  then show ?thesis
    using assms None by (simp add: forget_node_def Let_def keys_ok_def types_ok_def)
next
  case (Some e)
  have has: "1 \<le> tally (g_types g) k" if "map_option py_str (type_of e) = Some k" for k
    using that types_ok_has[OF assms(2) Some] by simp
  have pos: "positive (g_types g)" using assms by (simp add: types_ok_alt)
  note rt = retype_tally[OF pos has]
  have old: "weight_at (of_type ty) (g_nodes g) n = at_key (type_of e) ty" for ty
    by (simp add: weight_at_def of_type_at_key Some)
  show ?thesis
    using assms rt
    by (simp add: types_ok_alt keys_ok_def forget_node_def Let_def old Some distinct_delete
        at_key_def[of None])
qed

lemma forget_nodes:
  "g_edges (fold forget_node R g) = g_edges g"
  "g_edge_count (fold forget_node R g) = g_edge_count g"
  "edges_of (fold forget_node R g) q = edges_of g q"
  "neighbors (fold forget_node R g) s = (if s \<in> set R then [] else neighbors g s)"
  "map_of (g_nodes (fold forget_node R g)) m = (if m \<in> set R then None else map_of (g_nodes g) m)"
  by (induction R arbitrary: g) auto

lemma forget_nodes_types:
  "keys_ok g \<Longrightarrow> types_ok g \<Longrightarrow> keys_ok (fold forget_node R g) \<and> types_ok (fold forget_node R g)"
proof (induction R arbitrary: g)
  case (Cons n R)
  then show ?case using forget_node_types[of g n] by simp
qed simp

lemma drop_pairs:
  "edges_of (fold drop_pair ps g) q = (if q \<in> set ps then [] else edges_of g q)"
  "set (neighbors (fold drop_pair ps g) s) = {t \<in> set (neighbors g s). (s, t) \<notin> set ps}"
  "g_nodes (fold drop_pair ps g) = g_nodes g"
  "g_types (fold drop_pair ps g) = g_types g"
  "pending_nodes (fold drop_pair ps g) = pending_nodes g"
  "pending_removed_nodes (fold drop_pair ps g) = pending_removed_nodes g"
  "pending_removed_pairs (fold drop_pair ps g) = pending_removed_pairs g"
  "set (pending_pairs (fold drop_pair ps g)) = set (pending_pairs g) - set ps"
  by (induction ps arbitrary: g) auto

lemma drop_pairs_counts:
  "keys_ok g \<Longrightarrow> count_ok g \<Longrightarrow> keys_ok (fold drop_pair ps g) \<and> count_ok (fold drop_pair ps g)"
proof (induction ps arbitrary: g)
  case (Cons p ps)
  then show ?case using drop_pair_counts[of g p] by simp
qed simp

definition touches :: "string list \<Rightarrow> pair \<Rightarrow> bool" where
  "touches R p \<longleftrightarrow> fst p \<in> set R \<or> snd p \<in> set R"

lemma edge_pair_listed: "edges_of g p \<noteq> [] \<Longrightarrow> p \<in> fst ` set (g_edges g)"
  by (auto simp: edges_of_def split: option.splits dest: map_of_SomeD intro: rev_image_eqI)

lemma remove_nodes_reads:
  "edges_of (remove_nodes_from R g) q = (if touches R q then [] else edges_of g q)"
  "map_of (g_nodes (remove_nodes_from R g)) m = (if m \<in> set R then None else map_of (g_nodes g) m)"
  using edge_pair_listed[of g q]
  by (auto simp: remove_nodes_from_def Let_def drop_pairs forget_nodes touches_def)

lemma remove_nodes_ok:
  assumes "graph_ok g"
  shows "graph_ok (remove_nodes_from R g)"
proof -
  let ?R = "dict_fromkeys R"
  let ?g1 = "fold forget_node ?R g"
  let ?ps = "filter (\<lambda>p. fst p \<in> set ?R \<or> snd p \<in> set ?R) (map fst (g_edges ?g1))"
  have g2: "remove_nodes_from R g = fold drop_pair ?ps ?g1"
    by (simp add: remove_nodes_from_def Let_def)
  have k1: "keys_ok ?g1" "types_ok ?g1"
    using forget_nodes_types[of g ?R] assms by (simp_all add: graph_ok_def)
  have "count_ok ?g1" using assms by (simp add: graph_ok_def count_ok_def forget_nodes)
  from drop_pairs_counts[OF k1(1) this] have k2: "keys_ok (remove_nodes_from R g)"
    "count_ok (remove_nodes_from R g)" by (simp_all add: g2)
  have "adjacency_ok (remove_nodes_from R g)"
    unfolding adjacency_ok_def
  proof (intro allI)
    fix s t
    have "t \<in> set (neighbors g s) \<longleftrightarrow> edges_of g (s, t) \<noteq> []"
      using assms by (simp add: graph_ok_def adjacency_ok_def)
    then show "t \<in> set (neighbors (remove_nodes_from R g) s) \<longleftrightarrow>
        edges_of (remove_nodes_from R g) (s, t) \<noteq> []"
      using edge_pair_listed[of g "(s, t)"]
      by (auto simp: g2 drop_pairs forget_nodes)
  qed
  moreover have "types_ok (remove_nodes_from R g)"
    using k1(2) by (simp add: g2 types_ok_def drop_pairs)
  ultimately show ?thesis using k2 by (simp add: graph_ok_def)
qed

section \<open>Every run of mutations\<close>

lemma edit_in_place_reads [simp]:
  "edges_of (edit_in_place s t i a g) q =
     (if q = (s, t) then (edges_of g (s, t))[i := a] else edges_of g q)"
  "neighbors (edit_in_place s t i a g) n = neighbors g n"
  by (auto simp: edit_in_place_def edges_of_def neighbors_def update_conv')

lemma edit_in_place_ok:
  assumes "graph_ok g" and "i < length (edges_of g (s, t))"
  shows "graph_ok (edit_in_place s t i a g)"
  using assms
  by (auto simp: graph_ok_def keys_ok_def adjacency_ok_def count_ok_def types_ok_def
      distinct_update weight_at_edges) (simp_all add: edit_in_place_def distinct_update weight_at_edges)

datatype graph_op =
    AddNode string attrs
  | AddEdge string string attrs
  | EditEdge string string nat attrs
  | RemoveNodes "string list"
  | RemoveEdges "pair list"
  | RemoveEdgesWhere string string "attrs \<Rightarrow> bool"

fun apply_op :: "graph_op \<Rightarrow> graph \<Rightarrow> graph" where
  "apply_op (AddNode n a) g = add_node n a g"
| "apply_op (AddEdge s t a) g = add_edge s t a g"
| "apply_op (EditEdge s t i a) g =
     (if i < length (edges_of g (s, t)) then edit_edge s t i a g else g)"
| "apply_op (RemoveNodes ns) g = remove_nodes_from ns g"
| "apply_op (RemoveEdges ps) g = remove_edges_from ps g"
| "apply_op (RemoveEdgesWhere s t q) g = fst (remove_edges_where s t q g)"

lemma apply_op_ok: "graph_ok g \<Longrightarrow> graph_ok (apply_op op g)"
  by (cases op) (auto simp: add_node_ok add_edge_ok remove_nodes_ok remove_edges_from_ok
      remove_edges_where_ok edit_edge_def touch_edge_ok edit_in_place_ok)

lemma apply_ops_ok: "graph_ok g \<Longrightarrow> graph_ok (fold apply_op ops g)"
  by (induction ops arbitrary: g) (auto simp: apply_op_ok)

text \<open>\<open>upsert_node\<close> and \<open>upsert_edge\<close> are such mutations, or an edit in place.\<close>

lemma first_of_type_bound: "first_of_type ty as = Some i \<Longrightarrow> i < length as"
  by (induction as arbitrary: i) (auto split: if_splits)

lemma upsert_node_ok: "graph_ok g \<Longrightarrow> graph_ok (upsert_node kb now n ty label a g)"
  by (simp add: upsert_node_def Let_def add_node_ok)

lemma upsert_edge_ok: "graph_ok g \<Longrightarrow> graph_ok (upsert_edge now s t ty a g)"
  by (auto simp: upsert_edge_def Let_def edit_edge_def add_edge_ok
      intro!: edit_in_place_ok touch_edge_ok dest: first_of_type_bound split: option.split)

text \<open>
  Claim C9: the aggregates of the in-memory graph are exact after any sequence of mutations. Read
  off the running structures, the neighbours of a node are exactly the targets it has edges to,
  the edge count is the number of parallel edges, and the tally of a type is the number of nodes
  that carry it; removed nodes leave no edge behind.
\<close>

theorem graph_aggregates_exact:
  "let g = fold apply_op ops empty_graph
   in (\<forall>s t. t \<in> set (neighbors g s) \<longleftrightarrow> edges_of g (s, t) \<noteq> []) \<and>
      number_of_edges g = (\<Sum>p \<leftarrow> g_edges g. int (length (snd p))) \<and>
      (\<forall>ty. tally (g_types g) ty =
        int (length (filter (\<lambda>p. type_key (snd p) = Some ty) (g_nodes g)))) \<and>
      (\<forall>n m. edges_of (remove_nodes_from [n] g) (n, m) = [] \<and>
        edges_of (remove_nodes_from [n] g) (m, n) = [])"
proof -
  let ?g = "fold apply_op ops empty_graph"
  have ok: "graph_ok ?g" by (rule apply_ops_ok) (rule graph_ok_empty)
  have total_len: "alist_total (int \<circ> length) al = (\<Sum>p \<leftarrow> al. int (length (snd p)))"
    for al :: "(pair \<times> attrs list) list"
    by (induction al) auto
  have total_type: "alist_total (of_type ty) al =
      int (length (filter (\<lambda>p. type_key (snd p) = Some ty) al))" for ty al
    by (induction al) (auto simp: of_type_def)
  show ?thesis
    using ok
    by (auto simp: Let_def graph_ok_def adjacency_ok_def count_ok_def types_ok_def number_of_edges_def
        total_len total_type remove_nodes_reads touches_def)
qed

end
