(* ===== verification/GraphRows.thy ===== *)
theory GraphRows
  imports GraphInv SqlTable "HOL-Library.Word"
begin

text \<open>
  The persisted graph: the codec of \<open>src/pheasant/persistence/graph_codec.py\<close>, the row store of
  \<open>src/pheasant/persistence/graph_rows.py\<close> and \<open>_save_rows\<close> of
  \<open>src/pheasant/persistence/graph_store.py\<close>, for one \<open>kb_id\<close>, which every statement filters on.
  The hash of a row is the parameter \<open>H\<close>: 32 hex digits of SHA-256 over the parts of the row,
  read as a \<^typ>\<open>128 word\<close>, the attributes standing for their canonical JSON text. The state the
  code commits in one transaction changes in one step; an INSERT over an existing primary key
  raises, which is None.
\<close>

unbundle bit_operations_syntax

section \<open>Rows\<close>

type_synonym digest = "128 word"
type_synonym hasher = "string list \<Rightarrow> attrs \<Rightarrow> digest"

definition PROMOTED_NODE_KEYS :: "string list" where
  "PROMOTED_NODE_KEYS = [''type'', ''label'', ''source_id'', ''relative_path'', ''artifact_id'']"

definition PROMOTED_EDGE_KEYS :: "string list" where
  "PROMOTED_EDGE_KEYS = [''type'', ''source_id'']"

text \<open>\<open>_text\<close>\<close>

definition text_of :: "pyval option \<Rightarrow> string option" where
  "text_of v = map_option py_str v"

record graph_node_row =
  gn_id :: string
  gn_promoted :: "string option list"
  gn_rest :: attrs
  gn_digest :: digest

record graph_edge_row =
  ge_source :: string
  ge_target :: string
  ge_type :: string
  ge_seq :: nat
  ge_source_id :: "string option"
  ge_rest :: attrs
  ge_digest :: digest

text \<open>The \<open>attrs\<close> column: what is not promoted, with its keys sorted\<close>

definition rest_of :: "string list \<Rightarrow> attrs \<Rightarrow> attrs" where
  "rest_of promoted a = sort_key fst (filter (\<lambda>(k, v). k \<notin> set promoted) a)"

definition node_row :: "hasher \<Rightarrow> string \<Rightarrow> attrs \<Rightarrow> graph_node_row" where
  "node_row H n a =
     (let rest = rest_of PROMOTED_NODE_KEYS a;
          promoted = map (\<lambda>k. text_of (attr_get a k)) PROMOTED_NODE_KEYS
      in \<lparr>gn_id = n, gn_promoted = promoted, gn_rest = rest,
          gn_digest = H (n # map (\<lambda>v. str_or v []) promoted) rest\<rparr>)"

definition edge_row :: "hasher \<Rightarrow> string \<Rightarrow> string \<Rightarrow> nat \<Rightarrow> attrs \<Rightarrow> graph_edge_row" where
  "edge_row H s t seq a =
     (let rest = rest_of PROMOTED_EDGE_KEYS a;
          ty = str_or (text_of (attr_get a ''type'')) ''related'';
          source_id = text_of (attr_get a ''source_id'')
      in \<lparr>ge_source = s, ge_target = t, ge_type = ty, ge_seq = seq, ge_source_id = source_id,
          ge_rest = rest, ge_digest = H [s, t, ty, nat_text seq, str_or source_id []] rest\<rparr>)"

definition ge_pair :: "graph_edge_row \<Rightarrow> pair" where
  "ge_pair r = (ge_source r, ge_target r)"

definition EDGE_KEY :: "graph_edge_row \<Rightarrow> string \<times> string \<times> string \<times> nat" where
  "EDGE_KEY r = (ge_source r, ge_target r, ge_type r, ge_seq r)"

text \<open>\<open>node_attrs_dict\<close> and \<open>edge_attrs_dict\<close>\<close>

definition node_attrs_dict :: "graph_node_row \<Rightarrow> attrs" where
  "node_attrs_dict r =
     fold (\<lambda>(k, v). case v of None \<Rightarrow> id | Some s \<Rightarrow> AList.update k (PText s))
       (zip PROMOTED_NODE_KEYS (gn_promoted r)) (gn_rest r)"

definition edge_attrs_dict :: "graph_edge_row \<Rightarrow> attrs" where
  "edge_attrs_dict r =
     (let merged = AList.update ''type'' (PText (ge_type r)) (ge_rest r)
      in case ge_source_id r of None \<Rightarrow> merged
         | Some s \<Rightarrow> AList.update ''source_id'' (PText s) merged)"

section \<open>The fold\<close>

text \<open>XOR of digests into the current value\<close>

definition xor_fold :: "digest \<Rightarrow> digest list \<Rightarrow> digest" where
  "xor_fold current digests = foldl (XOR) current digests"

section \<open>Statements in batches\<close>

definition BATCH :: nat where "BATCH = 1000"
definition PAIR_GROUP_BATCH :: nat where "PAIR_GROUP_BATCH = 100"
definition PAIR_TARGET_BATCH :: nat where "PAIR_TARGET_BATCH = 400"

text \<open>\<open>_batched\<close>; every caller gives a positive size\<close>

function batched :: "nat \<Rightarrow> 'a list \<Rightarrow> 'a list list" where
  "batched n [] = []"
| "batched n (x # xs) =
     (if n = 0 then [x # xs] else take n (x # xs) # batched n (drop n (x # xs)))"
  by pat_completeness auto
termination
  by (relation "measure (\<lambda>(n, xs). length xs)") auto

text \<open>
  \<open>_pair_clauses\<close>: the sorted pairs grouped by source, the targets of a source in chunks, and the
  groups in batches. A clause matches the pairs of its groups.
\<close>

type_synonym clause = "(string \<times> string list) list"

definition group_by_source :: "pair list \<Rightarrow> (string \<times> string list) list" where
  "group_by_source pairs =
     fold (\<lambda>(s, t) g. AList.update s ((case map_of g s of None \<Rightarrow> [] | Some ts \<Rightarrow> ts) @ [t]) g)
       (sort pairs) []"

definition pair_clauses :: "pair list \<Rightarrow> clause list" where
  "pair_clauses pairs =
     batched PAIR_GROUP_BATCH
       (concat (map (\<lambda>(s, ts). map (\<lambda>chunk. (s, chunk)) (batched PAIR_TARGET_BATCH ts))
         (group_by_source pairs)))"

definition clause_matches :: "clause \<Rightarrow> graph_edge_row \<Rightarrow> bool" where
  "clause_matches c r \<longleftrightarrow> (\<exists>(s, ts) \<in> set c. ge_source r = s \<and> ge_target r \<in> set ts)"

text \<open>\<open>_endpoint_clauses\<close>\<close>

definition endpoint_matches :: "string list \<Rightarrow> graph_edge_row \<Rightarrow> bool" where
  "endpoint_matches batch r \<longleftrightarrow> ge_source r \<in> set batch \<or> ge_target r \<in> set batch"

section \<open>The store\<close>

record generation =
  gen_id :: "digest option"
  gen_nodes :: int
  gen_edges :: int
  gen_node_fold :: digest
  gen_edge_fold :: digest

record row_store =
  rs_nodes :: "graph_node_row list"
  rs_edges :: "graph_edge_row list"
  rs_gen :: "generation option"

definition empty_store :: row_store where
  "empty_store = \<lparr>rs_nodes = [], rs_edges = [], rs_gen = None\<rparr>"

definition delete_nodes :: "string list \<Rightarrow> graph_node_row list \<Rightarrow> graph_node_row list" where
  "delete_nodes ids t = fold (\<lambda>batch. tbl_delete (\<lambda>r. gn_id r \<in> set batch)) (batched BATCH ids) t"

definition delete_edges :: "pair list \<Rightarrow> graph_edge_row list \<Rightarrow> graph_edge_row list" where
  "delete_edges pairs t = fold (\<lambda>c. tbl_delete (clause_matches c)) (pair_clauses pairs) t"

definition delete_edges_touching ::
    "string list \<Rightarrow> graph_edge_row list \<Rightarrow> graph_edge_row list" where
  "delete_edges_touching ids t =
     fold (\<lambda>batch. tbl_delete (endpoint_matches batch)) (batched PAIR_GROUP_BATCH ids) t"

text \<open>INSERT of rows: an existing primary key, or one given twice, raises\<close>

definition insert_rows :: "('r \<Rightarrow> 'k) \<Rightarrow> 'r list \<Rightarrow> 'r list \<Rightarrow> 'r list option" where
  "insert_rows key rows t = (if distinct (map key (t @ rows)) then Some (t @ rows) else None)"

text \<open>\<open>_digests_for\<close>: two dicts keyed by the primary keys\<close>

definition node_digests ::
    "graph_node_row list \<Rightarrow> string list \<Rightarrow> (string \<times> digest) list" where
  "node_digests t touched =
     fold (\<lambda>r. AList.update (gn_id r) (gn_digest r))
       (concat (map (\<lambda>batch. filter (\<lambda>r. gn_id r \<in> set batch) t) (batched BATCH touched))) []"

definition edge_digests ::
    "graph_edge_row list \<Rightarrow> pair list \<Rightarrow> string list \<Rightarrow>
     ((string \<times> string \<times> string \<times> nat) \<times> digest) list" where
  "edge_digests t pairs removed =
     fold (\<lambda>r. AList.update (EDGE_KEY r) (ge_digest r))
       (concat (map (\<lambda>c. filter (clause_matches c) t) (pair_clauses pairs)) @
        concat (map (\<lambda>batch. filter (endpoint_matches batch) t)
          (batched PAIR_GROUP_BATCH removed))) []"

text \<open>\<open>_fold\<close>\<close>

definition fold_generation ::
    "digest list \<Rightarrow> digest list \<Rightarrow> digest list \<Rightarrow> digest list \<Rightarrow> int \<Rightarrow> int \<Rightarrow>
     generation option \<Rightarrow> generation" where
  "fold_generation node_out node_in edge_out edge_in node_change edge_change g =
     (let old = (case g of
                   None \<Rightarrow> \<lparr>gen_id = None, gen_nodes = 0, gen_edges = 0, gen_node_fold = 0,
                            gen_edge_fold = 0\<rparr>
                 | Some r \<Rightarrow> r)
      in old\<lparr>gen_node_fold := xor_fold (gen_node_fold old) (node_out @ node_in),
             gen_edge_fold := xor_fold (gen_edge_fold old) (edge_out @ edge_in),
             gen_nodes := max 0 (gen_nodes old + node_change),
             gen_edges := max 0 (gen_edges old + edge_change)\<rparr>)"

record written =
  w_nodes :: nat
  w_edges :: nat
  w_removed_nodes :: nat
  w_removed_edges :: nat

definition apply_delta ::
    "hasher \<Rightarrow> graph_delta \<Rightarrow> row_store \<Rightarrow> (written \<times> row_store) option" where
  "apply_delta H d st =
     (let nodes = node_upserts d; removed_nodes = node_removals d;
          edges = edge_upserts d; removed_edges = edge_removals d
      in if nodes = [] \<and> removed_nodes = [] \<and> edges = [] \<and> removed_edges = []
         then Some (\<lparr>w_nodes = 0, w_edges = 0, w_removed_nodes = 0, w_removed_edges = 0\<rparr>, st)
         else
           (let node_rows = map (\<lambda>(n, a). node_row H n a) nodes;
                edge_rows = map (\<lambda>(s, t, seq, a). edge_row H s t seq a) edges;
                touched_nodes = map fst nodes @ removed_nodes;
                touched_pairs = dict_fromkeys (map (\<lambda>(s, t, _, _). (s, t)) edges @ removed_edges);
                fresh = (rs_nodes st = []);
                node_out = (if fresh then [] else node_digests (rs_nodes st) touched_nodes);
                edge_out = (if fresh then []
                            else edge_digests (rs_edges st) touched_pairs removed_nodes);
                kept_nodes = (if fresh then rs_nodes st else delete_nodes touched_nodes (rs_nodes st));
                kept_edges = (if fresh then rs_edges st
                  else delete_edges_touching removed_nodes (delete_edges touched_pairs (rs_edges st)))
            in case (insert_rows gn_id node_rows kept_nodes, insert_rows EDGE_KEY edge_rows kept_edges)
               of (Some ns, Some es) \<Rightarrow>
                    Some (\<lparr>w_nodes = length node_rows, w_edges = length edge_rows,
                           w_removed_nodes = length removed_nodes,
                           w_removed_edges = length edge_out - length edge_rows\<rparr>,
                      \<lparr>rs_nodes = ns, rs_edges = es,
                       rs_gen = Some (fold_generation (map snd node_out) (map gn_digest node_rows)
                         (map snd edge_out) (map ge_digest edge_rows)
                         (int (length node_rows) - int (length node_out))
                         (int (length edge_rows) - int (length edge_out)) (rs_gen st))\<rparr>)
                | _ \<Rightarrow> None))"

text \<open>\<open>counts\<close>, \<open>publish_generation\<close> with the hash of the four fields as parameter \<open>G\<close>, and \<open>recompute_folds\<close>\<close>

definition counts :: "row_store \<Rightarrow> int \<times> int" where
  "counts st =
     (case rs_gen st of Some g \<Rightarrow> (gen_nodes g, gen_edges g)
      | None \<Rightarrow> (int (length (rs_nodes st)), int (length (rs_edges st))))"

definition publish_generation :: "(digest \<Rightarrow> digest \<Rightarrow> int \<Rightarrow> int \<Rightarrow> digest) \<Rightarrow> row_store \<Rightarrow> row_store" where
  "publish_generation G st =
     (let (nf, ef) = (case rs_gen st of None \<Rightarrow> (0, 0) | Some g \<Rightarrow> (gen_node_fold g, gen_edge_fold g));
          (n, e) = counts st
      in st\<lparr>rs_gen := Some \<lparr>gen_id = Some (G nf ef n e), gen_nodes = n, gen_edges = e,
                            gen_node_fold = nf, gen_edge_fold = ef\<rparr>\<rparr>)"

definition recompute_folds :: "row_store \<Rightarrow> digest \<times> digest" where
  "recompute_folds st =
     (xor_fold 0 (map gn_digest (rs_nodes st)), xor_fold 0 (map ge_digest (rs_edges st)))"

text \<open>\<open>_save_rows\<close>\<close>

definition save_rows ::
    "hasher \<Rightarrow> (digest \<Rightarrow> digest \<Rightarrow> int \<Rightarrow> int \<Rightarrow> digest) \<Rightarrow> graph \<Rightarrow> row_store \<Rightarrow>
     (graph \<times> row_store) option" where
  "save_rows H G g st =
     (let d = graph_delta g
      in case apply_delta H d st of
           None \<Rightarrow> None
         | Some (_, st') \<Rightarrow> Some (clear_graph_delta d g, publish_generation G st'))"

text \<open>\<open>delete_source\<close>\<close>

definition delete_source :: "hasher \<Rightarrow> string \<Rightarrow> row_store \<Rightarrow> (written \<times> row_store) option" where
  "delete_source H source st =
     apply_delta H
       \<lparr>node_upserts = [],
        node_removals = map gn_id (filter (\<lambda>r. gn_promoted r ! 2 = Some source) (rs_nodes st)),
        edge_upserts = [], edge_removals = []\<rparr> st"

end
