(* ===== verification/GraphFold.thy ===== *)
theory GraphFold
  imports GraphRows
begin

text \<open>
  The batched statements of the row store do what one statement over the whole set would, and the
  incrementally maintained folds and counts are those a full scan computes.
\<close>

section \<open>Batches and clauses\<close>

lemma concat_batched [simp]: "0 < n \<Longrightarrow> concat (batched n xs) = xs"
  by (induction n xs rule: batched.induct) auto

lemma in_batches: "0 < n \<Longrightarrow> (\<exists>b \<in> set (batched n xs). x \<in> set b) \<longleftrightarrow> x \<in> set xs"
  using concat_batched[of n xs] by (metis UN_iff set_concat)

lemma batches_ex:
  "0 < n \<Longrightarrow> (\<exists>b \<in> set (batched n xs). \<exists>x \<in> set b. P x) \<longleftrightarrow> (\<exists>x \<in> set xs. P x)"
  using in_batches[of n xs] by metis

lemma sizes_pos [simp]: "0 < BATCH" "0 < PAIR_GROUP_BATCH" "0 < PAIR_TARGET_BATCH"
  by (simp_all add: BATCH_def PAIR_GROUP_BATCH_def PAIR_TARGET_BATCH_def)

lemma fold_delete:
  "fold (\<lambda>x. tbl_delete (P x)) xs t = tbl_delete (\<lambda>r. \<exists>x \<in> set xs. P x r) t"
  by (induction xs arbitrary: t) (auto simp: tbl_delete_def intro!: filter_cong)

lemma delete_nodes_eq: "delete_nodes ids t = tbl_delete (\<lambda>r. gn_id r \<in> set ids) t"
  by (simp add: delete_nodes_def fold_delete in_batches)

lemma endpoint_eq:
  "(\<exists>b \<in> set (batched PAIR_GROUP_BATCH ids). endpoint_matches b r) \<longleftrightarrow> touches ids (ge_pair r)"
  using in_batches[of PAIR_GROUP_BATCH ids "ge_source r"]
    in_batches[of PAIR_GROUP_BATCH ids "ge_target r"]
  by (auto simp: endpoint_matches_def touches_def ge_pair_def)

lemma delete_touching_eq:
  "delete_edges_touching ids t = tbl_delete (\<lambda>r. touches ids (ge_pair r)) t"
  by (simp add: delete_edges_touching_def fold_delete endpoint_eq)

definition add_group :: "pair \<Rightarrow> (string \<times> string list) list \<Rightarrow> (string \<times> string list) list" where
  "add_group = (\<lambda>(s, t) g.
     AList.update s ((case map_of g s of None \<Rightarrow> [] | Some ts \<Rightarrow> ts) @ [t]) g)"

lemma add_group_targets:
  "set (targets_in (fold add_group ps g) s) = set (targets_in g s) \<union> {t. (s, t) \<in> set ps}"
proof (induction ps arbitrary: g)
  case (Cons p ps)
  then show ?case
    by (cases p) (auto simp: add_group_def targets_in_def[symmetric])
qed simp

lemma add_group_distinct:
  "distinct (map fst g) \<Longrightarrow> distinct (map fst (fold add_group ps g))"
  by (induction ps arbitrary: g) (auto simp: add_group_def distinct_update split: prod.split)

lemma group_by_source_mem:
  "(\<exists>(s', ts) \<in> set (group_by_source pairs). s' = s \<and> t \<in> set ts) \<longleftrightarrow> (s, t) \<in> set pairs"
proof -
  let ?g = "group_by_source pairs"
  have g: "?g = fold add_group (sort pairs) []"
    by (simp add: group_by_source_def add_group_def)
  have "distinct (map fst ?g)" unfolding g by (rule add_group_distinct) simp
  then have "(\<exists>(s', ts) \<in> set ?g. s' = s \<and> t \<in> set ts) \<longleftrightarrow> t \<in> set (targets_in ?g s)"
    by (auto simp: targets_in_def split: option.splits dest: map_of_SomeD
        simp: map_of_eq_None_iff intro: rev_image_eqI)
  then show ?thesis by (simp add: g add_group_targets targets_in_def[of "[]"])
qed

lemma pair_clauses_match:
  "(\<exists>c \<in> set (pair_clauses pairs). clause_matches c r) \<longleftrightarrow> ge_pair r \<in> set pairs"
proof -
  let ?in = "\<lambda>(s, ts). ge_source r = s \<and> ge_target r \<in> set ts"
  have chunk: "(\<exists>chunk \<in> set (batched PAIR_TARGET_BATCH ts). ge_source r = s \<and> ge_target r \<in> set chunk) \<longleftrightarrow>
      s = ge_source r \<and> ge_target r \<in> set ts" for s ts
    using in_batches[of PAIR_TARGET_BATCH ts "ge_target r"] by auto
  have "(\<exists>c \<in> set (pair_clauses pairs). clause_matches c r) \<longleftrightarrow>
      (\<exists>(s, ts) \<in> set (group_by_source pairs).
        \<exists>chunk \<in> set (batched PAIR_TARGET_BATCH ts). ?in (s, chunk))"
    unfolding pair_clauses_def clause_matches_def batches_ex[OF sizes_pos(2)]
    by (simp add: case_prod_unfold)
  also have "\<dots> \<longleftrightarrow> (\<exists>(s, ts) \<in> set (group_by_source pairs). s = ge_source r \<and> ge_target r \<in> set ts)"
    using chunk by (simp add: case_prod_unfold)
  also have "\<dots> \<longleftrightarrow> ge_pair r \<in> set pairs"
    by (simp add: group_by_source_mem ge_pair_def)
  finally show ?thesis .
qed

lemma delete_edges_eq: "delete_edges pairs t = tbl_delete (\<lambda>r. ge_pair r \<in> set pairs) t"
  by (simp add: delete_edges_def fold_delete pair_clauses_match)

section \<open>XOR over rows\<close>

definition xor_sum :: "digest list \<Rightarrow> digest" where
  "xor_sum ds = foldr (XOR) ds 0"

lemma xor_sum_simps [simp]:
  "xor_sum [] = 0" "xor_sum (d # ds) = d XOR xor_sum ds"
  by (simp_all add: xor_sum_def)

lemma xor_sum_append [simp]: "xor_sum (ds @ es) = xor_sum ds XOR xor_sum es"
  by (induction ds) (simp_all add: xor.assoc)

lemma xor_fold_sum: "xor_fold c ds = c XOR xor_sum ds"
proof (induction ds arbitrary: c)
  case (Cons d ds)
  have "xor_fold c (d # ds) = xor_fold (c XOR d) ds" by (simp add: xor_fold_def)
  then show ?case by (simp add: Cons xor.assoc)
qed (simp add: xor_fold_def)

lemma xor_sum_remove: "d \<in> set ds \<Longrightarrow> xor_sum ds = d XOR xor_sum (remove1 d ds)"
  by (induction ds) (auto simp: xor.left_commute)

lemma xor_sum_mset: "mset ds = mset es \<Longrightarrow> xor_sum ds = xor_sum es"
proof (induction ds arbitrary: es)
  case (Cons d ds)
  then have "d \<in> set es" by (metis list.set_intros(1) set_mset_mset)
  moreover have "mset ds = mset (remove1 d es)" using Cons.prems by (metis add_mset_remove_trivial mset.simps(2) mset_remove1)
  ultimately show ?case using Cons.IH[of "remove1 d es"] xor_sum_remove[of d es] by simp
qed simp

lemma xor_cancel [simp]: "a XOR (a XOR b) = (b :: digest)"
  by (simp flip: xor.assoc)

lemma xor_sum_partition:
  "xor_sum (map f t) XOR xor_sum (map f (filter p t)) = xor_sum (map f (filter (\<lambda>r. \<not> p r) t))"
proof (induction t)
  case (Cons r t)
  have "(a XOR x) XOR (a XOR y) = x XOR y" for a x y :: digest
    by (simp add: xor.assoc xor.left_commute)
  then show ?case using Cons by (simp add: xor.assoc)
qed simp

section \<open>The dicts of digests\<close>

lemma digest_dict:
  assumes "keyed key t" and "set L \<subseteq> set t" and "A \<subseteq> set t" and "distinct (map fst acc)"
    and "\<And>k d. map_of acc k = Some d \<longleftrightarrow> (\<exists>r \<in> A. k = key r \<and> d = dig r)"
  shows "distinct (map fst (fold (\<lambda>r. AList.update (key r) (dig r)) L acc)) \<and>
    (\<forall>k d. map_of (fold (\<lambda>r. AList.update (key r) (dig r)) L acc) k = Some d \<longleftrightarrow>
      (\<exists>r \<in> A \<union> set L. k = key r \<and> d = dig r))"
  using assms(2-5)
proof (induction L arbitrary: acc A)
  case (Cons r L)
  have uniq: "r' = r" if "r' \<in> A" "key r' = key r" for r'
    using that keyed_unique[OF assms(1)] Cons.prems(1,2) by auto
  have "map_of (AList.update (key r) (dig r) acc) k = Some d \<longleftrightarrow>
      (\<exists>r' \<in> insert r A. k = key r' \<and> d = dig r')" for k d
    using uniq Cons.prems(4) by (auto simp: update_conv')
  then have "distinct (map fst (fold (\<lambda>r. AList.update (key r) (dig r)) L
        (AList.update (key r) (dig r) acc))) \<and>
      (\<forall>k d. map_of (fold (\<lambda>r. AList.update (key r) (dig r)) L (AList.update (key r) (dig r) acc)) k =
        Some d \<longleftrightarrow> (\<exists>r' \<in> insert r A \<union> set L. k = key r' \<and> d = dig r'))"
    using Cons.prems by (intro Cons.IH) (auto simp: distinct_update)
  then show ?case by simp
qed simp

lemma digest_dict_rows:
  fixes key :: "'r \<Rightarrow> 'k" and dig :: "'r \<Rightarrow> digest"
  assumes "keyed key t" and "\<And>r. r \<in> set L \<longleftrightarrow> r \<in> set t \<and> p r"
  defines "al \<equiv> fold (\<lambda>r. AList.update (key r) (dig r)) L []"
  shows "length al = length (filter p t)"
    and "xor_sum (map snd al) = xor_sum (map dig (filter p t))"
proof -
  have d: "distinct (map fst al)"
    and m: "map_of al k = Some x \<longleftrightarrow> (\<exists>r \<in> set L. k = key r \<and> x = dig r)" for k x
    using digest_dict[of key t L "{}" "[]" dig] assms(1,2) by (auto simp: al_def)
  let ?rows = "map (\<lambda>r. (key r, dig r)) (filter p t)"
  have "set al = set ?rows"
  proof -
    have "(k, x) \<in> set al \<longleftrightarrow> (k, x) \<in> set ?rows" for k x
      using m[of k x] map_of_is_SomeI[OF d, of k x] map_of_SomeD[of al k x] assms(2) by auto
    then show ?thesis by auto
  qed
  moreover have "distinct al" using d by (simp add: distinct_map)
  moreover have "distinct (map fst ?rows)"
    using assms(1) by (simp add: keyed_def comp_def distinct_map_filter)
  then have "distinct ?rows" unfolding distinct_map[of fst] by simp
  ultimately have ms: "mset al = mset ?rows" using set_eq_iff_mset_eq_distinct[of al ?rows] by blast
  have "length al = length ?rows" using ms by (rule mset_eq_length)
  then show "length al = length (filter p t)" by simp
  have "mset (map snd al) = mset (map snd ?rows)" by (simp only: mset_map ms)
  from xor_sum_mset[OF this] show "xor_sum (map snd al) = xor_sum (map dig (filter p t))"
    by (simp add: comp_def)
qed

lemma node_digests_rows:
  assumes "keyed gn_id t"
  shows "length (node_digests t ids) = length (filter (\<lambda>r. gn_id r \<in> set ids) t)"
    and "xor_sum (map snd (node_digests t ids)) =
      xor_sum (map gn_digest (filter (\<lambda>r. gn_id r \<in> set ids) t))"
  unfolding node_digests_def
  by (rule digest_dict_rows[OF assms]; use in_batches[of BATCH ids] in auto)+

lemma edge_digests_rows:
  assumes "keyed EDGE_KEY t"
  shows "length (edge_digests t pairs removed) =
      length (filter (\<lambda>r. ge_pair r \<in> set pairs \<or> touches removed (ge_pair r)) t)"
    and "xor_sum (map snd (edge_digests t pairs removed)) =
      xor_sum (map ge_digest (filter (\<lambda>r. ge_pair r \<in> set pairs \<or> touches removed (ge_pair r)) t))"
  unfolding edge_digests_def
  by (rule digest_dict_rows[OF assms]; use pair_clauses_match[of pairs] endpoint_eq[of removed] in auto)+

section \<open>The delta as one statement\<close>

definition node_rows :: "hasher \<Rightarrow> graph_delta \<Rightarrow> graph_node_row list" where
  "node_rows H d = map (\<lambda>(n, a). node_row H n a) (node_upserts d)"

definition edge_rows :: "hasher \<Rightarrow> graph_delta \<Rightarrow> graph_edge_row list" where
  "edge_rows H d = map (\<lambda>(s, t, seq, a). edge_row H s t seq a) (edge_upserts d)"

definition node_gone :: "graph_delta \<Rightarrow> string \<Rightarrow> bool" where
  "node_gone d n \<longleftrightarrow> n \<in> fst ` set (node_upserts d) \<or> n \<in> set (node_removals d)"

definition pair_gone :: "graph_delta \<Rightarrow> pair \<Rightarrow> bool" where
  "pair_gone d p \<longleftrightarrow> p \<in> (\<lambda>(s, t, _, _). (s, t)) ` set (edge_upserts d) \<or>
     p \<in> set (edge_removals d) \<or> touches (node_removals d) p"

text \<open>The rows are unique by key, and the maintained folds and counts are those of a scan.\<close>

definition gen_exact :: "row_store \<Rightarrow> bool" where
  "gen_exact st \<longleftrightarrow>
     (case rs_gen st of
        None \<Rightarrow> rs_nodes st = [] \<and> rs_edges st = []
      | Some g \<Rightarrow>
          (gen_node_fold g, gen_edge_fold g) = recompute_folds st \<and>
          gen_nodes g = int (length (rs_nodes st)) \<and> gen_edges g = int (length (rs_edges st)))"

definition store_ok :: "row_store \<Rightarrow> bool" where
  "store_ok st \<longleftrightarrow> keyed gn_id (rs_nodes st) \<and> keyed EDGE_KEY (rs_edges st) \<and>
     (rs_nodes st = [] \<longrightarrow> rs_edges st = []) \<and> gen_exact st"

lemma filter_none: "(\<And>r. r \<in> set t \<Longrightarrow> \<not> p r) \<Longrightarrow> filter (\<lambda>r. \<not> p r) t = t"
  by (simp add: filter_id_conv)

lemma apply_delta_rows:
  assumes "store_ok st" and "apply_delta H d st = Some (w, st')"
  shows "rs_nodes st' = tbl_delete (\<lambda>r. node_gone d (gn_id r)) (rs_nodes st) @ node_rows H d"
    and "rs_edges st' = tbl_delete (\<lambda>r. pair_gone d (ge_pair r)) (rs_edges st) @ edge_rows H d"
    and "keyed gn_id (rs_nodes st')" and "keyed EDGE_KEY (rs_edges st')"
proof -
  let ?trivial = "node_upserts d = [] \<and> node_removals d = [] \<and> edge_upserts d = [] \<and> edge_removals d = []"
  have del_n: "delete_nodes (map fst (node_upserts d) @ node_removals d) t =
      tbl_delete (\<lambda>r. node_gone d (gn_id r)) t" for t
    by (simp add: delete_nodes_eq node_gone_def)
  have del_e: "delete_edges_touching (node_removals d) (delete_edges
        (dict_fromkeys (map (\<lambda>(s, t, _, _). (s, t)) (edge_upserts d) @ edge_removals d)) t) =
      tbl_delete (\<lambda>r. pair_gone d (ge_pair r)) t" for t
    by (auto simp: delete_touching_eq delete_edges_eq tbl_delete_def pair_gone_def intro!: filter_cong)
  have "rs_nodes st' = tbl_delete (\<lambda>r. node_gone d (gn_id r)) (rs_nodes st) @ node_rows H d \<and>
    rs_edges st' = tbl_delete (\<lambda>r. pair_gone d (ge_pair r)) (rs_edges st) @ edge_rows H d \<and>
    keyed gn_id (rs_nodes st') \<and> keyed EDGE_KEY (rs_edges st')"
  proof (cases ?trivial)
    case True
    then show ?thesis
      using assms
      by (auto simp: apply_delta_def store_ok_def node_gone_def pair_gone_def touches_def tbl_delete_def
          node_rows_def edge_rows_def)
  next
    case False
    have fresh: "rs_nodes st = [] \<Longrightarrow> rs_edges st = []" using assms(1) by (simp add: store_ok_def)
    show ?thesis
      using assms(2) False fresh unfolding apply_delta_def Let_def
      by (cases "rs_nodes st = []")
        (auto simp: insert_rows_def del_n del_e node_rows_def edge_rows_def keyed_def tbl_delete_def
          split: if_splits)
  qed
  then show "rs_nodes st' = tbl_delete (\<lambda>r. node_gone d (gn_id r)) (rs_nodes st) @ node_rows H d"
    and "rs_edges st' = tbl_delete (\<lambda>r. pair_gone d (ge_pair r)) (rs_edges st) @ edge_rows H d"
    and "keyed gn_id (rs_nodes st')" and "keyed EDGE_KEY (rs_edges st')" by blast+
qed

lemma length_delete_out:
  "int (length (tbl_delete p t)) = int (length t) - int (length (filter p t))"
  using sum_length_filter_compl[of p t] by (simp add: tbl_delete_def)

lemma max_kept:
  "max 0 (int (length t) + (int k - int (length (filter p t)))) =
   int (length t) - int (length (filter p t)) + int k"
proof -
  have "int (length (filter p t)) \<le> int (length t)" by simp
  then show ?thesis by arith
qed

lemma apply_delta_gen:
  assumes "store_ok st" and "apply_delta H d st = Some (w, st')"
  shows "gen_exact st'"
proof (cases "node_upserts d = [] \<and> node_removals d = [] \<and> edge_upserts d = [] \<and> edge_removals d = []")
  case True
  then show ?thesis using assms by (simp add: apply_delta_def store_ok_def)
next
  case False
  let ?touched = "map fst (node_upserts d) @ node_removals d"
  let ?pairs = "dict_fromkeys (map (\<lambda>(s, t, _, _). (s, t)) (edge_upserts d) @ edge_removals d)"
  let ?fresh = "rs_nodes st = []"
  let ?no = "if ?fresh then [] else node_digests (rs_nodes st) ?touched"
  let ?eo = "if ?fresh then [] else edge_digests (rs_edges st) ?pairs (node_removals d)"
  have fresh: "?fresh \<Longrightarrow> rs_edges st = []" using assms(1) by (simp add: store_ok_def)
  have gone: "(\<lambda>r. gn_id r \<in> set ?touched) = (\<lambda>r. node_gone d (gn_id r))"
    "(\<lambda>r. ge_pair r \<in> set ?pairs \<or> touches (node_removals d) (ge_pair r)) =
     (\<lambda>r. pair_gone d (ge_pair r))"
    by (auto simp: node_gone_def pair_gone_def)
  have no: "length ?no = length (filter (\<lambda>r. node_gone d (gn_id r)) (rs_nodes st))"
    "xor_sum (map snd ?no) = xor_sum (map gn_digest (filter (\<lambda>r. node_gone d (gn_id r)) (rs_nodes st)))"
    using node_digests_rows[of "rs_nodes st" ?touched] assms(1) unfolding gone(1)
    by (simp_all add: store_ok_def)
  have eo: "length ?eo = length (filter (\<lambda>r. pair_gone d (ge_pair r)) (rs_edges st))"
    "xor_sum (map snd ?eo) = xor_sum (map ge_digest (filter (\<lambda>r. pair_gone d (ge_pair r)) (rs_edges st)))"
    using edge_digests_rows[of "rs_edges st" ?pairs "node_removals d"] assms(1) fresh unfolding gone(2)
    by (simp_all add: store_ok_def)
  have gen: "rs_gen st' = Some (fold_generation (map snd ?no) (map gn_digest (node_rows H d))
      (map snd ?eo) (map ge_digest (edge_rows H d))
      (int (length (node_rows H d)) - int (length ?no))
      (int (length (edge_rows H d)) - int (length ?eo)) (rs_gen st))"
    using assms(2) False unfolding apply_delta_def Let_def node_rows_def edge_rows_def
    by (auto split: option.splits simp del: map_append)
  note rows = apply_delta_rows(1,2)[OF assms]
  show ?thesis
  proof (cases "rs_gen st")
    case None
    then have "rs_nodes st = []" "rs_edges st = []" using assms(1)
      by (simp_all add: store_ok_def gen_exact_def)
    then show ?thesis
      by (simp add: gen_exact_def gen None fold_generation_def recompute_folds_def rows tbl_delete_def)
  next
    case (Some g)
    have g: "gen_node_fold g = xor_sum (map gn_digest (rs_nodes st))"
      "gen_edge_fold g = xor_sum (map ge_digest (rs_edges st))"
      "gen_nodes g = int (length (rs_nodes st))" "gen_edges g = int (length (rs_edges st))"
      using assms(1) Some by (simp_all add: store_ok_def gen_exact_def recompute_folds_def xor_fold_sum)
    note lens = length_delete_out[of "\<lambda>r. node_gone d (gn_id r)" "rs_nodes st", unfolded tbl_delete_def]
      length_delete_out[of "\<lambda>r. pair_gone d (ge_pair r)" "rs_edges st", unfolded tbl_delete_def]
    show ?thesis
      by (simp add: max_kept lens gen_exact_def gen Some fold_generation_def Let_def recompute_folds_def xor_fold_sum
          g no eo rows length_delete_out xor_sum_partition[symmetric] tbl_delete_def[of "\<lambda>r. node_gone d (gn_id r)"]
          tbl_delete_def[of "\<lambda>r. pair_gone d (ge_pair r)"] xor.assoc)
  qed
qed

text \<open>
  Claim C12: the aggregates that name a graph generation are exact. After any delta the row store
  accepts, the node and edge folds it maintains by XOR are those a full scan of its rows
  recomputes, and the counts are the numbers of rows, although a row can be reached by several
  of the batched statements; and the primary keys stay unique.
\<close>

theorem delta_maintains_folds:
  assumes "store_ok st" and "apply_delta H d st = Some (w, st')"
  shows "gen_exact st' \<and> keyed gn_id (rs_nodes st') \<and> keyed EDGE_KEY (rs_edges st')"
  using apply_delta_gen[OF assms] apply_delta_rows(3,4)[OF assms] by simp

definition demo_hash :: hasher where
  "demo_hash parts rest = of_nat (length (concat parts) + 7 * length rest)"

definition demo_delta :: graph_delta where
  "demo_delta =
     \<lparr>node_upserts = [(''a'', [(''type'', PText ''file''), (''size'', PJson ''3'')]), (''b'', [])],
      node_removals = [], edge_upserts = [(''a'', ''b'', 0, [(''type'', PText ''mentions'')])],
      edge_removals = [(''a'', ''b'')]\<rparr>"

definition demo_store :: row_store where
  "demo_store = snd (the (apply_delta demo_hash demo_delta empty_store))"

theorem delta_maintains_folds_witness:
  "gen_exact (snd (the (apply_delta demo_hash
      \<lparr>node_upserts = [(''a'', [(''type'', PText ''file'')])], node_removals = [''b''],
       edge_upserts = [], edge_removals = [(''a'', ''b'')]\<rparr> demo_store)))"
proof -
  let ?d = "\<lparr>node_upserts = [(''a'', [(''type'', PText ''file'')])], node_removals = [''b''],
       edge_upserts = [], edge_removals = [(''a'', ''b'')]\<rparr> :: graph_delta"
  have "apply_delta demo_hash ?d demo_store \<noteq> None" by code_simp
  then obtain w st' where r: "apply_delta demo_hash ?d demo_store = Some (w, st')" by auto
  have "store_ok demo_store" by code_simp
  from delta_maintains_folds[OF this r] show ?thesis by (simp add: r)
qed

end
