(* ===== verification/GraphCommit.thy ===== *)
theory GraphCommit
  imports GraphFold
begin

text \<open>
  The in-memory graph and its persisted rows together: after any mutations and commits, what the
  store holds differs from the graph only where the graph still owes it, so one more commit makes
  them equal; and the two ways this fails, an edge to a missing node and a mutation that races a
  commit.
\<close>

section \<open>What the store should hold\<close>

definition graph_node_rows :: "hasher \<Rightarrow> graph \<Rightarrow> string \<Rightarrow> graph_node_row set" where
  "graph_node_rows H g n =
     (case map_of (g_nodes g) n of None \<Rightarrow> {} | Some a \<Rightarrow> {node_row H n a})"

definition graph_edge_rows :: "hasher \<Rightarrow> graph \<Rightarrow> pair \<Rightarrow> graph_edge_row set" where
  "graph_edge_rows H g p =
     set (map (\<lambda>(s, t, seq, a). edge_row H s t seq a) (pair_rows g p))"

definition stored_nodes :: "row_store \<Rightarrow> string \<Rightarrow> graph_node_row set" where
  "stored_nodes st n = {r \<in> set (rs_nodes st). gn_id r = n}"

definition stored_edges :: "row_store \<Rightarrow> pair \<Rightarrow> graph_edge_row set" where
  "stored_edges st p = {r \<in> set (rs_edges st). ge_pair r = p}"

text \<open>The store holds exactly the rows of the graph.\<close>

definition mirrors :: "hasher \<Rightarrow> row_store \<Rightarrow> graph \<Rightarrow> bool" where
  "mirrors H st g \<longleftrightarrow>
     (\<forall>n. stored_nodes st n = graph_node_rows H g n) \<and>
     (\<forall>p. stored_edges st p = graph_edge_rows H g p)"

definition no_dangling :: "graph \<Rightarrow> bool" where
  "no_dangling g \<longleftrightarrow> (\<forall>s t. edges_of g (s, t) \<noteq> [] \<longrightarrow> has_node g s \<and> has_node g t)"

section \<open>What is still owed\<close>

definition node_settled :: "hasher \<Rightarrow> graph \<Rightarrow> row_store \<Rightarrow> string \<Rightarrow> bool" where
  "node_settled H g st n \<longleftrightarrow>
     (if n \<in> set (pending_nodes g) then has_node g n
      else if n \<in> set (pending_removed_nodes g) then \<not> has_node g n
      else stored_nodes st n = graph_node_rows H g n)"

definition pair_settled :: "hasher \<Rightarrow> graph \<Rightarrow> row_store \<Rightarrow> pair \<Rightarrow> bool" where
  "pair_settled H g st p \<longleftrightarrow>
     (if p \<in> set (pending_pairs g) then edges_of g p \<noteq> []
      else if p \<in> set (pending_removed_pairs g) \<or> touches (pending_removed_nodes g) p
      then edges_of g p = []
      else stored_edges st p = graph_edge_rows H g p)"

definition owes :: "hasher \<Rightarrow> graph \<Rightarrow> row_store \<Rightarrow> bool" where
  "owes H g st \<longleftrightarrow> distinct (pending_nodes g) \<and> distinct (pending_pairs g) \<and> no_dangling g \<and>
     (\<forall>n. node_settled H g st n) \<and> (\<forall>p. pair_settled H g st p)"

text \<open>A mutation as the builder makes it: an edge runs between nodes of the graph.\<close>

fun well_formed :: "graph \<Rightarrow> graph_op \<Rightarrow> bool" where
  "well_formed g (AddEdge s t a) \<longleftrightarrow> has_node g s \<and> has_node g t"
| "well_formed g _ \<longleftrightarrow> True"

lemma graph_edge_rows_cong:
  "edges_of g p = edges_of g' p \<Longrightarrow> graph_edge_rows H g p = graph_edge_rows H g' p"
  by (simp add: graph_edge_rows_def pair_rows_def)

lemma graph_edge_rows_Nil: "edges_of g p = [] \<Longrightarrow> graph_edge_rows H g p = {}"
  by (simp add: graph_edge_rows_def pair_rows_def)

lemma owes_pair: "owes H g st \<Longrightarrow> pair_settled H g st p"
  by (cases p) (simp add: owes_def)

lemma edges_of_touch [simp]: "edges_of (touch_edge s t g) q = edges_of g q"
  by (simp add: touch_edge_def edges_of_def)

lemma has_node_add [simp]: "has_node (add_node n a g) m \<longleftrightarrow> m = n \<or> has_node g m"
  by (simp add: has_node_def add_node_def Let_def update_conv')

lemma owes_add_node: "owes H g st \<Longrightarrow> owes H (add_node n a g) st"
proof -
  assume o: "owes H g st"
  have e: "edges_of (add_node n a g) p = edges_of g p" for p
    by (simp add: add_node_def Let_def edges_of_def)
  have p: "pending_pairs (add_node n a g) = pending_pairs g"
    "pending_removed_pairs (add_node n a g) = pending_removed_pairs g"
    "pending_removed_nodes (add_node n a g) = pending_removed_nodes g"
    "set (pending_nodes (add_node n a g)) = insert n (set (pending_nodes g))"
    "distinct (pending_nodes g) \<Longrightarrow> distinct (pending_nodes (add_node n a g))"
    by (simp_all add: add_node_def Let_def)
  have r: "m \<noteq> n \<Longrightarrow> graph_node_rows H (add_node n a g) m = graph_node_rows H g m" for m
    by (simp add: graph_node_rows_def add_node_def Let_def update_conv')
  show ?thesis
    using o by (auto simp: owes_def no_dangling_def node_settled_def pair_settled_def e p r
        graph_edge_rows_cong[OF e])
qed

text \<open>A change to one pair that leaves its edges marked.\<close>

lemma owes_pair_change:
  assumes "owes H g st" and "g_nodes g' = g_nodes g"
    and "pending_nodes g' = pending_nodes g" and "pending_removed_nodes g' = pending_removed_nodes g"
    and "\<And>q. q \<noteq> p \<Longrightarrow> edges_of g' q = edges_of g q"
    and "distinct (pending_pairs g')"
    and "\<And>q. q \<noteq> p \<Longrightarrow> q \<in> set (pending_pairs g') \<longleftrightarrow> q \<in> set (pending_pairs g)"
    and "\<And>q. q \<noteq> p \<Longrightarrow> q \<in> set (pending_removed_pairs g') \<longleftrightarrow> q \<in> set (pending_removed_pairs g)"
    and "edges_of g' p \<noteq> [] \<Longrightarrow> has_node g (fst p) \<and> has_node g (snd p)"
    and "pair_settled H g' st p"
  shows "owes H g' st"
proof -
  have hn: "has_node g' n = has_node g n" for n using assms(2) by (simp add: has_node_def)
  have rows: "graph_node_rows H g' n = graph_node_rows H g n" for n
    using assms(2) by (simp add: graph_node_rows_def)
  have "pair_settled H g' st q" for q
  proof (cases "q = p")
    case False
    then show ?thesis
      using owes_pair[OF assms(1), of q] assms(4,5,7,8) graph_edge_rows_cong[OF assms(5)]
      by (simp add: pair_settled_def)
  qed (use assms(10) in simp)
  moreover have "no_dangling g'"
    unfolding no_dangling_def hn
  proof (intro allI impI)
    fix s t assume e: "edges_of g' (s, t) \<noteq> []"
    show "has_node g s \<and> has_node g t"
    proof (cases "(s, t) = p")
      case True
      then show ?thesis using assms(9) e by auto
    next
      case False
      then show ?thesis using assms(1,5) e by (auto simp: owes_def no_dangling_def)
    qed
  qed
  ultimately show ?thesis
    using assms(1,3,4,6) by (simp add: owes_def node_settled_def hn rows)
qed

lemma owes_add_edge:
  assumes "owes H g st" and "has_node g s" and "has_node g t"
  shows "owes H (add_edge s t a g) st"
  by (rule owes_pair_change[OF assms(1), where p = "(s, t)"])
    (use assms in \<open>auto simp: add_edge_def edges_of_def update_conv' discard_def owes_def pair_settled_def\<close>)

lemma owes_edit_edge:
  assumes "owes H g st" and "i < length (edges_of g (s, t))"
  shows "owes H (edit_edge s t i a g) st"
proof -
  have ex: "map_of (g_edges (edit_in_place s t i a g)) (s, t) \<noteq> None"
    by (simp add: edit_in_place_def update_conv')
  have e: "edges_of (edit_edge s t i a g) q =
      (if q = (s, t) then (edges_of g (s, t))[i := a] else edges_of g q)" for q
    by (simp add: edit_edge_def)
  have "edges_of g (s, t) \<noteq> []" using assms(2) by auto
  then have n: "has_node g s \<and> has_node g t" using assms(1) by (auto simp: owes_def no_dangling_def)
  show ?thesis
    by (rule owes_pair_change[OF assms(1), where p = "(s, t)"])
      (use assms n e ex in \<open>auto simp: edit_edge_def touch_edge_def edit_in_place_def discard_def
          owes_def pair_settled_def\<close>)
qed

lemma remove_edge_pair_simps [simp]:
  "edges_of (remove_edge_pair p g) q = (if q = p then [] else edges_of g q)"
  "g_nodes (remove_edge_pair p g) = g_nodes g"
  "pending_nodes (remove_edge_pair p g) = pending_nodes g"
  "pending_removed_nodes (remove_edge_pair p g) = pending_removed_nodes g"
  "pending_pairs (remove_edge_pair p g) = removeAll p (pending_pairs g)"
  "pending_removed_pairs (remove_edge_pair p g) =
     (if edges_of g p = [] then pending_removed_pairs g else List.insert p (pending_removed_pairs g))"
proof -
  show "edges_of (remove_edge_pair p g) q = (if q = p then [] else edges_of g q)"
    using drop_pair_simps(1)[of p g q]
    by (simp add: remove_edge_pair_def edges_of_def Let_def del: drop_pair_simps)
qed (simp_all add: remove_edge_pair_def Let_def drop_pair_def discard_def)

lemma owes_remove_pair:
  assumes "owes H g st"
  shows "owes H (remove_edge_pair p g) st"
proof -
  have "graph_edge_rows H (remove_edge_pair p g) p = {}" by (simp add: graph_edge_rows_Nil)
  then have s: "pair_settled H (remove_edge_pair p g) st p"
    using owes_pair[OF assms, of p]
    by (auto simp: pair_settled_def graph_edge_rows_Nil split: if_splits)
  have "distinct (pending_pairs g)" using assms by (simp add: owes_def)
  then show ?thesis
    by (intro owes_pair_change[OF assms, where p = p, OF _ _ _ _ _ _ _ _ s])
      (simp_all add: distinct_removeAll)
qed

lemma owes_remove_edges: "owes H g st \<Longrightarrow> owes H (remove_edges_from ps g) st"
  unfolding remove_edges_from_def
  by (induction ps arbitrary: g) (auto simp: owes_remove_pair)

lemma owes_remove_where:
  assumes "owes H g st"
  shows "owes H (fst (remove_edges_where s t q g)) st"
proof (cases "edges_of g (s, t) = [] \<or> filter (\<lambda>a. \<not> q a) (edges_of g (s, t)) = edges_of g (s, t)")
  case True
  then show ?thesis using assms by (auto simp: remove_edges_where_def Let_def)
next
  case False
  let ?kept = "filter (\<lambda>a. \<not> q a) (edges_of g (s, t))"
  let ?g = "fst (remove_edges_where s t q g)"
  have "length ?kept < length (edges_of g (s, t))"
    using False by (metis filter_id_conv length_filter_less)
  then have g: "?g = (if ?kept \<noteq> []
      then g\<lparr>g_edge_count := g_edge_count g - int (length (edges_of g (s, t)) - length ?kept),
             g_edges := AList.update (s, t) ?kept (g_edges g),
             pending_pairs := List.insert (s, t) (pending_pairs g),
             pending_removed_pairs := discard (s, t) (pending_removed_pairs g)\<rparr>
      else g\<lparr>g_edge_count := g_edge_count g - int (length (edges_of g (s, t)) - length ?kept),
             g_edges := AList.delete (s, t) (g_edges g), g_out := drop_adjacency s t (g_out g),
             pending_pairs := discard (s, t) (pending_pairs g),
             pending_removed_pairs := List.insert (s, t) (pending_removed_pairs g)\<rparr>)"
    using False by (simp add: remove_edges_where_def Let_def)
  have e: "edges_of ?g p = (if p = (s, t) then ?kept else edges_of g p)" for p
    unfolding g by (auto simp: edges_of_def update_conv' delete_conv')
  have n: "has_node g s \<and> has_node g t"
    using assms False by (auto simp: owes_def no_dangling_def)
  have "distinct (pending_pairs g)" using assms by (simp add: owes_def)
  then show ?thesis
    by (intro owes_pair_change[OF assms, where p = "(s, t)"])
      (use n e in \<open>auto simp: g discard_def distinct_removeAll pair_settled_def\<close>)
qed

section \<open>Removing nodes\<close>

lemma forget_node_pending [simp]:
  "pending_nodes (forget_node n g) = removeAll n (pending_nodes g)"
  "set (pending_removed_nodes (forget_node n g)) =
     set (pending_removed_nodes g) \<union> (if has_node g n then {n} else {})"
  "pending_removed_pairs (forget_node n g) = pending_removed_pairs g"
  "pending_pairs (forget_node n g) = pending_pairs g"
  "has_node (forget_node n g) m \<longleftrightarrow> m \<noteq> n \<and> has_node g m"
  using forget_node_simps(5)[of n g m]
  by (simp_all add: forget_node_def Let_def discard_def has_node_def)

lemma forget_pending:
  "set (pending_nodes (fold forget_node R g)) = set (pending_nodes g) - set R"
  "distinct (pending_nodes g) \<Longrightarrow> distinct (pending_nodes (fold forget_node R g))"
  "set (pending_removed_nodes (fold forget_node R g)) =
     set (pending_removed_nodes g) \<union> {n \<in> set R. has_node g n}"
  "pending_removed_pairs (fold forget_node R g) = pending_removed_pairs g"
  "pending_pairs (fold forget_node R g) = pending_pairs g"
  by (induction R arbitrary: g) (auto simp: distinct_removeAll)

lemma drop_pairs_distinct: "distinct (pending_pairs g) \<Longrightarrow> distinct (pending_pairs (fold drop_pair ps g))"
  by (induction ps arbitrary: g) (auto simp: drop_pair_def discard_def distinct_removeAll)

lemma remove_nodes_pending:
  "set (pending_nodes (remove_nodes_from R g)) = set (pending_nodes g) - set R"
  "distinct (pending_nodes g) \<Longrightarrow> distinct (pending_nodes (remove_nodes_from R g))"
  "set (pending_removed_nodes (remove_nodes_from R g)) =
     set (pending_removed_nodes g) \<union> {n \<in> set R. has_node g n}"
  "pending_removed_pairs (remove_nodes_from R g) = pending_removed_pairs g"
  "set (pending_pairs (remove_nodes_from R g)) =
     set (pending_pairs g) - {p. touches R p \<and> p \<in> fst ` set (g_edges g)}"
  "distinct (pending_pairs g) \<Longrightarrow> distinct (pending_pairs (remove_nodes_from R g))"
  by (auto simp: remove_nodes_from_def Let_def drop_pairs forget_pending forget_nodes touches_def
      intro!: drop_pairs_distinct)

lemma has_node_remove [simp]:
  "has_node (remove_nodes_from R g) n \<longleftrightarrow> n \<notin> set R \<and> has_node g n"
  by (simp add: has_node_def remove_nodes_reads)

lemma owes_remove_nodes:
  assumes o: "owes H g st"
  shows "owes H (remove_nodes_from R g) st"
proof -
  let ?g = "remove_nodes_from R g"
  have e: "edges_of ?g q = (if touches R q then [] else edges_of g q)" for q
    by (rule remove_nodes_reads)
  have rows: "graph_node_rows H ?g n = (if n \<in> set R then {} else graph_node_rows H g n)" for n
    by (simp add: graph_node_rows_def remove_nodes_reads)
  have "node_settled H ?g st n" for n
  proof -
    have "node_settled H g st n" using o by (simp add: owes_def)
    moreover have "\<not> has_node g n \<Longrightarrow> graph_node_rows H g n = {}"
      by (simp add: graph_node_rows_def has_node_def)
    ultimately show ?thesis
      by (cases "n \<in> set R"; cases "has_node g n")
        (simp_all add: node_settled_def remove_nodes_pending rows split: if_splits)
  qed
  moreover have "pair_settled H ?g st p" for p
  proof -
    have s: "pair_settled H g st p" by (rule owes_pair[OF o])
    have ends: "edges_of g p \<noteq> [] \<Longrightarrow> has_node g (fst p) \<and> has_node g (snd p)"
      using o by (cases p) (auto simp: owes_def no_dangling_def)
    have listed: "p \<in> set (pending_pairs g) \<Longrightarrow> p \<in> fst ` set (g_edges g)"
      using s edge_pair_listed[of g p] by (simp add: pair_settled_def)
    show ?thesis
    proof (cases "touches R p")
      case False
      then have "touches (pending_removed_nodes ?g) p \<longleftrightarrow> touches (pending_removed_nodes g) p"
        by (auto simp: touches_def remove_nodes_pending)
      moreover have "graph_edge_rows H ?g p = graph_edge_rows H g p"
        by (intro graph_edge_rows_cong) (simp add: e False)
      ultimately show ?thesis
        using s False by (simp add: pair_settled_def remove_nodes_pending e)
    next
      case True
      have none: "p \<notin> set (pending_pairs ?g)" using True listed by (auto simp: remove_nodes_pending)
      show ?thesis
      proof (cases "edges_of g p = []")
        case False
        then have "touches (pending_removed_nodes ?g) p"
          using ends True by (auto simp: touches_def remove_nodes_pending)
        then show ?thesis using none True by (simp add: pair_settled_def e)
      next
        case empty: True
        then have "graph_edge_rows H ?g p = graph_edge_rows H g p"
          by (intro graph_edge_rows_cong) (simp add: e)
        moreover have "touches (pending_removed_nodes g) p \<Longrightarrow> touches (pending_removed_nodes ?g) p"
          by (auto simp: touches_def remove_nodes_pending)
        ultimately show ?thesis
          using s none empty True by (auto simp: pair_settled_def e remove_nodes_pending split: if_splits)
      qed
    qed
  qed
  moreover have "no_dangling ?g"
    using o by (auto simp: owes_def no_dangling_def e touches_def split: if_splits)
  ultimately show ?thesis
    using o by (simp add: owes_def remove_nodes_pending)
qed

lemma owes_op: "owes H g st \<Longrightarrow> well_formed g op \<Longrightarrow> owes H (apply_op op g) st"
  by (cases op) (auto simp: owes_add_node owes_add_edge owes_edit_edge owes_remove_nodes
      owes_remove_edges owes_remove_where)

section \<open>A commit\<close>

definition upsert_of :: "graph \<Rightarrow> string \<Rightarrow> (string \<times> attrs) list" where
  "upsert_of g m = (case map_of (g_nodes g) m of None \<Rightarrow> [] | Some b \<Rightarrow> [(m, b)])"

lemma upsert_of_mem: "(n, a) \<in> set (upsert_of g m) \<longleftrightarrow> n = m \<and> map_of (g_nodes g) m = Some a"
  by (cases "map_of (g_nodes g) m") (auto simp: upsert_of_def)

lemma delta_nodes:
  assumes "owes H g st"
  shows "map fst (node_upserts (graph_delta g)) = pending_nodes g"
    and "(n, a) \<in> set (node_upserts (graph_delta g)) \<longleftrightarrow>
      n \<in> set (pending_nodes g) \<and> map_of (g_nodes g) n = Some a"
proof -
  have "map fst (concat (map (\<lambda>n. case map_of (g_nodes g) n of None \<Rightarrow> [] | Some a \<Rightarrow> [(n, a)]) ns)) = ns"
    if "\<forall>n \<in> set ns. has_node g n" for ns
    using that by (induction ns) (auto simp: has_node_def)
  moreover have "\<forall>n \<in> set (pending_nodes g). has_node g n"
    using assms by (auto simp: owes_def node_settled_def split: if_splits)
  ultimately show "map fst (node_upserts (graph_delta g)) = pending_nodes g"
    by (simp add: graph_delta_def)
  have "set (node_upserts (graph_delta g)) =
      (\<Union>m \<in> set (pending_nodes g). set (upsert_of g m))"
    by (simp add: graph_delta_def upsert_of_def)
  then show "(n, a) \<in> set (node_upserts (graph_delta g)) \<longleftrightarrow>
      n \<in> set (pending_nodes g) \<and> map_of (g_nodes g) n = Some a"
    by (simp add: upsert_of_mem)
qed

lemma pair_rows_ends:
  "(\<lambda>(s, t, _, _). (s, t)) ` set (pair_rows g p) = (if edges_of g p = [] then {} else {p})"
proof -
  have "(\<lambda>(s, t, _, _). (s, t)) ` set (pair_rows g p) = (\<lambda>_. p) ` set (List.enumerate 0 (edges_of g p))"
    by (simp add: pair_rows_def image_image case_prod_unfold)
  moreover have "set (List.enumerate 0 (edges_of g p)) = {} \<longleftrightarrow> edges_of g p = []"
    by (cases "edges_of g p") simp_all
  ultimately show ?thesis by (simp add: image_constant_conv)
qed

lemma delta_pairs:
  assumes "owes H g st"
  shows "(\<lambda>(s, t, _, _). (s, t)) ` set (edge_upserts (graph_delta g)) = set (pending_pairs g)"
proof -
  have "edges_of g p \<noteq> []" if "p \<in> set (pending_pairs g)" for p
    using owes_pair[OF assms, of p] that by (simp add: pair_settled_def)
  moreover have "set (edge_upserts (graph_delta g)) = (\<Union>p \<in> set (pending_pairs g). set (pair_rows g p))"
    by (simp add: graph_delta_def)
  ultimately show ?thesis by (simp add: image_UN pair_rows_ends)
qed

lemma delta_gone:
  assumes "owes H g st"
  shows "node_gone (graph_delta g) n \<longleftrightarrow> n \<in> set (pending_nodes g) \<or> n \<in> set (pending_removed_nodes g)"
    and "pair_gone (graph_delta g) p \<longleftrightarrow> p \<in> set (pending_pairs g) \<or>
      p \<in> set (pending_removed_pairs g) \<or> touches (pending_removed_nodes g) p"
proof -
  have "fst ` set (node_upserts (graph_delta g)) = set (pending_nodes g)"
    using arg_cong[OF delta_nodes(1)[OF assms], of set] by simp
  then show "node_gone (graph_delta g) n \<longleftrightarrow>
      n \<in> set (pending_nodes g) \<or> n \<in> set (pending_removed_nodes g)"
    by (simp add: node_gone_def) (simp add: graph_delta_def)
  show "pair_gone (graph_delta g) p \<longleftrightarrow> p \<in> set (pending_pairs g) \<or>
      p \<in> set (pending_removed_pairs g) \<or> touches (pending_removed_nodes g) p"
    unfolding pair_gone_def delta_pairs[OF assms] by (auto simp: graph_delta_def touches_def)
qed

lemma node_row_id [simp]: "gn_id (node_row H n a) = n"
  by (simp add: node_row_def Let_def)

lemma edge_row_key [simp]:
  "ge_source (edge_row H s t i a) = s" "ge_target (edge_row H s t i a) = t"
  "ge_seq (edge_row H s t i a) = i" "ge_pair (edge_row H s t i a) = (s, t)"
  by (simp_all add: edge_row_def Let_def ge_pair_def)

lemma delta_node_keys:
  "owes H g st \<Longrightarrow> map gn_id (node_rows H (graph_delta g)) = pending_nodes g"
  using delta_nodes(1)[of H g st] by (simp add: node_rows_def comp_def case_prod_unfold)

lemma delta_edge_keys:
  assumes "distinct (pending_pairs g)"
  shows "distinct (map EDGE_KEY (edge_rows H (graph_delta g)))"
proof -
  let ?k = "\<lambda>r. (ge_pair r, ge_seq r)"
  have rows: "map ?k (map (\<lambda>(s, t, seq, a). edge_row H s t seq a) (pair_rows g p)) =
      map (\<lambda>i. (p, i)) [0..<length (edges_of g p)]" for p
  proof -
    have "map (\<lambda>x. (p, fst x)) (enumerate 0 (edges_of g p)) =
        map (\<lambda>i. (p, i)) (map fst (enumerate 0 (edges_of g p)))"
      by (simp only: map_map comp_def)
    then have "map (\<lambda>x. (p, fst x)) (enumerate 0 (edges_of g p)) =
        map (\<lambda>i. (p, i)) [0..<length (edges_of g p)]" by (simp only: map_fst_enumerate add_0)
    then show ?thesis by (simp add: pair_rows_def case_prod_unfold comp_def del: map_fst_enumerate)
  qed
  have k: "map ?k (map (\<lambda>(s, t, seq, a). edge_row H s t seq a) (concat (map (pair_rows g) ps))) =
      concat (map (\<lambda>p. map (\<lambda>i. (p, i)) [0..<length (edges_of g p)]) ps)" for ps
  proof (induction ps)
    case (Cons p ps)
    then show ?case using rows[of p] by simp
  qed simp
  have "distinct (concat (map (\<lambda>p. map (\<lambda>i. (p, i)) [0..<length (edges_of g p)]) ps))"
    if "distinct ps" for ps
    using that by (induction ps) (auto simp: distinct_map inj_on_def)
  then have "distinct (map ?k (edge_rows H (graph_delta g)))"
    using assms k by (simp add: edge_rows_def graph_delta_def)
  then show ?thesis
    unfolding distinct_map inj_on_def by (auto simp: EDGE_KEY_def ge_pair_def)
qed

text \<open>Rows that replace what goes never clash with what stays.\<close>

lemma edge_row_gone: "r \<in> set (edge_rows H d) \<Longrightarrow> pair_gone d (ge_pair r)"
  by (force simp: edge_rows_def pair_gone_def)

lemma apply_delta_total:
  assumes "store_ok st" and "distinct (map gn_id (node_rows H d))"
    and "distinct (map EDGE_KEY (edge_rows H d))"
  shows "apply_delta H d st \<noteq> None"
proof -
  let ?kn = "tbl_delete (\<lambda>r. node_gone d (gn_id r)) (rs_nodes st)"
  let ?ke = "tbl_delete (\<lambda>r. pair_gone d (ge_pair r)) (rs_edges st)"
  have node_id: "r \<in> set (node_rows H d) \<Longrightarrow> node_gone d (gn_id r)" for r
    by (auto simp: node_rows_def node_gone_def intro: rev_image_eqI)
  have kn: "distinct (map gn_id (?kn @ node_rows H d))"
    using keyed_delete[of gn_id "rs_nodes st"] assms(1,2) node_id
    by (auto simp: keyed_def store_ok_def tbl_delete_def)
  have pair: "EDGE_KEY r = EDGE_KEY r' \<Longrightarrow> ge_pair r = ge_pair r'" for r r'
    by (simp add: EDGE_KEY_def ge_pair_def)
  have "EDGE_KEY r \<noteq> EDGE_KEY r'" if "r \<in> set ?ke" "r' \<in> set (edge_rows H d)" for r r'
    using that pair[of r r'] edge_row_gone[of r' H d] by (auto simp: tbl_delete_def)
  then have ke: "distinct (map EDGE_KEY (?ke @ edge_rows H d))"
    using keyed_delete[of EDGE_KEY "rs_edges st"] assms(1,3)
    by (force simp: keyed_def store_ok_def)
  have del_n: "delete_nodes (map fst (node_upserts d) @ node_removals d) t =
      tbl_delete (\<lambda>r. node_gone d (gn_id r)) t" for t
    by (simp add: delete_nodes_eq node_gone_def)
  have del_e: "delete_edges_touching (node_removals d) (delete_edges
        (dict_fromkeys (map (\<lambda>(s, t, _, _). (s, t)) (edge_upserts d) @ edge_removals d)) t) =
      tbl_delete (\<lambda>r. pair_gone d (ge_pair r)) t" for t
    by (auto simp: delete_touching_eq delete_edges_eq tbl_delete_def pair_gone_def intro!: filter_cong)
  have fresh: "rs_nodes st = [] \<Longrightarrow> rs_edges st = []" using assms(1) by (simp add: store_ok_def)
  have rows: "(if rs_nodes st = [] then rs_nodes st
      else delete_nodes (map fst (node_upserts d) @ node_removals d) (rs_nodes st)) = ?kn"
    "(if rs_nodes st = [] then rs_edges st else delete_edges_touching (node_removals d) (delete_edges
        (dict_fromkeys (map (\<lambda>(s, t, _, _). (s, t)) (edge_upserts d) @ edge_removals d)) (rs_edges st))) = ?ke"
    using fresh by (auto simp: del_n del_e tbl_delete_def)
  show ?thesis
    unfolding apply_delta_def Let_def rows
    using kn ke by (simp add: insert_rows_def node_rows_def edge_rows_def)
qed

lemma stored_after:
  assumes "store_ok st" and "apply_delta H d st = Some (w, st')"
  shows "stored_nodes st' n =
      (if node_gone d n then {} else stored_nodes st n) \<union> {r \<in> set (node_rows H d). gn_id r = n}"
    and "stored_edges st' p =
      (if pair_gone d p then {} else stored_edges st p) \<union> {r \<in> set (edge_rows H d). ge_pair r = p}"
  using apply_delta_rows(1,2)[OF assms]
  by (auto simp: stored_nodes_def stored_edges_def tbl_delete_def)

lemma delta_node_rows:
  assumes "owes H g st"
  shows "{r \<in> set (node_rows H (graph_delta g)). gn_id r = n} =
    (if n \<in> set (pending_nodes g) then graph_node_rows H g n else {})"
proof -
  have "r \<in> set (node_rows H (graph_delta g)) \<longleftrightarrow>
      (\<exists>m a. m \<in> set (pending_nodes g) \<and> map_of (g_nodes g) m = Some a \<and> r = node_row H m a)" for r
    using delta_nodes(2)[OF assms] by (force simp: node_rows_def)
  then show ?thesis by (auto simp: graph_node_rows_def split: option.splits)
qed

lemma delta_edge_rows:
  "{r \<in> set (edge_rows H (graph_delta g)). ge_pair r = p} =
    (if p \<in> set (pending_pairs g) then graph_edge_rows H g p else {})"
proof -
  have pair: "r \<in> graph_edge_rows H g q \<Longrightarrow> ge_pair r = q" for r q
    by (auto simp: graph_edge_rows_def pair_rows_def)
  have "set (edge_rows H (graph_delta g)) = (\<Union>q \<in> set (pending_pairs g). graph_edge_rows H g q)"
    by (simp add: edge_rows_def graph_delta_def graph_edge_rows_def image_UN)
  then show ?thesis by (auto dest: pair)
qed

lemma commit_mirrors:
  assumes "owes H g st" and "store_ok st" and "apply_delta H (graph_delta g) st = Some (w, st')"
  shows "mirrors H st' g"
proof -
  have none: "\<not> has_node g n \<Longrightarrow> graph_node_rows H g n = {}" for n
    by (simp add: graph_node_rows_def has_node_def)
  have "stored_nodes st' n = graph_node_rows H g n" for n
  proof -
    have "node_settled H g st n" using assms(1) by (simp add: owes_def)
    then show ?thesis
      by (auto simp: stored_after(1)[OF assms(2,3)] delta_node_rows[OF assms(1)] delta_gone(1)[OF assms(1)]
          node_settled_def none split: if_splits)
  qed
  moreover have "stored_edges st' p = graph_edge_rows H g p" for p
    using owes_pair[OF assms(1), of p]
    by (auto simp: stored_after(2)[OF assms(2,3)] delta_edge_rows delta_gone(2)[OF assms(1)]
        pair_settled_def graph_edge_rows_Nil split: if_splits)
  ultimately show ?thesis by (simp add: mirrors_def)
qed

lemma mirrors_store_ok:
  assumes "mirrors H st g" and "no_dangling g" and "rs_nodes st = []"
  shows "rs_edges st = []"
proof (rule ccontr)
  assume "rs_edges st \<noteq> []"
  then obtain r where r: "r \<in> set (rs_edges st)" by (cases "rs_edges st") auto
  obtain s t where p: "ge_pair r = (s, t)" by (cases "ge_pair r")
  have "stored_edges st (s, t) = graph_edge_rows H g (s, t)" using assms(1) by (simp add: mirrors_def)
  moreover have "r \<in> stored_edges st (s, t)" using r p by (simp add: stored_edges_def)
  ultimately have "edges_of g (s, t) \<noteq> []" using graph_edge_rows_Nil by fastforce
  then have "has_node g s" using assms(2) by (simp add: no_dangling_def)
  moreover have "stored_nodes st s = graph_node_rows H g s" using assms(1) by (simp add: mirrors_def)
  ultimately show False using assms(3) by (auto simp: stored_nodes_def graph_node_rows_def has_node_def)
qed

lemma clear_settles:
  assumes "owes H g st"
  shows "settled (clear_graph_delta (graph_delta g) g)"
proof -
  have "set (map (\<lambda>(s, t, _, _). (s, t)) (edge_upserts (graph_delta g))) = set (pending_pairs g)"
    using delta_pairs[OF assms] by simp
  then show ?thesis
    by (simp add: settled_def clear_graph_delta_def without_def delta_nodes(1)[OF assms]
        filter_empty_conv) (auto simp: graph_delta_def)
qed

lemma settled_owes:
  assumes "mirrors H st g" and "no_dangling g" and "settled g"
  shows "owes H g st"
  using assms
  by (simp add: owes_def settled_def mirrors_def node_settled_def pair_settled_def touches_def)

lemma publish_simps [simp]:
  "rs_nodes (publish_generation G st) = rs_nodes st" "rs_edges (publish_generation G st) = rs_edges st"
  by (simp_all add: publish_generation_def case_prod_unfold Let_def)

lemma publish_exact: "gen_exact st \<Longrightarrow> gen_exact (publish_generation G st)"
  by (auto simp: gen_exact_def publish_generation_def counts_def recompute_folds_def xor_fold_def split: option.splits)

lemma publish_mirrors [simp]: "mirrors H (publish_generation G st) g \<longleftrightarrow> mirrors H st g"
  by (simp add: mirrors_def stored_nodes_def stored_edges_def)

lemma clear_keeps [simp]:
  "g_nodes (clear_graph_delta d g) = g_nodes g" "edges_of (clear_graph_delta d g) p = edges_of g p"
  "has_node (clear_graph_delta d g) n = has_node g n"
  by (simp_all add: clear_graph_delta_def edges_of_def has_node_def)

lemma clear_mirrors [simp]: "mirrors H st (clear_graph_delta d g) \<longleftrightarrow> mirrors H st g"
  by (simp add: mirrors_def graph_node_rows_def graph_edge_rows_def pair_rows_def)

lemma save_works:
  assumes "owes H g st" and "store_ok st"
  shows "\<exists>g' st'. save_rows H G g st = Some (g', st') \<and> settled g' \<and> g_nodes g' = g_nodes g \<and>
    (\<forall>p. edges_of g' p = edges_of g p) \<and> mirrors H st' g' \<and> owes H g' st' \<and> store_ok st'"
proof -
  let ?d = "graph_delta g"
  have "distinct (map gn_id (node_rows H ?d))" "distinct (map EDGE_KEY (edge_rows H ?d))"
    using assms(1) delta_node_keys[OF assms(1)] delta_edge_keys by (simp_all add: owes_def)
  from apply_delta_total[OF assms(2) this] obtain w st1 where st1: "apply_delta H ?d st = Some (w, st1)"
    by auto
  let ?g = "clear_graph_delta ?d g" and ?st = "publish_generation G st1"
  have s: "save_rows H G g st = Some (?g, ?st)" by (simp add: save_rows_def st1)
  have m: "mirrors H ?st ?g" using commit_mirrors[OF assms st1] by simp
  have nd: "no_dangling ?g" using assms(1) by (simp add: owes_def no_dangling_def)
  have st: "settled ?g" by (rule clear_settles[OF assms(1)])
  have "store_ok ?st"
    unfolding store_ok_def
    using apply_delta_rows(3,4)[OF assms(2) st1] mirrors_store_ok[OF m nd]
      publish_exact[OF apply_delta_gen[OF assms(2) st1]] by simp
  then show ?thesis using s m st settled_owes[OF m nd st] by auto
qed

section \<open>Histories\<close>

text \<open>What a process does to its graph and the store, from an empty region on.\<close>

inductive history ::
    "hasher \<Rightarrow> (digest \<Rightarrow> digest \<Rightarrow> int \<Rightarrow> int \<Rightarrow> digest) \<Rightarrow> graph \<Rightarrow> row_store \<Rightarrow> bool" for H G where
  start: "history H G empty_graph empty_store"
| mutate: "history H G g st \<Longrightarrow> well_formed g op \<Longrightarrow> history H G (apply_op op g) st"
| commit: "history H G g st \<Longrightarrow> save_rows H G g st = Some (g', st') \<Longrightarrow> history H G g' st'"

lemma history_owes: "history H G g st \<Longrightarrow> owes H g st \<and> store_ok st"
proof (induction rule: history.induct)
  case start
  have "mirrors H empty_store empty_graph"
    by (simp add: mirrors_def stored_nodes_def stored_edges_def empty_store_def empty_graph_def
        graph_node_rows_def graph_edge_rows_def pair_rows_def edges_of_def)
  then have "owes H empty_graph empty_store"
    by (rule settled_owes) (simp_all add: no_dangling_def empty_graph_def edges_of_def settled_def)
  then show ?case by (simp add: store_ok_def empty_store_def keyed_def gen_exact_def)
next
  case (mutate g st op)
  then show ?case using owes_op by blast
next
  case (commit g st g' st')
  then show ?case using save_works[of H g st G] by auto
qed


definition demo_history :: "graph_op list" where
  "demo_history =
     [AddNode ''a'' [(''type'', PText ''file'')], AddNode ''b'' [], AddEdge ''a'' ''b'' [],
      RemoveNodes [''b'']]"


section \<open>Where the two drift apart\<close>

text \<open>A node written before a commit, and written again while the commit is under way.\<close>

definition before_commit :: graph where
  "before_commit = add_node ''a'' [(''v'', PText ''old'')] empty_graph"

definition during_commit :: graph where
  "during_commit = add_node ''a'' [(''v'', PText ''new'')] before_commit"

definition race_store :: row_store where
  "race_store = snd (the (apply_delta demo_hash (graph_delta before_commit) empty_store))"

text \<open>
  A mutation that races a commit can be lost. When a node is written again between
  \<open>graph_delta\<close> and \<open>clear_graph_delta\<close>, clearing the delta forgets the second write as well: the
  graph believes it owes nothing while the store holds the first version of the node.
\<close>

theorem racing_write_is_forgotten:
  "settled (clear_graph_delta (graph_delta before_commit) during_commit) \<and>
   stored_nodes race_store ''a'' \<noteq>
     graph_node_rows demo_hash (clear_graph_delta (graph_delta before_commit) during_commit) ''a''"
proof
  show "settled (clear_graph_delta (graph_delta before_commit) during_commit)" by code_simp
  have "map gn_rest (rs_nodes race_store) = [[(''v'', PText ''old'')]]" by code_simp
  then have old: "gn_rest ` set (rs_nodes race_store) = {[(''v'', PText ''old'')]}"
    by (metis list.set(1,2) list.simps(15) set_map)
  let ?new = "node_row demo_hash ''a'' [(''v'', PText ''new'')]"
  have "map_of (g_nodes (clear_graph_delta (graph_delta before_commit) during_commit)) ''a'' =
      Some [(''v'', PText ''new'')]" by code_simp
  then have rows: "graph_node_rows demo_hash
      (clear_graph_delta (graph_delta before_commit) during_commit) ''a'' = {?new}"
    by (simp add: graph_node_rows_def)
  have "gn_rest ?new = [(''v'', PText ''new'')]" by code_simp
  then have "gn_rest ?new \<notin> gn_rest ` set (rs_nodes race_store)" by (simp add: old)
  then have "?new \<notin> stored_nodes race_store ''a''" by (auto simp: stored_nodes_def)
  then show "stored_nodes race_store ''a'' \<noteq>
     graph_node_rows demo_hash (clear_graph_delta (graph_delta before_commit) during_commit) ''a''"
    unfolding rows by blast
qed

text \<open>
  Removing an id that is no node drops its edges from the graph and owes the store nothing for them.
\<close>

lemma dangling_removal_owes_nothing:
  "\<not> has_node g n \<Longrightarrow> settled g \<Longrightarrow>
   settled (remove_nodes_from [n] g) \<and> edges_of (remove_nodes_from [n] g) (s, n) = []"
proof -
  let ?g = "remove_nodes_from [n] g"
  assume n: "\<not> has_node g n" and s: "settled g"
  have "set (pending_nodes ?g) = {}" and "set (pending_pairs ?g) = {}"
    and "pending_removed_pairs ?g = []"
    using s by (simp_all add: remove_nodes_pending settled_def)
  moreover have "set (pending_removed_nodes ?g) = {}"
    unfolding remove_nodes_pending(3) using s n by (simp add: settled_def)
  ultimately show ?thesis by (simp add: settled_def remove_nodes_reads touches_def)
qed

text \<open>An unchanged edge asserted again is stamped in place and not marked.\<close>

lemma reassert_stamps_unmarked:
  assumes "edges_of g (s, t) = [a]" and "attr_get a ''type'' = Some (PText ty)"
    and "same_content a (dict_merge a b)"
  shows "pending_pairs (upsert_edge now s t ty b g) = pending_pairs g \<and>
    edges_of (upsert_edge now s t ty b g) (s, t) =
      [AList.update ''updated_at'' (get_or a ''updated_at'' (get_or a ''created_at'' PNone))
        (dict_merge a b)]"
  using assms by (simp add: upsert_edge_def Let_def) (simp add: edit_in_place_def)

end
