(* ===== verification/GraphCodec.thy ===== *)
theory GraphCodec
  imports GraphRows
begin

text \<open>
  The row codec: what \<open>node_attrs_dict\<close> and \<open>edge_attrs_dict\<close> read back from the rows
  \<open>node_row\<close> and \<open>edge_row\<close> wrote.
\<close>

definition same_dict :: "attrs \<Rightarrow> attrs \<Rightarrow> bool" where
  "same_dict a b \<longleftrightarrow> (\<forall>k \<in> set (map fst a @ map fst b). map_of a k = map_of b k)"

lemma same_dict_iff: "same_dict a b \<longleftrightarrow> map_of a = map_of b"
proof
  assume s: "same_dict a b"
  show "map_of a = map_of b"
  proof (rule ext)
    fix k
    show "map_of a k = map_of b k"
    proof (cases "k \<in> fst ` set a \<union> fst ` set b")
      case True
      then show ?thesis using s by (auto simp: same_dict_def)
    next
      case False
      then have "map_of a k = None" "map_of b k = None" by (simp_all add: map_of_eq_None_iff)
      then show ?thesis by simp
    qed
  qed
qed (simp add: same_dict_def)

lemma map_of_rest:
  assumes "distinct (map fst a)"
  shows "map_of (rest_of ks a) k = (if k \<in> set ks then None else map_of a k)"
proof -
  let ?f = "filter (\<lambda>(k, v). k \<notin> set ks) a"
  have d: "distinct (map fst ?f)" using assms by (induction a) auto
  have "distinct (map fst (sort_key fst ?f))" using d
    by (metis distinct_sort distinct_map set_sort)
  then have "map_of (rest_of ks a) = map_of ?f"
    unfolding rest_of_def using d by (subst map_of_inject_set) simp_all
  moreover have "map_of ?f k = (if k \<in> set ks then None else map_of a k)"
    by (induction a) auto
  ultimately show ?thesis by simp
qed

text \<open>What a promoted column keeps of an attribute: its text, and nothing of None.\<close>

definition column_value :: "attrs \<Rightarrow> string \<Rightarrow> pyval option" where
  "column_value a k = map_option PText (text_of (attr_get a k))"

lemma map_of_columns:
  "distinct ks \<Longrightarrow>
   map_of (fold (\<lambda>(k, v). case v of None \<Rightarrow> id | Some s \<Rightarrow> AList.update k (PText s))
     (zip ks (map f ks)) acc) k =
     (if k \<in> set ks then (case f k of None \<Rightarrow> map_of acc k | Some s \<Rightarrow> Some (PText s))
      else map_of acc k)"
  by (induction ks arbitrary: acc) (auto simp: update_conv' split: option.split)

lemma node_round:
  assumes "distinct (map fst a)"
  shows "map_of (node_attrs_dict (node_row H n a)) k =
    (if k \<in> set PROMOTED_NODE_KEYS then column_value a k else map_of a k)"
proof -
  have "map_of (rest_of PROMOTED_NODE_KEYS a) k =
      (if k \<in> set PROMOTED_NODE_KEYS then None else map_of a k)" for k
    by (rule map_of_rest[OF assms])
  moreover have "distinct PROMOTED_NODE_KEYS" by (simp add: PROMOTED_NODE_KEYS_def)
  ultimately show ?thesis
    using map_of_columns[of PROMOTED_NODE_KEYS "\<lambda>k. text_of (attr_get a k)" "rest_of PROMOTED_NODE_KEYS a" k]
    by (simp add: node_attrs_dict_def node_row_def Let_def column_value_def split: option.split)
qed

lemma edge_round:
  assumes "distinct (map fst a)"
  shows "map_of (edge_attrs_dict (edge_row H s t i a)) k =
    (if k = ''type'' then Some (PText (str_or (text_of (attr_get a ''type'')) ''related''))
     else if k = ''source_id'' then column_value a k else map_of a k)"
proof -
  have "map_of (rest_of PROMOTED_EDGE_KEYS a) k =
      (if k \<in> set PROMOTED_EDGE_KEYS then None else map_of a k)" for k
    by (rule map_of_rest[OF assms])
  then show ?thesis
    by (auto simp: edge_attrs_dict_def edge_row_def Let_def PROMOTED_EDGE_KEYS_def column_value_def
        update_conv' split: option.splits)
qed

text \<open>An attribute that a promoted column can hold: it is not there, or it is a text.\<close>

definition column_ready :: "attrs \<Rightarrow> string \<Rightarrow> bool" where
  "column_ready a k \<longleftrightarrow> (case map_of a k of None \<Rightarrow> True | Some (PText _) \<Rightarrow> True | _ \<Rightarrow> False)"

lemma column_ready_value: "column_ready a k \<Longrightarrow> column_value a k = map_of a k"
  by (auto simp: column_ready_def column_value_def text_of_def attr_get_def
      split: option.splits pyval.splits)



end
