(* ===== verification/Retraction.thy ===== *)
theory Retraction
  imports GraphInv
begin

text \<open>
  What a re-index of one artifact takes back, and what a vanished file takes with it:
  \<open>src/pheasant/graph/retraction.py\<close>, the removals of \<open>GraphBuilder\<close>
  (\<open>src/pheasant/graph/builder.py\<close>), \<open>src/pheasant/sync/vanished.py\<close> and \<open>delete_artifacts\<close> of
  \<open>src/pheasant/persistence/state_store.py\<close>.
\<close>

section \<open>Edges an edit left behind\<close>

definition has_type :: "attrs \<Rightarrow> string \<Rightarrow> bool" where
  "has_type a ty \<longleftrightarrow> attr_get a ''type'' = Some (PText ty)"

definition all_of_type :: "string \<Rightarrow> attrs list \<Rightarrow> bool" where
  "all_of_type ty es \<longleftrightarrow> es \<noteq> [] \<and> list_all (\<lambda>a. has_type a ty) es"

definition stale_chunks :: "graph \<Rightarrow> string \<Rightarrow> string list \<Rightarrow> string list" where
  "stale_chunks g artifact current =
     map (\<lambda>(_, t, _). t)
       (filter (\<lambda>(_, t, es). t \<notin> set current \<and> all_of_type ''has_chunk'' es) (out_edges g artifact))"

definition drop_stale_chunks :: "graph \<Rightarrow> string \<Rightarrow> string list \<Rightarrow> nat \<times> graph" where
  "drop_stale_chunks g artifact current =
     (if \<not> has_node g artifact then (0, g)
      else (let stale = stale_chunks g artifact current
            in (length stale, if stale \<noteq> [] then remove_nodes_from stale g else g)))"

definition drop_embeds :: "graph \<Rightarrow> string \<Rightarrow> graph" where
  "drop_embeds g artifact =
     (if \<not> has_node g artifact then g
      else (let pairs = map (\<lambda>(s, t, _). (s, t))
                  (filter (\<lambda>(_, _, es). all_of_type ''embeds'' es) (out_edges g artifact))
            in if pairs \<noteq> [] then remove_edges_from pairs g else g))"

text \<open>An enrichment: its nodes (id, type, attributes) and edges (source, target, type)\<close>

record enrichment =
  en_nodes :: "(string \<times> string \<times> attrs) list"
  en_edges :: "(string \<times> string \<times> string) list"

definition TEXT_DERIVED_EDGE_TYPES :: "string list" where
  "TEXT_DERIVED_EDGE_TYPES = [''imports'', ''calls'', ''mentions'']"

definition SHARED_ENRICHMENT_NODE_TYPES :: "string list" where
  "SHARED_ENRICHMENT_NODE_TYPES = [''external_reference'', ''symbol'', ''entity'']"

definition kept_edges :: "string \<Rightarrow> enrichment \<Rightarrow> (string \<times> string) list" where
  "kept_edges artifact en =
     map (\<lambda>(_, t, ty). (t, ty))
       (filter (\<lambda>(s, _, ty). s = artifact \<and> ty \<in> set TEXT_DERIVED_EDGE_TYPES) (en_edges en))"

definition imports_made :: "string \<Rightarrow> enrichment \<Rightarrow> (pyval option \<times> pyval option) list" where
  "imports_made artifact en =
     (let stubs = map fst (filter (\<lambda>(_, ty). ty = ''imports'') (kept_edges artifact en))
      in map (\<lambda>(_, _, a). (attr_get a ''reference'', attr_get a ''reference_type''))
           (filter (\<lambda>(n, _, _). n \<in> set stubs) (en_nodes en)))"

text \<open>The inner function \<open>stale\<close>\<close>

definition stale_edge :: "string \<Rightarrow> enrichment \<Rightarrow> string \<Rightarrow> attrs \<Rightarrow> bool" where
  "stale_edge artifact en target a =
     (case attr_get a ''type'' of
        Some (PText ty) \<Rightarrow>
          if ty \<notin> set TEXT_DERIVED_EDGE_TYPES \<or> (target, ty) \<in> set (kept_edges artifact en) then False
          else if ty = ''imports'' \<and> map_of a ''reference'' \<noteq> None
          then (attr_get a ''reference'', attr_get a ''reference_type'')
                 \<notin> set (imports_made artifact en)
          else True
      | _ \<Rightarrow> False)"

definition node_attr :: "graph \<Rightarrow> string \<Rightarrow> string \<Rightarrow> pyval option" where
  "node_attr g n k = attr_get (case map_of (g_nodes g) n of None \<Rightarrow> [] | Some a \<Rightarrow> a) k"

definition owned_symbol :: "graph \<Rightarrow> string \<Rightarrow> string \<Rightarrow> bool" where
  "owned_symbol g artifact n \<longleftrightarrow> node_attr g n ''type'' = Some (PText ''symbol'') \<and>
     node_attr g n ''artifact_id'' = Some (PText artifact)"

definition shared_node :: "graph \<Rightarrow> string \<Rightarrow> bool" where
  "shared_node g n \<longleftrightarrow> node_attr g n ''type'' \<in> (Some \<circ> PText) ` set SHARED_ENRICHMENT_NODE_TYPES"

definition detach :: "string \<Rightarrow> enrichment \<Rightarrow> string \<Rightarrow> graph \<Rightarrow> graph" where
  "detach artifact en t g = fst (remove_edges_where artifact t (stale_edge artifact en t) g)"

definition retract_stale_enrichment :: "graph \<Rightarrow> string \<Rightarrow> enrichment \<Rightarrow> string list \<times> graph" where
  "retract_stale_enrichment g artifact en =
     (if \<not> has_node g artifact then ([], g)
      else (let detached = map (\<lambda>(_, t, _). t)
                  (filter (\<lambda>(_, t, es). list_ex (stale_edge artifact en t) es) (out_edges g artifact));
                g1 = fold (detach artifact en) detached g
            in if detached = [] then ([], g1)
               else (let symbols = map fst (filter (\<lambda>(_, ty, _). ty = ''symbol'') (en_nodes en));
                         owned = filter (\<lambda>t. owned_symbol g1 artifact t \<and> t \<notin> set symbols) detached;
                         shared = filter (\<lambda>t. \<not> owned_symbol g1 artifact t \<and> shared_node g1 t) detached
                     in (shared, if owned \<noteq> [] then remove_nodes_from owned g1 else g1))))"

section \<open>Vanished files\<close>

definition OWNED_BY_ARTIFACT :: "string list" where
  "OWNED_BY_ARTIFACT = [''chunk'', ''heading'']"

definition owned_by :: "graph \<Rightarrow> string \<Rightarrow> string \<Rightarrow> bool" where
  "owned_by g artifact n \<longleftrightarrow>
     node_attr g n ''type'' \<in> (Some \<circ> PText) ` set OWNED_BY_ARTIFACT \<or> owned_symbol g artifact n"

definition out_targets :: "graph \<Rightarrow> string \<Rightarrow> string list" where
  "out_targets g n = map (\<lambda>(_, t, _). t) (out_edges g n)"

type_synonym vanished_file = "string \<times> string \<times> string option"

text \<open>The directory nodes on the path of a file\<close>

definition directory_chain :: "string \<Rightarrow> vanished_file \<Rightarrow> string list" where
  "directory_chain source v =
     (case v of (_, path, branch) \<Rightarrow>
       (let parts = filter (\<lambda>p. p \<noteq> [])
              (butlast (split_char (CHR ''/'') (replace_char (CHR 0x5C) (CHR ''/'') path)))
        in map (\<lambda>depth. ''directory:'' @ source @ '':'' @ join_with ''/'' (take depth parts) @
             '':branch='' @ str_or branch ''none'') [1..<length parts + 1]))"

definition present :: "graph \<Rightarrow> vanished_file list \<Rightarrow> vanished_file list" where
  "present g vanished = filter (\<lambda>(n, _, _). has_node g n) vanished"

definition first_removals :: "graph \<Rightarrow> vanished_file list \<Rightarrow> string list" where
  "first_removals g vanished =
     concat (map (\<lambda>(n, _, _). n # filter (owned_by g n) (out_targets g n)) (present g vanished))"

definition shared_targets :: "graph \<Rightarrow> vanished_file list \<Rightarrow> string list" where
  "shared_targets g vanished =
     concat (map (\<lambda>(n, _, _). filter (\<lambda>t. \<not> owned_by g n t \<and> shared_node g t) (out_targets g n))
       (present g vanished))"

definition slashes :: "string \<Rightarrow> int" where
  "slashes s = int (count_list s (CHR ''/''))"

definition directories :: "graph \<Rightarrow> string \<Rightarrow> vanished_file list \<Rightarrow> string list" where
  "directories g source vanished =
     sort_key (\<lambda>d. - slashes d)
       (dict_fromkeys (concat (map (directory_chain source) (present g vanished))))"

fun sweep :: "graph \<Rightarrow> string list \<Rightarrow> string list \<Rightarrow> string list" where
  "sweep g [] remove = remove"
| "sweep g (d # ds) remove =
     sweep g ds
       (if has_node g d \<and> list_all (\<lambda>t. t \<in> set remove) (out_targets g d)
        then List.insert d remove else remove)"

definition vanishing :: "graph \<Rightarrow> string \<Rightarrow> vanished_file list \<Rightarrow> string list" where
  "vanishing g source vanished =
     sweep g (directories g source vanished) (dict_fromkeys (first_removals g vanished))"

definition remove_vanished_artifacts ::
    "graph \<Rightarrow> string \<Rightarrow> vanished_file list \<Rightarrow> string list \<times> graph" where
  "remove_vanished_artifacts g source vanished =
     (let remove = vanishing g source vanished
      in (filter (\<lambda>n. n \<notin> set remove) (dict_fromkeys (shared_targets g vanished)),
          if remove \<noteq> [] then remove_nodes_from remove g else g))"

section \<open>Removals of the builder\<close>

definition remove_source_nodes :: "string \<Rightarrow> string \<Rightarrow> graph \<Rightarrow> graph" where
  "remove_source_nodes kb source g =
     remove_nodes_from
       (map fst (filter (\<lambda>(n, a). attr_get a ''source_id'' = Some (PText source) \<or>
          n = ''source:'' @ kb @ '':'' @ source) (g_nodes g))) g"

definition truthy :: "pyval option \<Rightarrow> string option" where
  "truthy v = (case v of None \<Rightarrow> None | Some x \<Rightarrow> if py_str x = [] then None else Some (py_str x))"

definition orphan_hubs :: "graph \<Rightarrow> string list" where
  "orphan_hubs g =
     (let active = concat (map (\<lambda>(_, a). if has_type a ''source''
              then (case truthy (attr_get a ''source_type'') of None \<Rightarrow> [] | Some t \<Rightarrow> [t]) else [])
            (g_nodes g))
      in map fst (filter (\<lambda>(_, a). has_type a ''source_type'' \<and>
           (case truthy (attr_get a ''source_type'') of None \<Rightarrow> True | Some t \<Rightarrow> t \<notin> set active))
           (g_nodes g)))"

definition prune_orphan_source_type_hubs :: "graph \<Rightarrow> nat \<times> graph" where
  "prune_orphan_source_type_hubs g =
     (length (orphan_hubs g), remove_nodes_from (orphan_hubs g) g)"

definition remove_source_content :: "string \<Rightarrow> string \<Rightarrow> graph \<Rightarrow> graph" where
  "remove_source_content kb source g =
     snd (prune_orphan_source_type_hubs (remove_source_nodes kb source g))"

definition remove_artifact_nodes :: "string list \<Rightarrow> graph \<Rightarrow> graph" where
  "remove_artifact_nodes ids g =
     (if ids = [] then g
      else remove_nodes_from
        (map fst (filter (\<lambda>(n, a). n \<in> set ids \<or>
           (case attr_get a ''artifact_id'' of Some (PText i) \<Rightarrow> i \<in> set ids | _ \<Rightarrow> False))
           (g_nodes g))) g)"

section \<open>The step of a sync\<close>

record artifact_row =
  ar_id :: string
  ar_source :: string
  ar_path :: string
  ar_branch :: "string option"
  ar_sha :: string
  ar_status :: string

text \<open>The tables keyed by artifact, each row with its artifact and the rest of its columns\<close>

record 'c kb_state =
  st_artifacts :: "artifact_row list"
  st_chunks_fts :: "(string \<times> 'c) list"
  st_chunks :: "(string \<times> 'c) list"
  st_symbols :: "(string \<times> 'c) list"
  st_terms :: "(string \<times> 'c) list"

definition drop_rows :: "string list \<Rightarrow> (string \<times> 'c) list \<Rightarrow> (string \<times> 'c) list" where
  "drop_rows ids t = filter (\<lambda>(i, _). i \<notin> set ids) t"

definition delete_artifacts :: "string list \<Rightarrow> 'c kb_state \<Rightarrow> nat \<times> 'c kb_state" where
  "delete_artifacts artifact_ids st =
     (let ids = filter (\<lambda>i. i \<noteq> []) artifact_ids
      in if ids = [] then (0, st)
         else (length (filter (\<lambda>r. ar_id r \<in> set ids) (st_artifacts st)),
           st\<lparr>st_chunks_fts := drop_rows ids (st_chunks_fts st),
              st_chunks := drop_rows ids (st_chunks st),
              st_symbols := drop_rows ids (st_symbols st),
              st_terms := drop_rows ids (st_terms st),
              st_artifacts := filter (\<lambda>r. ar_id r \<notin> set ids) (st_artifacts st)\<rparr>))"

definition DELETE_BATCH :: nat where "DELETE_BATCH = 500"

text \<open>\<open>range(0, len(ids), DELETE_BATCH)\<close> and its slices\<close>

function slices :: "nat \<Rightarrow> 'a list \<Rightarrow> 'a list list" where
  "slices n [] = []"
| "slices n (x # xs) =
     (if n = 0 then [x # xs] else take n (x # xs) # slices n (drop n (x # xs)))"
  by pat_completeness auto
termination by (relation "measure (\<lambda>(n, xs). length xs)") auto

definition prune_vanished ::
    "bool \<Rightarrow> string \<Rightarrow> string list \<Rightarrow> (string \<times> 'e) list \<Rightarrow> 'c kb_state \<Rightarrow> graph \<Rightarrow>
     nat \<times> (string \<times> 'e) list \<times> 'c kb_state \<times> graph" where
  "prune_vanished complete_listing source listed manifest st g =
     (let gone = sort (filter (\<lambda>p. p \<notin> set listed) (map fst manifest))
      in if \<not> complete_listing then (0, manifest, st, g)
         else if gone = [] then (0, manifest, st, g)
         else if listed = [] then (0, manifest, st, g)
         else
           (let vanished = map (\<lambda>r. (ar_id r, ar_path r, ar_branch r))
                  (filter (\<lambda>r. ar_source r = source \<and> ar_path r \<in> set gone) (st_artifacts st));
                ids = map fst vanished
            in (length ids,
                fold AList.delete gone manifest,
                fold (\<lambda>batch st. snd (delete_artifacts batch st)) (slices DELETE_BATCH ids) st,
                snd (remove_vanished_artifacts g source vanished))))"

section \<open>What the out-edges say\<close>

lemma out_edges_mem:
  assumes "graph_ok g"
  shows "(s, t, es) \<in> set (out_edges g n) \<longleftrightarrow> s = n \<and> es = edges_of g (n, t) \<and> es \<noteq> []"
proof -
  have "t \<in> set (targets_in (g_out g) n) \<longleftrightarrow> edges_of g (n, t) \<noteq> []" for t
    using assms by (simp add: graph_ok_def adjacency_ok_def neighbors_def)
  then show ?thesis
    by (cases "map_of (g_out g) n") (auto simp: out_edges_def targets_in_def)
qed

lemma map_snd3_mem: "t \<in> set (map (\<lambda>(_, t, _). t) xs) \<longleftrightarrow> (\<exists>s es. (s, t, es) \<in> set xs)"
  by (induction xs) auto

lemma out_targets_set: "graph_ok g \<Longrightarrow> set (out_targets g n) = {t. edges_of g (n, t) \<noteq> []}"
proof -
  assume ok: "graph_ok g"
  have "t \<in> set (out_targets g n) \<longleftrightarrow> (\<exists>s es. (s, t, es) \<in> set (out_edges g n))" for t
    unfolding out_targets_def by (rule map_snd3_mem)
  then show ?thesis by (auto simp: out_edges_mem[OF ok])
qed

section \<open>Directories left empty\<close>

lemma sweep_sets:
  "set remove \<subseteq> set (sweep g ds remove)" "set (sweep g ds remove) \<subseteq> set remove \<union> set ds"
proof (induction ds arbitrary: remove)
  case (Cons d ds)
  {
    case 1
    show ?case using Cons.IH(1)[of "if has_node g d \<and> list_all (\<lambda>t. t \<in> set remove) (out_targets g d)
        then List.insert d remove else remove"] by (auto split: if_splits)
  next
    case 2
    show ?case using Cons.IH(2)[of "if has_node g d \<and> list_all (\<lambda>t. t \<in> set remove) (out_targets g d)
        then List.insert d remove else remove"] by (auto split: if_splits)
  }
qed simp_all

lemma sweep_exact:
  assumes "sorted_wrt (\<lambda>a b. depth b \<le> (depth a :: int)) ds" and "distinct ds"
    and "\<forall>d \<in> set ds. \<forall>c \<in> set (out_targets g d). c \<in> set ds \<longrightarrow> depth d < depth c"
    and "d \<in> set ds" and "d \<notin> set remove"
  shows "d \<in> set (sweep g ds remove) \<longleftrightarrow>
    has_node g d \<and> set (out_targets g d) \<subseteq> set (sweep g ds remove)"
  using assms
proof (induction ds arbitrary: remove)
  case (Cons x ds)
  let ?r = "if has_node g x \<and> list_all (\<lambda>t. t \<in> set remove) (out_targets g x)
        then List.insert x remove else remove"
  have sub: "set (sweep g ds ?r) \<subseteq> set ?r \<union> set ds" "set ?r \<subseteq> set (sweep g ds ?r)"
    by (rule sweep_sets)+
  show ?case
  proof (cases "d = x")
    case True
    have fresh: "c \<notin> set (x # ds)" if "c \<in> set (out_targets g x)" for c
    proof
      assume c: "c \<in> set (x # ds)"
      then have "depth x < depth c" using Cons.prems(3) that by simp
      moreover have "depth c \<le> depth x" using Cons.prems(1) c by auto
      ultimately show False by simp
    qed
    have "x \<in> set (sweep g ds ?r) \<longleftrightarrow> x \<in> set ?r"
      using sub Cons.prems(2) by auto
    moreover have "set (out_targets g x) \<subseteq> set (sweep g ds ?r) \<longleftrightarrow> set (out_targets g x) \<subseteq> set remove"
    proof
      assume "set (out_targets g x) \<subseteq> set (sweep g ds ?r)"
      then show "set (out_targets g x) \<subseteq> set remove"
      proof (intro subsetI)
        fix c assume c: "c \<in> set (out_targets g x)"
        then have "c \<in> set ?r \<union> set ds"
          using \<open>set (out_targets g x) \<subseteq> set (sweep g ds ?r)\<close> sub(1) by blast
        then show "c \<in> set remove" using fresh[OF c] by (auto split: if_splits)
      qed
    next
      assume "set (out_targets g x) \<subseteq> set remove"
      then show "set (out_targets g x) \<subseteq> set (sweep g ds ?r)" using sub(2) by (auto split: if_splits)
    qed
    ultimately show ?thesis using True Cons.prems(5) by (auto simp: list_all_iff)
  next
    case False
    then have "d \<in> set ds" "d \<notin> set ?r" using Cons.prems(4,5) by auto
    then show ?thesis using Cons.IH[of ?r] Cons.prems(1-3) by simp
  qed
qed simp

lemma directories_sorted:
  "sorted_wrt (\<lambda>a b. slashes b \<le> slashes a) (directories g source vanished)"
  "distinct (directories g source vanished)"
proof -
  have "sorted (map (\<lambda>d. - slashes d) (directories g source vanished))"
    by (simp add: directories_def)
  then show "sorted_wrt (\<lambda>a b. slashes b \<le> slashes a) (directories g source vanished)"
    by (simp add: sorted_map)
  show "distinct (directories g source vanished)" by (simp add: directories_def)
qed

lemma vanishing_contents:
  "set (vanishing g source vanished) \<subseteq> set (first_removals g vanished) \<union> set (directories g source vanished)"
  "set (first_removals g vanished) \<subseteq> set (vanishing g source vanished)"
  using sweep_sets[where g = g and remove = "dict_fromkeys (first_removals g vanished)"
      and ds = "directories g source vanished"]
  by (simp_all add: vanishing_def)


definition demo_tree :: graph where
  "demo_tree =
     fold apply_op
       [AddNode ''directory:s:d:branch=none'' [], AddNode ''f'' [],
        AddNode ''c'' [(''type'', PText ''chunk'')], AddEdge ''directory:s:d:branch=none'' ''f'' [],
        AddEdge ''f'' ''c'' []] empty_graph"


section \<open>What an edit retracts\<close>

lemma remove_where_reads:
  "edges_of (fst (remove_edges_where s t q g)) p =
     (if p = (s, t) then filter (\<lambda>a. \<not> q a) (edges_of g p) else edges_of g p)"
  "g_nodes (fst (remove_edges_where s t q g)) = g_nodes g"
proof -
  let ?kept = "filter (\<lambda>a. \<not> q a) (edges_of g (s, t))"
  show "g_nodes (fst (remove_edges_where s t q g)) = g_nodes g"
    by (simp add: remove_edges_where_def Let_def)
  show "edges_of (fst (remove_edges_where s t q g)) p =
     (if p = (s, t) then filter (\<lambda>a. \<not> q a) (edges_of g p) else edges_of g p)"
  proof (cases "edges_of g (s, t) = [] \<or> ?kept = edges_of g (s, t)")
    case True
    then have "fst (remove_edges_where s t q g) = g" by (auto simp: remove_edges_where_def Let_def)
    then show ?thesis using True by auto
  next
    case False
    then have "length ?kept < length (edges_of g (s, t))" by (metis filter_id_conv length_filter_less)
    then have "g_edges (fst (remove_edges_where s t q g)) =
        (if ?kept \<noteq> [] then AList.update (s, t) ?kept (g_edges g) else AList.delete (s, t) (g_edges g))"
      using False by (simp add: remove_edges_where_def Let_def)
    then show ?thesis
      by (cases "?kept = []") (simp_all add: edges_of_def update_conv' delete_conv')
  qed
qed

lemma detach_reads:
  "edges_of (fold (detach artifact en) ts g) (s, t) =
     (if s = artifact \<and> t \<in> set ts
      then filter (\<lambda>a. \<not> stale_edge artifact en t a) (edges_of g (s, t)) else edges_of g (s, t))"
  "g_nodes (fold (detach artifact en) ts g) = g_nodes g"
proof (induction ts arbitrary: g)
  case (Cons x ts)
  {
    case 1
    show ?case
      using Cons.IH(1)[of "detach artifact en x g"]
      by (auto simp: detach_def remove_where_reads)
  next
    case 2
    show ?case using Cons.IH(2)[of "detach artifact en x g"] by (simp add: detach_def remove_where_reads)
  }
qed simp_all

text \<open>
  An incremental re-index retracts exactly what the new text no longer implies. Of the
  artifact's own edges the stale ones go, by type and never by pair, and every other edge of it
  stays, in order; no edge of another node changes; and the nodes removed are symbols this
  artifact owns that its text no longer defines.
\<close>

theorem retraction_is_exact:
  assumes "graph_ok g" and "has_node g artifact"
  shows "\<exists>owned. (\<forall>n \<in> owned. owned_symbol g artifact n \<and>
      n \<notin> set (map fst (filter (\<lambda>(_, ty, _). ty = ''symbol'') (en_nodes en)))) \<and>
    (\<forall>s t. edges_of (snd (retract_stale_enrichment g artifact en)) (s, t) =
      (if s \<in> owned \<or> t \<in> owned then []
       else if s = artifact then filter (\<lambda>a. \<not> stale_edge artifact en t a) (edges_of g (s, t))
       else edges_of g (s, t))) \<and>
    (\<forall>n. has_node (snd (retract_stale_enrichment g artifact en)) n \<longleftrightarrow> has_node g n \<and> n \<notin> owned)"
proof -
  define det where "det = map (\<lambda>(_, t, _). t)
    (filter (\<lambda>(_, t, es). list_ex (stale_edge artifact en t) es) (out_edges g artifact))"
  define g1 where "g1 = fold (detach artifact en) det g"
  define owned where "owned = filter (\<lambda>t. owned_symbol g1 artifact t \<and>
    t \<notin> set (map fst (filter (\<lambda>(_, ty, _). ty = ''symbol'') (en_nodes en)))) det"
  have det: "t \<in> set det \<longleftrightarrow> (\<exists>a \<in> set (edges_of g (artifact, t)). stale_edge artifact en t a)" for t
  proof -
    have "t \<in> set det \<longleftrightarrow> (\<exists>s es. (s, t, es) \<in> set (out_edges g artifact) \<and>
        list_ex (stale_edge artifact en t) es)" unfolding det_def map_snd3_mem by simp
    then show ?thesis by (auto simp: out_edges_mem[OF assms(1)] list_ex_iff)
  qed
  have e1: "edges_of g1 (s, t) = (if s = artifact
      then filter (\<lambda>a. \<not> stale_edge artifact en t a) (edges_of g (s, t)) else edges_of g (s, t))" for s t
  proof (cases "t \<in> set det")
    case False
    then have "s = artifact \<Longrightarrow>
        filter (\<lambda>a. \<not> stale_edge artifact en t a) (edges_of g (s, t)) = edges_of g (s, t)"
      using det[of t] by (auto simp: filter_id_conv)
    then show ?thesis using False by (simp add: g1_def detach_reads)
  qed (simp add: g1_def detach_reads)
  have o: "owned_symbol g1 artifact n = owned_symbol g artifact n" for n
    by (simp add: g1_def owned_symbol_def node_attr_def detach_reads(2))
  have h: "has_node g1 n = has_node g n" for n by (simp add: g1_def has_node_def detach_reads(2))
  have r: "snd (retract_stale_enrichment g artifact en) =
      (if owned = [] then g1 else remove_nodes_from owned g1)"
  proof -
    have "det = [] \<Longrightarrow> owned = []" by (simp add: owned_def)
    then show ?thesis
      unfolding retract_stale_enrichment_def Let_def det_def[symmetric] g1_def[symmetric]
        owned_def[symmetric] using assms(2) by simp
  qed
  have edges: "edges_of (snd (retract_stale_enrichment g artifact en)) (s, t) =
      (if s \<in> set owned \<or> t \<in> set owned then []
       else if s = artifact then filter (\<lambda>a. \<not> stale_edge artifact en t a) (edges_of g (s, t))
       else edges_of g (s, t))" for s t
    using e1[of s t] by (cases "owned = []") (simp_all add: r remove_nodes_reads touches_def)
  have nodes: "has_node (snd (retract_stale_enrichment g artifact en)) n \<longleftrightarrow>
      has_node g n \<and> n \<notin> set owned" for n
    using h[of n] by (cases "owned = []") (simp_all add: r has_node_def remove_nodes_reads)
  have own: "\<forall>n \<in> set owned. owned_symbol g artifact n \<and>
      n \<notin> set (map fst (filter (\<lambda>(_, ty, _). ty = ''symbol'') (en_nodes en)))"
    unfolding owned_def o by simp
  show ?thesis
    by (rule exI[of _ "set owned"], intro conjI allI) (fact own edges nodes)+
qed

theorem retraction_is_exact_witness:
  "\<exists>owned. \<forall>n. has_node (snd (retract_stale_enrichment demo_tree ''f''
      \<lparr>en_nodes = [], en_edges = []\<rparr>)) n \<longleftrightarrow> has_node demo_tree n \<and> n \<notin> owned"
proof -
  have ok: "graph_ok demo_tree"
    unfolding demo_tree_def by (rule apply_ops_ok) (rule graph_ok_empty)
  have "has_node demo_tree ''f''" by code_simp
  from retraction_is_exact[OF ok this, of "\<lparr>en_nodes = [], en_edges = []\<rparr>"] show ?thesis by blast
qed

section \<open>What a listing prunes\<close>

lemma concat_slices [simp]: "0 < n \<Longrightarrow> concat (slices n xs) = xs"
  by (induction n xs rule: slices.induct) auto

lemma delete_artifacts_rows:
  "st_artifacts (snd (delete_artifacts ids st)) =
     filter (\<lambda>r. ar_id r \<notin> set (filter (\<lambda>i. i \<noteq> []) ids)) (st_artifacts st)"
  "st_chunks (snd (delete_artifacts ids st)) = drop_rows (filter (\<lambda>i. i \<noteq> []) ids) (st_chunks st)"
  "st_chunks_fts (snd (delete_artifacts ids st)) =
     drop_rows (filter (\<lambda>i. i \<noteq> []) ids) (st_chunks_fts st)"
  "st_symbols (snd (delete_artifacts ids st)) = drop_rows (filter (\<lambda>i. i \<noteq> []) ids) (st_symbols st)"
  "st_terms (snd (delete_artifacts ids st)) = drop_rows (filter (\<lambda>i. i \<noteq> []) ids) (st_terms st)"
  by (auto simp: delete_artifacts_def Let_def drop_rows_def filter_id_conv filter_empty_conv)

lemma delete_batches:
  defines "run \<equiv> \<lambda>batches st. fold (\<lambda>batch st. snd (delete_artifacts batch st)) batches st"
  assumes "[] \<notin> set (concat batches)"
  shows "st_artifacts (run batches st) =
      filter (\<lambda>r. ar_id r \<notin> set (concat batches)) (st_artifacts st)"
    and "st_chunks (run batches st) = drop_rows (concat batches) (st_chunks st)"
    and "st_chunks_fts (run batches st) = drop_rows (concat batches) (st_chunks_fts st)"
    and "st_symbols (run batches st) = drop_rows (concat batches) (st_symbols st)"
    and "st_terms (run batches st) = drop_rows (concat batches) (st_terms st)"
  using assms(2) unfolding run_def
  by (induction batches arbitrary: st)
    (auto simp: delete_artifacts_rows drop_rows_def intro!: filter_cong)

lemma delete_keys: "map_of (fold AList.delete ks m) k = (if k \<in> set ks then None else map_of m k)"
  by (induction ks arbitrary: m) (auto simp: delete_conv' restrict_map_def)

text \<open>
  Deletion by listing is exact, and refuses an empty listing. From an incomplete or an
  empty listing nothing is removed at all. From a complete one, the manifest loses exactly the
  paths the listing lacks, the state loses exactly the artifacts of this source at those paths
  with their chunks, full-text rows, symbols and terms, and the number returned is how many.
\<close>

theorem prune_removes_exactly_the_gone:
  fixes complete_listing :: bool and source :: string and listed :: "string list"
    and manifest :: "(string \<times> 'e) list" and st :: "'c kb_state" and g :: graph
  assumes "\<forall>r \<in> set (st_artifacts st). ar_id r \<noteq> []"
  defines "out \<equiv> prune_vanished complete_listing source listed manifest st g"
  defines "gone \<equiv> \<lambda>r. complete_listing \<and> listed \<noteq> [] \<and> ar_source r = source \<and>
    ar_path r \<notin> set listed \<and> map_of manifest (ar_path r) \<noteq> None"
  shows "fst out = length (filter gone (st_artifacts st)) \<and>
    (\<forall>path. map_of (fst (snd out)) path =
      (if complete_listing \<and> listed \<noteq> [] \<and> path \<notin> set listed then None else map_of manifest path)) \<and>
    (let st' = fst (snd (snd out)); ids = map ar_id (filter gone (st_artifacts st))
     in st_artifacts st' = filter (\<lambda>r. ar_id r \<notin> set ids) (st_artifacts st) \<and>
        st_chunks st' = drop_rows ids (st_chunks st) \<and>
        st_chunks_fts st' = drop_rows ids (st_chunks_fts st) \<and>
        st_symbols st' = drop_rows ids (st_symbols st) \<and> st_terms st' = drop_rows ids (st_terms st)) \<and>
    (\<not> complete_listing \<or> listed = [] \<longrightarrow> snd (snd (snd out)) = g)"
proof -
  let ?paths = "sort (filter (\<lambda>p. p \<notin> set listed) (map fst manifest))"
  have path: "p \<in> set ?paths \<longleftrightarrow> p \<notin> set listed \<and> map_of manifest p \<noteq> None" for p
    by (auto simp: map_of_eq_None_iff)
  show ?thesis
  proof (cases "complete_listing \<and> listed \<noteq> []")
    case False
    then have "out = (0, manifest, st, g)" by (auto simp: out_def prune_vanished_def Let_def)
    then show ?thesis using False by (auto simp: gone_def Let_def drop_rows_def)
  next
    case True
    have g: "gone = (\<lambda>r. ar_source r = source \<and> ar_path r \<in> set ?paths)"
      unfolding gone_def path using True by auto
    show ?thesis
    proof (cases "?paths = []")
      case none: True
      then have "out = (0, manifest, st, g)" by (simp add: out_def prune_vanished_def Let_def)
      moreover have "p \<in> set listed \<or> map_of manifest p = None" for p using path[of p] none by simp
      ultimately show ?thesis using True by (auto simp: g none Let_def drop_rows_def)
    next
      case some: False
      define ids where "ids = map ar_id (filter gone (st_artifacts st))"
      have ids: "map fst (map (\<lambda>r. (ar_id r, ar_path r, ar_branch r)) (filter gone (st_artifacts st))) = ids"
        by (simp add: ids_def comp_def)
      have o: "fst out = length ids" "fst (snd out) = fold AList.delete ?paths manifest"
        "fst (snd (snd out)) =
          fold (\<lambda>batch st. snd (delete_artifacts batch st)) (slices DELETE_BATCH ids) st"
        unfolding out_def prune_vanished_def Let_def
        using True some by (simp_all only: g[symmetric] ids simp_thms if_False fst_conv snd_conv)
      have c: "concat (slices DELETE_BATCH ids) = ids" by (simp add: DELETE_BATCH_def)
      have ne: "[] \<notin> set (concat (slices DELETE_BATCH ids))"
        unfolding c using assms(1) by (auto simp: ids_def)
      note rows = delete_batches[OF ne, of st, unfolded c]
      have manifest: "map_of (fst (snd out)) p =
          (if complete_listing \<and> listed \<noteq> [] \<and> p \<notin> set listed then None else map_of manifest p)" for p
        unfolding o delete_keys path using True by auto
      then show ?thesis using True rows o by (simp add: ids_def Let_def)
    qed
  qed
qed

definition demo_state :: "string kb_state" where
  "demo_state =
     \<lparr>st_artifacts = [\<lparr>ar_id = ''i'', ar_source = ''s'', ar_path = ''x'', ar_branch = None,
          ar_sha = ''aa'', ar_status = ''indexed''\<rparr>,
        \<lparr>ar_id = ''j'', ar_source = ''s'', ar_path = ''y'', ar_branch = None,
          ar_sha = ''bb'', ar_status = ''indexed''\<rparr>],
      st_chunks_fts = [(''j'', ''text'')], st_chunks = [(''i'', ''1''), (''j'', ''2'')],
      st_symbols = [], st_terms = []\<rparr>"

theorem prune_removes_exactly_the_gone_witness:
  "fst (prune_vanished True ''s'' [''x''] [(''x'', ()), (''y'', ())] demo_state empty_graph) = 1 \<and>
   st_chunks (fst (snd (snd (prune_vanished True ''s'' [''x''] [(''x'', ()), (''y'', ())] demo_state
     empty_graph)))) = [(''i'', ''1'')]"
  using prune_removes_exactly_the_gone[of demo_state True "''s''" "[''x'']" "[(''x'', ()), (''y'', ())]"
      empty_graph]
  by (auto simp: demo_state_def drop_rows_def Let_def)

end
