(* ===== verification/PyText.thy ===== *)
theory PyText
  imports Prelude
begin

text \<open>
  Python's text operations the components share, on ASCII text: \<open>strip\<close>, \<open>lower\<close>, substring test,
  and SQLite's \<open>LIKE\<close> without an escape character.
\<close>

definition is_space :: "char \<Rightarrow> bool" where
  "is_space c \<longleftrightarrow> c \<in> set [CHR '' '', CHR 0x09, CHR 0x0A, CHR 0x0B, CHR 0x0C, CHR 0x0D,
     CHR 0x1C, CHR 0x1D, CHR 0x1E, CHR 0x1F]"

definition lstrip :: "string \<Rightarrow> string" where "lstrip s = dropWhile is_space s"

definition py_strip :: "string \<Rightarrow> string" where
  "py_strip s = rev (lstrip (rev (lstrip s)))"

definition lower_char :: "char \<Rightarrow> char" where
  "lower_char c = (let n = (of_char c :: nat)
     in if 65 \<le> n \<and> n \<le> 90 then char_of (n + 32) else c)"

definition py_lower :: "string \<Rightarrow> string" where "py_lower s = map lower_char s"

text \<open>\<open>needle in text\<close>\<close>

fun contains :: "string \<Rightarrow> string \<Rightarrow> bool" where
  "contains needle [] \<longleftrightarrow> needle = []"
| "contains needle (c # cs) \<longleftrightarrow> prefix needle (c # cs) \<or> contains needle cs"

fun starts_with :: "string \<Rightarrow> string \<Rightarrow> bool" where
  "starts_with [] s \<longleftrightarrow> True"
| "starts_with (p # ps) [] \<longleftrightarrow> False"
| "starts_with (p # ps) (c # cs) \<longleftrightarrow> p = c \<and> starts_with ps cs"

lemma starts_with_prefix [simp]: "starts_with p s \<longleftrightarrow> prefix p s"
  by (induction p s rule: starts_with.induct) auto

fun like :: "string \<Rightarrow> string \<Rightarrow> bool" where
  "like [] [] \<longleftrightarrow> True"
| "like [] (t # ts) \<longleftrightarrow> False"
| "like (c # p) [] \<longleftrightarrow> c = CHR ''%'' \<and> like p []"
| "like (c # p) (t # ts) \<longleftrightarrow>
     (if c = CHR ''%'' then like p (t # ts) \<or> like (c # p) ts
      else (c = CHR ''_'' \<or> c = t) \<and> like p ts)"

definition plain :: "string \<Rightarrow> bool" where
  "plain s \<longleftrightarrow> CHR ''%'' \<notin> set s \<and> CHR ''_'' \<notin> set s"

lemma like_any [simp]: "like [CHR ''%''] s"
  by (induction s) auto

lemma like_prefix: "plain n \<Longrightarrow> like (n @ [CHR ''%'']) s \<longleftrightarrow> prefix n s"
proof (induction n arbitrary: s)
  case (Cons c n)
  then show ?case by (cases s) (auto simp: plain_def)
qed simp

lemma like_contains: "plain n \<Longrightarrow> like (CHR ''%'' # n @ [CHR ''%'']) s \<longleftrightarrow> contains n s"
proof (induction s)
  case Nil
  then show ?case using like_prefix[of n "[]"] by simp
next
  case (Cons c cs)
  then show ?case using like_prefix[of n "c # cs"] by simp
qed

lemma contains_Nil [simp]: "contains [] s" by (cases s) auto

lemma lower_char_idem [simp]: "lower_char (lower_char c) = lower_char c"
proof (cases "65 \<le> (of_char c :: nat) \<and> (of_char c :: nat) \<le> 90")
  case True
  then have "of_char (char_of (of_char c + 32 :: nat) :: char) = (of_char c + 32 :: nat)"
    by simp
  then show ?thesis using True by (simp add: lower_char_def)
qed (auto simp: lower_char_def Let_def)

lemma py_lower_idem [simp]: "py_lower (py_lower s) = py_lower s"
  by (simp add: py_lower_def)


section \<open>Lines, slices and searches\<close>

text \<open>\<open>s.splitlines()\<close>: a line ends at any of these characters, a carriage return may take the
  newline after it along, and a text that ends in a break has no empty last line.\<close>

definition is_break :: "char \<Rightarrow> bool" where
  "is_break c \<longleftrightarrow> c \<in> set [CHR 0x0A, CHR 0x0B, CHR 0x0C, CHR 0x0D, CHR 0x1C, CHR 0x1D, CHR 0x1E]"

fun lines_from :: "string \<Rightarrow> string \<Rightarrow> string list" where
  "lines_from acc [] = (if acc = [] then [] else [rev acc])"
| "lines_from acc [c] = (if is_break c then [rev acc] else [rev (c # acc)])"
| "lines_from acc (c # d # cs) =
     (if c = CHR 0x0D \<and> d = CHR 0x0A then rev acc # lines_from [] cs
      else if is_break c then rev acc # lines_from [] (d # cs)
      else lines_from (c # acc) (d # cs))"

definition py_splitlines :: "string \<Rightarrow> string list" where
  "py_splitlines s = lines_from [] s"

text \<open>A negative index counts from the end; an index outside the text is clipped.\<close>

definition norm_index :: "int \<Rightarrow> 'a list \<Rightarrow> nat" where
  "norm_index i xs = nat (min (int (length xs)) (if i < 0 then max 0 (i + int (length xs)) else i))"

definition py_slice :: "'a list \<Rightarrow> int \<Rightarrow> int \<Rightarrow> 'a list" where
  "py_slice xs i j = (let a = norm_index i xs; b = norm_index j xs in take (b - a) (drop a xs))"

text \<open>\<open>s.rfind(needle, i, j)\<close> and \<open>s.find(needle, i, j)\<close>: the last and the first position at which
  the needle lies within the bounds, or -1.\<close>

definition occurs_at :: "string \<Rightarrow> string \<Rightarrow> nat \<Rightarrow> nat \<Rightarrow> bool" where
  "occurs_at needle s b p \<longleftrightarrow> p + length needle \<le> b \<and> starts_with needle (drop p s)"

definition found_at :: "nat option \<Rightarrow> int" where
  "found_at r = (case r of None \<Rightarrow> -1 | Some p \<Rightarrow> int p)"

definition py_rfind :: "string \<Rightarrow> string \<Rightarrow> int \<Rightarrow> int \<Rightarrow> int" where
  "py_rfind needle s i j = found_at (List.find (occurs_at needle s (norm_index j s))
     (rev [norm_index i s..<Suc (norm_index j s)]))"

definition py_find :: "string \<Rightarrow> string \<Rightarrow> int \<Rightarrow> int \<Rightarrow> int" where
  "py_find needle s i j = found_at (List.find (occurs_at needle s (norm_index j s))
     [norm_index i s..<Suc (norm_index j s)])"

text \<open>\<open>bisect_right(xs, x)\<close> for a sorted list.\<close>

definition bisect_right :: "int list \<Rightarrow> int \<Rightarrow> nat" where
  "bisect_right xs x = length (takeWhile (\<lambda>y. y \<le> x) xs)"

text \<open>\<open>n or d\<close> for a count.\<close>

definition count_or :: "nat \<Rightarrow> nat \<Rightarrow> nat" where
  "count_or n d = (if n = 0 then d else n)"

lemma norm_index_in: "0 \<le> i \<Longrightarrow> i \<le> int (length xs) \<Longrightarrow> norm_index i xs = nat i"
  by (simp add: norm_index_def)

lemma py_slice_in:
  "0 \<le> i \<Longrightarrow> i \<le> j \<Longrightarrow> j \<le> int (length xs) \<Longrightarrow> py_slice xs i j = take (nat (j - i)) (drop (nat i) xs)"
  by (simp add: py_slice_def Let_def norm_index_in nat_diff_distrib)

lemma find_Some: "List.find P xs = Some x \<Longrightarrow> x \<in> set xs \<and> P x"
  by (induction xs) (auto split: if_splits)

lemma py_rfind_found:
  assumes "py_rfind needle s i j = p" and "p \<noteq> -1"
  shows "int (norm_index i s) \<le> p \<and> p + int (length needle) \<le> int (norm_index j s)"
  using assms by (auto simp: py_rfind_def found_at_def occurs_at_def split: option.splits dest!: find_Some)

lemma py_find_found:
  assumes "py_find needle s i j = p" and "p \<noteq> -1"
  shows "int (norm_index i s) \<le> p \<and> p + int (length needle) \<le> int (norm_index j s)"
  using assms by (auto simp: py_find_def found_at_def occurs_at_def split: option.splits dest!: find_Some)

lemma py_strip_length: "length (py_strip s) \<le> length s"
  unfolding py_strip_def lstrip_def by (metis length_dropWhile_le length_rev order_trans)

lemma py_strip_empty: "py_strip s = [] \<longleftrightarrow> list_all is_space s"
proof -
  have "dropWhile is_space (rev (dropWhile is_space s)) = [] \<longleftrightarrow> (\<forall>c \<in> set (dropWhile is_space s). is_space c)"
    by (simp add: dropWhile_eq_Nil_conv)
  also have "\<dots> \<longleftrightarrow> (\<forall>c \<in> set s. is_space c)"
    using set_takeWhileD[of _ is_space s] takeWhile_dropWhile_id[of is_space s]
    by (metis Un_iff set_append)
  finally show ?thesis by (simp add: py_strip_def lstrip_def list_all_iff)
qed


subsection \<open>Lines\<close>

lemma break_cases [simp]: "is_break CHR 0x0A" "is_break CHR 0x0D"
  by (simp_all add: is_break_def)

lemma lines_from_other: "\<not> is_break c \<Longrightarrow> lines_from acc (c # cs) = lines_from (c # acc) cs"
  by (cases cs) auto

lemma lines_from_newline: "lines_from acc (CHR 0x0A # cs) = rev acc # lines_from [] cs"
  by (cases cs) simp_all

lemma lines_from_plain:
  "list_all (\<lambda>c. \<not> is_break c) l \<Longrightarrow> lines_from acc (l @ s) = lines_from (rev l @ acc) s"
  by (induction l arbitrary: acc) (simp_all add: lines_from_other)

lemma list_all_rev [simp]: "list_all P (rev xs) \<longleftrightarrow> list_all P xs"
  by (simp add: list_all_iff)

lemma lines_from_no_breaks:
  "list_all (\<lambda>c. \<not> is_break c) acc \<Longrightarrow>
     list_all (list_all (\<lambda>c. \<not> is_break c)) (lines_from acc s)"
proof (induction acc s rule: lines_from.induct)
  case (3 acc c d cs)
  then show ?case
    by (cases "c = CHR 0x0D \<and> d = CHR 0x0A"; cases "is_break c") (simp_all del: break_cases)
qed (simp_all add: list_all_rev)

lemma splitlines_no_breaks: "l \<in> set (py_splitlines s) \<Longrightarrow> list_all (\<lambda>c. \<not> is_break c) l"
  using lines_from_no_breaks[of "[]" s] by (auto simp: py_splitlines_def list_all_iff)

lemma lines_from_chars: "l \<in> set (lines_from acc s) \<Longrightarrow> set l \<subseteq> set acc \<union> set s"
proof (induction acc s rule: lines_from.induct)
  case (3 acc c d cs)
  then show ?case
    by (cases "c = CHR 0x0D \<and> d = CHR 0x0A"; cases "is_break c") (auto simp del: break_cases)
qed (auto split: if_splits)

lemma splitlines_chars: "l \<in> set (py_splitlines s) \<Longrightarrow> set l \<subseteq> set s"
  using lines_from_chars[of l "[]" s] by (simp add: py_splitlines_def)

lemma splitlines_Nil_iff: "py_splitlines s = [] \<longleftrightarrow> s = []"
proof -
  have "lines_from acc s \<noteq> []" if "s \<noteq> []" for acc
    using that by (induction acc s rule: lines_from.induct) auto
  then show ?thesis by (cases s) (auto simp: py_splitlines_def)
qed

lemma length_splitlines_join:
  assumes "\<And>l. l \<in> set ls \<Longrightarrow> list_all (\<lambda>c. \<not> is_break c) l"
  shows "length (py_splitlines (join_with [CHR 0x0A] ls)) \<le> length ls"
  using assms
proof (induction "[CHR 0x0A]" ls rule: join_with.induct)
  case (2 p)
  then have "lines_from [] p = lines_from (rev p) []" using lines_from_plain[of p "[]" "[]"] by simp
  then show ?case by (simp add: py_splitlines_def)
next
  case (3 p q ps)
  then have "py_splitlines (join_with [CHR 0x0A] (p # q # ps)) =
      p # py_splitlines (join_with [CHR 0x0A] (q # ps))"
    by (simp add: py_splitlines_def lines_from_plain lines_from_newline)
  then show ?case using 3 by simp
qed (simp add: py_splitlines_def)

end
