(* ===== verification/MemoryPolicy.thy ===== *)
theory MemoryPolicy
  imports PyText
begin

text \<open>
  The query-time memory policy, \<open>src/pheasant/memory/policy.py\<close>: the policy and its parsing, the
  validity rule as a list of clauses with an SQL rendering and a Python one, and the index by which
  a search hit finds its memory record. SQL conditions are evaluated in SQL's three truth values,
  None being NULL. Texts are ASCII; \<open>LIKE\<close> is SQLite's.
\<close>

section \<open>The policy\<close>

record policy =
  mode :: string
  scopes :: "string list option"
  subject :: "string option"
  current_only :: bool
  as_of :: "string option"
  max_results :: "int option"
  include_rules :: bool
  tiers :: "string list option"

definition VALID_MODES :: "string list" where
  "VALID_MODES = [''auto'', ''off'', ''only'', ''prefer'']"

definition DEFAULT_MODE :: string where "DEFAULT_MODE = ''auto''"

definition STEERING_KINDS :: "string list" where
  "STEERING_KINDS = [''alias'', ''preference'', ''exclusion'']"

definition default_policy :: policy where
  "default_policy =
     \<lparr>mode = DEFAULT_MODE, scopes = None, subject = None, current_only = True, as_of = None,
      max_results = None, include_rules = False, tiers = None\<rparr>"

definition is_default :: "policy \<Rightarrow> bool" where
  "is_default p \<longleftrightarrow> mode p = DEFAULT_MODE \<and> list_or (scopes p) = [] \<and> str_or (subject p) [] = [] \<and>
     as_of p = None \<and> max_results p = None \<and> tiers p = None"

text \<open>What a caller may give: nothing, a policy, a word, a mapping, or something else.\<close>

datatype one_or_many = One string | Many "string list"

record raw_policy =
  raw_mode :: "string option"
  raw_scopes :: "one_or_many option"
  raw_subject :: "string option"
  raw_current_only :: "bool option"
  raw_as_of :: "string option"
  raw_max_results :: "int option"
  raw_include_rules :: "bool option"
  raw_tiers :: "one_or_many option"

datatype policy_value = NoPolicy | APolicy policy | Word string | AMapping raw_policy | SomethingElse

definition known_mode :: "string \<Rightarrow> string" where
  "known_mode m = (if m \<in> set VALID_MODES then m else DEFAULT_MODE)"

text \<open>A single text becomes a list of it; an empty value is no value.\<close>

definition many :: "one_or_many option \<Rightarrow> string list option" where
  "many v = (case v of None \<Rightarrow> None | Some (One s) \<Rightarrow> Some [s]
             | Some (Many xs) \<Rightarrow> if xs = [] then None else Some xs)"

definition non_empty :: "string option \<Rightarrow> string option" where
  "non_empty v = (case v of None \<Rightarrow> None | Some s \<Rightarrow> if s = [] then None else Some s)"

definition bool_or :: "bool option \<Rightarrow> bool \<Rightarrow> bool" where
  "bool_or v d = (case v of None \<Rightarrow> d | Some b \<Rightarrow> b)"

definition parse_policy :: "policy_value \<Rightarrow> policy" where
  "parse_policy v =
     (case v of
        NoPolicy \<Rightarrow> default_policy
      | APolicy p \<Rightarrow> p
      | Word s \<Rightarrow> default_policy\<lparr>mode := known_mode (py_lower (py_strip s))\<rparr>
      | SomethingElse \<Rightarrow> default_policy
      | AMapping r \<Rightarrow>
          \<lparr>mode = known_mode (py_lower (py_strip (str_or (raw_mode r) DEFAULT_MODE))),
           scopes = many (raw_scopes r), subject = non_empty (raw_subject r),
           current_only = bool_or (raw_current_only r) True, as_of = non_empty (raw_as_of r),
           max_results = raw_max_results r, include_rules = bool_or (raw_include_rules r) False,
           tiers = many (raw_tiers r)\<rparr>)"

definition listed :: "string list option \<Rightarrow> one_or_many option" where
  "listed v = (case v of None \<Rightarrow> None | Some xs \<Rightarrow> if xs = [] then None else Some (Many xs))"

definition as_dict :: "policy \<Rightarrow> raw_policy" where
  "as_dict p =
     \<lparr>raw_mode = Some (mode p), raw_scopes = listed (scopes p), raw_subject = subject p,
      raw_current_only = Some (current_only p), raw_as_of = as_of p,
      raw_max_results = max_results p, raw_include_rules = Some (include_rules p),
      raw_tiers = listed (tiers p)\<rparr>"

definition ALL_TIERS :: "string list" where "ALL_TIERS = [''hot'', ''cold'']"
definition DEFAULT_TIERS :: "string list" where "DEFAULT_TIERS = [''hot'']"

definition allowed_tiers :: "policy \<Rightarrow> string list" where
  "allowed_tiers p =
     (if list_or (tiers p) \<noteq> [] then list_or (tiers p)
      else if str_or (as_of p) [] \<noteq> [] \<or> \<not> current_only p then ALL_TIERS
      else DEFAULT_TIERS)"

definition validity_instant :: "policy \<Rightarrow> string \<Rightarrow> string option" where
  "validity_instant p now =
     (if str_or (as_of p) [] \<noteq> [] then as_of p else if current_only p then Some now else None)"

section \<open>SQL conditions\<close>

datatype column = Record_Id | Scope | Subject | Kind | Valid_From | Valid_Until | Tier

type_synonym row = "column \<Rightarrow> string option"

datatype scalar = Col column | Coalesce scalar string | NullIf scalar string | Lower scalar

datatype cond =
    In scalar "string list"
  | NotIn scalar "string list"
  | Like scalar string
  | Eq scalar string
  | Le scalar string
  | Gt scalar string
  | And cond cond
  | Or cond cond
  | IsNull column
  | IsNotNull column
  | Truth

fun scalar_value :: "row \<Rightarrow> scalar \<Rightarrow> string option" where
  "scalar_value r (Col c) = r c"
| "scalar_value r (Coalesce e d) = (case scalar_value r e of None \<Rightarrow> Some d | Some v \<Rightarrow> Some v)"
| "scalar_value r (NullIf e d) =
     (case scalar_value r e of None \<Rightarrow> None | Some v \<Rightarrow> if v = d then None else Some v)"
| "scalar_value r (Lower e) = map_option py_lower (scalar_value r e)"

fun sql_and :: "bool option \<Rightarrow> bool option \<Rightarrow> bool option" where
  "sql_and (Some False) b = Some False"
| "sql_and (Some True) b = b"
| "sql_and None b = (if b = Some False then Some False else None)"

fun sql_or :: "bool option \<Rightarrow> bool option \<Rightarrow> bool option" where
  "sql_or (Some True) b = Some True"
| "sql_or (Some False) b = b"
| "sql_or None b = (if b = Some True then Some True else None)"

fun sql_value :: "row \<Rightarrow> cond \<Rightarrow> bool option" where
  "sql_value r (In e vs) = map_option (\<lambda>v. v \<in> set vs) (scalar_value r e)"
| "sql_value r (NotIn e vs) = map_option (\<lambda>v. v \<notin> set vs) (scalar_value r e)"
| "sql_value r (Like e pat) = map_option (like pat) (scalar_value r e)"
| "sql_value r (Eq e v) = map_option (\<lambda>x. x = v) (scalar_value r e)"
| "sql_value r (Le e v) = map_option (\<lambda>x. x \<le> v) (scalar_value r e)"
| "sql_value r (Gt e v) = map_option (\<lambda>x. v < x) (scalar_value r e)"
| "sql_value r (And a b) = sql_and (sql_value r a) (sql_value r b)"
| "sql_value r (Or a b) = sql_or (sql_value r a) (sql_value r b)"
| "sql_value r (IsNull c) = Some (r c = None)"
| "sql_value r (IsNotNull c) = Some (r c \<noteq> None)"
| "sql_value r Truth = Some True"

lemma sql_two_valued [simp]:
  "sql_and (Some a) (Some b) = Some (a \<and> b)" "sql_or (Some a) (Some b) = Some (a \<or> b)"
  by (cases a; simp)+

text \<open>A \<open>WHERE\<close> keeps a row when its condition is true, not when it is NULL.\<close>

definition selects :: "cond \<Rightarrow> row \<Rightarrow> bool" where
  "selects c r \<longleftrightarrow> sql_value r c = Some True"

section \<open>The clauses\<close>

record clause =
  clause_name :: string
  clause_sql :: cond
  clause_holds :: "row \<Rightarrow> bool"

definition field :: "row \<Rightarrow> column \<Rightarrow> string" where
  "field r c = str_or (r c) []"

definition steering_clause :: clause where
  "steering_clause =
     \<lparr>clause_name = ''steering'', clause_sql = NotIn (Coalesce (Col Kind) []) STEERING_KINDS,
      clause_holds = (\<lambda>r. field r Kind \<notin> set STEERING_KINDS)\<rparr>"

definition tier_clause :: "string list \<Rightarrow> clause" where
  "tier_clause allowed =
     \<lparr>clause_name = ''tier'', clause_sql = In (Coalesce (NullIf (Col Tier) []) ''hot'') allowed,
      clause_holds = (\<lambda>r. str_or (r Tier) ''hot'' \<in> set allowed)\<rparr>"

definition scope_clause :: "string list \<Rightarrow> clause" where
  "scope_clause ss =
     \<lparr>clause_name = ''scope'', clause_sql = In (Col Scope) ss,
      clause_holds = (\<lambda>r. field r Scope \<in> set ss)\<rparr>"

definition subject_clause :: "string \<Rightarrow> clause" where
  "subject_clause needle =
     \<lparr>clause_name = ''subject'',
      clause_sql = Like (Lower (Coalesce (Col Subject) [])) (CHR ''%'' # needle @ [CHR ''%'']),
      clause_holds = (\<lambda>r. contains needle (py_lower (field r Subject)))\<rparr>"

definition valid_from_clause :: "string \<Rightarrow> clause" where
  "valid_from_clause t =
     \<lparr>clause_name = ''valid_from'',
      clause_sql = Or (Eq (Coalesce (Col Valid_From) []) []) (Le (Col Valid_From) t),
      clause_holds = (\<lambda>r. \<not> (field r Valid_From \<noteq> [] \<and> t < field r Valid_From))\<rparr>"

definition valid_until_clause :: "string \<Rightarrow> clause" where
  "valid_until_clause t =
     \<lparr>clause_name = ''valid_until'',
      clause_sql = Or (Eq (Coalesce (Col Valid_Until) []) []) (Gt (Col Valid_Until) t),
      clause_holds = (\<lambda>r. \<not> (field r Valid_Until \<noteq> [] \<and> field r Valid_Until \<le> t))\<rparr>"

definition needle_of :: "policy \<Rightarrow> string" where
  "needle_of p = py_lower (py_strip (str_or (subject p) []))"

definition clauses :: "policy \<Rightarrow> string \<Rightarrow> clause list" where
  "clauses p now =
     (if include_rules p then [] else [steering_clause]) @
     [tier_clause (allowed_tiers p)] @
     (if list_or (scopes p) \<noteq> [] then [scope_clause (list_or (scopes p))] else []) @
     (if needle_of p \<noteq> [] then [subject_clause (needle_of p)] else []) @
     (case validity_instant p now of None \<Rightarrow> []
      | Some t \<Rightarrow> [valid_from_clause t, valid_until_clause t])"

section \<open>The two renderers\<close>

definition admits :: "policy \<Rightarrow> row option \<Rightarrow> string \<Rightarrow> bool" where
  "admits p r now =
     (case r of
        None \<Rightarrow> mode p \<noteq> ''only''
      | Some rec \<Rightarrow> if mode p = ''off'' then False else list_all (\<lambda>c. clause_holds c rec) (clauses p now))"

definition join_and :: "cond list \<Rightarrow> cond" where
  "join_and cs = (case cs of [] \<Rightarrow> Truth | c # rest \<Rightarrow> foldl And c rest)"

definition sql_predicate :: "policy \<Rightarrow> string \<Rightarrow> cond" where
  "sql_predicate p now =
     (if mode p = ''off'' then IsNull Record_Id
      else (let qualifies = join_and (map clause_sql (clauses p now))
            in if mode p = ''only'' then And (IsNotNull Record_Id) qualifies
               else Or (IsNull Record_Id) qualifies))"

section \<open>One rule, two renderings\<close>

text \<open>A row of \<open>memory_records\<close> as the schema allows it: \<open>record_id\<close>, \<open>scope\<close> and \<open>kind\<close> are there.\<close>

definition memory_row :: "row \<Rightarrow> bool" where
  "memory_row r \<longleftrightarrow> r Record_Id \<noteq> None \<and> r Scope \<noteq> None \<and> r Kind \<noteq> None"

text \<open>
  What one clause must satisfy for the two renderings of the whole rule to agree, and what follows
  for the lists of clauses.
\<close>

locale agreeing_clauses =
  fixes rule :: "'c list" and sql :: "'c \<Rightarrow> cond" and holds :: "'c \<Rightarrow> row \<Rightarrow> bool" and good :: "row \<Rightarrow> bool"
  assumes agree: "c \<in> set rule \<Longrightarrow> good r \<Longrightarrow> sql_value r (sql c) = Some (holds c r)"
begin

lemma foldl_agree:
  assumes "good r" and "set cs \<subseteq> set rule" and "sql_value r a = Some b"
  shows "sql_value r (foldl And a (map sql cs)) = Some (b \<and> list_all (\<lambda>c. holds c r) cs)"
  using assms(2,3)
proof (induction cs arbitrary: a b)
  case (Cons c cs)
  have "sql_value r (And a (sql c)) = Some (b \<and> holds c r)"
    using agree[of c r] assms(1) Cons.prems by (cases b) simp_all
  then show ?case using Cons.IH[of "And a (sql c)" "b \<and> holds c r"] Cons.prems(1) by simp
qed simp

lemma rule_agrees:
  assumes "good r"
  shows "sql_value r (join_and (map sql rule)) = Some (list_all (\<lambda>c. holds c r) rule)"
proof (cases rule)
  case (Cons c cs)
  then show ?thesis
    using foldl_agree[OF assms, of cs "sql c" "holds c r"] agree[of c r] assms
    by (auto simp: join_and_def)
qed (simp add: join_and_def)

end

text \<open>The subject filter is searched for literally only when it has no \<open>LIKE\<close> wildcard.\<close>

definition literal_subject :: "policy \<Rightarrow> bool" where
  "literal_subject p \<longleftrightarrow> plain (needle_of p)"

lemma clause_agrees:
  assumes "c \<in> set (clauses p now)" and "memory_row r" and "literal_subject p"
  shows "sql_value r (clause_sql c) = Some (clause_holds c r)"
proof -
  have text_eq: "sql_value r (In (Coalesce (NullIf (Col Tier) []) ''hot'') ts) =
      Some (str_or (r Tier) ''hot'' \<in> set ts)" for ts
    by (cases "r Tier") (auto simp: str_or_def)
  have kind: "sql_value r (NotIn (Coalesce (Col Kind) []) ks) = Some (field r Kind \<notin> set ks)" for ks
    by (cases "r Kind") (auto simp: field_def str_or_empty)
  have scope: "sql_value r (In (Col Scope) ss) = Some (field r Scope \<in> set ss)" for ss
    using assms(2) by (auto simp: memory_row_def field_def str_or_empty)
  have subj: "sql_value r (clause_sql (subject_clause (needle_of p))) =
      Some (clause_holds (subject_clause (needle_of p)) r)"
    using assms(3) like_contains[of "needle_of p"]
    by (cases "r Subject") (auto simp: subject_clause_def field_def str_or_empty literal_subject_def)
  have from_c: "sql_value r (clause_sql (valid_from_clause t)) = Some (clause_holds (valid_from_clause t) r)" for t
    by (cases "r Valid_From") (auto simp: valid_from_clause_def field_def str_or_empty not_less)
  have until_c: "sql_value r (clause_sql (valid_until_clause t)) = Some (clause_holds (valid_until_clause t) r)" for t
    by (cases "r Valid_Until") (auto simp: valid_until_clause_def field_def str_or_empty not_le)
  show ?thesis
    using assms(1) text_eq kind scope subj from_c until_c
    by (auto simp: clauses_def steering_clause_def tier_clause_def scope_clause_def
        simp del: sql_value.simps split: if_splits option.splits)
qed

interpretation mp: agreeing_clauses "clauses p now" clause_sql clause_holds
    "\<lambda>r. memory_row r \<and> literal_subject p"
  by unfold_locales (simp add: clause_agrees)

text \<open>
  Claim C8: the SQL rule and the Python rule select the same hits. For every policy whose subject
  filter has no LIKE wildcard, whatever its mode and instant, the condition pushed into the text
  arm's query keeps a joined memory row exactly when \<open>admits\<close> lets the record through, and keeps
  a row that joined no memory record exactly when \<open>admits\<close> lets a hit that is no memory through.
\<close>

theorem sql_and_python_agree:
  assumes "literal_subject p"
  shows "(memory_row r \<longrightarrow> (selects (sql_predicate p now) r \<longleftrightarrow> admits p (Some r) now)) \<and>
    (r Record_Id = None \<longrightarrow> (selects (sql_predicate p now) r \<longleftrightarrow> admits p None now))"
proof (intro conjI impI)
  assume m: "memory_row r"
  have v: "sql_value r (join_and (map clause_sql (clauses p now))) =
      Some (list_all (\<lambda>c. clause_holds c r) (clauses p now))"
    using mp.rule_agrees m assms by blast
  show "selects (sql_predicate p now) r \<longleftrightarrow> admits p (Some r) now"
    using m v
    by (cases "list_all (\<lambda>c. clause_holds c r) (clauses p now)")
      (auto simp: selects_def sql_predicate_def admits_def memory_row_def Let_def)
next
  assume n: "r Record_Id = None"
  then show "selects (sql_predicate p now) r \<longleftrightarrow> admits p None now"
    by (auto simp: selects_def sql_predicate_def admits_def Let_def)
qed

theorem sql_and_python_agree_witness:
  "selects (sql_predicate (default_policy\<lparr>subject := Some '' Deploy ''\<rparr>) ''2024'')
     (\<lambda>c. case c of Subject \<Rightarrow> Some ''The deploy key'' | Record_Id \<Rightarrow> Some ''r1'' | Scope \<Rightarrow> Some ''team''
       | Kind \<Rightarrow> Some ''fact'' | _ \<Rightarrow> None) \<longleftrightarrow>
   admits (default_policy\<lparr>subject := Some '' Deploy ''\<rparr>)
     (Some (\<lambda>c. case c of Subject \<Rightarrow> Some ''The deploy key'' | Record_Id \<Rightarrow> Some ''r1'' | Scope \<Rightarrow> Some ''team''
       | Kind \<Rightarrow> Some ''fact'' | _ \<Rightarrow> None)) ''2024''"
proof -
  have "literal_subject (default_policy\<lparr>subject := Some '' Deploy ''\<rparr>)" by code_simp
  from sql_and_python_agree[OF this] show ?thesis by (simp add: memory_row_def)
qed

text \<open>
  A wildcard in the subject filter makes the two arms disagree. The needle goes into the
  LIKE pattern unescaped, so an underscore matches any character: with the subject filter \<open>a_b\<close>
  the text arm returns the records about \<open>axb\<close>, which the vector and graph arms drop.
\<close>

theorem wildcard_subject_disagrees:
  "let p = default_policy\<lparr>subject := Some ''a_b''\<rparr>;
       r = (\<lambda>c. case c of Subject \<Rightarrow> Some ''axb'' | Record_Id \<Rightarrow> Some ''r1'' | Scope \<Rightarrow> Some ''team''
              | Kind \<Rightarrow> Some ''fact'' | _ \<Rightarrow> None)
   in memory_row r \<and> selects (sql_predicate p ''2024'') r \<and> \<not> admits p (Some r) ''2024''"
  by code_simp

end
