(* ===== verification/MemoryIndex.thy ===== *)
theory MemoryIndex
  imports MemoryPolicy
begin

text \<open>
  The rest of \<open>src/pheasant/memory/policy.py\<close>: parsing a policy and printing it back, the index of
  memory records by every identity a search hit may carry, the record a hit belongs to, and
  whether a policy can drop anything at all.
\<close>

section \<open>A policy given and given back\<close>

definition policy_ok :: "policy \<Rightarrow> bool" where
  "policy_ok p \<longleftrightarrow> mode p \<in> set VALID_MODES \<and> scopes p \<noteq> Some [] \<and> subject p \<noteq> Some [] \<and>
     as_of p \<noteq> Some [] \<and> tiers p \<noteq> Some []"

lemma known_mode_valid: "known_mode m \<in> set VALID_MODES"
  by (simp add: known_mode_def VALID_MODES_def DEFAULT_MODE_def)

lemma many_ok: "many v \<noteq> Some []"
  by (auto simp: many_def split: option.split one_or_many.split)

lemma non_empty_ok: "non_empty v \<noteq> Some []"
  by (auto simp: non_empty_def split: option.split)

lemma default_policy_ok: "policy_ok default_policy"
  by (simp add: policy_ok_def default_policy_def VALID_MODES_def DEFAULT_MODE_def)

lemma parse_policy_ok: "(\<And>p. v = APolicy p \<Longrightarrow> policy_ok p) \<Longrightarrow> policy_ok (parse_policy v)"
  using known_mode_valid default_policy_ok
  by (auto simp: parse_policy_def policy_ok_def many_ok non_empty_ok split: policy_value.split)

lemma valid_mode_fixed:
  assumes "m \<in> set VALID_MODES"
  shows "m \<noteq> [] \<and> known_mode (py_lower (py_strip m)) = m"
proof -
  have "list_all (\<lambda>m. m \<noteq> [] \<and> known_mode (py_lower (py_strip m)) = m) VALID_MODES" by code_simp
  then show ?thesis using assms by (simp add: list_all_iff)
qed

lemma many_listed: "v \<noteq> Some [] \<Longrightarrow> many (listed v) = v"
  by (auto simp: many_def listed_def split: option.split)

lemma non_empty_id: "v \<noteq> Some [] \<Longrightarrow> non_empty v = v"
  by (auto simp: non_empty_def split: option.split)

lemma parse_as_dict:
  assumes "policy_ok p"
  shows "parse_policy (AMapping (as_dict p)) = p"
proof -
  have m: "str_or (Some (mode p)) DEFAULT_MODE = mode p"
    and k: "known_mode (py_lower (py_strip (mode p))) = mode p"
    using valid_mode_fixed[of "mode p"] assms by (simp_all add: policy_ok_def str_or_def)
  show ?thesis
    using assms
    by (simp add: parse_policy_def as_dict_def m k many_listed non_empty_id bool_or_def policy_ok_def)
qed

text \<open>
  Parsing a policy is total and stable. Whatever a caller gives, the policy parsed has
  a known mode and no empty list or text in it; and parsing the dict it describes itself by gives
  the same policy back.
\<close>

theorem policy_round_trip:
  assumes "\<forall>p. v = APolicy p \<longrightarrow> policy_ok p"
  shows "policy_ok (parse_policy v) \<and>
    parse_policy (AMapping (as_dict (parse_policy v))) = parse_policy v"
  using parse_policy_ok[of v] parse_as_dict[of "parse_policy v"] assms by simp

theorem policy_round_trip_witness:
  "parse_policy (AMapping (as_dict (parse_policy (Word '' OFF '')))) = default_policy\<lparr>mode := ''off''\<rparr>"
proof -
  have "parse_policy (Word '' OFF '') = default_policy\<lparr>mode := ''off''\<rparr>" by code_simp
  then show ?thesis using policy_round_trip[of "Word '' OFF ''"] by simp
qed

section \<open>The index\<close>

record memory_record =
  rec_artifact :: string
  rec_source :: string
  rec_asserted :: string
  rec_row :: row

type_synonym memory_index = "(string \<times> memory_record) list"

text \<open>\<open>tail.rsplit(marker, 1)[0]\<close> where the marker occurs\<close>

fun before_last :: "string \<Rightarrow> string \<Rightarrow> string option" where
  "before_last m [] = None"
| "before_last m (c # cs) =
     (case before_last m cs of
        Some p \<Rightarrow> Some (c # p)
      | None \<Rightarrow> if starts_with m (c # cs) then Some [] else None)"

definition relative_path_of :: "string \<Rightarrow> string" where
  "relative_path_of stable_id =
     (case split_char (CHR '':'') stable_id of
        _ # _ # p # ps \<Rightarrow>
          (let tail = join_with '':'' (p # ps)
           in case before_last '':sha256='' tail of
                Some path \<Rightarrow> path
              | None \<Rightarrow> (case before_last '':branch='' tail of Some path \<Rightarrow> path | None \<Rightarrow> tail))
      | _ \<Rightarrow> [])"

definition PATH_KEY :: string where "PATH_KEY = [CHR 0x00]"

definition index_record :: "memory_record \<Rightarrow> memory_index \<Rightarrow> memory_index" where
  "index_record r index =
     (let index' = AList.update (rec_artifact r) r index;
          path = relative_path_of (rec_artifact r)
      in if path \<noteq> [] then AList.update (rec_source r @ PATH_KEY @ path) r index' else index')"

definition load_memory_index :: "memory_record list \<Rightarrow> memory_index" where
  "load_memory_index rows = fold index_record rows []"

definition record_id_of :: "memory_record \<Rightarrow> string" where
  "record_id_of r = field (rec_row r) Record_Id"

fun unique_from :: "string list \<Rightarrow> memory_record list \<Rightarrow> memory_record list" where
  "unique_from seen [] = []"
| "unique_from seen (r # rs) =
     (if record_id_of r \<in> set seen then unique_from seen rs
      else r # unique_from (record_id_of r # seen) rs)"

definition unique_records :: "memory_index \<Rightarrow> memory_record list" where
  "unique_records index = unique_from [] (map snd index)"

definition may_filter :: "policy \<Rightarrow> memory_index \<Rightarrow> string \<Rightarrow> bool" where
  "may_filter p index now =
     (if index = [] then False
      else if \<not> is_default p then True
      else list_ex (\<lambda>r. \<not> admits p (Some (rec_row r)) now) (unique_records index))"

text \<open>The fields of a search hit the lookup reads, None when falsy or missing.\<close>

record hit =
  h_node_id :: "string option"
  h_artifact_id :: "string option"
  h_target :: "string option"
  h_source :: "string option"
  h_source_id :: "string option"
  h_relative_path :: "string option"
  h_prov_source_id :: "string option"
  h_prov_relative_path :: "string option"

fun first_found :: "memory_index \<Rightarrow> string list \<Rightarrow> memory_record option" where
  "first_found index [] = None"
| "first_found index (k # ks) =
     (case map_of index k of Some r \<Rightarrow> Some r | None \<Rightarrow> first_found index ks)"

definition truthy_text :: "string option \<Rightarrow> string list" where
  "truthy_text v = (case non_empty v of None \<Rightarrow> [] | Some s \<Rightarrow> [s])"

definition resolve :: "hit \<Rightarrow> memory_index \<Rightarrow> memory_record option" where
  "resolve h index =
     (if index = [] then None
      else (case first_found index
               ([str_or (h_node_id h) []] @ truthy_text (h_artifact_id h) @
                truthy_text (h_target h) @ truthy_text (h_source h)) of
              Some r \<Rightarrow> Some r
            | None \<Rightarrow>
                (let source = str_or (h_source_id h) (str_or (h_prov_source_id h) []);
                     path = str_or (h_relative_path h) (str_or (h_prov_relative_path h)
                       (relative_path_of (str_or (h_node_id h) [])))
                 in if source \<noteq> [] \<and> path \<noteq> [] then map_of index (source @ PATH_KEY @ path)
                    else None)))"

text \<open>What a search result says about its memory: the record's id, scope, subject, kind, date, tier\<close>

definition describe :: "memory_record \<Rightarrow> string option list \<times> string" where
  "describe r =
     ([rec_row r Record_Id, rec_row r Scope, rec_row r Subject, rec_row r Kind, Some (rec_asserted r)],
      str_or (rec_row r Tier) ''hot'')"

section \<open>Every hit of a record is found\<close>

lemma split_char_none: "c \<notin> set s \<Longrightarrow> split_char c s = [s]"
  by (induction s) auto

lemma split_char_append: "c \<notin> set a \<Longrightarrow> split_char c (a @ c # s) = a # split_char c s"
  by (induction a) auto

lemma before_last_None_iff: "m \<noteq> [] \<Longrightarrow> before_last m s = None \<longleftrightarrow> \<not> contains m s"
  by (induction s) (auto split: option.splits)

lemma prefix_append_longer: "prefix m (a @ b) \<Longrightarrow> prefix a m \<or> prefix m a"
  using prefix_same_cases[of m "a @ b" a] by auto

lemma before_last_append:
  assumes "m \<noteq> []" and "\<not> contains m (tl m @ b)"
  shows "before_last m (a @ m @ b) = Some a"
proof (induction a)
  case Nil
  obtain c cs where m: "m = c # cs" using assms(1) by (cases m) auto
  have "before_last m (cs @ b) = None" using assms before_last_None_iff[of m] by (simp add: m)
  then show ?case by (simp add: m)
qed simp

text \<open>
  The path inside the stable id of an artifact: its source has no colon, and no marker occurs in
  the branch or overlaps it.
\<close>

lemma relative_path_of_file:
  assumes "CHR '':'' \<notin> set source" and "CHR '':'' \<notin> set branch"
    and "\<not> contains '':sha256='' (path @ '':branch='' @ branch)"
    and "\<not> contains '':branch='' (''branch='' @ branch)"
  shows "relative_path_of (''file:'' @ source @ '':'' @ path @ '':branch='' @ branch) = path"
proof -
  let ?tail = "path @ '':branch='' @ branch"
  have s: "split_char (CHR '':'') (''file'' @ CHR '':'' # source @ CHR '':'' # ?tail) =
      ''file'' # source # split_char (CHR '':'') ?tail"
    using split_char_append[of "CHR '':''" "''file''"] split_char_append[OF assms(1)] by simp
  obtain p ps where t: "split_char (CHR '':'') ?tail = p # ps"
    by (cases "split_char (CHR '':'') ?tail") auto
  have j: "join_with '':'' (p # ps) = ?tail" using join_split[of "CHR '':''" ?tail] unfolding t .
  have "before_last '':sha256='' ?tail = None" using assms(3) by (simp add: before_last_None_iff)
  moreover have "before_last '':branch='' ?tail = Some path"
    by (rule before_last_append) (use assms(4) in simp_all)
  ultimately show ?thesis using s t j by (simp add: relative_path_of_def Let_def)
qed

lemma index_values: "r \<in> snd ` set (load_memory_index rows) \<Longrightarrow> r \<in> set rows"
proof -
  have up: "snd ` set (AList.update k r idx) \<subseteq> insert r (snd ` set idx)" for k r and idx :: memory_index
    by (induction idx) auto
  have step: "snd ` set (index_record r idx) \<subseteq> insert r (snd ` set idx)" for r idx
    using up[of "rec_artifact r" r idx]
      up[of "rec_source r @ PATH_KEY @ relative_path_of (rec_artifact r)" r
        "AList.update (rec_artifact r) r idx"]
    unfolding index_record_def Let_def
    by (cases "relative_path_of (rec_artifact r) = []") (simp_all only: if_True if_False simp_thms, blast+)
  have "snd ` set (fold index_record rs idx) \<subseteq> set rs \<union> snd ` set idx" for rs idx
  proof (induction rs arbitrary: idx)
    case (Cons r rs)
    then show ?case using Cons.IH[of "index_record r idx"] step[of r idx] by auto
  qed simp
  from this[of rows "[]"] show "r \<in> snd ` set (load_memory_index rows) \<Longrightarrow> r \<in> set rows"
    by (auto simp: load_memory_index_def)
qed

lemma unique_from_covers:
  "r \<in> set rs \<Longrightarrow> record_id_of r \<notin> set seen \<Longrightarrow>
   \<exists>r' \<in> set (unique_from seen rs). record_id_of r' = record_id_of r \<and> r' \<in> set rs"
proof (induction rs arbitrary: seen)
  case (Cons x rs)
  show ?case
  proof (cases "record_id_of x = record_id_of r")
    case True
    then show ?thesis using Cons.prems(2) by auto
  next
    case False
    then have "r \<in> set rs" using Cons.prems(1) by auto
    then show ?thesis
      using Cons.IH[of "if record_id_of x \<in> set seen then seen else record_id_of x # seen"]
        Cons.prems(2) False by (auto split: if_splits)
  qed
qed simp

lemma first_found_value: "first_found index ks = Some r \<Longrightarrow> r \<in> snd ` set index"
  by (induction ks) (force split: option.splits dest: map_of_SomeD)+

lemma resolve_value: "resolve h index = Some r \<Longrightarrow> r \<in> snd ` set index"
  by (force simp: resolve_def Let_def split: if_splits option.splits
      dest: first_found_value map_of_SomeD)

text \<open>
  The over-fetch decision is safe. When \<open>may_filter\<close> answers no for the index of the
  stored records, the policy admits every hit, memory or not, so fetching exactly the number of
  results asked for loses nothing to the filter after it.
\<close>

theorem no_filter_means_none_dropped:
  assumes "distinct (map record_id_of rows)"
    and "\<not> may_filter p (load_memory_index rows) now"
    and "load_memory_index rows = [] \<longrightarrow> mode p \<noteq> ''only''"
  shows "admits p (map_option rec_row (resolve h (load_memory_index rows))) now"
proof (cases "resolve h (load_memory_index rows)")
  case None
  then show ?thesis
    using assms(2,3)
    by (auto simp: admits_def may_filter_def is_default_def DEFAULT_MODE_def split: if_splits)
next
  case (Some r)
  let ?index = "load_memory_index rows"
  have r: "r \<in> snd ` set ?index" by (rule resolve_value[OF Some])
  then have "?index \<noteq> []" by auto
  then have all: "\<forall>x \<in> set (unique_records ?index). admits p (Some (rec_row x)) now"
    using assms(2) by (auto simp: may_filter_def list_ex_iff split: if_splits)
  obtain x where x: "x \<in> set (unique_records ?index)" "record_id_of x = record_id_of r"
    "x \<in> set (map snd ?index)"
    using unique_from_covers[of r "map snd ?index" "[]"] r by (auto simp: unique_records_def)
  have "x \<in> set rows" "r \<in> set rows" using x(3) r index_values by auto
  then have "x = r" using assms(1) x(2) by (auto simp: distinct_map inj_on_def)
  then show ?thesis using all x(1) Some by auto
qed

definition demo_record :: memory_record where
  "demo_record =
     \<lparr>rec_artifact = ''file:mem:notes/a.md:branch=none'', rec_source = ''mem'', rec_asserted = ''2024'',
      rec_row = (\<lambda>c. case c of Record_Id \<Rightarrow> Some ''r1'' | Scope \<Rightarrow> Some ''team''
        | Kind \<Rightarrow> Some ''fact'' | _ \<Rightarrow> None)\<rparr>"

definition demo_hit :: hit where
  "demo_hit =
     \<lparr>h_node_id = Some ''chunk:mem:notes/a.md:sha256=00:chunk=0'', h_artifact_id = None,
      h_target = None, h_source = None, h_source_id = Some ''mem'', h_relative_path = None,
      h_prov_source_id = None, h_prov_relative_path = None\<rparr>"

theorem no_filter_means_none_dropped_witness:
  "resolve demo_hit (load_memory_index [demo_record]) = Some demo_record \<and>
   admits default_policy (Some (rec_row demo_record)) ''2024''"
proof -
  have r: "resolve demo_hit (load_memory_index [demo_record]) = Some demo_record"
  proof -
    have "relative_path_of ''file:mem:notes/a.md:branch=none'' = ''notes/a.md''"
      and "relative_path_of ''chunk:mem:notes/a.md:sha256=00:chunk=0'' = ''notes/a.md''"
      by code_simp+
    then show ?thesis
      by (simp add: resolve_def demo_hit_def load_memory_index_def index_record_def demo_record_def
          Let_def truthy_text_def non_empty_def PATH_KEY_def str_or_def)
  qed
  have "\<not> may_filter default_policy (load_memory_index [demo_record]) ''2024''" by code_simp
  from no_filter_means_none_dropped[OF _ this, of demo_hit] show ?thesis
    by (simp add: r default_policy_def DEFAULT_MODE_def)
qed

end
