(* ===== verification/Ranking.thy ===== *)
theory Ranking
  imports Prelude
begin

text \<open>
  \<open>src/pheasant/search/ranking.py\<close>: the numbers ranking reads, how they are clamped, how the
  active tuning bundle overlays the configuration, and the resolver that caches the overlay for
  a bounded time.

  A Python float is a rational number, an infinity or a NaN; the comparisons are those of IEEE
  754. The product of \<open>overfetch\<close> rounds through the parameter \<open>rnd\<close>.
\<close>

section \<open>Floats\<close>

datatype pyfloat = Num rat | PosInf | NegInf | NaN

fun fl_less :: "pyfloat \<Rightarrow> pyfloat \<Rightarrow> bool" where
  "fl_less NaN _ = False"
| "fl_less _ NaN = False"
| "fl_less (Num a) (Num b) = (a < b)"
| "fl_less NegInf b = (b \<noteq> NegInf)"
| "fl_less a PosInf = (a \<noteq> PosInf)"
| "fl_less _ _ = False"

text \<open>\<open>max(a, b)\<close> and \<open>min(a, b)\<close> keep their first argument unless the second is strictly better.\<close>

definition fl_max :: "pyfloat \<Rightarrow> pyfloat \<Rightarrow> pyfloat" where
  "fl_max a b = (if fl_less a b then b else a)"

definition fl_min :: "pyfloat \<Rightarrow> pyfloat \<Rightarrow> pyfloat" where
  "fl_min a b = (if fl_less b a then b else a)"

section \<open>The parameters\<close>

definition PARAMETER_STAGES :: "(string \<times> string) list" where
  "PARAMETER_STAGES =
     [(''title_weight'', ''lexical_candidates''), (''path_weight'', ''lexical_candidates''),
      (''heading_weight'', ''lexical_candidates''), (''text_weight'', ''lexical_candidates''),
      (''depth_prior'', ''structural_prior''), (''test_prior'', ''structural_prior''),
      (''sample_prior'', ''structural_prior''), (''prefer_bonus'', ''structural_prior''),
      (''prior_floor'', ''structural_prior''), (''rrf_k'', ''fusion''),
      (''text_arm_weight'', ''fusion''), (''vector_arm_weight'', ''fusion''),
      (''graph_arm_weight'', ''fusion''), (''filter_overfetch'', ''filters'')]"

definition BOUNDS :: "(string \<times> rat \<times> rat) list" where
  "BOUNDS =
     [(''title_weight'', 0, 64), (''path_weight'', 0, 64), (''heading_weight'', 0, 64),
      (''text_weight'', 0, 64), (''depth_prior'', 0, 2), (''test_prior'', 0, 8),
      (''sample_prior'', 0, 8), (''prefer_bonus'', 0, 4), (''prior_floor'', 1 / 100, 4),
      (''rrf_k'', 1, 1000), (''text_arm_weight'', 0, 8), (''vector_arm_weight'', 0, 8),
      (''graph_arm_weight'', 0, 8), (''filter_overfetch'', 1, 10)]"

definition parameter_names :: "string list" where
  "parameter_names = map fst PARAMETER_STAGES"

definition clamp :: "string \<Rightarrow> pyfloat \<Rightarrow> pyfloat" where
  "clamp name value =
     (let (low, high) = (case map_of BOUNDS name of
        None \<Rightarrow> (NegInf, PosInf) | Some (l, h) \<Rightarrow> (Num l, Num h))
      in fl_min (fl_max value low) high)"

text \<open>A point holds a number for each parameter, as \<open>getattr(self, name)\<close> reads it.\<close>

record ranking_parameters =
  numbers :: "string \<Rightarrow> pyfloat option"
  provenance :: string
  bundle_id :: string

definition default_numbers :: "string \<Rightarrow> pyfloat option" where
  "default_numbers = map_of
     [(''title_weight'', Num 8), (''path_weight'', Num 3), (''heading_weight'', Num 2),
      (''text_weight'', Num 1), (''depth_prior'', Num (1 / 20)), (''test_prior'', Num (3 / 5)),
      (''sample_prior'', Num (3 / 10)), (''prefer_bonus'', Num (7 / 20)),
      (''prior_floor'', Num (1 / 4)), (''rrf_k'', Num 60), (''text_arm_weight'', Num 1),
      (''vector_arm_weight'', Num 1), (''graph_arm_weight'', Num 1),
      (''filter_overfetch'', Num 3)]"

definition post_init :: "ranking_parameters \<Rightarrow> ranking_parameters" where
  "post_init r = r\<lparr>numbers := (\<lambda>name.
     if name \<in> set parameter_names then map_option (clamp name) (numbers r name) else None)\<rparr>"

definition new_ranking :: "(string \<Rightarrow> pyfloat option) \<Rightarrow> string \<Rightarrow> string \<Rightarrow> ranking_parameters" where
  "new_ranking values prov bundle =
     post_init \<lparr>numbers = default_numbers ++ values, provenance = prov, bundle_id = bundle\<rparr>"

definition DEFAULT_RANKING :: ranking_parameters where
  "DEFAULT_RANKING = new_ranking Map.empty ''default'' []"

section \<open>What reads a point\<close>

definition arm_weight :: "ranking_parameters \<Rightarrow> string \<Rightarrow> pyfloat" where
  "arm_weight r arm =
     (case map_of [(''text'', ''text_arm_weight''), (''vector'', ''vector_arm_weight''),
                   (''graph'', ''graph_arm_weight'')] arm of
        None \<Rightarrow> Num 1
      | Some name \<Rightarrow> (case numbers r name of None \<Rightarrow> Num 1 | Some w \<Rightarrow> w))"

definition rrf_k :: "ranking_parameters \<Rightarrow> pyfloat" where
  "rrf_k r = (case numbers r ''rrf_k'' of None \<Rightarrow> Num 60 | Some k \<Rightarrow> k)"

text \<open>\<open>int(x)\<close> truncates toward zero; it raises on an infinity and on a NaN.\<close>

definition py_trunc :: "rat \<Rightarrow> int" where
  "py_trunc q = (if q < 0 then - \<lfloor>- q\<rfloor> else \<lfloor>q\<rfloor>)"

definition overfetch :: "(rat \<Rightarrow> rat) \<Rightarrow> ranking_parameters \<Rightarrow> int \<Rightarrow> bool \<Rightarrow> int option" where
  "overfetch rnd r max_results filtering =
     (if \<not> filtering then Some (max 0 max_results)
      else (case numbers r ''filter_overfetch'' of
              Some (Num f) \<Rightarrow> Some (max max_results (py_trunc (rnd (of_int max_results * f))))
            | _ \<Rightarrow> None))"

section \<open>Overlays\<close>

text \<open>
  What an overlay may carry under a name. Text goes through \<open>float\<close>, which is the standard
  library's parser and a parameter here; \<open>None\<close> is its \<open>TypeError\<close> or \<open>ValueError\<close>.
\<close>

datatype overlay_value = OFloat pyfloat | OBool bool | OText string | OOther

fun py_float :: "(string \<Rightarrow> pyfloat option) \<Rightarrow> overlay_value \<Rightarrow> pyfloat option" where
  "py_float parse (OFloat x) = Some x"
| "py_float parse (OBool b) = Some (Num (if b then 1 else 0))"
| "py_float parse (OText s) = parse s"
| "py_float parse OOther = None"

fun overlay_changes ::
  "(string \<Rightarrow> pyfloat option) \<Rightarrow> (string \<times> overlay_value) list \<Rightarrow> (string \<Rightarrow> pyfloat option) \<Rightarrow>
     (string \<Rightarrow> pyfloat option)" where
  "overlay_changes parse [] changes = changes"
| "overlay_changes parse ((name, value) # rest) changes =
     overlay_changes parse rest
       (if name \<notin> set parameter_names then changes
        else (case py_float parse value of
                None \<Rightarrow> changes
              | Some x \<Rightarrow> changes(name \<mapsto> clamp name x)))"

definition with_overlay ::
  "(string \<Rightarrow> pyfloat option) \<Rightarrow> ranking_parameters \<Rightarrow> (string \<times> overlay_value) list \<Rightarrow>
     string \<Rightarrow> string \<Rightarrow> ranking_parameters" where
  "with_overlay parse r overlay prov bundle =
     post_init \<lparr>numbers = numbers r ++ overlay_changes parse overlay Map.empty,
                provenance = prov, bundle_id = bundle\<rparr>"

text \<open>\<open>search.ranking\<close> of the configuration: the fields that are set and are not \<open>None\<close>.\<close>

definition from_config :: "(string \<Rightarrow> pyfloat option) option \<Rightarrow> ranking_parameters" where
  "from_config settings = (case settings of
       None \<Rightarrow> DEFAULT_RANKING
     | Some s \<Rightarrow> new_ranking (s |` set parameter_names) ''config'' [])"

section \<open>The resolver\<close>

text \<open>
  What \<open>active_overlay\<close> finds: it may raise, there may be no row, or an empty one, or a bundle
  with its parameters and its id.
\<close>

datatype overlay_read = Raises | NoOverlay | Overlay "(string \<times> overlay_value) list" string

record resolver =
  rs_base :: ranking_parameters
  rs_bound :: bool  \<comment> \<open>a state and a knowledge base id are there\<close>
  ttl_seconds :: rat
  rs_current :: "ranking_parameters option"
  checked_at :: rat

definition OVERLAY_TTL_SECONDS :: rat where
  "OVERLAY_TTL_SECONDS = 30"

definition resolver_for :: "ranking_parameters \<Rightarrow> bool \<Rightarrow> resolver" where
  "resolver_for base bound = \<lparr>rs_base = base, rs_bound = bound,
     ttl_seconds = OVERLAY_TTL_SECONDS, rs_current = None, checked_at = 0\<rparr>"

definition resolve_overlay ::
  "(string \<Rightarrow> pyfloat option) \<Rightarrow> resolver \<Rightarrow> overlay_read \<Rightarrow> ranking_parameters" where
  "resolve_overlay parse rs db =
     (if \<not> rs_bound rs then rs_base rs
      else (case db of
              Raises \<Rightarrow> rs_base rs
            | NoOverlay \<Rightarrow> rs_base rs
            | Overlay params bundle \<Rightarrow> with_overlay parse (rs_base rs) params ''bundle'' bundle))"

definition current ::
  "(string \<Rightarrow> pyfloat option) \<Rightarrow> rat \<Rightarrow> overlay_read \<Rightarrow> resolver \<Rightarrow> ranking_parameters \<times> resolver" where
  "current parse now db rs =
     (case rs_current rs of
        Some r \<Rightarrow>
          if now - checked_at rs < ttl_seconds rs then (r, rs)
          else (let r' = resolve_overlay parse rs db
                in (r', rs\<lparr>checked_at := now, rs_current := Some r'\<rparr>))
      | None \<Rightarrow> (let r' = resolve_overlay parse rs db
                in (r', rs\<lparr>checked_at := now, rs_current := Some r'\<rparr>)))"

definition invalidate :: "resolver \<Rightarrow> resolver" where
  "invalidate rs = rs\<lparr>rs_current := None, checked_at := 0\<rparr>"

section \<open>Clamping\<close>

definition in_bounds :: "string \<Rightarrow> pyfloat \<Rightarrow> bool" where
  "in_bounds name x = (case map_of BOUNDS name of
       None \<Rightarrow> True | Some (l, h) \<Rightarrow> (case x of Num q \<Rightarrow> l \<le> q \<and> q \<le> h | _ \<Rightarrow> False))"

lemma bounds_ordered:
  assumes "map_of BOUNDS name = Some (l, h)"
  shows "l \<le> h"
proof -
  have "list_all (\<lambda>(_, l, h). l \<le> h) BOUNDS" by (simp add: BOUNDS_def)
  then show ?thesis using map_of_SomeD[OF assms] by (auto simp: list_all_iff)
qed

lemma bounded_names:
  assumes "name \<in> set parameter_names"
  shows "\<exists>l h. map_of BOUNDS name = Some (l, h)"
proof -
  have "map fst BOUNDS = parameter_names"
    by (simp add: BOUNDS_def parameter_names_def PARAMETER_STAGES_def)
  then have "name \<in> fst ` set BOUNDS" using assms by (metis list.set_map)
  then obtain b where "map_of BOUNDS name = Some b" by (metis domD dom_map_of_conv_image_fst)
  then show ?thesis by (cases b) auto
qed

lemma clamp_in_bounds: "x \<noteq> NaN \<Longrightarrow> in_bounds name (clamp name x)"
proof (cases "map_of BOUNDS name")
  case (Some lh)
  obtain l h where lh: "lh = (l, h)" by force
  assume "x \<noteq> NaN"
  then show ?thesis using Some bounds_ordered[of name l h] lh
    by (cases x) (auto simp: in_bounds_def clamp_def fl_min_def fl_max_def)
qed (simp add: in_bounds_def)

lemma clamp_idle:
  assumes "in_bounds name x" and "name \<in> set parameter_names"
  shows "clamp name x = x"
proof -
  obtain l h where "map_of BOUNDS name = Some (l, h)" using bounded_names[OF assms(2)] by blast
  with assms(1) show ?thesis
    by (cases x) (auto simp: in_bounds_def clamp_def fl_min_def fl_max_def)
qed

lemma clamp_NaN: "clamp name NaN = NaN"
  by (auto simp: clamp_def fl_min_def fl_max_def split: option.split)

lemma clamp_idem: "clamp name (clamp name x) = clamp name x" if "name \<in> set parameter_names"
  using that clamp_in_bounds[of x name] clamp_idle[of name "clamp name x"]
  by (cases "x = NaN") (auto simp: clamp_NaN)


section \<open>Overlays are fieldwise\<close>

lemma post_init_known:
  "name \<in> set parameter_names \<Longrightarrow> numbers (post_init r) name = map_option (clamp name) (numbers r name)"
  by (simp add: post_init_def)

lemma post_init_unknown: "name \<notin> set parameter_names \<Longrightarrow> numbers (post_init r) name = None"
  by (simp add: post_init_def)

lemma defaults_present: "name \<in> set parameter_names \<Longrightarrow> \<exists>x. default_numbers name = Some x"
proof -
  assume "name \<in> set parameter_names"
  moreover have "list_all (\<lambda>n. default_numbers n \<noteq> None) parameter_names"
    by (simp add: default_numbers_def parameter_names_def PARAMETER_STAGES_def)
  ultimately show ?thesis by (auto simp: list_all_iff)
qed

text \<open>A point as \<open>__post_init__\<close> leaves it.\<close>

definition point_ok :: "ranking_parameters \<Rightarrow> bool" where
  "point_ok r \<longleftrightarrow> (\<forall>name. case numbers r name of
       None \<Rightarrow> name \<notin> set parameter_names
     | Some x \<Rightarrow> name \<in> set parameter_names \<and> (x = NaN \<or> in_bounds name x))"

lemma point_okI:
  assumes "\<And>name. name \<in> set parameter_names \<Longrightarrow> \<exists>x. numbers r name = Some x"
  shows "point_ok (post_init r)"
proof -
  have "case numbers (post_init r) name of None \<Rightarrow> name \<notin> set parameter_names
     | Some x \<Rightarrow> name \<in> set parameter_names \<and> (x = NaN \<or> in_bounds name x)" for name
  proof (cases "name \<in> set parameter_names")
    case True
    then obtain x where "numbers r name = Some x" using assms by blast
    then show ?thesis using True clamp_in_bounds[of x name]
      by (cases "x = NaN") (auto simp: post_init_known clamp_NaN)
  qed (simp add: post_init_unknown)
  then show ?thesis by (simp add: point_ok_def)
qed

lemma point_ok_present: "point_ok r \<Longrightarrow> name \<in> set parameter_names \<Longrightarrow> \<exists>x. numbers r name = Some x"
  by (force simp: point_ok_def split: option.splits dest: spec[of _ name])

lemma new_ranking_ok: "point_ok (new_ranking values prov bundle)"
  unfolding new_ranking_def
  by (rule point_okI) (auto simp: map_add_def dest: defaults_present split: option.split)

lemma from_config_ok: "point_ok (from_config settings)"
  by (auto simp: from_config_def DEFAULT_RANKING_def new_ranking_ok split: option.split)

lemma with_overlay_ok: "point_ok r \<Longrightarrow> point_ok (with_overlay parse r overlay prov bundle)"
  unfolding with_overlay_def
  by (rule point_okI) (auto simp: map_add_def dest: point_ok_present split: option.split)

lemma overlay_changes_absent:
  "name \<notin> fst ` set overlay \<Longrightarrow> overlay_changes parse overlay changes name = changes name"
  by (induction parse overlay changes rule: overlay_changes.induct) (auto split: option.split)

lemma overlay_changes_at:
  assumes "distinct (map fst overlay)" and "name \<in> set parameter_names"
  shows "overlay_changes parse overlay changes name =
    (case Option.bind (map_of overlay name) (py_float parse) of
       None \<Rightarrow> changes name | Some x \<Rightarrow> Some (clamp name x))"
  using assms(1)
proof (induction overlay arbitrary: changes)
  case (Cons e rest)
  obtain n v where e: "e = (n, v)" by force
  show ?case
  proof (cases "n = name")
    case True
    then have "name \<notin> fst ` set rest" using Cons.prems by (simp add: e)
    then show ?thesis using True assms(2)
      by (auto simp: e overlay_changes_absent split: option.split)
  next
    case False
    then show ?thesis using Cons by (simp add: e split: option.split)
  qed
qed simp


definition demo_overlay :: "(string \<times> overlay_value) list" where
  "demo_overlay = [(''rrf_k'', OFloat (Num 0)), (''dropped_parameter'', OFloat (Num 5)),
     (''depth_prior'', OText ''deep''), (''title_weight'', OFloat (Num 10)),
     (''prior_floor'', OFloat NaN)]"


section \<open>The resolver serves what was in force within its time to live\<close>

datatype resolver_call = Current rat overlay_read | Invalidate

fun run_resolver ::
  "(string \<Rightarrow> pyfloat option) \<Rightarrow> resolver_call list \<Rightarrow> resolver \<Rightarrow> resolver" where
  "run_resolver parse [] rs = rs"
| "run_resolver parse (Current now db # cs) rs =
     run_resolver parse cs (snd (current parse now db rs))"
| "run_resolver parse (Invalidate # cs) rs = run_resolver parse cs (invalidate rs)"

lemma run_resolver_append:
  "run_resolver parse (cs @ ds) rs = run_resolver parse ds (run_resolver parse cs rs)"
  by (induction parse cs rs rule: run_resolver.induct) simp_all

text \<open>A point came from the last call \<open>Current t d\<close> of a history that no invalidation follows.\<close>

definition read_at :: "resolver_call list \<Rightarrow> rat \<Rightarrow> overlay_read \<Rightarrow> resolver_call list \<Rightarrow> bool" where
  "read_at cs t d later \<longleftrightarrow> (\<exists>before. cs = before @ Current t d # later) \<and> Invalidate \<notin> set later"

lemma read_at_now: "read_at (cs @ [Current t d]) t d []"
  by (simp add: read_at_def)

lemma read_at_later: "read_at cs t d later \<Longrightarrow> c \<noteq> Invalidate \<Longrightarrow> read_at (cs @ [c]) t d (later @ [c])"
  by (auto simp: read_at_def)

definition cache_ok ::
  "(string \<Rightarrow> pyfloat option) \<Rightarrow> resolver \<Rightarrow> resolver_call list \<Rightarrow> resolver \<Rightarrow> bool" where
  "cache_ok parse rs0 cs rs \<longleftrightarrow>
     rs_base rs = rs_base rs0 \<and> rs_bound rs = rs_bound rs0 \<and> ttl_seconds rs = ttl_seconds rs0 \<and>
     (\<forall>r. rs_current rs = Some r \<longrightarrow>
        (\<exists>d later. read_at cs (checked_at rs) d later \<and> r = resolve_overlay parse rs0 d))"

lemma resolve_same:
  "rs_base rs = rs_base rs0 \<Longrightarrow> rs_bound rs = rs_bound rs0 \<Longrightarrow>
     resolve_overlay parse rs d = resolve_overlay parse rs0 d"
  by (cases d) (simp_all add: resolve_overlay_def)

lemma current_fresh:
  assumes "cache_ok parse rs0 cs rs" and "current parse now db rs = (r, rs')"
  shows "cache_ok parse rs0 (cs @ [Current now db]) rs' \<and>
    (\<exists>t d later. read_at (cs @ [Current now db]) t d later \<and>
       (later = [] \<or> now - t < ttl_seconds rs0) \<and> r = resolve_overlay parse rs0 d)"
proof (cases "\<exists>c. rs_current rs = Some c \<and> now - checked_at rs < ttl_seconds rs")
  case True
  then have r: "rs_current rs = Some r" and t: "now - checked_at rs < ttl_seconds rs" and same: "rs' = rs"
    using assms(2) by (auto simp: current_def)
  then obtain d later where "read_at cs (checked_at rs) d later" and d: "r = resolve_overlay parse rs0 d"
    using assms(1) by (auto simp: cache_ok_def)
  then have ra: "read_at (cs @ [Current now db]) (checked_at rs) d (later @ [Current now db])"
    by (simp add: read_at_later)
  have const: "rs_base rs = rs_base rs0" "rs_bound rs = rs_bound rs0" "ttl_seconds rs = ttl_seconds rs0"
    using assms(1) by (simp_all add: cache_ok_def)
  have "cache_ok parse rs0 (cs @ [Current now db]) rs"
    unfolding cache_ok_def r option.inject using const ra d by blast
  moreover have "now - checked_at rs < ttl_seconds rs0" using t const by simp
  ultimately show ?thesis using ra d same by blast
next
  case False
  then have "current parse now db rs = (resolve_overlay parse rs db,
      rs\<lparr>checked_at := now, rs_current := Some (resolve_overlay parse rs db)\<rparr>)"
    by (cases "rs_current rs") (simp_all add: current_def Let_def)
  then have eq: "(r, rs') = (resolve_overlay parse rs db,
      rs\<lparr>checked_at := now, rs_current := Some (resolve_overlay parse rs db)\<rparr>)"
    by (rule trans[OF assms(2)[symmetric]])
  have "r = resolve_overlay parse rs db" by (rule Pair_inject[OF eq])
  moreover have rs': "rs' = rs\<lparr>checked_at := now, rs_current := Some (resolve_overlay parse rs db)\<rparr>"
    by (rule Pair_inject[OF eq])
  moreover have "resolve_overlay parse rs db = resolve_overlay parse rs0 db"
    using assms(1) by (intro resolve_same) (simp_all add: cache_ok_def)
  ultimately have r: "r = resolve_overlay parse rs0 db" and db: "resolve_overlay parse rs db = r"
    by simp_all
  have now: "read_at (cs @ [Current now db]) now db []" by (rule read_at_now)
  have "cache_ok parse rs0 (cs @ [Current now db]) rs'"
    using assms(1) now r unfolding cache_ok_def rs' db by auto
  with now r show ?thesis by blast
qed

lemma run_cache_ok:
  assumes "rs_current rs0 = None"
  shows "cache_ok parse rs0 cs (run_resolver parse cs rs0)"
proof (induction cs rule: rev_induct)
  case Nil
  then show ?case using assms by (simp add: cache_ok_def)
next
  case (snoc c cs)
  show ?case
  proof (cases c)
    case (Current now db)
    obtain r rs' where "current parse now db (run_resolver parse cs rs0) = (r, rs')" by force
    with current_fresh[OF snoc.IH this] show ?thesis by (simp add: Current run_resolver_append)
  next
    case Invalidate
    then show ?thesis using snoc.IH by (simp add: run_resolver_append cache_ok_def invalidate_def)
  qed
qed

text \<open>
  A fleet converges on an applied bundle. Whatever calls a resolver has had, at whatever
  times and with whatever the state held, the point it serves is the one that resolves what some
  read of the state found, that read is this call's own or less than the time to live old, and no
  invalidation lies between: a replica serves an applied bundle at latest one time to live after
  it was applied, and the process that applied it at its next search.
\<close>

theorem resolver_is_fresh:
  "\<exists>before t d later. cs @ [Current now db] = before @ Current t d # later \<and>
     Invalidate \<notin> set later \<and> (later = [] \<or> now - t < OVERLAY_TTL_SECONDS) \<and>
     fst (current parse now db (run_resolver parse cs (resolver_for base bound))) =
       resolve_overlay parse (resolver_for base bound) d"
proof -
  let ?rs = "resolver_for base bound"
  obtain r rs' where c: "current parse now db (run_resolver parse cs ?rs) = (r, rs')" by force
  have "cache_ok parse ?rs cs (run_resolver parse cs ?rs)"
    by (rule run_cache_ok) (simp add: resolver_for_def)
  from current_fresh[OF this c] obtain t d later
    where "read_at (cs @ [Current now db]) t d later" and "later = [] \<or> now - t < ttl_seconds ?rs"
      and "r = resolve_overlay parse ?rs d" by blast
  moreover have "ttl_seconds ?rs = OVERLAY_TTL_SECONDS" by (simp add: resolver_for_def)
  ultimately show ?thesis unfolding read_at_def c fst_conv by metis
qed

end
