(* ===== verification/RankFusion.thy ===== *)
theory RankFusion
  imports Ranking
begin

text \<open>
  Reciprocal rank fusion: \<open>src/pheasant/search/fusion.py\<close> (the merge), the query path's entry point
  \<open>_merge_rrf\<close> with what it captures (\<open>src/pheasant/search/hybrid.py\<close>), and the tuning plane's
  re-fusion of a captured query (\<open>src/pheasant/tuning/refusion.py\<close>).

  Every float operation of the merge is the exact rational result rounded by \<open>rnd\<close>, as IEEE 754
  has it; the theorems that need more than a function say what. The definitions are read for
  points without a NaN: the score of a NaN point is a NaN, which sorts nowhere in particular.
\<close>

section \<open>The merge\<close>

record candidate =
  c_key :: string
  c_node_id :: string
  c_kind :: string

record fused =
  f_key :: string
  f_node_id :: string
  f_kind :: string
  f_score :: rat
  f_best_rank :: nat
  f_contributors :: "string list"
  f_arm :: string
  f_position :: nat

record fusion =
  ordered :: "fused list"
  selected :: "fused list"

definition ARM_ORDER :: "string list" where
  "ARM_ORDER = [''text'', ''vector'', ''graph'']"

fun num_of :: "pyfloat \<Rightarrow> rat" where
  "num_of (Num q) = q"
| "num_of _ = 0"

text \<open>
  The four dicts of the loop (\<open>scores\<close>, \<open>best_rank\<close>, \<open>contributors\<close>, \<open>representative\<close>) have the same
  keys at every moment, set at the same iteration; a slot is the four values of one key.
\<close>

record slot =
  s_score :: rat
  s_best_rank :: nat
  s_contributors :: "string list"
  s_held :: "string \<times> nat \<times> candidate"

definition share :: "(rat \<Rightarrow> rat) \<Rightarrow> ranking_parameters \<Rightarrow> string \<Rightarrow> nat \<Rightarrow> rat" where
  "share rnd r arm position =
     rnd (num_of (arm_weight r arm) / rnd (num_of (rrf_k r) + of_nat (position + 1)))"

definition wins_slot :: "string \<Rightarrow> (string \<times> nat \<times> candidate) option \<Rightarrow> bool" where
  "wins_slot arm held = (case held of
       None \<Rightarrow> True
     | Some (_, _, h) \<Rightarrow> arm \<noteq> ''graph'' \<and> c_kind h = ''node'')"

definition next_slot ::
  "(rat \<Rightarrow> rat) \<Rightarrow> ranking_parameters \<Rightarrow> string \<times> nat \<times> candidate \<Rightarrow> slot option \<Rightarrow> slot" where
  "next_slot rnd r = (\<lambda>(arm, position, c) old.
     (case old of
        None \<Rightarrow> \<lparr>s_score = rnd (0 + share rnd r arm position), s_best_rank = position + 1,
                 s_contributors = [arm], s_held = (arm, position, c)\<rparr>
      | Some s \<Rightarrow>
          \<lparr>s_score = rnd (s_score s + share rnd r arm position),
           s_best_rank = min (s_best_rank s) (position + 1),
           s_contributors = (if arm \<in> set (s_contributors s) then s_contributors s
                             else s_contributors s @ [arm]),
           s_held = (if wins_slot arm (Some (s_held s)) then (arm, position, c) else s_held s)\<rparr>))"

definition fuse_row ::
  "(rat \<Rightarrow> rat) \<Rightarrow> ranking_parameters \<Rightarrow> string \<Rightarrow> nat \<times> candidate \<Rightarrow>
     (string \<times> slot) list \<Rightarrow> (string \<times> slot) list" where
  "fuse_row rnd r arm = (\<lambda>(position, c) slots.
     (if c_key c = [] then slots
      else AList.update (c_key c) (next_slot rnd r (arm, position, c) (map_of slots (c_key c))) slots))"

definition fuse_arms ::
  "(rat \<Rightarrow> rat) \<Rightarrow> ranking_parameters \<Rightarrow> (string \<Rightarrow> candidate list) \<Rightarrow> string list \<Rightarrow>
     (string \<times> slot) list" where
  "fuse_arms rnd r candidates arms =
     fold (\<lambda>arm. fold (fuse_row rnd r arm) (enumerate 0 (candidates arm))) arms []"

definition fused_of :: "string \<times> slot \<Rightarrow> fused" where
  "fused_of = (\<lambda>(key, s). (case s_held s of (arm, position, c) \<Rightarrow>
     \<lparr>f_key = key, f_node_id = c_node_id c, f_kind = c_kind c, f_score = s_score s,
      f_best_rank = s_best_rank s, f_contributors = sort (s_contributors s),
      f_arm = arm, f_position = position\<rparr>))"

definition fusion_order :: "string \<times> slot \<Rightarrow> rat \<times> nat \<times> string" where
  "fusion_order = (\<lambda>(key, s). (- s_score s, s_best_rank s, key))"

fun select_results :: "int \<Rightarrow> fused list \<Rightarrow> string list \<Rightarrow> fused list \<Rightarrow> fused list" where
  "select_results max_results [] seen sel = sel"
| "select_results max_results (item # items) seen sel =
     (if max_results \<le> int (length sel) then sel
      else if f_kind item \<noteq> ''relationship'' \<and> f_node_id item \<noteq> [] \<and> f_node_id item \<in> set seen
           then select_results max_results items seen sel
      else select_results max_results items
             (if f_node_id item \<noteq> [] then f_node_id item # seen else seen) (sel @ [item]))"

definition fuse ::
  "(rat \<Rightarrow> rat) \<Rightarrow> (string \<Rightarrow> candidate list) \<Rightarrow> int \<Rightarrow> ranking_parameters \<Rightarrow> string list \<Rightarrow> fusion" where
  "fuse rnd candidates max_results r arms =
     (let items = map fused_of (sort_key fusion_order (fuse_arms rnd r candidates arms))
      in \<lparr>ordered = items, selected = select_results max_results items [] []\<rparr>)"

section \<open>The query path\<close>

text \<open>A hit as the arms return it: what \<open>item.get\<close> reads of it.\<close>

record hit =
  hit_chunk_id :: "string option"
  hit_node_id :: "string option"
  hit_title :: "string option"
  hit_kind :: "string option"

record result_row =
  rr_hit :: hit
  rr_score :: rat
  rr_retrieved_by :: string
  rr_rank :: nat

definition key_of :: "hit \<Rightarrow> string" where
  "key_of h = str_or (hit_chunk_id h) (str_or (hit_node_id h) (str_or (hit_title h) []))"

definition identity_of :: "hit \<Rightarrow> string" where
  "identity_of h = str_or (hit_node_id h) (str_or (hit_chunk_id h) [])"

definition candidate_of :: "hit \<Rightarrow> candidate" where
  "candidate_of h = \<lparr>c_key = key_of h, c_node_id = str_or (hit_node_id h) [],
     c_kind = str_or (hit_kind h) []\<rparr>"

text \<open>\<open>round(x, 6)\<close>: to the nearest multiple of a millionth, a tie to the even one.\<close>

definition half_even :: "rat \<Rightarrow> int" where
  "half_even q = (let f = \<lfloor>q\<rfloor>; d = q - of_int f
     in if d < 1 / 2 then f else if 1 / 2 < d then f + 1 else if even f then f else f + 1)"

definition round6 :: "(rat \<Rightarrow> rat) \<Rightarrow> rat \<Rightarrow> rat" where
  "round6 rnd q = rnd (of_int (half_even (q * 1000000)) / 1000000)"

definition by_arm :: "hit list \<Rightarrow> hit list \<Rightarrow> hit list \<Rightarrow> string \<Rightarrow> hit list" where
  "by_arm text_results vector_results graph_results arm =
     (case map_of [(''text'', text_results), (''vector'', vector_results),
                   (''graph'', graph_results)] arm of None \<Rightarrow> [] | Some hs \<Rightarrow> hs)"

definition merged_arms ::
  "(rat \<Rightarrow> rat) \<Rightarrow> hit list \<Rightarrow> hit list \<Rightarrow> hit list \<Rightarrow> int \<Rightarrow> ranking_parameters \<Rightarrow> fusion" where
  "merged_arms rnd text_results vector_results graph_results max_results r =
     fuse rnd (\<lambda>arm. map candidate_of (by_arm text_results vector_results graph_results arm))
       max_results r ARM_ORDER"

definition merge_rrf ::
  "(rat \<Rightarrow> rat) \<Rightarrow> hit list \<Rightarrow> hit list \<Rightarrow> hit list \<Rightarrow> int \<Rightarrow> ranking_parameters \<Rightarrow> result_row list" where
  "merge_rrf rnd text_results vector_results graph_results max_results r =
     map (\<lambda>(rank, item).
        \<lparr>rr_hit = by_arm text_results vector_results graph_results (f_arm item) ! f_position item,
         rr_score = round6 rnd (f_score item),
         rr_retrieved_by = join_with ''+'' (f_contributors item), rr_rank = rank\<rparr>)
       (enumerate 1 (selected
          (merged_arms rnd text_results vector_results graph_results max_results r)))"


section \<open>What an explained query captures\<close>

definition EXPLAIN_MAX_IDS :: nat where
  "EXPLAIN_MAX_IDS = 200"

text \<open>
  The keys of the \<open>stages\<close> block the merge writes and the re-fusion reads. An entry is a JSON
  list. A missing key is \<open>None\<close>, or \<open>False\<close> for the flag.
\<close>

record fusion_block =
  fb_ranked :: "string list"
  fb_scores :: "(string \<times> rat) list"
  fb_contributors :: "(string \<times> string list) list"

record stages =
  fusion_input :: "(string \<times> string list list) list option"
  fusion_input_truncated :: bool
  st_max_results :: "int option"
  returned :: "string list option"
  st_fusion :: "fusion_block option"

definition capture_row :: "hit \<Rightarrow> string list" where
  "capture_row h = [key_of h, identity_of h, str_or (hit_kind h) []]"

definition capture_arm :: "hit list \<Rightarrow> string list list" where
  "capture_arm results = map capture_row (filter (\<lambda>h. key_of h \<noteq> []) (take EXPLAIN_MAX_IDS results))"

definition identities :: "(fused \<Rightarrow> hit) \<Rightarrow> fused list \<Rightarrow> fused list" where
  "identities rec items = filter (\<lambda>item. identity_of (rec item) \<noteq> []) items"

definition capture ::
  "(rat \<Rightarrow> rat) \<Rightarrow> hit list \<Rightarrow> hit list \<Rightarrow> hit list \<Rightarrow> int \<Rightarrow> ranking_parameters \<Rightarrow> stages" where
  "capture rnd text_results vector_results graph_results max_results r =
     (let hits = by_arm text_results vector_results graph_results;
          merged = merged_arms rnd text_results vector_results graph_results max_results r;
          rec = (\<lambda>item. hits (f_arm item) ! f_position item);
          head = identities rec (take EXPLAIN_MAX_IDS (ordered merged))
      in \<lparr>fusion_input = Some (map (\<lambda>arm. (arm, capture_arm (hits arm))) ARM_ORDER),
          fusion_input_truncated = list_ex (\<lambda>arm. EXPLAIN_MAX_IDS < length (hits arm)) ARM_ORDER,
          st_max_results = Some max_results,
          returned = Some (map (\<lambda>row. identity_of (rr_hit row))
            (merge_rrf rnd text_results vector_results graph_results max_results r)),
          st_fusion = Some \<lparr>fb_ranked = map (\<lambda>item. identity_of (rec item)) head,
            fb_scores = fold (\<lambda>item. AList.update (identity_of (rec item)) (round6 rnd (f_score item))) head [],
            fb_contributors = fold (\<lambda>item. AList.update (identity_of (rec item)) (f_contributors item)) head []\<rparr>\<rparr>)"

section \<open>Re-fusing a captured query\<close>

definition candidate_of_entry :: "string list \<Rightarrow> candidate" where
  "candidate_of_entry entry = (let e = take 3 (entry @ [[], [], []])
     in \<lparr>c_key = e ! 0, c_node_id = e ! 1, c_kind = e ! 2\<rparr>)"

definition refuse ::
  "(rat \<Rightarrow> rat) \<Rightarrow> (string \<times> string list list) list \<Rightarrow> int \<Rightarrow> ranking_parameters \<Rightarrow> string list \<Rightarrow>
     string list" where
  "refuse rnd input max_results r arms =
     map f_node_id (selected (fuse rnd
       (\<lambda>arm. if arm \<in> set arms
              then filter (\<lambda>c. c_key c \<noteq> []) (map candidate_of_entry (list_or (map_of input arm)))
              else [])
       max_results r arms))"

definition refusable :: "stages \<Rightarrow> bool" where
  "refusable st \<longleftrightarrow> \<not> fusion_input_truncated st \<and>
     (case fusion_input st of None \<Rightarrow> False | Some input \<Rightarrow> list_ex (\<lambda>(_, entries). entries \<noteq> []) input) \<and>
     (case st_max_results st of None \<Rightarrow> False | Some n \<Rightarrow> n \<noteq> 0)"

datatype verdict =
    Equivalent
  | NotRefusable
  | DivergesAt nat string string
  | Lengths nat nat

fun first_divergence :: "nat \<Rightarrow> string list \<Rightarrow> string list \<Rightarrow> (nat \<times> string \<times> string) option" where
  "first_divergence i (x # xs) (y # ys) =
     (if x \<noteq> y then Some (i, x, y) else first_divergence (i + 1) xs ys)"
| "first_divergence i _ _ = None"

definition int_or :: "int option \<Rightarrow> int \<Rightarrow> int" where
  "int_or v d = (case v of None \<Rightarrow> d | Some n \<Rightarrow> if n = 0 then d else n)"

definition verify_equivalence :: "(rat \<Rightarrow> rat) \<Rightarrow> stages \<Rightarrow> ranking_parameters \<Rightarrow> verdict" where
  "verify_equivalence rnd st r =
     (if \<not> refusable st then NotRefusable
      else let served = list_or (returned st);
               computed = refuse rnd (list_or (fusion_input st))
                 (int_or (st_max_results st) (if served = [] then 10 else int (length served))) r ARM_ORDER
           in if computed = served then Equivalent
              else (case first_divergence 1 computed served of
                      Some (i, x, y) \<Rightarrow> DivergesAt i x y
                    | None \<Rightarrow> Lengths (length computed) (length served)))"

definition restage :: "(rat \<Rightarrow> rat) \<Rightarrow> stages \<Rightarrow> string list \<Rightarrow> ranking_parameters \<Rightarrow> stages" where
  "restage rnd st fused_ids r =
     (let input = list_or (fusion_input st);
          depth = max (length fused_ids) (sum_list (map (\<lambda>(_, es). length es) input));
          deep = refuse rnd input (if depth = 0 then 1 else int depth) r ARM_ORDER
      in st\<lparr>returned := Some fused_ids,
            st_fusion := Some (case st_fusion st of
                None \<Rightarrow> \<lparr>fb_ranked = deep, fb_scores = [], fb_contributors = []\<rparr>
              | Some fb \<Rightarrow> fb\<lparr>fb_ranked := deep\<rparr>)\<rparr>)"

section \<open>A slot is the fold of its key's rows\<close>

definition occurrences :: "(string \<Rightarrow> candidate list) \<Rightarrow> string list \<Rightarrow> (string \<times> nat \<times> candidate) list" where
  "occurrences candidates arms =
     concat (map (\<lambda>arm. map (\<lambda>(i, c). (arm, i, c)) (enumerate 0 (candidates arm))) arms)"

definition of_key :: "string \<Rightarrow> (string \<times> nat \<times> candidate) list \<Rightarrow> (string \<times> nat \<times> candidate) list" where
  "of_key key = filter (\<lambda>(_, _, c). c_key c = key)"

lemma of_key_simps [simp]:
  "of_key key [] = []"
  "of_key key ((a, i, c) # os) = (if c_key c = key then (a, i, c) # of_key key os else of_key key os)"
  by (simp_all add: of_key_def)

lemma of_key_append [simp]: "of_key key (os @ ps) = of_key key os @ of_key key ps"
  by (simp add: of_key_def)

lemma fold_nested:
  "fold (\<lambda>arm. fold (f arm) (g arm)) arms s =
     fold (\<lambda>(arm, x). f arm x) (concat (map (\<lambda>arm. map (Pair arm) (g arm)) arms)) s"
proof (induction arms arbitrary: s)
  case (Cons arm arms)
  have "fold (f arm) (g arm) s = fold (\<lambda>(arm, x). f arm x) (map (Pair arm) (g arm)) s"
    by (simp add: fold_map comp_def)
  then show ?case using Cons by simp
qed simp

lemma fuse_arms_occurrences:
  "fuse_arms rnd r candidates arms = fold (\<lambda>(arm, x). fuse_row rnd r arm x) (occurrences candidates arms) []"
  unfolding fuse_arms_def fold_nested occurrences_def by (simp add: case_prod_beta')

definition slot_of ::
  "(rat \<Rightarrow> rat) \<Rightarrow> ranking_parameters \<Rightarrow> (string \<times> nat \<times> candidate) list \<Rightarrow> slot option" where
  "slot_of rnd r os = fold (\<lambda>row old. Some (next_slot rnd r row old)) os None"

lemma fold_fuse_row:
  "map_of (fold (\<lambda>(arm, x). fuse_row rnd r arm x) os slots) key =
     (if key = [] then map_of slots key
      else fold (\<lambda>row old. Some (next_slot rnd r row old)) (of_key key os) (map_of slots key))"
proof (induction os arbitrary: slots)
  case (Cons row os)
  obtain a i c where row: "row = (a, i, c)" by (cases row) auto
  show ?case using Cons[of "fuse_row rnd r a (i, c) slots"]
    by (auto simp: row fuse_row_def update_conv')
qed simp

lemma fold_fuse_row_keys:
  "distinct (map fst slots) \<Longrightarrow>
     distinct (map fst (fold (\<lambda>(arm, x). fuse_row rnd r arm x) os slots))"
  by (induction os arbitrary: slots) (auto simp: fuse_row_def distinct_update split: prod.split)

lemma fuse_arms_slot:
  "map_of (fuse_arms rnd r candidates arms) key =
     (if key = [] then None else slot_of rnd r (of_key key (occurrences candidates arms)))"
  by (simp add: fuse_arms_occurrences fold_fuse_row slot_of_def)

lemma fuse_arms_distinct: "distinct (map fst (fuse_arms rnd r candidates arms))"
  by (simp add: fuse_arms_occurrences fold_fuse_row_keys)

lemma slot_of_snoc: "slot_of rnd r (os @ [row]) = Some (next_slot rnd r row (slot_of rnd r os))"
  by (simp add: slot_of_def)

lemma slot_of_Nil [simp]: "slot_of rnd r [] = None"
  by (simp add: slot_of_def)

lemma slot_of_ne: "os \<noteq> [] \<Longrightarrow> \<exists>s. slot_of rnd r os = Some s"
  by (cases os rule: rev_cases) (simp_all add: slot_of_snoc)


abbreviation row_arm :: "string \<times> nat \<times> candidate \<Rightarrow> string" where
  "row_arm row \<equiv> fst row"

abbreviation row_rank :: "string \<times> nat \<times> candidate \<Rightarrow> nat" where
  "row_rank row \<equiv> fst (snd row) + 1"

abbreviation row_candidate :: "string \<times> nat \<times> candidate \<Rightarrow> candidate" where
  "row_candidate row \<equiv> snd (snd row)"

text \<open>What a slot must hold of the rows of its key.\<close>

definition slot_right ::
  "(rat \<Rightarrow> rat) \<Rightarrow> ranking_parameters \<Rightarrow> (string \<times> nat \<times> candidate) list \<Rightarrow> slot \<Rightarrow> bool" where
  "slot_right rnd r os s \<longleftrightarrow>
     s_score s = fold (\<lambda>(arm, i, c) acc. rnd (acc + share rnd r arm i)) os 0 \<and>
     s_best_rank s \<in> row_rank ` set os \<and>
     (\<forall>row \<in> set os. s_best_rank s \<le> row_rank row) \<and>
     distinct (s_contributors s) \<and> set (s_contributors s) = fst ` set os \<and>
     s_held s \<in> set os \<and>
     ((\<exists>row \<in> set os. row_arm row \<noteq> ''graph'' \<and> c_kind (row_candidate row) \<noteq> ''node'') \<longrightarrow>
        c_kind (row_candidate (s_held s)) \<noteq> ''node'')"

lemma slot_right_first: "slot_right rnd r [row] (next_slot rnd r row None)"
  by (cases row) (simp add: slot_right_def next_slot_def)

lemma slot_right_next:
  assumes "slot_right rnd r os s"
  shows "slot_right rnd r (os @ [row]) (next_slot rnd r row (Some s))"
proof -
  obtain a i c where row: "row = (a, i, c)" by (cases row) auto
  obtain ha hi hc where held: "s_held s = (ha, hi, hc)" by (cases "s_held s") auto
  let ?n = "next_slot rnd r row (Some s)"
  note old = assms[unfolded slot_right_def]
  have score: "s_score ?n = fold (\<lambda>(arm, i, c) acc. rnd (acc + share rnd r arm i)) (os @ [row]) 0"
    using old by (simp add: next_slot_def row)
  have best: "s_best_rank ?n \<in> row_rank ` set (os @ [row])"
    using old by (simp add: next_slot_def row min_def)
  have new: "s_best_rank ?n = min (s_best_rank s) (row_rank row)"
    by (simp add: next_slot_def row)
  have least: "s_best_rank ?n \<le> row_rank y" if "y \<in> set (os @ [row])" for y
    using that old unfolding new by (cases "y = row") (auto simp: min_le_iff_disj)
  have arms: "distinct (s_contributors ?n) \<and> set (s_contributors ?n) = row_arm ` set (os @ [row])"
    using old by (auto simp: next_slot_def row)
  have kept: "s_held ?n \<in> set (os @ [row])"
    using old by (simp add: next_slot_def row)
  have held_new: "s_held ?n = (if a \<noteq> ''graph'' \<and> c_kind hc = ''node'' then row else s_held s)"
    by (simp add: next_slot_def row held wins_slot_def)
  have kind: "c_kind (row_candidate (s_held ?n)) \<noteq> ''node''"
    if y: "y \<in> set (os @ [row])" "row_arm y \<noteq> ''graph''" "c_kind (row_candidate y) \<noteq> ''node''" for y
  proof (cases "y = row")
    case True
    then show ?thesis using y unfolding held_new by (simp add: row held)
  next
    case False
    then have "c_kind hc \<noteq> ''node''" using y old held by fastforce
    then show ?thesis unfolding held_new by (simp add: held)
  qed
  show ?thesis unfolding slot_right_def using score best least arms kept kind by blast
qed

lemma slot_of_right: "slot_of rnd r os = Some s \<Longrightarrow> slot_right rnd r os s"
proof (induction os arbitrary: s rule: rev_induct)
  case (snoc row os)
  show ?case
  proof (cases "slot_of rnd r os")
    case None
    then have "os = []" using slot_of_ne[of os rnd r] by (cases "os = []") auto
    then show ?thesis using snoc.prems slot_right_first[of rnd r row] by (simp add: slot_of_def)
  next
    case (Some t)
    then have "s = next_slot rnd r row (Some t)" using snoc.prems by (simp add: slot_of_snoc)
    then show ?thesis using slot_right_next[OF snoc.IH[OF Some]] by simp
  qed
qed simp

lemma fuse_arms_right:
  assumes "(key, s) \<in> set (fuse_arms rnd r candidates arms)"
  shows "key \<noteq> [] \<and> slot_right rnd r (of_key key (occurrences candidates arms)) s"
proof -
  have "map_of (fuse_arms rnd r candidates arms) key = Some s"
    using assms fuse_arms_distinct by (simp add: map_of_is_SomeI)
  then show ?thesis by (auto simp: fuse_arms_slot dest: slot_of_right split: if_splits)
qed

lemma fuse_arms_keys:
  "fst ` set (fuse_arms rnd r candidates arms) =
     {key. key \<noteq> [] \<and> of_key key (occurrences candidates arms) \<noteq> []}"
proof -
  have "key \<in> fst ` set (fuse_arms rnd r candidates arms) \<longleftrightarrow>
    map_of (fuse_arms rnd r candidates arms) key \<noteq> None" for key
    by (simp add: map_of_eq_None_iff)
  moreover have "slot_of rnd r os \<noteq> None \<longleftrightarrow> os \<noteq> []" for os
    using slot_of_ne[of os rnd r] by auto
  ultimately show ?thesis unfolding set_eq_iff fuse_arms_slot mem_Collect_eq by presburger
qed

section \<open>The order\<close>

definition item_order :: "fused \<Rightarrow> rat \<times> nat \<times> string" where
  "item_order x = (- f_score x, f_best_rank x, f_key x)"

lemma fused_of_simps [simp]:
  "f_key (fused_of e) = fst e" "f_score (fused_of e) = s_score (snd e)"
  "f_best_rank (fused_of e) = s_best_rank (snd e)"
  "f_contributors (fused_of e) = sort (s_contributors (snd e))"
  by (simp_all add: fused_of_def split: prod.split)

lemma fused_of_held:
  "s_held s = (arm, i, c) \<Longrightarrow> f_arm (fused_of (key, s)) = arm \<and> f_position (fused_of (key, s)) = i \<and>
     f_node_id (fused_of (key, s)) = c_node_id c \<and> f_kind (fused_of (key, s)) = c_kind c"
  by (simp add: fused_of_def)

lemma item_order_fused: "item_order (fused_of e) = fusion_order e"
  by (simp add: item_order_def fusion_order_def split: prod.split)

lemma ordered_fuse:
  "ordered (fuse rnd candidates max_results r arms) =
     map fused_of (sort_key fusion_order (fuse_arms rnd r candidates arms))"
  by (simp add: fuse_def Let_def)

lemma ordered_keys:
  "map f_key (ordered (fuse rnd candidates max_results r arms)) =
     map fst (sort_key fusion_order (fuse_arms rnd r candidates arms))"
  by (simp add: ordered_fuse comp_def)

lemma sort_key_distinct_map: "distinct (map f xs) \<Longrightarrow> distinct (map f (sort_key g xs))"
  by (metis distinct_map distinct_sort set_sort)

lemma ordered_keys_distinct: "distinct (map f_key (ordered (fuse rnd candidates max_results r arms)))"
  unfolding ordered_keys by (rule sort_key_distinct_map[OF fuse_arms_distinct])

lemma ordered_strict:
  "sorted_wrt (\<lambda>x y. item_order x < item_order y) (ordered (fuse rnd candidates max_results r arms))"
proof -
  let ?xs = "ordered (fuse rnd candidates max_results r arms)"
  have "map item_order ?xs = map fusion_order (sort_key fusion_order (fuse_arms rnd r candidates arms))"
    by (simp add: ordered_fuse item_order_fused)
  then have "sorted (map item_order ?xs)" by simp
  moreover have "distinct (map item_order ?xs)"
  proof -
    have "map f_key ?xs = map (snd \<circ> snd) (map item_order ?xs)" by (simp add: item_order_def)
    then show ?thesis using ordered_keys_distinct by (metis distinct_map)
  qed
  ultimately have "sorted_wrt (<) (map item_order ?xs)" by (simp add: strict_sorted_iff)
  then show ?thesis by (simp add: sorted_wrt_map)
qed

lemma ordered_memD:
  assumes "x \<in> set (ordered (fuse rnd candidates max_results r arms))"
  obtains s where "(f_key x, s) \<in> set (fuse_arms rnd r candidates arms)" and "x = fused_of (f_key x, s)"
  using assms by (auto simp: ordered_fuse)

lemma ordered_key_set:
  "f_key ` set (ordered (fuse rnd candidates max_results r arms)) =
     {key. key \<noteq> [] \<and> of_key key (occurrences candidates arms) \<noteq> []}"
proof -
  have "f_key ` set (ordered (fuse rnd candidates max_results r arms)) =
      fst ` set (fuse_arms rnd r candidates arms)"
    by (metis list.set_map ordered_keys set_sort)
  then show ?thesis by (simp add: fuse_arms_keys)
qed

text \<open>
  Claim C38: the merge is reciprocal rank fusion. The order it computes has every fusion key the
  arms returned exactly once, strictly by falling score, then rising best rank, then key; the
  score of a key is the sum, in the order of the arms and rounded at each step, of
  \<open>weight / (rrf_k + rank)\<close> over the rows with that key; its best rank is the least of their
  ranks and its contributors the sorted arms they came from; and the record kept is one of
  those rows, and not a bare graph node when a text or vector row had something richer.
\<close>

theorem fusion_is_reciprocal_rank:
  defines "F candidates max_results rnd r arms \<equiv> ordered (fuse rnd candidates max_results r arms)"
  fixes candidates :: "string \<Rightarrow> candidate list" and arms :: "string list"
  assumes "x \<in> set (F candidates max_results rnd r arms)"
    and "os = of_key (f_key x) (occurrences candidates arms)"
  shows "distinct (map f_key (F candidates max_results rnd r arms)) \<and>
    f_key ` set (F candidates max_results rnd r arms) =
      {c_key c |arm i c. (arm, i, c) \<in> set (occurrences candidates arms) \<and> c_key c \<noteq> []} \<and>
    sorted_wrt (\<lambda>x y. (- f_score x, f_best_rank x, f_key x) < (- f_score y, f_best_rank y, f_key y))
      (F candidates max_results rnd r arms) \<and>
    f_score x = fold (\<lambda>(arm, i, c) acc. rnd (acc + rnd (num_of (arm_weight r arm) /
      rnd (num_of (rrf_k r) + of_nat (i + 1))))) os 0 \<and>
    f_best_rank x = Min (row_rank ` set os) \<and>
    sorted (f_contributors x) \<and> distinct (f_contributors x) \<and> set (f_contributors x) = row_arm ` set os \<and>
    (\<exists>c. (f_arm x, f_position x, c) \<in> set os \<and> f_node_id x = c_node_id c \<and> f_kind x = c_kind c) \<and>
    ((\<exists>row \<in> set os. row_arm row \<noteq> ''graph'' \<and> c_kind (row_candidate row) \<noteq> ''node'') \<longrightarrow>
       f_kind x \<noteq> ''node'')"
proof -
  obtain s where s: "(f_key x, s) \<in> set (fuse_arms rnd r candidates arms)" "x = fused_of (f_key x, s)"
    using ordered_memD assms(2)[unfolded F_def] by metis
  have right: "slot_right rnd r os s" using fuse_arms_right[OF s(1)] assms(3) by simp
  obtain arm i c where held: "s_held s = (arm, i, c)" by (cases "s_held s") auto
  have best: "f_best_rank x = Min (row_rank ` set os)"
    using right by (subst s(2)) (auto simp: slot_right_def intro!: Min_eqI[symmetric])
  have keys: "f_key ` set (F candidates max_results rnd r arms) =
      {c_key c |arm i c. (arm, i, c) \<in> set (occurrences candidates arms) \<and> c_key c \<noteq> []}"
    unfolding F_def ordered_key_set by (auto simp: of_key_def filter_empty_conv)
  have score: "f_score x = fold (\<lambda>(arm, i, c) acc. rnd (acc + share rnd r arm i)) os 0"
    using right by (subst s(2)) (simp add: slot_right_def)
  have contrib: "sorted (f_contributors x) \<and> distinct (f_contributors x) \<and> set (f_contributors x) = row_arm ` set os"
    using right by (subst (1 2 3) s(2)) (simp add: slot_right_def)
  have rec: "f_arm x = arm \<and> f_position x = i \<and> f_node_id x = c_node_id c \<and> f_kind x = c_kind c"
    using fused_of_held[OF held, of "f_key x"] s(2) by simp
  have kind: "(\<exists>row \<in> set os. row_arm row \<noteq> ''graph'' \<and> c_kind (row_candidate row) \<noteq> ''node'') \<longrightarrow>
       f_kind x \<noteq> ''node''"
    using right rec held by (simp add: slot_right_def)
  have mem: "(arm, i, c) \<in> set os" using right held by (simp add: slot_right_def)
  have strict: "sorted_wrt (\<lambda>x y. (- f_score x, f_best_rank x, f_key x) < (- f_score y, f_best_rank y, f_key y))
      (F candidates max_results rnd r arms)"
    using ordered_strict unfolding F_def item_order_def .
  have dist: "distinct (map f_key (F candidates max_results rnd r arms))"
    unfolding F_def by (rule ordered_keys_distinct)
  show ?thesis
    using keys best score[unfolded share_def] contrib rec mem kind strict dist by blast
qed


definition fixed_point :: "rat \<Rightarrow> rat" where
  "fixed_point q = of_int \<lfloor>q * 1000000\<rfloor> / 1000000"

definition demo_row :: "string \<Rightarrow> string \<Rightarrow> string \<Rightarrow> candidate" where
  "demo_row key node kind = \<lparr>c_key = key, c_node_id = node, c_kind = kind\<rparr>"

text \<open>A file with two chunks and a graph node, and a second file only the vector arm has.\<close>

definition demo_arms :: "string \<Rightarrow> candidate list" where
  "demo_arms arm =
     (if arm = ''text'' then [demo_row ''c1'' ''f1'' ''chunk'', demo_row ''c2'' ''f1'' ''chunk'']
      else if arm = ''vector'' then [demo_row ''c1'' ''f1'' ''chunk'', demo_row ''d1'' ''f2'' ''chunk'']
      else if arm = ''graph'' then [demo_row ''c1'' ''f1'' ''node''] else [])"

theorem fusion_is_reciprocal_rank_witness:
  "\<exists>x \<in> set (ordered (fuse fixed_point demo_arms 10 DEFAULT_RANKING ARM_ORDER)).
     f_key x = ''c1'' \<and> f_kind x \<noteq> ''node'' \<and> f_best_rank x = 1"
proof -
  let ?F = "ordered (fuse fixed_point demo_arms 10 DEFAULT_RANKING ARM_ORDER)"
  have F: "of_key ''c1'' (occurrences demo_arms ARM_ORDER) =
        [(''text'', 0, demo_row ''c1'' ''f1'' ''chunk''), (''vector'', 0, demo_row ''c1'' ''f1'' ''chunk''),
         (''graph'', 0, demo_row ''c1'' ''f1'' ''node'')]" by code_simp
  then have "''c1'' \<in> f_key ` set ?F" by (simp add: ordered_key_set)
  then obtain x where mem: "x \<in> set ?F" and key: "f_key x = ''c1''" by auto
  define os where "os = of_key (f_key x) (occurrences demo_arms ARM_ORDER)"
  have rows: "os = [(''text'', 0, demo_row ''c1'' ''f1'' ''chunk''),
      (''vector'', 0, demo_row ''c1'' ''f1'' ''chunk''), (''graph'', 0, demo_row ''c1'' ''f1'' ''node'')]"
    using F key by (simp add: os_def)
  note facts = fusion_is_reciprocal_rank[OF mem os_def]
  have "(\<exists>row \<in> set os. row_arm row \<noteq> ''graph'' \<and> c_kind (row_candidate row) \<noteq> ''node'') \<longrightarrow>
      f_kind x \<noteq> ''node''" using facts by (elim conjE)
  then have "f_kind x \<noteq> ''node''" by (simp add: rows demo_row_def)
  moreover have "f_best_rank x = Min (row_rank ` set os)" using facts by (elim conjE)
  then have "f_best_rank x = 1" by (simp add: rows)
  ultimately show ?thesis using mem key by blast
qed

section \<open>What is selected\<close>

definition first_of_node :: "string set \<Rightarrow> fused \<Rightarrow> bool" where
  "first_of_node seen x \<longleftrightarrow> f_kind x = ''relationship'' \<or> f_node_id x = [] \<or> f_node_id x \<notin> seen"

definition first_rows :: "string set \<Rightarrow> fused list \<Rightarrow> fused list" where
  "first_rows seen xs = map ((!) xs)
     (filter (\<lambda>i. first_of_node (seen \<union> f_node_id ` set (take i xs)) (xs ! i)) [0..<length xs])"

lemma first_rows_Nil [simp]: "first_rows seen [] = []"
  by (simp add: first_rows_def)

lemma first_rows_Cons:
  "first_rows seen (x # xs) =
     (if first_of_node seen x then [x] else []) @ first_rows (insert (f_node_id x) seen) xs"
proof -
  have "[0..<length (x # xs)] = 0 # map Suc [0..<length xs]"
    by (simp add: upt_conv_Cons map_Suc_upt del: upt_Suc)
  then show ?thesis
    by (simp add: first_rows_def filter_map comp_def del: upt_Suc)
qed

lemma first_rows_subset: "set (first_rows seen xs) \<subseteq> set xs"
  by (auto simp: first_rows_def)

lemma select_results_first_rows:
  assumes "set seen - {[]} = S - {[]}"
  shows "select_results m xs seen sel = sel @ take (nat m - length sel) (first_rows S xs)"
  using assms
proof (induction xs arbitrary: seen sel S)
  case (Cons x xs)
  consider "m \<le> int (length sel)" | "\<not> m \<le> int (length sel)" "\<not> first_of_node S x"
    | "\<not> m \<le> int (length sel)" "first_of_node S x" by blast
  then show ?case
  proof cases
    case 2
    then have "f_kind x \<noteq> ''relationship'' \<and> f_node_id x \<noteq> [] \<and> f_node_id x \<in> set seen \<and> f_node_id x \<in> S"
      using Cons.prems by (auto simp: first_of_node_def)
    then show ?thesis using 2 Cons.IH[OF Cons.prems, of sel] by (simp add: first_rows_Cons insert_absorb)
  next
    case 3
    let ?seen = "if f_node_id x \<noteq> [] then f_node_id x # seen else seen"
    have "set ?seen - {[]} = insert (f_node_id x) S - {[]}" using Cons.prems by auto
    from Cons.IH[OF this, of "sel @ [x]"]
    have step: "select_results m xs ?seen (sel @ [x]) =
        sel @ x # take (nat m - Suc (length sel)) (first_rows (insert (f_node_id x) S) xs)" by simp
    have "\<not> (f_kind x \<noteq> ''relationship'' \<and> f_node_id x \<noteq> [] \<and> f_node_id x \<in> set seen)"
      using 3 Cons.prems by (auto simp: first_of_node_def)
    then have "select_results m (x # xs) seen sel = select_results m xs ?seen (sel @ [x])"
      using 3(1) unfolding select_results.simps by presburger
    moreover obtain n where "nat m - length sel = Suc n" "nat m - Suc (length sel) = n"
      using 3 by (cases "nat m - length sel") auto
    ultimately show ?thesis using 3 step by (simp add: first_rows_Cons del: select_results.simps)
  qed simp
qed simp

text \<open>
  What is selected is the head of the deduplicated order. The selection is the first
  \<open>max_results\<close> of the rows of the order that are relationships, have no node id, or are the
  first with their node id; so a file is reported once, under its best chunk, while the
  relationships that share a node all stay, and raising \<open>max_results\<close> only appends.
\<close>

theorem selection_is_deduplicated_prefix:
  defines "order candidates max_results rnd r arms \<equiv> ordered (fuse rnd candidates max_results r arms)"
  fixes candidates :: "string \<Rightarrow> candidate list" and arms :: "string list"
  shows "selected (fuse rnd candidates max_results r arms) =
    take (nat max_results)
      (map (\<lambda>i. order candidates max_results rnd r arms ! i)
        (filter (\<lambda>i. let x = order candidates max_results rnd r arms ! i
                     in \<not> (f_kind x \<noteq> ''relationship'' \<and> f_node_id x \<noteq> [] \<and>
                        f_node_id x \<in> f_node_id ` set (take i (order candidates max_results rnd r arms))))
          [0..<length (order candidates max_results rnd r arms)]))"
proof -
  let ?xs = "ordered (fuse rnd candidates max_results r arms)"
  have "selected (fuse rnd candidates max_results r arms) = select_results max_results ?xs [] []"
    by (simp add: fuse_def Let_def)
  also have "\<dots> = take (nat max_results) (first_rows {} ?xs)"
    using select_results_first_rows[of "[]" "{}" max_results ?xs "[]"] by simp
  finally show ?thesis by (simp add: first_rows_def first_of_node_def order_def Let_def)
qed


section \<open>Agreement promotes\<close>

text \<open>What the merge relies on of IEEE rounding, away from overflow.\<close>

definition rounding :: "(rat \<Rightarrow> rat) \<Rightarrow> bool" where
  "rounding rnd \<longleftrightarrow> (\<forall>p q. p \<le> q \<longrightarrow> rnd p \<le> rnd q) \<and> (\<forall>q. rnd (rnd q) = rnd q) \<and> rnd 0 = 0 \<and> rnd 1 = 1"

lemma roundingD:
  assumes "rounding rnd"
  shows "p \<le> q \<Longrightarrow> rnd p \<le> rnd q" and "rnd (rnd q) = rnd q" and "rnd 0 = 0" and "rnd 1 = 1"
  using assms by (auto simp: rounding_def)

lemma rounding_fixed_point: "rounding fixed_point"
  unfolding rounding_def fixed_point_def
  by (auto intro: divide_right_mono floor_mono)

lemma num_of_nonneg:
  assumes "point_ok r" and "numbers r name = Some x"
  shows "0 \<le> num_of x"
proof -
  have low: "list_all (\<lambda>(_, l, _). (0 :: rat) \<le> l) BOUNDS" by (simp add: BOUNDS_def)
  have "case numbers r name of None \<Rightarrow> name \<notin> set parameter_names
     | Some x \<Rightarrow> name \<in> set parameter_names \<and> (x = NaN \<or> in_bounds name x)"
    using assms(1) unfolding point_ok_def by (rule spec)
  then have x: "name \<in> set parameter_names \<and> (x = NaN \<or> in_bounds name x)"
    by (simp add: assms(2))
  then obtain l h where lh: "map_of BOUNDS name = Some (l, h)" using bounded_names by blast
  then have "0 \<le> l" using low by (auto simp: list_all_iff dest!: map_of_SomeD)
  then show ?thesis using x lh by (cases x) (auto simp: in_bounds_def)
qed

lemma num_or_nonneg:
  "point_ok r \<Longrightarrow> 0 \<le> d \<Longrightarrow> 0 \<le> num_of (case numbers r name of None \<Rightarrow> Num d | Some x \<Rightarrow> x)"
  using num_of_nonneg[of r name] by (cases "numbers r name") simp_all

lemma arm_weight_nonneg: "point_ok r \<Longrightarrow> 0 \<le> num_of (arm_weight r arm)"
  unfolding arm_weight_def by (rule option.split[THEN iffD2]) (simp add: num_or_nonneg)

lemma rrf_k_nonneg: "point_ok r \<Longrightarrow> 0 \<le> num_of (rrf_k r)"
  unfolding rrf_k_def by (simp add: num_or_nonneg)

lemma rank_weight_pos:
  assumes rnd: "rounding rnd" and point: "point_ok r"
  shows "1 \<le> rnd (num_of (rrf_k r) + of_nat (i + 1))"
proof -
  have "rnd 1 \<le> rnd (num_of (rrf_k r) + of_nat (i + 1))"
    using rrf_k_nonneg[OF point] by (intro roundingD(1)[OF rnd]) simp
  then show ?thesis by (simp add: roundingD(4)[OF rnd])
qed

lemma share_nonneg:
  assumes rnd: "rounding rnd" and point: "point_ok r"
  shows "0 \<le> share rnd r arm i"
proof -
  have "0 \<le> num_of (arm_weight r arm) / rnd (num_of (rrf_k r) + of_nat (i + 1))"
    using arm_weight_nonneg[OF point] rank_weight_pos[OF assms, of i] by simp
  from roundingD(1)[OF rnd this] show ?thesis by (simp add: share_def roundingD(3)[OF rnd])
qed

lemma share_antimono:
  assumes rnd: "rounding rnd" and point: "point_ok r" and "i \<le> j"
  shows "share rnd r arm j \<le> share rnd r arm i"
proof -
  have "num_of (rrf_k r) + of_nat (i + 1) \<le> num_of (rrf_k r) + of_nat (j + 1)"
    using assms(3) by simp
  from roundingD(1)[OF rnd this]
  have "num_of (arm_weight r arm) / rnd (num_of (rrf_k r) + of_nat (j + 1))
      \<le> num_of (arm_weight r arm) / rnd (num_of (rrf_k r) + of_nat (i + 1))"
    using arm_weight_nonneg[OF point, of arm] rank_weight_pos[OF rnd point, of i]
      rank_weight_pos[OF rnd point, of j] by (intro divide_left_mono mult_pos_pos) linarith+
  then show ?thesis unfolding share_def by (rule roundingD(1)[OF rnd])
qed

definition add_share ::
  "(rat \<Rightarrow> rat) \<Rightarrow> ranking_parameters \<Rightarrow> string \<times> nat \<times> candidate \<Rightarrow> rat \<Rightarrow> rat" where
  "add_share rnd r = (\<lambda>(arm, i, c) acc. rnd (acc + share rnd r arm i))"

definition arm_rows :: "(string \<Rightarrow> candidate list) \<Rightarrow> string \<Rightarrow> (string \<times> nat \<times> candidate) list" where
  "arm_rows candidates arm = map (\<lambda>(i, c). (arm, i, c)) (enumerate 0 (candidates arm))"

lemma occurrences_Nil [simp]: "occurrences candidates [] = []"
  by (simp add: occurrences_def)

lemma occurrences_Cons [simp]:
  "occurrences candidates (arm # arms) = arm_rows candidates arm @ occurrences candidates arms"
  by (simp add: occurrences_def arm_rows_def)

lemma of_key_absent: "key \<notin> c_key ` set cs \<Longrightarrow> of_key key (map (\<lambda>(i, c). (arm, i, c)) (enumerate n cs)) = []"
  by (induction cs arbitrary: n) auto

lemma of_key_enumerate:
  assumes "distinct (map c_key cs)" and "key \<in> c_key ` set cs"
  shows "\<exists>i < length cs. c_key (cs ! i) = key \<and>
     of_key key (map (\<lambda>(i, c). (arm, i, c)) (enumerate n cs)) = [(arm, n + i, cs ! i)]"
  using assms
proof (induction cs arbitrary: n)
  case (Cons c cs)
  show ?case
  proof (cases "c_key c = key")
    case True
    then show ?thesis using Cons.prems of_key_absent[of key cs arm "Suc n"]
      by (intro exI[of _ 0]) auto
  next
    case False
    then obtain i where "i < length cs \<and> c_key (cs ! i) = key \<and>
      of_key key (map (\<lambda>(i, c). (arm, i, c)) (enumerate (Suc n) cs)) = [(arm, Suc n + i, cs ! i)]"
      using Cons.IH[of "Suc n"] Cons.prems by auto
    then show ?thesis using False by (intro exI[of _ "Suc i"]) simp
  qed
qed simp

lemma of_key_arm:
  assumes "distinct (map c_key (candidates arm))"
  shows "of_key key (arm_rows candidates arm) = [] \<and> key \<notin> c_key ` set (candidates arm) \<or>
    (\<exists>i < length (candidates arm). c_key (candidates arm ! i) = key \<and>
       of_key key (arm_rows candidates arm) = [(arm, i, candidates arm ! i)])"
  using of_key_enumerate[OF assms, of key arm 0] of_key_absent[of key "candidates arm" arm 0]
  by (cases "key \<in> c_key ` set (candidates arm)") (auto simp: arm_rows_def)

text \<open>\<open>a\<close> is ahead of \<open>b\<close> in every arm that has \<open>b\<close>.\<close>

definition ahead :: "(string \<Rightarrow> candidate list) \<Rightarrow> string list \<Rightarrow> string \<Rightarrow> string \<Rightarrow> bool" where
  "ahead candidates arms a b \<longleftrightarrow> (\<forall>arm \<in> set arms. \<forall>j < length (candidates arm).
     c_key (candidates arm ! j) = b \<longrightarrow> (\<exists>i < j. c_key (candidates arm ! i) = a))"

lemma ahead_arm:
  assumes "distinct (map c_key (candidates arm))" and "ahead candidates [arm] a b"
    and "of_key b (arm_rows candidates arm) = [(arm, j, d)]"
  shows "\<exists>i c. i < j \<and> of_key a (arm_rows candidates arm) = [(arm, i, c)]"
proof -
  have j: "j < length (candidates arm)" "c_key (candidates arm ! j) = b"
    using of_key_arm[where candidates = candidates and arm = arm, OF assms(1), of b] assms(3) by auto
  then obtain i where i: "i < j" "c_key (candidates arm ! i) = a"
    using assms(2) by (auto simp: ahead_def)
  then have "a \<in> c_key ` set (candidates arm)" using j by auto
  then obtain k where k: "k < length (candidates arm)" "c_key (candidates arm ! k) = a"
    "of_key a (arm_rows candidates arm) = [(arm, k, candidates arm ! k)]"
    using of_key_arm[where candidates = candidates and arm = arm, OF assms(1), of a] by auto
  have "map c_key (candidates arm) ! k = map c_key (candidates arm) ! i" using i k j by simp
  then have "k = i" using nth_eq_iff_index_eq[OF assms(1), of k i] i j k by simp
  then show ?thesis using i k by auto
qed

lemma add_share_mono:
  assumes "rounding rnd" and "point_ok r" and "i \<le> j" and "x \<le> y"
  shows "add_share rnd r (arm, j, d) x \<le> add_share rnd r (arm, i, c) y"
  using share_antimono[OF assms(1-3), of arm] assms(4)
  by (auto simp: add_share_def intro!: roundingD(1)[OF assms(1)] add_mono)

lemma add_share_grows:
  assumes "rounding rnd" and "point_ok r" and "rnd x = x"
  shows "x \<le> add_share rnd r (arm, i, c) x"
proof -
  have "rnd x \<le> rnd (x + share rnd r arm i)"
    using share_nonneg[OF assms(1,2), of arm i] by (intro roundingD(1)[OF assms(1)]) simp
  then show ?thesis using assms(3) by (simp add: add_share_def)
qed

lemma rnd_add_share: "rounding rnd \<Longrightarrow> rnd (add_share rnd r row x) = add_share rnd r row x"
  by (simp add: add_share_def roundingD(2) split: prod.split)

lemma ahead_scores:
  assumes "rounding rnd" and "point_ok r" and "\<forall>arm \<in> set arms. distinct (map c_key (candidates arm))"
    and "ahead candidates arms a b" and "x \<le> y" and "rnd y = y"
  shows "fold (add_share rnd r) (of_key b (occurrences candidates arms)) x
       \<le> fold (add_share rnd r) (of_key a (occurrences candidates arms)) y"
  using assms(3-)
proof (induction arms arbitrary: x y)
  case (Cons arm arms)
  have d: "distinct (map c_key (candidates arm))" and one: "ahead candidates [arm] a b"
    and rest: "ahead candidates arms a b" using Cons.prems by (simp_all add: ahead_def)
  let ?B = "of_key b (arm_rows candidates arm)" and ?A = "of_key a (arm_rows candidates arm)"
  have "fold (add_share rnd r) ?B x \<le> fold (add_share rnd r) ?A y \<and>
      rnd (fold (add_share rnd r) ?A y) = fold (add_share rnd r) ?A y"
  proof (cases ?B)
    case Nil
    have "?A = [] \<or> (\<exists>i c. ?A = [(arm, i, c)])" using of_key_arm[where candidates = candidates and arm = arm, OF d, of a] by blast
    then show ?thesis using Nil Cons.prems(3,4) add_share_grows[OF assms(1,2) Cons.prems(4)]
      by (auto simp: rnd_add_share[OF assms(1)] intro: order_trans)
  next
    case (Cons row rows)
    then obtain j e where B: "?B = [(arm, j, e)]" using of_key_arm[where candidates = candidates and arm = arm, OF d, of b] by auto
    with ahead_arm[OF d one] obtain i c where A: "i < j" "?A = [(arm, i, c)]" by blast
    then show ?thesis
      using B add_share_mono[OF assms(1,2) _ Cons.prems(3), of i j] by (simp add: rnd_add_share[OF assms(1)])
  qed
  then show ?case using Cons.IH[OF _ rest] Cons.prems(1) by simp
qed simp


lemma sorted_wrt_before:
  assumes "sorted_wrt P xs" and "x \<in> set xs" and "y \<in> set xs" and "\<not> P y x" and "x \<noteq> y"
  shows "\<exists>us vs ws. xs = us @ x # vs @ y # ws"
proof -
  obtain us rest where xs: "xs = us @ x # rest" using split_list[OF assms(2)] by blast
  then have "y \<in> set rest" using assms by (auto simp: sorted_wrt_append)
  then obtain vs ws where "rest = vs @ y # ws" using split_list[of y rest] by blast
  then show ?thesis using xs by blast
qed

lemma ordered_item:
  assumes "key \<noteq> []" and "of_key key (occurrences candidates arms) \<noteq> []"
  obtains x where "x \<in> set (ordered (fuse rnd candidates max_results r arms))" and "f_key x = key"
    and "f_score x = fold (add_share rnd r) (of_key key (occurrences candidates arms)) 0"
    and "f_best_rank x \<in> row_rank ` set (of_key key (occurrences candidates arms))"
    and "\<forall>row \<in> set (of_key key (occurrences candidates arms)). f_best_rank x \<le> row_rank row"
proof -
  have "key \<in> f_key ` set (ordered (fuse rnd candidates max_results r arms))"
    using assms by (simp add: ordered_key_set)
  then obtain x where x: "x \<in> set (ordered (fuse rnd candidates max_results r arms))" "f_key x = key"
    by blast
  then obtain s where s: "(key, s) \<in> set (fuse_arms rnd r candidates arms)" "x = fused_of (key, s)"
    by (metis ordered_memD)
  then have "slot_right rnd r (of_key key (occurrences candidates arms)) s"
    using fuse_arms_right by blast
  with x s(2) that show ?thesis by (simp add: slot_right_def add_share_def)
qed

lemma in_occurrences:
  "(arm, i, c) \<in> set (occurrences candidates arms) \<longleftrightarrow>
     arm \<in> set arms \<and> i < length (candidates arm) \<and> c = candidates arm ! i"
  by (induction arms) (auto simp: arm_rows_def in_set_enumerate_eq image_iff)

lemma of_key_occurrences:
  "set (of_key key (occurrences candidates arms)) =
     {(arm, i, candidates arm ! i) |arm i. arm \<in> set arms \<and> i < length (candidates arm) \<and>
        c_key (candidates arm ! i) = key}"
  by (auto simp: of_key_def in_occurrences)

text \<open>
  Agreement between the arms is what promotes a result. If in every arm that returned
  \<open>b\<close> the key \<open>a\<close> stands before it, then \<open>a\<close> stands before \<open>b\<close> in the fused order: whatever weights
  and whatever constant a clamped point sets, whatever other arms returned \<open>a\<close> as well, and
  however the float operations round, as long as rounding is monotone, idempotent and exact on
  0 and 1, and each arm returns a key once.
\<close>

theorem agreement_wins:
  assumes "rounding rnd" and "point_ok r"
    and "\<forall>arm \<in> set arms. distinct (map c_key (candidates arm))"
    and "\<forall>arm \<in> set arms. \<forall>j < length (candidates arm). c_key (candidates arm ! j) = b \<longrightarrow>
           (\<exists>i < j. c_key (candidates arm ! i) = a)"
    and "\<exists>arm \<in> set arms. b \<in> c_key ` set (candidates arm)" and "a \<noteq> []" and "b \<noteq> []"
  shows "\<exists>us x vs y ws. ordered (fuse rnd candidates max_results r arms) = us @ x # vs @ y # ws \<and>
    f_key x = a \<and> f_key y = b"
proof -
  let ?os = "\<lambda>key. of_key key (occurrences candidates arms)"
  have ah: "ahead candidates arms a b" using assms(4) unfolding ahead_def .
  obtain arm j where j: "arm \<in> set arms" "j < length (candidates arm)" "c_key (candidates arm ! j) = b"
    using assms(5) by (metis imageE in_set_conv_nth)
  then have b: "(arm, j, candidates arm ! j) \<in> set (?os b)" by (auto simp: of_key_occurrences)
  obtain i where i: "i < j" "c_key (candidates arm ! i) = a" using assms(4) j by blast
  then have a: "(arm, i, candidates arm ! i) \<in> set (?os a)" using j by (auto simp: of_key_occurrences)
  have a_rows: "?os a \<noteq> []" and b_rows: "?os b \<noteq> []" using a b by (metis empty_iff empty_set)+
  obtain y where y: "y \<in> set (ordered (fuse rnd candidates max_results r arms))" "f_key y = b"
      "f_score y = fold (add_share rnd r) (?os b) 0" "f_best_rank y \<in> row_rank ` set (?os b)"
    by (rule ordered_item[OF assms(7) b_rows, of rnd max_results r])
  obtain x where x: "x \<in> set (ordered (fuse rnd candidates max_results r arms))" "f_key x = a"
      "f_score x = fold (add_share rnd r) (?os a) 0" "\<forall>row \<in> set (?os a). f_best_rank x \<le> row_rank row"
    by (rule ordered_item[OF assms(6) a_rows, of rnd max_results r])
  have "f_score y \<le> f_score x"
    unfolding x(3) y(3) by (rule ahead_scores[OF assms(1-3) ah]) (simp_all add: roundingD(3)[OF assms(1)])
  moreover have "f_best_rank x < f_best_rank y"
  proof -
    obtain arm' k where k: "arm' \<in> set arms" "k < length (candidates arm')"
        "c_key (candidates arm' ! k) = b" "f_best_rank y = k + 1"
      using y(4) by (auto simp: of_key_occurrences)
    then obtain l where l: "l < k" "c_key (candidates arm' ! l) = a" using assms(4) by blast
    then have "(arm', l, candidates arm' ! l) \<in> set (?os a)" using k by (auto simp: of_key_occurrences)
    then show ?thesis using x(4) k l by fastforce
  qed
  ultimately have "\<not> item_order y < item_order x" and "x \<noteq> y"
    by (auto simp: item_order_def less_prod_def)
  with sorted_wrt_before[OF ordered_strict x(1) y(1)] x(2) y(2) show ?thesis by blast
qed

theorem agreement_wins_witness:
  "\<exists>us x vs y ws. ordered (fuse fixed_point demo_arms 10 DEFAULT_RANKING ARM_ORDER) = us @ x # vs @ y # ws \<and>
     f_key x = ''c1'' \<and> f_key y = ''d1''"
proof (rule agreement_wins[OF rounding_fixed_point])
  show "point_ok DEFAULT_RANKING" unfolding DEFAULT_RANKING_def by (rule new_ranking_ok)
qed (auto simp: ARM_ORDER_def demo_arms_def demo_row_def less_Suc_eq)

section \<open>Re-fusion gives back what the query served\<close>

lemma by_arm_simps [simp]:
  "by_arm t v g ''text'' = t" "by_arm t v g ''vector'' = v" "by_arm t v g ''graph'' = g"
  by (simp_all add: by_arm_def)

lemma by_arm_other: "arm \<notin> set ARM_ORDER \<Longrightarrow> by_arm t v g arm = []"
  by (simp add: by_arm_def ARM_ORDER_def)

lemma candidate_of_entry_row:
  "candidate_of_entry (capture_row h) =
     \<lparr>c_key = key_of h, c_node_id = identity_of h, c_kind = str_or (hit_kind h) []\<rparr>"
  by (simp add: candidate_of_entry_def capture_row_def)

lemma fuse_only_arms:
  assumes "\<And>arm. arm \<in> set arms \<Longrightarrow> f arm = g arm"
  shows "fuse rnd f max_results r arms = fuse rnd g max_results r arms"
proof -
  have "occurrences f arms = occurrences g arms"
    unfolding occurrences_def using assms by (auto intro!: arg_cong[where f = concat])
  then show ?thesis by (simp add: fuse_def fuse_arms_occurrences)
qed

lemma selected_memD:
  assumes "x \<in> set (selected (fuse rnd candidates max_results r arms))"
  obtains i where "f_arm x \<in> set arms" and "f_position x < length (candidates (f_arm x))"
    and "f_node_id x = c_node_id (candidates (f_arm x) ! f_position x)"
proof -
  have "selected (fuse rnd candidates max_results r arms) =
      take (nat max_results) (first_rows {} (ordered (fuse rnd candidates max_results r arms)))"
    by (simp add: fuse_def Let_def select_results_first_rows[of "[]" "{}"])
  then have "x \<in> set (ordered (fuse rnd candidates max_results r arms))"
    using assms first_rows_subset by (metis in_set_takeD subsetD)
  then obtain s where s: "(f_key x, s) \<in> set (fuse_arms rnd r candidates arms)" "x = fused_of (f_key x, s)"
    by (metis ordered_memD)
  obtain arm i c where held: "s_held s = (arm, i, c)" by (cases "s_held s") auto
  then have "(arm, i, c) \<in> set (of_key (f_key x) (occurrences candidates arms))"
    using fuse_arms_right[OF s(1)] by (simp add: slot_right_def)
  moreover have "f_arm x = arm \<and> f_position x = i \<and> f_node_id x = c_node_id c"
    using fused_of_held[OF held, of "f_key x"] s(2) by simp
  ultimately show ?thesis using that by (auto simp: of_key_occurrences)
qed


text \<open>A hit whose identity in a capture is the node id the merge deduplicates on.\<close>

definition plain_hit :: "hit \<Rightarrow> bool" where
  "plain_hit h \<longleftrightarrow> key_of h \<noteq> [] \<and> identity_of h = str_or (hit_node_id h) []"

lemma candidates_captured:
  assumes "\<forall>h \<in> set hs. plain_hit h" and "length hs \<le> EXPLAIN_MAX_IDS"
  shows "filter (\<lambda>c. c_key c \<noteq> []) (map candidate_of_entry (capture_arm hs)) = map candidate_of hs"
proof -
  have "filter (\<lambda>h. key_of h \<noteq> []) hs = hs" using assms(1) by (simp add: plain_hit_def)
  then have "capture_arm hs = map capture_row hs" using assms(2) by (simp add: capture_arm_def)
  then show ?thesis using assms(1)
    by (simp add: candidate_of_entry_row candidate_of_def plain_hit_def filter_map comp_def)
qed

lemma map_enumerate_snd: "map (\<lambda>x. f (snd x)) (enumerate n xs) = map f xs"
  using map_map[of f snd "enumerate n xs"] by (simp add: comp_def)

lemma served_identities:
  assumes "\<forall>h \<in> set (t @ v @ g). plain_hit h"
  shows "map (\<lambda>row. identity_of (rr_hit row)) (merge_rrf rnd t v g m r) =
    map f_node_id (selected (merged_arms rnd t v g m r))"
proof -
  have hits: "map (\<lambda>row. identity_of (rr_hit row)) (merge_rrf rnd t v g m r) =
      map (\<lambda>x. identity_of (by_arm t v g (f_arm x) ! f_position x)) (selected (merged_arms rnd t v g m r))"
    by (simp add: merge_rrf_def comp_def case_prod_beta'
        map_enumerate_snd[where f = "\<lambda>x. identity_of (by_arm t v g (f_arm x) ! f_position x)"])
  have "identity_of (by_arm t v g (f_arm x) ! f_position x) = f_node_id x"
    if "x \<in> set (selected (merged_arms rnd t v g m r))" for x
  proof -
    let ?hs = "by_arm t v g (f_arm x)"
    have x: "f_arm x \<in> set ARM_ORDER" "f_position x < length ?hs"
      "f_node_id x = c_node_id (map candidate_of ?hs ! f_position x)"
      by (rule selected_memD[OF that[unfolded merged_arms_def]]; simp)+
    have "?hs ! f_position x \<in> set (t @ v @ g)"
      using x(1) nth_mem[OF x(2)] by (auto simp: ARM_ORDER_def)
    then show ?thesis using assms x by (simp add: plain_hit_def candidate_of_def)
  qed
  then show ?thesis using hits by simp
qed

lemma refuse_captured:
  assumes "\<forall>h \<in> set (t @ v @ g). plain_hit h"
    and "length t \<le> EXPLAIN_MAX_IDS" "length v \<le> EXPLAIN_MAX_IDS" "length g \<le> EXPLAIN_MAX_IDS"
  shows "refuse rnd (list_or (fusion_input (capture rnd t v g m r))) m r' ARM_ORDER =
    map (\<lambda>row. identity_of (rr_hit row)) (merge_rrf rnd t v g m r')"
proof -
  have rows: "filter (\<lambda>c. c_key c \<noteq> []) (map candidate_of_entry
      (list_or (map_of (list_or (fusion_input (capture rnd t v g m r))) arm))) =
      map candidate_of (by_arm t v g arm)" if "arm \<in> set ARM_ORDER" for arm
  proof -
    have "list_or (map_of (list_or (fusion_input (capture rnd t v g m r))) arm) = capture_arm (by_arm t v g arm)"
      using that by (auto simp: capture_def Let_def ARM_ORDER_def)
    moreover have "\<forall>h \<in> set (by_arm t v g arm). plain_hit h" "length (by_arm t v g arm) \<le> EXPLAIN_MAX_IDS"
      using that assms by (auto simp: ARM_ORDER_def)
    ultimately show ?thesis by (simp only: candidates_captured)
  qed
  have "refuse rnd (list_or (fusion_input (capture rnd t v g m r))) m r' ARM_ORDER =
      map f_node_id (selected (merged_arms rnd t v g m r'))"
    unfolding refuse_def merged_arms_def
    by (rule arg_cong[where f = "\<lambda>x. map f_node_id (selected x)"], rule fuse_only_arms) (simp add: rows)
  then show ?thesis by (simp add: served_identities[OF assms(1)])
qed

text \<open>
  Claim C39: re-fusing a captured query is running it. If no arm returned more rows than a capture
  holds, and every row has a fusion key and is identified by its node id, then the re-fusion of
  the captured lists at any parameters returns, id for id, what the query path would have served
  at those parameters; so the baseline check passes, and a trial over fusion parameters needs no
  retrieval.
\<close>

theorem refusion_reproduces_query:
  assumes "\<forall>h \<in> set (t @ v @ g). key_of h \<noteq> [] \<and> identity_of h = str_or (hit_node_id h) []"
    and "length t \<le> EXPLAIN_MAX_IDS \<and> length v \<le> EXPLAIN_MAX_IDS \<and> length g \<le> EXPLAIN_MAX_IDS"
    and "m \<noteq> 0" and "t @ v @ g \<noteq> []"
  shows "verify_equivalence rnd (capture rnd t v g m r) r = Equivalent \<and>
    refuse rnd (list_or (fusion_input (capture rnd t v g m r))) m r' ARM_ORDER =
      map (\<lambda>row. identity_of (rr_hit row)) (merge_rrf rnd t v g m r')"
proof -
  have plain: "\<forall>h \<in> set (t @ v @ g). plain_hit h" using assms(1) unfolding plain_hit_def .
  note refused = refuse_captured[OF plain, of rnd m r]
  have some: "\<exists>arm \<in> set ARM_ORDER. by_arm t v g arm \<noteq> []"
    using assms(4) by (auto simp: ARM_ORDER_def)
  have "capture_arm hs \<noteq> []" if "hs \<noteq> []" "\<forall>h \<in> set hs. plain_hit h" for hs
    using that by (cases hs) (simp_all add: capture_arm_def EXPLAIN_MAX_IDS_def plain_hit_def)
  then have rows: "\<exists>arm \<in> set ARM_ORDER. capture_arm (by_arm t v g arm) \<noteq> []"
    using some plain by (auto simp: ARM_ORDER_def)
  have "refusable (capture rnd t v g m r)"
    using assms(2,3) rows by (auto simp: refusable_def capture_def Let_def ARM_ORDER_def)
  moreover have "int_or (st_max_results (capture rnd t v g m r)) d = m" for d
    using assms(3) by (simp add: capture_def Let_def int_or_def)
  moreover have "list_or (returned (capture rnd t v g m r)) =
      map (\<lambda>row. identity_of (rr_hit row)) (merge_rrf rnd t v g m r)"
    by (simp add: capture_def Let_def)
  ultimately show ?thesis using refused assms(2) by (simp add: verify_equivalence_def Let_def)
qed

definition chunk_hit :: "string \<Rightarrow> string \<Rightarrow> hit" where
  "chunk_hit chunk node = \<lparr>hit_chunk_id = Some chunk, hit_node_id = Some node, hit_title = None,
     hit_kind = Some ''chunk''\<rparr>"

theorem refusion_reproduces_query_witness:
  "verify_equivalence fixed_point
     (capture fixed_point [chunk_hit ''c1'' ''f1'', chunk_hit ''c2'' ''f1''] [chunk_hit ''d1'' ''f2''] [] 5
        DEFAULT_RANKING) DEFAULT_RANKING = Equivalent"
proof -
  have "\<forall>h \<in> set ([chunk_hit ''c1'' ''f1'', chunk_hit ''c2'' ''f1''] @ [chunk_hit ''d1'' ''f2''] @ []).
      key_of h \<noteq> [] \<and> identity_of h = str_or (hit_node_id h) []"
    by (simp add: chunk_hit_def key_of_def identity_of_def)
  from refusion_reproduces_query[OF this, of 5 fixed_point DEFAULT_RANKING] show ?thesis
    by (simp add: EXPLAIN_MAX_IDS_def)
qed


text \<open>
  A row with no fusion key takes a rank in the merge and none in the capture, so the ranks
  after it differ: here the query serves \<open>b\<close> before \<open>a\<close>, the re-fusion \<open>a\<close> before \<open>b\<close>.
\<close>

definition keyless_hit :: hit where
  "keyless_hit = \<lparr>hit_chunk_id = None, hit_node_id = None, hit_title = None, hit_kind = None\<rparr>"

lemma keyless_row_diverges:
  "verify_equivalence id (capture id [keyless_hit, chunk_hit ''a'' ''a''] [chunk_hit ''b'' ''b''] [] 5
     (DEFAULT_RANKING\<lparr>numbers := [''rrf_k'' \<mapsto> Num 60]\<rparr>))
     (DEFAULT_RANKING\<lparr>numbers := [''rrf_k'' \<mapsto> Num 60]\<rparr>) = DivergesAt 1 ''a'' ''b''"
  by code_simp

end
