(* ===== verification/Chunking.thy ===== *)
theory Chunking
  imports PyText
begin

text \<open>
  \<open>src/pheasant/ingestion/chunking.py\<close> and the chunking of \<open>src/pheasant/ingestion/pipeline.py\<close>: cutting
  a text into overlapping windows, one section at a time where a source is structured, and
  labelling each chunk with the section it falls inside.

  Offsets are unbounded integers, as Python's are, so a nonsensical configuration (no size, a
  negative overlap) has the slices Python gives it. Text is ASCII.
\<close>

section \<open>Fixed windows\<close>

record text_chunk =
  tc_index :: nat
  tc_text :: string
  tc_start_line :: nat
  tc_end_line :: nat
  tc_heading_path :: "string option"

definition token_estimate :: "text_chunk \<Rightarrow> nat" where
  "token_estimate c = max 1 (length (tc_text c) div 4)"

text \<open>The offset of each line's first character, if every line break is one character.\<close>

fun line_offsets :: "int \<Rightarrow> string list \<Rightarrow> int list" where
  "line_offsets pos [] = []"
| "line_offsets pos (line # lines) = pos # line_offsets (pos + int (length line) + 1) lines"

definition window_end :: "string \<Rightarrow> int \<Rightarrow> int \<Rightarrow> int" where
  "window_end text max_chars start =
     (let e = min (int (length text)) (start + max_chars);
          newline = py_rfind [CHR 0x0A] text start e
      in if e < int (length text) \<and> start + max_chars div 2 < newline then newline else e)"

function chunk_loop ::
  "string \<Rightarrow> nat \<Rightarrow> int list \<Rightarrow> int \<Rightarrow> int \<Rightarrow> string option \<Rightarrow> int \<Rightarrow> nat \<Rightarrow> text_chunk list" where
  "chunk_loop text n_lines offsets max_chars overlap_chars heading start index =
     (if int (length text) \<le> start then []
      else let e = window_end text max_chars start;
               chunk = py_strip (py_slice text start e);
               here = (if chunk = [] then []
                 else [\<lparr>tc_index = index, tc_text = chunk,
                        tc_start_line = count_or (bisect_right offsets start) 1,
                        tc_end_line = count_or (bisect_right offsets e) (count_or n_lines 1),
                        tc_heading_path = heading\<rparr>])
           in here @ (if int (length text) \<le> e then []
                      else chunk_loop text n_lines offsets max_chars overlap_chars heading
                             (max (e - overlap_chars) (start + 1)) (index + length here)))"
  by pat_completeness auto
termination
  by (relation "measure (\<lambda>(text, n_lines, offsets, max_chars, overlap_chars, heading, start, index).
      nat (int (length text) - start))") auto

declare chunk_loop.simps [simp del]

definition chunk_text :: "string \<Rightarrow> int \<Rightarrow> int \<Rightarrow> string option \<Rightarrow> text_chunk list" where
  "chunk_text text max_chars overlap_chars heading =
     (if text = [] then []
      else let lines = py_splitlines text
           in chunk_loop text (length lines) (line_offsets 0 lines) max_chars overlap_chars heading 0 0)"

section \<open>Chunks of a source\<close>

text \<open>What these functions read of a heading and of a source.\<close>

record section_heading =
  sh_line :: nat
  sh_path :: string

record source_chunking =
  enabled :: bool
  max_chars :: int
  overlap_chars :: int
  split_on_sections :: bool

definition heading_path_for_line :: "section_heading list \<Rightarrow> nat \<Rightarrow> string option" where
  "heading_path_for_line headings line =
     (case takeWhile (\<lambda>h. sh_line h \<le> line) headings of
        [] \<Rightarrow> None
      | hs \<Rightarrow> Some (sh_path (last hs)))"

definition segment_text :: "string list \<Rightarrow> nat \<Rightarrow> nat \<Rightarrow> string" where
  "segment_text lines start stop =
     join_with [CHR 0x0A] (py_slice lines (int start - 1) (int stop - 1))"

fun heading_spans :: "nat \<Rightarrow> section_heading list \<Rightarrow> (nat \<times> nat \<times> string option) list" where
  "heading_spans n_lines [] = []"
| "heading_spans n_lines (h # hs) =
     (let stop = (case hs of [] \<Rightarrow> n_lines + 1 | next # _ \<Rightarrow> sh_line next)
      in (if sh_line h < stop then [(sh_line h, stop, Some (sh_path h))] else []) @ heading_spans n_lines hs)"

definition section_spans :: "nat \<Rightarrow> section_heading list \<Rightarrow> (nat \<times> nat \<times> string option) list" where
  "section_spans n_lines headings =
     (case headings of [] \<Rightarrow> [] | h # _ \<Rightarrow> if 1 < sh_line h then [(1, sh_line h, None)] else [])
     @ heading_spans n_lines headings"

fun section_loop ::
  "source_chunking \<Rightarrow> string list \<Rightarrow> (nat \<times> nat \<times> string option) list \<Rightarrow> nat \<Rightarrow> text_chunk list" where
  "section_loop src lines [] index = []"
| "section_loop src lines ((start, stop, path) # spans) index =
     (let segment = segment_text lines start stop
      in if py_strip segment = [] then section_loop src lines spans index
         else let chunks = chunk_text segment (max_chars src) (overlap_chars src) None
              in map (\<lambda>(i, c). c\<lparr>tc_index := i, tc_start_line := start - 1 + tc_start_line c,
                        tc_end_line := start - 1 + tc_end_line c, tc_heading_path := path\<rparr>)
                   (enumerate index chunks)
                 @ section_loop src lines spans (index + length chunks))"

definition section_aligned_chunks ::
  "source_chunking \<Rightarrow> string \<Rightarrow> section_heading list \<Rightarrow> text_chunk list" where
  "section_aligned_chunks src text headings =
     (let lines = py_splitlines text
      in section_loop src lines (section_spans (length lines) headings) 0)"

definition chunks_for_source ::
  "source_chunking \<Rightarrow> string \<Rightarrow> section_heading list option \<Rightarrow> text_chunk list" where
  "chunks_for_source src text headings =
     (if text = [] then []
      else if list_or headings \<noteq> [] \<and> split_on_sections src \<and> enabled src
           then section_aligned_chunks src text (list_or headings)
      else let chunks = (if \<not> enabled src
             then [\<lparr>tc_index = 0, tc_text = text, tc_start_line = 1,
                    tc_end_line = count_or (length (py_splitlines text)) 1, tc_heading_path = None\<rparr>]
             else chunk_text text (max_chars src) (overlap_chars src) None)
           in if list_or headings = [] then chunks
              else map (\<lambda>c. c\<lparr>tc_heading_path :=
                          heading_path_for_line (list_or headings) (tc_start_line c)\<rparr>) chunks)"

section \<open>Windows cover the text\<close>

text \<open>
  A list of windows that starts at \<open>a\<close>, ends at \<open>b\<close> and leaves no gap: each one starts after the
  one before it starts and no later than it ends.
\<close>

fun chained :: "int \<Rightarrow> int \<Rightarrow> (int \<times> int) list \<Rightarrow> bool" where
  "chained a b [] \<longleftrightarrow> False"
| "chained a b [(s, e)] \<longleftrightarrow> s = a \<and> s < e \<and> e = b"
| "chained a b ((s, e) # w # ws) \<longleftrightarrow> s = a \<and> s < e \<and> e \<le> b \<and> s < fst w \<and> fst w \<le> e \<and> chained (fst w) b (w # ws)"

lemma chained_bounds: "chained a b ws \<Longrightarrow> (s, e) \<in> set ws \<Longrightarrow> a \<le> s \<and> s < e \<and> e \<le> b"
  by (induction a b ws rule: chained.induct) fastforce+

lemma chained_covers: "chained a b ws \<Longrightarrow> a \<le> p \<Longrightarrow> p < b \<Longrightarrow> \<exists>(s, e) \<in> set ws. s \<le> p \<and> p < e"
proof (induction a b ws rule: chained.induct)
  case (3 a b s e w ws)
  show ?case
  proof (cases "p < fst w")
    case True
    then show ?thesis using 3 by auto
  next
    case False
    then have "\<exists>(s, e) \<in> set (w # ws). s \<le> p \<and> p < e" using 3 by simp
    then show ?thesis by auto
  qed
qed auto

lemma chained_Cons:
  "chained a' b ws \<Longrightarrow> a < a' \<Longrightarrow> a' \<le> e \<Longrightarrow> e \<le> b \<Longrightarrow> chained a b ((a, e) # ws)"
  by (cases ws) (auto elim: chained.elims)


lemma window_end_bounds:
  assumes "0 \<le> start" and "start < int (length doc)" and "0 < m"
  shows "start < window_end doc m start \<and> window_end doc m start \<le> int (length doc) \<and>
    window_end doc m start - start \<le> m"
proof -
  let ?e = "min (int (length doc)) (start + m)"
  let ?nl = "py_rfind [CHR 0x0A] doc start ?e"
  have e: "start < ?e" "?e \<le> int (length doc)" using assms by auto
  have "?nl \<le> ?e" if "?nl \<noteq> -1"
  proof -
    have "?nl + 1 \<le> int (norm_index ?e doc)" using py_rfind_found[OF refl that] by simp
    also have "\<dots> = ?e" using e assms(1) by (subst norm_index_in) simp_all
    finally show ?thesis by simp
  qed
  moreover have "0 \<le> m div 2" using assms(3) by simp
  ultimately show ?thesis using e assms unfolding window_end_def Let_def by (cases "?nl = -1") auto
qed

text \<open>
  The windows a loop cuts from \<open>start\<close> on: each ends where \<open>stop\<close> says, and the next starts where
  \<open>restart\<close> says, but at least one character further on.
\<close>

function cut_windows :: "(int \<Rightarrow> int) \<Rightarrow> (int \<Rightarrow> int \<Rightarrow> int) \<Rightarrow> int \<Rightarrow> int \<Rightarrow> (int \<times> int) list" where
  "cut_windows stop restart n start =
     (if n \<le> start then []
      else (start, stop start) #
        (if n \<le> stop start then []
         else cut_windows stop restart n (max (restart start (stop start)) (start + 1))))"
  by pat_completeness auto
termination
  by (relation "measure (\<lambda>(stop, restart, n, start). nat (n - start))") auto

declare cut_windows.simps [simp del]

lemma cut_windows_chained:
  assumes "\<And>s. 0 \<le> s \<Longrightarrow> s < n \<Longrightarrow> s < stop s \<and> stop s \<le> n \<and> stop s - s \<le> m \<and> restart s (stop s) \<le> stop s"
    and "0 \<le> start" and "start < n"
  shows "chained start n (cut_windows stop restart n start) \<and>
    (\<forall>(s, e) \<in> set (cut_windows stop restart n start). e - s \<le> m)"
  using assms
proof (induction stop restart n start rule: cut_windows.induct)
  case (1 stop restart n start)
  let ?e = "stop start"
  let ?nxt = "max (restart start ?e) (start + 1)"
  have e: "start < ?e" "?e \<le> n" "?e - start \<le> m" "restart start ?e \<le> ?e" using 1(2)[of start] 1(3,4) by auto
  have nxt: "start < ?nxt" "?nxt \<le> ?e" "0 \<le> ?nxt" using e 1(3) by auto
  show ?case
  proof (cases "n \<le> ?e")
    case True
    then have "cut_windows stop restart n start = [(start, ?e)]"
      using 1(4) by (subst cut_windows.simps) simp
    then show ?thesis using e True by simp
  next
    case False
    then have ih: "chained ?nxt n (cut_windows stop restart n ?nxt) \<and>
        (\<forall>(s, e) \<in> set (cut_windows stop restart n ?nxt). e - s \<le> m)"
      using 1(2,4) nxt by (intro 1(1)) auto
    have "cut_windows stop restart n start = (start, ?e) # cut_windows stop restart n ?nxt"
      using False 1(4) by (subst cut_windows.simps) simp
    then show ?thesis using ih e(3) chained_Cons[OF conjunct1[OF ih] nxt(1,2) e(2)] by simp
  qed
qed

definition text_windows :: "string \<Rightarrow> int \<Rightarrow> int \<Rightarrow> int \<Rightarrow> (int \<times> int) list" where
  "text_windows doc m ov = cut_windows (window_end doc m) (\<lambda>s e. e - ov) (int (length doc))"

lemma text_windows_simps:
  "text_windows doc m ov start =
     (if int (length doc) \<le> start then []
      else (start, window_end doc m start) #
        (if int (length doc) \<le> window_end doc m start then []
         else text_windows doc m ov (max (window_end doc m start - ov) (start + 1))))"
  unfolding text_windows_def by (rule cut_windows.simps)

lemma text_windows_chained:
  assumes "0 < m" and "0 \<le> ov" and "0 \<le> start" and "start < int (length doc)"
  shows "chained start (int (length doc)) (text_windows doc m ov start) \<and>
    (\<forall>(s, e) \<in> set (text_windows doc m ov start). e - s \<le> m)"
  unfolding text_windows_def using window_end_bounds assms by (intro cut_windows_chained) auto

text \<open>What a window becomes: its stripped doc and the lines its ends fall on.\<close>

definition window_row :: "string \<Rightarrow> nat \<Rightarrow> int list \<Rightarrow> int \<times> int \<Rightarrow> string \<times> nat \<times> nat" where
  "window_row doc n_lines offsets = (\<lambda>(s, e). (py_strip (py_slice doc s e),
     count_or (bisect_right offsets s) 1, count_or (bisect_right offsets e) (count_or n_lines 1)))"

definition chunk_row :: "text_chunk \<Rightarrow> string \<times> nat \<times> nat" where
  "chunk_row c = (tc_text c, tc_start_line c, tc_end_line c)"

lemma chunk_loop_windows:
  "map chunk_row (chunk_loop doc n_lines offsets m ov heading start index) =
     filter (\<lambda>r. fst r \<noteq> []) (map (window_row doc n_lines offsets) (text_windows doc m ov start)) \<and>
   map tc_index (chunk_loop doc n_lines offsets m ov heading start index) =
     [index..<index + length (chunk_loop doc n_lines offsets m ov heading start index)] \<and>
   (\<forall>c \<in> set (chunk_loop doc n_lines offsets m ov heading start index). tc_heading_path c = heading)"
proof (induction doc n_lines offsets m ov heading start index rule: chunk_loop.induct)
  case (1 doc n_lines offsets m ov heading start index)
  let ?e = "window_end doc m start"
  let ?here = "if py_strip (py_slice doc start ?e) = [] then []
                 else [\<lparr>tc_index = index, tc_text = py_strip (py_slice doc start ?e),
                        tc_start_line = count_or (bisect_right offsets start) 1,
                        tc_end_line = count_or (bisect_right offsets ?e) (count_or n_lines 1),
                        tc_heading_path = heading\<rparr>]"
  show ?case
  proof (cases "int (length doc) \<le> start \<or> int (length doc) \<le> ?e")
    case True
    then show ?thesis
      by (auto simp: chunk_loop.simps[of doc n_lines offsets m ov heading start index] Let_def
          text_windows_simps[of doc m ov start] window_row_def chunk_row_def)
  next
    case False
    let ?rest = "chunk_loop doc n_lines offsets m ov heading (max (?e - ov) (start + 1)) (index + length ?here)"
    have here: "map chunk_row ?here = filter (\<lambda>r. fst r \<noteq> []) [window_row doc n_lines offsets (start, ?e)]"
      "map tc_index ?here = [index..<index + length ?here]" "\<forall>c \<in> set ?here. tc_heading_path c = heading"
      by (simp_all add: window_row_def chunk_row_def)
    have unfold: "chunk_loop doc n_lines offsets m ov heading start index = ?here @ ?rest"
      using False by (simp add: chunk_loop.simps[of doc n_lines offsets m ov heading start index] Let_def)
    have windows: "text_windows doc m ov start = (start, ?e) # text_windows doc m ov (max (?e - ov) (start + 1))"
      using False by (simp add: text_windows_simps[of doc m ov start])
    have "\<not> int (length doc) \<le> start" "\<not> int (length doc) \<le> ?e" using False by simp_all
    note IH = 1[OF this(1) refl refl refl this(2)]
    define here where "here = ?here"
    define rest where "rest = ?rest"
    have numbers: "map tc_index (here @ rest) = [index..<index + length (here @ rest)]"
    proof -
      have "map tc_index (here @ rest) =
          [index..<index + length here] @ [index + length here..<index + length here + length rest]"
        using IH here(2) unfolding here_def rest_def map_append by metis
      also have "\<dots> = [index..<index + length here + length rest]"
        by (rule upt_add_eq_append[symmetric]) simp
      finally show ?thesis by (simp add: add.assoc)
    qed
    have rows: "map chunk_row (here @ rest) = filter (\<lambda>r. fst r \<noteq> [])
        (map (window_row doc n_lines offsets)
          ((start, ?e) # text_windows doc m ov (max (?e - ov) (start + 1))))"
      using IH here(1) unfolding here_def rest_def by simp
    have label: "\<forall>c \<in> set (here @ rest). tc_heading_path c = heading"
      using IH here(3) unfolding here_def rest_def by simp
    show ?thesis using numbers rows label unfolding unfold windows here_def rest_def by blast
  qed
qed

lemma line_offsets_from: "x \<in> set (line_offsets p ls) \<Longrightarrow> p \<le> x"
  by (induction p ls rule: line_offsets.induct) auto

lemma bisect_mono: "x \<le> y \<Longrightarrow> bisect_right xs x \<le> bisect_right xs y"
  unfolding bisect_right_def by (induction xs) auto

lemma bisect_le: "bisect_right xs x \<le> length xs"
  by (simp add: bisect_right_def length_takeWhile_le)

lemma length_line_offsets [simp]: "length (line_offsets p ls) = length ls"
  by (induction p ls rule: line_offsets.induct) auto

lemma bisect_pos: "ls \<noteq> [] \<Longrightarrow> p \<le> x \<Longrightarrow> 1 \<le> bisect_right (line_offsets p ls) x"
  by (cases ls) (simp_all add: bisect_right_def)

lemma window_row_lines:
  assumes "ls \<noteq> []" and "0 \<le> s" and "s < e"
    and "(t, a, b) = window_row doc (length ls) (line_offsets 0 ls) (s, e)"
  shows "1 \<le> a \<and> a \<le> b \<and> b \<le> length ls"
  using assms bisect_pos[of ls 0 s] bisect_pos[of ls 0 e]
    bisect_mono[of s e "line_offsets 0 ls"] bisect_le[of "line_offsets 0 ls" e]
  by (auto simp: window_row_def count_or_def)


text \<open>In a text whose only line breaks are newlines, the binary search finds the line.\<close>

definition unix_text :: "string \<Rightarrow> bool" where
  "unix_text s \<longleftrightarrow> list_all (\<lambda>c. is_break c \<longrightarrow> c = CHR 0x0A) s"

lemma bisect_before: "x < p \<Longrightarrow> bisect_right (line_offsets p ls) x = 0"
  by (cases ls) (simp_all add: bisect_right_def)

lemma count_take_none: "CHR 0x0A \<notin> set l \<Longrightarrow> count_list (take n l) CHR 0x0A = 0"
  by (meson count_notin in_set_takeD)

lemma bisect_line:
  assumes "unix_text doc" and "p \<le> x"
  shows "bisect_right (line_offsets p (py_splitlines doc)) x =
    min (length (py_splitlines doc)) (Suc (count_list (take (nat (x - p)) doc) CHR 0x0A))"
  using assms
proof (induction "length doc" arbitrary: doc p rule: less_induct)
  case less
  define l where "l = takeWhile (\<lambda>c. c \<noteq> CHR 0x0A) doc"
  have l: "CHR 0x0A \<notin> set l" by (auto simp: l_def dest: set_takeWhileD)
  have l_plain: "list_all (\<lambda>c. \<not> is_break c) l"
    unfolding list_all_iff
  proof
    fix c assume "c \<in> set l"
    then have "c \<in> set doc \<and> c \<noteq> CHR 0x0A" unfolding l_def by (rule set_takeWhileD)
    then show "\<not> is_break c" using less(2) unfolding unix_text_def list_all_iff by blast
  qed
  show ?case
  proof (cases "dropWhile (\<lambda>c. c \<noteq> CHR 0x0A) doc")
    case Nil
    then have doc: "doc = l" unfolding l_def by (metis append_Nil2 takeWhile_dropWhile_id)
    then have "py_splitlines doc = (if doc = [] then [] else [doc])"
      using lines_from_plain[OF l_plain, of "[]" "[]"] by (auto simp: py_splitlines_def)
    then show ?thesis using less(3) l doc by (simp add: bisect_right_def count_take_none)
  next
    case (Cons c rest)
    then have c: "c = CHR 0x0A" using hd_dropWhile[of "\<lambda>c. c \<noteq> CHR 0x0A" doc] by simp
    then have doc: "doc = l @ CHR 0x0A # rest"
      using takeWhile_dropWhile_id[of "\<lambda>c. c \<noteq> CHR 0x0A" doc] Cons by (simp add: l_def)
    have lines: "py_splitlines doc = l # py_splitlines rest"
      unfolding doc py_splitlines_def lines_from_plain[OF l_plain] lines_from_newline by simp
    have rest: "unix_text rest" "length rest < length doc" using less(2) by (simp_all add: doc unix_text_def)
    let ?q = "p + int (length l) + 1"
    have head: "bisect_right (line_offsets p (py_splitlines doc)) x =
        Suc (bisect_right (line_offsets ?q (py_splitlines rest)) x)"
      using less(3) by (simp add: lines bisect_right_def)
    show ?thesis
    proof (cases "?q \<le> x")
      case True
      then have "nat (x - p) = length l + Suc (nat (x - ?q))" by linarith
      then have "count_list (take (nat (x - p)) doc) CHR 0x0A =
          Suc (count_list (take (nat (x - ?q)) rest) CHR 0x0A)"
        using l by (simp add: doc count_notin)
      then show ?thesis using head less(1)[OF rest(2,1) True] by (simp add: lines)
    next
      case False
      then have "nat (x - p) \<le> length l" by linarith
      then have "count_list (take (nat (x - p)) doc) CHR 0x0A = 0"
        using l by (simp add: doc count_take_none)
      then show ?thesis using head False by (simp add: bisect_before lines)
    qed
  qed
qed

lemma windows_inside:
  assumes "0 < m" and "0 \<le> ov" and "(s, e) \<in> set (text_windows doc m ov 0)"
  shows "0 \<le> s \<and> s < e \<and> e \<le> int (length doc) \<and> e - s \<le> m"
proof -
  have "doc \<noteq> []" using assms(3) by (auto simp: text_windows_simps)
  then have "chained 0 (int (length doc)) (text_windows doc m ov 0) \<and>
      (\<forall>(s, e) \<in> set (text_windows doc m ov 0). e - s \<le> m)"
    using text_windows_chained[OF assms(1,2), of 0 doc] by simp
  then show ?thesis using chained_bounds[OF _ assms(3)] assms(3) by blast
qed

lemma chunk_text_rows:
  assumes "doc \<noteq> []"
  shows "map chunk_row (chunk_text doc m ov heading) = filter (\<lambda>r. fst r \<noteq> [])
      (map (window_row doc (length (py_splitlines doc)) (line_offsets 0 (py_splitlines doc)))
        (text_windows doc m ov 0)) \<and>
    map tc_index (chunk_text doc m ov heading) = [0..<length (chunk_text doc m ov heading)] \<and>
    (\<forall>c \<in> set (chunk_text doc m ov heading). tc_heading_path c = heading)"
  using chunk_loop_windows[of doc "length (py_splitlines doc)" "line_offsets 0 (py_splitlines doc)" m ov heading 0 0]
  by (simp add: assms chunk_text_def Let_def)

lemma chunk_text_window:
  assumes "0 < m" and "0 \<le> ov" and c: "c \<in> set (chunk_text doc m ov heading)"
  obtains s e where "(s, e) \<in> set (text_windows doc m ov 0)" and "tc_text c = py_strip (py_slice doc s e)"
    and "tc_start_line c = count_or (bisect_right (line_offsets 0 (py_splitlines doc)) s) 1"
    and "1 \<le> tc_start_line c" and "tc_start_line c \<le> tc_end_line c"
    and "tc_end_line c \<le> length (py_splitlines doc)" and "int (length (tc_text c)) \<le> m"
proof -
  let ?ls = "py_splitlines doc"
  have doc: "doc \<noteq> []" using c by (auto simp: chunk_text_def)
  then have ne: "?ls \<noteq> []" by (simp add: splitlines_Nil_iff)
  have "chunk_row c \<in> set (map chunk_row (chunk_text doc m ov heading))" using c by simp
  then have "chunk_row c \<in> set (map (window_row doc (length ?ls) (line_offsets 0 ?ls)) (text_windows doc m ov 0))"
    using chunk_text_rows[OF doc, of m ov heading] by simp
  then obtain s e where w: "(s, e) \<in> set (text_windows doc m ov 0)"
    and row: "chunk_row c = window_row doc (length ?ls) (line_offsets 0 ?ls) (s, e)" by auto
  note inside = windows_inside[OF assms(1,2) w]
  have "length (py_slice doc s e) \<le> nat m"
    using inside by (simp add: py_slice_in nat_mono min.coboundedI2)
  moreover have body: "tc_text c = py_strip (py_slice doc s e)" using row by (simp add: chunk_row_def window_row_def)
  ultimately have "int (length (tc_text c)) \<le> m"
    using py_strip_length[of "py_slice doc s e"] assms(1) by simp
  then show ?thesis
    using that[OF w body] row inside
      window_row_lines[OF ne, of s e "tc_text c" "tc_start_line c" "tc_end_line c" doc]
    by (simp add: chunk_row_def window_row_def)
qed

text \<open>
  Claim C36: the windows of \<open>chunk_text\<close> lose nothing. For any positive size and any overlap that is
  not negative, however large, the loop ends, and there are windows of at most \<open>max_chars\<close>
  characters that together cover every character of the text, such that the chunks are, in order
  and numbered from 0, the stripped texts of the windows that hold more than whitespace, each
  with a line range inside the text; and in a text whose only line breaks are newlines a chunk
  starts on the line of its window's first character.
\<close>

theorem chunks_cover_text:
  assumes "0 < m" and "0 \<le> ov"
  shows "\<exists>ws. (\<forall>p < length doc. \<exists>(s, e) \<in> set ws. s \<le> int p \<and> int p < e) \<and>
    (\<forall>(s, e) \<in> set ws. 0 \<le> s \<and> s < e \<and> e \<le> int (length doc) \<and> e - s \<le> m) \<and>
    map tc_text (chunk_text doc m ov heading) =
      filter (\<lambda>t. t \<noteq> []) (map (\<lambda>(s, e). py_strip (py_slice doc s e)) ws) \<and>
    map tc_index (chunk_text doc m ov heading) = [0..<length (chunk_text doc m ov heading)] \<and>
    (\<forall>c \<in> set (chunk_text doc m ov heading). 1 \<le> tc_start_line c \<and>
       tc_start_line c \<le> tc_end_line c \<and> tc_end_line c \<le> length (py_splitlines doc) \<and>
       int (length (tc_text c)) \<le> m \<and> tc_heading_path c = heading \<and>
       (unix_text doc \<longrightarrow> (\<exists>(s, e) \<in> set ws. tc_text c = py_strip (py_slice doc s e) \<and>
          tc_start_line c = min (length (py_splitlines doc))
            (Suc (count_list (take (nat s) doc) CHR 0x0A)))))"
proof (cases "doc = []")
  case True
  then show ?thesis by (intro exI[of _ "[]"]) (simp add: chunk_text_def)
next
  case False
  let ?ws = "text_windows doc m ov 0" and ?ls = "py_splitlines doc"
  let ?cs = "chunk_text doc m ov heading" and ?offsets = "line_offsets 0 (py_splitlines doc)"
  have cover: "\<forall>p < length doc. \<exists>(s, e) \<in> set ?ws. s \<le> int p \<and> int p < e"
    using chained_covers[OF conjunct1[OF text_windows_chained[OF assms, of 0 doc]]] False by simp
  have bounds: "\<forall>(s, e) \<in> set ?ws. 0 \<le> s \<and> s < e \<and> e \<le> int (length doc) \<and> e - s \<le> m"
    using windows_inside[OF assms] by blast
  note rows = chunk_text_rows[OF False, of m ov heading]
  have "map tc_text ?cs = map fst (map chunk_row ?cs)" by (simp add: chunk_row_def)
  also have "\<dots> = filter (\<lambda>t. t \<noteq> []) (map (\<lambda>w. fst (window_row doc (length ?ls) ?offsets w)) ?ws)"
    unfolding conjunct1[OF rows] by (simp add: filter_map comp_def)
  finally have texts: "map tc_text ?cs = filter (\<lambda>t. t \<noteq> []) (map (\<lambda>(s, e). py_strip (py_slice doc s e)) ?ws)"
    by (simp add: window_row_def case_prod_beta')
  have each: "1 \<le> tc_start_line c \<and> tc_start_line c \<le> tc_end_line c \<and> tc_end_line c \<le> length ?ls \<and>
       int (length (tc_text c)) \<le> m \<and> tc_heading_path c = heading \<and>
       (unix_text doc \<longrightarrow> (\<exists>(s, e) \<in> set ?ws. tc_text c = py_strip (py_slice doc s e) \<and>
          tc_start_line c = min (length ?ls) (Suc (count_list (take (nat s) doc) CHR 0x0A))))"
    if c: "c \<in> set ?cs" for c
  proof -
    obtain s e where w: "(s, e) \<in> set ?ws" "tc_text c = py_strip (py_slice doc s e)"
        "tc_start_line c = count_or (bisect_right ?offsets s) 1"
      and lines: "1 \<le> tc_start_line c" "tc_start_line c \<le> tc_end_line c" "tc_end_line c \<le> length ?ls"
        "int (length (tc_text c)) \<le> m"
      using chunk_text_window[OF assms c] by metis
    have "tc_start_line c = min (length ?ls) (Suc (count_list (take (nat s) doc) CHR 0x0A))" if "unix_text doc"
      using bisect_line[OF that, of 0 s] windows_inside[OF assms w(1)] False w(3)
      by (simp add: count_or_def splitlines_Nil_iff)
    then show ?thesis using lines w c rows by blast
  qed
  show ?thesis
    by (rule exI[of _ ?ws])
      (intro conjI[OF cover] conjI[OF bounds] conjI[OF texts] conjI[OF conjunct1[OF conjunct2[OF rows]]] ballI each)
qed

definition demo_text :: string where
  "demo_text = ''one two'' @ [CHR 0x0A] @ ''three'' @ [CHR 0x0A, CHR 0x0A] @ ''four''"

theorem chunks_cover_text_witness:
  "map tc_index (chunk_text demo_text 9 2 None) = [0..<length (chunk_text demo_text 9 2 None)] \<and>
     map tc_text (chunk_text demo_text 9 2 None) = [''one two'', ''wo'' @ [CHR 0x0A] @ ''three'', ''ee'' @ [CHR 0x0A, CHR 0x0A] @ ''four'']"
proof -
  have "map tc_text (chunk_text demo_text 9 2 None) = [''one two'', ''wo'' @ [CHR 0x0A] @ ''three'', ''ee'' @ [CHR 0x0A, CHR 0x0A] @ ''four'']"
    by code_simp
  moreover have "map tc_index (chunk_text demo_text 9 2 None) = [0..<length (chunk_text demo_text 9 2 None)]"
    using chunks_cover_text[of 9 2 demo_text None] by auto
  ultimately show ?thesis by simp
qed

text \<open>
  A carriage return before each newline shifts every later offset by one, so the line ranges of
  such a text drift: here \<open>f\<close> is line 6 of 8, and its chunk says line 8.
\<close>

definition crlf_text :: string where
  "crlf_text = concat (map (\<lambda>c. [c, CHR 0x0D, CHR 0x0A]) ''abcdefgh'')"

lemma crlf_lines_drift:
  "py_splitlines crlf_text ! 5 = ''f'' \<and> length (py_splitlines crlf_text) = 8 \<and>
     map chunk_row (chunk_text crlf_text 3 0 None) ! 5 = (''f'', 8, 8)"
  by code_simp

section \<open>Sections\<close>

lemma heading_path_in_span:
  assumes "sorted_wrt (\<lambda>h k. sh_line h < sh_line k) headings"
    and "headings = before @ h # after" and "sh_line h \<le> line"
    and "after = [] \<or> line < sh_line (hd after)"
  shows "heading_path_for_line headings line = Some (sh_path h)"
proof -
  have all: "\<forall>k \<in> set (before @ [h]). sh_line k \<le> line"
    using assms(1,3) by (auto simp: assms(2) sorted_wrt_append)
  have "takeWhile (\<lambda>k. sh_line k \<le> line) headings = (before @ [h]) @ takeWhile (\<lambda>k. sh_line k \<le> line) after"
    using all by (simp add: assms(2) takeWhile_append2)
  also have "takeWhile (\<lambda>k. sh_line k \<le> line) after = []"
    using assms(4) by (cases after) auto
  finally have hs: "takeWhile (\<lambda>k. sh_line k \<le> line) headings = before @ [h]" by simp
  show ?thesis by (cases before) (simp_all add: heading_path_for_line_def hs)
qed


lemma heading_path_none:
  assumes "headings = [] \<or> line < sh_line (hd headings)"
  shows "heading_path_for_line headings line = None"
  using assms by (cases headings) (auto simp: heading_path_for_line_def)

text \<open>A span of lines \<open>[start, stop)\<close> and its path, right for every line in it.\<close>

definition span_right :: "section_heading list \<Rightarrow> nat \<Rightarrow> nat \<times> nat \<times> string option \<Rightarrow> bool" where
  "span_right headings n = (\<lambda>(start, stop, path). 1 \<le> start \<and> start < stop \<and> stop \<le> n + 1 \<and>
     (\<forall>line. start \<le> line \<longrightarrow> line < stop \<longrightarrow> heading_path_for_line headings line = path) \<and>
     (\<forall>h \<in> set headings. \<not> (start < sh_line h \<and> sh_line h < stop)))"

definition headings_ok :: "nat \<Rightarrow> section_heading list \<Rightarrow> bool" where
  "headings_ok n headings \<longleftrightarrow> sorted_wrt (\<lambda>h k. sh_line h < sh_line k) headings \<and>
     (\<forall>h \<in> set headings. 1 \<le> sh_line h \<and> sh_line h \<le> n)"

lemma heading_spans_right:
  assumes "headings_ok n (before @ hs)" and "w \<in> set (heading_spans n hs)"
  shows "span_right (before @ hs) n w"
  using assms
proof (induction hs arbitrary: before)
  case (Cons h hs)
  have sorted: "sorted_wrt (\<lambda>h k. sh_line h < sh_line k) (before @ h # hs)"
    and lines: "\<forall>k \<in> set (before @ h # hs). 1 \<le> sh_line k \<and> sh_line k \<le> n"
    using Cons.prems(1) by (simp_all add: headings_ok_def)
  let ?stop = "case hs of [] \<Rightarrow> n + 1 | k # _ \<Rightarrow> sh_line k"
  consider "w = (sh_line h, ?stop, Some (sh_path h))" "sh_line h < ?stop" | "w \<in> set (heading_spans n hs)"
    using Cons.prems(2) by (auto simp: Let_def split: if_splits)
  then show ?case
  proof cases
    case 1
    have stop: "?stop \<le> n + 1" using lines by (cases hs) auto
    have path: "heading_path_for_line (before @ h # hs) line = Some (sh_path h)"
      if "sh_line h \<le> line" "line < ?stop" for line
      using that by (intro heading_path_in_span[OF sorted refl]) (cases hs; auto)+
    have none: "\<not> (sh_line h < sh_line k \<and> sh_line k < ?stop)" if "k \<in> set (before @ h # hs)" for k
    proof -
      have "k \<in> set before \<Longrightarrow> sh_line k < sh_line h" "k \<in> set hs \<Longrightarrow> ?stop \<le> sh_line k"
        using sorted by (auto simp: sorted_wrt_append less_imp_le split: list.split)
      then show ?thesis using that by auto
    qed
    show ?thesis using 1 stop path none lines by (auto simp: span_right_def)
  next
    case 2
    then show ?thesis using Cons.IH[of "before @ [h]"] Cons.prems(1) by simp
  qed
qed simp

lemma section_spans_right:
  assumes "headings_ok n headings" and "w \<in> set (section_spans n headings)"
  shows "span_right headings n w"
proof (cases headings)
  case (Cons h hs)
  consider "1 < sh_line h" "w = (1, sh_line h, None)" | "w \<in> set (heading_spans n headings)"
    using assms(2) by (auto simp: section_spans_def Cons split: if_splits)
  then show ?thesis
  proof cases
    case 1
    have "sh_line h \<le> n + 1" "\<forall>k \<in> set headings. sh_line h \<le> sh_line k"
      using assms(1) by (auto simp: headings_ok_def Cons)
    then show ?thesis using 1 by (fastforce simp: span_right_def Cons heading_path_none)
  next
    case 2
    then show ?thesis using heading_spans_right[of n "[]" headings] assms(1) by simp
  qed
qed (use assms(2) in \<open>simp add: section_spans_def\<close>)


lemma segment_lines:
  assumes "1 \<le> start" and "start < stop" and "stop \<le> length (py_splitlines doc) + 1"
  shows "length (py_splitlines (segment_text (py_splitlines doc) start stop)) \<le> stop - start"
proof -
  let ?ls = "py_slice (py_splitlines doc) (int start - 1) (int stop - 1)"
  have "?ls = take (stop - start) (drop (start - 1) (py_splitlines doc))"
    using assms by (simp add: py_slice_in nat_diff_distrib' of_nat_diff)
  moreover have "length (py_splitlines (segment_text (py_splitlines doc) start stop)) \<le> length ?ls"
    unfolding segment_text_def
    by (rule length_splitlines_join) (auto simp: calculation splitlines_no_breaks dest!: in_set_takeD in_set_dropD)
  ultimately show ?thesis by simp
qed

lemma enumerate_mem: "(i, x) \<in> set (enumerate n xs) \<Longrightarrow> x \<in> set xs"
  by (auto simp: in_set_enumerate_eq)

lemma section_loop_spans:
  assumes "0 < max_chars src" and "0 \<le> overlap_chars src"
    and "\<forall>w \<in> set spans. span_right headings (length (py_splitlines doc)) w"
    and "c \<in> set (section_loop src (py_splitlines doc) spans index)"
  shows "tc_heading_path c = heading_path_for_line headings (tc_start_line c) \<and>
    1 \<le> tc_start_line c \<and> tc_start_line c \<le> tc_end_line c \<and> tc_end_line c \<le> length (py_splitlines doc) \<and>
    int (length (tc_text c)) \<le> max_chars src \<and>
    (\<forall>h \<in> set headings. \<not> (tc_start_line c < sh_line h \<and> sh_line h \<le> tc_end_line c))"
  using assms
proof (induction src "py_splitlines doc" spans index rule: section_loop.induct)
  case (2 src start stop path spans index)
  let ?seg = "segment_text (py_splitlines doc) start stop"
  let ?chunks = "chunk_text ?seg (max_chars src) (overlap_chars src) None"
  have right: "span_right headings (length (py_splitlines doc)) (start, stop, path)" using 2(5) by simp
  consider "c \<in> set (section_loop src (py_splitlines doc) spans index)" "py_strip ?seg = []"
    | "c \<in> set (section_loop src (py_splitlines doc) spans (index + length ?chunks))" "py_strip ?seg \<noteq> []"
    | i d where "d \<in> set ?chunks" "c = d\<lparr>tc_index := i, tc_start_line := start - 1 + tc_start_line d,
                        tc_end_line := start - 1 + tc_end_line d, tc_heading_path := path\<rparr>"
    using 2(6) by (auto simp: Let_def split: if_splits dest: enumerate_mem)
  then show ?case
  proof cases
    case 1
    then show ?thesis using 2(1)[OF refl _ 2(3,4)] 2(5) by simp
  next
    case 2
    then show ?thesis using "2.hyps"(2)[OF refl _ refl "2.prems"(1,2)] "2.prems"(3) by simp
  next
    case 3
    have span: "1 \<le> start" "start < stop" "stop \<le> length (py_splitlines doc) + 1"
      using right by (simp_all add: span_right_def)
    have d: "1 \<le> tc_start_line d" "tc_start_line d \<le> tc_end_line d" "tc_end_line d \<le> stop - start"
        "int (length (tc_text d)) \<le> max_chars src"
      by (rule chunk_text_window[OF 2(3,4) 3(1)], use segment_lines[OF span] in linarith)+
    have "start \<le> tc_start_line c" "tc_start_line c \<le> tc_end_line c" "tc_end_line c < stop"
      using d span 3(2) by auto
    then show ?thesis using right d span 3(2) by (auto simp: span_right_def)
  qed
qed simp


text \<open>
  A chunk is labelled with the section it is in. When the headings are in document
  order and on lines of the text, every chunk of a source carries the path of the innermost
  heading at or above its first line, whether the source is cut section by section, in plain
  windows or not at all; and where it is cut section by section, no heading starts inside a
  chunk after its first line, the chunk's line range is inside the text, and no chunk is longer
  than \<open>max_chars\<close> however long the section.
\<close>

theorem chunks_carry_their_section:
  assumes "sorted_wrt (\<lambda>h k. sh_line h < sh_line k) headings"
    and "\<forall>h \<in> set headings. 1 \<le> sh_line h \<and> sh_line h \<le> length (py_splitlines doc)"
    and "headings \<noteq> []" and "0 < max_chars src" and "0 \<le> overlap_chars src"
    and "c \<in> set (chunks_for_source src doc (Some headings))"
  shows "tc_heading_path c = heading_path_for_line headings (tc_start_line c) \<and>
    (split_on_sections src \<and> enabled src \<longrightarrow>
       1 \<le> tc_start_line c \<and> tc_start_line c \<le> tc_end_line c \<and> tc_end_line c \<le> length (py_splitlines doc) \<and>
       int (length (tc_text c)) \<le> max_chars src \<and>
       (\<forall>h \<in> set headings. \<not> (tc_start_line c < sh_line h \<and> sh_line h \<le> tc_end_line c)))"
proof (cases "split_on_sections src \<and> enabled src")
  case True
  have "headings_ok (length (py_splitlines doc)) headings" using assms(1,2) by (simp add: headings_ok_def)
  then have spans: "\<forall>w \<in> set (section_spans (length (py_splitlines doc)) headings).
      span_right headings (length (py_splitlines doc)) w" using section_spans_right by blast
  have "c \<in> set (section_loop src (py_splitlines doc) (section_spans (length (py_splitlines doc)) headings) 0)"
    using assms(3,6) True by (auto simp: chunks_for_source_def section_aligned_chunks_def Let_def split: if_splits)
  from section_loop_spans[OF assms(4,5) spans this] show ?thesis by blast
next
  case False
  then show ?thesis using assms(3,6) by (auto simp: chunks_for_source_def Let_def split: if_splits)
qed

definition demo_headings :: "section_heading list" where
  "demo_headings = [\<lparr>sh_line = 2, sh_path = ''A''\<rparr>, \<lparr>sh_line = 4, sh_path = ''A > B''\<rparr>]"

definition demo_source :: source_chunking where
  "demo_source = \<lparr>enabled = True, max_chars = 9, overlap_chars = 2, split_on_sections = True\<rparr>"

theorem chunks_carry_their_section_witness:
  "map tc_heading_path (chunks_for_source demo_source demo_text (Some demo_headings)) =
     map (\<lambda>c. heading_path_for_line demo_headings (tc_start_line c))
       (chunks_for_source demo_source demo_text (Some demo_headings)) \<and>
   length (chunks_for_source demo_source demo_text (Some demo_headings)) = 3"
proof
  have n: "length (py_splitlines demo_text) = 4" by code_simp
  have "tc_heading_path c = heading_path_for_line demo_headings (tc_start_line c)"
    if "c \<in> set (chunks_for_source demo_source demo_text (Some demo_headings))" for c
    using chunks_carry_their_section[OF _ _ _ _ _ that] n by (simp add: demo_headings_def demo_source_def)
  then show "map tc_heading_path (chunks_for_source demo_source demo_text (Some demo_headings)) =
     map (\<lambda>c. heading_path_for_line demo_headings (tc_start_line c))
       (chunks_for_source demo_source demo_text (Some demo_headings))" by simp
  show "length (chunks_for_source demo_source demo_text (Some demo_headings)) = 3" by code_simp
qed

end
