(* ===== verification/Packing.thy ===== *)
theory Packing
  imports Chunking
begin

text \<open>
  \<open>src/pheasant/ingestion/packing.py\<close>: merging the units a document declares (sections, paragraphs,
  blocks of code, messages, rows) into chunks of a planned size, and splitting only what is larger
  than a chunk may be.
\<close>

section \<open>Plans and units\<close>

text \<open>What packing reads of a \<open>ChunkPlan\<close>.\<close>

record chunk_plan =
  boundary :: string
  target_chars :: int
  min_chars :: int
  cp_max_chars :: int
  cp_overlap_chars :: int

record span_unit =
  u_start :: nat
  u_stop :: nat
  u_path :: "string option"

definition mk_unit :: "string option \<Rightarrow> nat \<times> nat \<Rightarrow> span_unit" where
  "mk_unit path = (\<lambda>(a, b). \<lparr>u_start = a, u_stop = b, u_path = path\<rparr>)"

definition blank :: "string \<Rightarrow> bool" where
  "blank line \<longleftrightarrow> py_strip line = []"

definition heading_units :: "string list \<Rightarrow> section_heading list \<Rightarrow> span_unit list" where
  "heading_units lines headings =
     map (\<lambda>(a, b, path). mk_unit path (a, b)) (section_spans (length lines) headings)"

fun paragraph_loop :: "nat \<Rightarrow> nat option \<Rightarrow> string list \<Rightarrow> span_unit list" where
  "paragraph_loop number start [] =
     (case start of None \<Rightarrow> [] | Some a \<Rightarrow> [mk_unit None (a, number)])"
| "paragraph_loop number start (line # lines) =
     (if \<not> blank line then paragraph_loop (number + 1) (case start of None \<Rightarrow> Some number | Some a \<Rightarrow> Some a) lines
      else (case start of
              None \<Rightarrow> paragraph_loop (number + 1) None lines
            | Some a \<Rightarrow> mk_unit None (a, number) # paragraph_loop (number + 1) None lines))"

definition paragraph_units :: "string list \<Rightarrow> span_unit list" where
  "paragraph_units lines = paragraph_loop 1 None lines"

fun code_starts :: "nat \<Rightarrow> bool \<Rightarrow> string list \<Rightarrow> nat list" where
  "code_starts number previous_blank [] = []"
| "code_starts number previous_blank (line # lines) =
     (if previous_blank \<and> \<not> blank line \<and> \<not> list_all is_space (take 1 line) \<and> 1 < number then [number] else [])
     @ code_starts (number + 1) (blank line) lines"

definition between :: "nat list \<Rightarrow> (nat \<times> nat) list" where
  "between bounds = zip bounds (tl bounds)"

definition code_units :: "string list \<Rightarrow> span_unit list" where
  "code_units lines =
     (let starts = sort (remdups (1 # code_starts 1 False lines))
      in map (mk_unit None) (filter (\<lambda>(a, b). a < b) (between (starts @ [length lines + 1]))))"

text \<open>The regular expression of a Slack line: two stars, a name, two stars, a digit in brackets.\<close>

definition message_line :: "string \<Rightarrow> bool" where
  "message_line line =
     (let body = drop 2 line;
          ok = (\<lambda>c. c \<noteq> CHR ''*'' \<and> c \<noteq> CHR 0x0A);
          after = dropWhile ok body
      in starts_with ''**'' line \<and> takeWhile ok body \<noteq> [] \<and> starts_with ''** ('' after \<and>
         (case drop 4 after of [] \<Rightarrow> False | d # _ \<Rightarrow> d \<in> set ''0123456789''))"

definition message_starts :: "string list \<Rightarrow> nat list" where
  "message_starts lines = map fst (filter (\<lambda>(n, line). message_line line) (enumerate 1 lines))"

definition message_units :: "string list \<Rightarrow> span_unit list" where
  "message_units lines =
     (case message_starts lines of
        [] \<Rightarrow> paragraph_units lines
      | s # ss \<Rightarrow> let starts = (if 1 < s then 1 # s # ss else s # ss)
                in map (mk_unit None) (between (starts @ [length lines + 1])))"

section \<open>Labels\<close>

definition PATH_SEPARATOR :: string where
  "PATH_SEPARATOR = '' > ''"

function split_on :: "string \<Rightarrow> string \<Rightarrow> string \<Rightarrow> string list" where
  "split_on sep acc [] = [rev acc]"
| "split_on sep acc (c # cs) =
     (if sep \<noteq> [] \<and> starts_with sep (c # cs)
      then rev acc # split_on sep [] (drop (length sep) (c # cs))
      else split_on sep (c # acc) cs)"
  by pat_completeness auto
termination
proof (relation "measure (\<lambda>(sep, acc, s). length s)")
  fix sep acc :: string and c cs
  assume "sep \<noteq> [] \<and> starts_with sep (c # cs)"
  then show "((sep, [], drop (length sep) (c # cs)), sep, acc, c # cs) \<in> measure (\<lambda>(sep, acc, s). length s)"
    by (cases sep) simp_all
qed simp_all

definition split_path :: "string \<Rightarrow> string list" where
  "split_path p = split_on PATH_SEPARATOR [] p"

definition top_section :: "string option \<Rightarrow> string option" where
  "top_section path = (case path of None \<Rightarrow> None | Some p \<Rightarrow> if p = [] then None else Some (hd (split_path p)))"

fun common_parts :: "string list \<Rightarrow> string list list \<Rightarrow> string list" where
  "common_parts [] others = []"
| "common_parts (x # xs) others =
     (if list_all (\<lambda>ps. ps \<noteq> [] \<and> hd ps = x) others then x # common_parts xs (map tl others) else [])"

definition label_of :: "string list \<Rightarrow> string option" where
  "label_of paths =
     (case dict_fromkeys paths of
        [] \<Rightarrow> None
      | [p] \<Rightarrow> Some p
      | p # ps \<Rightarrow>
          let split = map split_path (p # ps);
              common = common_parts (hd split) (tl split);
              own = dict_fromkeys (map last (filter (\<lambda>parts. length common < length parts) split));
              tail = join_with ''; '' own
          in Some (if common = [] then tail
                   else join_with PATH_SEPARATOR common @ (if tail = [] then [] else PATH_SEPARATOR @ tail)))"

section \<open>Splitting a text too long for a chunk\<close>

fun first_cut :: "string \<Rightarrow> int \<Rightarrow> int \<Rightarrow> int \<Rightarrow> string list \<Rightarrow> int" where
  "first_cut body start floor_at e [] = e"
| "first_cut body start floor_at e (marker # markers) =
     (let cut = py_rfind marker body floor_at e
      in if start < cut then cut + (if marker = ''. '' then 1 else 0)
         else first_cut body start floor_at e markers)"

definition piece_end :: "string \<Rightarrow> int \<Rightarrow> int \<Rightarrow> int" where
  "piece_end body target start =
     (let e = min (int (length body)) (start + target)
      in if e < int (length body)
         then first_cut body start (start + target div 2) e [[CHR 0x0A, CHR 0x0A], [CHR 0x0A], ''. '']
         else e)"

definition restart_at :: "string \<Rightarrow> int \<Rightarrow> int \<Rightarrow> int \<Rightarrow> int" where
  "restart_at body overlap start e =
     (let restart = (if overlap \<noteq> 0 then max (start + 1) (e - overlap) else e);
          newline = py_find [CHR 0x0A] body restart e;
          space = py_find '' '' body restart e;
          restart = (if overlap \<noteq> 0 \<and> restart < e
             then if newline \<noteq> -1 then newline + 1 else if space \<noteq> -1 then space + 1 else restart
             else restart)
      in max (start + 1) (min restart e))"

definition piece_row :: "int list \<Rightarrow> int \<Rightarrow> string \<Rightarrow> string \<times> nat \<times> nat" where
  "piece_row offsets start piece =
     (let lead = int (length piece) - int (length (lstrip piece));
          tail = int (length (rev (lstrip (rev piece))));
          first = count_or (bisect_right offsets (start + lead)) 1
      in (py_strip piece, first, count_or (bisect_right offsets (start + max lead (tail - 1))) first))"

lemma restart_after: "start < restart_at body overlap start e"
  unfolding restart_at_def Let_def by (rule less_le_trans[OF _ max.cobounded1]) simp

function split_loop :: "string \<Rightarrow> int list \<Rightarrow> int \<Rightarrow> int \<Rightarrow> int \<Rightarrow> (string \<times> nat \<times> nat) list" where
  "split_loop body offsets target overlap start =
     (if int (length body) \<le> start then []
      else let e = piece_end body target start;
               piece = py_slice body start e
           in (if py_strip piece \<noteq> [] then [piece_row offsets start piece] else []) @
              (if int (length body) \<le> e then []
               else split_loop body offsets target overlap (restart_at body overlap start e)))"
  by pat_completeness auto
termination
  by (relation "measure (\<lambda>(body, offsets, target, overlap, start). nat (int (length body) - start))")
    (use restart_after in auto)

declare split_loop.simps [simp del]

definition split_text :: "string \<Rightarrow> int \<Rightarrow> int \<Rightarrow> (string \<times> nat \<times> nat) list" where
  "split_text body target overlap = split_loop body (line_offsets 0 (py_splitlines body)) target overlap 0"


section \<open>Packing\<close>

definition line_at :: "string list \<Rightarrow> nat \<Rightarrow> string" where
  "line_at lines n = lines ! (n - 1)"

function first_content :: "string list \<Rightarrow> nat \<Rightarrow> nat \<Rightarrow> nat" where
  "first_content lines first last_line =
     (if first < last_line \<and> blank (line_at lines first) then first_content lines (first + 1) last_line else first)"
  by pat_completeness auto
termination by (relation "measure (\<lambda>(lines, first, last_line). last_line - first)") auto

function last_content :: "string list \<Rightarrow> nat \<Rightarrow> nat \<Rightarrow> nat" where
  "last_content lines first last_line =
     (if first < last_line \<and> blank (line_at lines last_line) then last_content lines first (last_line - 1) else last_line)"
  by pat_completeness auto
termination by (relation "measure (\<lambda>(lines, first, last_line). last_line - first)") auto

declare first_content.simps [simp del] last_content.simps [simp del]

definition content_lines :: "string list \<Rightarrow> nat \<Rightarrow> nat \<Rightarrow> nat \<times> nat" where
  "content_lines lines start stop =
     (let first = first_content lines start (stop - 1) in (first, last_content lines first (stop - 1)))"

definition mk_chunk :: "string option \<Rightarrow> string \<times> nat \<times> nat \<Rightarrow> text_chunk" where
  "mk_chunk label = (\<lambda>(t, a, b). \<lparr>tc_index = 0, tc_text = t, tc_start_line = a, tc_end_line = b,
     tc_heading_path = label\<rparr>)"

definition unit_paths :: "span_unit list \<Rightarrow> string list" where
  "unit_paths grp = concat (map (\<lambda>u. case u_path u of None \<Rightarrow> [] | Some p \<Rightarrow> if p = [] then [] else [p]) grp)"

definition emit :: "string list \<Rightarrow> chunk_plan \<Rightarrow> span_unit list \<Rightarrow> text_chunk list" where
  "emit lines plan grp =
     (let start = u_start (hd grp); stop = u_stop (last grp);
          label = label_of (unit_paths grp);
          body = segment_text lines start stop
      in if int (length (py_strip body)) \<le> cp_max_chars plan
         then (case content_lines lines start stop of
                 (first, last_line) \<Rightarrow> [mk_chunk label (py_strip body, first, last_line)])
         else map (\<lambda>(piece, a, b). mk_chunk label (piece, start + a - 1, start + b - 1))
                (split_text body (target_chars plan) (cp_overlap_chars plan)))"

definition flushes :: "chunk_plan \<Rightarrow> span_unit list \<Rightarrow> int \<Rightarrow> span_unit \<Rightarrow> int \<Rightarrow> bool" where
  "flushes plan grp sz u len \<longleftrightarrow> grp \<noteq> [] \<and>
     (let grown = sz + 1 + len
      in cp_max_chars plan < grown \<or>
         (target_chars plan < grown \<and> min_chars plan \<le> sz) \<or>
         (min_chars plan \<le> sz \<and> top_section (u_path u) \<noteq> top_section (u_path (hd grp))) \<or>
         (min_chars plan \<le> sz \<and> u_path u \<noteq> None))"

fun pack_loop ::
  "string list \<Rightarrow> chunk_plan \<Rightarrow> span_unit list \<Rightarrow> span_unit list \<Rightarrow> int \<Rightarrow> text_chunk list" where
  "pack_loop lines plan [] grp sz = (if grp = [] then [] else emit lines plan grp)"
| "pack_loop lines plan (u # us) grp sz =
     (let len = int (length (py_strip (segment_text lines (u_start u) (u_stop u))))
      in if len = 0 then pack_loop lines plan us grp sz
         else if flushes plan grp sz u len
              then emit lines plan grp @ pack_loop lines plan us [u] len
         else pack_loop lines plan us (grp @ [u]) (sz + (if sz = 0 then 0 else 1) + len))"

definition pack_units :: "string list \<Rightarrow> chunk_plan \<Rightarrow> span_unit list \<Rightarrow> text_chunk list" where
  "pack_units lines plan units = pack_loop lines plan units [] 0"

text \<open>The rows of a sheet in groups that stay under the target with the prefix each one repeats.\<close>

fun row_groups :: "string list \<Rightarrow> int \<Rightarrow> int \<Rightarrow> nat list \<Rightarrow> int \<Rightarrow> nat list \<Rightarrow> nat list list" where
  "row_groups lines target base grp sz [] = [grp]"
| "row_groups lines target base grp sz (r # rs) =
     (let len = int (length (line_at lines r)) + 1
      in if grp \<noteq> [] \<and> target < sz + len
         then grp # row_groups lines target base [r] (base + len) rs
         else row_groups lines target base (grp @ [r]) (sz + len) rs)"

definition row_chunks ::
  "string list \<Rightarrow> chunk_plan \<Rightarrow> string option \<Rightarrow> string \<Rightarrow> nat \<Rightarrow> nat \<times> nat list \<Rightarrow> text_chunk list" where
  "row_chunks lines plan name pre block_start = (\<lambda>(position, grp).
     (let body = py_strip (pre @ [CHR 0x0A] @ join_with [CHR 0x0A] (map (line_at lines) grp));
          first = (if position = 0 then block_start else hd grp)
      in if int (length body) \<le> cp_max_chars plan
         then [mk_chunk name (body, first, last grp)]
         else map (\<lambda>(piece, _, _). mk_chunk name (piece, first, last grp))
                (split_text body (target_chars plan) 0)))"

definition pack_block :: "string list \<Rightarrow> chunk_plan \<Rightarrow> span_unit \<Rightarrow> text_chunk list" where
  "pack_block lines plan block =
     (let all_rows = [u_start block..<u_stop block];
          top = line_at lines (hd all_rows);
          named = CHR 0x09 \<notin> set top \<and> 1 < length all_rows;
          name = (if named then Some (py_strip top) else None);
          rows = (if named then tl all_rows else all_rows);
          pre = join_with [CHR 0x0A]
            ((case name of None \<Rightarrow> [] | Some n \<Rightarrow> if n = [] then [] else [n]) @ [line_at lines (hd rows)])
      in if tl rows = [] then [mk_chunk name (py_strip pre, u_start block, u_stop block - 1)]
         else concat (map (row_chunks lines plan name pre (u_start block))
                (enumerate 0 (row_groups lines (target_chars plan) (int (length pre)) [] (int (length pre)) (tl rows)))))"

definition number_chunks :: "text_chunk list \<Rightarrow> text_chunk list" where
  "number_chunks chunks = map (\<lambda>(i, c). c\<lparr>tc_index := i\<rparr>) (enumerate 0 chunks)"

definition pack_rows :: "string list \<Rightarrow> chunk_plan \<Rightarrow> text_chunk list" where
  "pack_rows lines plan = number_chunks (concat (map (pack_block lines plan) (paragraph_units lines)))"

definition plan_units :: "string list \<Rightarrow> chunk_plan \<Rightarrow> section_heading list option \<Rightarrow> span_unit list" where
  "plan_units lines plan headings =
     (if boundary plan = ''headings'' \<and> list_or headings \<noteq> [] then heading_units lines (list_or headings)
      else if boundary plan = ''code'' then code_units lines
      else if boundary plan = ''messages'' then message_units lines
      else if boundary plan = ''whole'' then [mk_unit None (1, length lines + 1)]
      else paragraph_units lines)"

definition pack :: "string \<Rightarrow> chunk_plan \<Rightarrow> section_heading list option \<Rightarrow> text_chunk list" where
  "pack doc plan headings =
     (if py_strip doc = [] then []
      else let lines = py_splitlines doc
           in if boundary plan = ''rows'' then pack_rows lines plan
              else number_chunks (pack_units lines plan (plan_units lines plan headings)))"

section \<open>Units cover the lines\<close>

text \<open>
  Units in order, none empty, inside lines \<open>lo\<close> to \<open>hi\<close> (exclusive), with only blank lines left
  outside them.
\<close>

fun tiled :: "string list \<Rightarrow> nat \<Rightarrow> nat \<Rightarrow> span_unit list \<Rightarrow> bool" where
  "tiled lines lo hi [] \<longleftrightarrow> (\<forall>n. lo \<le> n \<longrightarrow> n < hi \<longrightarrow> blank (line_at lines n))"
| "tiled lines lo hi (u # us) \<longleftrightarrow> lo \<le> u_start u \<and> u_start u < u_stop u \<and> u_stop u \<le> hi \<and>
     (\<forall>n. lo \<le> n \<longrightarrow> n < u_start u \<longrightarrow> blank (line_at lines n)) \<and> tiled lines (u_stop u) hi us"

lemma mk_unit_simps [simp]:
  "u_start (mk_unit path (a, b)) = a" "u_stop (mk_unit path (a, b)) = b" "u_path (mk_unit path (a, b)) = path"
  by (simp_all add: mk_unit_def)

lemma tiled_member:
  assumes "tiled lines lo hi us" and "lo \<le> n" and "n < hi" and "\<not> blank (line_at lines n)"
  shows "\<exists>u \<in> set us. u_start u \<le> n \<and> n < u_stop u"
  using assms
proof (induction us arbitrary: lo)
  case (Cons u us)
  then show ?case by (cases "n < u_start u"; cases "n < u_stop u") (auto simp: not_less)
qed auto

lemma paragraph_loop_tiled:
  assumes "drop (number - 1) lines = rest" and "1 \<le> number" and "number \<le> length lines + 1"
    and "case start of None \<Rightarrow> lo \<le> number \<and> (\<forall>n. lo \<le> n \<longrightarrow> n < number \<longrightarrow> blank (line_at lines n))
       | Some a \<Rightarrow> lo \<le> a \<and> a < number \<and> (\<forall>n. lo \<le> n \<longrightarrow> n < a \<longrightarrow> blank (line_at lines n))"
  shows "tiled lines lo (length lines + 1) (paragraph_loop number start rest)"
  using assms
proof (induction number start rest arbitrary: lo rule: paragraph_loop.induct)
  case (1 number start)
  then have "number = length lines + 1" by simp
  then show ?case using 1(4) by (cases start) simp_all
next
  case (2 number start line rest)
  have line: "line_at lines number = line" and rest: "drop (number + 1 - 1) lines = rest"
    and len: "number + 1 \<le> length lines + 1"
  proof -
    have "\<not> length lines \<le> number - 1" using 2(4) by auto
    then show "number + 1 \<le> length lines + 1" by simp
    show "line_at lines number = line" using nth_via_drop[OF 2(4)] by (simp add: line_at_def)
    have "drop (Suc (number - 1)) lines = rest" using 2(4) by (metis drop_Suc drop_tl list.sel(3))
    then show "drop (number + 1 - 1) lines = rest" using 2(5) by simp
  qed
  have upto: "n < number + 1 \<Longrightarrow> n = number \<or> n < number" for n by auto
  show ?case
  proof (cases "blank line")
    case False
    have "tiled lines lo (length lines + 1)
        (paragraph_loop (number + 1) (case start of None \<Rightarrow> Some number | Some a \<Rightarrow> Some a) rest)"
      using 2(7) 2(5) by (intro 2(1)[OF False rest _ len]) (auto split: option.splits)
    then show ?thesis using False by simp
  next
    case True
    show ?thesis
    proof (cases start)
      case None
      have "tiled lines lo (length lines + 1) (paragraph_loop (number + 1) None rest)"
        using 2(7) True line None upto by (intro 2(2)[OF _ None rest _ len]) auto
      then show ?thesis using True None by simp
    next
      case (Some a)
      have "tiled lines number (length lines + 1) (paragraph_loop (number + 1) None rest)"
        using True line by (intro 2(3)[OF _ Some rest _ len]) (auto simp: le_less_Suc_eq)
      then show ?thesis using True Some 2(7) 2(6) by simp
    qed
  qed
qed

lemma paragraph_units_tiled: "tiled lines 1 (length lines + 1) (paragraph_units lines)"
  unfolding paragraph_units_def by (rule paragraph_loop_tiled) auto

text \<open>Consecutive bounds tile what lies between the first and the last.\<close>

lemma between_tiled:
  "sorted_wrt (<) (a # bounds) \<Longrightarrow> bounds \<noteq> [] \<Longrightarrow>
     tiled lines a (last bounds) (map (mk_unit None) (between (a # bounds)))"
proof (induction bounds arbitrary: a)
  case (Cons b bs)
  show ?case
  proof (cases bs)
    case Nil
    then show ?thesis using Cons.prems by (simp add: between_def)
  next
    case (Cons c cs)
    have "last bs \<in> set bs" using Cons by simp
    then have "b \<le> last bs" using Cons.prems by (simp add: less_imp_le)
    then show ?thesis using Cons.IH[of b] Cons.prems Cons by (simp add: between_def)
  qed
qed simp


lemma code_starts_bounds:
  "sorted_wrt (<) (code_starts n p ls) \<and> (\<forall>x \<in> set (code_starts n p ls). n \<le> x \<and> x < n + length ls \<and> 1 < x)"
proof (induction n p ls rule: code_starts.induct)
  case (2 n p line ls)
  let ?rest = "code_starts (n + 1) (blank line) ls"
  have rest: "sorted_wrt (<) ?rest" "x \<in> set ?rest \<Longrightarrow> n < x \<and> x < n + length (line # ls) \<and> 1 < x" for x
    using 2 by auto
  show ?case
  proof (cases "p \<and> \<not> blank line \<and> \<not> list_all is_space (take 1 line) \<and> 1 < n")
    case True
    then have "code_starts n p (line # ls) = n # ?rest" by simp
    then show ?thesis using rest True by (simp add: less_imp_le)
  next
    case False
    then have "code_starts n p (line # ls) = ?rest" by simp
    then show ?thesis using rest by (simp add: less_imp_le)
  qed
qed simp

lemma code_units_tiled:
  assumes "lines \<noteq> []"
  shows "tiled lines 1 (length lines + 1) (code_units lines)"
proof -
  let ?cs = "code_starts 1 False lines"
  have cs: "sorted_wrt (<) (1 # ?cs)" "\<forall>x \<in> set ?cs. x < length lines + 1"
    using code_starts_bounds[of 1 False lines] by auto
  then have "sort (remdups (1 # ?cs)) = 1 # ?cs"
    by (metis distinct_remdups_id sorted_sort_id strict_sorted_iff)
  then have units: "code_units lines =
      map (mk_unit None) (filter (\<lambda>(a, b). a < b) (between (1 # ?cs @ [length lines + 1])))"
    by (simp add: code_units_def Let_def)
  have sorted: "sorted_wrt (<) (1 # ?cs @ [length lines + 1])"
    using cs assms by (auto simp: sorted_wrt_append)
  have "filter (\<lambda>(a, b). a < b) (between (x # xs)) = between (x # xs)" if "sorted_wrt (<) (x # xs)" for x xs
    using that by (induction xs arbitrary: x) (auto simp: between_def)
  then show ?thesis using between_tiled[OF sorted, of lines] sorted by (simp add: units)
qed

lemma filter_enumerate:
  "sorted_wrt (<) (map fst (filter P (enumerate n xs))) \<and>
     (\<forall>x \<in> set (map fst (filter P (enumerate n xs))). n \<le> x \<and> x < n + length xs)"
proof (induction xs arbitrary: n)
  case (Cons x xs)
  have rest: "y \<in> set (map fst (filter P (enumerate (Suc n) xs))) \<Longrightarrow> n < y \<and> y < n + length (x # xs)" for y
    using Cons[of "Suc n"] by auto
  show ?case using Cons[of "Suc n"] rest by (cases "P (n, x)") (simp_all add: less_imp_le)
qed simp

lemma message_units_tiled:
  assumes "lines \<noteq> []"
  shows "tiled lines 1 (length lines + 1) (message_units lines)"
proof (cases "message_starts lines")
  case Nil
  then show ?thesis using paragraph_units_tiled[of lines] by (simp add: message_units_def)
next
  case (Cons s ss)
  have ss: "sorted_wrt (<) (s # ss)" "\<forall>x \<in> set (s # ss). 1 \<le> x \<and> x < length lines + 1"
    using filter_enumerate[of "\<lambda>(n, line). message_line line" 1 lines]
    unfolding Cons[symmetric] message_starts_def by simp_all
  define starts where "starts = (if 1 < s then 1 # s # ss else s # ss)"
  obtain rest where rest: "starts @ [length lines + 1] = 1 # rest" "rest \<noteq> []" "last rest = length lines + 1"
    using ss by (cases "1 < s") (auto simp: starts_def)
  have "sorted_wrt (<) (starts @ [length lines + 1])"
    using ss assms by (auto simp: sorted_wrt_append starts_def)
  then have "tiled lines 1 (length lines + 1) (map (mk_unit None) (between (starts @ [length lines + 1])))"
    using between_tiled[of 1 rest lines] rest by simp
  then show ?thesis unfolding message_units_def Cons list.case Let_def starts_def .
qed

lemma heading_spans_tiled:
  assumes "sorted_wrt (\<lambda>h k. sh_line h < sh_line k) (h # hs)" and "\<forall>k \<in> set (h # hs). sh_line k \<le> length lines"
  shows "tiled lines (sh_line h) (length lines + 1)
    (map (\<lambda>(a, b, path). mk_unit path (a, b)) (heading_spans (length lines) (h # hs)))"
  using assms
proof (induction hs arbitrary: h)
  case (Cons k ks)
  have h: "sh_line h < sh_line k" "sh_line k \<le> length lines" using Cons.prems by simp_all
  then have "heading_spans (length lines) (h # k # ks) =
      (sh_line h, sh_line k, Some (sh_path h)) # heading_spans (length lines) (k # ks)"
    by (simp del: heading_spans.simps add: heading_spans.simps(2)[of _ h "k # ks"])
  then show ?case using Cons.IH[of k] Cons.prems h by (simp del: heading_spans.simps)
qed (simp add: less_Suc_eq_le)

lemma heading_units_tiled:
  assumes "headings_ok (length lines) headings" and "headings \<noteq> []"
  shows "tiled lines 1 (length lines + 1) (heading_units lines headings)"
proof -
  obtain h hs where h: "headings = h # hs" using assms(2) by (cases headings) auto
  have "tiled lines (sh_line h) (length lines + 1)
      (map (\<lambda>(a, b, path). mk_unit path (a, b)) (heading_spans (length lines) headings))"
    using assms(1) unfolding h by (intro heading_spans_tiled) (simp_all add: headings_ok_def)
  moreover have "1 \<le> sh_line h" "sh_line h \<le> length lines" using assms(1) by (simp_all add: headings_ok_def h)
  ultimately show ?thesis
  proof (cases "sh_line h = 1")
    case True
    then show ?thesis using \<open>tiled _ _ _ _\<close> by (simp add: heading_units_def section_spans_def h del: heading_spans.simps)
  next
    case False
    then show ?thesis using \<open>tiled _ _ _ _\<close> \<open>1 \<le> sh_line h\<close> \<open>sh_line h \<le> length lines\<close>
      by (simp add: heading_units_def section_spans_def h del: heading_spans.simps)
  qed
qed

lemma plan_units_tiled:
  assumes "lines \<noteq> []" and "headings_ok (length lines) (list_or headings)"
  shows "tiled lines 1 (length lines + 1) (plan_units lines plan headings)"
proof -
  have whole: "tiled lines 1 (length lines + 1) [mk_unit None (1, length lines + 1)]"
    using assms(1) by (cases lines) simp_all
  show ?thesis
    unfolding plan_units_def
    using whole code_units_tiled[OF assms(1)] message_units_tiled[OF assms(1)] paragraph_units_tiled[of lines]
      heading_units_tiled[OF assms(2)] by presburger
qed


section \<open>The pieces of a long text cover it\<close>

lemma first_cut_bounds:
  assumes "0 \<le> start" and "start \<le> floor_at" and "floor_at \<le> e" and "start < e" and "e \<le> int (length body)"
  shows "start < first_cut body start floor_at e [[CHR 0x0A, CHR 0x0A], [CHR 0x0A], ''. ''] \<and>
    first_cut body start floor_at e [[CHR 0x0A, CHR 0x0A], [CHR 0x0A], ''. ''] \<le> e"
proof -
  have cut: "py_rfind marker body floor_at e + int (length marker) \<le> e"
    if "start < py_rfind marker body floor_at e" for marker
  proof -
    have "py_rfind marker body floor_at e \<noteq> -1" using that assms(1) by linarith
    then have "py_rfind marker body floor_at e + int (length marker) \<le> int (norm_index e body)"
      using py_rfind_found[OF refl] by blast
    then show ?thesis using assms by (simp add: norm_index_in)
  qed
  show ?thesis using cut[of "[CHR 0x0A, CHR 0x0A]"] cut[of "[CHR 0x0A]"] cut[of "''. ''"] assms(4)
    by (auto simp: Let_def)
qed

lemma piece_end_bounds:
  assumes "0 < target" and "0 \<le> start" and "start < int (length body)"
  shows "start < piece_end body target start \<and> piece_end body target start \<le> int (length body) \<and>
    piece_end body target start - start \<le> target"
proof -
  let ?cuts = "[[CHR 0x0A, CHR 0x0A], [CHR 0x0A], ''. '']"
  show ?thesis
  proof (cases "start + target < int (length body)")
    case True
    then have "piece_end body target start =
        first_cut body start (start + target div 2) (start + target) ?cuts"
      by (simp add: piece_end_def Let_def del: first_cut.simps)
    moreover have "start < first_cut body start (start + target div 2) (start + target) ?cuts \<and>
        first_cut body start (start + target div 2) (start + target) ?cuts \<le> start + target"
      using assms True by (intro first_cut_bounds) auto
    ultimately show ?thesis using True by linarith
  next
    case False
    then show ?thesis using assms by (simp add: piece_end_def)
  qed
qed

lemma restart_before: "start < e \<Longrightarrow> restart_at body overlap start e \<le> e"
  unfolding restart_at_def Let_def by (intro max.boundedI min.cobounded2) simp

definition split_windows :: "string \<Rightarrow> int \<Rightarrow> int \<Rightarrow> int \<Rightarrow> (int \<times> int) list" where
  "split_windows body target overlap =
     cut_windows (piece_end body target) (restart_at body overlap) (int (length body))"

lemma split_windows_chained:
  assumes "0 < target" and "0 \<le> start" and "start < int (length body)"
  shows "chained start (int (length body)) (split_windows body target overlap start) \<and>
    (\<forall>(s, e) \<in> set (split_windows body target overlap start). e - s \<le> target)"
  unfolding split_windows_def using piece_end_bounds restart_before assms
  by (intro cut_windows_chained) auto

lemma split_loop_windows:
  "split_loop body offsets target overlap start =
     map (\<lambda>(s, e). piece_row offsets s (py_slice body s e))
       (filter (\<lambda>(s, e). py_strip (py_slice body s e) \<noteq> []) (split_windows body target overlap start))"
proof (induction body offsets target overlap start rule: split_loop.induct)
  case (1 body offsets target overlap start)
  let ?e = "piece_end body target start"
  have nxt: "max (restart_at body overlap start ?e) (start + 1) = restart_at body overlap start ?e"
    using restart_after[of start body overlap ?e] by simp
  have windows: "split_windows body target overlap start =
     (if int (length body) \<le> start then []
      else (start, ?e) # (if int (length body) \<le> ?e then []
        else split_windows body target overlap (restart_at body overlap start ?e)))"
    unfolding split_windows_def by (subst cut_windows.simps) (simp only: nxt)
  show ?case
  proof (cases "int (length body) \<le> start \<or> int (length body) \<le> ?e")
    case True
    then show ?thesis by (auto simp: split_loop.simps[of body offsets target overlap start] windows Let_def)
  next
    case False
    then show ?thesis using 1[OF _ refl refl]
      by (simp add: split_loop.simps[of body offsets target overlap start] windows Let_def)
  qed
qed


lemma lead_le:
  assumes "i < length xs" and "\<not> is_space (xs ! i)"
  shows "length xs - length (lstrip xs) \<le> i"
proof -
  have "length xs = length (takeWhile is_space xs) + length (lstrip xs)"
    unfolding lstrip_def by (metis length_append takeWhile_dropWhile_id)
  moreover have "length (takeWhile is_space xs) \<le> i"
    using assms by (metis not_le nth_mem set_takeWhileD takeWhile_nth)
  ultimately show ?thesis by simp
qed

lemma tail_gt:
  assumes "i < length xs" and "\<not> is_space (xs ! i)"
  shows "i < length (lstrip (rev xs))"
proof -
  have "length (rev xs) - length (lstrip (rev xs)) \<le> length xs - Suc i"
    by (rule lead_le) (use assms in \<open>simp_all add: rev_nth Suc_diff_Suc\<close>)
  then show ?thesis using assms(1) by simp
qed

lemma lstrip_length: "length (lstrip xs) \<le> length xs"
  by (simp add: lstrip_def length_dropWhile_le)

lemma piece_row_lines:
  assumes "ls \<noteq> []" and "0 \<le> s" and "(t, a, b) = piece_row (line_offsets 0 ls) s piece"
  shows "1 \<le> a \<and> a \<le> b \<and> b \<le> length ls \<and> t = py_strip piece"
proof -
  define lead where "lead = int (length piece) - int (length (lstrip piece))"
  define far where "far = max lead (int (length (lstrip (rev piece))) - 1)"
  have lead: "0 \<le> lead" using lstrip_length[of piece] by (simp add: lead_def)
  have "1 \<le> bisect_right (line_offsets 0 ls) (s + lead)" "1 \<le> bisect_right (line_offsets 0 ls) (s + far)"
    using bisect_pos[OF assms(1), of 0 "s + lead"] bisect_pos[OF assms(1), of 0 "s + far"] assms(2) lead
    by (simp_all add: far_def)
  moreover have "bisect_right (line_offsets 0 ls) (s + lead) \<le> bisect_right (line_offsets 0 ls) (s + far)"
    by (rule bisect_mono) (simp add: far_def)
  ultimately show ?thesis using assms(3) bisect_le[of "line_offsets 0 ls" "s + far"]
    by (simp add: piece_row_def Let_def count_or_def flip: lead_def far_def)
qed

lemma piece_row_holds:
  assumes "ls \<noteq> []" and "0 \<le> s" and "(t, a, b) = piece_row (line_offsets 0 ls) s piece"
    and "i < length piece" and "\<not> is_space (piece ! i)"
  shows "a \<le> bisect_right (line_offsets 0 ls) (s + int i) \<and> bisect_right (line_offsets 0 ls) (s + int i) \<le> b"
proof -
  define lead where "lead = int (length piece) - int (length (lstrip piece))"
  define far where "far = max lead (int (length (lstrip (rev piece))) - 1)"
  have lead: "0 \<le> lead" "lead \<le> int i"
    using lstrip_length[of piece] lead_le[OF assms(4,5)] by (simp_all add: lead_def)
  have far: "int i \<le> far" using tail_gt[OF assms(4,5)] by (simp add: far_def)
  have "1 \<le> bisect_right (line_offsets 0 ls) (s + lead)" "1 \<le> bisect_right (line_offsets 0 ls) (s + far)"
    using bisect_pos[OF assms(1), of 0 "s + lead"] bisect_pos[OF assms(1), of 0 "s + far"] assms(2) lead
    by (simp_all add: far_def)
  moreover have "bisect_right (line_offsets 0 ls) (s + lead) \<le> bisect_right (line_offsets 0 ls) (s + int i)"
    "bisect_right (line_offsets 0 ls) (s + int i) \<le> bisect_right (line_offsets 0 ls) (s + far)"
    using lead far by (auto intro: bisect_mono)
  ultimately show ?thesis using assms(3)
    by (simp add: piece_row_def Let_def count_or_def flip: lead_def far_def)
qed

lemma split_text_row:
  assumes "0 < target" and "(t, a, b) \<in> set (split_text body target overlap)"
  shows "1 \<le> a \<and> a \<le> b \<and> b \<le> length (py_splitlines body) \<and> t \<noteq> [] \<and> int (length t) \<le> target"
proof -
  have ne: "body \<noteq> []" using assms(2) by (auto simp: split_text_def split_loop.simps)
  obtain s e where w: "(s, e) \<in> set (split_windows body target overlap 0)" "py_strip (py_slice body s e) \<noteq> []"
    and row: "(t, a, b) = piece_row (line_offsets 0 (py_splitlines body)) s (py_slice body s e)"
    using assms(2) unfolding split_text_def split_loop_windows by auto
  have chain: "chained 0 (int (length body)) (split_windows body target overlap 0) \<and>
      (\<forall>(s, e) \<in> set (split_windows body target overlap 0). e - s \<le> target)"
    using split_windows_chained[OF assms(1), of 0 body overlap] ne by simp
  then have inside: "0 \<le> s \<and> s < e \<and> e \<le> int (length body) \<and> e - s \<le> target"
    using chained_bounds[OF conjunct1[OF chain] w(1)] w(1) by blast
  then have "length (py_slice body s e) \<le> nat target"
    by (simp add: py_slice_in nat_mono min.coboundedI2)
  then have "int (length (py_strip (py_slice body s e))) \<le> target"
    using py_strip_length[of "py_slice body s e"] assms(1) by linarith
  then show ?thesis
    using piece_row_lines[OF _ _ row] inside ne w(2) by (simp add: splitlines_Nil_iff)
qed

lemma split_text_covers:
  assumes "0 < target" and "p < length body" and "\<not> is_space (body ! p)"
  shows "\<exists>(t, a, b) \<in> set (split_text body target overlap).
    a \<le> bisect_right (line_offsets 0 (py_splitlines body)) (int p) \<and>
    bisect_right (line_offsets 0 (py_splitlines body)) (int p) \<le> b"
proof -
  let ?ls = "py_splitlines body"
  have ne: "body \<noteq> []" using assms(2) by auto
  have chain: "chained 0 (int (length body)) (split_windows body target overlap 0)"
    using split_windows_chained[OF assms(1), of 0 body overlap] ne by simp
  then obtain s e where w: "(s, e) \<in> set (split_windows body target overlap 0)" "s \<le> int p" "int p < e"
    using chained_covers[OF chain, of "int p"] assms(2) by auto
  have inside: "0 \<le> s \<and> s < e \<and> e \<le> int (length body)" using chained_bounds[OF chain w(1)] .
  let ?piece = "py_slice body s e" and ?i = "p - nat s"
  have i: "?i < length ?piece" "?piece ! ?i = body ! p" "s + int ?i = int p"
    using inside w assms(2) by (auto simp: py_slice_in nat_diff_distrib)
  then have "\<not> is_space (?piece ! ?i)" using assms(3) by simp
  moreover have "py_strip ?piece \<noteq> []"
    using i(1) calculation by (auto simp: py_strip_empty list_all_length)
  then have "piece_row (line_offsets 0 ?ls) s ?piece \<in> set (split_text body target overlap)"
    using w(1) unfolding split_text_def split_loop_windows by force
  moreover obtain t a b where row: "(t, a, b) = piece_row (line_offsets 0 ?ls) s ?piece"
    by (metis prod_cases3)
  ultimately have "(t, a, b) \<in> set (split_text body target overlap)" by simp
  moreover have "a \<le> bisect_right (line_offsets 0 ?ls) (int p) \<and> bisect_right (line_offsets 0 ?ls) (int p) \<le> b"
    using piece_row_holds[OF _ _ row i(1)] \<open>\<not> is_space (?piece ! ?i)\<close> inside ne
    by (simp add: i(3) splitlines_Nil_iff)
  ultimately show ?thesis by blast
qed


section \<open>Emitted chunks cover their group\<close>

definition plain_lines :: "string list \<Rightarrow> bool" where
  "plain_lines ls \<longleftrightarrow> list_all (list_all (\<lambda>c. \<not> is_break c)) ls"

lemma plain_splitlines: "plain_lines (py_splitlines s)"
  by (simp add: plain_lines_def list_all_iff[of _ "py_splitlines s"] splitlines_no_breaks)

lemma splitlines_append:
  "list_all (\<lambda>c. \<not> is_break c) l \<Longrightarrow> py_splitlines (l @ CHR 0x0A # s) = l # py_splitlines s"
  by (simp add: py_splitlines_def lines_from_plain lines_from_newline)

lemma splitlines_single: "list_all (\<lambda>c. \<not> is_break c) l \<Longrightarrow> l \<noteq> [] \<Longrightarrow> py_splitlines l = [l]"
  using lines_from_plain[of l "[]" "[]"] by (simp add: py_splitlines_def)

lemma no_newline: "list_all (\<lambda>c. \<not> is_break c) l \<Longrightarrow> CHR 0x0A \<notin> set l"
  by (auto simp: list_all_iff)

lemma unix_join: "plain_lines ls \<Longrightarrow> unix_text (join_with [CHR 0x0A] ls)"
  by (induction "[CHR 0x0A]" ls rule: join_with.induct)
    (auto simp: plain_lines_def unix_text_def list_all_iff)

lemma join_position:
  assumes "plain_lines ls" and "j < length ls" and "k < length (ls ! j)"
  shows "\<exists>p < length (join_with [CHR 0x0A] ls). join_with [CHR 0x0A] ls ! p = ls ! j ! k \<and>
    count_list (take p (join_with [CHR 0x0A] ls)) CHR 0x0A = j \<and>
    j < length (py_splitlines (join_with [CHR 0x0A] ls))"
  using assms
proof (induction ls arbitrary: j)
  case (Cons l ls)
  have l: "list_all (\<lambda>c. \<not> is_break c) l" and ls: "plain_lines ls" using Cons.prems(1) by (simp_all add: plain_lines_def)
  have none: "count_list (take n l) CHR 0x0A = 0" for n using no_newline[OF l] by (rule count_take_none)
  show ?case
  proof (cases ls)
    case Nil
    then have "l \<noteq> []" "j = 0" using Cons.prems(2,3) by auto
    then show ?thesis using Cons.prems(3) Nil none splitlines_single[OF l] by (intro exI[of _ k]) simp
  next
    case (Cons q qs)
    let ?J = "join_with [CHR 0x0A] ls"
    have J: "join_with [CHR 0x0A] (l # ls) = l @ CHR 0x0A # ?J" by (simp add: Cons)
    have lines: "py_splitlines (l @ CHR 0x0A # ?J) = l # py_splitlines ?J"
      by (rule splitlines_append[OF l])
    show ?thesis
    proof (cases j)
      case 0
      then show ?thesis using Cons.prems(3) none unfolding J lines by (intro exI[of _ k]) (simp add: nth_append)
    next
      case (Suc i)
      then obtain p where p: "p < length ?J" "?J ! p = ls ! i ! k" "count_list (take p ?J) CHR 0x0A = i"
          "i < length (py_splitlines ?J)"
        using Cons.IH[OF ls, of i] Cons.prems(2,3) by auto
      have "count_list l CHR 0x0A = 0" using no_newline[OF l] by (rule count_notin)
      then show ?thesis using p Suc unfolding J lines
        by (intro exI[of _ "length l + 1 + p"]) (simp add: nth_append)
    qed
  qed
qed simp

text \<open>The lines of a segment are the lines of the text.\<close>

lemma segment_join:
  assumes "1 \<le> start" and "start < stop" and "stop \<le> length lines + 1"
  shows "segment_text lines start stop = join_with [CHR 0x0A] (take (stop - start) (drop (start - 1) lines))"
  using assms by (simp add: segment_text_def py_slice_in nat_diff_distrib' of_nat_diff)

lemma blank_iff: "blank l \<longleftrightarrow> list_all is_space l"
  by (simp add: blank_def py_strip_empty)

lemma segment_position:
  assumes "plain_lines lines" and "1 \<le> start" and "start \<le> n" and "n < stop" and "stop \<le> length lines + 1"
    and "\<not> blank (line_at lines n)"
  shows "\<exists>p < length (segment_text lines start stop). \<not> is_space (segment_text lines start stop ! p) \<and>
    bisect_right (line_offsets 0 (py_splitlines (segment_text lines start stop))) (int p) = Suc (n - start)"
proof -
  let ?ls = "take (stop - start) (drop (start - 1) lines)"
  have seg: "segment_text lines start stop = join_with [CHR 0x0A] ?ls"
    using assms by (intro segment_join) auto
  have plain: "plain_lines ?ls"
    using assms(1) by (auto simp: plain_lines_def list_all_iff dest: in_set_takeD in_set_dropD)
  have j: "n - start < length ?ls" "?ls ! (n - start) = line_at lines n"
    using assms by (auto simp: line_at_def)
  obtain k where k: "k < length (line_at lines n)" "\<not> is_space (line_at lines n ! k)"
    using assms(6) by (auto simp: blank_iff list_all_length)
  obtain p where p: "p < length (join_with [CHR 0x0A] ?ls)" "join_with [CHR 0x0A] ?ls ! p = line_at lines n ! k"
      "count_list (take p (join_with [CHR 0x0A] ?ls)) CHR 0x0A = n - start"
      "n - start < length (py_splitlines (join_with [CHR 0x0A] ?ls))"
    using join_position[OF plain j(1), of k] k j(2) by auto
  then show ?thesis using k(2) bisect_line[OF unix_join[OF plain], of 0 "int p"]
    unfolding seg by (intro exI[of _ p]) simp
qed

lemma segment_not_blank:
  assumes "plain_lines lines" and "1 \<le> start" and "start \<le> n" and "n < stop" and "stop \<le> length lines + 1"
    and "\<not> blank (line_at lines n)"
  shows "py_strip (segment_text lines start stop) \<noteq> []"
  using segment_position[OF assms] by (auto simp: py_strip_empty list_all_length)


lemma first_content_bounds:
  "first \<le> last_line \<Longrightarrow> first \<le> first_content lines first last_line \<and>
     first_content lines first last_line \<le> last_line \<and>
     (\<forall>n. first \<le> n \<longrightarrow> n < first_content lines first last_line \<longrightarrow> blank (line_at lines n))"
proof (induction lines first last_line rule: first_content.induct)
  case (1 lines first last_line)
  show ?case
  proof (cases "first < last_line \<and> blank (line_at lines first)")
    case True
    then have "first_content lines first last_line = first_content lines (first + 1) last_line"
      by (subst first_content.simps) simp
    then show ?thesis using 1(1)[OF True] True by (auto simp: le_less_Suc_eq dest: le_neq_implies_less)
  next
    case False
    then have "first_content lines first last_line = first" by (subst first_content.simps) auto
    then show ?thesis using 1(2) by simp
  qed
qed

lemma last_content_bounds:
  "first \<le> last_line \<Longrightarrow> first \<le> last_content lines first last_line \<and>
     last_content lines first last_line \<le> last_line \<and>
     (\<forall>n. last_content lines first last_line < n \<longrightarrow> n \<le> last_line \<longrightarrow> blank (line_at lines n))"
proof (induction lines first last_line rule: last_content.induct)
  case (1 lines first last_line)
  show ?case
  proof (cases "first < last_line \<and> blank (line_at lines last_line)")
    case True
    then have "last_content lines first last_line = last_content lines first (last_line - 1)"
      by (subst last_content.simps) simp
    moreover have "n \<le> last_line - 1 \<or> n = last_line" if "n \<le> last_line" for n using that by auto
    ultimately show ?thesis using 1(1)[OF True] True by fastforce
  next
    case False
    then have "last_content lines first last_line = last_line" by (subst last_content.simps) auto
    then show ?thesis using 1(2) by simp
  qed
qed

lemma content_bounds:
  assumes "start < stop"
  shows "\<exists>f l. content_lines lines start stop = (f, l) \<and> start \<le> f \<and> f \<le> l \<and> l \<le> stop - 1 \<and>
    (\<forall>n. start \<le> n \<longrightarrow> n < stop \<longrightarrow> \<not> blank (line_at lines n) \<longrightarrow> f \<le> n \<and> n \<le> l)"
proof -
  define f where "f = first_content lines start (stop - 1)"
  define l where "l = last_content lines f (stop - 1)"
  have f: "start \<le> f" "f \<le> stop - 1" "\<And>n. start \<le> n \<Longrightarrow> n < f \<Longrightarrow> blank (line_at lines n)"
    using first_content_bounds[of start "stop - 1" lines] assms by (auto simp: f_def)
  have l: "f \<le> l" "l \<le> stop - 1" "\<And>n. l < n \<Longrightarrow> n \<le> stop - 1 \<Longrightarrow> blank (line_at lines n)"
    using last_content_bounds[OF f(2), of lines] by (auto simp: l_def)
  have "f \<le> n \<and> n \<le> l" if "start \<le> n" "n < stop" "\<not> blank (line_at lines n)" for n
  proof -
    have "n \<le> stop - 1" using that(2) by simp
    then show ?thesis using f(3)[of n] l(3)[of n] that by (meson not_le)
  qed
  then show ?thesis using f l by (simp add: content_lines_def Let_def f_def l_def)
qed

text \<open>A group inside the lines.\<close>

definition grp_in :: "string list \<Rightarrow> span_unit list \<Rightarrow> bool" where
  "grp_in lines grp \<longleftrightarrow> 1 \<le> u_start (hd grp) \<and> u_start (hd grp) < u_stop (last grp) \<and>
     u_stop (last grp) \<le> length lines + 1"

lemma segment_count:
  assumes "plain_lines lines" and "1 \<le> start" and "start < stop" and "stop \<le> length lines + 1"
  shows "length (py_splitlines (segment_text lines start stop)) \<le> stop - start"
proof -
  let ?ls = "take (stop - start) (drop (start - 1) lines)"
  have "length (py_splitlines (join_with [CHR 0x0A] ?ls)) \<le> length ?ls"
    using assms(1) by (intro length_splitlines_join)
      (auto simp: plain_lines_def list_all_iff[of _ lines] dest!: in_set_takeD in_set_dropD)
  then show ?thesis using segment_join[OF assms(2-4)] by simp
qed

lemma emit_row:
  assumes "plain_lines lines" and "grp_in lines grp" and "0 < target_chars plan"
    and "c \<in> set (emit lines plan grp)"
  shows "1 \<le> tc_start_line c \<and> tc_start_line c \<le> tc_end_line c \<and> tc_end_line c \<le> length lines \<and>
    int (length (tc_text c)) \<le> max (target_chars plan) (cp_max_chars plan)"
proof -
  let ?start = "u_start (hd grp)" and ?stop = "u_stop (last grp)"
  let ?body = "segment_text lines ?start ?stop"
  have span: "1 \<le> ?start" "?start < ?stop" "?stop \<le> length lines + 1" using assms(2) by (simp_all add: grp_in_def)
  show ?thesis
  proof (cases "int (length (py_strip ?body)) \<le> cp_max_chars plan")
    case True
    then have c: "c = mk_chunk (label_of (unit_paths grp)) (py_strip ?body, content_lines lines ?start ?stop)"
      using assms(4) by (auto simp: emit_def Let_def split: prod.splits)
    obtain f l where fl: "content_lines lines ?start ?stop = (f, l)" "?start \<le> f" "f \<le> l" "l \<le> ?stop - 1"
      using content_bounds[of ?start ?stop lines] span by auto
    then show ?thesis using c True span by (simp add: mk_chunk_def le_max_iff_disj)
  next
    case False
    then obtain t a b where row: "(t, a, b) \<in> set (split_text ?body (target_chars plan) (cp_overlap_chars plan))"
      and c: "c = mk_chunk (label_of (unit_paths grp)) (t, ?start + a - 1, ?start + b - 1)"
      using assms(4) by (auto simp: emit_def Let_def)
    have piece: "1 \<le> a" "a \<le> b" "b \<le> ?stop - ?start" "int (length t) \<le> target_chars plan"
      using split_text_row[OF assms(3) row] segment_count[OF assms(1) span] by linarith+
    then have "1 \<le> ?start + a - 1" "?start + a - 1 \<le> ?start + b - 1" "?start + b - 1 \<le> length lines"
      using span by linarith+
    then show ?thesis using piece(4) by (simp add: c mk_chunk_def le_max_iff_disj)
  qed
qed

lemma emit_covers:
  assumes "plain_lines lines" and "grp_in lines grp" and "0 < target_chars plan"
    and "u_start (hd grp) \<le> n" and "n < u_stop (last grp)" and "\<not> blank (line_at lines n)"
  shows "\<exists>c \<in> set (emit lines plan grp). tc_start_line c \<le> n \<and> n \<le> tc_end_line c"
proof -
  let ?start = "u_start (hd grp)" and ?stop = "u_stop (last grp)"
  let ?body = "segment_text lines ?start ?stop"
  have span: "1 \<le> ?start" "?start < ?stop" "?stop \<le> length lines + 1" using assms(2) by (simp_all add: grp_in_def)
  show ?thesis
  proof (cases "int (length (py_strip ?body)) \<le> cp_max_chars plan")
    case True
    obtain f l where fl: "content_lines lines ?start ?stop = (f, l)" "f \<le> n" "n \<le> l"
      using content_bounds[of ?start ?stop lines] span assms(4-6) by auto
    then show ?thesis using True by (simp add: emit_def Let_def mk_chunk_def)
  next
    case False
    obtain p where p: "p < length ?body" "\<not> is_space (?body ! p)"
        "bisect_right (line_offsets 0 (py_splitlines ?body)) (int p) = Suc (n - ?start)"
      using segment_position[OF assms(1) span(1) assms(4,5) span(3) assms(6)] by blast
    obtain t a b where row: "(t, a, b) \<in> set (split_text ?body (target_chars plan) (cp_overlap_chars plan))"
        "a \<le> Suc (n - ?start)" "Suc (n - ?start) \<le> b"
      using split_text_covers[OF assms(3) p(1,2), of "cp_overlap_chars plan"] unfolding p(3) by blast
    have "mk_chunk (label_of (unit_paths grp)) (t, ?start + a - 1, ?start + b - 1) \<in> set (emit lines plan grp)"
      using False row(1) by (force simp: emit_def Let_def)
    moreover have "?start + a - 1 \<le> n" "n \<le> ?start + b - 1" using row assms(4) by auto
    ultimately show ?thesis by (intro bexI) (simp_all add: mk_chunk_def)
  qed
qed

text \<open>Packing emits consecutive groups of the units that are not blank, none of them empty.\<close>

definition empty_unit :: "string list \<Rightarrow> span_unit \<Rightarrow> bool" where
  "empty_unit lines u \<longleftrightarrow> py_strip (segment_text lines (u_start u) (u_stop u)) = []"

lemma pack_loop_groups:
  "\<exists>gs. pack_loop lines plan us grp sz = concat (map (emit lines plan) gs) \<and>
     concat gs = grp @ filter (\<lambda>u. \<not> empty_unit lines u) us \<and> [] \<notin> set gs"
proof (induction lines plan us grp sz rule: pack_loop.induct)
  case (1 lines plan grp sz)
  then show ?case by (intro exI[of _ "if grp = [] then [] else [grp]"]) simp
next
  case (2 lines plan u us grp sz)
  let ?len = "int (length (py_strip (segment_text lines (u_start u) (u_stop u))))"
  consider "?len = 0" | "?len \<noteq> 0" "flushes plan grp sz u ?len" | "?len \<noteq> 0" "\<not> flushes plan grp sz u ?len"
    by blast
  then show ?case
  proof cases
    case 1
    then show ?thesis using 2(1)[OF refl] by (simp add: empty_unit_def)
  next
    case 2
    obtain gs where gs: "pack_loop lines plan us [u] ?len = concat (map (emit lines plan) gs)"
        "concat gs = [u] @ filter (\<lambda>u. \<not> empty_unit lines u) us" "[] \<notin> set gs"
      using "2.IH"(2)[OF refl 2] by blast
    have "grp \<noteq> []" using 2(2) by (simp add: flushes_def)
    then show ?thesis using gs 2
      by (intro exI[of _ "grp # gs"]) (simp add: Let_def empty_unit_def)
  next
    case 3
    then show ?thesis using "2.IH"(3)[OF refl 3] by (simp add: Let_def empty_unit_def)
  qed
qed


lemma tiled_bounds: "tiled lines lo hi us \<Longrightarrow> u \<in> set us \<Longrightarrow> lo \<le> u_start u \<and> u_start u < u_stop u \<and> u_stop u \<le> hi"
  by (induction us arbitrary: lo) fastforce+

lemma tiled_sorted: "tiled lines lo hi us \<Longrightarrow> sorted_wrt (\<lambda>u v. u_stop u \<le> u_start v) us"
  by (induction us arbitrary: lo) (auto dest: tiled_bounds)

lemma sorted_wrt_concat: "sorted_wrt P (concat gs) \<Longrightarrow> g \<in> set gs \<Longrightarrow> sorted_wrt P g"
  by (induction gs) (auto simp: sorted_wrt_append)

lemma sorted_hd_last:
  assumes "sorted_wrt (\<lambda>u v. u_stop u \<le> u_start v) g" and "\<forall>u \<in> set g. u_start u < u_stop u" and "u \<in> set g"
  shows "u_start (hd g) \<le> u_start u \<and> u_stop u \<le> u_stop (last g)"
  using assms
proof (induction g)
  case (Cons v g)
  show ?case
  proof (cases "g = []")
    case False
    have last: "last g \<in> set g" using False by simp
    have ih: "u \<in> set g \<Longrightarrow> u_stop u \<le> u_stop (last g)" using Cons by simp
    have "u_stop v \<le> u_start (last g)" "u_start (last g) < u_stop (last g)" "u_start v < u_stop v"
      using Cons.prems last by auto
    moreover have "u \<in> set g \<Longrightarrow> u_stop v \<le> u_start u" using Cons.prems by auto
    ultimately show ?thesis using ih Cons.prems(3) False by auto
  qed (use Cons.prems in auto)
qed simp

lemma pack_units_groups:
  assumes "tiled lines 1 (length lines + 1) us"
  obtains gs where "pack_units lines plan us = concat (map (emit lines plan) gs)"
    and "\<And>g. g \<in> set gs \<Longrightarrow> grp_in lines g"
    and "\<And>u. u \<in> set us \<Longrightarrow> \<not> empty_unit lines u \<Longrightarrow>
           \<exists>g \<in> set gs. u_start (hd g) \<le> u_start u \<and> u_stop u \<le> u_stop (last g)"
proof -
  obtain gs where gs: "pack_units lines plan us = concat (map (emit lines plan) gs)"
      "concat gs = filter (\<lambda>u. \<not> empty_unit lines u) us" "[] \<notin> set gs"
    using pack_loop_groups[of lines plan us "[]" 0] by (auto simp: pack_units_def)
  have sub: "u \<in> set us" if "u \<in> set g" "g \<in> set gs" for u g
  proof -
    have "u \<in> set (concat gs)" using that by auto
    then show ?thesis by (simp add: gs(2))
  qed
  have sorted: "sorted_wrt (\<lambda>u v. u_stop u \<le> u_start v) g" if "g \<in> set gs" for g
    using sorted_wrt_concat[OF _ that] gs(2) tiled_sorted[OF assms] by (simp add: sorted_wrt_filter)
  have each: "\<forall>u \<in> set g. u_start u < u_stop u" if "g \<in> set gs" for g
    using sub[OF _ that] tiled_bounds[OF assms] by blast
  have inside: "grp_in lines g" if "g \<in> set gs" for g
  proof -
    have ne: "g \<noteq> []" using that gs(3) by auto
    then have "hd g \<in> set us" "last g \<in> set us" by (simp_all add: sub[OF _ that])
    moreover have "u_start (hd g) \<le> u_start (last g)"
      using sorted_hd_last[OF sorted[OF that] each[OF that], of "last g"] ne by simp
    ultimately show ?thesis using tiled_bounds[OF assms] by (auto simp: grp_in_def intro: le_less_trans)
  qed
  have found: "\<exists>g \<in> set gs. u_start (hd g) \<le> u_start u \<and> u_stop u \<le> u_stop (last g)"
    if "u \<in> set us" "\<not> empty_unit lines u" for u
  proof -
    have "u \<in> set (concat gs)" using that by (simp add: gs(2))
    then obtain g where "g \<in> set gs" "u \<in> set g" by auto
    then show ?thesis using sorted_hd_last[OF sorted each] by blast
  qed
  show ?thesis using that[OF gs(1) inside found] .
qed


section \<open>Rows\<close>

lemma row_groups_concat:
  "concat (row_groups lines target base g sz rs) = g @ rs \<and>
     (g \<noteq> [] \<or> rs \<noteq> [] \<longrightarrow> [] \<notin> set (row_groups lines target base g sz rs))"
  by (induction lines target base g sz rs rule: row_groups.induct) (auto simp: Let_def)

lemma py_strip_not_space: "py_strip s \<noteq> [] \<Longrightarrow> \<exists>p < length (py_strip s). \<not> is_space (py_strip s ! p)"
proof -
  assume ne: "py_strip s \<noteq> []"
  then have "lstrip (rev (lstrip s)) \<noteq> []" by (simp add: py_strip_def)
  then have "\<not> is_space (hd (lstrip (rev (lstrip s))))" unfolding lstrip_def by (rule hd_dropWhile)
  then have "\<not> is_space (last (py_strip s))" by (simp add: py_strip_def last_rev)
  then show ?thesis using ne by (intro exI[of _ "length (py_strip s) - 1"]) (simp add: last_conv_nth)
qed

text \<open>The body rows of a block with their groups.\<close>

definition body_rows :: "string list \<Rightarrow> span_unit \<Rightarrow> nat list" where
  "body_rows lines block =
     (let rows = [u_start block..<u_stop block]
      in tl (if CHR 0x09 \<notin> set (line_at lines (hd rows)) \<and> 1 < length rows then tl rows else rows))"

lemma body_rows_upt:
  assumes "u_start block < u_stop block"
  shows "\<exists>k. u_start block < k \<and> k \<le> u_stop block \<and> body_rows lines block = [k..<u_stop block]"
proof -
  have tl: "tl [a..<b] = [Suc a..<b]" for a b by (cases "a < b") (simp_all add: upt_rec)
  show ?thesis
  proof (cases "CHR 0x09 \<notin> set (line_at lines (u_start block)) \<and> 1 < u_stop block - u_start block")
    case True
    then have "body_rows lines block = [Suc (Suc (u_start block))..<u_stop block]"
      using assms by (simp add: body_rows_def Let_def tl del: upt_Suc)
    moreover have "Suc (Suc (u_start block)) \<le> u_stop block" using True by linarith
    ultimately show ?thesis by (intro exI[of _ "Suc (Suc (u_start block))"]) simp
  next
    case False
    then have "body_rows lines block = [Suc (u_start block)..<u_stop block]"
      using assms by (auto simp: body_rows_def Let_def tl simp del: upt_Suc)
    then show ?thesis using assms by (intro exI[of _ "Suc (u_start block)"]) simp
  qed
qed

lemma pack_block_cases:
  assumes "u_start block < u_stop block"
  obtains t name where "body_rows lines block = []"
      "pack_block lines plan block = [mk_chunk name (t, u_start block, u_stop block - 1)]"
    | name pre gs where "body_rows lines block \<noteq> []" "concat gs = body_rows lines block" "[] \<notin> set gs"
      "pack_block lines plan block = concat (map (row_chunks lines plan name pre (u_start block)) (enumerate 0 gs))"
proof (cases "body_rows lines block = []")
  case True
  then show ?thesis using that(1) by (auto simp: pack_block_def body_rows_def Let_def)
next
  case False
  obtain name pre where "pack_block lines plan block = concat (map (row_chunks lines plan name pre (u_start block))
      (enumerate 0 (row_groups lines (target_chars plan) (int (length pre)) [] (int (length pre)) (body_rows lines block))))"
    using False by (auto simp: pack_block_def body_rows_def Let_def)
  then show ?thesis
    using that(2)[OF False] row_groups_concat[of lines "target_chars plan" "int (length pre)" "[]" "int (length pre)" "body_rows lines block"]
      False by auto
qed

lemma row_chunks_range:
  assumes "c \<in> set (row_chunks lines plan name pre start (i, g))"
  shows "tc_start_line c = (if i = 0 then start else hd g) \<and> tc_end_line c = last g"
  using assms by (auto simp: row_chunks_def Let_def mk_chunk_def split: if_splits)

lemma row_chunks_some:
  assumes "0 < target_chars plan" and "0 \<le> cp_max_chars plan"
  shows "row_chunks lines plan name pre start (i, g) \<noteq> []"
proof -
  let ?body = "py_strip (pre @ [CHR 0x0A] @ join_with [CHR 0x0A] (map (line_at lines) g))"
  show ?thesis
  proof (cases "int (length ?body) \<le> cp_max_chars plan")
    case False
    then have "?body \<noteq> []" using assms(2) by auto
    then obtain p where "p < length ?body" "\<not> is_space (?body ! p)" using py_strip_not_space by blast
    from split_text_covers[OF assms(1) this, of 0] show ?thesis
      using False by (auto simp: row_chunks_def Let_def)
  qed (simp add: row_chunks_def Let_def)
qed

lemma in_upt_group:
  assumes "concat gs = [k..<m]" and "g \<in> set gs" and "n \<in> set g"
  shows "hd g \<le> n \<and> n \<le> last g \<and> k \<le> hd g \<and> last g < m"
proof -
  have "sorted (concat gs)" by (simp add: assms(1))
  then have g: "sorted g" using assms(2) sorted_wrt_concat by blast
  have ne: "g \<noteq> []" using assms(3) by auto
  have "set g \<subseteq> set (concat gs)" using assms(2) by auto
  then have "set g \<subseteq> {k..<m}" by (simp add: assms(1))
  moreover have "hd g \<in> set g" "last g \<in> set g" using ne by simp_all
  moreover have "hd g \<le> n" using g assms(3) by (cases g) auto
  moreover have "n \<le> last g" using g assms(3)
    by (cases g rule: rev_cases) (auto simp: sorted_append)
  ultimately show ?thesis by auto
qed


lemma pack_block_range:
  assumes "1 \<le> u_start block" and "u_start block < u_stop block" and "u_stop block \<le> n_lines + 1"
    and "c \<in> set (pack_block lines plan block)"
  shows "1 \<le> tc_start_line c \<and> tc_start_line c \<le> tc_end_line c \<and> tc_end_line c \<le> n_lines"
  using assms(2)
proof (cases rule: pack_block_cases[where lines = lines and plan = plan])
  case (1 t name)
  then show ?thesis using assms by (auto simp: mk_chunk_def)
next
  case (2 name pre gs)
  obtain k where k: "u_start block < k" "body_rows lines block = [k..<u_stop block]"
    using body_rows_upt[OF assms(2)] by blast
  obtain i g where ig: "(i, g) \<in> set (enumerate 0 gs)" "c \<in> set (row_chunks lines plan name pre (u_start block) (i, g))"
    using assms(4) 2(4) by auto
  then have g: "g \<in> set gs" by (auto dest: enumerate_mem)
  then have "hd g \<in> set g" using 2(3) by (metis hd_in_set)
  then show ?thesis
    using in_upt_group[OF 2(2)[unfolded k(2)] g, of "hd g"] row_chunks_range[OF ig(2)] k(1) assms(1,3)
    by (auto split: if_splits)
qed

lemma pack_block_covers:
  assumes "u_start block < u_stop block" and "0 < target_chars plan" and "0 \<le> cp_max_chars plan"
    and "u_start block \<le> n" and "n < u_stop block"
  shows "\<exists>c \<in> set (pack_block lines plan block). tc_start_line c \<le> n \<and> n \<le> tc_end_line c"
  using assms(1)
proof (cases rule: pack_block_cases[where lines = lines and plan = plan])
  case (1 t name)
  then show ?thesis using assms(4,5) by (auto simp: mk_chunk_def)
next
  case (2 name pre gs)
  obtain k where k: "u_start block < k" "body_rows lines block = [k..<u_stop block]"
    using body_rows_upt[OF assms(1)] by blast
  have chunk: "\<exists>c \<in> set (pack_block lines plan block).
      tc_start_line c = (if i = 0 then u_start block else hd (gs ! i)) \<and> tc_end_line c = last (gs ! i)"
    if "i < length gs" for i
  proof -
    obtain c where c: "c \<in> set (row_chunks lines plan name pre (u_start block) (i, gs ! i))"
      using row_chunks_some[OF assms(2,3), of lines name pre "u_start block" i "gs ! i"] by (meson ex_in_conv set_empty)
    moreover have "(i, gs ! i) \<in> set (enumerate 0 gs)" using that by (simp add: in_set_enumerate_eq)
    ultimately have "c \<in> set (pack_block lines plan block)" unfolding 2(4) by auto
    then show ?thesis using row_chunks_range[OF c] by blast
  qed
  have "gs \<noteq> []" using 2(1,2) by auto
  show ?thesis
  proof (cases "n < k")
    case True
    obtain m where m: "m \<in> set (gs ! 0)" using 2(3) \<open>gs \<noteq> []\<close> by (metis ex_in_conv length_greater_0_conv nth_mem set_empty)
    then have "n \<le> last (gs ! 0)"
      using in_upt_group[OF 2(2)[unfolded k(2)], of "gs ! 0" m] \<open>gs \<noteq> []\<close> True by auto
    moreover obtain c where "c \<in> set (pack_block lines plan block)"
        "tc_start_line c = u_start block" "tc_end_line c = last (gs ! 0)"
      using chunk[of 0] \<open>gs \<noteq> []\<close> by auto
    ultimately show ?thesis using assms(4) by (intro bexI[of _ c]) simp_all
  next
    case False
    then have "n \<in> set (concat gs)" using assms(5) by (simp add: 2(2) k(2))
    then obtain g where "g \<in> set gs" "n \<in> set g" by auto
    then obtain i where i: "i < length gs" "n \<in> set (gs ! i)" by (metis in_set_conv_nth)
    then have "hd (gs ! i) \<le> n \<and> n \<le> last (gs ! i)"
      using in_upt_group[OF 2(2)[unfolded k(2)], of "gs ! i" n] by simp
    moreover obtain c where "c \<in> set (pack_block lines plan block)"
        "tc_start_line c = (if i = 0 then u_start block else hd (gs ! i))" "tc_end_line c = last (gs ! i)"
      using chunk[OF i(1)] by blast
    ultimately show ?thesis using assms(4) by (intro bexI[of _ c]) auto
  qed
qed

section \<open>What packing promises\<close>

lemma in_number_chunks:
  "c \<in> set (number_chunks cs) \<Longrightarrow> \<exists>d \<in> set cs. \<exists>i. c = d\<lparr>tc_index := i\<rparr>"
  by (auto simp: number_chunks_def dest: enumerate_mem)

lemma number_chunks_ex:
  "d \<in> set cs \<Longrightarrow> \<exists>i. d\<lparr>tc_index := i\<rparr> \<in> set (number_chunks cs)"
proof -
  assume "d \<in> set cs"
  then obtain i where "i < length cs" "cs ! i = d" by (auto simp: in_set_conv_nth)
  then have "(i, d) \<in> set (enumerate 0 cs)" by (auto simp: in_set_enumerate_eq)
  then have "(\<lambda>(i, c). c\<lparr>tc_index := i\<rparr>) (i, d) \<in> set (number_chunks cs)"
    unfolding number_chunks_def set_map by (rule imageI)
  then show ?thesis by auto
qed

lemma number_chunks_index: "map tc_index (number_chunks cs) = [0..<length (number_chunks cs)]"
proof -
  have "map tc_index (number_chunks cs) = map fst (enumerate 0 cs)"
    unfolding number_chunks_def map_map by (rule map_cong) auto
  then show ?thesis by (simp add: number_chunks_def)
qed

definition raw_chunks :: "string list \<Rightarrow> chunk_plan \<Rightarrow> section_heading list option \<Rightarrow> text_chunk list" where
  "raw_chunks lines plan headings =
     (if boundary plan = ''rows'' then concat (map (pack_block lines plan) (paragraph_units lines))
      else pack_units lines plan (plan_units lines plan headings))"

lemma pack_raw:
  "py_strip doc \<noteq> [] \<Longrightarrow> pack doc plan headings = number_chunks (raw_chunks (py_splitlines doc) plan headings)"
  by (simp add: pack_def raw_chunks_def pack_rows_def Let_def)

lemma raw_chunks_range:
  assumes "0 < target_chars plan" and "lines \<noteq> []" and "plain_lines lines"
    and "headings_ok (length lines) (list_or headings)" and "c \<in> set (raw_chunks lines plan headings)"
  shows "1 \<le> tc_start_line c \<and> tc_start_line c \<le> tc_end_line c \<and> tc_end_line c \<le> length lines \<and>
    (boundary plan \<noteq> ''rows'' \<longrightarrow> int (length (tc_text c)) \<le> max (target_chars plan) (cp_max_chars plan))"
proof (cases "boundary plan = ''rows''")
  case True
  then obtain block where "block \<in> set (paragraph_units lines)" "c \<in> set (pack_block lines plan block)"
    using assms(5) by (auto simp: raw_chunks_def)
  then show ?thesis
    using tiled_bounds[OF paragraph_units_tiled, of block lines] pack_block_range[of block "length lines" c lines plan] True
    by auto
next
  case False
  obtain gs where "pack_units lines plan (plan_units lines plan headings) = concat (map (emit lines plan) gs)"
      "\<And>g. g \<in> set gs \<Longrightarrow> grp_in lines g"
    by (rule pack_units_groups[OF plan_units_tiled[OF assms(2,4)], of plan plan]) blast
  then obtain g where "grp_in lines g" "c \<in> set (emit lines plan g)"
    using assms(5) False by (auto simp: raw_chunks_def)
  then show ?thesis using emit_row[OF assms(3) _ assms(1)] by blast
qed

lemma raw_chunks_cover:
  assumes "0 < target_chars plan" and "0 \<le> cp_max_chars plan" and "lines \<noteq> []" and "plain_lines lines"
    and "headings_ok (length lines) (list_or headings)"
    and "1 \<le> n" and "n \<le> length lines" and "\<not> blank (line_at lines n)"
  shows "\<exists>c \<in> set (raw_chunks lines plan headings). tc_start_line c \<le> n \<and> n \<le> tc_end_line c"
proof (cases "boundary plan = ''rows''")
  case True
  obtain block where block: "block \<in> set (paragraph_units lines)" "u_start block \<le> n" "n < u_stop block"
    using tiled_member[OF paragraph_units_tiled[of lines] assms(6) _ assms(8)] assms(7) by auto
  then show ?thesis
    using pack_block_covers[OF _ assms(1,2) block(2,3), of lines] tiled_bounds[OF paragraph_units_tiled block(1)] True
    by (auto simp: raw_chunks_def)
next
  case False
  let ?us = "plan_units lines plan headings"
  have tiled: "tiled lines 1 (length lines + 1) ?us" by (rule plan_units_tiled[OF assms(3,5)])
  obtain u where u: "u \<in> set ?us" "u_start u \<le> n" "n < u_stop u"
    using tiled_member[OF tiled assms(6) _ assms(8)] assms(7) by auto
  have "\<not> empty_unit lines u"
    using segment_not_blank[OF assms(4) _ u(2,3) _ assms(8)] tiled_bounds[OF tiled u(1)] by (simp add: empty_unit_def)
  obtain gs where gs: "pack_units lines plan ?us = concat (map (emit lines plan) gs)"
      "\<And>g. g \<in> set gs \<Longrightarrow> grp_in lines g"
      "\<And>u. u \<in> set ?us \<Longrightarrow> \<not> empty_unit lines u \<Longrightarrow>
           \<exists>g \<in> set gs. u_start (hd g) \<le> u_start u \<and> u_stop u \<le> u_stop (last g)"
    by (rule pack_units_groups[OF tiled, of plan]) blast
  obtain g where g: "g \<in> set gs" "u_start (hd g) \<le> n" "n < u_stop (last g)"
    using gs(3)[OF u(1) \<open>\<not> empty_unit lines u\<close>] u(2,3) by auto
  from emit_covers[OF assms(4) gs(2)[OF g(1)] assms(1) g(2,3) assms(8)] g(1) False show ?thesis
    by (auto simp: raw_chunks_def gs(1))
qed


text \<open>
  Claim C35: packing loses no line. Whatever the plan's boundary and however its headings fall, as
  long as its target is positive and its ceiling not negative, every line of the text that is not
  blank lies in the line range of a chunk; the ranges lie inside the text, and the chunks are
  numbered from 0 in order.
\<close>

theorem packing_covers_lines:
  assumes "0 < target_chars plan" and "0 \<le> cp_max_chars plan"
    and "sorted_wrt (\<lambda>h k. sh_line h < sh_line k) (list_or headings)"
    and "\<forall>h \<in> set (list_or headings). 1 \<le> sh_line h \<and> sh_line h \<le> length (py_splitlines doc)"
  shows "(\<forall>n. 1 \<le> n \<and> n \<le> length (py_splitlines doc) \<and> py_strip (py_splitlines doc ! (n - 1)) \<noteq> [] \<longrightarrow>
       (\<exists>c \<in> set (pack doc plan headings). tc_start_line c \<le> n \<and> n \<le> tc_end_line c)) \<and>
    (\<forall>c \<in> set (pack doc plan headings). 1 \<le> tc_start_line c \<and> tc_start_line c \<le> tc_end_line c \<and>
       tc_end_line c \<le> length (py_splitlines doc)) \<and>
    map tc_index (pack doc plan headings) = [0..<length (pack doc plan headings)]"
proof (cases "py_strip doc = []")
  case True
  have "blank (line_at (py_splitlines doc) n)" if n: "1 \<le> n" "n \<le> length (py_splitlines doc)" for n
  proof -
    have "list_all is_space doc" using True by (simp add: py_strip_empty)
    moreover have "line_at (py_splitlines doc) n \<in> set (py_splitlines doc)" using n by (simp add: line_at_def)
    ultimately show ?thesis using splitlines_chars[of _ doc] by (auto simp: blank_iff list_all_iff)
  qed
  then show ?thesis using True by (simp add: pack_def blank_def line_at_def)
next
  case False
  let ?lines = "py_splitlines doc" and ?raw = "raw_chunks (py_splitlines doc) plan headings"
  have ne: "?lines \<noteq> []" using False by (auto simp: splitlines_Nil_iff py_strip_def lstrip_def)
  have ok: "headings_ok (length ?lines) (list_or headings)" using assms(3,4) by (simp add: headings_ok_def)
  have packed: "pack doc plan headings = number_chunks ?raw" using False by (rule pack_raw)
  have range: "1 \<le> tc_start_line c \<and> tc_start_line c \<le> tc_end_line c \<and> tc_end_line c \<le> length ?lines"
    if "c \<in> set (pack doc plan headings)" for c
    using in_number_chunks[OF that[unfolded packed]] raw_chunks_range[OF assms(1) ne plain_splitlines ok] by auto
  have cover: "\<exists>c \<in> set (pack doc plan headings). tc_start_line c \<le> n \<and> n \<le> tc_end_line c"
    if n: "1 \<le> n" "n \<le> length ?lines" "py_strip (?lines ! (n - 1)) \<noteq> []" for n
  proof -
    have "\<not> blank (line_at ?lines n)" using n(3) by (simp add: blank_def line_at_def)
    then obtain d where d: "d \<in> set ?raw" "tc_start_line d \<le> n" "n \<le> tc_end_line d"
      using raw_chunks_cover[OF assms(1,2) ne plain_splitlines ok n(1,2)] by blast
    then obtain i where "d\<lparr>tc_index := i\<rparr> \<in> set (pack doc plan headings)"
      using number_chunks_ex unfolding packed by blast
    then show ?thesis using d(2,3) by (intro bexI[of _ "d\<lparr>tc_index := i\<rparr>"]) simp_all
  qed
  show ?thesis using range cover number_chunks_index[of ?raw] unfolding packed[symmetric] by blast
qed

text \<open>
  Claim C37: no chunk passes the ceiling. With a positive target no larger than \<open>max_chars\<close>, every
  chunk of every boundary but the spreadsheet rows is at most \<open>max_chars\<close> characters long, however
  long a section, a paragraph or a line is, and whatever blank lines lie between merged units.
\<close>

theorem packing_keeps_ceiling:
  assumes "0 < target_chars plan" and "target_chars plan \<le> cp_max_chars plan"
    and "sorted_wrt (\<lambda>h k. sh_line h < sh_line k) (list_or headings)"
    and "\<forall>h \<in> set (list_or headings). 1 \<le> sh_line h \<and> sh_line h \<le> length (py_splitlines doc)"
    and "boundary plan \<noteq> ''rows''" and "c \<in> set (pack doc plan headings)"
  shows "int (length (tc_text c)) \<le> cp_max_chars plan"
proof -
  have strip: "py_strip doc \<noteq> []" using assms(6) by (auto simp: pack_def)
  then have ne: "py_splitlines doc \<noteq> []" by (auto simp: splitlines_Nil_iff py_strip_def lstrip_def)
  have ok: "headings_ok (length (py_splitlines doc)) (list_or headings)" using assms(3,4) by (simp add: headings_ok_def)
  obtain d i where "d \<in> set (raw_chunks (py_splitlines doc) plan headings)" "c = d\<lparr>tc_index := i\<rparr>"
    using assms(6) in_number_chunks unfolding pack_raw[OF strip] by blast
  then show ?thesis using raw_chunks_range[OF assms(1) ne plain_splitlines ok] assms(2,5) by auto
qed

text \<open>
  The spreadsheet rows do pass it: a block that is only a header, such as a lone long row, becomes
  one chunk however long it is.
\<close>

definition rows_plan :: chunk_plan where
  "rows_plan = \<lparr>boundary = ''rows'', target_chars = 4, min_chars = 1, cp_max_chars = 6, cp_overlap_chars = 0\<rparr>"

lemma lone_row_passes_ceiling:
  "map tc_text (pack ''abcdefghij'' rows_plan None) = [''abcdefghij'']"
  by code_simp

definition pack_plan :: chunk_plan where
  "pack_plan = \<lparr>boundary = ''headings'', target_chars = 6, min_chars = 4, cp_max_chars = 9, cp_overlap_chars = 2\<rparr>"

theorem packing_covers_lines_witness:
  "\<exists>c \<in> set (pack demo_text pack_plan (Some demo_headings)). tc_start_line c \<le> 4 \<and> 4 \<le> tc_end_line c"
proof -
  have n: "length (py_splitlines demo_text) = 4 \<and> py_strip (py_splitlines demo_text ! (4 - 1)) \<noteq> []" by code_simp
  then have "\<forall>h \<in> set (list_or (Some demo_headings)). 1 \<le> sh_line h \<and> sh_line h \<le> length (py_splitlines demo_text)"
    by (simp add: demo_headings_def)
  from packing_covers_lines[OF _ _ _ this, of pack_plan] n show ?thesis
    by (simp add: pack_plan_def demo_headings_def)
qed

theorem packing_keeps_ceiling_witness:
  "list_all (\<lambda>c. int (length (tc_text c)) \<le> 9) (pack demo_text pack_plan (Some demo_headings))"
proof -
  have "length (py_splitlines demo_text) = 4" by code_simp
  then have "\<forall>h \<in> set (list_or (Some demo_headings)). 1 \<le> sh_line h \<and> sh_line h \<le> length (py_splitlines demo_text)"
    by (simp add: demo_headings_def)
  from packing_keeps_ceiling[OF _ _ _ this, of pack_plan] show ?thesis
    by (simp add: list_all_iff pack_plan_def demo_headings_def)
qed

end
