(* ===== verification/Acl.thy ===== *)
theory Acl
  imports PyText
begin

text \<open>
  Who may see what: \<open>src/pheasant/security/acl.py\<close>, \<open>src/pheasant/security/idp.py\<close> with its rows in
  \<open>src/pheasant/persistence/state_store.py\<close>, and the three surfaces that enforce it (the filter of
  \<open>search_context\<close> in \<open>src/pheasant/search/hybrid.py\<close>, \<open>require_readable\<close> and \<open>neighbor_filter\<close> of
  \<open>src/pheasant/services/graph.py\<close>).

  Sets of identities are lists read as sets. The \<open>acl\<close> column holds JSON; \<open>stored_acl\<close> is what
  \<open>json.loads\<close> makes of it.
\<close>

section \<open>Access control documents\<close>

record raw_acl =
  raw_scope :: "string option"
  raw_written_by :: "string option"
  raw_owners :: "string list option"
  raw_allow :: "string list option"
  raw_public :: bool

record acl_doc =
  allow :: "string list"
  is_public :: bool

definition FILE_OWNED_NODE_TYPES :: "string list" where
  "FILE_OWNED_NODE_TYPES = [''chunk'', ''heading'', ''symbol'']"

definition acl_subject :: "string \<Rightarrow> string option \<Rightarrow> string option \<Rightarrow> string" where
  "acl_subject node_id node_type artifact_id =
     (case artifact_id of
        Some a \<Rightarrow> if a \<noteq> [] \<and> node_type \<in> set (map Some FILE_OWNED_NODE_TYPES) then a else node_id
      | None \<Rightarrow> node_id)"

definition acl_result :: "string list \<Rightarrow> bool \<Rightarrow> acl_doc option" where
  "acl_result allowed pub =
     (if allowed = [] \<and> \<not> pub then None
      else Some \<lparr>allow = sort (remdups allowed), is_public = pub\<rparr>)"

definition user_identity :: "string \<Rightarrow> string" where
  "user_identity written_by = (if CHR '':'' \<in> set written_by then written_by else ''user:'' @ written_by)"

text \<open>\<open>raw\<close> is \<open>None\<close> when the source captured nothing.\<close>

definition normalize_acl :: "string \<Rightarrow> raw_acl option \<Rightarrow> acl_doc option" where
  "normalize_acl connector_type raw = (case raw of
       None \<Rightarrow> None
     | Some r \<Rightarrow>
         if connector_type = ''memory''
         then let scope = str_or (raw_scope r) []; written_by = str_or (raw_written_by r) []
              in if scope = ''org'' then acl_result [] True
                 else if written_by \<noteq> [] then acl_result [user_identity written_by] False
                 else None
         else if connector_type = ''gdrive''
         then acl_result (map (\<lambda>owner. ''user:'' @ owner) (list_or (raw_owners r))) False
         else acl_result (list_or (raw_allow r)) (raw_public r))"

datatype stored_acl = NoAcl | Unreadable | NullDoc | AclDoc bool "string list option"

definition store_acl :: "acl_doc option \<Rightarrow> stored_acl" where
  "store_acl d = (case d of None \<Rightarrow> NoAcl | Some a \<Rightarrow> AclDoc (is_public a) (Some (allow a)))"

section \<open>Identities\<close>

text \<open>\<open>principal.split(":", 1)[-1]\<close>\<close>

definition bare_name :: "string \<Rightarrow> string" where
  "bare_name p = (if CHR '':'' \<in> set p then tl (dropWhile (\<lambda>c. c \<noteq> CHR '':'') p) else p)"

definition group_identity :: "string \<Rightarrow> string" where
  "group_identity g = (if starts_with ''group:'' g then g else ''group:'' @ g)"

definition config_lookup :: "(string \<times> string list) list option \<Rightarrow> string \<Rightarrow> string list" where
  "config_lookup groups key = list_or (map_of (list_or groups) key)"

definition expand_principal ::
  "string option \<Rightarrow> string list option \<Rightarrow> (string \<times> string list) list option \<Rightarrow> string list option" where
  "expand_principal who groups cgroups =
     (case str_or who [] of
        [] \<Rightarrow> None
      | p \<Rightarrow> let direct = config_lookup cgroups p;
                 mapped = (if direct = [] then config_lookup cgroups (bare_name p) else direct)
             in Some (p # list_or groups @ map group_identity mapped))"

definition is_allowed :: "stored_acl \<Rightarrow> string list option \<Rightarrow> bool \<Rightarrow> bool" where
  "is_allowed acl identities default_public =
     (let unrestricted = (\<lambda>pub. pub \<or> (case identities of None \<Rightarrow> False | Some ids \<Rightarrow> ids \<noteq> []))
      in case acl of
           Unreadable \<Rightarrow> False
         | NoAcl \<Rightarrow> unrestricted default_public
         | NullDoc \<Rightarrow> unrestricted False
         | AclDoc pub allowed \<Rightarrow>
             pub \<or> (case identities of
                       None \<Rightarrow> False
                     | Some ids \<Rightarrow> list_ex (\<lambda>i. i \<in> set (list_or allowed)) ids))"

section \<open>Groups from an identity provider\<close>

record idp_settings =
  idp_enabled :: bool
  provider_is_scim :: bool
  has_base_url :: bool
  staleness_max_minutes :: int
  sync_interval_minutes :: int

record idp_store =
  idp_groups :: "(string \<times> string) list"
  idp_synced_at :: "instant option"  \<comment> \<open>\<open>None\<close>: never, or a value that does not parse\<close>

definition minutes :: "int \<Rightarrow> int" where
  "minutes n = seconds (60 * n)"

definition is_stale :: "idp_settings \<Rightarrow> instant \<Rightarrow> instant option \<Rightarrow> bool" where
  "is_stale settings now synced_at = (case synced_at of
       None \<Rightarrow> True | Some last_sync \<Rightarrow> minutes (staleness_max_minutes settings) < now - last_sync)"

definition idp_groups_for :: "idp_store \<Rightarrow> string list \<Rightarrow> string list" where
  "idp_groups_for st principals = map snd (filter (\<lambda>(p, _). p \<in> set principals) (idp_groups st))"

definition fresh_idp_groups :: "idp_store \<Rightarrow> string \<Rightarrow> idp_settings option \<Rightarrow> instant \<Rightarrow> string list" where
  "fresh_idp_groups st p settings now = (case settings of
       None \<Rightarrow> []
     | Some s \<Rightarrow>
         if \<not> idp_enabled s \<or> is_stale s now (idp_synced_at st) then []
         else map group_identity (idp_groups_for st [p, bare_name p]))"

definition replace_idp_groups ::
  "(string \<times> string list) list \<Rightarrow> instant \<Rightarrow> idp_store \<Rightarrow> bool \<times> idp_store" where
  "replace_idp_groups mapping synced st =
     (let desired = concat (map (\<lambda>(p, gs). map (Pair p) gs) mapping);
          changed = (set desired \<noteq> set (idp_groups st))
      in (changed, st\<lparr>idp_groups := (if changed then sort (remdups desired) else idp_groups st),
                      idp_synced_at := Some synced\<rparr>))"

text \<open>What a fetch of the directory does: it raises, or gives the groups of each principal.\<close>

datatype fetch_result = FetchFails | Fetched "(string \<times> string list) list"

datatype idp_report =
    NotDue
  | SyncFailed
  | Synced instant nat nat bool

definition run_idp_sync ::
  "idp_settings option \<Rightarrow> instant \<Rightarrow> fetch_result \<Rightarrow> idp_store \<Rightarrow> idp_report \<times> idp_store" where
  "run_idp_sync settings now fetch st = (case settings of
       None \<Rightarrow> (SyncFailed, st)
     | Some s \<Rightarrow>
         if \<not> idp_enabled s \<or> \<not> provider_is_scim s \<or> \<not> has_base_url s then (SyncFailed, st)
         else (case fetch of
                 FetchFails \<Rightarrow> (SyncFailed, st)
               | Fetched mapping \<Rightarrow>
                   (case replace_idp_groups mapping now st of
                      (changed, st') \<Rightarrow> (Synced now (length mapping)
                         (card (set (concat (map snd mapping)))) changed, st'))))"

definition run_idp_maintenance ::
  "idp_settings option \<Rightarrow> instant \<Rightarrow> fetch_result \<Rightarrow> idp_store \<Rightarrow> idp_report \<times> idp_store" where
  "run_idp_maintenance settings now fetch st = (case settings of
       None \<Rightarrow> (NotDue, st)
     | Some s \<Rightarrow>
         if \<not> idp_enabled s then (NotDue, st)
         else (case idp_synced_at st of
                 Some last_sync \<Rightarrow>
                   if now - last_sync < minutes (sync_interval_minutes s) then (NotDue, st)
                   else run_idp_sync settings now fetch st
               | None \<Rightarrow> run_idp_sync settings now fetch st))"

section \<open>The surfaces that enforce it\<close>

record access_context =
  acl_enforced :: bool
  default_public :: bool
  config_groups :: "(string \<times> string list) list option"
  idp :: "idp_settings option"
  idp_rows :: idp_store
  artifacts :: "(string \<times> stored_acl) list"  \<comment> \<open>the \<open>id\<close> and \<open>acl\<close> columns\<close>

record caller =
  principal :: "string option"
  principal_groups :: "string list option"

record acl_hit =
  ah_node_id :: "string option"
  ah_type :: "string option"
  ah_artifact_id :: "string option"

definition identities_of :: "access_context \<Rightarrow> instant \<Rightarrow> caller \<Rightarrow> string list option" where
  "identities_of cx now who =
     (case expand_principal (principal who) (principal_groups who) (config_groups cx) of
        None \<Rightarrow> None
      | Some ids \<Rightarrow> Some (ids @ fresh_idp_groups (idp_rows cx) (str_or (principal who) []) (idp cx) now))"

definition artifact_acls :: "access_context \<Rightarrow> string list \<Rightarrow> string \<Rightarrow> stored_acl option" where
  "artifact_acls cx ids key = (if key \<in> set ids then map_of (artifacts cx) key else None)"

definition hit_subject :: "acl_hit \<Rightarrow> string" where
  "hit_subject h = acl_subject (str_or (ah_node_id h) []) (ah_type h) (ah_artifact_id h)"

definition visible :: "access_context \<Rightarrow> instant \<Rightarrow> caller \<Rightarrow> string list \<Rightarrow> acl_hit \<Rightarrow> bool" where
  "visible cx now who candidate_ids h =
     (case artifact_acls cx candidate_ids (hit_subject h) of
        None \<Rightarrow> False
      | Some acl \<Rightarrow> is_allowed acl (identities_of cx now who) (default_public cx))"

text \<open>The access filter of \<open>search_context\<close>, over the text, the vector and the graph arm.\<close>

definition acl_filter ::
  "access_context \<Rightarrow> instant \<Rightarrow> caller \<Rightarrow> acl_hit list list \<Rightarrow> acl_hit list list" where
  "acl_filter cx now who arms =
     (if \<not> acl_enforced cx then arms
      else let candidate_ids = sort (remdups (map hit_subject
                 (filter (\<lambda>h. str_or (ah_node_id h) [] \<noteq> []) (concat arms))))
           in map (filter (visible cx now who candidate_ids)) arms)"

text \<open>\<open>None\<close> is the \<open>NotPermitted\<close> error.\<close>

definition require_readable :: "access_context \<Rightarrow> instant \<Rightarrow> caller \<Rightarrow> string option \<Rightarrow> unit option" where
  "require_readable cx now who artifact_id =
     (if \<not> acl_enforced cx then Some ()
      else (case artifact_id of
              None \<Rightarrow> None
            | Some a \<Rightarrow>
                (case (if a = [] then None else artifact_acls cx [a] a) of
                   None \<Rightarrow> None
                 | Some acl \<Rightarrow> if is_allowed acl (identities_of cx now who) (default_public cx)
                     then Some () else None)))"

text \<open>A walk's neighbour is its node id with what the graph says of the node.\<close>

definition neighbor_filter :: "access_context \<Rightarrow> instant \<Rightarrow> caller \<Rightarrow> acl_hit list \<Rightarrow> acl_hit list" where
  "neighbor_filter cx now who found =
     (if \<not> acl_enforced cx then found
      else let ids = sort (remdups (map hit_subject found))
           in filter (visible cx now who ids) found)"


section \<open>The surfaces agree\<close>

definition may_read :: "access_context \<Rightarrow> instant \<Rightarrow> caller \<Rightarrow> string \<Rightarrow> bool" where
  "may_read cx now who a = (case map_of (artifacts cx) a of
       None \<Rightarrow> False | Some acl \<Rightarrow> is_allowed acl (identities_of cx now who) (default_public cx))"

lemma visible_candidate: "hit_subject h \<in> set ids \<Longrightarrow> visible cx now who ids h = may_read cx now who (hit_subject h)"
  by (simp add: visible_def artifact_acls_def may_read_def)

lemma visible_may_read: "visible cx now who ids h \<Longrightarrow> may_read cx now who (hit_subject h)"
  by (simp add: visible_def artifact_acls_def may_read_def split: if_splits option.splits)

lemma hit_subject_ne: "str_or (ah_node_id h) [] \<noteq> [] \<Longrightarrow> hit_subject h \<noteq> []"
  by (auto simp: hit_subject_def acl_subject_def split: option.split)

lemma require_readable_iff:
  "acl_enforced cx \<Longrightarrow> a \<noteq> [] \<Longrightarrow> require_readable cx now who (Some a) = Some () \<longleftrightarrow> may_read cx now who a"
  by (simp add: require_readable_def artifact_acls_def may_read_def split: option.split)


definition demo_access :: access_context where
  "demo_access = \<lparr>acl_enforced = True, default_public = True, config_groups = Some [(''ann'', [''eng''])],
     idp = None, idp_rows = \<lparr>idp_groups = [], idp_synced_at = None\<rparr>,
     artifacts = [(''f1'', AclDoc False (Some [''group:eng''])), (''f2'', NoAcl)]\<rparr>"

definition demo_chunk :: acl_hit where
  "demo_chunk = \<lparr>ah_node_id = Some ''f1:0'', ah_type = Some ''chunk'', ah_artifact_id = Some ''f1''\<rparr>"


text \<open>
  A memory record is read by whom it was written for. The document stored for a record
  lets everyone read it when its scope is \<open>org\<close>; otherwise only a caller whose identities include
  the writer, and no anonymous one; and a record with neither follows the region's default,
  public to all, or private to those who say who they are.
\<close>

theorem memory_acl_follows_scope:
  "is_allowed (store_acl (normalize_acl ''memory'' (Some r))) identities pub =
    (if str_or (raw_scope r) [] = ''org'' then True
     else if str_or (raw_written_by r) [] = []
     then pub \<or> (case identities of None \<Rightarrow> False | Some ids \<Rightarrow> ids \<noteq> [])
     else (case identities of None \<Rightarrow> False
           | Some ids \<Rightarrow> user_identity (str_or (raw_written_by r) []) \<in> set ids))"
  by (auto simp: normalize_acl_def acl_result_def store_acl_def is_allowed_def Let_def list_ex_iff
      split: option.split)

section \<open>Grants of the identity provider expire\<close>

definition maintain ::
  "idp_settings option \<Rightarrow> (instant \<times> fetch_result) list \<Rightarrow> idp_store \<Rightarrow> idp_store" where
  "maintain settings passes st =
     fold (\<lambda>(now, fetch) st. snd (run_idp_maintenance settings now fetch st)) passes st"

lemma set_mapping_rows:
  "set (concat (map (\<lambda>(p, gs). map (Pair p) gs) m)) = {(p, g) |p gs g. (p, gs) \<in> set m \<and> g \<in> set gs}"
  by (induction m) auto

lemma replace_idp_groups_rows:
  "set (idp_groups (snd (replace_idp_groups mapping synced st))) =
     {(p, g) |p gs g. (p, gs) \<in> set mapping \<and> g \<in> set gs}"
  "idp_synced_at (snd (replace_idp_groups mapping synced st)) = Some synced"
  unfolding set_mapping_rows[symmetric] by (simp_all add: replace_idp_groups_def Let_def del: set_concat)

lemma run_idp_sync_cases:
  "snd (run_idp_sync settings now fetch st) = st \<or>
   (\<exists>mapping. fetch = Fetched mapping \<and>
      snd (run_idp_sync settings now fetch st) = snd (replace_idp_groups mapping now st))"
  by (auto simp: run_idp_sync_def split: option.split fetch_result.split prod.split)

lemma maintenance_cases:
  "snd (run_idp_maintenance settings now fetch st) = st \<or>
   (\<exists>mapping. fetch = Fetched mapping \<and>
      snd (run_idp_maintenance settings now fetch st) = snd (replace_idp_groups mapping now st))"
  using run_idp_sync_cases[of settings now fetch st]
  by (auto simp: run_idp_maintenance_def split: option.split)

lemma maintain_snoc:
  "maintain settings (passes @ [(now, fetch)]) st =
     snd (run_idp_maintenance settings now fetch (maintain settings passes st))"
  by (simp add: maintain_def)

lemma maintain_last:
  "maintain settings passes st = st \<or>
   (\<exists>before t mapping after st'. passes = before @ (t, Fetched mapping) # after \<and>
      maintain settings passes st = snd (replace_idp_groups mapping t st'))"
proof (induction passes rule: rev_induct)
  case (snoc pass passes)
  obtain now fetch where pass: "pass = (now, fetch)" by force
  let ?st = "maintain settings passes st"
  from maintenance_cases[of settings now fetch ?st] show ?case
  proof
    assume "snd (run_idp_maintenance settings now fetch ?st) = ?st"
    then have same: "maintain settings (passes @ [pass]) st = ?st" by (simp add: maintain_snoc pass)
    from snoc.IH show ?thesis
    proof
      assume "\<exists>before t mapping after st'. passes = before @ (t, Fetched mapping) # after \<and>
        ?st = snd (replace_idp_groups mapping t st')"
      then obtain before t mapping after st' where "passes = before @ (t, Fetched mapping) # after"
        and "?st = snd (replace_idp_groups mapping t st')" by blast
      then have "passes @ [pass] = before @ (t, Fetched mapping) # (after @ [pass]) \<and>
        maintain settings (passes @ [pass]) st = snd (replace_idp_groups mapping t st')"
        using same by simp
      then show ?thesis by blast
    qed (simp add: same)
  next
    assume "\<exists>mapping. fetch = Fetched mapping \<and>
      snd (run_idp_maintenance settings now fetch ?st) = snd (replace_idp_groups mapping now ?st)"
    then obtain mapping where "fetch = Fetched mapping"
      and "snd (run_idp_maintenance settings now fetch ?st) = snd (replace_idp_groups mapping now ?st)"
      by blast
    then have "passes @ [pass] = passes @ (now, Fetched mapping) # [] \<and>
        maintain settings (passes @ [pass]) st = snd (replace_idp_groups mapping now ?st)"
      by (simp add: maintain_snoc pass)
    then show ?thesis by blast
  qed
qed (simp add: maintain_def)

text \<open>
  Claim C32: what the directory granted expires with it. Whatever passes the maintenance beat has
  made over a region that never synced, some failing and some not yet due, a group the provider
  grants a caller at some moment comes from the mapping of one of the successful passes, under
  the caller's principal or its bare name, and that pass is at most the staleness limit old; so
  once the directory has been out of reach for longer, no one holds a grant from it.
\<close>

theorem idp_grants_expire:
  assumes "g \<in> set (fresh_idp_groups
      (maintain (Some s) passes \<lparr>idp_groups = [], idp_synced_at = None\<rparr>) p (Some s) now)"
  shows "\<exists>before t mapping after q gs h. passes = before @ (t, Fetched mapping) # after \<and>
    now - t \<le> minutes (staleness_max_minutes s) \<and>
    (q, gs) \<in> set mapping \<and> q \<in> {p, bare_name p} \<and> h \<in> set gs \<and> g = group_identity h"
proof -
  let ?empty = "\<lparr>idp_groups = [], idp_synced_at = None\<rparr>"
  let ?st = "maintain (Some s) passes ?empty"
  have fresh: "\<not> is_stale s now (idp_synced_at ?st)"
    and grant: "g \<in> group_identity ` set (idp_groups_for ?st [p, bare_name p])"
    using assms by (auto simp: fresh_idp_groups_def split: if_splits)
  then have "?st \<noteq> ?empty" by (auto simp: is_stale_def)
  then obtain before t mapping after st' where split: "passes = before @ (t, Fetched mapping) # after"
    and st: "?st = snd (replace_idp_groups mapping t st')"
    using maintain_last[of "Some s" passes ?empty] by blast
  have age: "now - t \<le> minutes (staleness_max_minutes s)"
    using fresh by (simp add: is_stale_def st replace_idp_groups_rows)
  obtain q h where row: "(q, h) \<in> set (idp_groups ?st)" "q \<in> {p, bare_name p}" "g = group_identity h"
    using grant by (auto simp: idp_groups_for_def)
  then obtain gs where "(q, gs) \<in> set mapping" "h \<in> set gs"
    unfolding st replace_idp_groups_rows by blast
  then show ?thesis using split age row by metis
qed

definition demo_idp :: idp_settings where
  "demo_idp = \<lparr>idp_enabled = True, provider_is_scim = True, has_base_url = True,
     staleness_max_minutes = 60, sync_interval_minutes = 15\<rparr>"

definition demo_passes :: "(instant \<times> fetch_result) list" where
  "demo_passes = [(minutes 0, Fetched [(''ann'', [''eng''])]), (minutes 5, Fetched []), (minutes 20, FetchFails)]"

theorem idp_grants_expire_witness:
  "(\<exists>t mapping. (t, Fetched mapping) \<in> set demo_passes \<and> minutes 30 - t \<le> minutes 60) \<and>
   fresh_idp_groups (maintain (Some demo_idp) demo_passes \<lparr>idp_groups = [], idp_synced_at = None\<rparr>)
     ''user:ann'' (Some demo_idp) (minutes 30) = [''group:eng''] \<and>
   fresh_idp_groups (maintain (Some demo_idp) demo_passes \<lparr>idp_groups = [], idp_synced_at = None\<rparr>)
     ''user:ann'' (Some demo_idp) (minutes 61) = []"
proof -
  have now: "fresh_idp_groups (maintain (Some demo_idp) demo_passes \<lparr>idp_groups = [], idp_synced_at = None\<rparr>)
     ''user:ann'' (Some demo_idp) (minutes 30) = [''group:eng'']"
    and later: "fresh_idp_groups (maintain (Some demo_idp) demo_passes \<lparr>idp_groups = [], idp_synced_at = None\<rparr>)
     ''user:ann'' (Some demo_idp) (minutes 61) = []" by code_simp+
  have "''group:eng'' \<in> set (fresh_idp_groups (maintain (Some demo_idp) demo_passes
      \<lparr>idp_groups = [], idp_synced_at = None\<rparr>) ''user:ann'' (Some demo_idp) (minutes 30))"
    by (simp add: now)
  from idp_grants_expire[OF this] obtain before t mapping after where
      "demo_passes = before @ (t, Fetched mapping) # after" "minutes 30 - t \<le> minutes 60"
    by (auto simp: demo_idp_def)
  then show ?thesis using now later by (metis in_set_conv_decomp)
qed

end
