(* ===== verification/Denylist.thy ===== *)
theory Denylist
  imports PyText
begin

text \<open>
  Content that may never be indexed: \<open>src/pheasant/security/corpus_policy.py\<close>, with the shell
  patterns of Python's \<open>fnmatch\<close> it matches paths against.
\<close>

section \<open>Shell patterns\<close>

datatype class_item = OneChar char | CharRange char char

datatype glob = Star | AnyChar | CharClass bool "class_item list" | Literal char

text \<open>The items between the brackets: \<open>c-d\<close> is a range where a character follows the hyphen.\<close>

fun class_items :: "string \<Rightarrow> class_item list" where
  "class_items (c # h # d # cs) =
     (if h = CHR ''-'' then CharRange c d # class_items cs else OneChar c # class_items (h # d # cs))"
| "class_items cs = map OneChar cs"

text \<open>
  The text between \<open>[\<close> and the \<open>]\<close> that closes it, which is neither the first character nor the one
  after a leading exclamation mark; \<open>None\<close> when nothing closes it.
\<close>

fun up_to_bracket :: "string \<Rightarrow> (string \<times> string) option" where
  "up_to_bracket [] = None"
| "up_to_bracket (c # cs) =
     (if c = CHR '']'' then Some ([], cs)
      else map_option (\<lambda>(inner, rest). (c # inner, rest)) (up_to_bracket cs))"

definition bracket :: "string \<Rightarrow> (glob \<times> string) option" where
  "bracket s =
     (let negated = (s \<noteq> [] \<and> hd s = CHR ''!'');
          body = (if negated then tl s else s);
          found = (case body of
              [] \<Rightarrow> None
            | c # cs \<Rightarrow> if c = CHR '']'' then map_option (\<lambda>(inner, rest). (c # inner, rest)) (up_to_bracket cs)
                else up_to_bracket body)
      in map_option (\<lambda>(inner, rest). (CharClass negated (class_items inner), rest)) found)"

lemma up_to_bracket_shorter: "up_to_bracket s = Some (inner, rest) \<Longrightarrow> length rest < length s"
  by (induction s arbitrary: inner) (fastforce split: if_splits)+

lemma bracket_shorter: "bracket s = Some (g, rest) \<Longrightarrow> length rest < length s"
  by (auto simp: bracket_def Let_def tl_def less_SucI split: if_splits list.splits
      dest!: up_to_bracket_shorter)

function glob_of :: "string \<Rightarrow> glob list" where
  "glob_of [] = []"
| "glob_of (c # cs) =
     (if c = CHR ''*'' then Star # glob_of cs
      else if c = CHR ''?'' then AnyChar # glob_of cs
      else if c = CHR ''['' then
        (case bracket cs of
           None \<Rightarrow> Literal c # glob_of cs
         | Some (g, rest) \<Rightarrow> g # glob_of rest)
      else Literal c # glob_of cs)"
  by pat_completeness auto
termination
  by (relation "measure length") (auto dest!: bracket_shorter)

fun in_class :: "class_item \<Rightarrow> char \<Rightarrow> bool" where
  "in_class (OneChar d) c \<longleftrightarrow> c = d"
| "in_class (CharRange lo hi) c \<longleftrightarrow> (of_char lo :: nat) \<le> of_char c \<and> of_char c \<le> (of_char hi :: nat)"

fun matches_one :: "glob \<Rightarrow> char \<Rightarrow> bool" where
  "matches_one Star c = False"
| "matches_one AnyChar c = True"
| "matches_one (CharClass negated items) c = (negated \<noteq> list_ex (\<lambda>i. in_class i c) items)"
| "matches_one (Literal d) c = (c = d)"

fun glob_matches :: "glob list \<Rightarrow> string \<Rightarrow> bool" where
  "glob_matches [] s \<longleftrightarrow> s = []"
| "glob_matches (Star # gs) s \<longleftrightarrow>
     glob_matches gs s \<or> (case s of [] \<Rightarrow> False | _ # cs \<Rightarrow> glob_matches (Star # gs) cs)"
| "glob_matches (g # gs) s \<longleftrightarrow>
     (case s of [] \<Rightarrow> False | c # cs \<Rightarrow> matches_one g c \<and> glob_matches gs cs)"

definition fnmatch :: "string \<Rightarrow> string \<Rightarrow> bool" where
  "fnmatch name pat = glob_matches (glob_of pat) name"

section \<open>The denylist\<close>

text \<open>\<open>PurePosixPath(path).name\<close> of a path without a leading slash\<close>

definition posix_name :: "string \<Rightarrow> string" where
  "posix_name path =
     (case filter (\<lambda>part. part \<noteq> [] \<and> part \<noteq> ''.'') (split_char CHR ''/'' path) of
        [] \<Rightarrow> [] | parts \<Rightarrow> last parts)"

definition relative_posix :: "string \<Rightarrow> string" where
  "relative_posix relative = dropWhile (\<lambda>c. c = CHR ''/'') (replace_char CHR 0x5C CHR ''/'' relative)"

definition denied_by :: "string \<Rightarrow> string list \<Rightarrow> string option" where
  "denied_by relative patterns =
     (let path = relative_posix relative; name = posix_name path
      in if patterns = [] \<or> path = [] then None
         else List.find (\<lambda>p. p \<noteq> [] \<and> (fnmatch path p \<or> fnmatch name p)) patterns)"

definition REFUSED_REPORT_LIMIT :: nat where "REFUSED_REPORT_LIMIT = 50"

text \<open>The rows listed and the total, or nothing\<close>

definition refusal_details :: "(string \<times> string) list \<Rightarrow> ((string \<times> string) list \<times> nat) option" where
  "refusal_details refused =
     (if refused = [] then None else Some (take REFUSED_REPORT_LIMIT refused, length refused))"

lemma glob_literal: "plain_glob = map Literal n \<Longrightarrow> glob_matches plain_glob s \<longleftrightarrow> s = n"
  by (induction n arbitrary: s plain_glob) (auto split: list.split)

lemma glob_star: "glob_matches [Star] s" by (induction s) auto

lemma glob_star_suffix: "glob_matches (Star # gs) s \<longleftrightarrow> (\<exists>a b. s = a @ b \<and> glob_matches gs b)"
proof (induction s)
  case (Cons c cs)
  show ?case
  proof
    assume "glob_matches (Star # gs) (c # cs)"
    then have "glob_matches gs (c # cs) \<or> (\<exists>a b. cs = a @ b \<and> glob_matches gs b)" using Cons by simp
    then show "\<exists>a b. c # cs = a @ b \<and> glob_matches gs b" by (metis append_Cons append_Nil)
  next
    assume "\<exists>a b. c # cs = a @ b \<and> glob_matches gs b"
    then show "glob_matches (Star # gs) (c # cs)" using Cons by (auto simp: Cons_eq_append_conv)
  qed
qed simp

lemma fnmatch_star_suffix: "fnmatch s (CHR ''*'' # p) \<longleftrightarrow> (\<exists>a b. s = a @ b \<and> fnmatch b p)"
  by (simp add: fnmatch_def glob_star_suffix del: glob_matches.simps)

lemma denied_by_mem: "denied_by path patterns = Some p \<Longrightarrow> p \<in> set patterns \<and> p \<noteq> []"
  by (auto simp: denied_by_def Let_def dest!: find_Some split: if_splits)

end
