(* ===== verification/SyncPass.thy ===== *)
theory SyncPass
  imports Retraction SyncCancel Chunking Denylist
begin

text \<open>
  One pass over a source: \<open>SyncEngine.sync_source\<close> of \<open>src/pheasant/sync/engine.py\<close> with what it
  runs (\<open>_prepare_item\<close>, the commit of one artifact, \<open>_maybe_checkpoint\<close>, \<open>archived.admit\<close> and
  \<open>archived.prune\<close>, \<open>prune_vanished\<close>, \<open>finish_cancelled\<close>, \<open>_finalize_index_state\<close>), and
  \<open>_apply_index_task\<close>, which resumes an interrupted full pass.

  A pass is the list of the writes it makes, each of which reaches the disk whole or not at all,
  so that stopping after any number of them is what a crash leaves. The state has what is on
  disk (the tables, the published graph, the manifest, the fingerprints, the status) and what
  dies with the process (the working graph, the manifest being built).

  What the pass calls and another component does is a parameter, in the record \<open>world\<close>: reading
  an item, hashing, recognising and chunking a file, its enrichment, adding its nodes to the
  graph and linking it. Vectors, the node index, the media store, snapshots, events and progress
  reports are left out: nothing read here depends on them.
\<close>

section \<open>Items and what is known of them\<close>

record sync_item =
  it_identity :: string
  it_path :: string
  it_sha :: "string option"
  it_member :: string  \<comment> \<open>\<open>archive_member\<close> of its metadata, empty when absent\<close>

datatype 'b read_result =
    NotModified
  | ConnectorUnavailable
  | ReadError string
  | Payload 'b "string option"

record manifest_entry =
  me_sha :: "string option"
  me_artifact :: string
  me_branch :: "string option"

type_synonym manifest = "(string \<times> manifest_entry) list"

record parsed_artifact =
  pa_id :: string
  pa_source :: string
  pa_path :: string
  pa_sha :: string
  pa_branch :: "string option"
  pa_chunks :: "text_chunk list"

record 'b world =
  read_item :: "sync_item \<Rightarrow> 'b read_result"
  sha256_bytes :: "'b \<Rightarrow> string"
  readable_type :: "sync_item \<Rightarrow> bool"
  chunks_of :: "sync_item \<Rightarrow> 'b \<Rightarrow> text_chunk list"
  terms_of :: "parsed_artifact \<Rightarrow> string list"
  symbols_of :: "parsed_artifact \<Rightarrow> string list"
  add_artifact :: "parsed_artifact \<Rightarrow> graph \<Rightarrow> graph"
  link_graph :: "string \<Rightarrow> graph \<Rightarrow> graph"
  blank_graph :: graph

datatype sync_mode = Incremental | FullSync | ValidateOnly | Repair

record sync_settings =
  ss_source :: string
  ss_kb :: string
  ss_branch :: "string option"
  ss_denylist :: "string list"
  ss_complete_listing :: bool
  ss_deferred :: bool     \<comment> \<open>\<open>enrich == "deferred"\<close>\<close>
  ss_fingerprint :: string

section \<open>The state\<close>

datatype indexed_row =
    ChunkRow (row_source: string) text_chunk
  | TermRow (row_source: string) string
  | SymbolRow (row_source: string) string

record sync_state =
  db :: "indexed_row kb_state"
  saved_graph :: graph
  manifest_row :: "manifest option"
  fingerprints :: "(string \<times> string) list"
  source_status :: "string option"
  working_graph :: graph
  graph_loaded :: bool
  artifacts :: manifest

definition FULL_RESUME_SCOPE :: "string \<Rightarrow> string" where
  "FULL_RESUME_SCOPE name = ''source:'' @ name @ '':full_sync_phase''"

definition SOURCE_SCOPE :: "string \<Rightarrow> string" where
  "SOURCE_SCOPE name = ''source:'' @ name"

definition ENRICH_DIRTY_SCOPE :: "string \<Rightarrow> string" where
  "ENRICH_DIRTY_SCOPE name = ''memory-enrich-dirty:'' @ name"

definition full_phase :: "string \<Rightarrow> sync_state \<Rightarrow> string option" where
  "full_phase source st = map_of (fingerprints st) (FULL_RESUME_SCOPE source)"

definition set_fingerprint :: "string \<Rightarrow> string \<Rightarrow> sync_state \<Rightarrow> sync_state" where
  "set_fingerprint scope v st = st\<lparr>fingerprints := AList.update scope v (fingerprints st)\<rparr>"

definition clear_fingerprint :: "string \<Rightarrow> sync_state \<Rightarrow> sync_state" where
  "clear_fingerprint scope st = st\<lparr>fingerprints := AList.delete scope (fingerprints st)\<rparr>"

text \<open>What a process that starts sees: the disk, no graph and no manifest of its own.\<close>

definition reboot :: "'b world \<Rightarrow> sync_state \<Rightarrow> sync_state" where
  "reboot w st = st\<lparr>working_graph := blank_graph w, graph_loaded := False, artifacts := []\<rparr>"

section \<open>Preparing an item\<close>

record prepared_item =
  pr_item :: sync_item
  pr_parsed :: "parsed_artifact option"
  pr_fetched :: bool
  pr_skipped :: bool
  pr_transfer_skipped :: bool
  pr_refused_by :: "string option"
  pr_read_error :: "string option"

definition prepared_of :: "sync_item \<Rightarrow> prepared_item" where
  "prepared_of item = \<lparr>pr_item = item, pr_parsed = None, pr_fetched = False, pr_skipped = False,
     pr_transfer_skipped = False, pr_refused_by = None, pr_read_error = None\<rparr>"

definition entry_sha :: "manifest_entry option \<Rightarrow> string option" where
  "entry_sha previous = (case previous of None \<Rightarrow> None | Some e \<Rightarrow> me_sha e)"

definition can_skip_before_read :: "sync_mode \<Rightarrow> manifest_entry option \<Rightarrow> sync_item \<Rightarrow> bool" where
  "can_skip_before_read mode previous item \<longleftrightarrow>
     mode = Incremental \<and> previous \<noteq> None \<and> it_sha item \<noteq> None \<and> entry_sha previous = it_sha item"

definition refused_by :: "sync_settings \<Rightarrow> sync_item \<Rightarrow> string option" where
  "refused_by ss item = (case denied_by (it_path item) (ss_denylist ss) of
       Some p \<Rightarrow> Some p | None \<Rightarrow> denied_by (it_member item) (ss_denylist ss))"

definition decide_before_read ::
  "sync_settings \<Rightarrow> sync_mode \<Rightarrow> manifest \<Rightarrow> sync_item \<Rightarrow> prepared_item option" where
  "decide_before_read ss mode known item =
     (let skip = (prepared_of item)\<lparr>pr_skipped := True, pr_transfer_skipped := True\<rparr>
      in case refused_by ss item of
           Some p \<Rightarrow> Some (skip\<lparr>pr_refused_by := Some p\<rparr>)
         | None \<Rightarrow>
             if can_skip_before_read mode (map_of known (it_path item)) item then Some skip else None)"

definition artifact_id :: "sync_settings \<Rightarrow> string \<Rightarrow> string" where
  "artifact_id ss path =
     ''file:'' @ ss_source ss @ '':'' @ path @ '':branch='' @ str_or (ss_branch ss) ''none''"

definition content_hash :: "'b world \<Rightarrow> sync_item \<Rightarrow> 'b \<Rightarrow> string option \<Rightarrow> string" where
  "content_hash w item content sha = str_or sha (str_or (it_sha item) (sha256_bytes w content))"

definition parse_connector_payload ::
  "'b world \<Rightarrow> sync_settings \<Rightarrow> sync_item \<Rightarrow> 'b \<Rightarrow> string \<Rightarrow> parsed_artifact option" where
  "parse_connector_payload w ss item content sha =
     (if \<not> readable_type w item then None
      else Some \<lparr>pa_id = artifact_id ss (it_path item), pa_source = ss_source ss,
        pa_path = it_path item, pa_sha = content_hash w item content (Some sha),
        pa_branch = ss_branch ss, pa_chunks = chunks_of w item content\<rparr>)"

definition artifact_state :: "indexed_row kb_state \<Rightarrow> string \<Rightarrow> string \<Rightarrow> (artifact_row \<times> nat) option" where
  "artifact_state d source i =
     (case filter (\<lambda>r. ar_source r = source \<and> ar_id r = i) (st_artifacts d) of
        [] \<Rightarrow> None
      | r # _ \<Rightarrow> Some (r, length (filter (\<lambda>(j, _). j = i) (st_chunks d))))"

definition loaded_graph :: "'b world \<Rightarrow> sync_state \<Rightarrow> graph" where
  "loaded_graph w st =
     (if graph_loaded st \<or> g_nodes (saved_graph st) = [] then working_graph st else saved_graph st)"

definition needs_repair ::
  "'b world \<Rightarrow> sync_settings \<Rightarrow> sync_state \<Rightarrow> parsed_artifact \<Rightarrow> manifest_entry option \<Rightarrow> bool" where
  "needs_repair w ss st p previous =
     (if previous = None \<or> entry_sha previous \<noteq> Some (pa_sha p) then True
      else case artifact_state (db st) (ss_source ss) (pa_id p) of
             None \<Rightarrow> True
           | Some (r, n) \<Rightarrow>
               if \<not> has_node (loaded_graph w st) (pa_id p) then True
               else ar_sha r \<noteq> pa_sha p \<or> ar_status r \<noteq> ''indexed'' \<or> n < length (pa_chunks p))"

text \<open>\<open>None\<close> is \<open>ConnectorUnavailable\<close>, which ends the pass.\<close>

definition prepare_item ::
  "'b world \<Rightarrow> sync_settings \<Rightarrow> sync_mode \<Rightarrow> sync_state \<Rightarrow> manifest \<Rightarrow> sync_item \<Rightarrow> prepared_item option" where
  "prepare_item w ss mode st known item =
     (let previous = map_of known (it_path item); base = prepared_of item
      in case decide_before_read ss mode known item of
           Some decided \<Rightarrow> Some decided
         | None \<Rightarrow>
             (case read_item w item of
                NotModified \<Rightarrow> Some (base\<lparr>pr_skipped := True, pr_transfer_skipped := True\<rparr>)
              | ConnectorUnavailable \<Rightarrow> None
              | ReadError msg \<Rightarrow> Some (base\<lparr>pr_skipped := True, pr_read_error := Some msg\<rparr>)
              | Payload content sha \<Rightarrow>
                  (let h = content_hash w item content sha;
                       unchanged = (\<lambda>s. mode = Incremental \<and> previous \<noteq> None \<and> entry_sha previous = Some s)
                   in if unchanged h then Some (base\<lparr>pr_fetched := True, pr_skipped := True\<rparr>)
                      else (case parse_connector_payload w ss item content h of
                              None \<Rightarrow> Some (base\<lparr>pr_fetched := True\<rparr>)
                            | Some p \<Rightarrow>
                                Some (base\<lparr>pr_parsed := Some p, pr_fetched := True,
                                  pr_skipped := unchanged (pa_sha p) \<or>
                                    mode = Repair \<and> \<not> needs_repair w ss st p previous\<rparr>)))))"

text \<open>The items up to the one that ends the pass, and whether one does\<close>

fun prepare_until :: "(sync_item \<Rightarrow> prepared_item option) \<Rightarrow> sync_item list \<Rightarrow> prepared_item list \<times> bool" where
  "prepare_until f [] = ([], False)"
| "prepare_until f (i # is) =
     (case f i of
        None \<Rightarrow> ([], True)
      | Some p \<Rightarrow> (case prepare_until f is of (ps, raised) \<Rightarrow> (p # ps, raised)))"

section \<open>The writes of a pass\<close>

definition artifact_row_of :: "parsed_artifact \<Rightarrow> artifact_row" where
  "artifact_row_of p = \<lparr>ar_id = pa_id p, ar_source = pa_source p, ar_path = pa_path p,
     ar_branch = pa_branch p, ar_sha = pa_sha p, ar_status = ''indexed''\<rparr>"

definition chunk_rows_of :: "parsed_artifact \<Rightarrow> (string \<times> indexed_row) list" where
  "chunk_rows_of p = map (\<lambda>c. (pa_id p, ChunkRow (pa_source p) c)) (pa_chunks p)"

text \<open>\<open>ON CONFLICT(id) DO UPDATE\<close> keeps the row's id and source.\<close>

definition replace_artifact_chunks ::
  "artifact_row \<Rightarrow> (string \<times> indexed_row) list \<Rightarrow> bool \<Rightarrow> indexed_row kb_state \<Rightarrow> indexed_row kb_state" where
  "replace_artifact_chunks r chunks fresh d =
     (let update = (\<lambda>old. old\<lparr>ar_path := ar_path r, ar_branch := ar_branch r, ar_sha := ar_sha r,
            ar_status := ar_status r\<rparr>);
          drop = (\<lambda>t. if fresh then t else drop_rows [ar_id r] t)
      in d\<lparr>st_artifacts := tbl_upsert ar_id r (\<lambda>_. True) update (st_artifacts d),
           st_chunks := drop (st_chunks d) @ chunks,
           st_chunks_fts := drop (st_chunks_fts d) @ chunks,
           st_symbols := drop (st_symbols d),
           st_terms := drop (st_terms d)\<rparr>)"

definition replace_artifact_enrichment ::
  "string \<Rightarrow> string \<Rightarrow> string list \<Rightarrow> string list \<Rightarrow> indexed_row kb_state \<Rightarrow> indexed_row kb_state" where
  "replace_artifact_enrichment i source terms symbols d =
     d\<lparr>st_symbols := drop_rows [i] (st_symbols d) @ map (\<lambda>s. (i, SymbolRow source s)) symbols,
       st_terms := drop_rows [i] (st_terms d) @
         map (\<lambda>t. (i, TermRow source t)) (dict_fromkeys terms)\<rparr>"

definition delete_source_artifacts :: "string \<Rightarrow> indexed_row kb_state \<Rightarrow> nat \<times> indexed_row kb_state" where
  "delete_source_artifacts source d =
     (let keep = filter (\<lambda>(_, r). row_source r \<noteq> source)
      in (length (filter (\<lambda>r. ar_source r = source) (st_artifacts d)),
          d\<lparr>st_chunks_fts := keep (st_chunks_fts d), st_chunks := keep (st_chunks d),
            st_symbols := keep (st_symbols d), st_terms := keep (st_terms d),
            st_artifacts := filter (\<lambda>r. ar_source r \<noteq> source) (st_artifacts d)\<rparr>))"

definition ensure_graph_loaded :: "'b world \<Rightarrow> sync_state \<Rightarrow> sync_state" where
  "ensure_graph_loaded w st = st\<lparr>working_graph := loaded_graph w st, graph_loaded := True\<rparr>"

text \<open>\<open>archived.prune\<close>: what is held out of the source goes, listed or not.\<close>

definition archived_prune ::
  "string list \<Rightarrow> string \<Rightarrow> manifest \<Rightarrow> indexed_row kb_state \<Rightarrow> graph \<Rightarrow>
   nat \<times> manifest \<times> indexed_row kb_state \<times> graph" where
  "archived_prune held source known d g =
     (if held = [] then (0, known, d, g)
      else (let gone = map (\<lambda>r. (ar_id r, ar_path r, ar_branch r))
                  (filter (\<lambda>r. ar_source r = source \<and> ar_path r \<in> set held) (st_artifacts d));
                ids = map fst gone
            in (length ids, fold AList.delete held known,
                fold (\<lambda>batch d. snd (delete_artifacts batch d)) (slices DELETE_BATCH ids) d,
                if ids = [] then g else snd (remove_vanished_artifacts g source gone))))"

text \<open>A write of a pass. \<open>Link\<close> is the enrichment of the whole graph.\<close>

datatype sync_write =
    SetPhase string
  | ClearSourceRows
  | ClearSourceGraph
  | FreshManifest
  | LoadManifest
  | WriteChunks bool parsed_artifact
  | WriteGraph parsed_artifact
  | WriteEnrichment parsed_artifact
  | NoteArtifact parsed_artifact
  | PruneArchived "string list"
  | PruneVanished "string list"
  | Link
  | SaveGraphRows
  | SaveManifestRow
  | AdvancePhase
  | SetDirtyFlag
  | ClearDirtyFlag
  | SetSourcePrint
  | ClearPhase
  | SetStatus string

fun do_write :: "'b world \<Rightarrow> sync_settings \<Rightarrow> sync_write \<Rightarrow> sync_state \<Rightarrow> sync_state" where
  "do_write w ss (SetPhase v) st = set_fingerprint (FULL_RESUME_SCOPE (ss_source ss)) v st"
| "do_write w ss ClearSourceRows st = st\<lparr>db := snd (delete_source_artifacts (ss_source ss) (db st))\<rparr>"
| "do_write w ss ClearSourceGraph st =
     (let st = ensure_graph_loaded w st
      in st\<lparr>working_graph := remove_source_content (ss_kb ss) (ss_source ss) (working_graph st)\<rparr>)"
| "do_write w ss FreshManifest st = st\<lparr>artifacts := []\<rparr>"
| "do_write w ss LoadManifest st =
     st\<lparr>artifacts := (case manifest_row st of None \<Rightarrow> [] | Some m \<Rightarrow> m)\<rparr>"
| "do_write w ss (WriteChunks fresh p) st =
     (let st = ensure_graph_loaded w st
      in st\<lparr>db := replace_artifact_chunks (artifact_row_of p) (chunk_rows_of p) fresh (db st)\<rparr>)"
| "do_write w ss (WriteGraph p) st = st\<lparr>working_graph := add_artifact w p (working_graph st)\<rparr>"
| "do_write w ss (WriteEnrichment p) st =
     st\<lparr>db := replace_artifact_enrichment (pa_id p) (pa_source p) (terms_of w p) (symbols_of w p) (db st)\<rparr>"
| "do_write w ss (NoteArtifact p) st =
     st\<lparr>artifacts := AList.update (pa_path p)
       \<lparr>me_sha = Some (pa_sha p), me_artifact = pa_id p, me_branch = pa_branch p\<rparr> (artifacts st)\<rparr>"
| "do_write w ss (PruneArchived held) st =
     (case archived_prune held (ss_source ss) (artifacts st) (db st) (loaded_graph w st) of
        (n, known, d, g) \<Rightarrow>
          if n = 0 then st\<lparr>artifacts := known\<rparr>
          else st\<lparr>artifacts := known, db := d, working_graph := g, graph_loaded := True\<rparr>)"
| "do_write w ss (PruneVanished listed) st =
     (case prune_vanished (ss_complete_listing ss) (ss_source ss) listed (artifacts st) (db st)
             (loaded_graph w st) of
        (n, known, d, g) \<Rightarrow>
          if length known = length (artifacts st) then st
          else st\<lparr>artifacts := known, db := d, working_graph := g, graph_loaded := True\<rparr>)"
| "do_write w ss Link st = st\<lparr>working_graph := link_graph w (ss_source ss) (working_graph st)\<rparr>"
| "do_write w ss SaveGraphRows st = st\<lparr>saved_graph := working_graph st\<rparr>"
| "do_write w ss SaveManifestRow st = st\<lparr>manifest_row := Some (artifacts st)\<rparr>"
| "do_write w ss AdvancePhase st =
     (if full_phase (ss_source ss) st \<in> {Some ''starting'', Some ''cleared''}
      then set_fingerprint (FULL_RESUME_SCOPE (ss_source ss)) ''checkpointed'' st else st)"
| "do_write w ss SetDirtyFlag st = set_fingerprint (ENRICH_DIRTY_SCOPE (ss_source ss)) ''1'' st"
| "do_write w ss ClearDirtyFlag st = clear_fingerprint (ENRICH_DIRTY_SCOPE (ss_source ss)) st"
| "do_write w ss SetSourcePrint st = set_fingerprint (SOURCE_SCOPE (ss_source ss)) (ss_fingerprint ss) st"
| "do_write w ss ClearPhase st = clear_fingerprint (FULL_RESUME_SCOPE (ss_source ss)) st"
| "do_write w ss (SetStatus v) st = st\<lparr>source_status := Some v\<rparr>"

definition run_writes :: "'b world \<Rightarrow> sync_settings \<Rightarrow> sync_write list \<Rightarrow> sync_state \<Rightarrow> sync_state" where
  "run_writes w ss writes st = fold (do_write w ss) writes st"

section \<open>The pass\<close>

datatype listing = PathNotThere | OverBudget | Listed "sync_item list"

text \<open>
  What the world outside the pass decides: the listing, the archived paths when it begins and when
  it prunes, what \<open>run.checkpoint\<close> raises before each item, which commits come with a checkpoint
  of the graph that is due (and whether saving succeeds), and the connector's health.
\<close>

datatype checkpoint_due = NotDue | Due | GraphNotSaved | ManifestNotSaved

record surroundings =
  su_listing :: listing
  su_held :: "string list"
  su_held_later :: "string list"
  su_check :: "nat \<Rightarrow> cancelled option"
  su_due :: "string \<Rightarrow> checkpoint_due"
  su_partial :: "string option"
  su_health :: string

record pass_counts =
  pc_indexed :: nat
  pc_skipped :: nat
  pc_fetched :: nat
  pc_transfer_skipped :: nat
  pc_refused :: "(string \<times> string) list"
  pc_unreadable :: "(string \<times> string) list"

datatype pass_result =
    Validated string
  | NotIndexed string
  | Raised string
  | Stopped sync_result
  | Finished string pass_counts nat   \<comment> \<open>the outcome, the counts and how many artifacts were removed\<close>

definition commits :: "prepared_item \<Rightarrow> parsed_artifact option" where
  "commits pr = (if pr_skipped pr then None else pr_parsed pr)"

definition count_pass :: "prepared_item list \<Rightarrow> pass_counts" where
  "count_pass out =
     \<lparr>pc_indexed = length (filter (\<lambda>pr. commits pr \<noteq> None) out),
      pc_skipped = length (filter (\<lambda>pr. pr_skipped pr \<and> pr_read_error pr = None) out),
      pc_fetched = length (filter pr_fetched out),
      pc_transfer_skipped = length (filter pr_transfer_skipped out),
      pc_refused = concat (map (\<lambda>pr. case pr_refused_by pr of None \<Rightarrow> []
        | Some p \<Rightarrow> [(it_path (pr_item pr), p)]) out),
      pc_unreadable = concat (map (\<lambda>pr. case pr_read_error pr of None \<Rightarrow> []
        | Some e \<Rightarrow> [(it_path (pr_item pr), e)]) out)\<rparr>"

definition checkpoint_writes :: "checkpoint_due \<Rightarrow> sync_write list" where
  "checkpoint_writes due = (case due of
       Due \<Rightarrow> [SaveGraphRows, SaveManifestRow, AdvancePhase]
     | ManifestNotSaved \<Rightarrow> [SaveGraphRows]
     | _ \<Rightarrow> [])"

definition commit_writes :: "surroundings \<Rightarrow> bool \<Rightarrow> prepared_item \<Rightarrow> sync_write list" where
  "commit_writes su cleared pr = (case commits pr of
       None \<Rightarrow> []
     | Some p \<Rightarrow> [WriteChunks cleared p, WriteGraph p, WriteEnrichment p, NoteArtifact p] @
         checkpoint_writes (su_due su (pa_path p)))"

definition clearing_writes :: "sync_write list" where
  "clearing_writes = [SetPhase ''starting'', ClearSourceRows, ClearSourceGraph, SetPhase ''cleared'', FreshManifest]"

definition removed_count :: "sync_settings \<Rightarrow> string list \<Rightarrow> string list \<Rightarrow> sync_state \<Rightarrow> nat" where
  "removed_count ss held listed st =
     (case archived_prune held (ss_source ss) (artifacts st) (db st) empty_graph of
        (n, known, d, _) \<Rightarrow>
          n + fst (prune_vanished (ss_complete_listing ss) (ss_source ss) listed known d empty_graph))"

definition finalize_writes :: "sync_settings \<Rightarrow> sync_mode \<Rightarrow> bool \<Rightarrow> sync_state \<Rightarrow> sync_write list" where
  "finalize_writes ss mode changed st =
     (let pending = (str_or (map_of (fingerprints st) (ENRICH_DIRTY_SCOPE (ss_source ss))) [] \<noteq> [])
      in (if ss_deferred ss then (if changed then [SetDirtyFlag] else [])
          else if changed \<or> mode = FullSync \<or> pending
          then Link # (if pending then [ClearDirtyFlag] else [])
          else []) @
         (if changed \<or> mode = FullSync then [SaveGraphRows] else []) @ [SaveManifestRow])"

definition finish_writes :: "manifest finish_call list \<Rightarrow> sync_write list" where
  "finish_writes calls = concat (map (\<lambda>c. case c of
       SaveGraph \<Rightarrow> [SaveGraphRows]
     | SetEnrichDirty _ \<Rightarrow> [SetDirtyFlag]
     | SaveManifest _ _ \<Rightarrow> [SaveManifestRow]
     | MarkStatus _ status \<Rightarrow> [SetStatus status]
     | _ \<Rightarrow> []) calls)"

definition effective_mode :: "sync_settings \<Rightarrow> sync_mode \<Rightarrow> bool \<Rightarrow> sync_state \<Rightarrow> sync_mode" where
  "effective_mode ss mode resume st =
     (let previous = map_of (fingerprints st) (SOURCE_SCOPE (ss_source ss));
          config_changed = (previous \<noteq> None \<and> previous \<noteq> Some (ss_fingerprint ss))
      in if config_changed \<and> mode \<in> {Incremental, Repair} \<and> \<not> resume then FullSync else mode)"

definition opening_writes :: "sync_mode \<Rightarrow> sync_write list" where
  "opening_writes mode = LoadManifest # (if mode = FullSync then clearing_writes else [])"

text \<open>The writes of a pass over a listing and what it returns\<close>

definition index_pass ::
  "'b world \<Rightarrow> sync_settings \<Rightarrow> surroundings \<Rightarrow> sync_mode \<Rightarrow> sync_item list \<Rightarrow> sync_state \<Rightarrow>
   sync_write list \<times> pass_result" where
  "index_pass w ss su mode listed st0 =
     (let opening = opening_writes mode;
          st1 = run_writes w ss opening st0;
          items = filter (\<lambda>i. it_path i \<notin> set (su_held su)) listed;
          (prepared, unavailable) = prepare_until (prepare_item w ss mode st1 (artifacts st1)) items;
          (out, processed, stopped) =
            cancellable (su_check su) (\<lambda>pr. it_identity (pr_item pr)) 0 prepared {};
          loop = concat (map (commit_writes su (mode = FullSync)) out);
          st2 = run_writes w ss loop st1;
          counts = count_pass out
      in if stopped \<noteq> []
         then (case finish_cancelled (ss_source ss) (artifacts st2) (length items) processed
                     (Some (pc_indexed counts)) (Some (pc_skipped counts)) False
                     (su_partial su) of
                 (calls, result) \<Rightarrow> (opening @ loop @ finish_writes calls, Stopped result))
         else if unavailable then (opening @ loop, Raised ''ConnectorUnavailable'')
         else if pc_unreadable counts \<noteq> [] \<and> length (pc_unreadable counts) = length items
         then (opening @ loop, Raised ''RuntimeError'')
         else
           (let prune = [PruneArchived (su_held_later su), PruneVanished (map it_path items)];
                removed = removed_count ss (su_held_later su) (map it_path items) st2;
                st3 = run_writes w ss prune st2;
                outcome = (if pc_unreadable counts \<noteq> [] then ''degraded'' else ''healthy'')
            in (opening @ loop @ prune @
                  finalize_writes ss mode (pc_indexed counts + removed \<noteq> 0) st3 @
                  [SetSourcePrint] @ (if mode = FullSync then [ClearPhase] else []) @ [SetStatus outcome],
                Finished outcome counts removed)))"

definition sync_pass ::
  "'b world \<Rightarrow> sync_settings \<Rightarrow> surroundings \<Rightarrow> sync_mode \<Rightarrow> bool \<Rightarrow> sync_state \<Rightarrow>
   sync_write list \<times> pass_result" where
  "sync_pass w ss su requested resume st =
     (let mode = effective_mode ss requested resume st
      in if mode = ValidateOnly then ([SetStatus (su_health su)], Validated (su_health su))
         else (case su_listing su of
                 PathNotThere \<Rightarrow> ([SetStatus ''path_missing''], NotIndexed ''path_missing'')
               | OverBudget \<Rightarrow> ([SetStatus ''limit_exceeded''], NotIndexed ''limit_exceeded'')
               | Listed listed \<Rightarrow> index_pass w ss su mode listed st))"

definition sync_source ::
  "'b world \<Rightarrow> sync_settings \<Rightarrow> surroundings \<Rightarrow> sync_mode \<Rightarrow> bool \<Rightarrow> sync_state \<Rightarrow> pass_result \<times> sync_state" where
  "sync_source w ss su requested resume st =
     (case sync_pass w ss su requested resume st of
        (writes, result) \<Rightarrow> (result, run_writes w ss writes st))"

text \<open>What is on disk when the process dies after \<open>k\<close> of the writes, and a new one starts\<close>

definition crash_after ::
  "nat \<Rightarrow> 'b world \<Rightarrow> sync_settings \<Rightarrow> surroundings \<Rightarrow> sync_mode \<Rightarrow> bool \<Rightarrow> sync_state \<Rightarrow> sync_state" where
  "crash_after k w ss su requested resume st =
     reboot w (run_writes w ss (take k (fst (sync_pass w ss su requested resume st))) st)"

text \<open>\<open>_apply_index_task\<close> for a sync task: is the full pass it asks for resumed as an incremental one?\<close>

definition resumes_full :: "sync_settings \<Rightarrow> sync_mode \<Rightarrow> nat \<Rightarrow> sync_state \<Rightarrow> bool" where
  "resumes_full ss requested attempts st \<longleftrightarrow>
     requested = FullSync \<and> 1 < attempts \<and> full_phase (ss_source ss) st = Some ''checkpointed''"

definition apply_index_task ::
  "'b world \<Rightarrow> sync_settings \<Rightarrow> surroundings \<Rightarrow> sync_mode \<Rightarrow> nat \<Rightarrow> sync_state \<Rightarrow> pass_result \<times> sync_state" where
  "apply_index_task w ss su requested attempts st =
     (let resume = resumes_full ss requested attempts st;
          (result, st') = sync_source w ss su (if resume then Incremental else requested) resume st
      in (result,
          if resume \<and> (case result of Raised _ \<Rightarrow> False | _ \<Rightarrow> True)
          then clear_fingerprint (FULL_RESUME_SCOPE (ss_source ss)) st' else st'))"

end
