(* ===== verification/SyncTruth.thy ===== *)
theory SyncTruth
  imports SyncPass
begin

text \<open>
  What a pass over a source leaves behind (\<open>SyncPass\<close>): the rows of every file that could be read
  are those of its current content, after an uninterrupted pass, after a crash anywhere in one
  and a second pass, and after an interrupted full pass resumed from the queue.
\<close>

section \<open>Current content and stored rows\<close>

text \<open>What a fresh read of the item would index; \<open>None\<close> when it is refused, unreadable or no text.\<close>

definition current :: "'b world \<Rightarrow> sync_settings \<Rightarrow> sync_item \<Rightarrow> parsed_artifact option" where
  "current w ss item =
     (if refused_by ss item \<noteq> None then None
      else case read_item w item of
             Payload content sha \<Rightarrow> parse_connector_payload w ss item content (content_hash w item content sha)
           | _ \<Rightarrow> None)"

definition rows_of :: "string \<Rightarrow> (string \<times> 'c) list \<Rightarrow> (string \<times> 'c) list" where
  "rows_of i t = filter (\<lambda>(j, _). j = i) t"

definition stored :: "'b world \<Rightarrow> indexed_row kb_state \<Rightarrow> parsed_artifact \<Rightarrow> bool" where
  "stored w d p \<longleftrightarrow>
     filter (\<lambda>r. ar_id r = pa_id p) (st_artifacts d) = [artifact_row_of p] \<and>
     rows_of (pa_id p) (st_chunks d) = chunk_rows_of p \<and>
     rows_of (pa_id p) (st_chunks_fts d) = chunk_rows_of p \<and>
     rows_of (pa_id p) (st_symbols d) = map (\<lambda>s. (pa_id p, SymbolRow (pa_source p) s)) (symbols_of w p) \<and>
     rows_of (pa_id p) (st_terms d) =
       map (\<lambda>t. (pa_id p, TermRow (pa_source p) t)) (dict_fromkeys (terms_of w p))"

text \<open>A listed hash is the one the content would be given.\<close>

definition honest :: "'b world \<Rightarrow> sync_item \<Rightarrow> bool" where
  "honest w item \<longleftrightarrow> (case read_item w item of
       Payload content sha \<Rightarrow> it_sha item \<in> {None, Some (content_hash w item content sha)}
     | _ \<Rightarrow> True)"

lemma rows_of_drop [simp]: "rows_of i (drop_rows ids t) = (if i \<in> set ids then [] else rows_of i t)"
  by (induction t) (auto simp: rows_of_def drop_rows_def)

lemma rows_of_append [simp]: "rows_of i (t @ t') = rows_of i t @ rows_of i t'"
  by (simp add: rows_of_def)

lemma rows_of_map [simp]: "rows_of i (map (\<lambda>x. (j, f x)) xs) = (if i = j then map (\<lambda>x. (j, f x)) xs else [])"
  by (induction xs) (auto simp: rows_of_def)

lemma rows_of_chunks [simp]: "rows_of i (chunk_rows_of p) = (if i = pa_id p then chunk_rows_of p else [])"
  by (simp add: chunk_rows_of_def)

lemma artifact_id_inj [simp]: "artifact_id ss a = artifact_id ss b \<longleftrightarrow> a = b"
  by (simp add: artifact_id_def)

lemma artifact_id_ne [simp]: "artifact_id ss a \<noteq> []"
  by (simp add: artifact_id_def)

definition of_pass :: "sync_settings \<Rightarrow> parsed_artifact \<Rightarrow> bool" where
  "of_pass ss p \<longleftrightarrow> pa_id p = artifact_id ss (pa_path p) \<and> pa_source p = ss_source ss"

lemma content_hash_again [simp]:
  "content_hash w item content (Some (content_hash w item content sha)) = content_hash w item content sha"
  by (auto simp: content_hash_def str_or_def split: option.splits)

lemma current_parsed:
  assumes "current w ss item = Some p"
  shows "of_pass ss p" and "pa_path p = it_path item"
  using assms
  by (auto simp: current_def parse_connector_payload_def of_pass_def split: if_splits read_result.splits)

section \<open>Preparing\<close>

lemma prepare_commits:
  assumes "prepare_item w ss mode st known item = Some pr" and "commits pr = Some p"
  shows "current w ss item = Some p"
    and "mode = Incremental \<Longrightarrow> entry_sha (map_of known (it_path item)) \<noteq> Some (pa_sha p)"
    and "pr_item pr = item"
  using assms
  by (auto simp: prepare_item_def decide_before_read_def prepared_of_def commits_def current_def
      parse_connector_payload_def entry_sha_def Let_def
      split: if_splits option.splits read_result.splits)

lemma prepare_current:
  assumes "prepare_item w ss Incremental st known item = Some pr" and "current w ss item = Some p"
    and "honest w item"
  shows "commits pr = Some p \<or> entry_sha (map_of known (it_path item)) = Some (pa_sha p)"
  using assms
  by (auto simp: prepare_item_def decide_before_read_def prepared_of_def commits_def current_def
      parse_connector_payload_def entry_sha_def Let_def honest_def can_skip_before_read_def
      split: if_splits option.splits read_result.splits)

lemma prepare_full:
  assumes "prepare_item w ss FullSync st known item = Some pr" and "current w ss item = Some p"
  shows "commits pr = Some p"
  using assms
  by (auto simp: prepare_item_def decide_before_read_def prepared_of_def commits_def current_def
      parse_connector_payload_def Let_def can_skip_before_read_def
      split: if_splits option.splits read_result.splits)

lemma prepare_item_of: "prepare_item w ss mode st known item = Some pr \<Longrightarrow> pr_item pr = item"
  by (auto simp: prepare_item_def decide_before_read_def prepared_of_def Let_def
      split: if_splits option.splits read_result.splits)

lemma prepare_until_all:
  "prepare_until f items = (ps, False) \<Longrightarrow> list_all2 (\<lambda>i p. f i = Some p) items ps"
  by (induction items arbitrary: ps) (auto split: option.splits prod.splits)

lemma prepare_until_prefix:
  "prepare_until f items = (ps, raised) \<Longrightarrow>
   list_all2 (\<lambda>i p. f i = Some p) (take (length ps) items) ps \<and> length ps \<le> length items"
  by (induction items arbitrary: ps) (auto split: option.splits prod.splits)

section \<open>One commit\<close>

text \<open>The ids of the source are its own: whatever bears one is a row of the source at that path.\<close>

definition db_ok :: "sync_settings \<Rightarrow> indexed_row kb_state \<Rightarrow> bool" where
  "db_ok ss d \<longleftrightarrow> keyed ar_id (st_artifacts d) \<and>
     (\<forall>r \<in> set (st_artifacts d). ar_id r \<noteq> [] \<and>
        (\<forall>path. ar_id r = artifact_id ss path \<longrightarrow> ar_source r = ss_source ss \<and> ar_path r = path)) \<and>
     (\<forall>x \<in> set (st_chunks d) \<union> set (st_chunks_fts d).
        \<forall>path. fst x = artifact_id ss path \<longrightarrow> row_source (snd x) = ss_source ss)"

lemma filter_keyed:
  "keyed key t \<Longrightarrow> r \<in> set t \<Longrightarrow> filter (\<lambda>x. key x = key r) t = [r]"
  by (induction t) (auto simp: keyed_def filter_empty_conv intro: rev_image_eqI)

lemma replace_chunks_tables [simp]:
  "st_chunks (replace_artifact_chunks r chunks fresh d) =
     (if fresh then st_chunks d else drop_rows [ar_id r] (st_chunks d)) @ chunks"
  "st_chunks_fts (replace_artifact_chunks r chunks fresh d) =
     (if fresh then st_chunks_fts d else drop_rows [ar_id r] (st_chunks_fts d)) @ chunks"
  "st_symbols (replace_artifact_chunks r chunks fresh d) =
     (if fresh then st_symbols d else drop_rows [ar_id r] (st_symbols d))"
  "st_terms (replace_artifact_chunks r chunks fresh d) =
     (if fresh then st_terms d else drop_rows [ar_id r] (st_terms d))"
  by (simp_all add: replace_artifact_chunks_def Let_def)

lemma replace_chunks_artifacts:
  fixes fresh :: bool
  assumes "db_ok ss d" and "of_pass ss p"
  defines "d' \<equiv> replace_artifact_chunks (artifact_row_of p) (chunk_rows_of p) fresh d"
  shows "db_ok ss d'"
    and "filter (\<lambda>r. ar_id r = pa_id p) (st_artifacts d') = [artifact_row_of p]"
    and "i \<noteq> pa_id p \<Longrightarrow> filter (\<lambda>r. ar_id r = i) (st_artifacts d') = filter (\<lambda>r. ar_id r = i) (st_artifacts d)"
proof -
  let ?r = "artifact_row_of p"
  let ?f = "\<lambda>old. old\<lparr>ar_path := ar_path ?r, ar_branch := ar_branch ?r, ar_sha := ar_sha ?r,
      ar_status := ar_status ?r\<rparr>"
  let ?t = "st_artifacts d"
  have t': "st_artifacts d' = tbl_upsert ar_id ?r (\<lambda>_. True) ?f ?t"
    by (simp add: d'_def replace_artifact_chunks_def Let_def)
  have keyed: "keyed ar_id ?t" using assms(1) by (simp add: db_ok_def)
  have same: "?f r = ?r" if "r \<in> set ?t" "ar_id r = pa_id p" for r
    using assms(1,2) that by (cases r) (auto simp: db_ok_def of_pass_def artifact_row_of_def)
  have update: "tbl_update (\<lambda>r. ar_id r = pa_id p \<and> True) ?f ?t =
      map (\<lambda>r. if ar_id r = pa_id p then ?r else r) ?t"
    using same by (auto simp: tbl_update_def)
  have id: "ar_id ?r = pa_id p" by (simp add: artifact_row_of_def)
  have form: "st_artifacts d' =
      (if tbl_get ar_id (pa_id p) ?t = None then ?t @ [?r]
       else map (\<lambda>r. if ar_id r = pa_id p then ?r else r) ?t)"
    using update by (simp add: t' tbl_upsert_def id)
  have ids: "map ar_id (map (\<lambda>r. if ar_id r = pa_id p then ?r else r) ?t) = map ar_id ?t"
    using id by simp
  have own: "ar_id ?r \<noteq> [] \<and> (\<forall>path. ar_id ?r = artifact_id ss path \<longrightarrow>
      ar_source ?r = ss_source ss \<and> ar_path ?r = path)"
    using assms(2) by (auto simp: artifact_row_of_def of_pass_def)
  have tables: "row_source (snd x) = ss_source ss"
    if "x \<in> set (st_chunks d') \<union> set (st_chunks_fts d')" "fst x = artifact_id ss path" for x path
  proof -
    have "x \<in> set (st_chunks d) \<union> set (st_chunks_fts d) \<or> x \<in> set (chunk_rows_of p)"
      using that(1) by (auto simp: d'_def drop_rows_def split: if_splits)
    then show ?thesis using assms(1,2) that(2)
      by (auto simp: db_ok_def chunk_rows_of_def of_pass_def)
  qed
  show "db_ok ss d'"
  proof (cases "tbl_get ar_id (pa_id p) ?t")
    case None
    then have form': "st_artifacts d' = ?t @ [?r]" using form by simp
    show ?thesis unfolding db_ok_def form' using assms(1) own id tables None
      by (auto simp: db_ok_def keyed_def tbl_get_None)
  next
    case (Some r)
    then have form': "st_artifacts d' = map (\<lambda>r. if ar_id r = pa_id p then ?r else r) ?t"
      using form by simp
    show ?thesis unfolding db_ok_def form' keyed_def ids
      using assms(1) own tables by (auto simp: db_ok_def keyed_def)
  qed
  show "filter (\<lambda>r. ar_id r = pa_id p) (st_artifacts d') = [?r]"
  proof (cases "tbl_get ar_id (pa_id p) ?t")
    case None
    then have "filter (\<lambda>r. ar_id r = pa_id p) ?t = []"
      by (auto simp: tbl_get_None filter_empty_conv intro: rev_image_eqI)
    then show ?thesis using form None id by simp
  next
    case (Some r)
    note mem = tbl_get_Some[OF Some]
    have "filter (\<lambda>r. ar_id r = pa_id p) (map (\<lambda>r. if ar_id r = pa_id p then ?r else r) t) =
        map (\<lambda>_. ?r) (filter (\<lambda>r. ar_id r = pa_id p) t)" for t
      using id by (induction t) auto
    then show ?thesis using form Some filter_keyed[OF keyed, of r] mem by simp
  qed
  show "filter (\<lambda>r. ar_id r = i) (st_artifacts d') = filter (\<lambda>r. ar_id r = i) ?t" if "i \<noteq> pa_id p"
  proof -
    have "filter (\<lambda>r. ar_id r = i) (map (\<lambda>r. if ar_id r = pa_id p then ?r else r) t) =
        filter (\<lambda>r. ar_id r = i) t" for t
      using that id by (induction t) auto
    then show ?thesis using that form id by simp
  qed
qed

lemma enrichment_tables [simp]:
  "st_artifacts (replace_artifact_enrichment i source terms symbols d) = st_artifacts d"
  "st_chunks (replace_artifact_enrichment i source terms symbols d) = st_chunks d"
  "st_chunks_fts (replace_artifact_enrichment i source terms symbols d) = st_chunks_fts d"
  "st_symbols (replace_artifact_enrichment i source terms symbols d) =
     drop_rows [i] (st_symbols d) @ map (\<lambda>s. (i, SymbolRow source s)) symbols"
  "st_terms (replace_artifact_enrichment i source terms symbols d) =
     drop_rows [i] (st_terms d) @ map (\<lambda>t. (i, TermRow source t)) (dict_fromkeys terms)"
  by (simp_all add: replace_artifact_enrichment_def)

lemma artifact_row_id [simp]: "ar_id (artifact_row_of p) = pa_id p"
  by (simp add: artifact_row_of_def)

lemma stored_other_chunks:
  assumes "db_ok ss d" and "of_pass ss p" and "pa_id q \<noteq> pa_id p"
  shows "stored w (replace_artifact_chunks (artifact_row_of p) (chunk_rows_of p) fresh d) q \<longleftrightarrow> stored w d q"
  unfolding stored_def replace_chunks_artifacts(3)[OF assms(1,2,3)] using assms(3) by simp

lemma stored_other_enrichment:
  assumes "pa_id q \<noteq> pa_id p"
  shows "stored w (replace_artifact_enrichment (pa_id p) source terms symbols d) q \<longleftrightarrow> stored w d q"
  using assms by (simp add: stored_def)

lemma committed_stored:
  assumes "db_ok ss d" and "of_pass ss p"
    and "fresh \<Longrightarrow> rows_of (pa_id p) (st_chunks d) = [] \<and> rows_of (pa_id p) (st_chunks_fts d) = []"
  shows "stored w (replace_artifact_enrichment (pa_id p) (pa_source p) (terms_of w p) (symbols_of w p)
      (replace_artifact_chunks (artifact_row_of p) (chunk_rows_of p) fresh d)) p"
  using assms(3) replace_chunks_artifacts(2)[OF assms(1,2)] by (simp add: stored_def)

end
