(* ===== verification/SyncCrash.thy ===== *)
theory SyncCrash
  imports SyncTruth
begin

text \<open>
  Crashes in a pass: what the writes of a pass keep true of the disk at every point, and so what
  a second pass finds.
\<close>

section \<open>What a manifest may claim\<close>

definition saved_manifest :: "sync_state \<Rightarrow> manifest" where
  "saved_manifest st = (case manifest_row st of None \<Rightarrow> [] | Some m \<Rightarrow> m)"

text \<open>
  A manifest that gives a file the hash of its current content must have that content stored; for
  the paths \<open>P\<close> a pass is still to commit it may not give that hash at all.
\<close>

definition claims_ok ::
  "'b world \<Rightarrow> sync_settings \<Rightarrow> sync_item set \<Rightarrow> string set \<Rightarrow> manifest \<Rightarrow> indexed_row kb_state \<Rightarrow> bool" where
  "claims_ok w ss items P m d \<longleftrightarrow>
     (\<forall>i \<in> items. \<forall>p. current w ss i = Some p \<longrightarrow> entry_sha (map_of m (it_path i)) = Some (pa_sha p) \<longrightarrow>
        it_path i \<notin> P \<and> stored w d p)"

definition clearing :: "sync_settings \<Rightarrow> sync_state \<Rightarrow> bool" where
  "clearing ss st \<longleftrightarrow> full_phase (ss_source ss) st \<in> {Some ''starting'', Some ''cleared''}"

definition trust ::
  "'b world \<Rightarrow> sync_settings \<Rightarrow> sync_item set \<Rightarrow> bool \<Rightarrow> string set \<Rightarrow> sync_state \<Rightarrow> bool" where
  "trust w ss items G P st \<longleftrightarrow> db_ok ss (db st) \<and> claims_ok w ss items P (artifacts st) (db st) \<and>
     (G \<and> clearing ss st \<or> claims_ok w ss items P (saved_manifest st) (db st))"

lemma trustI:
  "db_ok ss (db st) \<Longrightarrow> claims_ok w ss items P (artifacts st) (db st) \<Longrightarrow>
   G \<and> clearing ss st \<or> claims_ok w ss items P (saved_manifest st) (db st) \<Longrightarrow> trust w ss items G P st"
  by (simp add: trust_def)

text \<open>The rows of one artifact are replaced: what other claims rest on is still there.\<close>

lemma claims_kept:
  assumes "claims_ok w ss items P m d"
    and "\<And>i q. i \<in> items \<Longrightarrow> current w ss i = Some q \<Longrightarrow> it_path i \<notin> P \<Longrightarrow> stored w d q \<Longrightarrow> stored w d' q"
  shows "claims_ok w ss items P m d'"
  using assms unfolding claims_ok_def by blast

lemma other_path_other_id:
  "of_pass ss p \<Longrightarrow> of_pass ss q \<Longrightarrow> pa_path q \<noteq> pa_path p \<Longrightarrow> pa_id q \<noteq> pa_id p"
  by (simp add: of_pass_def)

lemma chunks_kept:
  assumes "db_ok ss d" and "of_pass ss p" and "pa_path p \<in> P"
    and "current w ss i = Some q" and "it_path i \<notin> P" and "stored w d q"
  shows "stored w (replace_artifact_chunks (artifact_row_of p) (chunk_rows_of p) fresh d) q"
proof -
  have "pa_id q \<noteq> pa_id p"
    by (rule other_path_other_id[OF assms(2)]) (use current_parsed[OF assms(4)] assms(3,5) in auto)
  then show ?thesis using assms(6) by (simp add: stored_other_chunks[OF assms(1,2)])
qed

lemma enrichment_kept:
  assumes "of_pass ss p" and "pa_path p \<in> P"
    and "current w ss i = Some q" and "it_path i \<notin> P" and "stored w d q"
  shows "stored w (replace_artifact_enrichment (pa_id p) source terms symbols d) q"
proof -
  have "pa_id q \<noteq> pa_id p"
    by (rule other_path_other_id[OF assms(1)]) (use current_parsed[OF assms(3)] assms(2,4) in auto)
  then show ?thesis using assms(5) by (simp add: stored_other_enrichment)
qed

lemma loaded_fields [simp]:
  "db (ensure_graph_loaded w st) = db st" "artifacts (ensure_graph_loaded w st) = artifacts st"
  "manifest_row (ensure_graph_loaded w st) = manifest_row st"
  "fingerprints (ensure_graph_loaded w st) = fingerprints st"
  by (simp_all add: ensure_graph_loaded_def)

lemma trust_write_chunks:
  assumes "trust w ss items G P st" and "of_pass ss p" and "pa_path p \<in> P"
  shows "trust w ss items G P (do_write w ss (WriteChunks fresh p) st)"
proof -
  let ?d = "replace_artifact_chunks (artifact_row_of p) (chunk_rows_of p) fresh (db st)"
  have ok: "db_ok ss (db st)" using assms(1) by (simp add: trust_def)
  have kept: "claims_ok w ss items P m (db st) \<Longrightarrow> claims_ok w ss items P m ?d" for m
    by (erule claims_kept) (rule chunks_kept[OF ok assms(2,3)])
  show ?thesis
    using assms(1) kept replace_chunks_artifacts(1)[OF ok assms(2)]
    by (auto simp: trust_def Let_def clearing_def full_phase_def saved_manifest_def)
qed

lemma trust_write_enrichment:
  assumes "trust w ss items G P st" and "of_pass ss p" and "pa_path p \<in> P"
  shows "trust w ss items G P (do_write w ss (WriteEnrichment p) st)"
proof -
  let ?d = "replace_artifact_enrichment (pa_id p) (pa_source p) (terms_of w p) (symbols_of w p) (db st)"
  have kept: "claims_ok w ss items P m (db st) \<Longrightarrow> claims_ok w ss items P m ?d" for m
    by (erule claims_kept) (rule enrichment_kept[OF assms(2,3)])
  show ?thesis
    using assms(1) kept
    by (auto simp: trust_def db_ok_def clearing_def full_phase_def saved_manifest_def)
qed

lemma trust_write_graph: "trust w ss items G P st \<Longrightarrow> trust w ss items G P (do_write w ss (WriteGraph p) st)"
  by (simp add: trust_def clearing_def full_phase_def saved_manifest_def)

text \<open>Writes that leave the tables and both manifests alone\<close>

definition quiet :: "sync_write \<Rightarrow> bool" where
  "quiet wr \<longleftrightarrow> (case wr of Link \<Rightarrow> True | SaveGraphRows \<Rightarrow> True | SetDirtyFlag \<Rightarrow> True
     | ClearDirtyFlag \<Rightarrow> True | SetSourcePrint \<Rightarrow> True | SetStatus _ \<Rightarrow> True | _ \<Rightarrow> False)"

lemma scopes_differ [simp]:
  "FULL_RESUME_SCOPE name \<noteq> SOURCE_SCOPE name" "FULL_RESUME_SCOPE name \<noteq> ENRICH_DIRTY_SCOPE name'"
  "SOURCE_SCOPE name \<noteq> FULL_RESUME_SCOPE name" "ENRICH_DIRTY_SCOPE name' \<noteq> FULL_RESUME_SCOPE name"
  by (simp_all add: FULL_RESUME_SCOPE_def SOURCE_SCOPE_def ENRICH_DIRTY_SCOPE_def)

lemma full_phase_set [simp]:
  "full_phase s (set_fingerprint scope v st) = (if scope = FULL_RESUME_SCOPE s then Some v else full_phase s st)"
  by (simp add: full_phase_def set_fingerprint_def update_conv')

lemma full_phase_clear [simp]:
  "full_phase s (clear_fingerprint scope st) = (if scope = FULL_RESUME_SCOPE s then None else full_phase s st)"
  by (simp add: full_phase_def clear_fingerprint_def delete_conv')

lemma print_fields [simp]:
  "db (set_fingerprint a v st) = db st" "artifacts (set_fingerprint a v st) = artifacts st"
  "manifest_row (set_fingerprint a v st) = manifest_row st"
  "db (clear_fingerprint a st) = db st" "artifacts (clear_fingerprint a st) = artifacts st"
  "manifest_row (clear_fingerprint a st) = manifest_row st"
  by (simp_all add: set_fingerprint_def clear_fingerprint_def)

lemma quiet_fields:
  assumes "quiet wr"
  shows "db (do_write w ss wr st) = db st" and "artifacts (do_write w ss wr st) = artifacts st"
    and "manifest_row (do_write w ss wr st) = manifest_row st"
    and "full_phase (ss_source ss) (do_write w ss wr st) = full_phase (ss_source ss) st"
  using assms by (auto simp: quiet_def split: sync_write.splits) (simp_all add: full_phase_def)

lemma trust_quiet: "quiet wr \<Longrightarrow> trust w ss items G P st \<Longrightarrow> trust w ss items G P (do_write w ss wr st)"
  by (simp add: trust_def clearing_def saved_manifest_def quiet_fields)

lemma trust_save_manifest:
  "trust w ss items G P st \<Longrightarrow> trust w ss items G' P (do_write w ss SaveManifestRow st)"
  by (simp add: trust_def saved_manifest_def clearing_def full_phase_def)

lemma trust_advance_phase:
  "trust w ss items G P st \<Longrightarrow> claims_ok w ss items P (saved_manifest st) (db st) \<Longrightarrow>
   trust w ss items G P (do_write w ss AdvancePhase st)"
  by (auto simp: trust_def saved_manifest_def)

lemma trust_clear_phase:
  "trust w ss items False P st \<Longrightarrow> trust w ss items False P (do_write w ss ClearPhase st)"
  by (simp add: trust_def saved_manifest_def)

section \<open>The commits of a pass\<close>

lemma claims_mono: "claims_ok w ss items P m d \<Longrightarrow> P' \<subseteq> P \<Longrightarrow> claims_ok w ss items P' m d"
  by (auto simp: claims_ok_def)

lemma trust_mono: "trust w ss items G P st \<Longrightarrow> P' \<subseteq> P \<Longrightarrow> trust w ss items G P' st"
  by (auto simp: trust_def intro: claims_mono)

lemma trust_weaken: "trust w ss items False P st \<Longrightarrow> trust w ss items G P st"
  by (auto simp: trust_def)

lemma run_append [simp]: "run_writes w ss (a @ b) st = run_writes w ss b (run_writes w ss a st)"
  by (simp add: run_writes_def)

lemma run_Nil [simp]: "run_writes w ss [] st = st"
  by (simp add: run_writes_def)

lemma run_Cons [simp]: "run_writes w ss (wr # writes) st = run_writes w ss writes (do_write w ss wr st)"
  by (simp add: run_writes_def)

lemma trust_note:
  assumes "trust w ss items G P st" and "stored w (db st) p"
    and "i \<in> items" and "current w ss i = Some p" and "inj_on it_path items"
  shows "trust w ss items G (P - {it_path i}) (do_write w ss (NoteArtifact p) st)"
proof -
  let ?e = "\<lparr>me_sha = Some (pa_sha p), me_artifact = pa_id p, me_branch = pa_branch p\<rparr>"
  have same: "q = p" if "j \<in> items" "it_path j = it_path i" "current w ss j = Some q" for j q
    using that assms(3-5) by (metis inj_onD option.inject)
  have path: "pa_path p = it_path i" by (rule current_parsed(2)[OF assms(4)])
  have noted: "claims_ok w ss items (P - {it_path i}) (AList.update (it_path i) ?e m) (db st)"
    if "claims_ok w ss items P m (db st)" for m
    unfolding claims_ok_def
  proof (intro ballI allI impI)
    fix j q
    assume j: "j \<in> items" "current w ss j = Some q"
      and e: "entry_sha (map_of (AList.update (it_path i) ?e m) (it_path j)) = Some (pa_sha q)"
    show "it_path j \<notin> P - {it_path i} \<and> stored w (db st) q"
    proof (cases "it_path j = it_path i")
      case True
      then show ?thesis using same[OF j(1) True j(2)] assms(2) by simp
    next
      case False
      then show ?thesis using that j e unfolding claims_ok_def by (simp add: update_conv')
    qed
  qed
  have keep: "claims_ok w ss items (P - {it_path i}) m (db st)"
    if "claims_ok w ss items P m (db st)" for m
    using that by (rule claims_mono) blast
  show ?thesis using assms(1) noted keep
    by (auto simp: trust_def path clearing_def full_phase_def saved_manifest_def)
qed

definition unwritten :: "sync_settings \<Rightarrow> bool \<Rightarrow> string set \<Rightarrow> indexed_row kb_state \<Rightarrow> bool" where
  "unwritten ss fresh P d \<longleftrightarrow> (fresh \<longrightarrow> (\<forall>path \<in> P. rows_of (artifact_id ss path) (st_chunks d) = [] \<and>
     rows_of (artifact_id ss path) (st_chunks_fts d) = []))"

definition commit_block :: "bool \<Rightarrow> parsed_artifact \<Rightarrow> sync_write list" where
  "commit_block fresh p = [WriteChunks fresh p, WriteGraph p, WriteEnrichment p, NoteArtifact p]"

lemma commit_db [simp]:
  "db (do_write w ss (WriteChunks fresh p) st) =
     replace_artifact_chunks (artifact_row_of p) (chunk_rows_of p) fresh (db st)"
  "db (do_write w ss (WriteGraph p) st) = db st" "db (do_write w ss (NoteArtifact p) st) = db st"
  "db (do_write w ss (WriteEnrichment p) st) =
     replace_artifact_enrichment (pa_id p) (pa_source p) (terms_of w p) (symbols_of w p) (db st)"
  by (simp_all add: Let_def)

lemma commit_artifacts [simp]:
  "artifacts (do_write w ss (WriteChunks fresh p) st) = artifacts st"
  "artifacts (do_write w ss (WriteGraph p) st) = artifacts st"
  "artifacts (do_write w ss (WriteEnrichment p) st) = artifacts st"
  by (simp_all add: Let_def)

lemma commit_block_run:
  assumes "trust w ss items G P st" and "unwritten ss fresh P (db st)"
    and "i \<in> items" and "current w ss i = Some p" and "it_path i \<in> P" and "inj_on it_path items"
  defines "end_of \<equiv> run_writes w ss (commit_block fresh p) st"
  shows "trust w ss items G {} (run_writes w ss (take k (commit_block fresh p)) st)"
    and "trust w ss items G (P - {it_path i}) end_of"
    and "unwritten ss fresh (P - {it_path i}) (db end_of)"
    and "map_of (artifacts end_of) = (map_of (artifacts st))(it_path i \<mapsto>
      \<lparr>me_sha = Some (pa_sha p), me_artifact = pa_id p, me_branch = pa_branch p\<rparr>)"
proof -
  have p: "of_pass ss p" "pa_path p = it_path i" by (rule current_parsed[OF assms(4)])+
  have inP: "pa_path p \<in> P" using p(2) assms(5) by simp
  let ?s1 = "do_write w ss (WriteChunks fresh p) st"
  let ?s2 = "do_write w ss (WriteGraph p) ?s1"
  let ?s3 = "do_write w ss (WriteEnrichment p) ?s2"
  have t1: "trust w ss items G P ?s1" by (rule trust_write_chunks[OF assms(1) p(1) inP])
  have t2: "trust w ss items G P ?s2" by (rule trust_write_graph[OF t1])
  have t3: "trust w ss items G P ?s3" by (rule trust_write_enrichment[OF t2 p(1) inP])
  have id: "pa_id p = artifact_id ss (it_path i)" using p by (simp add: of_pass_def)
  have "stored w (db ?s3) p"
    unfolding commit_db
    by (rule committed_stored[OF _ p(1)]) (use assms(1,2,5) id in \<open>auto simp: trust_def unwritten_def\<close>)
  from trust_note[OF t3 this assms(3,4,6)]
  have t4: "trust w ss items G (P - {it_path i}) (do_write w ss (NoteArtifact p) ?s3)" .
  have e: "end_of = do_write w ss (NoteArtifact p) ?s3"
    by (simp add: end_of_def commit_block_def del: do_write.simps)
  show "trust w ss items G (P - {it_path i}) end_of" using t4 e by simp
  have "k = 0 \<or> k = 1 \<or> k = 2 \<or> k = 3 \<or> 4 \<le> k" by arith
  then show "trust w ss items G {} (run_writes w ss (take k (commit_block fresh p)) st)"
    using assms(1) t1 t2 t3 t4
    by (elim disjE) (auto simp: commit_block_def numeral_2_eq_2 numeral_3_eq_3 simp del: do_write.simps
        intro: trust_mono)
  show "unwritten ss fresh (P - {it_path i}) (db end_of)"
    using assms(2) id unfolding e by (auto simp: unwritten_def simp del: do_write.simps)
  show "map_of (artifacts end_of) = (map_of (artifacts st))(it_path i \<mapsto>
      \<lparr>me_sha = Some (pa_sha p), me_artifact = pa_id p, me_branch = pa_branch p\<rparr>)"
    unfolding e by (simp add: update_conv' p(2) Let_def)
qed

lemma checkpoint_run:
  assumes "trust w ss items G P st"
  shows "trust w ss items G P (run_writes w ss (take k (checkpoint_writes due)) st)"
    and "db (run_writes w ss (checkpoint_writes due) st) = db st"
    and "artifacts (run_writes w ss (checkpoint_writes due) st) = artifacts st"
proof -
  let ?s1 = "do_write w ss SaveGraphRows st"
  let ?s2 = "do_write w ss SaveManifestRow ?s1"
  have t1: "trust w ss items G P ?s1" by (rule trust_quiet[OF _ assms]) (simp add: quiet_def)
  have t2: "trust w ss items G P ?s2" by (rule trust_save_manifest[OF t1])
  have "claims_ok w ss items P (saved_manifest ?s2) (db ?s2)"
    using assms by (simp add: saved_manifest_def trust_def)
  then have t3: "trust w ss items G P (do_write w ss AdvancePhase ?s2)"
    by (rule trust_advance_phase[OF t2])
  show "trust w ss items G P (run_writes w ss (take k (checkpoint_writes due)) st)"
    using assms t1 t2 t3
    by (cases k; cases "k - 1"; cases "k - 2")
      (auto simp: checkpoint_writes_def take_Cons' simp del: do_write.simps split: checkpoint_due.split)
  show "db (run_writes w ss (checkpoint_writes due) st) = db st"
    "artifacts (run_writes w ss (checkpoint_writes due) st) = artifacts st"
    by (auto simp: checkpoint_writes_def split: checkpoint_due.split)
qed

lemma commit_writes_block:
  "commit_writes su fresh pr = (case commits pr of None \<Rightarrow> []
     | Some p \<Rightarrow> commit_block fresh p @ checkpoint_writes (su_due su (pa_path p)))"
  by (simp add: commit_writes_def commit_block_def split: option.split)

definition path_of :: "prepared_item \<Rightarrow> string" where
  "path_of pr = it_path (pr_item pr)"

definition committed :: "prepared_item list \<Rightarrow> string set" where
  "committed out = path_of ` {pr \<in> set out. commits pr \<noteq> None}"

text \<open>What the loop hands out are items of the listing, each once, parsed as they now are.\<close>

definition from_listing ::
  "'b world \<Rightarrow> sync_settings \<Rightarrow> sync_item set \<Rightarrow> string set \<Rightarrow> prepared_item list \<Rightarrow> bool" where
  "from_listing w ss items P out \<longleftrightarrow> distinct (map path_of out) \<and>
     (\<forall>pr \<in> set out. \<forall>p. commits pr = Some p \<longrightarrow>
        pr_item pr \<in> items \<and> current w ss (pr_item pr) = Some p \<and> path_of pr \<in> P)"

lemma take_append_cases: "take k (a @ b) = take k a \<or> take k (a @ b) = a @ take (k - length a) b"
  by (cases "k \<le> length a") simp_all

lemma commit_writes_run:
  fixes su :: surroundings
  assumes "trust w ss items G P st" and "unwritten ss fresh P (db st)"
    and "pr_item pr \<in> items" and "current w ss (pr_item pr) = Some p" and "path_of pr \<in> P"
    and "commits pr = Some p" and "inj_on it_path items"
  defines "end_of \<equiv> run_writes w ss (commit_writes su fresh pr) st"
  shows "trust w ss items G {} (run_writes w ss (take k (commit_writes su fresh pr)) st)"
    and "trust w ss items G (P - {path_of pr}) end_of"
    and "unwritten ss fresh (P - {path_of pr}) (db end_of)"
    and "map_of (artifacts end_of) = (map_of (artifacts st))(path_of pr \<mapsto>
      \<lparr>me_sha = Some (pa_sha p), me_artifact = pa_id p, me_branch = pa_branch p\<rparr>)"
proof -
  note block = commit_block_run[OF assms(1,2,3,4) _ assms(7), folded path_of_def, OF assms(5)]
  note after = checkpoint_run[OF block(2), where due = "su_due su (pa_path p)"]
  have split: "commit_writes su fresh pr = commit_block fresh p @ checkpoint_writes (su_due su (pa_path p))"
    by (simp add: commit_writes_block assms(6))
  show "trust w ss items G {} (run_writes w ss (take k (commit_writes su fresh pr)) st)"
  proof -
    consider "take k (commit_writes su fresh pr) = take k (commit_block fresh p)"
      | "take k (commit_writes su fresh pr) =
          commit_block fresh p @ take (k - length (commit_block fresh p)) (checkpoint_writes (su_due su (pa_path p)))"
      unfolding split by (metis take_append_cases)
    then show ?thesis
      by cases (simp_all only: run_append block(1) trust_mono[OF after(1)] empty_subsetI)
  qed
  have all: "run_writes w ss (checkpoint_writes due) st =
      run_writes w ss (take (length (checkpoint_writes due)) (checkpoint_writes due)) st" for due st
    by simp
  show "trust w ss items G (P - {path_of pr}) end_of"
    unfolding end_of_def split run_append by (subst all) (rule after(1))
  show "unwritten ss fresh (P - {path_of pr}) (db end_of)"
    unfolding end_of_def split run_append after(2) by (rule block(3))
  show "map_of (artifacts end_of) = (map_of (artifacts st))(path_of pr \<mapsto>
      \<lparr>me_sha = Some (pa_sha p), me_artifact = pa_id p, me_branch = pa_branch p\<rparr>)"
    unfolding end_of_def split run_append after(3) by (rule block(4))
qed

lemma loop_run:
  fixes su :: surroundings
  assumes "trust w ss items G P st" and "unwritten ss fresh P (db st)"
    and "from_listing w ss items P out" and "inj_on it_path items"
  defines "writes \<equiv> concat (map (commit_writes su fresh) out)"
  shows "trust w ss items G {} (run_writes w ss (take k writes) st) \<and>
    trust w ss items G (P - committed out) (run_writes w ss writes st) \<and>
    (\<forall>pr \<in> set out. \<forall>p. commits pr = Some p \<longrightarrow>
       entry_sha (map_of (artifacts (run_writes w ss writes st)) (path_of pr)) = Some (pa_sha p)) \<and>
    (\<forall>path. path \<notin> committed out \<longrightarrow>
       map_of (artifacts (run_writes w ss writes st)) path = map_of (artifacts st) path)"
  using assms(1-3) unfolding writes_def
proof (induction out arbitrary: st P k)
  case Nil
  then show ?case by (auto simp: committed_def intro: trust_mono)
next
  case (Cons pr out)
  let ?rest = "concat (map (commit_writes su fresh) out)"
  show ?case
  proof (cases "commits pr")
    case None
    have "from_listing w ss items P out" using Cons.prems(3) by (simp add: from_listing_def)
    moreover have "committed (pr # out) = committed out" using None by (auto simp: committed_def)
    ultimately show ?thesis using Cons.IH[OF Cons.prems(1,2)] None
      by (simp add: commit_writes_block)
  next
    case (Some p)
    have pr: "pr_item pr \<in> items" "current w ss (pr_item pr) = Some p" "path_of pr \<in> P"
      using Cons.prems(3) Some by (auto simp: from_listing_def)
    note one = commit_writes_run[OF Cons.prems(1,2) pr Some assms(4), where su = su]
    let ?P = "P - {path_of pr}"
    let ?st = "run_writes w ss (commit_writes su fresh pr) st"
    have rest: "from_listing w ss items ?P out"
      unfolding from_listing_def
    proof (intro conjI ballI allI impI)
      show "distinct (map path_of out)" using Cons.prems(3) by (simp add: from_listing_def)
    next
      fix x q
      assume x: "x \<in> set out" "commits x = Some q"
      have "path_of x \<noteq> path_of pr" using Cons.prems(3) imageI[OF x(1), of path_of]
        by (auto simp: from_listing_def)
      then show "pr_item x \<in> items" "current w ss (pr_item x) = Some q" "path_of x \<in> P - {path_of pr}"
        using Cons.prems(3) x by (auto simp: from_listing_def)
    qed
    have fresh_path: "path_of pr \<notin> committed out"
      using Cons.prems(3) by (auto simp: from_listing_def committed_def)
    have com: "committed (pr # out) = insert (path_of pr) (committed out)"
      using Some by (auto simp: committed_def)
    note ih = Cons.IH[OF one(2) one(3) rest]
    have "trust w ss items G {} (run_writes w ss (take k (commit_writes su fresh pr @ ?rest)) st)"
      using take_append_cases[of k "commit_writes su fresh pr" ?rest]
    proof
      assume e: "take k (commit_writes su fresh pr @ ?rest) = take k (commit_writes su fresh pr)"
      show ?thesis unfolding e by (rule one(1))
    next
      assume e: "take k (commit_writes su fresh pr @ ?rest) =
        commit_writes su fresh pr @ take (k - length (commit_writes su fresh pr)) ?rest"
      from ih have "trust w ss items G {}
          (run_writes w ss (take (k - length (commit_writes su fresh pr)) ?rest) ?st)" by blast
      then show ?thesis by (subst e) (simp only: run_append)
    qed
    moreover have "trust w ss items G (P - committed (pr # out)) (run_writes w ss ?rest ?st)"
      by (subst com, subst Diff_insert2) (use ih[of 0] in blast)
    moreover have "entry_sha (map_of (artifacts (run_writes w ss ?rest ?st)) (path_of x)) = Some (pa_sha q)"
      if "x \<in> set (pr # out)" "commits x = Some q" for x q
    proof (cases "x = pr")
      case True
      then show ?thesis using ih[of 0] fresh_path one(4) that Some by (simp add: entry_sha_def)
    next
      case False
      then show ?thesis using ih[of 0] that by simp
    qed
    moreover have "map_of (artifacts (run_writes w ss ?rest ?st)) path = map_of (artifacts st) path"
      if "path \<notin> committed (pr # out)" for path
      using that ih[of 0] one(4) by (simp add: com)
    ultimately show ?thesis by simp
  qed
qed

section \<open>What is removed\<close>

text \<open>The tables without the artifacts at some of the source's paths\<close>

definition without :: "string \<Rightarrow> (string \<Rightarrow> bool) \<Rightarrow> indexed_row kb_state \<Rightarrow> indexed_row kb_state" where
  "without source gone d =
     (let ids = map ar_id (filter (\<lambda>r. ar_source r = source \<and> gone (ar_path r)) (st_artifacts d))
      in \<lparr>st_artifacts = filter (\<lambda>r. ar_id r \<notin> set ids) (st_artifacts d),
          st_chunks_fts = drop_rows ids (st_chunks_fts d), st_chunks = drop_rows ids (st_chunks d),
          st_symbols = drop_rows ids (st_symbols d), st_terms = drop_rows ids (st_terms d)\<rparr>)"

lemma delete_in_batches:
  assumes "\<forall>r \<in> set (st_artifacts d). ar_id r \<noteq> []"
  shows "fold (\<lambda>batch d. snd (delete_artifacts batch d))
      (slices DELETE_BATCH (map ar_id (filter (\<lambda>r. ar_source r = source \<and> gone (ar_path r)) (st_artifacts d)))) d =
    without source gone d"
proof -
  let ?ids = "map ar_id (filter (\<lambda>r. ar_source r = source \<and> gone (ar_path r)) (st_artifacts d))"
  have c: "concat (slices DELETE_BATCH ?ids) = ?ids" by (simp add: DELETE_BATCH_def)
  have "[] \<notin> set (concat (slices DELETE_BATCH ?ids))" unfolding c using assms by auto
  note b = delete_batches[OF this, unfolded c, of d]
  show ?thesis
    by (rule kb_state.equality) (simp_all add: b without_def Let_def)
qed

lemma without_none: "(\<And>r. r \<in> set (st_artifacts d) \<Longrightarrow> \<not> (ar_source r = source \<and> gone (ar_path r))) \<Longrightarrow>
    without source gone d = d"
  by (rule kb_state.equality) (auto simp: without_def Let_def drop_rows_def filter_empty_conv filter_id_conv)

lemma db_ok_without: "db_ok ss d \<Longrightarrow> db_ok ss (without source gone d)"
  by (auto simp: db_ok_def without_def Let_def keyed_def drop_rows_def distinct_map_filter)

lemma stored_without:
  assumes "stored w d p" and "\<not> gone (pa_path p)"
  shows "stored w (without source gone d) p"
proof -
  let ?ids = "map ar_id (filter (\<lambda>r. ar_source r = source \<and> gone (ar_path r)) (st_artifacts d))"
  have one: "filter (\<lambda>r. ar_id r = pa_id p) (st_artifacts d) = [artifact_row_of p]"
    using assms(1) by (simp add: stored_def)
  have out: "pa_id p \<notin> set ?ids"
  proof
    assume "pa_id p \<in> set ?ids"
    then obtain r where r: "r \<in> set (st_artifacts d)" "ar_id r = pa_id p" "gone (ar_path r)" by auto
    then have "r \<in> set (filter (\<lambda>r. ar_id r = pa_id p) (st_artifacts d))" by simp
    then have "r = artifact_row_of p" using one by simp
    then show False using r(3) assms(2) by (simp add: artifact_row_of_def)
  qed
  have "filter (\<lambda>r. ar_id r = pa_id p) (filter (\<lambda>r. ar_id r \<notin> set ?ids) (st_artifacts d)) =
      filter (\<lambda>r. ar_id r = pa_id p) (st_artifacts d)"
    unfolding filter_filter by (rule filter_cong[OF refl]) (use out in metis)
  then show ?thesis using assms(1) out by (simp add: stored_def without_def Let_def)
qed

text \<open>A removal of paths no item of interest is at\<close>

lemma trust_removal:
  assumes "trust w ss items G {} st" and "db st' = without source gone (db st)"
    and "manifest_row st' = manifest_row st" and "fingerprints st' = fingerprints st"
    and "\<And>i. i \<in> items \<Longrightarrow> \<not> gone (it_path i)"
    and "\<And>i. i \<in> items \<Longrightarrow> map_of (artifacts st') (it_path i) = map_of (artifacts st) (it_path i)"
  shows "trust w ss items G {} st'"
proof -
  have claims: "claims_ok w ss items {} m' (db st')"
    if "claims_ok w ss items {} m (db st)" and "\<And>i. i \<in> items \<Longrightarrow> map_of m' (it_path i) = map_of m (it_path i)"
    for m m'
    unfolding claims_ok_def assms(2)
  proof (intro ballI allI impI)
    fix i p
    assume i: "i \<in> items" "current w ss i = Some p" "entry_sha (map_of m' (it_path i)) = Some (pa_sha p)"
    then have "stored w (db st) p" using that by (simp add: claims_ok_def)
    then show "it_path i \<notin> {} \<and> stored w (without source gone (db st)) p"
      using stored_without[of w "db st" p gone source] current_parsed(2)[OF i(2)] assms(5)[OF i(1)] by simp
  qed
  have "db_ok ss (db st')" using assms(1,2) db_ok_without by (simp add: trust_def)
  moreover have "claims_ok w ss items {} (artifacts st') (db st')"
    by (rule claims) (use assms(1,6) in \<open>simp_all add: trust_def\<close>)
  moreover have "G \<and> clearing ss st' \<or> claims_ok w ss items {} (saved_manifest st') (db st')"
    using assms(1) claims[of "saved_manifest st" "saved_manifest st"]
    by (auto simp: trust_def clearing_def full_phase_def assms(3,4) saved_manifest_def)
  ultimately show ?thesis by (rule trustI)
qed

lemma archived_prune_form:
  assumes "\<forall>r \<in> set (st_artifacts d). ar_id r \<noteq> []" and "archived_prune held source known d g = (n, known', d', g')"
  shows "d' = without source (\<lambda>path. path \<in> set held) d"
    and "map_of known' path = (if path \<in> set held then None else map_of known path)"
    and "n = 0 \<Longrightarrow> d' = d"
proof -
  let ?rows = "filter (\<lambda>r. ar_source r = source \<and> ar_path r \<in> set held) (st_artifacts d)"
  have batches: "d' = without source (\<lambda>path. path \<in> set held) d" if "held \<noteq> []"
    using assms(2) that delete_in_batches[OF assms(1), of source "\<lambda>path. path \<in> set held"]
    by (auto simp: archived_prune_def Let_def comp_def)
  show form: "d' = without source (\<lambda>path. path \<in> set held) d"
  proof (cases "held = []")
    case True
    then have "d' = d" using assms(2) by (simp add: archived_prune_def)
    moreover have "without source (\<lambda>path. path \<in> set held) d = d"
      by (rule without_none) (use True in auto)
    ultimately show ?thesis by metis
  qed (rule batches)
  show "map_of known' path = (if path \<in> set held then None else map_of known path)"
    using assms(2) by (auto simp: archived_prune_def Let_def delete_keys split: if_splits)
  show "d' = d" if "n = 0"
  proof (cases "held = []")
    case False
    then have "?rows = []" using assms(2) that by (auto simp: archived_prune_def Let_def)
    then show ?thesis unfolding form by (intro without_none) (auto simp: filter_empty_conv)
  qed (use assms(2) in \<open>simp add: archived_prune_def\<close>)
qed

lemma prune_vanished_form:
  assumes "\<forall>r \<in> set (st_artifacts d). ar_id r \<noteq> []"
    and "prune_vanished whole source listed known d g = (n, known', d', g')"
  shows "d' = without source (\<lambda>path. whole \<and> listed \<noteq> [] \<and> path \<notin> set listed \<and> map_of known path \<noteq> None) d"
    and "map_of known' path = (if whole \<and> listed \<noteq> [] \<and> path \<notin> set listed then None else map_of known path)"
proof -
  let ?gone = "sort (filter (\<lambda>p. p \<notin> set listed) (map fst known))"
  have mem: "path \<in> set ?gone \<longleftrightarrow> path \<notin> set listed \<and> map_of known path \<noteq> None" for path
    by (auto simp: map_of_eq_None_iff)
  show "d' = without source (\<lambda>path. whole \<and> listed \<noteq> [] \<and> path \<notin> set listed \<and> map_of known path \<noteq> None) d"
  proof (cases "whole \<and> listed \<noteq> []")
    case False
    then have "d' = d" using assms(2) by (auto simp: prune_vanished_def Let_def split: if_splits)
    then show ?thesis using False by (subst without_none) auto
  next
    case True
    have batches: "d' = without source (\<lambda>path. path \<in> set ?gone) d" if "?gone \<noteq> []"
      using assms(2) that True delete_in_batches[OF assms(1), of source "\<lambda>path. path \<in> set ?gone"]
      by (auto simp: prune_vanished_def Let_def comp_def split: if_splits)
    have "d' = without source (\<lambda>path. path \<in> set ?gone) d"
    proof (cases "?gone = []")
      case True
      then have "d' = d" using assms(2) by (auto simp: prune_vanished_def Let_def split: if_splits)
      moreover have "without source (\<lambda>path. path \<in> set ?gone) d = d"
        by (rule without_none) (use True in auto)
      ultimately show ?thesis by metis
    next
      case False
      then show ?thesis by (rule batches)
    qed
    then show ?thesis unfolding mem using True by simp
  qed
  show "map_of known' path = (if whole \<and> listed \<noteq> [] \<and> path \<notin> set listed then None else map_of known path)"
    using assms(2) mem[of path]
    by (auto simp: prune_vanished_def Let_def delete_keys simp del: set_sort split: if_splits)
qed

section \<open>The end of a pass\<close>

lemma claims_items: "claims_ok w ss items P m d \<Longrightarrow> items' \<subseteq> items \<Longrightarrow> claims_ok w ss items' P m d"
  unfolding claims_ok_def by blast

lemma trust_items: "trust w ss items G P st \<Longrightarrow> items' \<subseteq> items \<Longrightarrow> trust w ss items' G P st"
  by (auto simp: trust_def intro: claims_items)

lemma trust_ids: "trust w ss items G P st \<Longrightarrow> \<forall>r \<in> set (st_artifacts (db st)). ar_id r \<noteq> []"
  by (simp add: trust_def db_ok_def)

lemma trust_prune_archived:
  assumes "trust w ss items G {} st" and "\<And>i. i \<in> items \<Longrightarrow> it_path i \<notin> set held"
  defines "st' \<equiv> do_write w ss (PruneArchived held) st"
  shows "trust w ss items G {} st'"
    and "i \<in> items \<Longrightarrow> map_of (artifacts st') (it_path i) = map_of (artifacts st) (it_path i)"
proof -
  obtain n known d g where form: "archived_prune held (ss_source ss) (artifacts st) (db st) (loaded_graph w st) = (n, known, d, g)"
    by (metis prod_cases4)
  note f = archived_prune_form[OF trust_ids[OF assms(1)] form]
  have fields: "db st' = d" "artifacts st' = known" "manifest_row st' = manifest_row st"
    "fingerprints st' = fingerprints st"
    using form f(3) by (auto simp: st'_def)
  have same: "map_of (artifacts st') (it_path i) = map_of (artifacts st) (it_path i)" if "i \<in> items" for i
    using f(2)[of "it_path i"] assms(2)[OF that] by (simp add: fields)
  then show "i \<in> items \<Longrightarrow> map_of (artifacts st') (it_path i) = map_of (artifacts st) (it_path i)" .
  show "trust w ss items G {} st'"
    by (rule trust_removal[OF assms(1), of _ "ss_source ss" "\<lambda>path. path \<in> set held"])
      (use fields f(1) same assms(2) in auto)
qed

lemma trust_prune_vanished:
  assumes "trust w ss items G {} st" and "\<And>i. i \<in> items \<Longrightarrow> it_path i \<in> set listed"
  defines "st' \<equiv> do_write w ss (PruneVanished listed) st"
  shows "trust w ss items G {} st'"
    and "i \<in> items \<Longrightarrow> map_of (artifacts st') (it_path i) = map_of (artifacts st) (it_path i)"
proof -
  obtain n known d g where form: "prune_vanished (ss_complete_listing ss) (ss_source ss) listed (artifacts st)
      (db st) (loaded_graph w st) = (n, known, d, g)"
    by (metis prod_cases4)
  note f = prune_vanished_form[OF trust_ids[OF assms(1)] form]
  let ?gone = "\<lambda>path. ss_complete_listing ss \<and> listed \<noteq> [] \<and> path \<notin> set listed \<and> map_of (artifacts st) path \<noteq> None"
  have "st' = st \<or> db st' = d \<and> artifacts st' = known \<and> manifest_row st' = manifest_row st \<and>
      fingerprints st' = fingerprints st"
    using form by (simp add: st'_def)
  then show "trust w ss items G {} st'"
  proof
    assume st': "db st' = d \<and> artifacts st' = known \<and> manifest_row st' = manifest_row st \<and>
      fingerprints st' = fingerprints st"
    show ?thesis
      by (rule trust_removal[OF assms(1), of _ "ss_source ss" ?gone])
        (use st' f assms(2) in \<open>auto simp: f(2)\<close>)
  qed (simp add: assms(1))
  show "i \<in> items \<Longrightarrow> map_of (artifacts st') (it_path i) = map_of (artifacts st) (it_path i)"
    using form assms(2)[of i] by (simp add: st'_def f(2))
qed

definition calm :: "sync_write \<Rightarrow> bool" where
  "calm wr \<longleftrightarrow> quiet wr \<or> wr = SaveManifestRow"

lemma trust_calm:
  "list_all calm writes \<Longrightarrow> trust w ss items G P st \<Longrightarrow> trust w ss items G P (run_writes w ss (take k writes) st)"
proof (induction writes arbitrary: st k)
  case (Cons wr writes)
  then have "trust w ss items G P (do_write w ss wr st)"
    by (auto simp: calm_def simp del: do_write.simps intro: trust_quiet trust_save_manifest)
  then show ?case using Cons by (cases k) (simp_all del: do_write.simps)
qed simp

lemma calm_fields:
  "list_all calm writes \<Longrightarrow> db (run_writes w ss writes st) = db st \<and> artifacts (run_writes w ss writes st) = artifacts st"
proof (induction writes arbitrary: st)
  case (Cons wr writes)
  have "db (do_write w ss wr st) = db st \<and> artifacts (do_write w ss wr st) = artifacts st"
  proof (cases "quiet wr")
    case True
    then show ?thesis by (simp add: quiet_fields)
  next
    case False
    then have "wr = SaveManifestRow" using Cons.prems by (simp add: calm_def)
    then show ?thesis by simp
  qed
  then show ?case using Cons.IH[of "do_write w ss wr st"] Cons.prems by (simp del: do_write.simps)
qed simp

lemma finish_calm: "list_all calm (finish_writes (fst (finish_cancelled source manifest n processed i k v partial)))"
  by (auto simp: finish_writes_def finish_cancelled_def Let_def calm_def quiet_def list_all_iff
      split: option.splits)

lemma finalize_split:
  "\<exists>before. finalize_writes ss mode changed st = before @ [SaveManifestRow] \<and> list_all quiet before"
  by (auto simp: finalize_writes_def Let_def quiet_def)

lemma calm_of_quiet: "list_all quiet writes \<Longrightarrow> list_all calm writes"
  by (auto simp: list_all_iff calm_def)

text \<open>After the loop a pass ends in one of four ways.\<close>

definition finish_run :: "sync_settings \<Rightarrow> surroundings \<Rightarrow> sync_mode \<Rightarrow> string list \<Rightarrow> bool \<Rightarrow> sync_state \<Rightarrow> string \<Rightarrow> sync_write list" where
  "finish_run ss su mode listed changed st3 outcome =
     PruneArchived (su_held_later su) # PruneVanished listed # finalize_writes ss mode changed st3 @
     SetSourcePrint # (if mode = FullSync then [ClearPhase] else []) @ [SetStatus outcome]"

lemma finish_run_trust:
  fixes mode :: sync_mode and changed :: bool and st3 :: sync_state and outcome :: string
  assumes "trust w ss items G {} st"
    and "\<And>i. i \<in> items \<Longrightarrow> it_path i \<in> set listed \<and> it_path i \<notin> set (su_held_later su)"
  defines "writes \<equiv> finish_run ss su mode listed changed st3 outcome"
  shows "trust w ss items G {} (run_writes w ss (take k writes) st)"
    and "trust w ss items False {} (run_writes w ss writes st)"
    and "i \<in> items \<Longrightarrow> map_of (artifacts (run_writes w ss writes st)) (it_path i) = map_of (artifacts st) (it_path i)"
proof -
  obtain before where fin: "finalize_writes ss mode changed st3 = before @ [SaveManifestRow]" "list_all quiet before"
    using finalize_split by blast
  let ?after = "SetSourcePrint # (if mode = FullSync then [ClearPhase] else []) @ [SetStatus outcome]"
  let ?s1 = "do_write w ss (PruneArchived (su_held_later su)) st"
  let ?s2 = "do_write w ss (PruneVanished listed) ?s1"
  let ?s3 = "run_writes w ss (before @ [SaveManifestRow]) ?s2"
  have t1: "trust w ss items G {} ?s1" by (rule trust_prune_archived[OF assms(1)]) (use assms(2) in blast)
  have t2: "trust w ss items G {} ?s2" by (rule trust_prune_vanished[OF t1]) (use assms(2) in blast)
  have tb: "trust w ss items G {} (run_writes w ss before ?s2)"
    using trust_calm[OF calm_of_quiet[OF fin(2)] t2, of "length before"] by (simp del: do_write.simps)
  have t3: "trust w ss items False {} ?s3"
    unfolding run_append run_Cons run_Nil by (rule trust_save_manifest[OF tb])
  have ta: "trust w ss items False {} (run_writes w ss (take j ?after) ?s3)" for j
  proof -
    let ?a1 = "do_write w ss SetSourcePrint ?s3"
    have a1: "trust w ss items False {} ?a1" by (rule trust_quiet[OF _ t3]) (simp add: quiet_def)
    have a2: "trust w ss items False {} (do_write w ss ClearPhase ?a1)" by (rule trust_clear_phase[OF a1])
    have a3: "trust w ss items False {} (do_write w ss (SetStatus outcome) ?a1)"
      by (rule trust_quiet[OF _ a1]) (simp add: quiet_def)
    have a4: "trust w ss items False {} (do_write w ss (SetStatus outcome) (do_write w ss ClearPhase ?a1))"
      by (rule trust_quiet[OF _ a2]) (simp add: quiet_def)
    show ?thesis using t3 a1 a2 a3 a4
      by (cases j; cases "j - 1"; cases "j - 2")
        (auto simp: take_Cons' simp del: do_write.simps run_append)
  qed
  have writes: "writes = [PruneArchived (su_held_later su), PruneVanished listed] @ (before @ [SaveManifestRow]) @ ?after"
    by (simp add: writes_def finish_run_def fin(1))
  show "trust w ss items False {} (run_writes w ss writes st)"
    unfolding writes run_append[of _ _ _ ?after] run_append[of _ _ "[_, _]"] run_Cons run_Nil append_assoc[symmetric]
    using ta[of "length ?after"] by (simp del: do_write.simps)
  show "trust w ss items G {} (run_writes w ss (take k writes) st)"
  proof -
    have mid: "trust w ss items G {} (run_writes w ss (take j (before @ [SaveManifestRow])) ?s2)" for j
      by (rule trust_calm[OF _ t2]) (use calm_of_quiet[OF fin(2)] in \<open>simp add: calm_def\<close>)
    consider "k = 0" | "k = 1" | "2 \<le> k" by linarith
    then show ?thesis
    proof cases
      case 3
      then obtain j where k: "k = Suc (Suc j)" by (metis add_2_eq_Suc le_Suc_ex)
      have "run_writes w ss (take k writes) st = run_writes w ss (take j ((before @ [SaveManifestRow]) @ ?after)) ?s2"
        unfolding writes k by (simp del: do_write.simps)
      moreover have "trust w ss items G {} (run_writes w ss (take j ((before @ [SaveManifestRow]) @ ?after)) ?s2)"
        using take_append_cases[of j "before @ [SaveManifestRow]" ?after]
      proof
        assume e: "take j ((before @ [SaveManifestRow]) @ ?after) = take j (before @ [SaveManifestRow])"
        show ?thesis by (subst e) (rule mid)
      next
        assume e: "take j ((before @ [SaveManifestRow]) @ ?after) =
          (before @ [SaveManifestRow]) @ take (j - length (before @ [SaveManifestRow])) ?after"
        show ?thesis by (subst e, subst run_append) (rule trust_weaken[OF ta])
      qed
      ultimately show ?thesis by simp
    qed (use assms(1) t1 in \<open>simp_all add: writes del: do_write.simps\<close>)
  qed
  show "map_of (artifacts (run_writes w ss writes st)) (it_path i) = map_of (artifacts st) (it_path i)" if "i \<in> items"
  proof -
    have "list_all calm (before @ [SaveManifestRow])" using calm_of_quiet[OF fin(2)] by (simp add: calm_def)
    then have "artifacts ?s3 = artifacts ?s2" by (rule calm_fields[THEN conjunct2])
    moreover have "artifacts (run_writes w ss ?after ?s3) = artifacts ?s3"
      by (simp add: set_fingerprint_def clear_fingerprint_def)
    moreover have "run_writes w ss writes st = run_writes w ss ?after ?s3"
      unfolding writes by (simp del: do_write.simps)
    moreover have "map_of (artifacts ?s1) (it_path i) = map_of (artifacts st) (it_path i)"
      by (rule trust_prune_archived(2)[OF assms(1) _ that]) (use assms(2) in blast)
    moreover have "map_of (artifacts ?s2) (it_path i) = map_of (artifacts ?s1) (it_path i)"
      by (rule trust_prune_vanished(2)[OF t1 _ that]) (use assms(2) in blast)
    ultimately show ?thesis by simp
  qed
qed

end
