(* ===== verification/SyncRecovery.thy ===== *)
theory SyncRecovery
  imports SyncCrash
begin

text \<open>
  What a pass over a source guarantees: every current file is stored when a pass finishes, also
  when the pass before it crashed, and also when it resumes an interrupted full pass.
\<close>

section \<open>The shape of a pass\<close>

definition admitted :: "surroundings \<Rightarrow> sync_item list \<Rightarrow> sync_item list" where
  "admitted su listed = filter (\<lambda>i. it_path i \<notin> set (su_held su)) listed"

lemma prepare_until_items:
  assumes "prepare_until (prepare_item w ss mode st known) items = (ps, raised)"
  shows "map pr_item ps = take (length ps) items \<and>
    (\<forall>pr \<in> set ps. prepare_item w ss mode st known (pr_item pr) = Some pr) \<and> (\<not> raised \<longrightarrow> length ps = length items)"
  using assms
proof (induction items arbitrary: ps)
  case (Cons i items)
  show ?case
  proof (cases "prepare_item w ss mode st known i")
    case None
    then show ?thesis using Cons.prems by auto
  next
    case (Some pr)
    then obtain ps' where ps': "prepare_until (prepare_item w ss mode st known) items = (ps', raised)" "ps = pr # ps'"
      using Cons.prems by (auto split: prod.splits)
    show ?thesis using Cons.IH[OF ps'(1)] ps'(2) Some prepare_item_of[OF Some] by simp
  qed
qed simp

lemma handed_out:
  assumes "prepare_until (prepare_item w ss mode st known) items = (ps, raised)"
    and "cancellable check identity 0 ps {} = (out, processed, stopped)"
    and "distinct (map it_path items)"
  shows "distinct (map path_of out)"
    and "pr \<in> set out \<Longrightarrow> pr_item pr \<in> set items \<and> prepare_item w ss mode st known (pr_item pr) = Some pr"
    and "stopped = [] \<Longrightarrow> \<not> raised \<Longrightarrow> i \<in> set items \<Longrightarrow> \<exists>pr \<in> set out. pr_item pr = i"
proof -
  note p = prepare_until_items[OF assms(1)]
  have out: "out = take (length out) ps" and all: "stopped = [] \<Longrightarrow> out = ps"
    using cancellable_prefix[OF assms(2)] by (auto split: if_splits)
  have paths: "map path_of ps = take (length ps) (map it_path items)"
  proof -
    have "map path_of ps = map it_path (map pr_item ps)" by (simp add: path_of_def)
    also have "\<dots> = take (length ps) (map it_path items)" using p by (simp only: take_map)
    finally show ?thesis .
  qed
  have "map path_of out = take (length out) (map path_of ps)" by (subst out) (simp add: take_map)
  then show "distinct (map path_of out)" using assms(3) by (simp add: paths)
  have sub: "set out \<subseteq> set ps" by (subst out) (rule set_take_subset)
  show "pr_item pr \<in> set items \<and> prepare_item w ss mode st known (pr_item pr) = Some pr" if "pr \<in> set out"
  proof -
    have "pr_item pr \<in> set (map pr_item ps)" using that sub by auto
    then have "pr_item pr \<in> set items" using p set_take_subset[of "length ps" items] by auto
    then show ?thesis using p that sub by blast
  qed
  show "\<exists>pr \<in> set out. pr_item pr = i" if "stopped = []" "\<not> raised" "i \<in> set items"
  proof -
    have "map pr_item out = items" using p all[OF that(1)] that(2) by simp
    then have "i \<in> pr_item ` set out" using that(3) by (metis set_map)
    then show ?thesis by blast
  qed
qed

text \<open>
  The order of publication, checked over a list of writes: \<open>A\<close> are the artifacts the graph has so
  far, \<open>U\<close> those it has had since it was last saved. An artifact is noted in the manifest once the
  graph has it, and the manifest is saved only when the graph is.
\<close>

fun order_ok :: "parsed_artifact list \<Rightarrow> parsed_artifact list \<Rightarrow> sync_write list \<Rightarrow> bool" where
  "order_ok U A [] = True"
| "order_ok U A (wr # writes) = (case wr of
       WriteGraph p \<Rightarrow> order_ok (p # U) (p # A) writes
     | SaveGraphRows \<Rightarrow> order_ok [] A writes
     | NoteArtifact p \<Rightarrow> p \<in> set A \<and> order_ok U A writes
     | SaveManifestRow \<Rightarrow> U = [] \<and> order_ok U A writes
     | _ \<Rightarrow> order_ok U A writes)"

lemma order_commits:
  assumes "U = [] \<or> (\<forall>U A. order_ok U A tail)" and "\<And>A. order_ok [] A tail"
    and "\<And>pr. pr \<in> set out \<Longrightarrow> commits pr \<noteq> None \<Longrightarrow> \<forall>U A. order_ok U A tail"
  shows "order_ok U A (concat (map (commit_writes su fresh) out) @ tail)"
  using assms(1,3)
proof (induction out arbitrary: U A)
  case Nil
  then show ?case using assms(2) by auto
next
  case (Cons pr out)
  show ?case
  proof (cases "commits pr")
    case None
    then have none: "commit_writes su fresh pr = []" by (simp add: commit_writes_def)
    have "order_ok U A (concat (map (commit_writes su fresh) out) @ tail)"
      by (rule Cons.IH[OF Cons.prems(1)]) (rule Cons.prems(2), simp_all)
    then show ?thesis using none by simp
  next
    case (Some p)
    have tail: "\<forall>U A. order_ok U A tail" by (rule Cons.prems(2)[of pr]) (simp_all add: Some)
    have "order_ok U' A' (concat (map (commit_writes su fresh) out) @ tail)" for U' A'
      by (rule Cons.IH) (use tail in simp_all)
    moreover have "commit_writes su fresh pr = [WriteChunks fresh p, WriteGraph p, WriteEnrichment p,
        NoteArtifact p] @ checkpoint_writes (su_due su (pa_path p))"
      by (simp add: commit_writes_def Some)
    ultimately show ?thesis
      by (cases "su_due su (pa_path p)") (simp_all add: checkpoint_writes_def)
  qed
qed

lemma order_quiet:
  "list_all (\<lambda>wr. quiet wr \<and> wr \<noteq> SaveGraphRows) writes \<Longrightarrow> order_ok U A (writes @ rest) = order_ok U A rest"
proof (induction writes)
  case (Cons wr writes)
  then show ?case by (cases wr) (simp_all add: quiet_def)
qed simp

lemma order_finish_run:
  "(U = [] \<or> changed \<or> mode = FullSync) \<Longrightarrow> order_ok U A (finish_run ss su mode listed changed st3 outcome)"
  by (cases "changed \<or> mode = FullSync") (auto simp: finish_run_def finalize_writes_def Let_def)

lemma order_finish_cancelled:
  "(U = [] \<or> 0 < n) \<Longrightarrow>
   order_ok U A (finish_writes (fst (finish_cancelled source manifest m processed (Some n) k False partial)))"
  by (auto simp: finish_writes_def finish_cancelled_def Let_def split: option.split)

lemma count_indexed: "pr \<in> set out \<Longrightarrow> commits pr \<noteq> None \<Longrightarrow> 0 < pc_indexed (count_pass out)"
  by (auto simp: count_pass_def filter_empty_conv)

lemma index_pass_form:
  assumes "index_pass w ss su mode listed st0 = (writes, result)" and "distinct (map it_path listed)"
  defines "items \<equiv> admitted su listed"
  defines "st1 \<equiv> run_writes w ss (opening_writes mode) st0"
  obtains out tail where
    "writes = opening_writes mode @ concat (map (commit_writes su (mode = FullSync)) out) @ tail"
    and "distinct (map path_of out)"
    and "\<And>pr. pr \<in> set out \<Longrightarrow> pr_item pr \<in> set items \<and>
      prepare_item w ss mode st1 (artifacts st1) (pr_item pr) = Some pr"
    and "list_all calm tail \<or> (\<exists>changed st3 outcome. tail = finish_run ss su mode (map it_path items) changed st3 outcome)"
    and "\<And>outcome counts removed. result = Finished outcome counts removed \<Longrightarrow>
      (\<exists>changed st3. tail = finish_run ss su mode (map it_path items) changed st3 outcome) \<and>
      (\<forall>i \<in> set items. \<exists>pr \<in> set out. pr_item pr = i)"
    and "tail = [] \<or> (\<forall>U A. U = [] \<or> 0 < pc_indexed (count_pass out) \<longrightarrow> order_ok U A tail)"
proof -
  obtain prepared unavailable where prep:
    "prepare_until (prepare_item w ss mode st1 (artifacts st1)) items = (prepared, unavailable)" by force
  obtain out processed stopped where canc:
    "cancellable (su_check su) (\<lambda>pr. it_identity (pr_item pr)) 0 prepared {} = (out, processed, stopped)"
    by (metis prod_cases3)
  have dist: "distinct (map it_path items)"
    using assms(2) by (simp add: items_def admitted_def distinct_map_filter)
  note h = handed_out[OF prep canc dist]
  let ?loop = "concat (map (commit_writes su (mode = FullSync)) out)"
  let ?st2 = "run_writes w ss ?loop st1"
  let ?fin = "finish_cancelled (ss_source ss) (artifacts ?st2) (length items) processed
    (Some (pc_indexed (count_pass out))) (Some (pc_skipped (count_pass out))) False (su_partial su)"
  let ?unread = "pc_unreadable (count_pass out)"
  let ?prune = "[PruneArchived (su_held_later su), PruneVanished (map it_path items)]"
  let ?removed = "removed_count ss (su_held_later su) (map it_path items) ?st2"
  let ?outcome = "if ?unread \<noteq> [] then ''degraded'' else ''healthy''"
  let ?changed = "pc_indexed (count_pass out) + ?removed \<noteq> 0"
  let ?st3 = "run_writes w ss ?prune ?st2"
  let ?tail = "if stopped \<noteq> [] then finish_writes (fst ?fin)
    else if unavailable \<or> ?unread \<noteq> [] \<and> length ?unread = length items then []
    else finish_run ss su mode (map it_path items) ?changed ?st3 ?outcome"
  have pass: "index_pass w ss su mode listed st0 =
     (opening_writes mode @ ?loop @ ?tail,
      if stopped \<noteq> [] then Stopped (snd ?fin)
      else if unavailable then Raised ''ConnectorUnavailable''
      else if ?unread \<noteq> [] \<and> length ?unread = length items then Raised ''RuntimeError''
      else Finished ?outcome (count_pass out) ?removed)"
    unfolding index_pass_def Let_def admitted_def[symmetric] items_def[symmetric] st1_def[symmetric]
      prep canc prod.case finish_run_def
    by (simp add: split_beta del: run_Cons run_append do_write.simps)
  show ?thesis
  proof (rule that)
    show "writes = opening_writes mode @ ?loop @ ?tail" using pass assms(1) by simp
    show "distinct (map path_of out)" by (rule h(1))
    show "pr_item pr \<in> set items \<and> prepare_item w ss mode st1 (artifacts st1) (pr_item pr) = Some pr"
      if "pr \<in> set out" for pr by (rule h(2)[OF that])
    show "list_all calm ?tail \<or>
      (\<exists>changed st3 outcome. ?tail = finish_run ss su mode (map it_path items) changed st3 outcome)"
    proof (cases "stopped \<noteq> []")
      case True
      then show ?thesis by (intro disjI1) (simp only: if_True finish_calm simp_thms not_False_eq_True)
    next
      case False
      then show ?thesis
        by (cases "unavailable \<or> ?unread \<noteq> [] \<and> length ?unread = length items")
          (simp only: if_False if_True list.pred_inject simp_thms, simp only: if_False if_True, blast)
    qed
    show "(\<exists>changed st3. ?tail = finish_run ss su mode (map it_path items) changed st3 outcome) \<and>
        (\<forall>i \<in> set items. \<exists>pr \<in> set out. pr_item pr = i)"
      if "result = Finished outcome counts removed" for outcome counts removed
    proof -
      have r: "stopped = []" "\<not> unavailable" "\<not> (?unread \<noteq> [] \<and> length ?unread = length items)" "?outcome = outcome"
        using pass assms(1) that by (simp_all only: prod.inject split: if_splits) blast+
      then have "?tail = finish_run ss su mode (map it_path items) ?changed ?st3 outcome"
        by (simp only: if_False if_True simp_thms not_False_eq_True)
      then show ?thesis using h(3)[OF r(1,2)] by blast
    qed
    show "?tail = [] \<or> (\<forall>U A. U = [] \<or> 0 < pc_indexed (count_pass out) \<longrightarrow> order_ok U A ?tail)"
    proof (cases "stopped \<noteq> []")
      case True
      then have "?tail = finish_writes (fst ?fin)" by (simp only: if_True simp_thms not_False_eq_True)
      moreover have "\<forall>U A. U = [] \<or> 0 < pc_indexed (count_pass out) \<longrightarrow> order_ok U A (finish_writes (fst ?fin))"
        by (intro allI impI) (rule order_finish_cancelled)
      ultimately show ?thesis by (intro disjI2) (simp only:)
    next
      case False
      have run: "\<forall>U A. U = [] \<or> 0 < pc_indexed (count_pass out) \<longrightarrow>
          order_ok U A (finish_run ss su mode (map it_path items) ?changed ?st3 ?outcome)"
        by (intro allI impI, rule order_finish_run) linarith
      show ?thesis
      proof (cases "unavailable \<or> ?unread \<noteq> [] \<and> length ?unread = length items")
        case True
        then show ?thesis using False by (intro disjI1) (simp only: if_False if_True)
      next
        case other: False
        then have t: "?tail = finish_run ss su mode (map it_path items) ?changed ?st3 ?outcome"
          using False by (simp only: if_False)
        show ?thesis unfolding t by (rule disjI2[OF run])
      qed
    qed
  qed
qed

section \<open>The disk at every point of a pass\<close>

definition sound :: "'b world \<Rightarrow> sync_settings \<Rightarrow> sync_item set \<Rightarrow> bool \<Rightarrow> sync_state \<Rightarrow> bool" where
  "sound w ss items G st \<longleftrightarrow> db_ok ss (db st) \<and>
     (G \<and> clearing ss st \<or> claims_ok w ss items {} (saved_manifest st) (db st))"

lemma trust_sound: "trust w ss items G P st \<Longrightarrow> sound w ss items G st"
  unfolding trust_def sound_def by (meson claims_mono empty_subsetI)

lemma sound_reboot [simp]: "sound w ss items G (reboot w st) = sound w ss items G st"
  by (simp add: sound_def reboot_def clearing_def full_phase_def saved_manifest_def)

text \<open>After \<open>opening_writes\<close>, what the loop needs to know.\<close>

lemma opened_incremental:
  assumes "sound w ss items False st0" and "inj_on it_path items"
    and "\<And>pr. pr \<in> set out \<Longrightarrow> pr_item pr \<in> items \<and>
      prepare_item w ss Incremental st1 (artifacts st1) (pr_item pr) = Some pr"
    and "st1 = run_writes w ss (opening_writes Incremental) st0"
  shows "trust w ss items False (committed out) st1"
proof -
  have fields: "db st1 = db st0" "artifacts st1 = saved_manifest st0" "saved_manifest st1 = saved_manifest st0"
    by (auto simp: assms(4) opening_writes_def saved_manifest_def)
  have claims: "claims_ok w ss items (committed out) (saved_manifest st0) (db st0)"
    unfolding claims_ok_def
  proof (intro ballI allI impI)
    fix i p
    assume i: "i \<in> items" "current w ss i = Some p" "entry_sha (map_of (saved_manifest st0) (it_path i)) = Some (pa_sha p)"
    have "it_path i \<notin> committed out"
    proof
      assume "it_path i \<in> committed out"
      then obtain pr q where pr: "pr \<in> set out" "commits pr = Some q" "path_of pr = it_path i"
        by (auto simp: committed_def)
      have same: "pr_item pr = i"
        using assms(2) assms(3)[OF pr(1)] i(1) pr(3) by (auto simp: path_of_def dest: inj_onD)
      have prep: "prepare_item w ss Incremental st1 (artifacts st1) i = Some pr"
        using assms(3)[OF pr(1)] same by simp
      note c = prepare_commits[OF prep pr(2)]
      show False using c(1,2) i by (simp add: fields)
    qed
    then show "it_path i \<notin> committed out \<and> stored w (db st0) p"
      using assms(1) i by (simp add: sound_def claims_ok_def)
  qed
  show ?thesis
    by (rule trustI) (use claims assms(1) in \<open>simp_all add: fields sound_def\<close>)
qed

lemma rows_of_owned:
  assumes "\<forall>x \<in> set t. \<forall>path. fst x = artifact_id ss path \<longrightarrow> row_source (snd x) = ss_source ss"
  shows "rows_of (artifact_id ss path) (filter (\<lambda>(_, r). row_source r \<noteq> ss_source ss) t) = []"
  using assms by (auto simp: rows_of_def filter_empty_conv)

lemma cleared_db:
  assumes "db_ok ss d"
  defines "d' \<equiv> snd (delete_source_artifacts (ss_source ss) d)"
  shows "db_ok ss d'" and "unwritten ss fresh P d'"
proof -
  show "db_ok ss d'" using assms(1)
    by (auto simp: d'_def db_ok_def delete_source_artifacts_def Let_def keyed_def distinct_map_filter)
  show "unwritten ss fresh P d'"
    using assms(1) rows_of_owned[of "st_chunks d" ss] rows_of_owned[of "st_chunks_fts d" ss]
    by (simp add: d'_def unwritten_def delete_source_artifacts_def Let_def db_ok_def)
qed

lemma ensure_loaded_print [simp]: "full_phase s (ensure_graph_loaded w st) = full_phase s st"
  by (simp add: full_phase_def)

lemma opening_full:
  fixes w :: "'b world"
  assumes "db_ok ss (db st0)"
  defines "st1 \<equiv> run_writes w ss (opening_writes FullSync) st0"
  shows "trust w ss items True P st1" and "unwritten ss fresh P (db st1)" and "artifacts st1 = []"
    and "sound w ss items True st0 \<Longrightarrow> sound w ss items True (run_writes w ss (take k (opening_writes FullSync)) st0)"
proof -
  let ?s1 = "do_write w ss LoadManifest st0"
  let ?s2 = "do_write w ss (SetPhase ''starting'') ?s1"
  let ?s3 = "do_write w ss ClearSourceRows ?s2"
  let ?s4 = "do_write w ss ClearSourceGraph ?s3"
  let ?s5 = "do_write w ss (SetPhase ''cleared'') ?s4"
  have st1: "st1 = do_write w ss FreshManifest ?s5"
    by (simp add: st1_def opening_writes_def clearing_writes_def del: do_write.simps)
  have dbs: "db ?s1 = db st0" "db ?s2 = db st0"
    "db ?s3 = snd (delete_source_artifacts (ss_source ss) (db st0))"
    "db ?s4 = snd (delete_source_artifacts (ss_source ss) (db st0))"
    "db ?s5 = snd (delete_source_artifacts (ss_source ss) (db st0))"
    "db st1 = snd (delete_source_artifacts (ss_source ss) (db st0))"
    by (simp_all add: st1 Let_def)
  have phases: "clearing ss ?s2" "clearing ss ?s3" "clearing ss ?s4" "clearing ss ?s5" "clearing ss st1"
    by (simp_all add: st1 clearing_def Let_def full_phase_def set_fingerprint_def update_conv')
  show fresh: "artifacts st1 = []" by (simp add: st1)
  note cl = cleared_db[OF assms(1)]
  show "trust w ss items True P st1"
    by (rule trustI) (use cl(1) phases fresh in \<open>simp_all add: dbs claims_ok_def entry_sha_def\<close>)
  show "unwritten ss fresh P (db st1)" unfolding dbs by (rule cl(2))
  assume init: "sound w ss items True st0"
  have s1: "sound w ss items True ?s1"
    using init by (simp add: sound_def clearing_def full_phase_def saved_manifest_def)
  have rest: "sound w ss items True st" if "st \<in> {?s2, ?s3, ?s4, ?s5, st1}" for st
    using that phases cl(1) assms(1) by (auto simp: sound_def dbs simp del: do_write.simps)
  have all: "sound w ss items True (run_writes w ss ws st0)"
    if "ws \<in> {[], [LoadManifest], [LoadManifest, SetPhase ''starting''],
      [LoadManifest, SetPhase ''starting'', ClearSourceRows],
      [LoadManifest, SetPhase ''starting'', ClearSourceRows, ClearSourceGraph],
      [LoadManifest, SetPhase ''starting'', ClearSourceRows, ClearSourceGraph, SetPhase ''cleared''],
      opening_writes FullSync}" for ws
    using that init s1 rest by (elim insertE emptyE) (simp_all add: st1_def[symmetric] del: do_write.simps)
  show "sound w ss items True (run_writes w ss (take k (opening_writes FullSync)) st0)"
    by (rule all) (auto simp: opening_writes_def clearing_writes_def take_Cons')
qed

section \<open>Recovery\<close>

lemma body_run:
  fixes w :: "'b world" and out :: "prepared_item list"
  assumes "trust w ss items G P st1" and "unwritten ss fresh P (db st1)"
    and "from_listing w ss items P out" and "inj_on it_path items"
    and "list_all calm tail \<or> (\<exists>changed st3 outcome. tail = finish_run ss su mode listed changed st3 outcome)"
    and "\<And>i. i \<in> items \<Longrightarrow> it_path i \<in> set listed \<and> it_path i \<notin> set (su_held_later su)"
  defines "loop \<equiv> concat (map (commit_writes su fresh) out)"
  shows "sound w ss items G (run_writes w ss (take k (loop @ tail)) st1)"
proof -
  note l = loop_run[OF assms(1-4), where su = su, folded loop_def]
  have t: "trust w ss items G {} (run_writes w ss loop st1)"
    using l[of "length loop"] by simp
  have tails: "trust w ss items G {} (run_writes w ss (take j tail) (run_writes w ss loop st1))" for j
    using assms(5)
  proof
    assume "list_all calm tail"
    then show ?thesis by (rule trust_calm[OF _ t])
  next
    assume "\<exists>changed st3 outcome. tail = finish_run ss su mode listed changed st3 outcome"
    then obtain changed st3 outcome where tail: "tail = finish_run ss su mode listed changed st3 outcome" by blast
    show ?thesis unfolding tail by (rule finish_run_trust(1)[OF t assms(6)])
  qed
  show ?thesis using take_append_cases[of k loop tail]
  proof
    assume e: "take k (loop @ tail) = take k loop"
    show ?thesis by (subst e) (use l trust_sound in blast)
  next
    assume e: "take k (loop @ tail) = loop @ take (k - length loop) tail"
    show ?thesis by (subst e, subst run_append) (rule trust_sound[OF tails])
  qed
qed

definition same_archive :: "string list \<Rightarrow> surroundings \<Rightarrow> bool" where
  "same_archive held su \<longleftrightarrow> su_held su = held \<and> su_held_later su = held"

lemma from_listing_of:
  assumes "distinct (map path_of out)"
    and "\<And>pr. pr \<in> set out \<Longrightarrow> pr_item pr \<in> items \<and> prepare_item w ss mode st1 known (pr_item pr) = Some pr"
  shows "from_listing w ss items (committed out) out"
  using assms prepare_commits(1) unfolding from_listing_def committed_def by blast

text \<open>A pass, opened: what both kinds of pass give the lemmas on the loop.\<close>

lemma opened:
  assumes "index_pass w ss su mode listed st0 = (writes, result)" and "distinct (map it_path listed)"
    and "mode = Incremental \<or> mode = FullSync" and "db_ok ss (db st0)"
    and "mode = Incremental \<Longrightarrow> sound w ss (set (admitted su listed)) False st0"
  obtains out tail st1 where
    "st1 = run_writes w ss (opening_writes mode) st0"
    and "writes = opening_writes mode @ concat (map (commit_writes su (mode = FullSync)) out) @ tail"
    and "trust w ss (set (admitted su listed)) (mode = FullSync) (committed out) st1"
    and "unwritten ss (mode = FullSync) (committed out) (db st1)"
    and "from_listing w ss (set (admitted su listed)) (committed out) out"
    and "\<And>pr. pr \<in> set out \<Longrightarrow> prepare_item w ss mode st1 (artifacts st1) (pr_item pr) = Some pr"
    and "mode = FullSync \<Longrightarrow> artifacts st1 = []"
    and "list_all calm tail \<or>
      (\<exists>changed st3 outcome. tail = finish_run ss su mode (map it_path (admitted su listed)) changed st3 outcome)"
    and "\<And>outcome counts removed. result = Finished outcome counts removed \<Longrightarrow>
      (\<exists>changed st3. tail = finish_run ss su mode (map it_path (admitted su listed)) changed st3 outcome) \<and>
      (\<forall>i \<in> set (admitted su listed). \<exists>pr \<in> set out. pr_item pr = i)"
    and "\<And>k. sound w ss (set (admitted su listed)) (mode = FullSync) st0 \<Longrightarrow>
      sound w ss (set (admitted su listed)) (mode = FullSync)
      (run_writes w ss (take k (opening_writes mode)) st0)"
proof -
  let ?items = "set (admitted su listed)"
  obtain out tail where shape:
    "writes = opening_writes mode @ concat (map (commit_writes su (mode = FullSync)) out) @ tail"
    "distinct (map path_of out)"
    "\<And>pr. pr \<in> set out \<Longrightarrow> pr_item pr \<in> ?items \<and> prepare_item w ss mode
      (run_writes w ss (opening_writes mode) st0)
      (artifacts (run_writes w ss (opening_writes mode) st0)) (pr_item pr) = Some pr"
    "list_all calm tail \<or>
      (\<exists>changed st3 outcome. tail = finish_run ss su mode (map it_path (admitted su listed)) changed st3 outcome)"
    "\<And>outcome counts removed. result = Finished outcome counts removed \<Longrightarrow>
      (\<exists>changed st3. tail = finish_run ss su mode (map it_path (admitted su listed)) changed st3 outcome) \<and>
      (\<forall>i \<in> ?items. \<exists>pr \<in> set out. pr_item pr = i)"
    by (rule index_pass_form[OF assms(1,2)]) (rule that; assumption)
  let ?st1 = "run_writes w ss (opening_writes mode) st0"
  have inj: "inj_on it_path ?items"
    using assms(2) by (auto simp: admitted_def distinct_map intro: inj_on_subset)
  have listing: "from_listing w ss ?items (committed out) out"
    by (rule from_listing_of[OF shape(2,3)])
  note ok = assms(4)
  have start: "trust w ss ?items (mode = FullSync) (committed out) ?st1 \<and>
      unwritten ss (mode = FullSync) (committed out) (db ?st1) \<and> (mode = FullSync \<longrightarrow> artifacts ?st1 = []) \<and>
      (sound w ss ?items (mode = FullSync) st0 \<longrightarrow>
        (\<forall>k. sound w ss ?items (mode = FullSync) (run_writes w ss (take k (opening_writes mode)) st0)))"
    using assms(3)
  proof
    assume inc: "mode = Incremental"
    have "sound w ss ?items False st0" using assms(5) inc by simp
    moreover have "trust w ss ?items False (committed out) ?st1"
      using opened_incremental[OF calculation inj, of out ?st1] shape(3) inc by simp
    moreover have "sound w ss ?items False (run_writes w ss (take k (opening_writes Incremental)) st0)" for k
      using calculation(1) by (cases k) (simp_all add: opening_writes_def sound_def saved_manifest_def)
    ultimately show ?thesis using inc by (simp add: unwritten_def)
  next
    assume full: "mode = FullSync"
    show ?thesis using full opening_full(4)[OF ok, of w "?items"] by (simp add: opening_full(1-3)[OF ok])
  qed
  show ?thesis
    by (rule that[OF refl shape(1)]) (use start listing shape in blast)+
qed

lemma crash_sound:
  assumes "index_pass w ss su mode listed st0 = (writes, result)" and "distinct (map it_path listed)"
    and "mode = Incremental \<or> mode = FullSync" and "same_archive held su"
    and "sound w ss (set (admitted su listed)) (mode = FullSync) st0"
  shows "sound w ss (set (admitted su listed)) (mode = FullSync) (run_writes w ss (take k writes) st0)"
proof (rule opened[OF assms(1,2,3)])
  show "db_ok ss (db st0)" "mode = Incremental \<Longrightarrow> sound w ss (set (admitted su listed)) False st0"
    using assms(5) by (auto simp: sound_def)
next
  fix out tail st1
  let ?items = "set (admitted su listed)"
  let ?loop = "concat (map (commit_writes su (mode = FullSync)) out)"
  assume o: "st1 = run_writes w ss (opening_writes mode) st0" "writes = opening_writes mode @ ?loop @ tail"
    "trust w ss ?items (mode = FullSync) (committed out) st1" "unwritten ss (mode = FullSync) (committed out) (db st1)"
    "from_listing w ss ?items (committed out) out"
    and tail: "list_all calm tail \<or>
      (\<exists>changed st3 outcome. tail = finish_run ss su mode (map it_path (admitted su listed)) changed st3 outcome)"
    and start: "\<And>k. sound w ss ?items (mode = FullSync) st0 \<Longrightarrow>
      sound w ss ?items (mode = FullSync) (run_writes w ss (take k (opening_writes mode)) st0)"
  have inj: "inj_on it_path ?items"
    using assms(2) by (auto simp: admitted_def distinct_map intro: inj_on_subset)
  have unheld: "it_path i \<in> set (map it_path (admitted su listed)) \<and> it_path i \<notin> set (su_held_later su)"
    if "i \<in> ?items" for i
    using that assms(4) by (auto simp: admitted_def same_archive_def)
  note body = body_run[OF o(3,4,5) inj tail unheld]
  show ?thesis using take_append_cases[of k "opening_writes mode" "?loop @ tail"]
  proof
    assume e: "take k (opening_writes mode @ ?loop @ tail) = take k (opening_writes mode)"
    show ?thesis unfolding o(2) by (subst e) (rule start[OF assms(5)])
  next
    assume e: "take k (opening_writes mode @ ?loop @ tail) =
      opening_writes mode @ take (k - length (opening_writes mode)) (?loop @ tail)"
    show ?thesis unfolding o(2) by (subst e, subst run_append, subst o(1)[symmetric]) (rule body)
  qed
qed

lemma finish_run_saved:
  "manifest_row (run_writes w ss (finish_run ss su mode listed changed st3 outcome) st) =
     Some (artifacts (run_writes w ss (finish_run ss su mode listed changed st3 outcome) st))"
proof -
  obtain before where fin: "finalize_writes ss mode changed st3 = before @ [SaveManifestRow]"
    using finalize_split by blast
  let ?after = "SetSourcePrint # (if mode = FullSync then [ClearPhase] else []) @ [SetStatus outcome]"
  have "manifest_row (run_writes w ss ?after (do_write w ss SaveManifestRow st')) =
      Some (artifacts (run_writes w ss ?after (do_write w ss SaveManifestRow st')))" for st'
    by (simp add: set_fingerprint_def clear_fingerprint_def)
  moreover have "run_writes w ss (finish_run ss su mode listed changed st3 outcome) st =
      run_writes w ss ?after (do_write w ss SaveManifestRow
        (run_writes w ss (PruneArchived (su_held_later su) # PruneVanished listed # before) st))"
    by (simp add: finish_run_def fin del: do_write.simps)
  ultimately show ?thesis by simp
qed

text \<open>The listed files, archived ones apart, are stored as they now are, and the manifest says so.\<close>

definition indexed_as_current ::
  "'b world \<Rightarrow> sync_settings \<Rightarrow> sync_item list \<Rightarrow> sync_state \<Rightarrow> bool" where
  "indexed_as_current w ss items st \<longleftrightarrow>
     list_all (\<lambda>i. case current w ss i of None \<Rightarrow> True
       | Some p \<Rightarrow> stored w (db st) p \<and> entry_sha (map_of (saved_manifest st) (it_path i)) = Some (pa_sha p)) items"

lemma finished_indexed:
  assumes "index_pass w ss su mode listed st0 = (writes, Finished outcome counts removed)"
    and "distinct (map it_path listed)" and "list_all (honest w) listed"
    and "mode = Incremental \<or> mode = FullSync" and "same_archive held su"
    and "db_ok ss (db st0)" and "mode = Incremental \<Longrightarrow> sound w ss (set (admitted su listed)) False st0"
  shows "indexed_as_current w ss (admitted su listed) (run_writes w ss writes st0)"
    and "sound w ss (set (admitted su listed)) False (run_writes w ss writes st0)"
proof -
  let ?items = "set (admitted su listed)" and ?fin = "run_writes w ss writes st0"
  have "trust w ss ?items False {} ?fin \<and> manifest_row ?fin = Some (artifacts ?fin) \<and>
    (\<forall>i \<in> ?items. \<forall>p. current w ss i = Some p \<longrightarrow> entry_sha (map_of (artifacts ?fin) (it_path i)) = Some (pa_sha p))"
  proof (rule opened[OF assms(1,2,4,6)])
    show "mode = Incremental \<Longrightarrow> sound w ss ?items False st0" by (rule assms(7))
  next
    fix out tail st1
    let ?loop = "concat (map (commit_writes su (mode = FullSync)) out)"
    assume o: "st1 = run_writes w ss (opening_writes mode) st0" "writes = opening_writes mode @ ?loop @ tail"
      "trust w ss ?items (mode = FullSync) (committed out) st1" "unwritten ss (mode = FullSync) (committed out) (db st1)"
      "from_listing w ss ?items (committed out) out"
      and prep: "\<And>pr. pr \<in> set out \<Longrightarrow> prepare_item w ss mode st1 (artifacts st1) (pr_item pr) = Some pr"
      and "mode = FullSync \<Longrightarrow> artifacts st1 = []"
      and tail: "\<And>outcome' counts' removed'. Finished outcome counts removed = Finished outcome' counts' removed' \<Longrightarrow>
        (\<exists>changed st3. tail = finish_run ss su mode (map it_path (admitted su listed)) changed st3 outcome') \<and>
        (\<forall>i \<in> ?items. \<exists>pr \<in> set out. pr_item pr = i)"
    have inj: "inj_on it_path ?items"
      using assms(2) by (auto simp: admitted_def distinct_map intro: inj_on_subset)
    obtain changed st3 where t: "tail = finish_run ss su mode (map it_path (admitted su listed)) changed st3 outcome"
      using tail[OF refl] by blast
    note l = loop_run[OF o(3,4,5) inj, where su = su]
    let ?mid = "run_writes w ss ?loop st1"
    have mid: "trust w ss ?items (mode = FullSync) {} ?mid" using l[of 0] by simp
    have unheld: "it_path i \<in> set (map it_path (admitted su listed)) \<and> it_path i \<notin> set (su_held_later su)"
      if "i \<in> ?items" for i
      using that assms(5) by (auto simp: admitted_def same_archive_def)
    note f = finish_run_trust[OF mid unheld, where changed = changed and ?st3.0 = st3 and outcome = outcome and mode = mode]
    have e: "?fin = run_writes w ss tail ?mid" unfolding o(2) run_append o(1) by simp
    have entry: "entry_sha (map_of (artifacts ?mid) (it_path i)) = Some (pa_sha p)"
      if i: "i \<in> ?items" "current w ss i = Some p" for i p
    proof -
      obtain pr where pr: "pr \<in> set out" "pr_item pr = i" using tail[OF refl] i(1) by blast
      have honest: "honest w i" using assms(3) i(1) by (auto simp: admitted_def list_all_iff)
      have prep_i: "prepare_item w ss mode st1 (artifacts st1) i = Some pr" using prep[OF pr(1)] pr(2) by simp
      have "commits pr = Some p \<or> entry_sha (map_of (artifacts st1) (it_path i)) = Some (pa_sha p)"
        using assms(4) prepare_full[of w ss st1 "artifacts st1" i pr p]
          prepare_current[of w ss st1 "artifacts st1" i pr p] prep_i i(2) honest by auto
      then show ?thesis
      proof
        assume "commits pr = Some p"
        then show ?thesis using l[of 0] pr by (auto simp: path_of_def)
      next
        assume known: "entry_sha (map_of (artifacts st1) (it_path i)) = Some (pa_sha p)"
        show ?thesis
        proof (cases "it_path i \<in> committed out")
          case True
          then obtain pr' q where pr': "pr' \<in> set out" "commits pr' = Some q" "path_of pr' = it_path i"
            by (auto simp: committed_def)
          have "current w ss (pr_item pr') = Some q" "pr_item pr' \<in> ?items"
            using o(5) pr' by (auto simp: from_listing_def)
          moreover have "pr_item pr' = i"
            using inj pr'(3) calculation(2) i(1) by (auto simp: path_of_def dest: inj_onD)
          ultimately have "q = p" using i(2) by simp
          then show ?thesis using l[of 0] pr' by auto
        next
          case False
          then show ?thesis using l[of 0] known by simp
        qed
      qed
    qed
    have "map_of (artifacts ?fin) (it_path i) = map_of (artifacts ?mid) (it_path i)" if "i \<in> ?items" for i
      unfolding e t by (rule f(3)[OF _ that])
    then have entries: "\<forall>i \<in> ?items. \<forall>p. current w ss i = Some p \<longrightarrow>
        entry_sha (map_of (artifacts ?fin) (it_path i)) = Some (pa_sha p)"
      using entry by simp
    have "trust w ss ?items False {} ?fin" unfolding e t by (rule f(2)) simp_all
    then show ?thesis using entries unfolding e t by (simp add: finish_run_saved)
  qed
  then show "indexed_as_current w ss (admitted su listed) ?fin" "sound w ss ?items False ?fin"
    by (auto simp: indexed_as_current_def list_all_iff trust_def claims_ok_def saved_manifest_def
        intro: trust_sound split: option.splits)
qed

end
