(* ===== verification/SyncClaims.thy ===== *)
theory SyncClaims
  imports SyncRecovery
begin

text \<open>
  The properties of a pass over a source, from the lemmas of \<open>SyncRecovery\<close>, and what the model
  showed of interrupted full passes.
\<close>

section \<open>A pass that nothing stops finishes\<close>

definition undisturbed :: "'b world \<Rightarrow> surroundings \<Rightarrow> sync_item list \<Rightarrow> bool" where
  "undisturbed w su items \<longleftrightarrow> (\<forall>k. su_check su k = None) \<and>
     list_all (\<lambda>i. read_item w i \<noteq> ConnectorUnavailable) items \<and>
     (items = [] \<or> list_ex (\<lambda>i. case read_item w i of ReadError _ \<Rightarrow> False | _ \<Rightarrow> True) items)"

lemma prepare_available:
  "read_item w i \<noteq> ConnectorUnavailable \<Longrightarrow> \<exists>pr. prepare_item w ss mode st known i = Some pr"
  by (auto simp: prepare_item_def Let_def split: option.split read_result.split)

lemma prepare_readable:
  "prepare_item w ss mode st known i = Some pr \<Longrightarrow> (\<And>msg. read_item w i \<noteq> ReadError msg) \<Longrightarrow> pr_read_error pr = None"
  by (auto simp: prepare_item_def decide_before_read_def prepared_of_def Let_def
      split: if_splits option.splits read_result.splits)

lemma prepare_until_available:
  "list_all (\<lambda>i. read_item w i \<noteq> ConnectorUnavailable) items \<Longrightarrow>
   \<exists>ps. prepare_until (prepare_item w ss mode st known) items = (ps, False)"
proof (induction items)
  case (Cons i items)
  then obtain ps where "prepare_until (prepare_item w ss mode st known) items = (ps, False)" by auto
  then show ?case using prepare_available[of w i ss mode st known] Cons.prems by (auto split: prod.split)
qed simp

lemma cancellable_never:
  "(\<And>k. check k = None) \<Longrightarrow> cancellable check identity k items processed = (items, processed \<union> identity ` set items, [])"
  by (induction items arbitrary: k processed) auto

lemma unreadable_count:
  "length (pc_unreadable (count_pass out)) = length (filter (\<lambda>pr. pr_read_error pr \<noteq> None) out)"
  by (induction out) (auto simp: count_pass_def split: option.splits)

lemma pass_finishes:
  assumes "undisturbed w su (admitted su listed)"
  shows "\<exists>writes outcome counts removed.
    index_pass w ss su mode listed st0 = (writes, Finished outcome counts removed)"
proof -
  let ?items = "admitted su listed"
  let ?st1 = "run_writes w ss (opening_writes mode) st0"
  obtain ps where ps: "prepare_until (prepare_item w ss mode ?st1 (artifacts ?st1)) ?items = (ps, False)"
    using prepare_until_available assms by (metis undisturbed_def)
  note p = prepare_until_items[OF ps]
  have canc: "cancellable (su_check su) (\<lambda>pr. it_identity (pr_item pr)) 0 ps {} =
      (ps, (\<lambda>pr. it_identity (pr_item pr)) ` set ps, [])"
    by (subst cancellable_never) (use assms in \<open>auto simp: undisturbed_def\<close>)
  have some: "\<not> (pc_unreadable (count_pass ps) \<noteq> [] \<and> length (pc_unreadable (count_pass ps)) = length ?items)"
  proof (cases "?items = []")
    case True
    then show ?thesis using p unreadable_count[of ps] by auto
  next
    case False
    then obtain i where i: "i \<in> set ?items" "\<And>msg. read_item w i \<noteq> ReadError msg"
      using assms by (auto simp: undisturbed_def list_ex_iff split: read_result.splits)
    have "map pr_item ps = ?items" using p by simp
    then obtain pr where pr: "pr \<in> set ps" "pr_item pr = i" using i(1) by (metis imageE set_map)
    have "pr_read_error pr = None" by (rule prepare_readable[OF _ i(2)]) (use p pr in blast)
    then have "length (filter (\<lambda>pr. pr_read_error pr \<noteq> None) ps) < length ps"
      using pr(1) by (intro length_filter_less) auto
    then show ?thesis using p by (simp add: unreadable_count)
  qed
  have "\<exists>outcome counts removed. snd (index_pass w ss su mode listed st0) = Finished outcome counts removed"
    unfolding index_pass_def Let_def admitted_def[symmetric] ps canc prod.case
    using some by (simp only: if_False simp_thms prod.case snd_conv pass_result.inject) blast
  then show ?thesis by (metis prod.collapse)
qed

section \<open>The configuration does not change\<close>

definition config_same :: "sync_settings \<Rightarrow> sync_state \<Rightarrow> bool" where
  "config_same ss st \<longleftrightarrow> map_of (fingerprints st) (SOURCE_SCOPE (ss_source ss)) \<in> {None, Some (ss_fingerprint ss)}"

lemma source_scope_differs [simp]:
  "SOURCE_SCOPE name \<noteq> ENRICH_DIRTY_SCOPE name'" "ENRICH_DIRTY_SCOPE name' \<noteq> SOURCE_SCOPE name"
  by (simp_all add: SOURCE_SCOPE_def ENRICH_DIRTY_SCOPE_def)

lemma config_same_effective: "config_same ss st \<Longrightarrow> effective_mode ss mode resume st = mode"
  by (auto simp: config_same_def effective_mode_def Let_def)

lemma config_same_write: "config_same ss st \<Longrightarrow> config_same ss (do_write w ss wr st)"
  by (cases wr)
    (auto simp: config_same_def set_fingerprint_def clear_fingerprint_def update_conv' delete_conv'
      restrict_map_def Let_def split: prod.split option.split)

lemma config_same_run: "config_same ss st \<Longrightarrow> config_same ss (run_writes w ss writes st)"
  by (induction writes arbitrary: st) (simp_all add: config_same_write)

lemma config_same_crash: "config_same ss st \<Longrightarrow> config_same ss (crash_after k w ss su mode resume st)"
  using config_same_run[of ss st w] by (simp add: crash_after_def reboot_def config_same_def)

lemma sync_pass_listed:
  assumes "su_listing su = Listed listed" and "effective_mode ss mode resume st \<noteq> ValidateOnly"
  shows "sync_pass w ss su mode resume st = index_pass w ss su (effective_mode ss mode resume st) listed st"
  using assms by (simp add: sync_pass_def Let_def)

definition over_listing :: "sync_item list \<Rightarrow> string list \<Rightarrow> surroundings \<Rightarrow> bool" where
  "over_listing listed held su \<longleftrightarrow> su_listing su = Listed listed \<and> same_archive held su"

section \<open>A small source\<close>

definition demo_chunk_of :: "string \<Rightarrow> text_chunk" where
  "demo_chunk_of t = \<lparr>tc_index = 0, tc_text = t, tc_start_line = 1, tc_end_line = 1, tc_heading_path = None\<rparr>"

definition demo_file :: "string \<Rightarrow> sync_item" where
  "demo_file path = \<lparr>it_identity = path, it_path = path, it_sha = None, it_member = []\<rparr>"

definition demo_world :: "string world" where
  "demo_world = \<lparr>read_item = (\<lambda>i. Payload (''text of '' @ it_path i) None), sha256_bytes = (\<lambda>c. CHR ''#'' # c),
     readable_type = (\<lambda>_. True), chunks_of = (\<lambda>_ c. [demo_chunk_of c]), terms_of = (\<lambda>_. [''term'']),
     symbols_of = (\<lambda>_. []), add_artifact = (\<lambda>p. add_node (pa_id p) []), link_graph = (\<lambda>_ g. g),
     blank_graph = empty_graph\<rparr>"

definition demo_settings :: sync_settings where
  "demo_settings = \<lparr>ss_source = ''docs'', ss_kb = ''kb'', ss_branch = None, ss_denylist = [''*.key''],
     ss_complete_listing = True, ss_deferred = False, ss_fingerprint = ''fp''\<rparr>"

definition demo_files :: "sync_item list" where
  "demo_files = [demo_file ''a.txt'', demo_file ''b.txt'', demo_file ''c.key'']"

definition demo_around :: surroundings where
  "demo_around = \<lparr>su_listing = Listed demo_files, su_held = [], su_held_later = [], su_check = (\<lambda>_. None),
     su_due = (\<lambda>path. if path = ''a.txt'' then Due else NotDue), su_partial = None, su_health = ''ok''\<rparr>"

definition demo_disk :: sync_state where
  "demo_disk = \<lparr>db = \<lparr>st_artifacts = [\<lparr>ar_id = ''file:docs:a.txt:branch=none'', ar_source = ''docs'',
        ar_path = ''a.txt'', ar_branch = None, ar_sha = ''old'', ar_status = ''indexed''\<rparr>],
       st_chunks_fts = [], st_chunks = [], st_symbols = [], st_terms = []\<rparr>,
     saved_graph = empty_graph, manifest_row = Some [(''a.txt'', \<lparr>me_sha = Some ''old'',
       me_artifact = ''file:docs:a.txt:branch=none'', me_branch = None\<rparr>)], fingerprints = [],
     source_status = None, working_graph = empty_graph, graph_loaded = False, artifacts = []\<rparr>"

lemma demo_hypotheses:
  "over_listing demo_files [] demo_around" "distinct (map it_path demo_files)"
  "list_all (honest demo_world) demo_files" "config_same demo_settings demo_disk"
  "undisturbed demo_world demo_around (admitted demo_around demo_files)"
  by (simp_all add: over_listing_def same_archive_def demo_around_def demo_files_def demo_file_def
      honest_def demo_world_def config_same_def demo_disk_def undisturbed_def admitted_def)

lemma demo_ids: "artifact_id demo_settings path = ''file:docs:'' @ path @ '':branch=none''"
  by (simp add: artifact_id_def demo_settings_def)

lemma demo_sound: "sound demo_world demo_settings {i \<in> set demo_files. it_path i \<notin> set []} False demo_disk"
proof -
  have ok: "db_ok demo_settings (db demo_disk)"
    by (auto simp: db_ok_def keyed_def demo_disk_def demo_ids)
      (simp_all add: demo_settings_def Cons_eq_append_conv append_eq_Cons_conv)
  have "entry_sha (map_of (saved_manifest demo_disk) (it_path i)) \<noteq> Some (pa_sha p)"
    if "i \<in> set demo_files" "current demo_world demo_settings i = Some p" for i p
    using that by (auto simp: demo_files_def demo_file_def current_def demo_world_def parse_connector_payload_def content_hash_def
        saved_manifest_def demo_disk_def entry_sha_def str_or_def split: if_splits option.splits)
  then show ?thesis using ok by (simp add: sound_def claims_ok_def)
qed

section \<open>Crashed passes\<close>

text \<open>The disk after passes that each died after some of their writes\<close>

definition crashes ::
  "'b world \<Rightarrow> sync_settings \<Rightarrow> (nat \<times> surroundings) list \<Rightarrow> sync_state \<Rightarrow> sync_state" where
  "crashes w ss crashed st = fold (\<lambda>(k, su). crash_after k w ss su Incremental False) crashed st"

lemma admitted_same: "over_listing listed held su \<Longrightarrow> admitted su listed = filter (\<lambda>i. it_path i \<notin> set held) listed"
  by (simp add: over_listing_def same_archive_def admitted_def)

lemma crash_after_sound:
  assumes "over_listing listed held su" and "distinct (map it_path listed)"
    and "effective_mode ss mode resume st = mode" and "mode = Incremental \<or> mode = FullSync"
    and "sound w ss {i \<in> set listed. it_path i \<notin> set held} (mode = FullSync) st"
  shows "sound w ss {i \<in> set listed. it_path i \<notin> set held} (mode = FullSync) (crash_after k w ss su mode resume st)"
proof -
  have items: "set (admitted su listed) = {i \<in> set listed. it_path i \<notin> set held}"
    by (auto simp: admitted_same[OF assms(1)])
  obtain writes result where pass: "index_pass w ss su mode listed st = (writes, result)" by force
  have "sync_pass w ss su mode resume st = (writes, result)"
    using sync_pass_listed[of su listed ss mode resume st w] assms(1,3,4) pass
    by (auto simp: over_listing_def)
  then show ?thesis
    using crash_sound[OF pass assms(2,4), of held k] assms(1,5)
    by (simp add: crash_after_def items over_listing_def)
qed

lemma crashes_sound:
  assumes "list_all (\<lambda>(k, su). over_listing listed held su) crashed" and "distinct (map it_path listed)"
    and "config_same ss st" and "sound w ss {i \<in> set listed. it_path i \<notin> set held} False st"
  shows "sound w ss {i \<in> set listed. it_path i \<notin> set held} False (crashes w ss crashed st) \<and>
    config_same ss (crashes w ss crashed st)"
  using assms(1,3,4)
proof (induction crashed arbitrary: st)
  case Nil
  then show ?case by (simp add: crashes_def)
next
  case (Cons c crashed)
  obtain k su where c: "c = (k, su)" by force
  let ?st = "crash_after k w ss su Incremental False st"
  have "sound w ss {i \<in> set listed. it_path i \<notin> set held} False ?st"
    using crash_after_sound[of listed held su ss Incremental False st w k] Cons.prems assms(2)
    by (simp add: c config_same_effective)
  then show ?case
    using Cons.IH[of ?st] Cons.prems config_same_crash[of ss st k w su Incremental False]
    by (simp add: crashes_def c)
qed

lemma finished_sync:
  assumes "over_listing listed held su" and "distinct (map it_path listed)" and "list_all (honest w) listed"
    and "undisturbed w su (admitted su listed)"
    and "effective_mode ss requested resume st = mode" and "mode = Incremental \<or> mode = FullSync"
    and "db_ok ss (db st)"
    and "mode = Incremental \<Longrightarrow> sound w ss {i \<in> set listed. it_path i \<notin> set held} False st"
  shows "\<exists>outcome counts removed st'. sync_source w ss su requested resume st = (Finished outcome counts removed, st') \<and>
    indexed_as_current w ss (admitted su listed) st'"
proof -
  have items: "set (admitted su listed) = {i \<in> set listed. it_path i \<notin> set held}"
    by (auto simp: admitted_same[OF assms(1)])
  obtain writes outcome counts removed where
    pass: "index_pass w ss su mode listed st = (writes, Finished outcome counts removed)"
    using pass_finishes[OF assms(4), of ss mode st] by blast
  have "sync_pass w ss su requested resume st = (writes, Finished outcome counts removed)"
    using sync_pass_listed[of su listed ss requested resume st w] assms(1,5,6) pass
    by (auto simp: over_listing_def)
  moreover have "indexed_as_current w ss (admitted su listed) (run_writes w ss writes st)"
    by (rule finished_indexed(1)[OF pass assms(2,3,6), of held]) (use assms(1,7,8) items in \<open>auto simp: over_listing_def\<close>)
  ultimately show ?thesis by (auto simp: sync_source_def)
qed



section \<open>Interrupted full passes\<close>

definition task_crash ::
  "nat \<Rightarrow> 'b world \<Rightarrow> sync_settings \<Rightarrow> surroundings \<Rightarrow> nat \<Rightarrow> sync_state \<Rightarrow> sync_state" where
  "task_crash k w ss su attempts st =
     (let resume = resumes_full ss FullSync attempts st
      in crash_after k w ss su (if resume then Incremental else FullSync) resume st)"

fun crashed_attempts ::
  "'b world \<Rightarrow> sync_settings \<Rightarrow> nat \<Rightarrow> (nat \<times> surroundings) list \<Rightarrow> sync_state \<Rightarrow> sync_state" where
  "crashed_attempts w ss n [] st = st"
| "crashed_attempts w ss n ((k, su) # crashed) st =
     crashed_attempts w ss (Suc n) crashed (task_crash k w ss su n st)"

lemma resumed_sound:
  assumes "sound w ss items True st" and "resumes_full ss FullSync attempts st"
  shows "sound w ss items False st"
  using assms by (auto simp: sound_def resumes_full_def clearing_def)

lemma sound_weaken: "sound w ss items False st \<Longrightarrow> sound w ss items G st"
  by (auto simp: sound_def)

lemma effective_resume [simp]:
  "effective_mode ss Incremental True st = Incremental" "effective_mode ss FullSync resume st = FullSync"
  by (simp_all add: effective_mode_def Let_def)

lemma task_crash_sound:
  assumes "over_listing listed held su" and "distinct (map it_path listed)"
    and "sound w ss {i \<in> set listed. it_path i \<notin> set held} True st"
  shows "sound w ss {i \<in> set listed. it_path i \<notin> set held} True (task_crash k w ss su attempts st)"
proof (cases "resumes_full ss FullSync attempts st")
  case True
  from crash_after_sound[OF assms(1,2), of ss Incremental True st w k] resumed_sound[OF assms(3) True]
  show ?thesis using True sound_weaken by (fastforce simp: task_crash_def)
next
  case False
  from crash_after_sound[OF assms(1,2), of ss FullSync False st w k] assms(3)
  show ?thesis using False by (simp add: task_crash_def)
qed

lemma crashed_attempts_sound:
  assumes "distinct (map it_path listed)"
  shows "list_all (\<lambda>(k, su). over_listing listed held su) crashed \<Longrightarrow>
    sound w ss {i \<in> set listed. it_path i \<notin> set held} True st \<Longrightarrow>
    sound w ss {i \<in> set listed. it_path i \<notin> set held} True (crashed_attempts w ss n crashed st)"
  by (induction w ss n crashed st rule: crashed_attempts.induct)
    (auto intro: task_crash_sound[OF _ assms])




section \<open>What an interrupted full pass leaves to an incremental one\<close>

text \<open>
  The phase of an interrupted full pass is read by \<open>_apply_index_task\<close> alone. An incremental pass
  that comes first, from the scheduler or a restart, reads the manifest the full pass had not yet
  replaced, skips every file as unchanged, and calls the emptied source healthy.
\<close>

definition demo_indexed :: sync_state where
  "demo_indexed = snd (sync_source demo_world demo_settings demo_around Incremental False demo_disk)"

definition demo_cleared :: sync_state where
  "demo_cleared = crash_after 6 demo_world demo_settings demo_around FullSync False demo_indexed"

lemma incremental_after_cleared_loses:
  "map ar_path (st_artifacts (db demo_indexed)) = [''a.txt'', ''b.txt''] \<and>
   (case sync_source demo_world demo_settings demo_around Incremental False demo_cleared of
      (result, st) \<Rightarrow> source_status st = Some ''healthy'' \<and> st_artifacts (db st) = [] \<and>
        map fst (saved_manifest st) = [''a.txt'', ''b.txt''])"
  by code_simp

text \<open>
  So does a full pass in which nothing can be read: it raises only after the source was cleared.
\<close>

lemma unreadable_full_loses:
  "(case sync_source (demo_world\<lparr>read_item := (\<lambda>_. ReadError ''timeout'')\<rparr>)
        (demo_settings\<lparr>ss_denylist := []\<rparr>) demo_around FullSync False demo_indexed of
      (result, st) \<Rightarrow> result = Raised ''RuntimeError'' \<and> st_artifacts (db st) = [] \<and>
        st_artifacts (db (snd (sync_source demo_world demo_settings demo_around Incremental False
          (reboot demo_world st)))) = [])"
  by code_simp

text \<open>
  And an incremental pass that indexes one new file and checkpoints marks the interrupted full pass
  as resumable, so that even its retry from the queue is incremental and skips what was cleared.
\<close>

definition demo_more :: surroundings where
  "demo_more = demo_around\<lparr>su_listing := Listed (demo_files @ [demo_file ''d.txt'']),
     su_due := (\<lambda>path. if path = ''d.txt'' then Due else NotDue)\<rparr>"

lemma checkpoint_spoils_resume:
  "map ar_path (st_artifacts (db (snd (apply_index_task demo_world demo_settings demo_more FullSync 2
     (reboot demo_world (snd (sync_source demo_world demo_settings demo_more Incremental False demo_cleared))))))) =
   [''d.txt'']"
  by code_simp

text \<open>
  Enrichment that was deferred runs in the next pass and its mark is cleared, but a pass with
  nothing new to index does not save the graph: what the enrichment added is gone at a restart.
\<close>

lemma pending_enrichment_unsaved:
  "(let w = demo_world\<lparr>link_graph := (\<lambda>s. add_node s [])\<rparr>;
        st = snd (sync_source w (demo_settings\<lparr>ss_deferred := True\<rparr>) demo_around Incremental False demo_disk);
        st' = snd (sync_source w demo_settings demo_around Incremental False (reboot w st))
    in map_of (fingerprints st) (ENRICH_DIRTY_SCOPE ''docs'') = Some ''1'' \<and>
       map_of (fingerprints st') (ENRICH_DIRTY_SCOPE ''docs'') = None \<and>
       has_node (working_graph st') ''docs'' \<and> \<not> has_node (saved_graph st') ''docs'')"
  by code_simp

end
