(* ===== verification/SyncFull.thy ===== *)
theory SyncFull
  imports SyncClaims
begin

text \<open>
  What a full pass leaves of a source and of the others, and the order in which a pass publishes
  its graph and its manifest.
\<close>

section \<open>What a full pass leaves\<close>

text \<open>The rows of the source are of some artifacts only, and the other sources keep theirs.\<close>

definition only_rows :: "string \<Rightarrow> artifact_row set \<Rightarrow> indexed_row kb_state \<Rightarrow> bool" where
  "only_rows source S d \<longleftrightarrow> (\<forall>r \<in> set (st_artifacts d). ar_source r = source \<longrightarrow> r \<in> S)"

definition other_rows :: "string \<Rightarrow> indexed_row kb_state \<Rightarrow> artifact_row list" where
  "other_rows source d = filter (\<lambda>r. ar_source r \<noteq> source) (st_artifacts d)"

lemma other_rows_filter:
  assumes "\<And>r. r \<in> set xs \<Longrightarrow> ar_source r \<noteq> source \<Longrightarrow> Q r"
  shows "filter (\<lambda>r. ar_source r \<noteq> source) (filter Q xs) = filter (\<lambda>r. ar_source r \<noteq> source) xs"
  using assms by (induction xs) auto

lemma chunks_other_rows:
  fixes fresh :: bool
  assumes "db_ok ss d" and "of_pass ss p" and "artifact_row_of p \<in> S"
  defines "d' \<equiv> replace_artifact_chunks (artifact_row_of p) (chunk_rows_of p) fresh d"
  shows "only_rows (ss_source ss) S d \<Longrightarrow> only_rows (ss_source ss) S d'"
    and "other_rows (ss_source ss) d' = other_rows (ss_source ss) d"
proof -
  let ?f = "\<lambda>old. old\<lparr>ar_path := pa_path p, ar_branch := pa_branch p, ar_sha := pa_sha p, ar_status := ''indexed''\<rparr>"
  have form: "st_artifacts d' = tbl_upsert ar_id (artifact_row_of p) (\<lambda>_. True) ?f (st_artifacts d)"
    by (simp add: d'_def replace_artifact_chunks_def Let_def artifact_row_of_def)
  have mine: "ar_source (artifact_row_of p) = ss_source ss"
    using assms(2) by (simp add: artifact_row_of_def of_pass_def)
  have own: "ar_source r = ss_source ss" if "r \<in> set (st_artifacts d)" "ar_id r = pa_id p" for r
    using assms(1,2) that by (auto simp: db_ok_def of_pass_def)
  have same: "?f r = artifact_row_of p" if "r \<in> set (st_artifacts d)" "ar_id r = pa_id p" for r
    using own[OF that] that assms(2) by (cases r) (auto simp: artifact_row_of_def of_pass_def)
  have subset: "set (st_artifacts d') \<subseteq> insert (artifact_row_of p) (set (st_artifacts d))"
    using same by (auto simp: form tbl_upsert_def tbl_update_def)
  then show "only_rows (ss_source ss) S d \<Longrightarrow> only_rows (ss_source ss) S d'"
    using assms(3) by (auto simp: only_rows_def)
  have "filter (\<lambda>r. ar_source r \<noteq> ss_source ss) (tbl_update (\<lambda>r. ar_id r = pa_id p) ?f xs) =
      filter (\<lambda>r. ar_source r \<noteq> ss_source ss) xs" if "set xs \<subseteq> set (st_artifacts d)" for xs
    using that own by (induction xs) (auto simp: tbl_update_def)
  from this[of "st_artifacts d"] show "other_rows (ss_source ss) d' = other_rows (ss_source ss) d"
    using mine by (simp add: other_rows_def form tbl_upsert_def)
qed

definition writes_of :: "sync_settings \<Rightarrow> artifact_row set \<Rightarrow> sync_write \<Rightarrow> bool" where
  "writes_of ss S wr \<longleftrightarrow> (case wr of WriteChunks _ p \<Rightarrow> of_pass ss p \<and> artifact_row_of p \<in> S | _ \<Rightarrow> True)"

lemma without_rows:
  "only_rows source S d \<Longrightarrow> only_rows source S (without source' gone d)"
  by (auto simp: only_rows_def without_def Let_def)

lemma without_others:
  assumes "keyed ar_id (st_artifacts d)"
  shows "other_rows source (without source gone d) = other_rows source d"
proof -
  let ?ids = "set (map ar_id (filter (\<lambda>r. ar_source r = source \<and> gone (ar_path r)) (st_artifacts d)))"
  have "ar_id r \<notin> ?ids" if "r \<in> set (st_artifacts d)" "ar_source r \<noteq> source" for r
  proof
    assume "ar_id r \<in> ?ids"
    then obtain r' where "r' \<in> set (st_artifacts d)" "ar_source r' = source" "ar_id r = ar_id r'" by auto
    then show False using keyed_unique[OF assms that(1), of r'] that(2) by simp
  qed
  then show ?thesis
    unfolding other_rows_def without_def Let_def kb_state.simps by (rule other_rows_filter)
qed

lemma rows_step:
  assumes "writes_of ss S wr" and "db_ok ss (db st)" and "only_rows (ss_source ss) S (db st)"
  shows "db_ok ss (db (do_write w ss wr st)) \<and> only_rows (ss_source ss) S (db (do_write w ss wr st)) \<and>
    other_rows (ss_source ss) (db (do_write w ss wr st)) = other_rows (ss_source ss) (db st)"
proof -
  have ids: "\<forall>r \<in> set (st_artifacts (db st)). ar_id r \<noteq> []" and keyed: "keyed ar_id (st_artifacts (db st))"
    using assms(2) by (simp_all add: db_ok_def)
  show ?thesis
  proof (cases wr)
    case (WriteChunks fresh p)
    then show ?thesis
      using assms chunks_other_rows[OF assms(2), of p S fresh] replace_chunks_artifacts(1)[OF assms(2), of p fresh]
      by (simp add: writes_of_def Let_def)
  next
    case (PruneArchived held)
    obtain n known d g where form: "archived_prune held (ss_source ss) (artifacts st) (db st) (loaded_graph w st) = (n, known, d, g)"
      by (metis prod_cases4)
    have "db (do_write w ss wr st) = without (ss_source ss) (\<lambda>path. path \<in> set held) (db st)"
      using form archived_prune_form(1,3)[OF ids form] by (auto simp: PruneArchived)
    then show ?thesis using assms(2,3) by (simp add: db_ok_without without_rows without_others[OF keyed])
  next
    case (PruneVanished listed)
    obtain n known d g where form: "prune_vanished (ss_complete_listing ss) (ss_source ss) listed (artifacts st)
        (db st) (loaded_graph w st) = (n, known, d, g)"
      by (metis prod_cases4)
    let ?gone = "\<lambda>path. ss_complete_listing ss \<and> listed \<noteq> [] \<and> path \<notin> set listed \<and> map_of (artifacts st) path \<noteq> None"
    have "db (do_write w ss wr st) \<in> {db st, without (ss_source ss) ?gone (db st)}"
      using form prune_vanished_form(1)[OF ids form] by (simp add: PruneVanished)
    then show ?thesis using assms(2,3)
      by (auto simp: db_ok_without without_rows without_others[OF keyed])
  next
    case ClearSourceRows
    then show ?thesis using assms(3) cleared_db(1)[OF assms(2)]
      by (auto simp: only_rows_def other_rows_def delete_source_artifacts_def Let_def)
  qed (use assms in \<open>auto simp: Let_def db_ok_def only_rows_def other_rows_def set_fingerprint_def
      clear_fingerprint_def split: option.split\<close>)
qed

lemma rows_run:
  "list_all (writes_of ss S) writes \<Longrightarrow> db_ok ss (db st) \<Longrightarrow> only_rows (ss_source ss) S (db st) \<Longrightarrow>
   only_rows (ss_source ss) S (db (run_writes w ss writes st)) \<and>
   other_rows (ss_source ss) (db (run_writes w ss writes st)) = other_rows (ss_source ss) (db st)"
proof (induction writes arbitrary: st)
  case (Cons wr writes)
  then show ?case using rows_step[of ss S wr st w] by (simp del: do_write.simps)
qed simp

lemma calm_writes_of: "list_all calm writes \<Longrightarrow> list_all (writes_of ss S) writes"
proof (induction writes)
  case (Cons wr writes)
  then show ?case by (cases wr) (simp_all add: calm_def quiet_def writes_of_def)
qed simp

lemma finish_run_writes_of: "list_all (writes_of ss S) (finish_run ss su mode listed changed st3 outcome)"
proof -
  obtain before where fin: "finalize_writes ss mode changed st3 = before @ [SaveManifestRow]" "list_all quiet before"
    using finalize_split by blast
  show ?thesis
    using calm_writes_of[OF calm_of_quiet[OF fin(2)], of ss S]
    by (simp add: finish_run_def fin(1) writes_of_def)
qed

definition current_rows :: "'b world \<Rightarrow> sync_settings \<Rightarrow> sync_item list \<Rightarrow> artifact_row set" where
  "current_rows w ss items = {artifact_row_of p |p i. i \<in> set items \<and> current w ss i = Some p}"

lemma loop_writes_of:
  assumes "\<And>pr p. pr \<in> set out \<Longrightarrow> commits pr = Some p \<Longrightarrow> of_pass ss p \<and> artifact_row_of p \<in> S"
  shows "list_all (writes_of ss S) (concat (map (commit_writes su fresh) out))"
  using assms
  by (induction out)
    (auto simp: commit_writes_def checkpoint_writes_def writes_of_def split: option.split checkpoint_due.split)

lemma full_pass_rows:
  assumes "index_pass w ss su FullSync listed st0 = (writes, result)" and "distinct (map it_path listed)"
    and "db_ok ss (db st0)"
  shows "only_rows (ss_source ss) (current_rows w ss (admitted su listed)) (db (run_writes w ss writes st0))"
    and "other_rows (ss_source ss) (db (run_writes w ss writes st0)) = other_rows (ss_source ss) (db st0)"
proof -
  let ?S = "current_rows w ss (admitted su listed)"
  let ?st1 = "run_writes w ss (opening_writes FullSync) st0"
  have "only_rows (ss_source ss) ?S (db (run_writes w ss writes st0)) \<and>
      other_rows (ss_source ss) (db (run_writes w ss writes st0)) = other_rows (ss_source ss) (db st0)"
  proof (rule index_pass_form[OF assms(1,2)])
    fix out tail
    assume o: "writes = opening_writes FullSync @ concat (map (commit_writes su (FullSync = FullSync)) out) @ tail"
      and prep: "\<And>pr. pr \<in> set out \<Longrightarrow> pr_item pr \<in> set (admitted su listed) \<and>
        prepare_item w ss FullSync ?st1 (artifacts ?st1) (pr_item pr) = Some pr"
      and tail: "list_all calm tail \<or> (\<exists>changed st3 outcome.
        tail = finish_run ss su FullSync (map it_path (admitted su listed)) changed st3 outcome)"
    have "list_all (writes_of ss UNIV) (opening_writes FullSync)"
      by (simp add: opening_writes_def clearing_writes_def writes_of_def)
    from rows_run[OF this assms(3), of w]
    have others: "other_rows (ss_source ss) (db ?st1) = other_rows (ss_source ss) (db st0)"
      by (simp add: only_rows_def del: run_Cons)
    have dbs: "db ?st1 = snd (delete_source_artifacts (ss_source ss) (db st0))"
      by (simp add: opening_writes_def clearing_writes_def Let_def)
    have none: "only_rows (ss_source ss) ?S (db ?st1)" and ok: "db_ok ss (db ?st1)"
      unfolding dbs using cleared_db(1)[OF assms(3)]
      by (auto simp: only_rows_def delete_source_artifacts_def Let_def)
    have "of_pass ss p \<and> artifact_row_of p \<in> ?S" if "pr \<in> set out" "commits pr = Some p" for pr p
    proof -
      have c: "current w ss (pr_item pr) = Some p" using prepare_commits(1) prep[OF that(1)] that(2) by blast
      then have "of_pass ss p" by (rule current_parsed(1))
      then show ?thesis using c prep[OF that(1)] by (auto simp: current_rows_def)
    qed
    then have "list_all (writes_of ss ?S) (concat (map (commit_writes su (FullSync = FullSync)) out))"
      by (rule loop_writes_of)
    moreover have "list_all (writes_of ss ?S) tail"
      using tail calm_writes_of finish_run_writes_of by metis
    ultimately have "list_all (writes_of ss ?S) (concat (map (commit_writes su (FullSync = FullSync)) out) @ tail)"
      by simp
    from rows_run[OF this ok none, of w] show ?thesis unfolding o run_append[of _ _ "opening_writes _"] others .
  qed
  then show "only_rows (ss_source ss) ?S (db (run_writes w ss writes st0))"
    "other_rows (ss_source ss) (db (run_writes w ss writes st0)) = other_rows (ss_source ss) (db st0)" by blast+
qed



section \<open>The order of publication\<close>

text \<open>The published graph is one the artifact's nodes had been added to.\<close>

definition published :: "'b world \<Rightarrow> sync_settings \<Rightarrow> sync_state \<Rightarrow> sync_write list \<Rightarrow> parsed_artifact \<Rightarrow> bool" where
  "published w ss st0 hist p \<longleftrightarrow> (\<exists>j \<le> length hist. WriteGraph p \<in> set (take j hist) \<and>
     saved_graph (run_writes w ss hist st0) = working_graph (run_writes w ss (take j hist) st0))"

definition entry_of :: "parsed_artifact \<Rightarrow> manifest_entry" where
  "entry_of p = \<lparr>me_sha = Some (pa_sha p), me_artifact = pa_id p, me_branch = pa_branch p\<rparr>"

definition ahead_free ::
  "'b world \<Rightarrow> sync_settings \<Rightarrow> sync_state \<Rightarrow> sync_write list \<Rightarrow> bool" where
  "ahead_free w ss st0 hist \<longleftrightarrow>
     (\<forall>path e. map_of (saved_manifest (run_writes w ss hist st0)) path = Some e \<longrightarrow>
        map_of (saved_manifest st0) path = Some e \<or>
        (\<exists>p. pa_path p = path \<and> e = entry_of p \<and> published w ss st0 hist p))"

definition order_inv ::
  "'b world \<Rightarrow> sync_settings \<Rightarrow> sync_state \<Rightarrow> sync_write list \<Rightarrow> parsed_artifact list \<Rightarrow> parsed_artifact list \<Rightarrow> bool" where
  "order_inv w ss st0 hist U A \<longleftrightarrow>
     (\<forall>p \<in> set A. WriteGraph p \<in> set hist) \<and>
     (\<forall>p \<in> set A. p \<in> set U \<or> published w ss st0 hist p) \<and>
     (\<forall>path e. map_of (artifacts (run_writes w ss hist st0)) path = Some e \<longrightarrow>
        map_of (saved_manifest st0) path = Some e \<or> (\<exists>p \<in> set A. pa_path p = path \<and> e = entry_of p)) \<and>
     ahead_free w ss st0 hist"

lemma published_snoc:
  assumes "published w ss st0 hist p"
    and "saved_graph (do_write w ss wr (run_writes w ss hist st0)) = saved_graph (run_writes w ss hist st0)"
  shows "published w ss st0 (hist @ [wr]) p"
proof -
  obtain j where j: "j \<le> length hist" "WriteGraph p \<in> set (take j hist)"
    "saved_graph (run_writes w ss hist st0) = working_graph (run_writes w ss (take j hist) st0)"
    using assms(1) by (auto simp: published_def)
  then show ?thesis using assms(2)
    by (auto simp: published_def intro!: exI[of _ j] simp del: do_write.simps)
qed

lemma published_saved:
  "WriteGraph p \<in> set hist \<Longrightarrow> published w ss st0 (hist @ [SaveGraphRows]) p"
  by (auto simp: published_def intro!: exI[of _ "length hist"])

lemma prune_manifest_subset:
  "map_of (artifacts (do_write w ss (PruneArchived held) st)) path = Some e \<Longrightarrow> map_of (artifacts st) path = Some e"
  "map_of (artifacts (do_write w ss (PruneVanished listed) st)) path = Some e \<Longrightarrow> map_of (artifacts st) path = Some e"
  by (auto simp: archived_prune_def prune_vanished_def Let_def delete_keys split: if_splits prod.splits)

text \<open>What one write does to the published graph, the saved manifest and the manifest being built\<close>

lemma write_saves:
  "wr \<noteq> SaveGraphRows \<Longrightarrow> saved_graph (do_write w ss wr st) = saved_graph st"
  "wr \<noteq> SaveManifestRow \<Longrightarrow> saved_manifest (do_write w ss wr st) = saved_manifest st"
  "(\<And>p. wr \<noteq> NoteArtifact p) \<Longrightarrow> wr \<noteq> LoadManifest \<Longrightarrow>
     map_of (artifacts (do_write w ss wr st)) path = Some e \<Longrightarrow> map_of (artifacts st) path = Some e"
  subgoal by (cases wr) (auto simp: Let_def set_fingerprint_def clear_fingerprint_def ensure_graph_loaded_def
        split: prod.split)
  subgoal by (cases wr) (auto simp: saved_manifest_def Let_def set_fingerprint_def clear_fingerprint_def
        ensure_graph_loaded_def split: prod.split)
  subgoal
    by (cases wr) (auto simp: Let_def set_fingerprint_def clear_fingerprint_def
        simp del: do_write.simps(10,11) dest: prune_manifest_subset split: if_splits)
  done

lemma order_inv_step:
  assumes "order_inv w ss st0 hist U A" and "order_ok U A (wr # writes)" and "wr \<noteq> LoadManifest"
  obtains U' A' where "order_inv w ss st0 (hist @ [wr]) U' A'" and "order_ok U' A' writes"
proof -
  let ?st = "run_writes w ss hist st0"
  note inv = assms(1)[unfolded order_inv_def]
  have later: "WriteGraph p \<in> set (hist @ [wr])" if "WriteGraph p \<in> set hist" for p using that by simp
  show ?thesis
  proof (cases "wr = SaveGraphRows")
    case True
    have all: "published w ss st0 (hist @ [wr]) p" if "p \<in> set A" for p
      unfolding True by (rule published_saved) (use inv that in blast)
    have kept: "published w ss st0 (hist @ [wr]) p" if "published w ss st0 hist p" for p
      unfolding True by (rule published_saved) (use that in \<open>auto simp: published_def dest: in_set_takeD\<close>)
    have same: "artifacts (run_writes w ss (hist @ [wr]) st0) = artifacts ?st"
      "saved_manifest (run_writes w ss (hist @ [wr]) st0) = saved_manifest ?st"
      by (simp_all add: True saved_manifest_def)
    have "ahead_free w ss st0 (hist @ [wr])"
      unfolding ahead_free_def same using inv[unfolded ahead_free_def] kept by blast
    then have "order_inv w ss st0 (hist @ [wr]) [] A"
      unfolding order_inv_def same using inv all by auto
    then show ?thesis using that assms(2) True by simp
  next
    case other: False
    have kept: "published w ss st0 (hist @ [wr]) p" if "published w ss st0 hist p" for p
      by (rule published_snoc[OF that write_saves(1)[OF other]])
    show ?thesis
    proof (cases "wr = SaveManifestRow")
      case True
      have "U = []" "order_ok [] A writes" using assms(2) True by auto
      moreover have "order_inv w ss st0 (hist @ [wr]) [] A"
      proof -
        have same: "artifacts (run_writes w ss (hist @ [wr]) st0) = artifacts ?st"
          "saved_manifest (run_writes w ss (hist @ [wr]) st0) = artifacts ?st"
          by (simp_all add: True saved_manifest_def)
        have pub: "published w ss st0 (hist @ [wr]) p" if "p \<in> set A" for p
          using inv kept that calculation(1) by auto
        have "ahead_free w ss st0 (hist @ [wr])"
          unfolding ahead_free_def same using inv pub by blast
        then show ?thesis unfolding order_inv_def same using inv pub by auto
      qed
      ultimately show ?thesis using that by blast
    next
      case saves: False
      have ahead: "ahead_free w ss st0 (hist @ [wr])"
        using inv kept write_saves(2)[OF saves, of w ss ?st]
        unfolding ahead_free_def by (simp del: do_write.simps) blast
      show ?thesis
      proof (cases "\<exists>p. wr = NoteArtifact p")
        case True
        then obtain p where wr: "wr = NoteArtifact p" by blast
        then have p: "p \<in> set A" "order_ok U A writes" using assms(2) by simp_all
        have "order_inv w ss st0 (hist @ [wr]) U A"
          unfolding order_inv_def using inv p(1) kept ahead
          by (auto simp: wr update_conv' entry_of_def split: if_splits)
        then show ?thesis using that p(2) by blast
      next
        case False
        have arts: "map_of (artifacts (run_writes w ss (hist @ [wr]) st0)) path = Some e \<Longrightarrow>
            map_of (artifacts ?st) path = Some e" for path e
          using write_saves(3)[of wr w ss ?st path e] False assms(3) by (auto simp del: do_write.simps)
        show ?thesis
        proof (cases "\<exists>p. wr = WriteGraph p")
          case True
          then obtain p where wr: "wr = WriteGraph p" by blast
          have "order_inv w ss st0 (hist @ [wr]) (p # U) (p # A)"
            unfolding order_inv_def
          proof (intro conjI ballI allI impI)
            fix path e
            assume "map_of (artifacts (run_writes w ss (hist @ [wr]) st0)) path = Some e"
            then show "map_of (saved_manifest st0) path = Some e \<or> (\<exists>q \<in> set (p # A). pa_path q = path \<and> e = entry_of q)"
              using arts inv by (metis list.set_intros(2))
          qed (use inv kept ahead wr in auto)
          then show ?thesis using that assms(2) wr by simp
        next
          case graph: False
          have "order_inv w ss st0 (hist @ [wr]) U A"
            unfolding order_inv_def
          proof (intro conjI ballI allI impI)
            fix path e
            assume "map_of (artifacts (run_writes w ss (hist @ [wr]) st0)) path = Some e"
            then show "map_of (saved_manifest st0) path = Some e \<or> (\<exists>q \<in> set A. pa_path q = path \<and> e = entry_of q)"
              using arts inv by metis
          qed (use inv kept ahead in auto)
          moreover have "order_ok U A writes"
            using assms(2) other saves False graph by (cases wr) auto
          ultimately show ?thesis using that by blast
        qed
      qed
    qed
  qed
qed

lemma order_inv_run:
  "order_inv w ss st0 hist U A \<Longrightarrow> order_ok U A writes \<Longrightarrow> LoadManifest \<notin> set writes \<Longrightarrow>
   ahead_free w ss st0 (hist @ take k writes)"
proof (induction writes arbitrary: hist U A k)
  case Nil
  then show ?case by (simp add: order_inv_def)
next
  case (Cons wr writes)
  show ?case
  proof (cases k)
    case 0
    then show ?thesis using Cons.prems(1) by (simp add: order_inv_def)
  next
    case (Suc j)
    have "wr \<noteq> LoadManifest" using Cons.prems(3) by auto
    then obtain U' A' where "order_inv w ss st0 (hist @ [wr]) U' A'" "order_ok U' A' writes"
      using order_inv_step[OF Cons.prems(1,2)] by blast
    from Cons.IH[OF this, of j] show ?thesis using Cons.prems(3) Suc by simp
  qed
qed

lemma not_loading:
  "LoadManifest \<notin> set clearing_writes" "LoadManifest \<notin> set (commit_writes su fresh pr)"
  "list_all calm writes \<Longrightarrow> LoadManifest \<notin> set writes"
  "LoadManifest \<notin> set (finish_run ss su mode listed changed st3 outcome)"
  by (auto simp: clearing_writes_def commit_writes_def checkpoint_writes_def list_all_iff calm_def quiet_def
      finish_run_def finalize_writes_def Let_def split: option.splits checkpoint_due.splits)

lemma order_opening:
  "order_inv w ss st [LoadManifest] [] []" "order_ok [] [] (clearing_writes @ writes) = order_ok [] [] writes"
  by (auto simp: order_inv_def ahead_free_def saved_manifest_def clearing_writes_def)

lemma index_pass_order:
  assumes "index_pass w ss su mode listed st = (writes, result)" and "distinct (map it_path listed)"
  shows "ahead_free w ss st (take k writes)"
proof (rule index_pass_form[OF assms])
  fix out tail
  let ?loop = "concat (map (commit_writes su (mode = FullSync)) out)"
  let ?clear = "if mode = FullSync then clearing_writes else []"
  assume o: "writes = opening_writes mode @ ?loop @ tail"
    and tail: "list_all calm tail \<or> (\<exists>changed st3 outcome.
      tail = finish_run ss su mode (map it_path (admitted su listed)) changed st3 outcome)"
    and order: "tail = [] \<or> (\<forall>U A. U = [] \<or> 0 < pc_indexed (count_pass out) \<longrightarrow> order_ok U A tail)"
  have "order_ok [] [] (?loop @ tail)"
  proof (rule order_commits)
    show "order_ok [] A tail" for A using order by auto
    show "\<forall>U A. order_ok U A tail" if "pr \<in> set out" "commits pr \<noteq> None" for pr
      using order count_indexed[OF that] by auto
  qed simp
  then have ok: "order_ok [] [] (?clear @ ?loop @ tail)" by (cases "mode = FullSync") (simp_all add: order_opening)
  have none: "LoadManifest \<notin> set (?clear @ ?loop @ tail)"
    using tail not_loading by auto
  have w: "writes = LoadManifest # ?clear @ ?loop @ tail" by (simp add: o opening_writes_def)
  show ?thesis
  proof (cases k)
    case 0
    then show ?thesis by (simp add: ahead_free_def)
  next
    case (Suc j)
    show ?thesis using order_inv_run[OF order_opening(1) ok none, of w ss st j] by (simp add: w Suc)
  qed
qed



end
