(* ===== verification/Jobs.thy ===== *)
theory Jobs
  imports Prelude "HOL-Library.AList" "HOL-Library.Option_ord" "HOL-Library.List_Lexorder" "HOL-Library.Char_ord"
begin

text \<open>
  Background jobs and their progress: \<open>src/pheasant/jobs.py\<close>.

  This theory has one source's progress record and one job. Times of the monotonic clock are
  rationals, and so are rates and fractions, computed exactly; instants of the wall clock are
  whole microseconds, and \<open>utc_now\<close> drops the fraction of a second as the code does. What a reader
  sees of a job is its \<open>payload\<close>, the dict \<open>as_dict\<close> builds: one field per key, except the job's
  opaque \<open>result\<close>, which nothing here reads. The registry is the theory \<open>JobRegistry\<close>, the
  snapshots it shares with other processes the theory \<open>JobSnapshots\<close>.
\<close>

section \<open>One source's progress\<close>

definition TERMINAL :: "string list" where "TERMINAL = [''succeeded'', ''failed'', ''cancelled'']"
definition DEFAULT_MAX_RECORDS :: nat where "DEFAULT_MAX_RECORDS = 200"
definition LOG_TAIL :: nat where "LOG_TAIL = 40"
definition FAILURE_TAIL :: nat where "FAILURE_TAIL = 25"
definition RATE_SAMPLES :: nat where "RATE_SAMPLES = 30"
definition STALL_AFTER_SECONDS :: rat where "STALL_AFTER_SECONDS = 300"

text \<open>\<open>deque(maxlen=n).append(x)\<close>\<close>

definition push_bounded :: "nat \<Rightarrow> 'a list \<Rightarrow> 'a \<Rightarrow> 'a list" where
  "push_bounded n xs x = (let ys = xs @ [x] in drop (length ys - n) ys)"

definition fraction :: "int \<Rightarrow> int option \<Rightarrow> rat option" where
  "fraction current whole = (case whole of
       None \<Rightarrow> None
     | Some t \<Rightarrow> if t = 0 then None else Some (min 1 (of_int current / of_int t)))"

text \<open>What the two clocks of the process show\<close>

record clocks =
  wall :: instant
  mono :: rat

definition utc_now :: "clocks \<Rightarrow> instant" where
  "utc_now c = seconds (wall c div 1000000)"

record source_progress =
  sp_source :: string
  sp_phase :: string
  sp_current :: int
  sp_total :: "int option"
  sp_detail :: string
  sp_status :: string
  sp_indexed :: int
  sp_skipped :: int
  sp_failed :: int
  sp_bytes_done :: int
  sp_started_at :: instant
  last_progress_at :: instant
  sp_finished_at :: "instant option"
  phase_seconds :: "(string \<times> rat) list"
  sp_failures :: "(string \<times> string) list"
  samples :: "(rat \<times> int) list"
  phase_started :: rat
  last_monotonic :: rat

definition new_source :: "string \<Rightarrow> clocks \<Rightarrow> source_progress" where
  "new_source name c = \<lparr>sp_source = name, sp_phase = ''queued'', sp_current = 0, sp_total = None,
     sp_detail = [], sp_status = ''running'', sp_indexed = 0, sp_skipped = 0, sp_failed = 0,
     sp_bytes_done = 0, sp_started_at = utc_now c, last_progress_at = utc_now c,
     sp_finished_at = None, phase_seconds = [], sp_failures = [], samples = [],
     phase_started = mono c, last_monotonic = mono c\<rparr>"

text \<open>The keys of the \<open>stats\<close> of an update that \<open>observe\<close> reads, and an update itself\<close>

record progress_stats =
  ps_indexed :: "int option"
  ps_skipped :: "int option"
  ps_failed :: "int option"
  ps_bytes_done :: "int option"
  ps_failures :: "(string \<times> string) list"

record progress_update =
  pu_phase :: "string option"
  pu_current :: "int option"
  pu_total :: "int option"
  pu_detail :: "string option"
  pu_stats :: "progress_stats option"

definition or_else :: "'a option \<Rightarrow> 'a \<Rightarrow> 'a" where
  "or_else v d = (case v of None \<Rightarrow> d | Some x \<Rightarrow> x)"

lemma or_else_simps [simp]: "or_else None d = d" "or_else (Some x) d = x"
  by (simp_all add: or_else_def)

definition bank_phase :: "rat \<Rightarrow> source_progress \<Rightarrow> source_progress" where
  "bank_phase now r = r\<lparr>phase_seconds := AList.update (sp_phase r)
       (or_else (map_of (phase_seconds r) (sp_phase r)) 0 + (now - phase_started r)) (phase_seconds r),
     phase_started := now\<rparr>"

definition switch_phase :: "string option \<Rightarrow> int option \<Rightarrow> rat \<Rightarrow> source_progress \<Rightarrow> source_progress" where
  "switch_phase phase whole now r = (case phase of
       None \<Rightarrow> r
     | Some ph \<Rightarrow>
         if ph = sp_phase r then r
         else (bank_phase now r)\<lparr>sp_phase := ph,
           sp_total := (if whole = None then None else sp_total r), samples := []\<rparr>)"

definition take_stats :: "progress_stats option \<Rightarrow> source_progress \<Rightarrow> source_progress" where
  "take_stats stats r = (case stats of
       None \<Rightarrow> r
     | Some s \<Rightarrow> r\<lparr>sp_indexed := or_else (ps_indexed s) (sp_indexed r),
         sp_skipped := or_else (ps_skipped s) (sp_skipped r),
         sp_failed := or_else (ps_failed s) (sp_failed r),
         sp_bytes_done := or_else (ps_bytes_done s) (sp_bytes_done r),
         sp_failures := fold (\<lambda>f fs. push_bounded FAILURE_TAIL fs f) (ps_failures s) (sp_failures r)\<rparr>)"

definition take_counters :: "progress_update \<Rightarrow> rat \<Rightarrow> source_progress \<Rightarrow> source_progress" where
  "take_counters u now r0 =
     (let r = (case pu_total u of None \<Rightarrow> r0 | Some t \<Rightarrow> r0\<lparr>sp_total := Some t\<rparr>);
          r = (case pu_current u of
                 None \<Rightarrow> r
               | Some n \<Rightarrow> r\<lparr>sp_current := n, samples := push_bounded RATE_SAMPLES (samples r) (now, n)\<rparr>)
      in (case pu_detail u of None \<Rightarrow> r | Some d \<Rightarrow> r\<lparr>sp_detail := d\<rparr>))"

definition observe :: "progress_update \<Rightarrow> clocks \<Rightarrow> source_progress \<Rightarrow> source_progress" where
  "observe u c r =
     (take_stats (pu_stats u)
       (take_counters u (mono c) (switch_phase (pu_phase u) (pu_total u) (mono c) r)))
     \<lparr>last_progress_at := utc_now c, last_monotonic := mono c\<rparr>"

definition finish_record :: "string \<Rightarrow> clocks \<Rightarrow> source_progress \<Rightarrow> source_progress" where
  "finish_record status c r =
     (let r = (bank_phase (mono c) r)\<lparr>sp_status := status, sp_finished_at := Some (utc_now c)\<rparr>
      in case sp_total r of None \<Rightarrow> r | Some t \<Rightarrow> if t = 0 then r else r\<lparr>sp_current := t\<rparr>)"

definition is_active :: "source_progress \<Rightarrow> bool" where
  "is_active r \<longleftrightarrow> sp_status r \<notin> set TERMINAL"

definition files_per_second :: "source_progress \<Rightarrow> rat option" where
  "files_per_second r =
     (if length (samples r) < 2 then None
      else let elapsed = fst (last (samples r)) - fst (hd (samples r));
               advanced = snd (last (samples r)) - snd (hd (samples r))
           in if elapsed \<le> 0 \<or> advanced \<le> 0 then None else Some (of_int advanced / elapsed))"

definition eta_seconds :: "source_progress \<Rightarrow> rat option" where
  "eta_seconds r = (case files_per_second r of
       None \<Rightarrow> None
     | Some rate \<Rightarrow>
         (case sp_total r of
            None \<Rightarrow> None
          | Some t \<Rightarrow> if rate = 0 \<or> t = 0 then None else Some (of_int (max 0 (t - sp_current r)) / rate)))"

definition seconds_since_progress :: "source_progress \<Rightarrow> rat \<Rightarrow> rat" where
  "seconds_since_progress r now = max 0 (now - last_monotonic r)"

definition stalled :: "source_progress \<Rightarrow> rat \<Rightarrow> bool" where
  "stalled r now \<longleftrightarrow> is_active r \<and> STALL_AFTER_SECONDS < seconds_since_progress r now"

text \<open>\<open>{**phase_seconds, **({phase: elapsed} if active else {})}\<close>\<close>

definition shown_phase_seconds :: "source_progress \<Rightarrow> rat \<Rightarrow> (string \<times> rat) list" where
  "shown_phase_seconds r now =
     (if is_active r
      then AList.update (sp_phase r)
        (or_else (map_of (phase_seconds r) (sp_phase r)) 0 + (now - phase_started r)) (phase_seconds r)
      else phase_seconds r)"

record source_payload =
  so_source :: string
  so_phase :: string
  so_current :: int
  so_total :: "int option"
  so_detail :: string
  so_status :: string
  so_active :: bool
  so_fraction :: "rat option"
  so_indexed :: int
  so_skipped :: int
  so_failed :: int
  so_bytes_done :: int
  so_files_per_second :: "rat option"
  so_eta_seconds :: "rat option"
  so_seconds_since_progress :: rat
  so_stalled :: bool
  so_started_at :: instant
  so_last_progress_at :: instant
  so_finished_at :: "instant option"
  so_phase_seconds :: "(string \<times> rat) list"
  so_failures :: "(string \<times> string) list"

definition source_as_dict :: "source_progress \<Rightarrow> rat \<Rightarrow> source_payload" where
  "source_as_dict r now = \<lparr>so_source = sp_source r, so_phase = sp_phase r, so_current = sp_current r,
     so_total = sp_total r, so_detail = sp_detail r, so_status = sp_status r, so_active = is_active r,
     so_fraction = fraction (sp_current r) (sp_total r), so_indexed = sp_indexed r,
     so_skipped = sp_skipped r, so_failed = sp_failed r, so_bytes_done = sp_bytes_done r,
     so_files_per_second = files_per_second r, so_eta_seconds = eta_seconds r,
     so_seconds_since_progress = seconds_since_progress r now, so_stalled = stalled r now,
     so_started_at = sp_started_at r, so_last_progress_at = last_progress_at r,
     so_finished_at = sp_finished_at r, so_phase_seconds = shown_phase_seconds r now,
     so_failures = sp_failures r\<rparr>"

section \<open>A job\<close>

record job_progress =
  jp_phase :: string
  jp_current :: int
  jp_total :: "int option"
  jp_detail :: string

record job =
  j_id :: string
  j_kind :: string
  j_label :: string
  j_targets :: "string list"
  j_status :: string
  j_progress :: job_progress
  j_started_at :: instant
  j_finished_at :: "instant option"
  j_error :: "string option"
  j_log :: "(instant \<times> string) list"
  j_sources :: "(string \<times> source_progress) list"

text \<open>\<open>source_record\<close>: the record of a source, made when there is none\<close>

definition source_record :: "string \<Rightarrow> clocks \<Rightarrow> job \<Rightarrow> job" where
  "source_record name c j =
     (if map_of (j_sources j) name = None then j\<lparr>j_sources := j_sources j @ [(name, new_source name c)]\<rparr> else j)"

definition records :: "job \<Rightarrow> source_progress list" where
  "records j = map snd (j_sources j)"

definition known_total :: "source_progress \<Rightarrow> bool" where
  "known_total r \<longleftrightarrow> sp_total r \<noteq> None \<and> sp_total r \<noteq> Some 0"

definition rollup_total :: "source_progress list \<Rightarrow> int option" where
  "rollup_total rs =
     (if list_all known_total rs then Some (sum_list (map (\<lambda>r. or_else (sp_total r) 0) rs)) else None)"

definition recompute :: "job \<Rightarrow> job" where
  "recompute j =
     (if records j = [] then j
      else let active = (if filter is_active (records j) = [] then records j else filter is_active (records j));
               newest = py_min_by (\<lambda>r. - last_monotonic r) (hd active) (tl active)
           in j\<lparr>j_progress :=
                \<lparr>jp_phase = sp_phase newest,
                 jp_current = sum_list (map sp_current (records j)),
                 jp_total = rollup_total (records j),
                 jp_detail = (if 1 < length (records j)
                   then ''['' @ sp_source newest @ ''] '' @ sp_detail newest else sp_detail newest)\<rparr>\<rparr>)"

definition job_active :: "job \<Rightarrow> bool" where
  "job_active j \<longleftrightarrow> j_status j \<notin> set TERMINAL"

record payload =
  pl_id :: string
  pl_kind :: string
  pl_label :: string
  pl_targets :: "string list"
  pl_status :: string
  pl_progress :: job_progress
  pl_fraction :: "rat option"
  pl_started_at :: "instant option"
  pl_finished_at :: "instant option"
  pl_error :: "string option"
  pl_log :: "(instant \<times> string) list"
  pl_active :: bool
  pl_sources :: "source_payload list"
  pl_stalled :: bool
  pl_failed_files :: int

definition job_as_dict :: "job \<Rightarrow> rat \<Rightarrow> payload" where
  "job_as_dict j now = \<lparr>pl_id = j_id j, pl_kind = j_kind j, pl_label = j_label j, pl_targets = j_targets j,
     pl_status = j_status j, pl_progress = j_progress j,
     pl_fraction = fraction (jp_current (j_progress j)) (jp_total (j_progress j)),
     pl_started_at = Some (j_started_at j), pl_finished_at = j_finished_at j, pl_error = j_error j,
     pl_log = j_log j, pl_active = job_active j,
     pl_sources = map (\<lambda>r. source_as_dict r now) (sort_key sp_source (records j)),
     pl_stalled = list_ex (\<lambda>r. stalled r now) (records j),
     pl_failed_files = sum_list (map sp_failed (records j))\<rparr>"

section \<open>What a job's outcome is\<close>

definition FAILED_SYNC_STATUSES :: "string list" where
  "FAILED_SYNC_STATUSES = [''failed'', ''timeout'', ''limit_exceeded'']"

definition sync_job_status :: "string list \<Rightarrow> string" where
  "sync_job_status statuses =
     (if list_ex (\<lambda>s. s \<in> set FAILED_SYNC_STATUSES) statuses then ''failed''
      else if ''cancelled'' \<in> set statuses then ''cancelled''
      else ''succeeded'')"

section \<open>The time of every phase is accounted for\<close>

definition banked :: "source_progress \<Rightarrow> rat" where
  "banked r = sum_list (map snd (phase_seconds r))"

text \<open>Adding to one key of a dict adds to the sum of its values.\<close>

lemma sum_values_add:
  fixes x :: rat
  assumes "distinct (map fst kvs)"
  shows "sum_list (map snd (AList.update k (or_else (map_of kvs k) 0 + x) kvs)) = sum_list (map snd kvs) + x"
  using assms
proof (induction kvs)
  case (Cons kv rest)
  show ?case
  proof (cases "fst kv = k")
    case True then show ?thesis by (cases kv) simp
  next
    case False
    then have "map_of (kv # rest) k = map_of rest k" by (cases kv) simp
    with False Cons show ?thesis by (cases kv) simp
  qed
qed simp

text \<open>
  \<open>accounts t0\<close>: the record was made at \<open>t0\<close>, it is running, and the phases it has banked cover
  all the time up to the start of the phase it is in.
\<close>

definition accounts :: "rat \<Rightarrow> source_progress \<Rightarrow> bool" where
  "accounts t0 r \<longleftrightarrow> distinct (map fst (phase_seconds r)) \<and> banked r = phase_started r - t0 \<and> is_active r"

lemma accounts_new: "accounts (mono c) (new_source name c)"
  by (simp add: accounts_def new_source_def banked_def is_active_def TERMINAL_def)

lemma bank_phase_simps [simp]:
  "is_active (bank_phase now r) = is_active r" "sp_phase (bank_phase now r) = sp_phase r"
  "sp_status (bank_phase now r) = sp_status r" "sp_total (bank_phase now r) = sp_total r"
  "phase_started (bank_phase now r) = now"
  by (simp_all add: bank_phase_def is_active_def)

lemma bank_phase_accounts:
  assumes "distinct (map fst (phase_seconds r))"
  shows "distinct (map fst (phase_seconds (bank_phase now r)))"
    and "banked (bank_phase now r) = banked r + (now - phase_started r)"
  using assms by (simp_all add: bank_phase_def banked_def distinct_update sum_values_add)

text \<open>Only \<open>phase_seconds\<close>, the start of the phase and the status matter to it.\<close>

lemma accounts_cong:
  assumes "phase_seconds r' = phase_seconds r" "phase_started r' = phase_started r" "sp_status r' = sp_status r"
  shows "accounts t0 r' = accounts t0 r"
  using assms by (simp add: accounts_def banked_def is_active_def)

lemma switch_phase_accounts:
  assumes "accounts t0 r"
  shows "accounts t0 (switch_phase phase whole now r)"
proof (cases "\<exists>ph. phase = Some ph \<and> ph \<noteq> sp_phase r")
  case True
  have "accounts t0 (bank_phase now r)"
    using assms bank_phase_accounts[of r now] by (auto simp: accounts_def)
  then show ?thesis using True by (auto simp: switch_phase_def intro: accounts_cong[THEN iffD2])
qed (use assms in \<open>auto simp: switch_phase_def split: option.splits\<close>)

lemma take_counters_keeps [simp]:
  "phase_seconds (take_counters u now r) = phase_seconds r"
  "phase_started (take_counters u now r) = phase_started r"
  "sp_status (take_counters u now r) = sp_status r"
  by (simp_all add: take_counters_def Let_def split: option.splits)

lemma take_stats_keeps [simp]:
  "phase_seconds (take_stats stats r) = phase_seconds r"
  "phase_started (take_stats stats r) = phase_started r"
  "sp_status (take_stats stats r) = sp_status r"
  by (simp_all add: take_stats_def split: option.splits)

lemma observe_accounts:
  assumes "accounts t0 r" shows "accounts t0 (observe u c r)"
  by (rule accounts_cong[THEN iffD2, OF _ _ _ switch_phase_accounts[OF assms]]) (simp_all add: observe_def)

lemma updates_account:
  assumes "accounts t0 r" shows "accounts t0 (fold (\<lambda>(u, c). observe u c) us r)"
  using assms by (induction us arbitrary: r) (auto intro: observe_accounts)

lemma accounts_shown:
  assumes "accounts t0 r"
  shows "sum_list (map snd (shown_phase_seconds r now)) = now - t0"
  using assms by (simp add: accounts_def shown_phase_seconds_def sum_values_add banked_def)

lemma finish_record_keeps [simp]:
  "phase_seconds (finish_record status c r) = phase_seconds (bank_phase (mono c) r)"
  "sp_status (finish_record status c r) = status"
  "sp_total (finish_record status c r) = sp_total r"
  by (simp_all add: finish_record_def Let_def split: option.splits)

lemma accounts_finished:
  assumes "accounts t0 r" and "status \<in> set TERMINAL"
  shows "sum_list (map snd (shown_phase_seconds (finish_record status c r) now)) = mono c - t0"
  using assms bank_phase_accounts[of r "mono c"]
  by (simp add: accounts_def shown_phase_seconds_def is_active_def banked_def)

text \<open>
  No time of a source is lost: whatever updates arrive and whatever phases they name, in
  any order and as often as they like, the times of the phases a reader is shown add up to the time
  since the record was made; once the record is finished they add up, for good, to the time it took.
\<close>

theorem phase_times_account:
  "sum_list (map snd (shown_phase_seconds (fold (\<lambda>(u, c). observe u c) us (new_source name c0)) now))
     = now - mono c0
   \<and> list_all (\<lambda>status. sum_list (map snd (shown_phase_seconds
         (finish_record status c (fold (\<lambda>(u, c). observe u c) us (new_source name c0))) now))
       = mono c - mono c0) TERMINAL"
proof -
  have "accounts (mono c0) (fold (\<lambda>(u, c). observe u c) us (new_source name c0))"
    by (rule updates_account[OF accounts_new])
  then show ?thesis by (simp add: accounts_shown accounts_finished list_all_iff)
qed

section \<open>The rollup of a job\<close>

lemma recompute_keeps [simp]:
  "j_id (recompute j) = j_id j" "j_status (recompute j) = j_status j" "j_sources (recompute j) = j_sources j"
  "j_targets (recompute j) = j_targets j" "j_started_at (recompute j) = j_started_at j"
  "j_finished_at (recompute j) = j_finished_at j" "j_error (recompute j) = j_error j"
  "j_log (recompute j) = j_log j" "j_kind (recompute j) = j_kind j" "j_label (recompute j) = j_label j"
  by (simp_all add: recompute_def Let_def)

lemma records_recompute [simp]: "records (recompute j) = records j"
  by (simp add: records_def)

lemma recompute_rollup:
  assumes "records j \<noteq> []"
  shows "jp_current (j_progress (recompute j)) = sum_list (map sp_current (records j))"
    and "jp_total (j_progress (recompute j)) = rollup_total (records j)"
  using assms by (simp_all add: recompute_def Let_def)

text \<open>The headline is the phase of a record no other running record was heard of after.\<close>

lemma recompute_headline:
  assumes "r \<in> set (records j)" "is_active r"
  shows "\<exists>newest \<in> set (records j). is_active newest \<and> last_monotonic r \<le> last_monotonic newest \<and>
    jp_phase (j_progress (recompute j)) = sp_phase newest"
proof -
  let ?active = "filter is_active (records j)"
  let ?newest = "py_min_by (\<lambda>r. - last_monotonic r) (hd ?active) (tl ?active)"
  have ne: "?active \<noteq> []" using assms by (auto simp: filter_empty_conv)
  then have s: "set (hd ?active # tl ?active) = set ?active" by (metis list.collapse)
  have "?newest \<in> set ?active" using py_min_by_in[of _ "hd ?active" "tl ?active"] s by metis
  moreover have "last_monotonic r \<le> last_monotonic ?newest"
    using py_min_by_least[of r "hd ?active" "tl ?active" "\<lambda>r. - last_monotonic r"] assms s by auto
  moreover have "jp_phase (j_progress (recompute j)) = sp_phase ?newest"
    using ne assms by (auto simp: recompute_def Let_def)
  ultimately show ?thesis by auto
qed

lemma fraction_le_1: "fraction c t = Some f \<Longrightarrow> f \<le> 1"
  by (auto simp: fraction_def split: option.splits if_splits)

end
