(* ===== verification/JobSnapshots.thy ===== *)
theory JobSnapshots
  imports Jobs
begin

text \<open>
  The job snapshots processes share: \<open>src/pheasant/job_snapshots.py\<close>.

  A store is a directory with one file per job, named after the job's id, in the order a listing
  of it yields. Of a file the model has what parses from it (nothing, for text that is not a JSON
  object) and its modification time. Writing needs the directory to be writable, which an API
  replica's is not; a write is atomic (a temporary file moved into place), so a reader sees a whole
  payload. One pass over the directory reads one clock.
\<close>

section \<open>The store and what reads it\<close>

definition SNAPSHOT_HEARTBEAT_SECONDS :: int where "SNAPSHOT_HEARTBEAT_SECONDS = 30"
definition SNAPSHOT_STALE_SECONDS :: int where "SNAPSHOT_STALE_SECONDS = 150"

record snap_file =
  sf_content :: "payload option"
  sf_mtime :: instant

record store =
  st_files :: "(string \<times> snap_file) list"
  st_max :: nat
  st_writable :: bool

definition new_store :: "int \<Rightarrow> bool \<Rightarrow> store" where
  "new_store max_records writable = \<lparr>st_files = [], st_max = nat (max 1 max_records), st_writable = writable\<rparr>"

text \<open>A running snapshot whose process stopped writing it, as the failure it is\<close>

definition interrupted_source :: "source_payload \<Rightarrow> source_payload" where
  "interrupted_source so = (if so_active so
     then so\<lparr>so_active := False, so_stalled := False, so_status := ''failed'', so_phase := ''failed''\<rparr> else so)"

definition interrupted :: "payload \<Rightarrow> instant \<Rightarrow> int \<Rightarrow> payload" where
  "interrupted p written silent = p\<lparr>pl_status := ''failed'', pl_active := False, pl_stalled := False,
     pl_finished_at := Some (seconds (written div 1000000)),
     pl_error := Some (''interrupted: the process running this job stopped reporting ''
       @ nat_text (nat (silent div 1000000)) @ ''s ago (likely restarted); start the sync again''),
     pl_sources := map interrupted_source (pl_sources p)\<rparr>"

text \<open>Advance the wall-clock fields of a snapshot of another process.\<close>

definition refresh_source :: "instant \<Rightarrow> source_payload \<Rightarrow> source_payload" where
  "refresh_source now so =
     (let silent = rat_of_int (max 0 (now - so_last_progress_at so)) / 1000000
      in so\<lparr>so_seconds_since_progress := silent, so_stalled := so_active so \<and> STALL_AFTER_SECONDS < silent\<rparr>)"

definition refresh_snapshot :: "instant \<Rightarrow> payload \<Rightarrow> payload" where
  "refresh_snapshot now p =
     (let sources = map (refresh_source now) (pl_sources p)
      in p\<lparr>pl_sources := sources, pl_stalled := list_ex so_stalled sources\<rparr>)"

definition is_silent :: "instant \<Rightarrow> snap_file \<Rightarrow> bool" where
  "is_silent now f \<longleftrightarrow> seconds SNAPSHOT_STALE_SECONDS < now - sf_mtime f"

definition read_file :: "instant \<Rightarrow> snap_file \<Rightarrow> payload option" where
  "read_file now f = (case sf_content f of
       None \<Rightarrow> None
     | Some p \<Rightarrow>
         if pl_id p = [] then None
         else if pl_active p \<and> is_silent now f
         then Some (interrupted p (sf_mtime f) (now - sf_mtime f))
         else Some (refresh_snapshot now p))"

definition snap_get :: "instant \<Rightarrow> string \<Rightarrow> store \<Rightarrow> payload option" where
  "snap_get now jid st = (case map_of (st_files st) jid of None \<Rightarrow> None | Some f \<Rightarrow> read_file now f)"

definition snap_list :: "instant \<Rightarrow> store \<Rightarrow> payload list" where
  "snap_list now st = List.map_filter (\<lambda>(_, f). read_file now f) (st_files st)"

section \<open>Writing\<close>

text \<open>\<open>str(finished_at or started_at or "")\<close>\<close>

definition ended :: "payload \<Rightarrow> instant option" where
  "ended p = (if pl_finished_at p = None then pl_started_at p else pl_finished_at p)"

text \<open>Removing a file fails when it is not there, or the directory is read-only.\<close>

definition unlink :: "string \<Rightarrow> store \<Rightarrow> store option" where
  "unlink name st =
     (if st_writable st \<and> name \<in> fst ` set (st_files st)
      then Some (st\<lparr>st_files := AList.delete name (st_files st)\<rparr>) else None)"

fun unlink_each :: "payload list \<Rightarrow> store \<Rightarrow> store" where
  "unlink_each [] st = st"
| "unlink_each (p # ps) st = (case unlink (pl_id p) st of None \<Rightarrow> st | Some st' \<Rightarrow> unlink_each ps st')"

definition snap_evict :: "instant \<Rightarrow> store \<Rightarrow> store" where
  "snap_evict now st =
     (let records = snap_list now st;
          finished = sort_key ended (filter (\<lambda>p. \<not> pl_active p) records)
      in if length records \<le> st_max st then st
         else unlink_each (take (length records - st_max st) finished) st)"

text \<open>\<open>write\<close>: \<open>None\<close> is the \<open>OSError\<close> of a read-only directory.\<close>

definition snap_write :: "instant \<Rightarrow> payload \<Rightarrow> store \<Rightarrow> store option" where
  "snap_write now p st =
     (if pl_id p = [] then Some st
      else if \<not> st_writable st then None
      else Some (snap_evict now
        (st\<lparr>st_files := AList.update (pl_id p) \<lparr>sf_content = Some p, sf_mtime = now\<rparr> (st_files st)\<rparr>)))"

definition raw_active :: "snap_file \<Rightarrow> bool" where
  "raw_active f = (case sf_content f of None \<Rightarrow> False | Some p \<Rightarrow> pl_active p)"

fun reap_each :: "string list \<Rightarrow> instant \<Rightarrow> string list \<Rightarrow> store \<Rightarrow> store" where
  "reap_each keep now [] st = st"
| "reap_each keep now (name # names) st =
     (if name \<in> set keep then reap_each keep now names st
      else case map_of (st_files st) name of
          None \<Rightarrow> reap_each keep now names st
        | Some f \<Rightarrow>
            (case read_file now f of
               None \<Rightarrow> reap_each keep now names st
             | Some p \<Rightarrow>
                 if raw_active f \<and> \<not> pl_active p
                 then case snap_write now p st of None \<Rightarrow> st | Some st' \<Rightarrow> reap_each keep now names st'
                 else reap_each keep now names st))"

definition reap_stale :: "string list \<Rightarrow> instant \<Rightarrow> store \<Rightarrow> store" where
  "reap_stale keep now st = reap_each keep now (map fst (st_files st)) st"

text \<open>\<open>clear_finished\<close> also returns the ids it cleared.\<close>

fun clear_each :: "instant \<Rightarrow> string list \<Rightarrow> store \<Rightarrow> string list \<times> store" where
  "clear_each now [] st = ([], st)"
| "clear_each now (name # names) st =
     (case map_of (st_files st) name of
        None \<Rightarrow> clear_each now names st
      | Some f \<Rightarrow>
          (case read_file now f of
             None \<Rightarrow> clear_each now names st
           | Some p \<Rightarrow>
               if pl_active p then clear_each now names st
               else case unlink name st of
                   None \<Rightarrow> clear_each now names st
                 | Some st' \<Rightarrow> (let (removed, st'') = clear_each now names st' in (pl_id p # removed, st''))))"

definition clear_finished :: "instant \<Rightarrow> string option \<Rightarrow> store \<Rightarrow> string list \<times> store" where
  "clear_finished now jid st =
     (case jid of
        Some (c # cs) \<Rightarrow> clear_each now [c # cs] st
      | _ \<Rightarrow> clear_each now (map fst (st_files st)) st)"

section \<open>What every process may do to the store\<close>

datatype snap_op = SnapWrite payload | SnapReap "string list" | SnapClear "string option"

fun snap_step :: "snap_op \<times> instant \<Rightarrow> store \<Rightarrow> store" where
  "snap_step (SnapWrite p, now) st = (case snap_write now p st of None \<Rightarrow> st | Some st' \<Rightarrow> st')"
| "snap_step (SnapReap keep, now) st = reap_stale keep now st"
| "snap_step (SnapClear jid, now) st = snd (clear_finished now jid st)"

definition snap_run :: "(snap_op \<times> instant) list \<Rightarrow> store \<Rightarrow> store" where
  "snap_run ops st = fold snap_step ops st"

text \<open>Every file is a payload, under its own name.\<close>

definition dir_ok :: "store \<Rightarrow> bool" where
  "dir_ok st \<longleftrightarrow> distinct (map fst (st_files st)) \<and>
     (\<forall>(n, f) \<in> set (st_files st). \<exists>p. sf_content f = Some p \<and> pl_id p = n \<and> n \<noteq> [])"

abbreviation file_of :: "store \<Rightarrow> string \<Rightarrow> snap_file option" where
  "file_of st \<equiv> map_of (st_files st)"

lemma dir_ok_file:
  "dir_ok st \<Longrightarrow> file_of st n = Some f \<Longrightarrow> \<exists>p. sf_content f = Some p \<and> pl_id p = n \<and> n \<noteq> []"
  unfolding dir_ok_def by (blast dest: map_of_SomeD)

lemma dir_ok_new: "dir_ok (new_store m w)"
  by (simp add: dir_ok_def new_store_def)

lemma refresh_snapshot_keeps [simp]:
  "pl_active (refresh_snapshot now p) = pl_active p" "pl_id (refresh_snapshot now p) = pl_id p"
  "pl_status (refresh_snapshot now p) = pl_status p"
  by (simp_all add: refresh_snapshot_def Let_def)

lemma interrupted_simps [simp]:
  "\<not> pl_active (interrupted p written silent)" "pl_id (interrupted p written silent) = pl_id p"
  "pl_status (interrupted p written silent) = ''failed''"
  by (simp_all add: interrupted_def)

text \<open>A file reads as running when it says so and is not silent.\<close>

lemma read_file_Some:
  assumes "sf_content f = Some p" "pl_id p \<noteq> []"
  obtains q where "read_file now f = Some q" "pl_id q = pl_id p"
    "pl_active q \<longleftrightarrow> pl_active p \<and> \<not> is_silent now f"
  using assms by (cases "pl_active p \<and> is_silent now f") (auto simp: read_file_def)

lemma dir_ok_read:
  assumes "dir_ok st" "file_of st n = Some f"
  obtains q where "read_file now f = Some q" "pl_id q = n"
    "pl_active q \<longleftrightarrow> raw_active f \<and> \<not> is_silent now f"
proof -
  obtain p where p: "sf_content f = Some p" "pl_id p = n" "n \<noteq> []" using dir_ok_file[OF assms] by blast
  obtain q where "read_file now f = Some q" "pl_id q = pl_id p" "pl_active q \<longleftrightarrow> pl_active p \<and> \<not> is_silent now f"
    using p by (blast intro: read_file_Some[of f p now])
  with p that show thesis by (simp add: raw_active_def)
qed

text \<open>\<open>loses st now st'\<close>: the files of \<open>st'\<close> are files of \<open>st\<close>, and those lost did not read as running.\<close>

definition loses :: "store \<Rightarrow> instant \<Rightarrow> store \<Rightarrow> bool" where
  "loses st now st' \<longleftrightarrow> dir_ok st' \<and> st_writable st' = st_writable st \<and> st_max st' = st_max st \<and>
     (\<forall>n. file_of st' n = file_of st n \<or>
       (file_of st' n = None \<and> (\<exists>f q. file_of st n = Some f \<and> read_file now f = Some q \<and> \<not> pl_active q)))"

lemma loses_refl: "dir_ok st \<Longrightarrow> loses st now st"
  by (simp add: loses_def)

lemma loses_trans: "loses a now b \<Longrightarrow> loses b now c \<Longrightarrow> loses a now c"
  unfolding loses_def by (metis option.distinct(1))

lemma in_delete: "x \<in> set (AList.delete n xs) \<Longrightarrow> x \<in> set xs"
  by (simp add: AList.delete_eq)

lemma in_update: "x \<in> set (AList.update k v xs) \<Longrightarrow> x = (k, v) \<or> x \<in> set xs"
  by (induction xs) (auto split: if_splits)

lemma dir_ok_unlink:
  assumes "dir_ok st" "unlink n st = Some st'"
  shows "dir_ok st'" "file_of st' = (file_of st)(n := None)"
    "st_writable st' = st_writable st" "st_max st' = st_max st"
  using assms by (auto simp: dir_ok_def unlink_def delete_conv' distinct_delete
    split: if_splits dest!: in_delete)

lemma unlink_loses:
  assumes "dir_ok st" "unlink n st = Some st'"
    and "file_of st n = Some f" "read_file now f = Some q" "\<not> pl_active q"
  shows "loses st now st'"
  using assms dir_ok_unlink[OF assms(1,2)] by (auto simp: loses_def)

lemma unlink_each_loses:
  assumes "dir_ok st"
    and "\<forall>q \<in> set qs. \<exists>f. file_of st (pl_id q) = Some f \<and> read_file now f = Some q \<and> \<not> pl_active q"
    and "distinct (map pl_id qs)"
  shows "loses st now (unlink_each qs st)"
  using assms
proof (induction qs arbitrary: st)
  case (Cons q qs)
  show ?case
  proof (cases "unlink (pl_id q) st")
    case (Some st')
    obtain f where f: "file_of st (pl_id q) = Some f" "read_file now f = Some q" "\<not> pl_active q"
      using Cons.prems(2) by auto
    note u = dir_ok_unlink[OF Cons.prems(1) Some]
    have "loses st' now (unlink_each qs st')"
      using Cons.prems by (intro Cons.IH) (auto simp: u)
    with unlink_loses[OF Cons.prems(1) Some f] show ?thesis
      by (auto simp: Some intro: loses_trans)
  qed (simp add: loses_refl Cons.prems)
qed (simp add: loses_refl)

lemma snap_list_files:
  assumes "dir_ok st" "q \<in> set (snap_list now st)"
  shows "\<exists>f. file_of st (pl_id q) = Some f \<and> read_file now f = Some q"
proof -
  obtain n f where f: "(n, f) \<in> set (st_files st)" "read_file now f = Some q"
    using assms(2) by (auto simp: snap_list_def List.map_filter_def)
  have m: "file_of st n = Some f" using assms(1) f(1) by (simp add: dir_ok_def)
  with f(2) show ?thesis using dir_ok_read[OF assms(1) m, of now] by auto
qed

lemma snap_list_ids:
  assumes "dir_ok st" shows "map pl_id (snap_list now st) = map fst (st_files st)"
proof -
  have ids: "map pl_id (List.map_filter (\<lambda>(_, f). read_file now f) xs) = map fst xs"
    if "\<forall>(n, f) \<in> set xs. \<exists>q. read_file now f = Some q \<and> pl_id q = n" for xs :: "(string \<times> snap_file) list"
    using that by (induction xs) (auto simp: List.map_filter_simps)
  have "\<exists>q. read_file now f = Some q \<and> pl_id q = n" if "(n, f) \<in> set (st_files st)" for n f
  proof -
    from assms that have m: "file_of st n = Some f" by (simp add: dir_ok_def)
    show ?thesis by (rule dir_ok_read[OF assms m, of now]) blast
  qed
  then show ?thesis unfolding snap_list_def by (intro ids) blast
qed

lemma snap_evict_loses:
  assumes "dir_ok st" shows "loses st now (snap_evict now st)"
proof (cases "length (snap_list now st) \<le> st_max st")
  case False
  let ?finished = "sort_key ended (filter (\<lambda>p. \<not> pl_active p) (snap_list now st))"
  let ?n = "length (snap_list now st) - st_max st"
  have m: "mset (map pl_id ?finished) = mset (map pl_id (filter (\<lambda>p. \<not> pl_active p) (snap_list now st)))"
    by simp
  have "distinct (map pl_id (filter (\<lambda>p. \<not> pl_active p) (snap_list now st)))"
    using assms snap_list_ids[OF assms] by (intro distinct_map_filter) (simp add: dir_ok_def)
  then have "distinct (map pl_id ?finished)" using m mset_eq_imp_distinct_iff by blast
  then have d: "distinct (map pl_id (take ?n ?finished))" by (simp add: take_map[symmetric] distinct_take)
  have "loses st now (unlink_each (take ?n ?finished) st)"
    using snap_list_files[OF assms] by (intro unlink_each_loses[OF assms _ d]) (auto dest!: in_set_takeD)
  with False show ?thesis by (simp add: snap_evict_def Let_def)
qed (simp add: snap_evict_def loses_refl assms)

text \<open>A write adds its own file, or replaces it; of the others it may lose some that are over.\<close>

definition with_file :: "payload \<Rightarrow> instant \<Rightarrow> store \<Rightarrow> store" where
  "with_file p now st =
     st\<lparr>st_files := AList.update (pl_id p) \<lparr>sf_content = Some p, sf_mtime = now\<rparr> (st_files st)\<rparr>"

lemma dir_ok_with_file: "dir_ok st \<Longrightarrow> pl_id p \<noteq> [] \<Longrightarrow> dir_ok (with_file p now st)"
  unfolding dir_ok_def with_file_def by (auto simp: distinct_update dest!: in_update)

lemma with_file_simps [simp]:
  "file_of (with_file p now st) = (file_of st)(pl_id p \<mapsto> \<lparr>sf_content = Some p, sf_mtime = now\<rparr>)"
  "st_writable (with_file p now st) = st_writable st" "st_max (with_file p now st) = st_max st"
  by (simp_all add: with_file_def update_conv')

lemma snap_write_cases:
  assumes "dir_ok st" "snap_write now p st = Some st'"
  shows "(pl_id p = [] \<and> st' = st) \<or> (pl_id p \<noteq> [] \<and> st_writable st \<and> loses (with_file p now st) now st')"
  using assms snap_evict_loses[OF dir_ok_with_file[of st p now]]
  by (auto simp: snap_write_def with_file_def split: if_splits)

lemma dir_ok_write:
  assumes "dir_ok st" "snap_write now p st = Some st'"
  shows "dir_ok st'" "st_writable st' = st_writable st"
  using snap_write_cases[OF assms] assms(1) by (auto simp: loses_def)

lemma write_keeps_ok:
  "snap_write now p st = Some st' \<Longrightarrow> dir_ok st \<Longrightarrow> dir_ok st' \<and> st_writable st' = st_writable st"
  by (simp add: dir_ok_write)

text \<open>What one step of reaping does: nothing, or write the file of that name as over.\<close>

lemma reap_each_step:
  assumes "dir_ok st"
  obtains (same) "reap_each keep now (name # names) st = reap_each keep now names st"
      "\<And>f. file_of st name = Some f \<Longrightarrow> name \<notin> set keep \<Longrightarrow> \<not> (raw_active f \<and> is_silent now f)"
  | (over) f q where "name \<notin> set keep" "file_of st name = Some f" "raw_active f" "is_silent now f"
      "read_file now f = Some q" "pl_id q = name" "\<not> pl_active q"
      "reap_each keep now (name # names) st =
        (case snap_write now q st of None \<Rightarrow> st | Some st' \<Rightarrow> reap_each keep now names st')"
proof (cases "\<exists>f. name \<notin> set keep \<and> file_of st name = Some f \<and> raw_active f \<and> is_silent now f")
  case True
  then obtain f where f: "name \<notin> set keep" "file_of st name = Some f" "raw_active f" "is_silent now f" by blast
  obtain q where q: "read_file now f = Some q" "pl_id q = name" "\<not> pl_active q"
    by (rule dir_ok_read[OF assms f(2), of now]) (use f in auto)
  show thesis by (rule over[OF f q]) (simp add: f q)
next
  case False
  have "reap_each keep now (name # names) st = reap_each keep now names st"
  proof (cases "file_of st name")
    case (Some f)
    obtain q where "read_file now f = Some q" "pl_active q \<longleftrightarrow> raw_active f \<and> \<not> is_silent now f"
      by (rule dir_ok_read[OF assms Some, of now]) blast
    with False Some show ?thesis by auto
  qed simp
  then show thesis using False by (intro same) auto
qed

lemma dir_ok_reap_each:
  assumes "dir_ok st"
  shows "dir_ok (reap_each keep now names st) \<and> st_writable (reap_each keep now names st) = st_writable st"
  using assms
proof (induction names arbitrary: st)
  case (Cons name names)
  from Cons.prems show ?case
  proof (cases rule: reap_each_step[of st keep now name names])
    case same then show ?thesis using Cons by simp
  next
    case (over f q)
    show ?thesis
    proof (cases "snap_write now q st")
      case (Some st')
      with write_keeps_ok[OF Some Cons.prems] Cons.IH[of st'] over(8) show ?thesis by simp
    qed (use over Cons.prems in simp)
  qed
qed simp

lemma clear_each_loses:
  assumes "dir_ok st"
  shows "loses st now (snd (clear_each now names st))"
  using assms
proof (induction now names st rule: clear_each.induct)
  case (2 now name names st)
  show ?case
  proof (cases "\<exists>f q st'. file_of st name = Some f \<and> read_file now f = Some q \<and> \<not> pl_active q \<and> unlink name st = Some st'")
    case True
    then obtain f q st' where f: "file_of st name = Some f" "read_file now f = Some q" "\<not> pl_active q"
      and u: "unlink name st = Some st'" by blast
    note ok = dir_ok_unlink[OF 2(6) u]
    have "loses st' now (snd (clear_each now names st'))" using 2(5)[OF f(1,2) _ u] f(3) ok(1) by blast
    with unlink_loses[OF 2(6) u f] show ?thesis
      by (auto simp: f u split: prod.splits intro: loses_trans)
  qed (use 2 in \<open>auto split: option.splits\<close>)
qed (simp add: loses_refl)

lemma dir_ok_clear:
  assumes "dir_ok st" shows "loses st now (snd (clear_finished now jid st))"
  using clear_each_loses[OF assms]
  by (auto simp: clear_finished_def simp del: clear_each.simps split: option.splits list.splits)

lemma dir_ok_step:
  assumes "dir_ok st" shows "dir_ok (snap_step x st) \<and> st_writable (snap_step x st) = st_writable st"
  using assms dir_ok_reap_each[OF assms] dir_ok_clear[OF assms]
  by (cases "(x, st)" rule: snap_step.cases)
    (auto simp: reap_stale_def loses_def split: option.splits dest: write_keeps_ok)

lemma dir_ok_run:
  assumes "dir_ok st" shows "dir_ok (snap_run ops st)" "st_writable (snap_run ops st) = st_writable st"
proof -
  have "dir_ok (snap_run ops st) \<and> st_writable (snap_run ops st) = st_writable st"
    using assms
  proof (induction ops arbitrary: st)
    case (Cons x ops)
    from Cons.IH[of "snap_step x st"] dir_ok_step[OF Cons.prems, of x] show ?case by (simp add: snap_run_def)
  qed (simp add: snap_run_def)
  then show "dir_ok (snap_run ops st)" "st_writable (snap_run ops st) = st_writable st" by auto
qed

section \<open>A running snapshot is left alone\<close>

text \<open>Whatever loses only files that are over leaves one that reads as running.\<close>

lemma loses_running:
  assumes "loses st now st'" "file_of st n = Some f" "read_file now f = Some q" "pl_active q"
  shows "file_of st' n = Some f"
  using assms unfolding loses_def by (metis option.inject)

lemma running_survives_write:
  assumes "dir_ok st" "file_of st n = Some f" "read_file now f = Some q" "pl_active q" "pl_id p \<noteq> n"
    and "snap_write now p st = Some st'"
  shows "file_of st' n = Some f"
  using snap_write_cases[OF assms(1,6)]
proof
  assume "pl_id p \<noteq> [] \<and> st_writable st \<and> loses (with_file p now st) now st'"
  moreover have "file_of (with_file p now st) n = Some f" using assms by simp
  ultimately show ?thesis using assms(3,4) loses_running by blast
qed (use assms in simp)

lemma running_survives_reap:
  assumes "dir_ok st" "file_of st n = Some f" "read_file now f = Some q" "pl_active q"
  shows "file_of (reap_each keep now names st) n = Some f"
  using assms(1,2)
proof (induction names arbitrary: st)
  case (Cons name names)
  from Cons.prems(1) show ?case
  proof (cases rule: reap_each_step[of st keep now name names])
    case same then show ?thesis using Cons by simp
  next
    case (over g p)
    then have other: "pl_id p \<noteq> n" using Cons.prems(2) assms(3,4) by auto
    show ?thesis
    proof (cases "snap_write now p st")
      case (Some st')
      have "file_of st' n = Some f"
        by (rule running_survives_write[OF Cons.prems assms(3,4) other Some])
      with over(8) Some Cons.IH dir_ok_write(1)[OF Cons.prems(1) Some] show ?thesis by simp
    qed (use over Cons.prems in simp)
  qed
qed simp

definition writes_id :: "string \<Rightarrow> snap_op \<Rightarrow> bool" where
  "writes_id jid op = (case op of SnapWrite p \<Rightarrow> pl_id p = jid | _ \<Rightarrow> False)"

lemma running_survives_step:
  assumes "dir_ok st" "file_of st n = Some f" "read_file now f = Some q" "pl_active q" "\<not> writes_id n op"
  shows "file_of (snap_step (op, now) st) n = Some f"
proof (cases op)
  case (SnapWrite p)
  then show ?thesis using running_survives_write[OF assms(1-4), of p] assms
    by (auto simp: writes_id_def split: option.splits)
next
  case (SnapReap keep)
  then show ?thesis using running_survives_reap[OF assms(1-4)] by (simp add: reap_stale_def)
next
  case (SnapClear jid)
  then show ?thesis using loses_running[OF dir_ok_clear[OF assms(1)] assms(2-4)] by simp
qed

lemma running_survives_run:
  assumes "dir_ok st" "file_of st n = Some f" "raw_active f"
    and "list_all (\<lambda>(op, t). \<not> is_silent t f \<and> \<not> writes_id n op) ops"
  shows "file_of (snap_run ops st) n = Some f"
  using assms
proof (induction ops arbitrary: st)
  case (Cons x ops)
  obtain op t where x: "x = (op, t)" by (cases x)
  obtain q where q: "read_file t f = Some q" "pl_active q"
    by (rule dir_ok_read[OF Cons.prems(1,2), of t]) (use Cons.prems x in auto)
  have "file_of (snap_step x st) n = Some f"
    unfolding x by (rule running_survives_step[OF Cons.prems(1,2) q]) (use Cons.prems x in auto)
  moreover have "dir_ok (snap_step x st)" using dir_ok_step[OF Cons.prems(1)] by simp
  ultimately show ?case using Cons.IH Cons.prems by (auto simp: snap_run_def)
qed (simp add: snap_run_def)

text \<open>What was just written is there, when it reads as running.\<close>

lemma just_written:
  assumes "dir_ok st" "st_writable st" "pl_id p \<noteq> []" "pl_active p"
  shows "file_of (snap_step (SnapWrite p, now) st) (pl_id p) = Some \<lparr>sf_content = Some p, sf_mtime = now\<rparr>"
proof -
  obtain st' where w: "snap_write now p st = Some st'" using assms by (simp add: snap_write_def)
  have "loses (with_file p now st) now st'" using snap_write_cases[OF assms(1) w] assms(3) by blast
  moreover have "read_file now \<lparr>sf_content = Some p, sf_mtime = now\<rparr> = Some (refresh_snapshot now p)"
    using assms by (simp add: read_file_def is_silent_def SNAPSHOT_STALE_SECONDS_def seconds_def)
  ultimately have "file_of st' (pl_id p) = Some \<lparr>sf_content = Some p, sf_mtime = now\<rparr>"
    using assms(4) by (auto intro: loses_running)
  with w show ?thesis by simp
qed



section \<open>What is over can be cleared\<close>

definition reads_running :: "instant \<Rightarrow> snap_file \<Rightarrow> bool" where
  "reads_running now f \<longleftrightarrow> raw_active f \<and> \<not> is_silent now f"

lemma files_unlink:
  assumes "unlink n st = Some st'"
  shows "st_files st' = filter (\<lambda>(m, _). m \<noteq> n) (st_files st)"
  using assms by (auto simp: unlink_def AList.delete_eq split: if_splits intro!: filter_cong)

lemma clear_each_files:
  assumes "dir_ok st" "st_writable st" "distinct names"
  shows "st_files (snd (clear_each now names st)) =
      filter (\<lambda>(n, f). n \<notin> set names \<or> reads_running now f) (st_files st) \<and>
    fst (clear_each now names st) =
      filter (\<lambda>n. \<exists>f. file_of st n = Some f \<and> \<not> reads_running now f) names"
  using assms
proof (induction names arbitrary: st)
  case (Cons name names)
  let ?rest = "\<lambda>st. st_files (snd (clear_each now names st))"
  show ?case
  proof (cases "\<exists>f. file_of st name = Some f \<and> \<not> reads_running now f")
    case False
    have same: "clear_each now (name # names) st = clear_each now names st"
    proof (cases "file_of st name")
      case (Some f)
      obtain q where "read_file now f = Some q" "pl_active q \<longleftrightarrow> raw_active f \<and> \<not> is_silent now f"
        by (rule dir_ok_read[OF Cons.prems(1) Some, of now]) blast
      with False Some show ?thesis by (auto simp: reads_running_def)
    qed simp
    have "reads_running now f" if "(name, f) \<in> set (st_files st)" for f
      using False that Cons.prems(1) by (simp add: dir_ok_def)
    then have "filter (\<lambda>(n, f). n \<notin> set (name # names) \<or> reads_running now f) (st_files st)
      = filter (\<lambda>(n, f). n \<notin> set names \<or> reads_running now f) (st_files st)"
      by (intro filter_cong) auto
    with same False Cons show ?thesis by simp
  next
    case True
    then obtain f where f: "file_of st name = Some f" "\<not> reads_running now f" by blast
    obtain q where q: "read_file now f = Some q" "pl_id q = name" "\<not> pl_active q"
      by (rule dir_ok_read[OF Cons.prems(1) f(1), of now]) (use f in \<open>auto simp: reads_running_def\<close>)
    have "name \<in> fst ` set (st_files st)" using f(1) by (force dest: map_of_SomeD)
    then obtain st' where u: "unlink name st = Some st'" using Cons.prems(2) by (simp add: unlink_def)
    note ok = dir_ok_unlink[OF Cons.prems(1) u]
    have IH: "?rest st' = filter (\<lambda>(n, f). n \<notin> set names \<or> reads_running now f) (st_files st')"
      "fst (clear_each now names st') = filter (\<lambda>n. \<exists>f. file_of st' n = Some f \<and> \<not> reads_running now f) names"
      using Cons.IH[of st'] ok Cons.prems by auto
    have step: "clear_each now (name # names) st = (name # fst (clear_each now names st'), snd (clear_each now names st'))"
      by (simp add: f q u split: prod.split)
    have "\<not> reads_running now g" if "(name, g) \<in> set (st_files st)" for g
      using that f Cons.prems(1) by (simp add: dir_ok_def)
    then have "?rest st' = filter (\<lambda>(n, f). n \<notin> set (name # names) \<or> reads_running now f) (st_files st)"
      unfolding IH files_unlink[OF u] filter_filter by (intro filter_cong) auto
    moreover have "fst (clear_each now names st') = filter (\<lambda>n. \<exists>f. file_of st n = Some f \<and> \<not> reads_running now f) names"
      unfolding IH ok(2) using Cons.prems(3) by (intro filter_cong) auto
    ultimately show ?thesis using True step by simp
  qed
qed simp

text \<open>After reaping, a file outside \<open>keep\<close> that says running was written not long ago.\<close>

lemma reap_each_settles:
  assumes "dir_ok st" "st_writable st" "n \<notin> set keep"
    and "n \<in> set names \<or> (\<forall>f. file_of st n = Some f \<longrightarrow> \<not> (raw_active f \<and> is_silent now f))"
    and "file_of (reap_each keep now names st) n = Some f"
  shows "\<not> (raw_active f \<and> is_silent now f)"
  using assms(1,2,4,5)
proof (induction names arbitrary: st)
  case (Cons name names)
  from Cons.prems(1) show ?case
  proof (cases rule: reap_each_step[of st keep now name names])
    case same
    show ?thesis
    proof (rule Cons.IH[OF Cons.prems(1,2)])
      show "n \<in> set names \<or> (\<forall>f. file_of st n = Some f \<longrightarrow> \<not> (raw_active f \<and> is_silent now f))"
        using Cons.prems(3) same(2) assms(3) by auto
    qed (use Cons.prems(4) same(1) in simp)
  next
    case (over g q)
    obtain st' where w: "snap_write now q st = Some st'"
      using Cons.prems(2) by (cases "pl_id q = []") (simp_all add: snap_write_def)
    have l: "loses (with_file q now st) now st'"
      using snap_write_cases[OF Cons.prems(1) w] dir_ok_file[OF Cons.prems(1) over(2)] over(6) by auto
    have "n \<in> set names \<or> (\<forall>f. file_of st' n = Some f \<longrightarrow> \<not> (raw_active f \<and> is_silent now f))"
    proof (cases "n = name")
      case True
      have "file_of st' n = None \<or> file_of st' n = Some \<lparr>sf_content = Some q, sf_mtime = now\<rparr>"
        using l True over(6) unfolding loses_def by (metis fun_upd_same with_file_simps(1))
      with over(7) show ?thesis by (auto simp: raw_active_def)
    next
      case False
      have "file_of st' n = None \<or> file_of st' n = file_of st n"
        using l False over(6) unfolding loses_def by (metis fun_upd_other with_file_simps(1))
      with Cons.prems(3) False show ?thesis by auto
    qed
    moreover have "dir_ok st'" "st_writable st'" using dir_ok_write[OF Cons.prems(1) w] Cons.prems(2) by auto
    ultimately show ?thesis using Cons.IH[of st'] Cons.prems(4) over(8) w by simp
  qed
qed auto

text \<open>
  An orphaned job does end. In any state of a writable shared directory, clearing the
  finished jobs leaves exactly the snapshots that say running and were written within 150 seconds,
  and returns the ids of all the others; and after a process has reaped, no snapshot outside its own
  jobs says running without having been written within 150 seconds.
\<close>

theorem orphans_end:
  fixes ops :: "(snap_op \<times> instant) list" and max_records :: int
  defines "st \<equiv> snap_run ops (new_store max_records True)"
  shows "st_files (snd (clear_finished now None st)) = filter (\<lambda>(_, f). reads_running now f) (st_files st)
    \<and> fst (clear_finished now None st) = map fst (filter (\<lambda>(_, f). \<not> reads_running now f) (st_files st))
    \<and> filter (\<lambda>(n, f). n \<notin> set keep \<and> raw_active f \<and> is_silent now f) (st_files (reap_stale keep now st)) = []"
proof -
  have ok: "dir_ok st" and w: "st_writable st"
    unfolding st_def by (simp_all add: dir_ok_run dir_ok_new) (simp add: new_store_def)
  have d: "distinct (map fst (st_files st))" using ok by (simp add: dir_ok_def)
  have m: "file_of st n = Some f" if "(n, f) \<in> set (st_files st)" for n f
    using that ok by (simp add: dir_ok_def)
  have "st_files (snd (clear_finished now None st)) = filter (\<lambda>(_, f). reads_running now f) (st_files st)"
    unfolding clear_finished_def using clear_each_files[OF ok w d, THEN conjunct1]
    by (auto intro!: filter_cong) (force intro!: filter_cong)
  moreover have "fst (clear_finished now None st) = map fst (filter (\<lambda>(_, f). \<not> reads_running now f) (st_files st))"
    unfolding clear_finished_def using clear_each_files[OF ok w d, THEN conjunct2]
    by (auto simp: filter_map comp_def m intro!: arg_cong[of _ _ "map fst"] filter_cong)
  moreover have "\<not> (n \<notin> set keep \<and> raw_active f \<and> is_silent now f)" if "(n, f) \<in> set (st_files (reap_stale keep now st))" for n f
  proof (rule notI, elim conjE)
    assume f: "n \<notin> set keep" "raw_active f" "is_silent now f"
    have after: "dir_ok (reap_stale keep now st)" using dir_ok_reap_each[OF ok] by (simp add: reap_stale_def)
    then have here: "file_of (reap_each keep now (map fst (st_files st)) st) n = Some f"
      using that by (simp add: dir_ok_def reap_stale_def)
    have "n \<in> set (map fst (st_files st)) \<or> (\<forall>f. file_of st n = Some f \<longrightarrow> \<not> (raw_active f \<and> is_silent now f))"
      by (cases "file_of st n") (auto dest: map_of_SomeD simp: rev_image_eqI)
    from reap_each_settles[OF ok w f(1) this here] f show False by blast
  qed
  ultimately show ?thesis by (auto simp: filter_empty_conv)
qed

end
