(* ===== verification/JobRegistry.thy ===== *)
theory JobRegistry
  imports JobSnapshots
begin

text \<open>
  The job registry: class \<open>JobRegistry\<close> of \<open>src/pheasant/jobs.py\<close>.

  The registry's dict and its list of ids are separate, as in the code. Every operation runs under
  the registry's lock, so it is one step; it reads the clocks once. A subscriber is its bounded
  queue, named by its place in the list. The new id of a job made without one is an argument, and
  so is whether a shared directory is configured (\<open>rg_shared\<close>).
\<close>

section \<open>State\<close>

record registry =
  rg_jobs :: "(string \<times> job) list"
  rg_order :: "string list"
  rg_max :: nat
  rg_subscribers :: "payload list list"
  rg_shared :: "store option"

definition new_registry :: "nat \<Rightarrow> store option \<Rightarrow> registry" where
  "new_registry max_records shared =
     \<lparr>rg_jobs = [], rg_order = [], rg_max = max_records, rg_subscribers = [], rg_shared = shared\<rparr>"

abbreviation job_of :: "registry \<Rightarrow> string \<Rightarrow> job option" where
  "job_of rg \<equiv> map_of (rg_jobs rg)"

definition put_job :: "string \<Rightarrow> job \<Rightarrow> registry \<Rightarrow> registry" where
  "put_job jid j rg = rg\<lparr>rg_jobs := AList.update jid j (rg_jobs rg)\<rparr>"

section \<open>Publishing\<close>

definition SUBSCRIBER_QUEUE :: nat where "SUBSCRIBER_QUEUE = 256"

text \<open>\<open>put_nowait\<close>, whose exception for a full queue is dropped\<close>

definition offer :: "payload \<Rightarrow> payload list \<Rightarrow> payload list" where
  "offer p q = (if length q < SUBSCRIBER_QUEUE then q @ [p] else q)"

definition publish_job :: "job \<Rightarrow> clocks \<Rightarrow> registry \<Rightarrow> registry" where
  "publish_job j c rg =
     (let p = job_as_dict j (mono c)
      in rg\<lparr>rg_shared := (case rg_shared rg of
              None \<Rightarrow> None
            | Some st \<Rightarrow> (case snap_write (wall c) p st of None \<Rightarrow> Some st | Some st' \<Rightarrow> Some st')),
            rg_subscribers := map (offer p) (rg_subscribers rg)\<rparr>)"

definition subscribe :: "registry \<Rightarrow> nat \<times> registry" where
  "subscribe rg = (length (rg_subscribers rg), rg\<lparr>rg_subscribers := rg_subscribers rg @ [[]]\<rparr>)"

definition unsubscribe :: "nat \<Rightarrow> registry \<Rightarrow> registry" where
  "unsubscribe n rg = rg\<lparr>rg_subscribers := take n (rg_subscribers rg) @ drop (Suc n) (rg_subscribers rg)\<rparr>"

definition drain_subscriber :: "nat \<Rightarrow> registry \<Rightarrow> payload list \<times> registry" where
  "drain_subscriber n rg =
     (if n < length (rg_subscribers rg)
      then (rg_subscribers rg ! n, rg\<lparr>rg_subscribers := (rg_subscribers rg)[n := []]\<rparr>) else ([], rg))"

section \<open>Lifecycle\<close>

text \<open>The loop of \<open>_evict\<close>: the jobs left, and the ids kept\<close>

fun evict_loop :: "nat \<Rightarrow> (string \<times> job) list \<Rightarrow> string list \<Rightarrow> (string \<times> job) list \<times> string list" where
  "evict_loop removable jobs [] = (jobs, [])"
| "evict_loop removable jobs (jid # ids) =
     (if 0 < removable \<and> (case map_of jobs jid of None \<Rightarrow> False | Some j \<Rightarrow> \<not> job_active j)
      then evict_loop (removable - 1) (AList.delete jid jobs) ids
      else (let (jobs', keep) = evict_loop removable jobs ids in (jobs', jid # keep)))"

definition evict_jobs :: "registry \<Rightarrow> registry" where
  "evict_jobs rg =
     (if length (rg_order rg) \<le> rg_max rg then rg
      else let (jobs, keep) = evict_loop (length (rg_order rg) - rg_max rg) (rg_jobs rg) (rg_order rg)
           in rg\<lparr>rg_jobs := jobs, rg_order := keep\<rparr>)"

definition new_job :: "string \<Rightarrow> string \<Rightarrow> string \<Rightarrow> string list \<Rightarrow> clocks \<Rightarrow> job" where
  "new_job jid kind label targets c =
     fold (\<lambda>target. source_record target c) targets
       \<lparr>j_id = jid, j_kind = kind, j_label = label, j_targets = targets, j_status = ''running'',
        j_progress = \<lparr>jp_phase = ''starting'', jp_current = 0, jp_total = None, jp_detail = []\<rparr>,
        j_started_at = utc_now c, j_finished_at = None, j_error = None, j_log = [], j_sources = []\<rparr>"

definition create_job :: "string \<Rightarrow> string \<Rightarrow> string \<Rightarrow> string list \<Rightarrow> clocks \<Rightarrow> registry \<Rightarrow> registry" where
  "create_job jid kind label targets c rg =
     (let j = new_job jid kind label targets c;
          rg1 = put_job jid j rg;
          rg2 = evict_jobs (rg1\<lparr>rg_order := rg_order rg1 @ [jid]\<rparr>)
      in publish_job j c rg2)"

text \<open>Which record an update is about, and the job without the placeholder it replaces\<close>

definition update_target :: "string option \<Rightarrow> job \<Rightarrow> string \<times> job" where
  "update_target source j = (case source of
       None \<Rightarrow> ((case map fst (j_sources j) of [name] \<Rightarrow> name | _ \<Rightarrow> ''*''), j)
     | Some name \<Rightarrow> (name, if name = ''*'' then j else j\<lparr>j_sources := AList.delete ''*'' (j_sources j)\<rparr>))"

definition log_detail :: "string \<Rightarrow> string option \<Rightarrow> clocks \<Rightarrow> job \<Rightarrow> job" where
  "log_detail name detail c j = (case detail of
       None \<Rightarrow> j
     | Some d \<Rightarrow> j\<lparr>j_log := push_bounded LOG_TAIL (j_log j)
         (utc_now c, (if name \<noteq> ''*'' \<and> 1 < length (j_sources j) then ''['' @ name @ ''] '' else []) @ d)\<rparr>)"

definition job_progressed :: "progress_update \<Rightarrow> string option \<Rightarrow> clocks \<Rightarrow> job \<Rightarrow> job" where
  "job_progressed u source c j0 =
     (let (name, j1) = update_target source j0;
          j2 = source_record name c j1;
          j3 = j2\<lparr>j_sources := map (\<lambda>(n, r). (n, if n = name then observe u c r else r)) (j_sources j2)\<rparr>
      in recompute (log_detail name (pu_detail u) c j3))"

definition progress :: "string \<Rightarrow> progress_update \<Rightarrow> string option \<Rightarrow> clocks \<Rightarrow> registry \<Rightarrow> registry" where
  "progress jid u source c rg = (case job_of rg jid of
       None \<Rightarrow> rg
     | Some j \<Rightarrow>
         if \<not> job_active j then rg
         else let j' = job_progressed u source c j in publish_job j' c (put_job jid j' rg))"

definition finish_sources :: "string \<Rightarrow> clocks \<Rightarrow> job \<Rightarrow> job" where
  "finish_sources status c j =
     j\<lparr>j_sources := map (\<lambda>(n, r). (n, if is_active r then finish_record status c r else r)) (j_sources j)\<rparr>"

definition set_headline :: "string \<Rightarrow> job \<Rightarrow> job" where
  "set_headline status j = j\<lparr>j_progress := (j_progress j)\<lparr>jp_phase := status\<rparr>\<rparr>"

definition fill_current :: "job \<Rightarrow> job" where
  "fill_current j = (case jp_total (j_progress j) of
       None \<Rightarrow> j
     | Some t \<Rightarrow> if t = 0 then j else j\<lparr>j_progress := (j_progress j)\<lparr>jp_current := t\<rparr>\<rparr>)"

definition job_finished :: "string \<Rightarrow> string option \<Rightarrow> clocks \<Rightarrow> job \<Rightarrow> job" where
  "job_finished status error c j =
     fill_current (recompute (set_headline status (finish_sources status c
       (j\<lparr>j_status := status, j_error := error, j_finished_at := Some (utc_now c)\<rparr>))))"

definition finish_job :: "string \<Rightarrow> string \<Rightarrow> string option \<Rightarrow> clocks \<Rightarrow> registry \<Rightarrow> registry" where
  "finish_job jid status error c rg = (case job_of rg jid of
       None \<Rightarrow> rg
     | Some j \<Rightarrow> let j' = job_finished status error c j in publish_job j' c (put_job jid j' rg))"

definition finish_source :: "string \<Rightarrow> string \<Rightarrow> string \<Rightarrow> clocks \<Rightarrow> registry \<Rightarrow> registry" where
  "finish_source jid source status c rg = (case job_of rg jid of
       None \<Rightarrow> rg
     | Some j \<Rightarrow>
         if \<not> job_active j then rg
         else (case map_of (j_sources j) source of
             None \<Rightarrow> rg
           | Some r \<Rightarrow>
               if \<not> is_active r then rg
               else let j' = recompute (j\<lparr>j_sources := map (\<lambda>(n, r). (n,
                      if n = source then finish_record status c r else r)) (j_sources j)\<rparr>)
                    in publish_job j' c (put_job jid j' rg)))"

text \<open>One round of the heartbeat thread\<close>

definition registry_heartbeat :: "clocks \<Rightarrow> registry \<Rightarrow> registry" where
  "registry_heartbeat c rg = (case rg_shared rg of
       None \<Rightarrow> rg
     | Some _ \<Rightarrow>
         (let running = filter job_active (map snd (rg_jobs rg));
              rg' = fold (\<lambda>j. publish_job j c) running rg
          in rg'\<lparr>rg_shared := (case rg_shared rg' of
                 None \<Rightarrow> None | Some st \<Rightarrow> Some (reap_stale (map j_id running) (wall c) st))\<rparr>))"

definition cleared_locally :: "string option \<Rightarrow> registry \<Rightarrow> string list" where
  "cleared_locally jid rg =
     filter (\<lambda>i. case job_of rg i of None \<Rightarrow> False | Some j \<Rightarrow> \<not> job_active j)
       (dict_fromkeys (case jid of None \<Rightarrow> rg_order rg | Some i \<Rightarrow> [i]))"

definition clear_jobs :: "string option \<Rightarrow> instant \<Rightarrow> registry \<Rightarrow> nat \<times> registry" where
  "clear_jobs jid now rg =
     (let gone = cleared_locally jid rg;
          jobs = filter (\<lambda>(i, _). i \<notin> set gone) (rg_jobs rg);
          rg1 = rg\<lparr>rg_jobs := jobs,
            rg_order := (if gone = [] then rg_order rg else filter (\<lambda>i. i \<in> fst ` set jobs) (rg_order rg))\<rparr>
      in case rg_shared rg of
          None \<Rightarrow> (length gone, rg1)
        | Some st \<Rightarrow>
            (let (removed, st') = clear_finished now jid st
             in (card (set gone \<union> set removed), rg1\<lparr>rg_shared := Some st'\<rparr>)))"

section \<open>Reading\<close>

definition get_job :: "string \<Rightarrow> clocks \<Rightarrow> registry \<Rightarrow> payload option" where
  "get_job jid c rg = (case job_of rg jid of
       Some j \<Rightarrow> Some (job_as_dict j (mono c))
     | None \<Rightarrow> (case rg_shared rg of None \<Rightarrow> None | Some st \<Rightarrow> snap_get (wall c) jid st))"

text \<open>The union of the shared snapshots and this process's own, which win\<close>

definition merged :: "clocks \<Rightarrow> registry \<Rightarrow> (string \<times> payload) list" where
  "merged c rg =
     (let local = map (\<lambda>i. (i, job_as_dict (the (job_of rg i)) (mono c)))
            (filter (\<lambda>i. job_of rg i \<noteq> None) (dict_fromkeys (rg_order rg)));
          shared = (case rg_shared rg of None \<Rightarrow> [] | Some st \<Rightarrow> snap_list (wall c) st)
      in AList.updates (map fst local) (map snd local)
           (AList.updates (map pl_id shared) shared []))"

text \<open>\<open>sorted(\<dots>, reverse=True)\<close> keeps the order of equal keys.\<close>

definition newest_first :: "('a \<Rightarrow> 'k::linorder) \<Rightarrow> 'a list \<Rightarrow> 'a list" where
  "newest_first key xs = rev (sort_key key (rev xs))"

definition list_jobs :: "bool \<Rightarrow> nat \<Rightarrow> clocks \<Rightarrow> registry \<Rightarrow> payload list" where
  "list_jobs active_only limit c rg =
     (let all = map snd (merged c rg);
          records = (if active_only then filter pl_active all else all);
          active = newest_first pl_started_at (filter pl_active records);
          done = newest_first ended (filter (\<lambda>p. \<not> pl_active p) records)
      in take limit (active @ done))"

definition active_for :: "string \<Rightarrow> registry \<Rightarrow> job option" where
  "active_for target rg =
     find (\<lambda>j. job_active j \<and> target \<in> set (j_targets j)) (List.map_filter (job_of rg) (rev (rg_order rg)))"

definition last_outcome_for :: "string \<Rightarrow> registry \<Rightarrow> job option" where
  "last_outcome_for target rg =
     find (\<lambda>j. \<not> job_active j \<and> target \<in> set (j_targets j)) (List.map_filter (job_of rg) (rev (rg_order rg)))"

definition active_snapshot_for :: "string \<Rightarrow> clocks \<Rightarrow> registry \<Rightarrow> payload option" where
  "active_snapshot_for target c rg = find (\<lambda>p. target \<in> set (pl_targets p)) (list_jobs True (rg_max rg) c rg)"

definition last_outcome_snapshot_for :: "string \<Rightarrow> clocks \<Rightarrow> registry \<Rightarrow> payload option" where
  "last_outcome_snapshot_for target c rg =
     find (\<lambda>p. \<not> pl_active p \<and> target \<in> set (pl_targets p)) (list_jobs False (rg_max rg) c rg)"

definition source_progress_of :: "string \<Rightarrow> clocks \<Rightarrow> registry \<Rightarrow> source_payload option" where
  "source_progress_of target c rg =
     (case List.map_filter (\<lambda>j. if job_active j then map_of (j_sources j) target else None)
         (List.map_filter (job_of rg) (rev (rg_order rg))) of
        r # _ \<Rightarrow> Some (source_as_dict r (mono c))
      | [] \<Rightarrow> (case active_snapshot_for target c rg of
            None \<Rightarrow> None
          | Some p \<Rightarrow> find (\<lambda>so. so_source so = target \<and> so_active so) (pl_sources p)))"

record metrics =
  mx_queued :: nat
  mx_inflight :: nat
  mx_ratio :: "(string \<times> rat) list"
  mx_rate :: "(string \<times> rat) list"
  mx_eta :: "(string \<times> rat) list"
  mx_stalled :: "(string \<times> rat) list"
  mx_backlog :: int

definition put_some :: "string \<Rightarrow> rat option \<Rightarrow> (string \<times> rat) list \<Rightarrow> (string \<times> rat) list" where
  "put_some name v kvs = (case v of None \<Rightarrow> kvs | Some x \<Rightarrow> AList.update name x kvs)"

definition sample_source :: "source_payload \<Rightarrow> metrics \<Rightarrow> metrics" where
  "sample_source so m = m\<lparr>mx_queued := mx_queued m + 1,
     mx_ratio := put_some (so_source so) (so_fraction so) (mx_ratio m),
     mx_rate := put_some (so_source so) (so_files_per_second so) (mx_rate m),
     mx_eta := put_some (so_source so) (so_eta_seconds so) (mx_eta m),
     mx_stalled := AList.update (so_source so) (if so_stalled so then 1 else 0) (mx_stalled m),
     mx_backlog := mx_backlog m + (if so_phase so = ''preparing''
       then (case so_total so of None \<Rightarrow> 0 | Some t \<Rightarrow> max 0 (t - so_current so)) else 0)\<rparr>"

definition sample_job :: "payload \<Rightarrow> metrics \<Rightarrow> metrics" where
  "sample_job p m = fold sample_source (filter so_active (pl_sources p)) (m\<lparr>mx_inflight := mx_inflight m + 1\<rparr>)"

definition metrics_sample :: "clocks \<Rightarrow> registry \<Rightarrow> metrics" where
  "metrics_sample c rg = fold sample_job (list_jobs True (rg_max rg) c rg)
     \<lparr>mx_queued = 0, mx_inflight = 0, mx_ratio = [], mx_rate = [], mx_eta = [], mx_stalled = [], mx_backlog = 0\<rparr>"

end
