(* ===== verification/JobClaims.thy ===== *)
theory JobClaims
  imports JobRegistry
begin

text \<open>
  What the job registry keeps, whatever is asked of it: the operations as one step function, the
  invariant of the reachable registries, and the properties of records, eviction and outcomes.
\<close>

section \<open>Everything that can happen to a registry\<close>

datatype reg_op =
    Create string string string "string list"
  | Progress string progress_update "string option"
  | Finish string string "string option"
  | FinishSource string string string
  | Clear "string option"
  | Heartbeat
  | Subscribe
  | Unsubscribe nat
  | Drain nat
  | Elsewhere snap_op

fun reg_step :: "reg_op \<times> clocks \<Rightarrow> registry \<Rightarrow> registry" where
  "reg_step (Create jid kind label targets, c) rg = create_job jid kind label targets c rg"
| "reg_step (Progress jid u source, c) rg = progress jid u source c rg"
| "reg_step (Finish jid status error, c) rg = finish_job jid status error c rg"
| "reg_step (FinishSource jid source status, c) rg = finish_source jid source status c rg"
| "reg_step (Clear jid, c) rg = snd (clear_jobs jid (wall c) rg)"
| "reg_step (Heartbeat, c) rg = registry_heartbeat c rg"
| "reg_step (Subscribe, c) rg = snd (subscribe rg)"
| "reg_step (Unsubscribe n, c) rg = unsubscribe n rg"
| "reg_step (Drain n, c) rg = snd (drain_subscriber n rg)"
| "reg_step (Elsewhere op, c) rg =
     rg\<lparr>rg_shared := (case rg_shared rg of None \<Rightarrow> None | Some st \<Rightarrow> Some (snap_step (op, wall c) st))\<rparr>"

definition reg_run :: "(reg_op \<times> clocks) list \<Rightarrow> registry \<Rightarrow> registry" where
  "reg_run ops rg = fold reg_step ops rg"

section \<open>What publishing leaves alone\<close>

lemma publish_keeps [simp]:
  "rg_jobs (publish_job j c rg) = rg_jobs rg" "rg_order (publish_job j c rg) = rg_order rg"
  "rg_max (publish_job j c rg) = rg_max rg"
  by (simp_all add: publish_job_def Let_def)

lemma publish_each_keeps:
  "rg_jobs (fold (\<lambda>j. publish_job j c) js rg) = rg_jobs rg \<and>
   rg_order (fold (\<lambda>j. publish_job j c) js rg) = rg_order rg \<and> rg_max (fold (\<lambda>j. publish_job j c) js rg) = rg_max rg"
  by (induction js arbitrary: rg) simp_all

lemma heartbeat_keeps [simp]:
  "rg_jobs (registry_heartbeat c rg) = rg_jobs rg" "rg_order (registry_heartbeat c rg) = rg_order rg"
  "rg_max (registry_heartbeat c rg) = rg_max rg"
  using publish_each_keeps by (auto simp: registry_heartbeat_def Let_def split: option.splits)

lemma put_job_simps [simp]:
  "rg_jobs (put_job jid j rg) = AList.update jid j (rg_jobs rg)" "rg_order (put_job jid j rg) = rg_order rg"
  "rg_max (put_job jid j rg) = rg_max rg"
  by (simp_all add: put_job_def)

section \<open>Eviction\<close>

definition is_over :: "job \<Rightarrow> bool" where "is_over j \<longleftrightarrow> \<not> job_active j"

lemma filter_delete_other:
  assumes "distinct (map fst jobs)" "map_of jobs i = Some j" "\<not> P j"
  shows "filter (\<lambda>(_, j). P j) (AList.delete i jobs) = filter (\<lambda>(_, j). P j) jobs"
proof -
  have "\<not> P j'" if "(i, j') \<in> set jobs" for j'
    using that assms by (metis map_of_eq_Some_iff option.inject)
  then show ?thesis by (auto simp: AList.delete_eq intro!: filter_cong)
qed

lemma length_delete:
  assumes "distinct (map fst jobs)" "map_of jobs i = Some j"
  shows "Suc (length (AList.delete i jobs)) = length jobs"
  using assms
proof (induction jobs)
  case (Cons kv rest)
  show ?case
  proof (cases "fst kv = i")
    case True
    then have "AList.delete i rest = rest"
      unfolding AList.delete_eq using Cons.prems(1) by (intro filter_True) (auto intro: rev_image_eqI)
    with True show ?thesis by (cases kv) simp
  qed (use Cons in \<open>cases kv; simp\<close>)
qed simp

text \<open>
  The loop removes only jobs that are over; it removes as many as it was told to, or none of those
  it looked at that is left is over; and what is left is still listed.
\<close>

lemma evict_loop_correct:
  assumes "evict_loop n jobs ids = (jobs', keep)" "distinct (map fst jobs)"
  shows "filter (\<lambda>(_, j). job_active j) jobs' = filter (\<lambda>(_, j). job_active j) jobs \<and>
    set jobs' \<subseteq> set jobs \<and> distinct (map fst jobs') \<and>
    (length jobs' + n = length jobs \<or> (\<forall>i \<in> set ids. \<forall>j. map_of jobs' i = Some j \<longrightarrow> job_active j)) \<and>
    set ids \<inter> fst ` set jobs' \<subseteq> set keep"
  using assms
proof (induction n jobs ids arbitrary: jobs' keep rule: evict_loop.induct)
  case (2 n jobs i ids)
  show ?case
  proof (cases "0 < n \<and> (\<exists>j. map_of jobs i = Some j \<and> \<not> job_active j)")
    case True
    then obtain j where j: "0 < n" "map_of jobs i = Some j" "\<not> job_active j" by blast
    let ?rest = "AList.delete i jobs"
    have e: "evict_loop (n - 1) ?rest ids = (jobs', keep)" using "2.prems"(1) j by simp
    have d: "distinct (map fst ?rest)" using "2.prems"(2) by (rule distinct_delete)
    have cond: "0 < n \<and> (case map_of jobs i of None \<Rightarrow> False | Some j \<Rightarrow> \<not> job_active j)" using j by simp
    note IH = "2.IH"(1)[OF cond e d]
    have gone: "i \<notin> fst ` set jobs'"
      using IH by (auto simp: AList.delete_eq)
    then have "map_of jobs' i = None" by (simp add: map_of_eq_None_iff)
    moreover have "set ?rest \<subseteq> set jobs" by (auto simp: AList.delete_eq)
    ultimately show ?thesis
      using IH gone filter_delete_other[OF "2.prems"(2) j(2), of job_active] j length_delete[OF "2.prems"(2) j(2)]
      by auto
  next
    case False
    then have cond: "\<not> (0 < n \<and> (case map_of jobs i of None \<Rightarrow> False | Some j \<Rightarrow> \<not> job_active j))"
      by (auto split: option.splits)
    obtain jobs1 keep1 where e: "evict_loop n jobs ids = (jobs1, keep1)" by (cases "evict_loop n jobs ids")
    have r: "jobs' = jobs1" "keep = i # keep1" using "2.prems"(1) cond e by auto
    note IH = "2.IH"(2)[OF cond e "2.prems"(2)]
    have i: "job_active j" if "map_of jobs1 i = Some j" "0 < n" for j
    proof -
      have "(i, j) \<in> set jobs" using that IH by (auto dest: map_of_SomeD)
      then have "map_of jobs i = Some j" using "2.prems"(2) by simp
      with False that show ?thesis by auto
    qed
    have "length jobs1 = length jobs" if "n = 0"
    proof -
      have "evict_loop 0 jobs ids = (jobs, ids)" by (induction ids) simp_all
      with that e show ?thesis by simp
    qed
    with IH i r show ?thesis by (cases n) auto
  qed
qed simp

section \<open>The invariant\<close>

text \<open>A job that is over has no record that still runs, and the dict's keys are listed ids.\<close>

definition job_settled :: "job \<Rightarrow> bool" where
  "job_settled j \<longleftrightarrow> job_active j \<or> filter is_active (records j) = []"

definition reg_ok :: "registry \<Rightarrow> bool" where
  "reg_ok rg \<longleftrightarrow> distinct (map fst (rg_jobs rg)) \<and> fst ` set (rg_jobs rg) \<subseteq> set (rg_order rg) \<and>
     (\<forall>(i, j) \<in> set (rg_jobs rg). j_id j = i \<and> job_settled j)"

lemma reg_ok_new: "reg_ok (new_registry m sh)"
  by (simp add: reg_ok_def new_registry_def)

lemma reg_ok_cong:
  assumes "rg_jobs rg' = rg_jobs rg" "rg_order rg' = rg_order rg"
  shows "reg_ok rg' = reg_ok rg"
  using assms by (simp add: reg_ok_def)

lemma reg_ok_publish [simp]: "reg_ok (publish_job j c rg) = reg_ok rg"
  by (rule reg_ok_cong) simp_all

lemma reg_ok_job:
  assumes "reg_ok rg" "job_of rg i = Some j" shows "j_id j = i" "job_settled j" "i \<in> set (rg_order rg)"
  using assms map_of_SomeD[OF assms(2)] by (force simp: reg_ok_def)+

lemma reg_ok_put:
  assumes "reg_ok rg" "i \<in> set (rg_order rg)" "j_id j = i" "job_settled j"
  shows "reg_ok (put_job i j rg)"
  using assms unfolding reg_ok_def by (auto simp: distinct_update dom_update dest!: in_update)

lemma job_active_status: "job_active j = (j_status j \<notin> set TERMINAL)"
  by (simp add: job_active_def)

lemma source_record_keeps [simp]:
  "j_id (source_record n c j) = j_id j" "j_status (source_record n c j) = j_status j"
  by (simp_all add: source_record_def)

lemma new_job_simps [simp]: "j_id (new_job jid kind label targets c) = jid" "job_active (new_job jid kind label targets c)"
proof -
  have "j_id (fold (\<lambda>t. source_record t c) ts j) = j_id j \<and> j_status (fold (\<lambda>t. source_record t c) ts j) = j_status j" for ts j
    by (induction ts arbitrary: j) simp_all
  then show "j_id (new_job jid kind label targets c) = jid" "job_active (new_job jid kind label targets c)"
    by (simp_all add: new_job_def job_active_status TERMINAL_def)
qed

lemma job_progressed_keeps [simp]:
  "j_id (job_progressed u source c j) = j_id j" "job_active (job_progressed u source c j) = job_active j"
proof -
  have "j_id (job_progressed u source c j) = j_id j \<and> j_status (job_progressed u source c j) = j_status j"
    by (auto simp: job_progressed_def update_target_def log_detail_def Let_def split: option.splits prod.splits)
  then show "j_id (job_progressed u source c j) = j_id j" "job_active (job_progressed u source c j) = job_active j"
    by (simp_all add: job_active_status)
qed

lemma fill_current_keeps [simp]:
  "j_id (fill_current j) = j_id j" "j_status (fill_current j) = j_status j" "j_sources (fill_current j) = j_sources j"
  by (simp_all add: fill_current_def split: option.splits)

lemma set_headline_keeps [simp]:
  "j_id (set_headline h j) = j_id j" "j_status (set_headline h j) = j_status j" "j_sources (set_headline h j) = j_sources j"
  by (simp_all add: set_headline_def)

lemma job_finished_keeps [simp]:
  "j_id (job_finished status e c j) = j_id j" "j_status (job_finished status e c j) = status"
  "j_sources (job_finished status e c j) =
     map (\<lambda>(n, r). (n, if is_active r then finish_record status c r else r)) (j_sources j)"
  by (simp_all add: job_finished_def finish_sources_def)

lemma job_finished_settled: "job_settled (job_finished status e c j)"
  by (auto simp: job_settled_def job_active_status records_def filter_empty_conv is_active_def)

lemma evict_jobs_correct:
  assumes "reg_ok rg"
  shows "reg_ok (evict_jobs rg)"
    and "filter (\<lambda>(_, j). job_active j) (rg_jobs (evict_jobs rg)) = filter (\<lambda>(_, j). job_active j) (rg_jobs rg)"
    and "set (rg_jobs (evict_jobs rg)) \<subseteq> set (rg_jobs rg)"
    and "length (rg_jobs (evict_jobs rg)) \<le> rg_max rg \<or> list_all (\<lambda>(_, j). job_active j) (rg_jobs (evict_jobs rg))"
    and "rg_max (evict_jobs rg) = rg_max rg"
proof -
  have len: "length (rg_jobs rg) \<le> length (rg_order rg)"
  proof -
    have "length (rg_jobs rg) = card (fst ` set (rg_jobs rg))"
      using assms distinct_card[of "map fst (rg_jobs rg)"] by (simp add: reg_ok_def)
    also have "\<dots> \<le> card (set (rg_order rg))" using assms by (intro card_mono) (simp_all add: reg_ok_def)
    also have "\<dots> \<le> length (rg_order rg)" by (rule card_length)
    finally show ?thesis .
  qed
  have "reg_ok (evict_jobs rg) \<and>
    filter (\<lambda>(_, j). job_active j) (rg_jobs (evict_jobs rg)) = filter (\<lambda>(_, j). job_active j) (rg_jobs rg) \<and>
    set (rg_jobs (evict_jobs rg)) \<subseteq> set (rg_jobs rg) \<and>
    (length (rg_jobs (evict_jobs rg)) \<le> rg_max rg \<or> list_all (\<lambda>(_, j). job_active j) (rg_jobs (evict_jobs rg)))
    \<and> rg_max (evict_jobs rg) = rg_max rg"
  proof (cases "length (rg_order rg) \<le> rg_max rg")
    case False
    let ?n = "length (rg_order rg) - rg_max rg"
    obtain jobs keep where e: "evict_loop ?n (rg_jobs rg) (rg_order rg) = (jobs, keep)"
      by (cases "evict_loop ?n (rg_jobs rg) (rg_order rg)")
    have ev: "evict_jobs rg = rg\<lparr>rg_jobs := jobs, rg_order := keep\<rparr>" using False e by (simp add: evict_jobs_def)
    have loop: "filter (\<lambda>(_, j). job_active j) jobs = filter (\<lambda>(_, j). job_active j) (rg_jobs rg)"
      "set jobs \<subseteq> set (rg_jobs rg)" "distinct (map fst jobs)"
      "length jobs + ?n = length (rg_jobs rg) \<or> (\<forall>i \<in> set (rg_order rg). \<forall>j. map_of jobs i = Some j \<longrightarrow> job_active j)"
      "set (rg_order rg) \<inter> fst ` set jobs \<subseteq> set keep"
      using evict_loop_correct[OF e] assms unfolding reg_ok_def by blast+
    have listed: "fst ` set jobs \<subseteq> set (rg_order rg)" using loop(2) assms by (auto simp: reg_ok_def)
    have "fst ` set jobs \<subseteq> set keep" using loop(5) listed by blast
    then have "reg_ok (evict_jobs rg)" using loop(2,3) assms unfolding reg_ok_def ev by auto
    moreover have "length jobs \<le> rg_max rg \<or> list_all (\<lambda>(_, j). job_active j) jobs"
      using loop(4)
    proof
      assume a: "\<forall>i \<in> set (rg_order rg). \<forall>j. map_of jobs i = Some j \<longrightarrow> job_active j"
      have "job_active j" if "(i, j) \<in> set jobs" for i j
      proof -
        have "i \<in> set (rg_order rg)" using that listed by force
        moreover have "map_of jobs i = Some j" using that loop(3) by simp
        ultimately show ?thesis using a by blast
      qed
      then show ?thesis by (auto simp: list_all_iff)
    next
      assume "length jobs + ?n = length (rg_jobs rg)"
      with len False have "length jobs \<le> rg_max rg" by linarith
      then show ?thesis ..
    qed
    ultimately show ?thesis using loop by (simp add: ev)
  qed (use assms len in \<open>simp add: evict_jobs_def\<close>)
  then show "reg_ok (evict_jobs rg)"
    "filter (\<lambda>(_, j). job_active j) (rg_jobs (evict_jobs rg)) = filter (\<lambda>(_, j). job_active j) (rg_jobs rg)"
    "set (rg_jobs (evict_jobs rg)) \<subseteq> set (rg_jobs rg)"
    "length (rg_jobs (evict_jobs rg)) \<le> rg_max rg \<or> list_all (\<lambda>(_, j). job_active j) (rg_jobs (evict_jobs rg))"
    "rg_max (evict_jobs rg) = rg_max rg"
    by blast+
qed

section \<open>Every operation keeps the invariant\<close>

lemma reg_ok_insert:
  assumes "reg_ok rg" "j_id j = i" "job_settled j"
  shows "reg_ok ((put_job i j rg)\<lparr>rg_order := rg_order rg @ [i]\<rparr>)"
  using assms unfolding reg_ok_def by (auto simp: distinct_update dom_update dest!: in_update)

lemma reg_ok_create:
  assumes "reg_ok rg" shows "reg_ok (create_job jid kind label targets c rg)"
  unfolding create_job_def Let_def reg_ok_publish
  using reg_ok_insert[OF assms, of "new_job jid kind label targets c" jid]
  by (intro evict_jobs_correct) (simp add: job_settled_def)

lemma reg_ok_progress:
  assumes "reg_ok rg" shows "reg_ok (progress jid u source c rg)"
  using assms reg_ok_job[OF assms]
  by (auto simp: progress_def Let_def job_settled_def intro!: reg_ok_put split: option.split)

lemma reg_ok_finish:
  assumes "reg_ok rg" shows "reg_ok (finish_job jid status e c rg)"
  using assms reg_ok_job[OF assms]
  by (auto simp: finish_job_def Let_def job_finished_settled intro!: reg_ok_put split: option.split)

lemma reg_ok_finish_source:
  assumes "reg_ok rg" shows "reg_ok (finish_source jid source status c rg)"
  using assms reg_ok_job[OF assms]
  by (auto simp: finish_source_def Let_def job_settled_def job_active_status intro!: reg_ok_put split: option.split)

lemma clear_jobs_keeps:
  "rg_jobs (snd (clear_jobs jid now rg)) = filter (\<lambda>(i, _). i \<notin> set (cleared_locally jid rg)) (rg_jobs rg)"
  "rg_order (snd (clear_jobs jid now rg)) = (if cleared_locally jid rg = [] then rg_order rg
     else filter (\<lambda>i. i \<in> fst ` set (rg_jobs (snd (clear_jobs jid now rg)))) (rg_order rg))"
  "rg_max (snd (clear_jobs jid now rg)) = rg_max rg"
  by (simp_all add: clear_jobs_def Let_def split: option.split prod.split)

lemma reg_ok_clear:
  assumes "reg_ok rg" shows "reg_ok (snd (clear_jobs jid now rg))"
proof -
  have d: "distinct (map fst (rg_jobs (snd (clear_jobs jid now rg))))"
    unfolding clear_jobs_keeps using assms by (intro distinct_map_filter) (simp add: reg_ok_def)
  have s: "set (rg_jobs (snd (clear_jobs jid now rg))) \<subseteq> set (rg_jobs rg)"
    unfolding clear_jobs_keeps by auto
  have "fst ` set (rg_jobs (snd (clear_jobs jid now rg))) \<subseteq> set (rg_order (snd (clear_jobs jid now rg)))"
    using s assms unfolding clear_jobs_keeps(2) reg_ok_def by auto
  with d s assms show ?thesis unfolding reg_ok_def by blast
qed

lemma reg_ok_step:
  assumes "reg_ok rg" shows "reg_ok (reg_step x rg)"
proof -
  have same: "reg_ok rg' = reg_ok rg" if "rg_jobs rg' = rg_jobs rg" "rg_order rg' = rg_order rg" for rg'
    using that by (rule reg_ok_cong)
  show ?thesis
    using assms
    by (cases "(x, rg)" rule: reg_step.cases)
      (auto simp: reg_ok_create reg_ok_progress reg_ok_finish reg_ok_finish_source reg_ok_clear
        subscribe_def unsubscribe_def drain_subscriber_def intro: same[THEN iffD2])
qed

lemma reg_ok_run: "reg_ok rg \<Longrightarrow> reg_ok (reg_run ops rg)"
  by (induction ops arbitrary: rg) (simp_all add: reg_run_def reg_ok_step)

abbreviation reached :: "nat \<Rightarrow> store option \<Rightarrow> (reg_op \<times> clocks) list \<Rightarrow> registry" where
  "reached max_records shared ops \<equiv> reg_run ops (new_registry max_records shared)"

lemma reg_ok_reached: "reg_ok (reached m sh ops)"
  by (rule reg_ok_run[OF reg_ok_new])

lemma drain_max [simp]: "rg_max (snd (drain_subscriber n rg)) = rg_max rg"
  by (simp add: drain_subscriber_def)

lemma max_step: "rg_max (reg_step x rg) = rg_max rg"
  by (cases "(x, rg)" rule: reg_step.cases)
    (simp_all add: create_job_def evict_jobs_def progress_def finish_job_def finish_source_def
      clear_jobs_keeps subscribe_def unsubscribe_def Let_def split: option.split prod.split)

lemma max_reached [simp]: "rg_max (reached m sh ops) = m"
proof -
  have "rg_max (reg_run ops rg) = rg_max rg" for rg
    by (induction ops arbitrary: rg) (simp_all add: reg_run_def max_step)
  then show ?thesis by (simp add: new_registry_def)
qed

section \<open>Records\<close>

text \<open>
  Claim C25: starting a job never loses a running one, and never lets the records pile up. Whatever
  has happened to the registry before, after \<open>create\<close> the running jobs are those that ran before,
  as they were, and the new one (in place of the record it replaces, when a queue task is retried
  under its id); and there are at most \<open>max_records\<close> records, or every record left is running.
\<close>

theorem create_keeps_running_bounds_records:
  "(let rg = reached max_records shared ops;
        rg' = create_job jid kind label targets c rg
    in filter (\<lambda>(_, j). job_active j) (rg_jobs rg') =
         filter (\<lambda>(_, j). job_active j) (AList.update jid (new_job jid kind label targets c) (rg_jobs rg))
     \<and> (length (rg_jobs rg') \<le> max_records \<or> list_all (\<lambda>(_, j). job_active j) (rg_jobs rg'))
     \<and> list_all (\<lambda>(i, j). if job_active j then True else filter is_active (records j) = []) (rg_jobs rg'))"
proof -
  let ?rg = "reached max_records shared ops" and ?j = "new_job jid kind label targets c"
  let ?with = "(put_job jid ?j ?rg)\<lparr>rg_order := rg_order ?rg @ [jid]\<rparr>"
  have ok: "reg_ok ?with" by (rule reg_ok_insert[OF reg_ok_reached]) (simp_all add: job_settled_def)
  have e: "rg_jobs (create_job jid kind label targets c ?rg) = rg_jobs (evict_jobs ?with)"
    by (simp add: create_job_def Let_def)
  have "list_all (\<lambda>(i, j). if job_active j then True else filter is_active (records j) = []) (rg_jobs (evict_jobs ?with))"
    using evict_jobs_correct(1)[OF ok] by (auto simp: reg_ok_def job_settled_def list_all_iff)
  with evict_jobs_correct[OF ok] show ?thesis unfolding Let_def e by simp
qed

section \<open>Outcomes\<close>

text \<open>What can still touch a job: ending it again, or making one of the same id.\<close>

definition renames :: "string \<Rightarrow> reg_op \<Rightarrow> bool" where
  "renames jid op = (case op of Create i _ _ _ \<Rightarrow> i = jid | Finish i _ _ \<Rightarrow> i = jid | _ \<Rightarrow> False)"

lemma in_map_of: "distinct (map fst xs) \<Longrightarrow> set ys \<subseteq> set xs \<Longrightarrow> map_of ys i = None \<or> map_of ys i = map_of xs i"
  by (metis map_of_SomeD map_of_eq_Some_iff not_None_eq subsetD)

lemma step_keeps_outcome:
  assumes "reg_ok rg" "job_of rg jid = None \<or> (\<exists>j. job_of rg jid = Some j \<and> \<not> job_active j)" "\<not> renames jid op"
  shows "job_of (reg_step (op, c) rg) jid = None \<or> job_of (reg_step (op, c) rg) jid = job_of rg jid"
proof (cases op)
  case (Create i kind label targets)
  then have i: "i \<noteq> jid" using assms(3) by (simp add: renames_def)
  let ?with = "(put_job i (new_job i kind label targets c) rg)\<lparr>rg_order := rg_order rg @ [i]\<rparr>"
  have ok: "reg_ok ?with" by (rule reg_ok_insert[OF assms(1)]) (simp_all add: job_settled_def)
  have "distinct (map fst (rg_jobs ?with))" using ok by (simp add: reg_ok_def)
  from in_map_of[OF this evict_jobs_correct(3)[OF ok], of jid] i show ?thesis
    unfolding Create by (simp add: create_job_def Let_def update_conv')
next
  case (Progress i u source)
  then show ?thesis using assms(2) by (auto simp: progress_def Let_def update_conv' split: option.split)
next
  case (Finish i status e)
  then show ?thesis using assms(2,3)
    by (auto simp: renames_def finish_job_def Let_def update_conv' split: option.split)
next
  case (FinishSource i source status)
  then show ?thesis using assms(2) by (auto simp: finish_source_def Let_def update_conv' split: option.split)
next
  case (Clear j)
  have "distinct (map fst (rg_jobs rg))" using assms(1) by (simp add: reg_ok_def)
  from in_map_of[OF this, of "rg_jobs (snd (clear_jobs j (wall c) rg))" jid] show ?thesis
    unfolding Clear clear_jobs_keeps reg_step.simps by auto
qed (simp_all add: subscribe_def unsubscribe_def drain_subscriber_def)

lemma run_keeps_outcome:
  assumes "reg_ok rg" "job_of rg jid = None \<or> (\<exists>j. job_of rg jid = Some j \<and> \<not> job_active j)"
    and "list_all (\<lambda>(op, _). \<not> renames jid op) ops"
  shows "job_of (reg_run ops rg) jid = None \<or> job_of (reg_run ops rg) jid = job_of rg jid"
  using assms
proof (induction ops arbitrary: rg)
  case (Cons x ops)
  obtain op c where x: "x = (op, c)" by (cases x)
  let ?next = "reg_step x rg"
  have s: "job_of ?next jid = None \<or> job_of ?next jid = job_of rg jid"
    unfolding x by (rule step_keeps_outcome[OF Cons.prems(1,2)]) (use Cons.prems(3) x in simp)
  then have "job_of (reg_run ops ?next) jid = None \<or> job_of (reg_run ops ?next) jid = job_of ?next jid"
    using Cons.prems by (intro Cons.IH reg_ok_step) auto
  with s show ?case by (auto simp: reg_run_def)
qed (simp add: reg_run_def)

text \<open>
  Claim C23: an outcome is final. Once a job has been ended with a terminal status, then whatever
  happens later (late progress, a source ending, other jobs, eviction, clearing, other processes),
  short of ending it again or starting another of the same id, its record is gone or is exactly what
  the ending left, and no source in it still counts as running.
\<close>

theorem outcome_is_final:
  assumes "job_of (reached max_records shared ops) jid = Some j" and "status \<in> set TERMINAL"
    and "list_all (\<lambda>(op, _). \<not> renames jid op) later"
  shows "(let outcome = job_finished status error c j
    in (case job_of (reached max_records shared (ops @ (Finish jid status error, c) # later)) jid of
         None \<Rightarrow> True | Some j' \<Rightarrow> j' = outcome)
     \<and> j_status outcome = status \<and> filter is_active (records outcome) = [])"
proof -
  define outcome where "outcome = job_finished status error c j"
  let ?rg = "reached max_records shared ops" and ?done = "reg_step (Finish jid status error, c) (reached max_records shared ops)"
  have over: "\<not> job_active outcome" using assms(2) by (simp add: outcome_def job_active_status)
  have d: "job_of ?done jid = Some outcome"
    using assms(1) by (simp add: finish_job_def Let_def update_conv' outcome_def)
  have "job_of (reg_run later ?done) jid = None \<or> job_of (reg_run later ?done) jid = job_of ?done jid"
    using d over by (intro run_keeps_outcome[OF reg_ok_step[OF reg_ok_reached] _ assms(3)]) auto
  moreover have "reached max_records shared (ops @ (Finish jid status error, c) # later) = reg_run later ?done"
    by (simp add: reg_run_def)
  moreover have "job_settled outcome" unfolding outcome_def by (rule job_finished_settled)
  ultimately show ?thesis using d over by (auto simp: job_settled_def outcome_def)
qed

definition clk :: "int \<Rightarrow> clocks" where
  "clk s = \<lparr>wall = seconds s, mono = of_int s\<rparr>"

definition phase_update :: "string \<Rightarrow> int \<Rightarrow> int option \<Rightarrow> progress_update" where
  "phase_update phase n whole =
     \<lparr>pu_phase = Some phase, pu_current = Some n, pu_total = whole, pu_detail = None, pu_stats = None\<rparr>"

lemma outcome_is_final_witness:
  "(let outcome = job_finished ''failed'' None (clk 9) (new_job ''a'' ''sync'' [] [''s''] (clk 0))
    in (case job_of (reached 5 None ([(Create ''a'' ''sync'' [] [''s''], clk 0)] @ (Finish ''a'' ''failed'' None, clk 9) #
           [(Progress ''a'' (phase_update ''embedding'' 3 None) None, clk 10), (Create ''b'' ''sync'' [] [], clk 11)])) ''a'' of
         None \<Rightarrow> True | Some j' \<Rightarrow> j' = outcome)
     \<and> j_status outcome = ''failed'' \<and> filter is_active (records outcome) = [])"
  by (rule outcome_is_final)
    (simp_all add: reg_run_def new_registry_def create_job_def Let_def evict_jobs_def put_job_def
      renames_def TERMINAL_def)

section \<open>Where the comments promise more\<close>

text \<open>A second \<open>finish\<close> does change a job that is over: nothing checks that it runs.\<close>

lemma second_finish_overwrites:
  "map_option j_status (job_of (reached 5 None [(Create ''a'' ''sync'' [] [], clk 0),
      (Finish ''a'' ''failed'' None, clk 1), (Finish ''a'' ''succeeded'' None, clk 2)]) ''a'') = Some ''succeeded''"
  by (simp add: reg_run_def new_registry_def create_job_def finish_job_def put_job_def evict_jobs_def Let_def update_conv')

text \<open>
  The status \<open>finish\<close> writes as the job's phase is overwritten by the rollup it then takes, when the
  job has a source: the phase of a job that succeeded is the last phase of a source.
\<close>

lemma headline_is_not_status:
  assumes "records j \<noteq> []"
  shows "\<exists>r \<in> set (records j). jp_phase (j_progress (job_finished status e c j)) = sp_phase r"
proof -
  let ?j = "set_headline status (finish_sources status c
       (j\<lparr>j_status := status, j_error := e, j_finished_at := Some (utc_now c)\<rparr>))"
  have rs: "records ?j = map (\<lambda>r. if is_active r then finish_record status c r else r) (records j)"
    by (auto simp: records_def finish_sources_def)
  have ph: "sp_phase (finish_record status c r) = sp_phase r" for r
    by (simp add: finish_record_def Let_def split: option.split)
  have f: "jp_phase (j_progress (fill_current x)) = jp_phase (j_progress x)" for x
    by (simp add: fill_current_def split: option.split)
  define active where "active = (if filter is_active (records ?j) = [] then records ?j else filter is_active (records ?j))"
  have ne: "active \<noteq> []" "set active \<subseteq> set (records ?j)" using assms by (auto simp: active_def rs)
  let ?newest = "py_min_by (\<lambda>r. - last_monotonic r) (hd active) (tl active)"
  have "?newest \<in> set active" using py_min_by_in[of _ "hd active" "tl active"] ne(1) by (metis list.collapse)
  with ne(2) have "?newest \<in> set (records ?j)" by blast
  then obtain r where r: "r \<in> set (records j)" "sp_phase ?newest = sp_phase r" unfolding rs by (auto simp: ph)
  have "jp_phase (j_progress (job_finished status e c j)) = sp_phase ?newest"
    using assms unfolding job_finished_def f by (simp add: recompute_def Let_def active_def rs)
  with r show ?thesis by metis
qed

text \<open>A subscriber whose queue is full gets neither this update nor, if it stays full, the terminal one.\<close>

lemma full_queue_misses_outcome:
  assumes "length q = SUBSCRIBER_QUEUE" "rg_subscribers rg = [q]"
  shows "rg_subscribers (finish_job jid status e c rg) = [q]"
  using assms by (simp add: finish_job_def publish_job_def put_job_def offer_def Let_def split: option.split)

text \<open>
  The ids of queue tasks are content-addressed, so one id is used again by every later sync of a
  source. The list of ids then grows by one for each, whatever the cap: the earlier entries name the
  job that is running, so \<open>_evict\<close> keeps them, and counts them against the cap of the others.
\<close>

definition run_task :: "string \<Rightarrow> registry \<Rightarrow> registry" where
  "run_task jid rg = finish_job jid ''succeeded'' None (clk 1) (create_job jid ''sync'' [] [] (clk 0) rg)"

lemma evict_loop_one_running:
  assumes "job_active j"
  shows "evict_loop n [(jid, j)] (replicate k jid) = ([(jid, j)], replicate k jid)"
  using assms by (induction k) simp_all

lemma retried_task_grows_order:
  "rg_order ((run_task jid ^^ k) (new_registry m None)) = replicate k jid"
proof -
  have inv: "rg_order rg = replicate k jid \<and> (rg_jobs rg = [] \<or> (\<exists>j. rg_jobs rg = [(jid, j)])) \<longrightarrow>
    rg_order (run_task jid rg) = replicate (Suc k) jid \<and> (\<exists>j. rg_jobs (run_task jid rg) = [(jid, j)])" for rg k
    by (auto simp: run_task_def finish_job_def create_job_def evict_jobs_def Let_def put_job_def
      evict_loop_one_running replicate_append_same simp flip: replicate_Suc split: option.split)
  have "rg_order ((run_task jid ^^ k) (new_registry m None)) = replicate k jid \<and>
    (rg_jobs ((run_task jid ^^ k) (new_registry m None)) = [] \<or>
     (\<exists>j. rg_jobs ((run_task jid ^^ k) (new_registry m None)) = [(jid, j)]))"
    by (induction k) (use inv in \<open>auto simp: new_registry_def\<close>)
  then show ?thesis by blast
qed

end
