(* ===== verification/Criteria.thy ===== *)
theory Criteria
  imports PyText "HOL-Library.List_Lexorder" "HOL-Library.Char_ord"
begin

text \<open>
  The per-call retrieval criteria every surface shares: \<open>src/pheasant/search/criteria.py\<close>.

  Texts are ASCII. A hit is a record of the keys the filters read, \<open>None\<close> for a missing key. A
  condition the text arm puts into SQL is a value of \<open>path_clause\<close>, read over a row by
  \<open>clause_holds\<close>: \<open>substr(x, 1, n)\<close> is the first \<open>n\<close> characters, \<open>=\<close> and \<open>NOT IN\<close> compare text.
\<close>

section \<open>Hits\<close>

record provenance =
  pv_source_id :: "string option"
  pv_relative_path :: "string option"
  pv_source_type :: "string option"

text \<open>A score is missing, a number, or something \<open>float\<close> refuses.\<close>

datatype hit_score = NoScore | Score rat | NotANumber

record search_hit =
  sh_node_id :: "string option"
  sh_type :: "string option"
  sh_provenance :: "provenance option"
  sh_source_id :: "string option"
  sh_source :: "string option"
  sh_source_type :: "string option"
  sh_relative_path :: "string option"
  sh_heading_path :: "string option"
  sh_score :: hit_score

text \<open>\<open>provenance[key]\<close> when it is there and not empty, else the hit's own key\<close>

definition from_provenance :: "(provenance \<Rightarrow> string option) \<Rightarrow> string \<Rightarrow> search_hit \<Rightarrow> string" where
  "from_provenance key d h = (case sh_provenance h of
       None \<Rightarrow> d
     | Some pv \<Rightarrow> str_or (key pv) d)"

definition hit_path :: "search_hit \<Rightarrow> string" where
  "hit_path h = from_provenance pv_relative_path (str_or (sh_relative_path h) []) h"

definition hit_source :: "search_hit \<Rightarrow> string" where
  "hit_source h = from_provenance pv_source_id (str_or (sh_source_id h) (str_or (sh_source h) [])) h"

definition hit_source_type :: "search_hit \<Rightarrow> string" where
  "hit_source_type h = from_provenance pv_source_type (str_or (sh_source_type h) []) h"

section \<open>The post-filters\<close>

record criteria =
  cr_exclude_sources :: "string list"
  cr_node_types :: "string list"
  cr_min_score :: "rat option"
  cr_source_types :: "string list"
  cr_exclude_source_types :: "string list"
  cr_source_names :: "string list"

definition keeps_hit :: "criteria \<Rightarrow> search_hit \<Rightarrow> bool" where
  "keeps_hit cr h =
     (if cr_exclude_sources cr \<noteq> [] \<and> hit_source h \<in> set (cr_exclude_sources cr) then False
      else if cr_source_names cr \<noteq> [] \<and> hit_source h \<notin> set (cr_source_names cr) then False
      else if cr_node_types cr \<noteq> [] \<and> str_or (sh_type h) [] \<notin> set (cr_node_types cr) then False
      else if cr_source_types cr \<noteq> [] \<and> hit_source_type h \<notin> set (cr_source_types cr) then False
      else if hit_source_type h \<noteq> [] \<and> hit_source_type h \<in> set (cr_exclude_source_types cr) then False
      else (case cr_min_score cr of
              None \<Rightarrow> True
            | Some least \<Rightarrow> (case sh_score h of
                NoScore \<Rightarrow> \<not> 0 < least | Score s \<Rightarrow> \<not> s < least | NotANumber \<Rightarrow> False)))"

definition apply_retrieval_criteria :: "criteria \<Rightarrow> search_hit list \<Rightarrow> search_hit list" where
  "apply_retrieval_criteria cr results = filter (keeps_hit cr) results"

definition criteria_active :: "criteria \<Rightarrow> bool" where
  "criteria_active cr \<longleftrightarrow> cr_exclude_sources cr \<noteq> [] \<or> cr_node_types cr \<noteq> [] \<or> cr_min_score cr \<noteq> None \<or>
     cr_source_types cr \<noteq> [] \<or> cr_exclude_source_types cr \<noteq> [] \<or> cr_source_names cr \<noteq> []"

text \<open>One spelling for each scope: one name filters inside the index, several after it.\<close>

definition scoped_sources :: "string option \<Rightarrow> string list option \<Rightarrow> string option \<times> string list option" where
  "scoped_sources source_name source_names =
     (let given = filter (\<lambda>n. n \<noteq> []) (map py_strip (list_or source_names));
          names = dict_fromkeys (case source_name of
            Some (c # cs) \<Rightarrow> if given = [] then given else (c # cs) # given | _ \<Rightarrow> given)
      in case names of
           [] \<Rightarrow> (source_name, None)
         | [n] \<Rightarrow> (Some n, None)
         | _ \<Rightarrow> (None, Some names))"

text \<open>The type of each hit's source, written into its provenance\<close>

definition stamp_source_type :: "(string \<times> string) list \<Rightarrow> search_hit \<Rightarrow> search_hit" where
  "stamp_source_type types h = (case sh_provenance h of
       None \<Rightarrow> h
     | Some pv \<Rightarrow> (case map_of types (str_or (pv_source_id pv) []) of
         None \<Rightarrow> h
       | Some t \<Rightarrow> if t = [] then h else h\<lparr>sh_provenance := Some (pv\<lparr>pv_source_type := Some t\<rparr>)\<rparr>))"

definition stamp_source_types :: "(string \<times> string) list \<Rightarrow> search_hit list \<Rightarrow> search_hit list" where
  "stamp_source_types types results = (if types = [] then results else map (stamp_source_type types) results)"

section \<open>A section of a document\<close>

definition section_needle :: "string option \<Rightarrow> string" where
  "section_needle sec = py_lower (py_strip (str_or sec []))"

definition section_matches :: "string option \<Rightarrow> string option \<Rightarrow> bool" where
  "section_matches heading_path sec =
     (let needle = section_needle sec
      in if needle = [] then True else contains needle (py_lower (str_or heading_path [])))"

text \<open>The text arm's form, in \<open>search/sqlite_store.py\<close>: \<open>LOWER(COALESCE(heading_path, '')) LIKE '%needle%'\<close>\<close>

definition section_sql :: "string option \<Rightarrow> string option \<Rightarrow> bool" where
  "section_sql heading_path sec =
     (let needle = section_needle sec
      in if needle = [] then True
         else like (CHR ''%'' # needle @ [CHR ''%'']) (py_lower (str_or heading_path [])))"

section \<open>A folder or a file of a source\<close>

text \<open>A backslash\<close>

definition bs :: char where "bs = CHR 0x5C"

definition slashed :: "string \<Rightarrow> string" where
  "slashed p = map (\<lambda>c. if c = bs then CHR ''/'' else c) p"

definition path_segments :: "string \<Rightarrow> string list" where
  "path_segments p = filter (\<lambda>s. s \<noteq> [] \<and> s \<noteq> ''.'' \<and> s \<noteq> ''..'') (split_char (CHR ''/'') (slashed p))"

definition path_scope :: "string option \<Rightarrow> string" where
  "path_scope path = join_with ''/'' (path_segments (str_or path []))"

text \<open>\<open>strip(c)\<close>\<close>

definition strip_char :: "char \<Rightarrow> string \<Rightarrow> string" where
  "strip_char c s = rev (dropWhile (\<lambda>x. x = c) (rev (dropWhile (\<lambda>x. x = c) s)))"

definition path_within :: "string option \<Rightarrow> string option \<Rightarrow> bool" where
  "path_within relative_path scope =
     (let wanted = path_scope scope
      in if wanted = [] then True
         else let have_path = strip_char (CHR ''/'') (slashed (str_or relative_path []))
              in have_path = wanted \<or> starts_with (wanted @ ''/'') have_path)"

record exclusion =
  ex_ids :: "string list"
  ex_pairs :: "(string \<times> string) list"

definition no_exclusion :: exclusion where "no_exclusion = \<lparr>ex_ids = [], ex_pairs = []\<rparr>"

definition excludes :: "exclusion \<Rightarrow> bool" where
  "excludes e \<longleftrightarrow> ex_ids e \<noteq> [] \<or> ex_pairs e \<noteq> []"

definition exclusion_admits :: "exclusion \<Rightarrow> search_hit \<Rightarrow> bool" where
  "exclusion_admits e h =
     (if str_or (sh_node_id h) [] \<in> set (ex_ids e) then False
      else (hit_source h, hit_path h) \<notin> set (ex_pairs e))"

definition in_scope :: "string option \<Rightarrow> exclusion option \<Rightarrow> search_hit \<Rightarrow> bool" where
  "in_scope scope exclude h \<longleftrightarrow> path_within (Some (hit_path h)) scope \<and>
     (case exclude of None \<Rightarrow> True | Some e \<Rightarrow> if excludes e then exclusion_admits e h else True)"

definition scope_hits :: "string option \<Rightarrow> exclusion option \<Rightarrow> search_hit list list \<Rightarrow> search_hit list list" where
  "scope_hits scope exclude arms = map (filter (in_scope scope exclude)) arms"

text \<open>
  The text arm's form. \<open>Within w n s\<close> stands for \<open>(path = w OR substr(path, 1, n) = s)\<close> with its
  three parameters, \<open>IdNotIn ids\<close> for \<open>id NOT IN (\<dots>)\<close> with its own.
\<close>

datatype path_clause = Within string nat string | IdNotIn "string list"

definition path_scope_sql :: "string option \<Rightarrow> exclusion option \<Rightarrow> path_clause list" where
  "path_scope_sql scope exclude =
     (let wanted = path_scope scope
      in (if wanted = [] then [] else [Within wanted (length wanted + 1) (wanted @ ''/'')]) @
         (case exclude of
            None \<Rightarrow> []
          | Some e \<Rightarrow> if excludes e \<and> ex_ids e \<noteq> [] then [IdNotIn (sort (remdups (ex_ids e)))] else []))"

fun clause_holds :: "path_clause \<Rightarrow> string \<Rightarrow> string \<Rightarrow> bool" where
  "clause_holds (Within w n s) row_id path \<longleftrightarrow> path = w \<or> take n path = s"
| "clause_holds (IdNotIn ids) row_id path \<longleftrightarrow> row_id \<notin> set ids"

definition sql_admits :: "path_clause list \<Rightarrow> string \<Rightarrow> string \<Rightarrow> bool" where
  "sql_admits cls row_id path \<longleftrightarrow> list_all (\<lambda>cl. clause_holds cl row_id path) cls"

section \<open>The two forms say the same\<close>

lemma prefix_take: "prefix p s \<longleftrightarrow> take (length p) s = p"
  by (metis append_eq_conv_conj prefix_def)

text \<open>A path as an index lists it: no backslash, and no slash at either end\<close>

definition listed_path :: "string \<Rightarrow> bool" where
  "listed_path p \<longleftrightarrow> bs \<notin> set p \<and> take 1 p \<noteq> ''/'' \<and> take 1 (rev p) \<noteq> ''/''"

lemma slashed_listed: "listed_path p \<Longrightarrow> slashed p = p"
  unfolding listed_path_def slashed_def by (intro map_idI) auto

lemma dropWhile_first: "take 1 p \<noteq> [c] \<Longrightarrow> dropWhile (\<lambda>x. x = c) p = p"
  by (cases p) auto

lemma strip_listed: "listed_path p \<Longrightarrow> strip_char (CHR ''/'') p = p"
  by (simp add: strip_char_def listed_path_def dropWhile_first)

lemma str_or_id [simp]: "str_or (Some p) [] = p"
  by (simp add: str_or_def)

text \<open>A folder or file scope selects the same listed paths in SQL and in Python.\<close>

lemma scope_forms_agree:
  assumes "listed_path p"
  shows "path_within (Some p) scope \<longleftrightarrow> sql_admits (path_scope_sql scope None) row_id p"
  using assms
  by (simp add: path_within_def path_scope_sql_def sql_admits_def slashed_listed strip_listed prefix_take Let_def)

lemma sql_admits_split:
  "sql_admits (path_scope_sql scope exclude) row_id p \<longleftrightarrow>
     sql_admits (path_scope_sql scope None) row_id p \<and>
     (case exclude of None \<Rightarrow> True | Some e \<Rightarrow> row_id \<notin> set (ex_ids e))"
  by (auto simp: path_scope_sql_def sql_admits_def Let_def excludes_def split: option.split)

text \<open>With an exclusion too, when it names a document by its id exactly if it names its path.\<close>

lemma scopes_agree:
  assumes "listed_path (hit_path h)"
    and "\<forall>e. exclude = Some e \<longrightarrow>
      (row_id \<in> set (ex_ids e) \<longleftrightarrow> (hit_source h, hit_path h) \<in> set (ex_pairs e)) \<and>
      (str_or (sh_node_id h) [] \<in> set (ex_ids e) \<longrightarrow> row_id \<in> set (ex_ids e))"
  shows "in_scope scope exclude h \<longleftrightarrow> sql_admits (path_scope_sql scope exclude) row_id (hit_path h)"
proof -
  have same: "path_within (Some (hit_path h)) scope \<longleftrightarrow> sql_admits (path_scope_sql scope None) row_id (hit_path h)"
    by (rule scope_forms_agree[OF assms(1)])
  show ?thesis
    using assms(2)
    by (auto simp: in_scope_def sql_admits_split[of scope exclude] same exclusion_admits_def excludes_def
      split: option.split)
qed

text \<open>A section filter means the same in both forms, when the section has no wildcard of \<open>LIKE\<close>.\<close>

lemma section_forms_agree:
  assumes "plain (section_needle sec)"
  shows "section_sql heading_path sec = section_matches heading_path sec"
  using like_contains[OF assms] by (simp add: section_sql_def section_matches_def Let_def)

text \<open>
  With one, they differ: the section \<open>max_rows\<close> also selects, in the text arm, what is under the
  heading \<open>max rows\<close>, which the other arms leave out.
\<close>

lemma section_wildcard_disagrees:
  "section_sql (Some ''max rows'') (Some ''max_rows'') \<and> \<not> section_matches (Some ''max rows'') (Some ''max_rows'')"
  by code_simp

text \<open>A scope never climbs out: no segment of it is a dot or two, or empty.\<close>

lemma split_join:
  assumes "\<forall>s \<in> set segs. CHR ''/'' \<notin> set s" "segs \<noteq> []"
  shows "split_char (CHR ''/'') (join_with ''/'' segs) = segs"
proof -
  have one: "split_char (CHR ''/'') s = [s]" if "CHR ''/'' \<notin> set s" for s
    using that by (induction s) auto
  have more: "split_char (CHR ''/'') (s @ CHR ''/'' # r) = s # split_char (CHR ''/'') r" if "CHR ''/'' \<notin> set s" for s r
    using that by (induction s) auto
  show ?thesis
    using assms
  proof (induction segs)
    case (Cons s segs)
    show ?case
    proof (cases segs)
      case Nil then show ?thesis using Cons one by (simp add: join_with_Cons)
    next
      case (Cons a list)
      then show ?thesis using Cons.IH Cons.prems more by (simp add: join_with_Cons)
    qed
  qed simp
qed

lemma split_parts: "s \<in> set (split_char c x) \<Longrightarrow> c \<notin> set s \<and> set s \<subseteq> set x"
proof (induction c x arbitrary: s rule: split_char.induct)
  case (2 c x xs)
  show ?case
  proof (cases "x = c")
    case True
    with 2 show ?thesis by auto
  next
    case False
    obtain q qs where q: "split_char c xs = q # qs" by (cases "split_char c xs") auto
    have IH: "c \<notin> set t \<and> set t \<subseteq> set xs" if "t \<in> set (q # qs)" for t
      using "2.IH"(2)[OF False] that q by auto
    from "2.prems" False q have "s = x # q \<or> s \<in> set qs" by auto
    with IH[of q] IH[of s] False show ?thesis by auto
  qed
qed simp

lemma slashed_idem: "bs \<notin> set p \<Longrightarrow> slashed p = p"
  unfolding slashed_def by (intro map_idI) auto

lemma path_scope_idem: "path_scope (Some (path_scope p)) = path_scope p"
proof (cases "path_segments (str_or p []) = []")
  case False
  let ?segs = "path_segments (str_or p [])"
  have parts: "CHR ''/'' \<notin> set s \<and> bs \<notin> set s \<and> s \<noteq> [] \<and> s \<noteq> ''.'' \<and> s \<noteq> ''..''" if s: "s \<in> set ?segs" for s
  proof -
    have "s \<in> set (split_char (CHR ''/'') (slashed (str_or p [])))" using s by (simp add: path_segments_def)
    from split_parts[OF this] have "CHR ''/'' \<notin> set s" "set s \<subseteq> set (slashed (str_or p []))" by auto
    moreover have "bs \<notin> set (slashed (str_or p []))" by (auto simp: slashed_def bs_def)
    moreover have "s \<noteq> [] \<and> s \<noteq> ''.'' \<and> s \<noteq> ''..''" using s by (simp add: path_segments_def)
    ultimately show ?thesis by blast
  qed
  have no_bs: "bs \<notin> set (join_with ''/'' segs)" if "\<forall>s \<in> set segs. bs \<notin> set s" for segs
    using that by (induction segs) (auto simp: join_with_Cons bs_def)
  have "slashed (path_scope p) = path_scope p"
    unfolding path_scope_def by (intro slashed_idem no_bs) (use parts in blast)
  moreover have "split_char (CHR ''/'') (path_scope p) = ?segs"
    unfolding path_scope_def by (rule split_join) (use parts False in blast)+
  ultimately have "path_segments (path_scope p) = filter (\<lambda>s. s \<noteq> [] \<and> s \<noteq> ''.'' \<and> s \<noteq> ''..'') ?segs"
    unfolding path_segments_def by (simp only:)
  also have "\<dots> = ?segs" using parts by (intro filter_True) blast
  finally have "path_segments (path_scope p) = ?segs" .
  then have "path_segments (str_or (Some (path_scope p)) []) = ?segs" by (simp only: str_or_id)
  then show ?thesis unfolding path_scope_def by (simp only:)
next
  case True
  then show ?thesis by (simp add: path_scope_def path_segments_def slashed_def)
qed

end
