(* ===== verification/Scope.thy ===== *)
theory Scope
  imports Criteria Acl "HOL-Library.AList"
begin

text \<open>
  Where a question or a search may look: \<open>src/pheasant/services/scope.py\<close>, with the rows and the
  reader it takes from \<open>src/pheasant/services/inventory.py\<close>.

  What the services read is a \<open>view\<close>: the rows of the artifacts table, the registered and the
  removed sources, and the access settings of the theory \<open>Acl\<close>. A refusal is an error value.
  Notes are values rather than their sentences; texts are ASCII, so the two curly quotes that
  \<open>_names\<close> also strips do not occur.
\<close>

section \<open>The rows and who may read them\<close>

definition MEMORY_ARTIFACT_TYPE :: string where "MEMORY_ARTIFACT_TYPE = ''memory_record''"

record doc_row =
  dr_id :: string
  dr_source :: string
  dr_path :: string
  dr_type :: string
  dr_size :: "int option"
  dr_indexed :: "instant option"
  dr_acl :: stored_acl

record kb_view =
  vw_rows :: "doc_row list"
  vw_sources :: "string list"
  vw_removed :: "string list"
  vw_access :: access_context

text \<open>\<open>ARTIFACT_SCOPE\<close>\<close>

definition in_inventory :: "kb_view \<Rightarrow> doc_row \<Rightarrow> bool" where
  "in_inventory v r \<longleftrightarrow> dr_type r \<noteq> MEMORY_ARTIFACT_TYPE \<and> take 2 (dr_source r) \<noteq> ''__'' \<and>
     dr_source r \<notin> set (vw_removed v)"

definition reader :: "kb_view \<Rightarrow> instant \<Rightarrow> caller \<Rightarrow> (doc_row \<Rightarrow> bool) option" where
  "reader v now who =
     (if \<not> acl_enforced (vw_access v) then None
      else Some (\<lambda>r. is_allowed (dr_acl r) (identities_of (vw_access v) now who) (default_public (vw_access v))))"

definition admit_rows :: "(doc_row \<Rightarrow> bool) option \<Rightarrow> doc_row list \<Rightarrow> doc_row list" where
  "admit_rows adm rows = (case adm of None \<Rightarrow> rows | Some f \<Rightarrow> filter f rows)"

section \<open>Names of documents\<close>

definition strip_chars :: "char list \<Rightarrow> string \<Rightarrow> string" where
  "strip_chars cs s = rev (dropWhile (\<lambda>x. x \<in> set cs) (rev (dropWhile (\<lambda>x. x \<in> set cs) s)))"

definition QUOTES :: "char list" where "QUOTES = [CHR 0x60, CHR 0x27, CHR 0x22]"

definition unquoted :: "string \<Rightarrow> string" where
  "unquoted s = py_strip (strip_chars QUOTES (py_strip s))"

definition names_of :: "string list option \<Rightarrow> string list" where
  "names_of raw = dict_fromkeys (filter (\<lambda>n. n \<noteq> [])
     (map unquoted (concat (map (split_char (CHR '','')) (list_or raw)))))"

definition is_artifact_id :: "string \<Rightarrow> bool" where
  "is_artifact_id name \<longleftrightarrow> starts_with ''file:'' name \<and> contains '':branch='' name"

definition escape_like :: "string \<Rightarrow> string" where
  "escape_like t = concat (map (\<lambda>c. if c = bs \<or> c = CHR ''%'' \<or> c = CHR ''_'' then [bs, c] else [c]) t)"

text \<open>\<open>LIKE ? ESCAPE '\'\<close>\<close>

function like_escaped :: "string \<Rightarrow> string \<Rightarrow> bool" where
  "like_escaped [] s \<longleftrightarrow> s = []"
| "like_escaped (c # p) s \<longleftrightarrow>
     (if c = bs then (case (p, s) of (q # p', t # ts) \<Rightarrow> q = t \<and> like_escaped p' ts | _ \<Rightarrow> False)
      else if c = CHR ''%'' then like_escaped p s \<or> (case s of [] \<Rightarrow> False | t # ts \<Rightarrow> like_escaped (c # p) ts)
      else (case s of [] \<Rightarrow> False | t # ts \<Rightarrow> (c = CHR ''_'' \<or> c = t) \<and> like_escaped p ts))"
  by pat_completeness auto
termination by (relation "measure (\<lambda>(p, s). length p + length s)") auto

text \<open>\<open>rsplit("/", 1)[-1]\<close>\<close>

definition after_last :: "char \<Rightarrow> string \<Rightarrow> string" where
  "after_last c s = rev (takeWhile (\<lambda>x. x \<noteq> c) (rev s))"

definition row_named :: "doc_row \<Rightarrow> string \<Rightarrow> bool" where
  "row_named r wanted \<longleftrightarrow>
     (let relative = py_lower (dr_path r); qualified = py_lower (dr_source r) @ ''/'' @ relative
      in wanted = relative \<or> wanted = qualified \<or> suffix (''/'' @ wanted) relative)"

definition row_scoped :: "kb_view \<Rightarrow> string option \<Rightarrow> string option \<Rightarrow> doc_row \<Rightarrow> bool" where
  "row_scoped v source_name path_prefix r \<longleftrightarrow> in_inventory v r \<and>
     (str_or source_name [] = [] \<or> Some (dr_source r) = source_name) \<and>
     sql_admits (path_scope_sql path_prefix None) (dr_id r) (dr_path r)"

definition doc_matches :: "kb_view \<Rightarrow> string \<Rightarrow> string option \<Rightarrow> string option \<Rightarrow> (doc_row \<Rightarrow> bool) option \<Rightarrow> doc_row list" where
  "doc_matches v name source_name path_prefix adm =
     (let base = filter (row_scoped v source_name path_prefix) (vw_rows v)
      in admit_rows adm
           (if is_artifact_id name then filter (\<lambda>r. dr_id r = name) base
            else let wanted = strip_char (CHR ''/'') (py_lower name); tail = after_last (CHR ''/'') wanted
                 in filter (\<lambda>r. row_named r wanted)
                      (filter (\<lambda>r. like_escaped (CHR ''%'' # escape_like tail) (py_lower (dr_path r))) base)))"

definition named :: "kb_view \<Rightarrow> instant \<Rightarrow> caller \<Rightarrow> string \<Rightarrow> string option \<Rightarrow> doc_row list" where
  "named v now who name source_name = doc_matches v name source_name None (reader v now who)"

section \<open>Resolving a scope\<close>

definition MAX_EXCLUDE_NAMES :: nat where "MAX_EXCLUDE_NAMES = 50"
definition MAX_EXCLUDED_DOCUMENTS :: nat where "MAX_EXCLUDED_DOCUMENTS = 500"

datatype scope_kind = FileKind | FolderKind
datatype scope_note = NoSuchName string | NeedsDocument "string option" | NeedsFolder
datatype scope_error = TooManyNames nat | DocumentNotFound string | TooManyDocuments nat

record scope =
  sc_source_name :: "string option"
  sc_path_prefix :: "string option"
  sc_kind :: "scope_kind option"
  sc_exclusion :: exclusion
  sc_excluded :: "string list"
  sc_unresolved :: "string list"
  sc_notes :: "scope_note list"
  sc_keywords :: "string list"
  sc_missing :: "string option"

definition scope_kind_of :: "kb_view \<Rightarrow> string option \<Rightarrow> string option \<Rightarrow> scope_kind option" where
  "scope_kind_of v source_name path_prefix = (case path_prefix of
       None \<Rightarrow> None
     | Some p \<Rightarrow>
         if str_or source_name [] \<noteq> [] \<and>
            list_ex (\<lambda>r. Some (dr_source r) = source_name \<and> dr_path r = p) (vw_rows v)
         then Some FileKind else Some FolderKind)"

definition bare_scope :: "kb_view \<Rightarrow> string option \<Rightarrow> string option \<Rightarrow> scope" where
  "bare_scope v source_name path_prefix = \<lparr>sc_source_name = source_name, sc_path_prefix = path_prefix,
     sc_kind = scope_kind_of v source_name path_prefix, sc_exclusion = no_exclusion, sc_excluded = [],
     sc_unresolved = [], sc_notes = [], sc_keywords = [], sc_missing = None\<rparr>"

text \<open>The loop over the names: the rows found, by id, and the names that name nothing\<close>

fun resolve_names :: "kb_view \<Rightarrow> string option \<Rightarrow> string option \<Rightarrow> (doc_row \<Rightarrow> bool) option \<Rightarrow> string list \<Rightarrow>
    (string \<times> doc_row) list \<Rightarrow> (string \<times> doc_row) list \<times> string list" where
  "resolve_names v source_name path_prefix adm [] rows = (rows, [])"
| "resolve_names v source_name path_prefix adm (name # names) rows =
     (let found = doc_matches v name source_name path_prefix adm;
          bounded = (str_or source_name [] \<noteq> [] \<or> path_prefix \<noteq> None);
          lost = (found = [] \<and> (if bounded then doc_matches v name None None adm = [] else True));
          (rows', unresolved) = resolve_names v source_name path_prefix adm names
            (AList.updates (map dr_id found) found rows)
      in (rows', if lost then name # unresolved else unresolved))"

definition resolve_scope :: "kb_view \<Rightarrow> instant \<Rightarrow> caller \<Rightarrow> string option \<Rightarrow> string option \<Rightarrow> string list option \<Rightarrow> bool \<Rightarrow>
    scope_error + scope" where
  "resolve_scope v now who source_name path_prefix exclude_documents strict =
     (let given = path_scope path_prefix;
          pre = (if given = [] then None else Some given);
          names = names_of exclude_documents;
          sc = bare_scope v source_name pre
      in if names = [] then Inr sc
         else if MAX_EXCLUDE_NAMES < length names then Inl (TooManyNames (length names))
         else (case resolve_names v source_name pre (reader v now who) names [] of
             (rows, unresolved) \<Rightarrow>
               if unresolved \<noteq> [] \<and> strict then Inl (DocumentNotFound (hd unresolved))
               else if MAX_EXCLUDED_DOCUMENTS < length rows then Inl (TooManyDocuments (length rows))
               else let ordered = sort_key (\<lambda>r. (dr_source r, dr_path r)) (map snd rows)
                    in Inr (sc\<lparr>sc_exclusion := \<lparr>ex_ids = map fst rows,
                           ex_pairs = map (\<lambda>r. (dr_source r, dr_path r)) ordered\<rparr>,
                         sc_excluded := map (\<lambda>r. dr_source r @ ''/'' @ dr_path r) ordered,
                         sc_unresolved := unresolved, sc_notes := map NoSuchName unresolved\<rparr>)))"

section \<open>Keywords\<close>

text \<open>\<open>str(PurePosixPath(p).parent)\<close> of a path that is not absolute\<close>

definition posix_parent :: "string \<Rightarrow> string" where
  "posix_parent p =
     (let parts = filter (\<lambda>s. s \<noteq> [] \<and> s \<noteq> ''.'') (split_char (CHR ''/'') p)
      in if length parts < 2 then ''.'' else join_with ''/'' (butlast parts))"

definition folder_of :: "string \<Rightarrow> string" where
  "folder_of p = strip_char (CHR ''.'') (posix_parent p)"

definition locate :: "kb_view \<Rightarrow> string option \<Rightarrow> bool \<Rightarrow> (string \<times> string) option" where
  "locate v locator directory =
     (let txt0 = unquoted (str_or locator [])
      in if txt0 = [] then None
         else if is_artifact_id txt0
         then (case filter (\<lambda>r. dr_id r = txt0) (vw_rows v) of
                 [] \<Rightarrow> None
               | r # _ \<Rightarrow> Some (dr_source r, if directory then folder_of (dr_path r) else dr_path r))
         else let bare = dropWhile (\<lambda>c. c = CHR ''/'') txt0;
                  head = takeWhile (\<lambda>c. c \<noteq> CHR ''/'') bare;
                  path = path_scope (Some (drop (Suc (length head)) bare))
              in if head \<notin> set (vw_sources v) then None
                 else if directory
                 then (if path = [] then Some (head, [])
                       else if list_ex (\<lambda>r. dr_source r = head \<and>
                           sql_admits (path_scope_sql (Some path) None) (dr_id r) (dr_path r)) (vw_rows v)
                       then Some (head, path) else None)
                 else if list_ex (\<lambda>r. dr_source r = head \<and> dr_path r = path) (vw_rows v)
                 then Some (head, path) else None)"

datatype scope_keyword = AtCurrent | AtDir

text \<open>Where a keyword points, or what is missing to read it against\<close>

definition keyword_place :: "kb_view \<Rightarrow> scope_keyword option \<Rightarrow> string option \<Rightarrow> string option \<Rightarrow>
    string option \<Rightarrow> string option \<Rightarrow> (string option \<times> string option) \<times> scope_note list \<times> string option" where
  "keyword_place v keyword current_document current_directory source_name path_prefix =
     (let document = (case str_or current_document [] of [] \<Rightarrow> None | d \<Rightarrow> locate v (Some d) False)
      in case keyword of
           None \<Rightarrow> ((source_name, path_prefix), [], None)
         | Some AtCurrent \<Rightarrow>
             (case document of
                Some (s, p) \<Rightarrow> ((Some s, Some p), [], None)
              | None \<Rightarrow> ((source_name, path_prefix),
                  [NeedsDocument (case str_or current_document [] of [] \<Rightarrow> None | d \<Rightarrow> Some d)],
                  Some ''@current''))
         | Some AtDir \<Rightarrow>
             (let located = (case str_or current_directory [] of
                      [] \<Rightarrow> (case document of None \<Rightarrow> None | Some (s, p) \<Rightarrow> Some (s, folder_of p))
                    | d \<Rightarrow> locate v (Some d) True)
              in case located of
                   Some (s, p) \<Rightarrow> ((Some s, if p = [] then None else Some p), [], None)
                 | None \<Rightarrow> ((source_name, path_prefix), [NeedsFolder], Some ''@dir'')))"

definition resolve_keywords :: "kb_view \<Rightarrow> instant \<Rightarrow> caller \<Rightarrow> scope_keyword option \<Rightarrow> string option \<Rightarrow> string option \<Rightarrow>
    string option \<Rightarrow> string option \<Rightarrow> string list option \<Rightarrow> string list \<Rightarrow> scope_error + scope" where
  "resolve_keywords v now who keyword current_document current_directory source_name path_prefix
     exclude_documents used =
     (case keyword_place v keyword current_document current_directory source_name path_prefix of
        ((s, p), notes, missing) \<Rightarrow>
          (case resolve_scope v now who s p exclude_documents False of
             Inl e \<Rightarrow> Inl e
           | Inr sc \<Rightarrow> Inr (sc\<lparr>sc_notes := notes @ sc_notes sc, sc_keywords := used, sc_missing := missing\<rparr>)))"

end
