(* ===== verification/ScopeClaims.thy ===== *)
theory ScopeClaims
  imports Scope
begin

text \<open>
  What resolving a scope promises: the documents it leaves out are the documents the names name,
  every arm of a search leaves out the same ones, and nothing is learnt of unreadable documents.
\<close>

section \<open>Matching a name\<close>

lemma like_escaped_literal: "like_escaped (escape_like t) s \<longleftrightarrow> s = t"
proof (induction t arbitrary: s)
  case (Cons c t)
  show ?case
  proof (cases s)
    case Nil
    then show ?thesis by (simp add: escape_like_def)
  next
    case (Cons d ds)
    with Cons.IH[of ds] show ?thesis by (auto simp: escape_like_def)
  qed
qed (simp add: escape_like_def)

lemma like_escaped_suffix: "like_escaped (CHR ''%'' # escape_like t) s \<longleftrightarrow> suffix t s"
proof (induction s)
  case Nil
  show ?case using like_escaped_literal[of t "[]"] by (auto simp: bs_def)
next
  case (Cons c s)
  show ?case using like_escaped_literal[of t "c # s"] Cons.IH by (auto simp: bs_def suffix_Cons)
qed

declare like_escaped.simps [simp del]

lemma after_last_suffix: "suffix (after_last c s) s"
proof -
  have "rev s = takeWhile (\<lambda>x. x \<noteq> c) (rev s) @ dropWhile (\<lambda>x. x \<noteq> c) (rev s)" by simp
  then have "s = rev (dropWhile (\<lambda>x. x \<noteq> c) (rev s)) @ after_last c s"
    unfolding after_last_def by (metis rev_append rev_rev_ident)
  then show ?thesis unfolding suffix_def by blast
qed

lemma after_last_step: "after_last c (p @ c # q) = after_last c q"
proof -
  have "takeWhile (\<lambda>x. x \<noteq> c) (rev q @ c # rev p) = takeWhile (\<lambda>x. x \<noteq> c) (rev q)"
    by (cases "c \<in> set q") (auto simp: takeWhile_append takeWhile_eq_all_conv[THEN iffD2, symmetric])
  then show ?thesis by (simp add: after_last_def)
qed

text \<open>The condition pushed into SQL never loses a document the name names.\<close>

lemma named_has_tail:
  assumes "row_named r wanted"
  shows "suffix (after_last (CHR ''/'') wanted) (py_lower (dr_path r))"
proof -
  let ?rel = "py_lower (dr_path r)"
  consider "wanted = ?rel" | "wanted = py_lower (dr_source r) @ CHR ''/'' # ?rel" | "suffix (''/'' @ wanted) ?rel"
    using assms by (auto simp: row_named_def Let_def)
  then show ?thesis
  proof cases
    case 1 then show ?thesis using after_last_suffix by simp
  next
    case 2 then show ?thesis using after_last_suffix by (simp add: after_last_step)
  next
    case 3
    then have "suffix wanted ?rel" by (auto simp: suffix_def)
    with after_last_suffix show ?thesis using suffix_order.trans by blast
  qed
qed

definition doc_named :: "doc_row \<Rightarrow> string \<Rightarrow> bool" where
  "doc_named r name \<longleftrightarrow>
     (if is_artifact_id name then dr_id r = name else row_named r (strip_char (CHR ''/'') (py_lower name)))"

definition admitted_by :: "(doc_row \<Rightarrow> bool) option \<Rightarrow> doc_row \<Rightarrow> bool" where
  "admitted_by adm r \<longleftrightarrow> (case adm of None \<Rightarrow> True | Some f \<Rightarrow> f r)"

lemma admit_rows_filter: "admit_rows adm rows = filter (admitted_by adm) rows"
  by (cases adm) (auto simp: admit_rows_def admitted_by_def intro!: filter_cong)

lemma doc_matches_filter:
  "doc_matches v name sn p adm = filter (\<lambda>r. row_scoped v sn p r \<and> doc_named r name \<and> admitted_by adm r) (vw_rows v)"
  by (auto simp: doc_matches_def admit_rows_filter doc_named_def like_escaped_suffix named_has_tail Let_def
    intro!: filter_cong)

section \<open>Collecting the rows\<close>

lemma set_updates_rows:
  assumes "\<forall>(i, r) \<in> set rows. dr_id r = i \<and> r \<in> R" "set found \<subseteq> R" "inj_on dr_id R" "distinct (map fst rows)"
  shows "set (AList.updates (map dr_id found) found rows) = set rows \<union> (\<lambda>r. (dr_id r, r)) ` set found \<and>
    distinct (map fst (AList.updates (map dr_id found) found rows))"
  using assms
proof (induction found arbitrary: rows)
  case (Cons f found)
  have upd: "set (AList.update (dr_id f) f rows) = insert (dr_id f, f) (set rows)"
    using Cons.prems(1,4)
  proof (induction rows)
    case (Cons kv rest)
    show ?case
    proof (cases "fst kv = dr_id f")
      case True
      then have "snd kv = f" using Cons.prems(1) \<open>set (f # found) \<subseteq> R\<close> \<open>inj_on dr_id R\<close>
        by (auto simp: inj_on_def split: prod.splits)
      with True show ?thesis by (cases kv) auto
    qed (use Cons in \<open>cases kv; auto\<close>)
  qed simp
  have "distinct (map fst (AList.update (dr_id f) f rows))" using Cons.prems(4) by (rule distinct_update)
  with Cons.IH[of "AList.update (dr_id f) f rows"] Cons.prems upd show ?case by auto
qed simp

lemma resolve_names_correct:
  assumes "resolve_names v sn p adm names rows = (rows', unresolved)"
    and "\<forall>(i, r) \<in> set rows. dr_id r = i \<and> r \<in> set (vw_rows v)" "distinct (map fst rows)"
    and "distinct (map dr_id (vw_rows v))"
  shows "set rows' = set rows \<union> (\<lambda>r. (dr_id r, r)) ` {r \<in> set (vw_rows v). row_scoped v sn p r \<and> admitted_by adm r \<and>
      (\<exists>n \<in> set names. doc_named r n)} \<and> distinct (map fst rows') \<and>
    unresolved = filter (\<lambda>n. \<not> list_ex (\<lambda>r. row_scoped v None None r \<and> doc_named r n \<and> admitted_by adm r) (vw_rows v)) names"
  using assms
proof (induction names arbitrary: rows rows' unresolved)
  case (Cons name names)
  let ?found = "doc_matches v name sn p adm"
  let ?next = "AList.updates (map dr_id ?found) ?found rows"
  obtain rest un where rec: "resolve_names v sn p adm names ?next = (rest, un)"
    by (cases "resolve_names v sn p adm names ?next")
  have inj: "inj_on dr_id (set (vw_rows v))" using Cons.prems(4) by (simp add: distinct_map)
  have found: "set ?found \<subseteq> set (vw_rows v)" by (auto simp: doc_matches_filter)
  have upd: "set ?next = set rows \<union> (\<lambda>r. (dr_id r, r)) ` set ?found" "distinct (map fst ?next)"
    using set_updates_rows[OF Cons.prems(2) found inj Cons.prems(3)] by auto
  have IH: "set rest = set ?next \<union> (\<lambda>r. (dr_id r, r)) ` {r \<in> set (vw_rows v). row_scoped v sn p r \<and> admitted_by adm r \<and>
      (\<exists>n \<in> set names. doc_named r n)} \<and> distinct (map fst rest) \<and>
    un = filter (\<lambda>n. \<not> list_ex (\<lambda>r. row_scoped v None None r \<and> doc_named r n \<and> admitted_by adm r) (vw_rows v)) names"
    by (rule Cons.IH[OF rec _ upd(2) Cons.prems(4)]) (use upd(1) found Cons.prems(2) in auto)
  have anywhere: "row_scoped v None None r" if "row_scoped v sn p r" for r
    using that by (simp add: row_scoped_def path_scope_sql_def sql_admits_def path_scope_def path_segments_def slashed_def)
  have lost: "(?found = [] \<and> (if str_or sn [] \<noteq> [] \<or> p \<noteq> None then doc_matches v name None None adm = [] else True)) \<longleftrightarrow>
    \<not> list_ex (\<lambda>r. row_scoped v None None r \<and> doc_named r name \<and> admitted_by adm r) (vw_rows v)"
  proof (cases "str_or sn [] \<noteq> [] \<or> p \<noteq> None")
    case True
    have "doc_matches v name None None adm = [] \<Longrightarrow> ?found = []"
      by (auto simp: doc_matches_filter filter_empty_conv dest: anywhere)
    moreover have "doc_matches v name None None adm = [] \<longleftrightarrow>
        \<not> list_ex (\<lambda>r. row_scoped v None None r \<and> doc_named r name \<and> admitted_by adm r) (vw_rows v)"
      by (auto simp: doc_matches_filter filter_empty_conv list_ex_iff)
    ultimately show ?thesis using True by auto
  next
    case False
    then have "row_scoped v sn p r \<longleftrightarrow> row_scoped v None None r" for r by (simp add: row_scoped_def)
    with False show ?thesis by (auto simp: doc_matches_filter filter_empty_conv list_ex_iff)
  qed
  have r: "rows' = rest" "unresolved = (if \<not> list_ex (\<lambda>r. row_scoped v None None r \<and> doc_named r name \<and> admitted_by adm r) (vw_rows v)
      then name # un else un)"
    using Cons.prems(1) rec unfolding lost[symmetric] by (auto simp: Let_def)
  have "(\<lambda>r. (dr_id r, r)) ` set ?found \<union> (\<lambda>r. (dr_id r, r)) ` {r \<in> set (vw_rows v). row_scoped v sn p r \<and>
      admitted_by adm r \<and> (\<exists>n \<in> set names. doc_named r n)} =
    (\<lambda>r. (dr_id r, r)) ` {r \<in> set (vw_rows v). row_scoped v sn p r \<and> admitted_by adm r \<and>
      (\<exists>n \<in> set (name # names). doc_named r n)}"
    by (auto simp: doc_matches_filter)
  with IH upd(1) show ?case unfolding r by (auto simp: Un_assoc)
qed simp

section \<open>What a resolved scope leaves out\<close>

abbreviation may_see :: "kb_view \<Rightarrow> instant \<Rightarrow> caller \<Rightarrow> doc_row \<Rightarrow> bool" where
  "may_see v now who \<equiv> admitted_by (reader v now who)"

text \<open>The documents a list of names leaves out of a scope\<close>

definition left_out :: "kb_view \<Rightarrow> instant \<Rightarrow> caller \<Rightarrow> string option \<Rightarrow> string option \<Rightarrow> string list option \<Rightarrow> doc_row set" where
  "left_out v now who sn folder raw = {r \<in> set (vw_rows v). row_scoped v sn folder r \<and> may_see v now who r \<and>
     (\<exists>n \<in> set (names_of raw). doc_named r n)}"

lemma row_scoped_normalized:
  "row_scoped v sn (if path_scope folder = [] then None else Some (path_scope folder)) r = row_scoped v sn folder r"
  by (auto simp: row_scoped_def path_scope_sql_def path_scope_idem Let_def)
    (simp_all add: path_scope_def path_segments_def slashed_def)

lemma resolve_cases:
  assumes "resolve_scope v now who sn folder raw strict = Inr sc" "distinct (map dr_id (vw_rows v))"
  shows "set (ex_ids (sc_exclusion sc)) = dr_id ` left_out v now who sn folder raw"
    and "set (ex_pairs (sc_exclusion sc)) = (\<lambda>r. (dr_source r, dr_path r)) ` left_out v now who sn folder raw"
    and "sc_unresolved sc =
      filter (\<lambda>n. \<not> list_ex (\<lambda>r. row_scoped v None None r \<and> doc_named r n \<and> may_see v now who r) (vw_rows v)) (names_of raw)"
    and "length (ex_ids (sc_exclusion sc)) \<le> MAX_EXCLUDED_DOCUMENTS"
    and "strict \<Longrightarrow> sc_unresolved sc = []"
proof -
  let ?pre = "if path_scope folder = [] then None else Some (path_scope folder)"
  obtain rows un where rn: "resolve_names v sn ?pre (reader v now who) (names_of raw) [] = (rows, un)"
    by (cases "resolve_names v sn ?pre (reader v now who) (names_of raw) []")
  have c: "set rows = (\<lambda>r. (dr_id r, r)) ` left_out v now who sn folder raw"
    "un = filter (\<lambda>n. \<not> list_ex (\<lambda>r. row_scoped v None None r \<and> doc_named r n \<and> may_see v now who r) (vw_rows v)) (names_of raw)"
    using resolve_names_correct[OF rn _ _ assms(2)] by (auto simp: left_out_def row_scoped_normalized)
  have "set (ex_ids (sc_exclusion sc)) = dr_id ` left_out v now who sn folder raw \<and>
    set (ex_pairs (sc_exclusion sc)) = (\<lambda>r. (dr_source r, dr_path r)) ` left_out v now who sn folder raw \<and>
    sc_unresolved sc = un \<and> length (ex_ids (sc_exclusion sc)) \<le> MAX_EXCLUDED_DOCUMENTS \<and> (strict \<longrightarrow> un = [])"
  proof (cases "names_of raw = []")
    case True
    then show ?thesis using assms(1) rn
      by (auto simp: resolve_scope_def Let_def bare_scope_def no_exclusion_def left_out_def MAX_EXCLUDED_DOCUMENTS_def)
  next
    case False
    then have ok: "\<not> (un \<noteq> [] \<and> strict)" "length rows \<le> MAX_EXCLUDED_DOCUMENTS"
      and sc: "ex_ids (sc_exclusion sc) = map fst rows" "sc_unresolved sc = un"
        "ex_pairs (sc_exclusion sc) = map (\<lambda>r. (dr_source r, dr_path r)) (sort_key (\<lambda>r. (dr_source r, dr_path r)) (map snd rows))"
      using assms(1) rn by (auto simp: resolve_scope_def Let_def split: if_splits)
    have "set (map fst rows) = dr_id ` left_out v now who sn folder raw"
      "set (map snd rows) = left_out v now who sn folder raw"
      unfolding set_map c(1) image_image by auto
    then show ?thesis using ok sc by (auto simp: image_image)
  qed
  with c(2) show "set (ex_ids (sc_exclusion sc)) = dr_id ` left_out v now who sn folder raw"
    "set (ex_pairs (sc_exclusion sc)) = (\<lambda>r. (dr_source r, dr_path r)) ` left_out v now who sn folder raw"
    "sc_unresolved sc =
      filter (\<lambda>n. \<not> list_ex (\<lambda>r. row_scoped v None None r \<and> doc_named r n \<and> may_see v now who r) (vw_rows v)) (names_of raw)"
    "length (ex_ids (sc_exclusion sc)) \<le> MAX_EXCLUDED_DOCUMENTS" "strict \<Longrightarrow> sc_unresolved sc = []"
    by auto
qed


definition demo_doc :: "string \<Rightarrow> string \<Rightarrow> stored_acl \<Rightarrow> doc_row" where
  "demo_doc i path acl = \<lparr>dr_id = i, dr_source = ''docs'', dr_path = path, dr_type = ''markdown'', dr_size = Some 1,
     dr_indexed = None, dr_acl = acl\<rparr>"

lemma demo_doc_keys: "dr_id (demo_doc i p a) = i" "dr_path (demo_doc i p a) = p"
  by (simp_all add: demo_doc_def)

definition demo_view :: kb_view where
  "demo_view = \<lparr>vw_rows = [demo_doc ''f1'' ''guide/deploy.md'' NoAcl, demo_doc ''f2'' ''guide/setup.md'' NoAcl,
     demo_doc ''f3'' ''plan.md'' (AclDoc False (Some [''user:ann'']))],
     vw_sources = [''docs''], vw_removed = [], vw_access = demo_access\<rparr>"

definition nobody :: caller where "nobody = \<lparr>principal = None, principal_groups = None\<rparr>"

definition hit_of :: "doc_row \<Rightarrow> search_hit" where
  "hit_of r = \<lparr>sh_node_id = Some (dr_id r), sh_type = None,
     sh_provenance = Some \<lparr>pv_source_id = Some (dr_source r), pv_relative_path = Some (dr_path r), pv_source_type = None\<rparr>,
     sh_source_id = None, sh_source = None, sh_source_type = None, sh_relative_path = None, sh_heading_path = None,
     sh_score = NoScore\<rparr>"


section \<open>Unreadable documents\<close>

definition readable_part :: "kb_view \<Rightarrow> instant \<Rightarrow> caller \<Rightarrow> kb_view" where
  "readable_part v now who = v\<lparr>vw_rows := filter (may_see v now who) (vw_rows v)\<rparr>"

lemma readable_part_simps [simp]:
  "reader (readable_part v now who) now who = reader v now who"
  "row_scoped (readable_part v now who) sn p r = row_scoped v sn p r"
  "vw_rows (readable_part v now who) = filter (may_see v now who) (vw_rows v)"
  by (simp_all add: readable_part_def reader_def row_scoped_def in_inventory_def)

lemma doc_matches_readable:
  "doc_matches (readable_part v now who) name sn p (reader v now who) = doc_matches v name sn p (reader v now who)"
  unfolding doc_matches_filter by (auto intro!: filter_cong)

lemma resolve_names_readable:
  "resolve_names (readable_part v now who) sn p (reader v now who) names rows =
   resolve_names v sn p (reader v now who) names rows"
  by (induction names arbitrary: rows) (simp_all add: doc_matches_readable)

text \<open>
  Claim C28: resolving a scope says nothing of a document the caller may not read. Whatever the
  request, whether it is refused, with what error, and if not, what it leaves out and notes, are
  the same in a region where the unreadable documents do not exist; only the kind shown for the
  path, a file or a folder, is read without regard to access.
\<close>

theorem scope_hides_unreadable:
  "map_sum id (\<lambda>sc. sc\<lparr>sc_kind := None\<rparr>) (resolve_scope v now who sn folder raw strict) =
   map_sum id (\<lambda>sc. sc\<lparr>sc_kind := None\<rparr>) (resolve_scope (readable_part v now who) now who sn folder raw strict)"
proof -
  have b: "(bare_scope (readable_part v now who) sn p)\<lparr>sc_kind := None\<rparr> = (bare_scope v sn p)\<lparr>sc_kind := None\<rparr>" for p
    by (simp add: bare_scope_def)
  have u: "(sc\<lparr>sc_exclusion := e, sc_excluded := x, sc_unresolved := un, sc_notes := ns\<rparr>)\<lparr>sc_kind := None\<rparr> =
    (sc\<lparr>sc_kind := None\<rparr>)\<lparr>sc_exclusion := e, sc_excluded := x, sc_unresolved := un, sc_notes := ns\<rparr>" for sc e x un ns
    by (cases sc) simp
  show ?thesis
    unfolding resolve_scope_def Let_def readable_part_simps resolve_names_readable
    by (simp add: u b split: prod.split)
qed

text \<open>
  The keywords do not keep that: \<open>locate\<close> reads the rows without the reader, so a caller who may not
  read \<open>plan.md\<close> is told that it is there, and of one that is not there that it is not held.
\<close>

lemma locate_reveals_unreadable:
  "admitted_by (reader demo_view 0 nobody) (demo_doc ''f3'' ''plan.md'' (AclDoc False (Some [''user:ann'']))) = False \<and>
   locate demo_view (Some ''docs/plan.md'') False = Some (''docs'', ''plan.md'') \<and>
   locate demo_view (Some ''docs/plans.md'') False = None"
  by code_simp

text \<open>The folder of a document is stripped of its dots, also of the dot that begins its name.\<close>

lemma folder_loses_its_dot:
  "folder_of ''.github/review.md'' = ''github'' \<and> folder_of ''plan.md'' = []"
  by code_simp

text \<open>
  A document excluded by its id leaves the text arm without it alone, and the other arms without
  whatever has its path: of a file indexed from two branches, they lose both.
\<close>

lemma excluded_id_takes_its_path:
  "(let v = demo_view\<lparr>vw_rows := [demo_doc ''file:docs:a.md:branch=x'' ''a.md'' NoAcl,
          demo_doc ''file:docs:a.md:branch=y'' ''a.md'' NoAcl]\<rparr>
    in case resolve_scope v 0 nobody None None (Some [''file:docs:a.md:branch=x'']) True of
         Inl _ \<Rightarrow> False
       | Inr sc \<Rightarrow> sql_admits (path_scope_sql None (Some (sc_exclusion sc))) ''file:docs:a.md:branch=y'' ''a.md''
           \<and> \<not> in_scope None (Some (sc_exclusion sc)) (hit_of (demo_doc ''file:docs:a.md:branch=y'' ''a.md'' NoAcl)))"
  by code_simp

end
