(* ===== verification/Inventory.thy ===== *)
theory Inventory
  imports ScopeClaims
begin

text \<open>
  What the knowledge base holds: \<open>documents\<close> and \<open>overview\<close> of \<open>src/pheasant/services/inventory.py\<close>.

  The rows, the sources and the reader are the \<open>view\<close> of the theory \<open>Scope\<close>. \<open>ORDER BY\<close> is a
  stable sort of the table's rows. The request's numbers are whole numbers, its order a value; of a
  registered source the overview copies the columns it does not compute, which are left out here,
  as are the knowledge base's own name and description.
\<close>

section \<open>Extensions\<close>

definition is_alnum :: "char \<Rightarrow> bool" where
  "is_alnum c \<longleftrightarrow> (let n = (of_char c :: nat)
     in (48 \<le> n \<and> n \<le> 57) \<or> (65 \<le> n \<and> n \<le> 90) \<or> (97 \<le> n \<and> n \<le> 122))"

datatype raw_extensions = ExtText string | ExtList "string list"

text \<open>\<open>raw.replace(",", " ").split()\<close>\<close>

fun words_from :: "string \<Rightarrow> string \<Rightarrow> string list" where
  "words_from acc [] = (if acc = [] then [] else [rev acc])"
| "words_from acc (c # cs) =
     (if is_space c then (if acc = [] then words_from [] cs else rev acc # words_from [] cs)
      else words_from (c # acc) cs)"

definition given_extensions :: "raw_extensions option \<Rightarrow> string list" where
  "given_extensions raw = (case raw of
       None \<Rightarrow> []
     | Some (ExtText t) \<Rightarrow> words_from [] (map (\<lambda>c. if c = CHR '','' then CHR '' '' else c) t)
     | Some (ExtList xs) \<Rightarrow> xs)"

definition with_dot :: "string \<Rightarrow> string" where
  "with_dot t = (if starts_with ''.'' t then t else CHR ''.'' # t)"

text \<open>\<open>text[1:].replace("_", "").replace("-", "").isalnum()\<close>\<close>

definition is_extension :: "string \<Rightarrow> bool" where
  "is_extension t \<longleftrightarrow> (let body = filter (\<lambda>c. c \<noteq> CHR ''_'' \<and> c \<noteq> CHR ''-'') (tl t)
     in body \<noteq> [] \<and> list_all is_alnum body)"

datatype inventory_error =
    BadOrder | UnknownSource string | NotAnExtension string | BadScope scope_error

fun normalize_loop :: "string list \<Rightarrow> string list \<Rightarrow> inventory_error + string list" where
  "normalize_loop [] out = Inr out"
| "normalize_loop (value # rest) out =
     (let t = py_lower (py_strip value)
      in if t = [] then normalize_loop rest out
         else let e = with_dot t
              in if \<not> is_extension e then Inl (NotAnExtension value)
                 else normalize_loop rest (if e \<in> set out then out else out @ [e]))"

definition normalize_extensions :: "raw_extensions option \<Rightarrow> inventory_error + string list" where
  "normalize_extensions raw = normalize_loop (given_extensions raw) []"

text \<open>\<open>PurePosixPath(path).suffix\<close>\<close>

definition posix_basename :: "string \<Rightarrow> string" where
  "posix_basename p = (case filter (\<lambda>s. s \<noteq> [] \<and> s \<noteq> ''.'') (split_char (CHR ''/'') p) of
       [] \<Rightarrow> [] | s # ss \<Rightarrow> last (s # ss))"

definition posix_suffix :: "string \<Rightarrow> string" where
  "posix_suffix p =
     (let name = posix_basename p; tail = after_last (CHR ''.'') name; i = length name - length tail
      in if CHR ''.'' \<in> set name \<and> 1 < i \<and> tail \<noteq> [] then CHR ''.'' # tail else [])"

definition extension_of :: "string \<Rightarrow> string" where
  "extension_of p = (let s = py_lower (posix_suffix p) in if s = [] then ''(none)'' else s)"

section \<open>Listing documents\<close>

datatype listing_order = ByPath | Recent | OtherOrder string

definition MAX_DOCUMENTS :: int where "MAX_DOCUMENTS = 500"
definition MAX_EXTENSIONS :: nat where "MAX_EXTENSIONS = 12"

record documents_request =
  dq_source_name :: "string option"
  dq_extensions :: "raw_extensions option"
  dq_path_contains :: "string option"
  dq_order :: listing_order
  dq_limit :: int
  dq_offset :: int
  dq_path_prefix :: "string option"
  dq_exclude_documents :: "string list option"

record documents_page =
  dp_documents :: "doc_row list"
  dp_total :: nat
  dp_limit :: nat
  dp_offset :: nat
  dp_has_more :: bool
  dp_scope :: "scope option"

definition clamp_limit :: "int \<Rightarrow> nat" where
  "clamp_limit n = nat (max 1 (min n MAX_DOCUMENTS))"

definition wants_scope :: "documents_request \<Rightarrow> bool" where
  "wants_scope rq \<longleftrightarrow> str_or (dq_path_prefix rq) [] \<noteq> [] \<or> list_or (dq_exclude_documents rq) \<noteq> []"

text \<open>The conditions of the \<open>WHERE\<close> clause on one row\<close>

definition row_listed :: "kb_view \<Rightarrow> documents_request \<Rightarrow> string list \<Rightarrow> scope option \<Rightarrow> doc_row \<Rightarrow> bool" where
  "row_listed v rq extensions sc r \<longleftrightarrow> in_inventory v r \<and>
     (str_or (dq_source_name rq) [] = [] \<or> Some (dr_source r) = dq_source_name rq) \<and>
     (extensions = [] \<or> list_ex (\<lambda>e. like (CHR ''%'' # e) (py_lower (dr_path r))) extensions) \<and>
     (case sc of None \<Rightarrow> True
        | Some s \<Rightarrow> sql_admits (path_scope_sql (sc_path_prefix s) (Some (sc_exclusion s))) (dr_id r) (dr_path r)) \<and>
     (let wanted = py_strip (str_or (dq_path_contains rq) [])
      in wanted = [] \<or>
         like_escaped (CHR ''%'' # escape_like (py_lower wanted) @ [CHR ''%'']) (py_lower (dr_path r)))"

definition order_rows :: "listing_order \<Rightarrow> doc_row list \<Rightarrow> doc_row list" where
  "order_rows ord rows = (case ord of
       ByPath \<Rightarrow> sort_key (\<lambda>r. (dr_source r, dr_path r)) rows
     | _ \<Rightarrow> sort_key (\<lambda>r. (dr_indexed r = None, - (case dr_indexed r of None \<Rightarrow> 0 | Some t \<Rightarrow> t), dr_path r)) rows)"

definition page_of :: "kb_view \<Rightarrow> instant \<Rightarrow> caller \<Rightarrow> documents_request \<Rightarrow> string list \<Rightarrow> scope option \<Rightarrow> documents_page" where
  "page_of v now who rq extensions sc =
     (let limit = clamp_limit (dq_limit rq); offset = nat (max 0 (dq_offset rq));
          found = order_rows (dq_order rq) (filter (row_listed v rq extensions sc) (vw_rows v));
          (rows, whole) = (case reader v now who of
              None \<Rightarrow> (take limit (drop offset found), length (filter (row_listed v rq extensions sc) (vw_rows v)))
            | Some adm \<Rightarrow> let readable = filter adm found in (take limit (drop offset readable), length readable))
      in \<lparr>dp_documents = rows, dp_total = whole, dp_limit = limit, dp_offset = offset,
          dp_has_more = (offset + length rows < whole), dp_scope = sc\<rparr>)"

definition documents :: "kb_view \<Rightarrow> instant \<Rightarrow> caller \<Rightarrow> documents_request \<Rightarrow> inventory_error + documents_page" where
  "documents v now who rq =
     (if (case dq_order rq of OtherOrder _ \<Rightarrow> True | _ \<Rightarrow> False) then Inl BadOrder
      else if str_or (dq_source_name rq) [] \<noteq> [] \<and> str_or (dq_source_name rq) [] \<notin> set (vw_sources v)
      then Inl (UnknownSource (str_or (dq_source_name rq) []))
      else (case normalize_extensions (dq_extensions rq) of
              Inl e \<Rightarrow> Inl e
            | Inr extensions \<Rightarrow>
                if wants_scope rq
                then (case resolve_scope v now who (dq_source_name rq) (dq_path_prefix rq) (dq_exclude_documents rq) True of
                        Inl e \<Rightarrow> Inl (BadScope e)
                      | Inr sc \<Rightarrow> Inr (page_of v now who rq extensions (Some sc)))
                else Inr (page_of v now who rq extensions None)))"

section \<open>The overview\<close>

text \<open>\<open>Counter\<close>: what was counted, in the order it was first seen\<close>

definition count_up :: "nat \<Rightarrow> string \<Rightarrow> (string \<times> nat) list \<Rightarrow> (string \<times> nat) list" where
  "count_up n k kvs = (case map_of kvs k of None \<Rightarrow> kvs @ [(k, n)] | Some m \<Rightarrow> AList.update k (m + n) kvs)"

record source_overview =
  so_name :: string
  so_documents :: nat
  so_size_bytes :: int
  so_last_indexed_at :: "instant option"

record overview_report =
  ov_sources :: "source_overview list"
  ov_documents :: nat
  ov_size_bytes :: int
  ov_by_extension :: "(string \<times> nat) list"
  ov_last_indexed_at :: "instant option"

definition overview_rows :: "kb_view \<Rightarrow> instant \<Rightarrow> caller \<Rightarrow> doc_row list" where
  "overview_rows v now who = admit_rows (reader v now who) (filter (in_inventory v) (vw_rows v))"

definition rows_of_source :: "string \<Rightarrow> doc_row list \<Rightarrow> doc_row list" where
  "rows_of_source name rows = filter (\<lambda>r. dr_source r = name) rows"

definition latest_of :: "doc_row list \<Rightarrow> instant option" where
  "latest_of rows = (case List.map_filter dr_indexed rows of [] \<Rightarrow> None | t # ts \<Rightarrow> Some (fold max ts t))"

definition size_of_rows :: "doc_row list \<Rightarrow> int" where
  "size_of_rows rows = sum_list (map (\<lambda>r. case dr_size r of None \<Rightarrow> 0 | Some n \<Rightarrow> n) rows)"

definition count_extensions :: "doc_row list \<Rightarrow> (string \<times> nat) list" where
  "count_extensions rows = fold (\<lambda>r. count_up 1 (extension_of (dr_path r))) rows []"

definition by_extension :: "(string \<times> nat) list \<Rightarrow> (string \<times> nat) list" where
  "by_extension counts =
     (let common = take MAX_EXTENSIONS (sort_key (\<lambda>(e, n). (- int n, e)) counts);
          folded = sum_list (map snd counts) - sum_list (map snd common)
      in common @ (if folded = 0 then [] else [(''other'', folded)]))"

text \<open>\<open>registered\<close>: the names of the registered sources, each with its own \<open>last_indexed_at\<close>\<close>

definition overview :: "kb_view \<Rightarrow> instant \<Rightarrow> caller \<Rightarrow> (string \<times> instant option) list \<Rightarrow> overview_report" where
  "overview v now who registered =
     (let rows = overview_rows v now who;
          shown = filter (\<lambda>(name, _). \<not> starts_with ''__'' name) registered
      in \<lparr>ov_sources = map (\<lambda>(name, seen). \<lparr>so_name = name,
             so_documents = length (rows_of_source name rows), so_size_bytes = size_of_rows (rows_of_source name rows),
             so_last_indexed_at = (if seen = None then latest_of (rows_of_source name rows) else seen)\<rparr>) shown,
          ov_documents = length rows, ov_size_bytes = size_of_rows rows,
          ov_by_extension = by_extension (count_extensions rows), ov_last_indexed_at = latest_of rows\<rparr>)"

section \<open>Paging\<close>

text \<open>Everything a request lists, in its order\<close>

definition whole_listing :: "kb_view \<Rightarrow> instant \<Rightarrow> caller \<Rightarrow> documents_request \<Rightarrow> string list \<Rightarrow> scope option \<Rightarrow> doc_row list" where
  "whole_listing v now who rq extensions sc =
     filter (may_see v now who) (order_rows (dq_order rq) (filter (row_listed v rq extensions sc) (vw_rows v)))"

lemma length_order_rows [simp]: "length (order_rows ord rows) = length rows"
  by (cases ord) (simp_all add: order_rows_def)

lemma set_order_rows [simp]: "set (order_rows ord rows) = set rows"
  by (cases ord) (simp_all add: order_rows_def)

lemma page_of_listing:
  "page_of v now who rq extensions sc =
     (let whole = whole_listing v now who rq extensions sc; rows = take (clamp_limit (dq_limit rq)) (drop (nat (max 0 (dq_offset rq))) whole)
      in \<lparr>dp_documents = rows, dp_total = length whole, dp_limit = clamp_limit (dq_limit rq),
          dp_offset = nat (max 0 (dq_offset rq)),
          dp_has_more = (nat (max 0 (dq_offset rq)) + length rows < length whole), dp_scope = sc\<rparr>)"
proof (cases "reader v now who")
  case None
  then have "admitted_by (reader v now who) = (\<lambda>_. True)" by (auto simp: admitted_by_def)
  then have "whole_listing v now who rq extensions sc = order_rows (dq_order rq) (filter (row_listed v rq extensions sc) (vw_rows v))"
    by (simp add: whole_listing_def)
  with None show ?thesis by (simp add: page_of_def Let_def)
next
  case (Some adm)
  then have "admitted_by (reader v now who) = adm" by (auto simp: admitted_by_def)
  then have "whole_listing v now who rq extensions sc = filter adm (order_rows (dq_order rq) (filter (row_listed v rq extensions sc) (vw_rows v)))"
    by (simp add: whole_listing_def)
  with Some show ?thesis by (simp add: page_of_def Let_def)
qed

lemma pages_concat: "concat (map (\<lambda>k. take n (drop (k * n) xs)) [0..<m]) = take (m * n) xs"
proof (induction m)
  case (Suc m)
  have "take (m * n) xs @ take n (drop (m * n) xs) = take (m * n + n) xs" by (simp add: take_add)
  with Suc show ?case by (simp add: add.commute)
qed simp

definition at_page :: "documents_request \<Rightarrow> nat \<Rightarrow> documents_request" where
  "at_page rq k = rq\<lparr>dq_offset := int (k * clamp_limit (dq_limit rq))\<rparr>"

lemma row_listed_at_page [simp]: "row_listed v (at_page rq k) = row_listed v rq"
  by (simp add: at_page_def row_listed_def fun_eq_iff)

lemma at_page_simps [simp]:
  "dq_order (at_page rq k) = dq_order rq" "dq_source_name (at_page rq k) = dq_source_name rq"
  "dq_extensions (at_page rq k) = dq_extensions rq" "dq_path_prefix (at_page rq k) = dq_path_prefix rq"
  "dq_exclude_documents (at_page rq k) = dq_exclude_documents rq" "dq_limit (at_page rq k) = dq_limit rq"
  "dq_path_contains (at_page rq k) = dq_path_contains rq" "wants_scope (at_page rq k) = wants_scope rq"
  by (simp_all add: at_page_def wants_scope_def)

lemma listing_at_page [simp]: "whole_listing v now who (at_page rq k) = whole_listing v now who rq"
  by (simp add: whole_listing_def fun_eq_iff)

text \<open>A request that is answered is answered by the page of one listing, whatever its offset.\<close>

lemma documents_listing:
  assumes "documents v now who rq = Inr page"
  obtains extensions where "page = page_of v now who rq extensions (dp_scope page)"
    "\<forall>k. documents v now who (at_page rq k) = Inr (page_of v now who (at_page rq k) extensions (dp_scope page))"
    "normalize_extensions (dq_extensions rq) = Inr extensions"
proof -
  obtain extensions where e: "normalize_extensions (dq_extensions rq) = Inr extensions"
    using assms by (auto simp: documents_def split: if_splits sum.splits)
  have sc: "dp_scope (page_of v now who r extensions sc) = sc" for r sc
    by (simp add: page_of_listing Let_def)
  show thesis
  proof (rule that[OF _ _ e])
    show "page = page_of v now who rq extensions (dp_scope page)"
      using assms e by (auto simp: documents_def sc split: if_splits sum.splits)
    show "\<forall>k. documents v now who (at_page rq k) = Inr (page_of v now who (at_page rq k) extensions (dp_scope page))"
      using assms e by (auto simp: documents_def sc split: if_splits sum.splits)
  qed
qed


definition demo_request :: documents_request where
  "demo_request = \<lparr>dq_source_name = Some ''docs'', dq_extensions = Some (ExtList [''MD'']), dq_path_contains = None,
     dq_order = ByPath, dq_limit = 1, dq_offset = 0, dq_path_prefix = None, dq_exclude_documents = None\<rparr>"


section \<open>The overview adds up\<close>

lemma count_up_sum:
  assumes "distinct (map fst kvs)"
  shows "sum_list (map snd (count_up n k kvs)) = sum_list (map snd kvs) + n \<and> distinct (map fst (count_up n k kvs))"
proof (cases "map_of kvs k")
  case None
  moreover from None have "k \<notin> fst ` set kvs" by (simp add: map_of_eq_None_iff)
  ultimately show ?thesis using assms by (simp add: count_up_def)
next
  case (Some m)
  have "sum_list (map snd (AList.update k (m + n) kvs)) = sum_list (map snd kvs) + n"
    using assms Some
  proof (induction kvs)
    case (Cons kv rest)
    then show ?case by (cases kv) (auto split: if_splits)
  qed simp
  then show ?thesis using assms Some by (simp add: count_up_def distinct_update)
qed

lemma count_extensions_sum: "sum_list (map snd (count_extensions rows)) = length rows"
proof -
  have "sum_list (map snd (fold (\<lambda>r. count_up 1 (extension_of (dr_path r))) rows kvs)) = sum_list (map snd kvs) + length rows"
    if "distinct (map fst kvs)" for kvs
    using that
  proof (induction rows arbitrary: kvs)
    case (Cons r rows)
    then show ?case using count_up_sum[OF Cons.prems, of 1 "extension_of (dr_path r)"] by simp
  qed simp
  then show ?thesis by (simp add: count_extensions_def)
qed

lemma sum_take_le: "sum_list (take n xs) \<le> sum_list (xs :: nat list)"
  by (metis append_take_drop_id le_add1 sum_list.append)

text \<open>The extensions of an overview, with \<open>other\<close>, count each document once.\<close>

lemma by_extension_sum: "sum_list (map snd (by_extension counts)) = sum_list (map snd counts)"
proof -
  let ?sorted = "sort_key (\<lambda>(e, n). (- int n, e)) counts"
  have "mset (map snd ?sorted) = mset (map snd counts)" by simp
  then have s: "sum_list (map snd ?sorted) = sum_list (map snd counts)" by (metis sum_mset_sum_list)
  have "sum_list (map snd (take MAX_EXTENSIONS ?sorted)) \<le> sum_list (map snd ?sorted)"
    using sum_take_le[of MAX_EXTENSIONS "map snd ?sorted"] by (simp add: take_map)
  then show ?thesis unfolding s by (simp add: by_extension_def Let_def)
qed

lemma overview_adds_up:
  "sum_list (map snd (ov_by_extension (overview v now who registered))) = ov_documents (overview v now who registered)"
  by (simp add: overview_def Let_def by_extension_sum count_extensions_sum)

text \<open>An underscore in an extension is a wildcard: nothing escapes it in this condition.\<close>

lemma extension_wildcard:
  "normalize_extensions (Some (ExtList [''t_z''])) = Inr [''.t_z''] \<and>
   (let rq = demo_request\<lparr>dq_extensions := Some (ExtList [''t_z''])\<rparr>
    in row_listed demo_view rq [''.t_z''] None (demo_doc ''f9'' ''backup.tgz'' NoAcl))"
  by code_simp

end
