(* ===== verification/Traversal.thy ===== *)
theory Traversal
  imports Graph PyText "HOL-Library.List_Lexorder" "HOL-Library.Char_ord"
begin

text \<open>
  Bounded walks over the graph: \<open>src/pheasant/graph/traversal.py\<close> on the in-memory graph of the
  theory \<open>Graph\<close>, with the batch methods of \<open>src/pheasant/graph/simple.py\<close> it reads through.

  The type of an edge or a node is its \<open>type\<close> attribute when that is a text. The levels of a walk
  are recursion on the number of hops left, at most ten; a level and the edges of one node are
  recursion on their lists, left by the code's \<open>break\<close>s. A remote graph answers the walk where it
  lives, so the walks over one are not here.
\<close>

section \<open>Edges in batches\<close>

type_synonym out_edge = "string \<times> attrs list"

definition edge_type :: "attrs \<Rightarrow> string option" where
  "edge_type a = (case attr_get a ''type'' of Some (PText t) \<Rightarrow> Some t | _ \<Rightarrow> None)"

definition HIERARCHY_EDGE_TYPES :: "string list" where "HIERARCHY_EDGE_TYPES = [''contains'']"
definition MAX_DEPTH :: int where "MAX_DEPTH = 10"

definition pair_rank :: "string list \<Rightarrow> out_edge \<Rightarrow> nat" where
  "pair_rank wanted e = (if list_ex (\<lambda>a. edge_type a \<in> Some ` set wanted) (snd e) then 0 else 1)"

text \<open>What \<open>out_edges_batch\<close> answers for one of its nodes, whose id the entries leave out\<close>

definition batch_edges :: "graph \<Rightarrow> string list option \<Rightarrow> string list \<Rightarrow> int option \<Rightarrow> string \<Rightarrow> out_edge list" where
  "batch_edges g targets priority_types limit_per_source n =
     (let entries = map snd (out_edges g n);
          entries = (case targets of None \<Rightarrow> entries | Some ts \<Rightarrow> filter (\<lambda>e. fst e \<in> set ts) entries);
          entries = (if priority_types = [] then entries else sort_key (pair_rank priority_types) entries)
      in case limit_per_source of None \<Rightarrow> entries | Some n \<Rightarrow> take (nat (max 0 n)) entries)"

definition out_edges_batch :: "graph \<Rightarrow> string list \<Rightarrow> string list option \<Rightarrow> string list \<Rightarrow> int option \<Rightarrow>
    (string \<times> out_edge list) list" where
  "out_edges_batch g node_ids targets priority_types limit_per_source =
     map (\<lambda>n. (n, batch_edges g targets priority_types limit_per_source n)) (dict_fromkeys node_ids)"

definition prefetch_nodes :: "graph \<Rightarrow> string list \<Rightarrow> string \<Rightarrow> attrs option" where
  "prefetch_nodes g node_ids n = (if n \<in> set node_ids then map_of (g_nodes g) n else None)"

section \<open>Attributes a block at a time\<close>

definition PREFETCH_BLOCK :: int where "PREFETCH_BLOCK = 256"

record batched_nodes =
  bn_candidates :: "string list"
  bn_block :: nat
  bn_known :: "(string \<times> attrs option) list"

text \<open>The candidates \<open>_fill\<close> takes for a block, and those it leaves\<close>

fun take_block :: "nat \<Rightarrow> (string \<times> attrs option) list \<Rightarrow> string list \<Rightarrow> string list \<Rightarrow> string list \<times> string list" where
  "take_block block known batch [] = (batch, [])"
| "take_block block known batch (c # cs) =
     (if block \<le> length batch then (batch, c # cs)
      else take_block block known (if map_of known c = None then batch @ [c] else batch) cs)"

definition fill_block :: "graph \<Rightarrow> string \<Rightarrow> batched_nodes \<Rightarrow> batched_nodes" where
  "fill_block g key bn =
     (let (batch, rest) = take_block (bn_block bn) (bn_known bn) [] (bn_candidates bn);
          batch = (if key \<notin> set batch \<and> map_of (bn_known bn) key = None then batch @ [key] else batch)
      in bn\<lparr>bn_candidates := rest,
            bn_known := fold (\<lambda>n. AList.update n (prefetch_nodes g batch n)) batch (bn_known bn)\<rparr>)"

definition batched_get :: "graph \<Rightarrow> string \<Rightarrow> batched_nodes \<Rightarrow> attrs option \<times> batched_nodes" where
  "batched_get g key bn =
     (let bn' = (if map_of (bn_known bn) key = None then fill_block g key bn else bn)
      in (case map_of (bn_known bn') key of None \<Rightarrow> None | Some v \<Rightarrow> v, bn'))"

text \<open>
  \<open>_nodes_for\<close>: few candidates are fetched at once, and then only they are known; of more, every
  node is found when it is asked for (lemma \<open>batched_get_finds\<close> below).
\<close>

definition nodes_for :: "graph \<Rightarrow> string list \<Rightarrow> int option \<Rightarrow> string \<Rightarrow> attrs option" where
  "nodes_for g node_ids budget n =
     (let block = (case budget of None \<Rightarrow> PREFETCH_BLOCK | Some b \<Rightarrow> max 1 (min b PREFETCH_BLOCK))
      in if int (length node_ids) \<le> block then prefetch_nodes g node_ids n else map_of (g_nodes g) n)"

section \<open>The walk\<close>

record walk_request =
  wk_depth :: int
  wk_edge_types :: "string list"
  wk_max_nodes :: "int option"
  wk_exclude_edge_types :: "string list"
  wk_exclude_node_types :: "string list"

record neighbor =
  nb_node_id :: string
  nb_depth :: nat
  nb_edge_types :: "string list"
  nb_path :: "string list"
  nb_node :: attrs

record walk =
  ws_visited :: "string list"
  ws_found :: "neighbor list"
  ws_frontier :: "(string \<times> nat \<times> string list) list"

definition matching_edges :: "walk_request \<Rightarrow> attrs list \<Rightarrow> attrs list" where
  "matching_edges rq es = filter (\<lambda>a.
     (wk_edge_types rq = [] \<or> edge_type a \<in> Some ` set (wk_edge_types rq)) \<and>
     \<not> edge_type a \<in> Some ` set (wk_exclude_edge_types rq)) es"

definition hidden_type :: "walk_request \<Rightarrow> attrs option \<Rightarrow> bool" where
  "hidden_type rq attributes \<longleftrightarrow> wk_exclude_node_types rq \<noteq> [] \<and>
     (case attributes of None \<Rightarrow> False | Some a \<Rightarrow> edge_type a \<in> Some ` set (wk_exclude_node_types rq))"

definition walk_full :: "walk_request \<Rightarrow> walk \<Rightarrow> bool" where
  "walk_full rq ws = (case wk_max_nodes rq of None \<Rightarrow> False | Some m \<Rightarrow> m \<le> int (length (ws_found ws)))"

definition types_of_edges :: "attrs list \<Rightarrow> string list" where
  "types_of_edges es = sort (remdups (filter (\<lambda>t. t \<noteq> []) (List.map_filter edge_type es)))"

definition add_neighbor :: "string \<Rightarrow> nat \<Rightarrow> attrs list \<Rightarrow> string list \<Rightarrow> attrs option \<Rightarrow> walk \<Rightarrow> walk" where
  "add_neighbor target hop es path attributes ws =
     ws\<lparr>ws_visited := ws_visited ws @ [target],
        ws_found := ws_found ws @ [\<lparr>nb_node_id = target, nb_depth = hop, nb_edge_types = types_of_edges es,
          nb_path = path @ [target], nb_node = (case attributes of None \<Rightarrow> [] | Some a \<Rightarrow> a)\<rparr>],
        ws_frontier := ws_frontier ws @ [(target, hop, path @ [target])]\<rparr>"

text \<open>The loop over the edges of one node\<close>

fun expand_edges :: "walk_request \<Rightarrow> (string \<Rightarrow> attrs option) \<Rightarrow> nat \<Rightarrow> string list \<Rightarrow> out_edge list \<Rightarrow> walk \<Rightarrow> walk" where
  "expand_edges rq attributes hop path [] ws = ws"
| "expand_edges rq attributes hop path ((target, es) # rest) ws =
     (let matching = matching_edges rq es
      in if matching = [] \<or> hidden_type rq (attributes target) \<or> target \<in> set (ws_visited ws)
         then expand_edges rq attributes hop path rest ws
         else let ws' = add_neighbor target hop matching path (attributes target) ws
              in if walk_full rq ws' then ws' else expand_edges rq attributes hop path rest ws')"

text \<open>The loop over the nodes of one level\<close>

fun expand_level :: "walk_request \<Rightarrow> (string \<Rightarrow> attrs option) \<Rightarrow> (string \<times> out_edge list) list \<Rightarrow>
    (string \<times> nat \<times> string list) list \<Rightarrow> walk \<Rightarrow> walk" where
  "expand_level rq attributes adjacency [] ws = ws"
| "expand_level rq attributes adjacency ((current, hop, path) # rest) ws =
     (if walk_full rq ws then ws
      else expand_level rq attributes adjacency rest
        (expand_edges rq attributes (hop + 1) path
          (case map_of adjacency current of None \<Rightarrow> [] | Some es \<Rightarrow> es) ws))"

definition frontier_budget :: "walk_request \<Rightarrow> nat \<Rightarrow> int option" where
  "frontier_budget rq visited =
     (case wk_max_nodes rq of
        None \<Rightarrow> None
      | Some m \<Rightarrow> if wk_edge_types rq \<noteq> [] \<or> wk_exclude_edge_types rq \<noteq> [] \<or> wk_exclude_node_types rq \<noteq> []
          then None else Some (m + int visited))"

fun walk_levels :: "graph \<Rightarrow> walk_request \<Rightarrow> nat \<Rightarrow> walk \<Rightarrow> walk" where
  "walk_levels g rq 0 ws = ws"
| "walk_levels g rq (Suc hops) ws =
     (if ws_frontier ws = [] \<or> walk_full rq ws then ws
      else let level = ws_frontier ws;
               adjacency = out_edges_batch g (map fst level) None HIERARCHY_EDGE_TYPES
                 (frontier_budget rq (length (ws_visited ws)));
               reachable = filter (\<lambda>t. t \<notin> set (ws_visited ws)) (map fst (concat (map snd adjacency)))
           in walk_levels g rq hops
                (expand_level rq (nodes_for g reachable (wk_max_nodes rq)) adjacency level
                  (ws\<lparr>ws_frontier := []\<rparr>)))"

definition max_hops :: "walk_request \<Rightarrow> nat" where
  "max_hops rq = nat (max 1 (min (if wk_depth rq = 0 then 1 else wk_depth rq) MAX_DEPTH))"

definition walk_start :: "string \<Rightarrow> walk" where
  "walk_start n = \<lparr>ws_visited = [n], ws_found = [], ws_frontier = [(n, 0, [n])]\<rparr>"

definition graph_neighbors :: "graph \<Rightarrow> string \<Rightarrow> walk_request \<Rightarrow> neighbor list" where
  "graph_neighbors g n rq =
     (if has_node g n then ws_found (walk_levels g rq (max_hops rq) (walk_start n)) else [])"

section \<open>Slices\<close>

record graph_link =
  lk_source :: string
  lk_target :: string
  lk_key :: nat
  lk_data :: attrs

record graph_slice =
  sl_nodes :: "attrs list"
  sl_links :: "graph_link list"
  sl_depths :: "(string \<times> nat) list"
  sl_truncated :: bool

definition nearest :: "neighbor \<Rightarrow> (string \<times> nat) list \<Rightarrow> (string \<times> nat) list" where
  "nearest nb depths = (case map_of depths (nb_node_id nb) of
       None \<Rightarrow> AList.update (nb_node_id nb) (nb_depth nb) depths
     | Some d \<Rightarrow> if nb_depth nb < d then AList.update (nb_node_id nb) (nb_depth nb) depths else depths)"

definition links_of :: "string list \<Rightarrow> string \<Rightarrow> out_edge \<Rightarrow> graph_link list" where
  "links_of allowed source e =
     map (\<lambda>(k, a). \<lparr>lk_source = source, lk_target = fst e, lk_key = k, lk_data = a\<rparr>)
       (filter (\<lambda>(_, a). allowed = [] \<or> edge_type a \<in> Some ` set allowed) (enumerate 0 (snd e)))"

definition graph_slice_of :: "graph \<Rightarrow> string \<Rightarrow> walk_request \<Rightarrow> int \<Rightarrow> graph_slice" where
  "graph_slice_of g n rq limit =
     (let neighbour_limit = nat (max 0 limit);
          all = graph_neighbors g n (rq\<lparr>wk_max_nodes := Some (int neighbour_limit + 1)\<rparr>);
          kept = take neighbour_limit all;
          node_ids = n # map nb_node_id kept;
          inside = sort (remdups node_ids);
          adjacency = out_edges_batch g inside (Some inside) [] None;
          attributes = nodes_for g node_ids None
      in \<lparr>sl_nodes = filter (\<lambda>a. a \<noteq> []) (List.map_filter attributes node_ids),
          sl_links = concat (map (\<lambda>s. concat (map (links_of (wk_edge_types rq) s)
            (filter (\<lambda>e. fst e \<in> set node_ids) (case map_of adjacency s of None \<Rightarrow> [] | Some es \<Rightarrow> es)))) inside),
          sl_depths = fold nearest kept [(n, 0)],
          sl_truncated = (neighbour_limit < length all)\<rparr>)"

section \<open>Expansions\<close>

record expansion =
  xp_neighbors :: "neighbor list"
  xp_truncated :: bool

text \<open>The neighbours left when \<open>admit\<close> removed some: none that was reached through a removed one\<close>

definition admitted_walk :: "(neighbor list \<Rightarrow> neighbor list) \<Rightarrow> neighbor list \<Rightarrow> neighbor list" where
  "admitted_walk admit found =
     (let allowed = admit found;
          hidden = filter (\<lambda>i. i \<notin> set (map nb_node_id allowed)) (map nb_node_id found)
      in filter (\<lambda>nb. \<not> list_ex (\<lambda>step. step \<in> set hidden) (butlast (tl (nb_path nb)))) allowed)"

definition expand_seed :: "graph \<Rightarrow> walk_request \<Rightarrow> int \<Rightarrow> int \<Rightarrow> (neighbor list \<Rightarrow> neighbor list) option \<Rightarrow>
    string \<Rightarrow> expansion" where
  "expand_seed g rq max_neighbors fetch admit seed =
     (let budget = max max_neighbors fetch;
          walk = graph_neighbors g seed (rq\<lparr>wk_max_nodes := Some (budget + 1), wk_exclude_node_types := []\<rparr>);
          found = (case admit of None \<Rightarrow> walk | Some f \<Rightarrow> if walk = [] then walk else admitted_walk f walk);
          kept = take (nat max_neighbors) found
      in \<lparr>xp_neighbors = kept, xp_truncated = (budget < int (length walk) \<or> length kept < length found)\<rparr>)"

definition expand_seeds :: "graph \<Rightarrow> walk_request \<Rightarrow> int \<Rightarrow> int \<Rightarrow> (neighbor list \<Rightarrow> neighbor list) option \<Rightarrow>
    string list \<Rightarrow> (string \<times> expansion) list" where
  "expand_seeds g rq max_neighbors fetch admit seeds =
     map (\<lambda>s. (s, expand_seed g rq max_neighbors fetch admit s)) (dict_fromkeys seeds)"

end
