(* ===== verification/WalkClaims.thy ===== *)
theory WalkClaims
  imports Traversal GraphInv
begin

text \<open>
  What the bounded walk finds: with a budget, a prefix of what it finds without one, however little
  it then fetches; and without one, the nodes within its depth, each once, at its distance, with a
  path to it.
\<close>

section \<open>What a walk reads\<close>

abbreviation full_edges :: "graph \<Rightarrow> string \<Rightarrow> out_edge list" where
  "full_edges g n \<equiv> batch_edges g None HIERARCHY_EDGE_TYPES None n"

lemma batch_of: "n \<in> set ids \<Longrightarrow>
    map_of (out_edges_batch g ids targets prio limit) n = Some (batch_edges g targets prio limit n)"
  by (simp add: out_edges_batch_def map_of_map_restrict)

lemma full_edges_set: "set (full_edges g n) = (\<lambda>t. (t, edges_of g (n, t))) ` {t \<in> set (neighbors g n). edges_of g (n, t) \<noteq> []}"
proof -
  have "set (full_edges g n) = snd ` set (out_edges g n)" by (simp add: batch_edges_def Let_def HIERARCHY_EDGE_TYPES_def)
  also have "\<dots> = (\<lambda>t. (t, edges_of g (n, t))) ` {t \<in> set (neighbors g n). edges_of g (n, t) \<noteq> []}"
    by (cases "map_of (g_out g) n") (simp_all add: out_edges_def neighbors_def targets_in_def image_image)
  finally show ?thesis .
qed

lemma limited_edges: "batch_edges g None HIERARCHY_EDGE_TYPES (Some k) n = take (nat (max 0 k)) (full_edges g n)"
  by (simp add: batch_edges_def Let_def)

text \<open>The targets of a node are distinct in every graph the mutations make.\<close>

definition targets_ok :: "graph \<Rightarrow> bool" where
  "targets_ok g \<longleftrightarrow> (\<forall>s. distinct (neighbors g s))"

lemma targets_ok_empty: "targets_ok empty_graph"
  by (simp add: targets_ok_def neighbors_def targets_in_def empty_graph_def)

lemma targets_ok_cong: "g_out g' = g_out g \<Longrightarrow> targets_ok g' = targets_ok g"
  by (simp add: targets_ok_def neighbors_def)

lemma targets_ok_link: "targets_ok g \<Longrightarrow> targets_ok (g\<lparr>g_out := link_out s t (g_out g)\<rparr>)"
  by (simp add: targets_ok_def neighbors_def)

lemma targets_ok_drop: "targets_ok g \<Longrightarrow> targets_ok (g\<lparr>g_out := drop_adjacency s t (g_out g)\<rparr>)"
  by (simp add: targets_ok_def neighbors_def distinct_removeAll)

lemma targets_ok_drop_pair: "targets_ok g \<Longrightarrow> targets_ok (drop_pair p g)"
  using targets_ok_drop[of g "fst p" "snd p"] targets_ok_cong[of "drop_pair p g" "g\<lparr>g_out := drop_adjacency (fst p) (snd p) (g_out g)\<rparr>"]
  by (simp add: drop_pair_def)

lemma targets_ok_remove_pair: "targets_ok g \<Longrightarrow> targets_ok (remove_edge_pair p g)"
  using targets_ok_drop_pair[of g p] targets_ok_cong[of "remove_edge_pair p g" "drop_pair p g"]
  by (simp add: remove_edge_pair_def Let_def)

lemma targets_ok_fold: "(\<And>x g. targets_ok g \<Longrightarrow> targets_ok (f x g)) \<Longrightarrow> targets_ok g \<Longrightarrow> targets_ok (fold f xs g)"
  by (induction xs arbitrary: g) auto

lemma targets_ok_forget: "targets_ok g \<Longrightarrow> targets_ok (forget_node n g)"
  by (auto simp: targets_ok_def neighbors_def forget_node_def Let_def)

lemma targets_ok_op: "targets_ok g \<Longrightarrow> targets_ok (apply_op op g)"
proof (cases op)
  case (AddNode n a)
  assume "targets_ok g"
  then show ?thesis unfolding AddNode apply_op.simps
    by (rule targets_ok_cong[THEN iffD2, rotated]) (simp add: add_node_def Let_def)
next
  case (AddEdge s t a)
  assume "targets_ok g"
  from targets_ok_link[OF this, of s t] show ?thesis unfolding AddEdge apply_op.simps
    by (rule targets_ok_cong[THEN iffD2, rotated]) (simp add: add_edge_def)
next
  case (EditEdge s t i a)
  assume "targets_ok g"
  then show ?thesis unfolding EditEdge apply_op.simps
    by (auto intro: targets_ok_cong[THEN iffD2, rotated] simp: edit_edge_def touch_edge_def edit_in_place_def)
next
  case (RemoveNodes ns)
  assume "targets_ok g"
  then show ?thesis unfolding RemoveNodes apply_op.simps
    by (auto simp: remove_nodes_from_def Let_def intro!: targets_ok_fold targets_ok_drop_pair targets_ok_forget)
next
  case (RemoveEdges ps)
  assume "targets_ok g"
  then show ?thesis unfolding RemoveEdges apply_op.simps remove_edges_from_def
    by (intro targets_ok_fold targets_ok_remove_pair)
next
  case (RemoveEdgesWhere s t q)
  assume ok: "targets_ok g"
  from ok targets_ok_drop[OF ok, of s t] show ?thesis unfolding RemoveEdgesWhere apply_op.simps
    by (auto simp: remove_edges_where_def Let_def elim: targets_ok_cong[THEN iffD2, rotated])
qed

lemma targets_ok_ops: "targets_ok (fold apply_op ops empty_graph)"
  by (rule targets_ok_fold[OF targets_ok_op targets_ok_empty])

lemma full_edges_distinct:
  assumes "targets_ok g" shows "distinct (map fst (full_edges g n))"
proof -
  have d: "distinct (targets_in (g_out g) n)" using assms by (simp add: targets_ok_def neighbors_def)
  have "distinct (map fst (map snd (out_edges g n)))"
    using d by (auto simp: out_edges_def targets_in_def comp_def split: option.splits)
  moreover have "mset (map fst (full_edges g n)) = mset (map fst (map snd (out_edges g n)))"
    by (simp add: batch_edges_def Let_def HIERARCHY_EDGE_TYPES_def multiset.map_comp)
  ultimately show ?thesis using mset_eq_imp_distinct_iff by blast
qed

section \<open>Attributes\<close>

text \<open>What a batch knows of a node is what the graph holds of it.\<close>

definition knows_truth :: "graph \<Rightarrow> batched_nodes \<Rightarrow> bool" where
  "knows_truth g bn \<longleftrightarrow> (\<forall>n v. map_of (bn_known bn) n = Some v \<longrightarrow> v = map_of (g_nodes g) n)"

lemma batched_get_finds:
  assumes "knows_truth g bn"
  shows "fst (batched_get g key bn) = map_of (g_nodes g) key" "knows_truth g (snd (batched_get g key bn))"
proof -
  have known: "map_of (fold (\<lambda>n. AList.update n (prefetch_nodes g all n)) batch kn) n =
      (if n \<in> set batch then Some (map_of (g_nodes g) n) else map_of kn n)" if "set batch \<subseteq> set all" for all batch kn n
    using that by (induction batch arbitrary: kn) (auto simp: prefetch_nodes_def update_conv')
  have "fst (batched_get g key bn) = map_of (g_nodes g) key \<and> knows_truth g (snd (batched_get g key bn))"
  proof (cases "map_of (bn_known bn) key")
    case None
    obtain b rest where tb: "take_block (bn_block bn) (bn_known bn) [] (bn_candidates bn) = (b, rest)"
      by (cases "take_block (bn_block bn) (bn_known bn) [] (bn_candidates bn)")
    let ?all = "if key \<notin> set b then b @ [key] else b"
    have f: "bn_known (fill_block g key bn) = fold (\<lambda>n. AList.update n (prefetch_nodes g ?all n)) ?all (bn_known bn)"
      using None tb by (simp add: fill_block_def Let_def)
    have k: "map_of (bn_known (fill_block g key bn)) n =
        (if n \<in> set ?all then Some (map_of (g_nodes g) n) else map_of (bn_known bn) n)" for n
      unfolding f by (rule known) simp
    have "key \<in> set ?all" by simp
    with k[of key] have "map_of (bn_known (fill_block g key bn)) key = Some (map_of (g_nodes g) key)" by simp
    moreover have "knows_truth g (fill_block g key bn)"
      using assms unfolding knows_truth_def by (auto simp only: k split: if_splits)
    ultimately show ?thesis using None by (simp add: batched_get_def Let_def)
  qed (use assms in \<open>auto simp: batched_get_def knows_truth_def Let_def\<close>)
  then show "fst (batched_get g key bn) = map_of (g_nodes g) key" "knows_truth g (snd (batched_get g key bn))" by auto
qed

lemma batched_starts_true: "knows_truth g \<lparr>bn_candidates = cs, bn_block = b, bn_known = []\<rparr>"
  by (simp add: knows_truth_def)

lemma nodes_for_reachable: "n \<in> set ids \<Longrightarrow> nodes_for g ids budget n = map_of (g_nodes g) n"
  by (simp add: nodes_for_def prefetch_nodes_def Let_def)

abbreviation node_attrs :: "graph \<Rightarrow> string \<Rightarrow> attrs option" where
  "node_attrs g \<equiv> map_of (g_nodes g)"

section \<open>Growing a walk\<close>

text \<open>
  \<open>grown ws ws'\<close>: what was found first stays first. \<open>tidy\<close>: the nodes visited are the start and the
  nodes found, each once, and what the walk goes on from is the end of what it found.
\<close>

definition grown :: "walk \<Rightarrow> walk \<Rightarrow> bool" where
  "grown ws ws' \<longleftrightarrow> prefix (ws_found ws) (ws_found ws')"

definition tidy :: "string \<Rightarrow> walk \<Rightarrow> bool" where
  "tidy s ws \<longleftrightarrow> ws_visited ws = s # map nb_node_id (ws_found ws) \<and> distinct (ws_visited ws)"

lemma grown_refl [simp]: "grown ws ws"
  by (simp add: grown_def)

lemma grown_trans: "grown a b \<Longrightarrow> grown b c \<Longrightarrow> grown a c"
  by (simp add: grown_def)

lemma add_neighbor_simps [simp]:
  "ws_visited (add_neighbor t h es p a ws) = ws_visited ws @ [t]"
  "length (ws_found (add_neighbor t h es p a ws)) = Suc (length (ws_found ws))"
  "grown ws (add_neighbor t h es p a ws)"
  by (simp_all add: add_neighbor_def grown_def)

lemma tidy_add: "tidy s ws \<Longrightarrow> t \<notin> set (ws_visited ws) \<Longrightarrow> tidy s (add_neighbor t h es p a ws)"
  by (auto simp: tidy_def add_neighbor_def)

lemma grown_add: "grown (add_neighbor t h es p a ws) ws' \<Longrightarrow> grown ws ws'"
  using grown_trans add_neighbor_simps(3) by blast

lemma expand_edges_grows: "grown ws (expand_edges rq look hop path es ws)"
  by (induction rq look hop path es ws rule: expand_edges.induct)
    (auto simp: Let_def intro: grown_add)

lemma expand_edges_tidy: "tidy s ws \<Longrightarrow> tidy s (expand_edges rq look hop path es ws)"
  by (induction rq look hop path es ws rule: expand_edges.induct) (auto simp: Let_def intro: tidy_add)

lemma expand_level_grows: "grown ws (expand_level rq look adj level ws)"
  by (induction rq look adj level ws rule: expand_level.induct)
    (auto intro: grown_trans expand_edges_grows)

lemma expand_level_tidy: "tidy s ws \<Longrightarrow> tidy s (expand_level rq look adj level ws)"
  by (induction rq look adj level ws rule: expand_level.induct) (auto intro: expand_edges_tidy)

text \<open>Only the attributes of targets not yet visited matter.\<close>

lemma expand_edges_attributes:
  assumes "\<forall>t \<in> fst ` set es. t \<notin> set (ws_visited ws) \<longrightarrow> look t = look' t"
  shows "expand_edges rq look hop path es ws = expand_edges rq look' hop path es ws"
  using assms
proof (induction rq look hop path es ws rule: expand_edges.induct)
  case (2 rq look hop path t es rest ws)
  show ?case
  proof (cases "t \<in> set (ws_visited ws)")
    case True
    with 2 show ?thesis by (simp add: Let_def)
  next
    case False
    then have "look t = look' t" using "2.prems" by simp
    with 2 show ?thesis by (auto simp: Let_def)
  qed
qed simp

text \<open>The visited nodes only grow.\<close>

lemma expand_edges_visited: "set (ws_visited ws) \<subseteq> set (ws_visited (expand_edges rq look hop path es ws))"
  by (induction rq look hop path es ws rule: expand_edges.induct) (auto simp: Let_def)

definition edges_at :: "(string \<times> out_edge list) list \<Rightarrow> string \<Rightarrow> out_edge list" where
  "edges_at adj n = (case map_of adj n of None \<Rightarrow> [] | Some es \<Rightarrow> es)"

lemma expand_level_attributes:
  assumes "\<forall>(n, _, _) \<in> set level. \<forall>t \<in> fst ` set (edges_at adj n). t \<notin> set (ws_visited ws) \<longrightarrow> look t = look' t"
  shows "expand_level rq look adj level ws = expand_level rq look' adj level ws"
  using assms
proof (induction rq look adj level ws rule: expand_level.induct)
  case (2 rq look adj current hop path rest ws)
  show ?case
  proof (cases "walk_full rq ws")
    case False
    let ?next = "expand_edges rq look (hop + 1) path (edges_at adj current) ws"
    have e: "?next = expand_edges rq look' (hop + 1) path (edges_at adj current) ws"
      using "2.prems" by (intro expand_edges_attributes) auto
    have "expand_level rq look adj rest ?next = expand_level rq look' adj rest ?next"
    proof (rule "2.IH"[OF False, unfolded edges_at_def[symmetric]])
      show "\<forall>(n, _, _) \<in> set rest. \<forall>t \<in> fst ` set (edges_at adj n). t \<notin> set (ws_visited ?next) \<longrightarrow> look t = look' t"
        using "2.prems" expand_edges_visited[of ws rq look "hop + 1" path "edges_at adj current"] by fastforce
    qed
    with False e show ?thesis by (simp add: edges_at_def)
  qed simp
qed simp

section \<open>A budget only cuts\<close>

definition unbounded :: "walk_request \<Rightarrow> walk_request" where
  "unbounded rq = rq\<lparr>wk_max_nodes := None\<rparr>"

lemma unbounded_simps [simp]:
  "matching_edges (unbounded rq) = matching_edges rq" "hidden_type (unbounded rq) = hidden_type rq"
  "\<not> walk_full (unbounded rq) ws" "max_hops (unbounded rq) = max_hops rq"
  "wk_max_nodes (unbounded rq) = None" "frontier_budget (unbounded rq) v = None"
  by (simp_all add: unbounded_def matching_edges_def hidden_type_def walk_full_def max_hops_def
      frontier_budget_def fun_eq_iff split: option.split)

text \<open>
  \<open>cut rq m ws wu\<close>: the bounded walk \<open>ws\<close> is where the unbounded walk \<open>wu\<close> is, or it is full and
  holds the first \<open>m\<close> of what the other has.
\<close>

definition cut :: "walk_request \<Rightarrow> nat \<Rightarrow> walk \<Rightarrow> walk \<Rightarrow> bool" where
  "cut rq m ws wu \<longleftrightarrow> (\<not> walk_full rq ws \<and> ws = wu) \<or>
     (walk_full rq ws \<and> length (ws_found ws) = m \<and> ws_found ws = take m (ws_found wu))"

lemma cut_later: "cut rq m ws wu \<Longrightarrow> walk_full rq ws \<Longrightarrow> grown wu wu' \<Longrightarrow> cut rq m ws wu'"
proof -
  assume c: "cut rq m ws wu" and f: "walk_full rq ws" and g: "grown wu wu'"
  then have l: "length (ws_found ws) = m" "ws_found ws = take m (ws_found wu)" unfolding cut_def by blast+
  then have "length (take m (ws_found wu)) = m" by metis
  then have "m \<le> length (ws_found wu)" by (simp add: min_def split: if_splits)
  with g have "take m (ws_found wu') = take m (ws_found wu)" by (auto simp: grown_def prefix_def)
  with l f show ?thesis unfolding cut_def by metis
qed

lemma walk_full_Some: "wk_max_nodes rq = Some (int m) \<Longrightarrow> walk_full rq ws \<longleftrightarrow> m \<le> length (ws_found ws)"
  by (simp add: walk_full_def)

lemma expand_edges_cut:
  assumes "wk_max_nodes rq = Some (int m)" "\<not> walk_full rq ws"
  shows "cut rq m (expand_edges rq look hop path es ws) (expand_edges (unbounded rq) look hop path es ws)"
  using assms(2)
proof (induction es arbitrary: ws)
  case Nil then show ?case by (simp add: cut_def)
next
  case (Cons e es)
  obtain t as where e: "e = (t, as)" by (cases e)
  show ?case
  proof (cases "matching_edges rq as = [] \<or> hidden_type rq (look t) \<or> t \<in> set (ws_visited ws)")
    case True
    with Cons show ?thesis by (auto simp: e Let_def)
  next
    case False
    let ?new = "add_neighbor t hop (matching_edges rq as) path (look t) ws"
    show ?thesis
    proof (cases "walk_full rq ?new")
      case True
      then have "length (ws_found ?new) = m" using Cons.prems walk_full_Some[OF assms(1)] by simp
      then have "cut rq m ?new ?new" using True by (simp add: cut_def)
      then have "cut rq m ?new (expand_edges (unbounded rq) look hop path es ?new)"
        using True by (rule cut_later) (rule expand_edges_grows)
      with False True show ?thesis by (simp add: e Let_def)
    next
      case not_full: False
      from Cons.IH[OF not_full] False not_full show ?thesis by (simp add: e Let_def)
    qed
  qed
qed

text \<open>Without filters, the walk keeps every target it reads that it has not visited.\<close>

definition unfiltered :: "walk_request \<Rightarrow> bool" where
  "unfiltered rq \<longleftrightarrow> wk_edge_types rq = [] \<and> wk_exclude_edge_types rq = [] \<and> wk_exclude_node_types rq = []"

lemma unfiltered_keeps:
  assumes "unfiltered rq"
  shows "matching_edges rq es = es" "\<not> hidden_type rq a"
  using assms by (simp_all add: unfiltered_def matching_edges_def hidden_type_def)

lemma expand_edges_reads_all:
  assumes "unfiltered rq" "\<forall>(_, as) \<in> set es. as \<noteq> []"
  shows "fst ` set es \<subseteq> set (ws_visited (expand_edges (unbounded rq) look hop path es ws))"
  using assms(2)
proof (induction es arbitrary: ws)
  case (Cons e es)
  obtain t as where e: "e = (t, as)" by (cases e)
  show ?case
  proof (cases "t \<in> set (ws_visited ws)")
    case True
    with Cons.IH[of ws] Cons.prems expand_edges_visited[of ws "unbounded rq" look hop path es] show ?thesis
      by (auto simp: e Let_def unfiltered_keeps[OF assms(1)])
  next
    case False
    let ?new = "add_neighbor t hop as path (look t) ws"
    have "t \<in> set (ws_visited (expand_edges (unbounded rq) look hop path es ?new))"
      using expand_edges_visited[of ?new "unbounded rq" look hop path es] by auto
    with Cons.IH[of ?new] Cons.prems False show ?thesis
      by (auto simp: e Let_def unfiltered_keeps[OF assms(1)])
  qed
qed simp

text \<open>So as many targets as are wanted and visited are enough to fill the budget.\<close>

lemma enough_targets_fill:
  assumes "unfiltered rq" "\<forall>(_, as) \<in> set es. as \<noteq> []" "distinct (map fst es)" "m + v \<le> length es" "1 \<le> v" "tidy s ws"
  shows "m \<le> length (ws_found (expand_edges (unbounded rq) look hop path es ws))"
proof -
  let ?fin = "expand_edges (unbounded rq) look hop path es ws"
  have t: "tidy s ?fin" by (rule expand_edges_tidy[OF assms(6)])
  have "m + v \<le> card (fst ` set es)" using assms(3,4) by (metis distinct_card length_map set_map)
  also have "\<dots> \<le> card (set (ws_visited ?fin))"
    by (rule card_mono) (simp_all add: expand_edges_reads_all[OF assms(1,2)])
  also have "\<dots> = length (ws_visited ?fin)" using t unfolding tidy_def by (intro distinct_card) blast
  also have "\<dots> = Suc (length (ws_found ?fin))" using t by (simp add: tidy_def)
  finally show ?thesis using assms(5) by simp
qed

lemma expand_edges_append:
  "expand_edges (unbounded rq) look hop path (xs @ ys) ws =
   expand_edges (unbounded rq) look hop path ys (expand_edges (unbounded rq) look hop path xs ws)"
proof (induction xs arbitrary: ws)
  case (Cons e xs)
  then show ?case by (cases e) (simp add: Let_def)
qed simp

text \<open>What one node's fetched edges must be: all of them, or enough of them when nothing is filtered\<close>

definition fetched_enough :: "walk_request \<Rightarrow> nat \<Rightarrow> nat \<Rightarrow> out_edge list \<Rightarrow> out_edge list \<Rightarrow> bool" where
  "fetched_enough rq m v some all \<longleftrightarrow> some = all \<or> (unfiltered rq \<and> some = take (m + v) all)"

definition good_edges :: "out_edge list \<Rightarrow> bool" where
  "good_edges es \<longleftrightarrow> distinct (map fst es) \<and> (\<forall>(_, as) \<in> set es. as \<noteq> [])"

lemma expand_edges_fetched:
  assumes "wk_max_nodes rq = Some (int m)" "\<not> walk_full rq ws" "tidy s ws" "1 \<le> v"
    and "fetched_enough rq m v some all" "good_edges all"
  shows "cut rq m (expand_edges rq look hop path some ws) (expand_edges (unbounded rq) look hop path all ws)"
proof (cases "some = all")
  case True
  then show ?thesis using expand_edges_cut[OF assms(1,2)] by simp
next
  case False
  then have u: "unfiltered rq" and s: "some = take (m + v) all" using assms(5) by (auto simp: fetched_enough_def)
  with False have len: "length some = m + v" by auto
  let ?mid = "expand_edges (unbounded rq) look hop path some ws"
  have c: "cut rq m (expand_edges rq look hop path some ws) ?mid" by (rule expand_edges_cut[OF assms(1,2)])
  have "m \<le> length (ws_found ?mid)"
  proof (rule enough_targets_fill[OF u _ _ _ assms(4,3)])
    show "\<forall>(_, as) \<in> set some. as \<noteq> []" using assms(6) unfolding good_edges_def s by (auto dest: in_set_takeD)
    show "distinct (map fst some)" using assms(6) unfolding good_edges_def s by (simp add: distinct_take flip: take_map)
  qed (use len in simp)
  then have "walk_full rq (expand_edges rq look hop path some ws)"
    using c walk_full_Some[OF assms(1)] unfolding cut_def by metis
  moreover have "grown ?mid (expand_edges (unbounded rq) look hop path all ws)"
  proof -
    have "expand_edges (unbounded rq) look hop path all ws = expand_edges (unbounded rq) look hop path (drop (m + v) all) ?mid"
      unfolding s by (simp flip: expand_edges_append)
    then show ?thesis using expand_edges_grows by metis
  qed
  ultimately show ?thesis using cut_later[OF c] by blast
qed

lemma expand_level_full: "walk_full rq ws \<Longrightarrow> expand_level rq look adj level ws = ws"
  by (cases "(rq, look, adj, level, ws)" rule: expand_level.cases) auto

lemma expand_level_cut:
  assumes "wk_max_nodes rq = Some (int m)" "1 \<le> v"
    and "\<forall>(n, _, _) \<in> set level. fetched_enough rq m v (edges_at adj n) (edges_at all n) \<and> good_edges (edges_at all n)"
    and "\<not> walk_full rq ws" "tidy s ws"
  shows "cut rq m (expand_level rq look adj level ws) (expand_level (unbounded rq) look all level ws)"
  using assms(3-5)
proof (induction level arbitrary: ws)
  case Nil then show ?case by (simp add: cut_def)
next
  case (Cons x level)
  obtain n hop path where x: "x = (n, hop, path)" by (cases x)
  let ?b = "expand_edges rq look (hop + 1) path (edges_at adj n) ws"
  let ?u = "expand_edges (unbounded rq) look (hop + 1) path (edges_at all n) ws"
  have c: "cut rq m ?b ?u"
    using Cons.prems x by (intro expand_edges_fetched[OF assms(1) Cons.prems(2,3) assms(2)]) auto
  have eb: "expand_level rq look adj (x # level) ws = expand_level rq look adj level ?b"
    using Cons.prems(2) by (simp add: x edges_at_def)
  have eu: "expand_level (unbounded rq) look all (x # level) ws = expand_level (unbounded rq) look all level ?u"
    by (simp add: x edges_at_def)
  show ?case
  proof (cases "walk_full rq ?b")
    case True
    have "cut rq m ?b (expand_level (unbounded rq) look all level ?u)"
      by (rule cut_later[OF c True expand_level_grows])
    with True show ?thesis unfolding eb eu by (simp add: expand_level_full)
  next
    case False
    then have "?b = ?u" using c by (simp add: cut_def)
    moreover have "tidy s ?u" by (rule expand_edges_tidy[OF Cons.prems(3)])
    ultimately show ?thesis unfolding eb eu using Cons.IH[of ?u] Cons.prems(1) False by simp
  qed
qed

text \<open>One level of a walk, with the attributes read off the graph\<close>

definition level_adjacency :: "graph \<Rightarrow> walk_request \<Rightarrow> walk \<Rightarrow> (string \<times> out_edge list) list" where
  "level_adjacency g rq ws = out_edges_batch g (map fst (ws_frontier ws)) None HIERARCHY_EDGE_TYPES
     (frontier_budget rq (length (ws_visited ws)))"

definition next_level :: "graph \<Rightarrow> walk_request \<Rightarrow> walk \<Rightarrow> walk" where
  "next_level g rq ws =
     expand_level rq (node_attrs g) (level_adjacency g rq ws) (ws_frontier ws) (ws\<lparr>ws_frontier := []\<rparr>)"

lemma in_adjacency:
  assumes "(n, hop, path) \<in> set (ws_frontier ws)"
  shows "edges_at (level_adjacency g rq ws) n =
      batch_edges g None HIERARCHY_EDGE_TYPES (frontier_budget rq (length (ws_visited ws))) n"
    and "set (edges_at (level_adjacency g rq ws) n) \<subseteq> set (concat (map snd (level_adjacency g rq ws)))"
proof -
  have n: "n \<in> set (map fst (ws_frontier ws))" using assms by force
  then have m: "map_of (level_adjacency g rq ws) n =
      Some (batch_edges g None HIERARCHY_EDGE_TYPES (frontier_budget rq (length (ws_visited ws))) n)"
    unfolding level_adjacency_def by (rule batch_of)
  then show "edges_at (level_adjacency g rq ws) n =
      batch_edges g None HIERARCHY_EDGE_TYPES (frontier_budget rq (length (ws_visited ws))) n"
    by (simp add: edges_at_def)
  from map_of_SomeD[OF m] m show "set (edges_at (level_adjacency g rq ws) n) \<subseteq> set (concat (map snd (level_adjacency g rq ws)))"
    by (force simp: edges_at_def)
qed

lemma walk_levels_step:
  "walk_levels g rq (Suc hops) ws =
     (if ws_frontier ws = [] \<or> walk_full rq ws then ws else walk_levels g rq hops (next_level g rq ws))"
proof -
  let ?reachable = "filter (\<lambda>t. t \<notin> set (ws_visited ws)) (map fst (concat (map snd (level_adjacency g rq ws))))"
  have "expand_level rq (nodes_for g ?reachable (wk_max_nodes rq)) (level_adjacency g rq ws) (ws_frontier ws) (ws\<lparr>ws_frontier := []\<rparr>)
      = next_level g rq ws"
    unfolding next_level_def
  proof (rule expand_level_attributes, safe)
    fix n hop path t as
    assume n: "(n, hop, path) \<in> set (ws_frontier ws)" and t: "(t, as) \<in> set (edges_at (level_adjacency g rq ws) n)"
      and nv: "fst (t, as) \<notin> set (ws_visited (ws\<lparr>ws_frontier := []\<rparr>))"
    from in_adjacency(2)[OF n] t have "(t, as) \<in> set (concat (map snd (level_adjacency g rq ws)))" by blast
    then have "t \<in> set (map fst (concat (map snd (level_adjacency g rq ws))))"
      unfolding set_map by (rule rev_image_eqI) simp
    with nv have "t \<in> set ?reachable" by simp
    then show "nodes_for g ?reachable (wk_max_nodes rq) (fst (t, as)) = node_attrs g (fst (t, as))"
      unfolding fst_conv by (rule nodes_for_reachable)
  qed
  then show ?thesis by (simp add: Let_def level_adjacency_def)
qed

lemma without_frontier [simp]:
  "walk_full rq (ws\<lparr>ws_frontier := fr\<rparr>) = walk_full rq ws" "tidy s (ws\<lparr>ws_frontier := fr\<rparr>) = tidy s ws"
  unfolding walk_full_def tidy_def by (simp_all split: option.split)

lemma next_level_grows: "grown ws (next_level g rq ws)"
proof -
  have "grown (ws\<lparr>ws_frontier := []\<rparr>) (next_level g rq ws)" unfolding next_level_def by (rule expand_level_grows)
  then show ?thesis by (simp add: grown_def)
qed

lemma next_level_tidy: "tidy s ws \<Longrightarrow> tidy s (next_level g rq ws)"
  unfolding next_level_def by (rule expand_level_tidy) simp

lemma walk_levels_grows: "grown ws (walk_levels g rq hops ws)"
proof (induction hops arbitrary: ws)
  case (Suc hops)
  have "grown ws (walk_levels g rq hops (next_level g rq ws))"
    by (rule grown_trans[OF next_level_grows Suc.IH])
  then show ?case unfolding walk_levels_step by simp
qed simp

lemma next_level_cut:
  assumes "targets_ok g" "wk_max_nodes rq = Some (int m)" "\<not> walk_full rq ws" "tidy s ws"
  shows "cut rq m (next_level g rq ws) (next_level g (unbounded rq) ws)"
  unfolding next_level_def
proof (rule expand_level_cut[OF assms(2)])
  show "1 \<le> length (ws_visited ws)" using assms(4) by (simp add: tidy_def)
  show "\<forall>(n, _, _) \<in> set (ws_frontier ws). fetched_enough rq m (length (ws_visited ws))
      (edges_at (level_adjacency g rq ws) n) (edges_at (level_adjacency g (unbounded rq) ws) n) \<and>
      good_edges (edges_at (level_adjacency g (unbounded rq) ws) n)"
  proof safe
    fix n hop path
    assume n: "(n, hop, path) \<in> set (ws_frontier ws)"
    have all: "edges_at (level_adjacency g (unbounded rq) ws) n = full_edges g n"
      using in_adjacency(1)[OF n, of g "unbounded rq"] by simp
    have some: "edges_at (level_adjacency g rq ws) n =
        (if unfiltered rq then take (m + length (ws_visited ws)) (full_edges g n) else full_edges g n)"
      using in_adjacency(1)[OF n, of g rq] assms(2)
      by (auto simp: frontier_budget_def unfiltered_def limited_edges nat_int_add split: if_splits)
    show "fetched_enough rq m (length (ws_visited ws))
        (edges_at (level_adjacency g rq ws) n) (edges_at (level_adjacency g (unbounded rq) ws) n)"
      unfolding all some by (simp add: fetched_enough_def)
    show "good_edges (edges_at (level_adjacency g (unbounded rq) ws) n)"
      unfolding all good_edges_def using full_edges_distinct[OF assms(1)] full_edges_set by auto
  qed
  show "\<not> walk_full rq (ws\<lparr>ws_frontier := []\<rparr>)" using assms(3) by simp
  show "tidy s (ws\<lparr>ws_frontier := []\<rparr>)" using assms(4) by simp
qed

lemma walk_levels_full: "walk_full rq ws \<Longrightarrow> walk_levels g rq hops ws = ws"
  by (cases hops) (simp_all add: walk_levels_step del: walk_levels.simps(2))

lemma walk_levels_cut:
  assumes "targets_ok g" "wk_max_nodes rq = Some (int m)" "\<not> walk_full rq ws" "tidy s ws"
  shows "cut rq m (walk_levels g rq hops ws) (walk_levels g (unbounded rq) hops ws)"
  using assms(3,4)
proof (induction hops arbitrary: ws)
  case 0 then show ?case by (simp add: cut_def)
next
  case (Suc hops)
  show ?case
  proof (cases "ws_frontier ws = []")
    case True
    with Suc show ?thesis by (simp add: walk_levels_step cut_def del: walk_levels.simps(2))
  next
    case False
    let ?b = "next_level g rq ws" and ?u = "next_level g (unbounded rq) ws"
    have c: "cut rq m ?b ?u" by (rule next_level_cut[OF assms(1,2) Suc.prems])
    have eb: "walk_levels g rq (Suc hops) ws = walk_levels g rq hops ?b"
      and eu: "walk_levels g (unbounded rq) (Suc hops) ws = walk_levels g (unbounded rq) hops ?u"
      using False Suc.prems(1) by (simp_all add: walk_levels_step del: walk_levels.simps(2))
    show ?thesis
    proof (cases "walk_full rq ?b")
      case True
      have "cut rq m ?b (walk_levels g (unbounded rq) hops ?u)" by (rule cut_later[OF c True walk_levels_grows])
      with True show ?thesis unfolding eb eu by (simp add: walk_levels_full)
    next
      case not_full: False
      then have "?b = ?u" using c by (simp add: cut_def)
      with Suc.IH[OF _ next_level_tidy[OF Suc.prems(2)]] not_full show ?thesis unfolding eb eu by metis
    qed
  qed
qed

lemma neighbors_cut:
  assumes "targets_ok g"
  shows "graph_neighbors g n (rq\<lparr>wk_max_nodes := Some m\<rparr>) = take (nat m) (graph_neighbors g n (rq\<lparr>wk_max_nodes := None\<rparr>))"
proof -
  let ?rq = "rq\<lparr>wk_max_nodes := Some m\<rparr>"
  have u: "rq\<lparr>wk_max_nodes := None\<rparr> = unbounded ?rq" by (simp add: unbounded_def)
  have hops: "max_hops (unbounded ?rq) = max_hops ?rq" by simp
  show ?thesis
  proof (cases "m \<le> 0")
    case True
    then have "walk_full ?rq (walk_start n)" by (simp add: walk_full_def walk_start_def)
    then have "graph_neighbors g n ?rq = []" by (simp add: graph_neighbors_def walk_levels_full walk_start_def)
    with True show ?thesis by simp
  next
    case False
    then have m: "wk_max_nodes ?rq = Some (int (nat m))" and nf: "\<not> walk_full ?rq (walk_start n)"
      by (simp_all add: walk_full_def walk_start_def)
    have "tidy n (walk_start n)" by (simp add: tidy_def walk_start_def)
    then have c: "cut ?rq (nat m) (walk_levels g ?rq (max_hops ?rq) (walk_start n))
        (walk_levels g (unbounded ?rq) (max_hops ?rq) (walk_start n))"
      by (rule walk_levels_cut[OF assms m nf])
    let ?b = "walk_levels g ?rq (max_hops ?rq) (walk_start n)"
    let ?u = "walk_levels g (unbounded ?rq) (max_hops ?rq) (walk_start n)"
    have "ws_found ?b = take (nat m) (ws_found ?u)"
    proof (cases "walk_full ?rq ?b")
      case True
      with c show ?thesis unfolding cut_def by blast
    next
      case not_full: False
      then have "?b = ?u" using c unfolding cut_def by blast
      moreover have "length (ws_found ?b) \<le> nat m" using not_full walk_full_Some[OF m, of ?b] by linarith
      ultimately show ?thesis by simp
    qed
    then show ?thesis unfolding u graph_neighbors_def hops by simp
  qed
qed

text \<open>
  Claim C21: a budget only cuts a walk short. On every graph the mutations can make, for every start,
  depth and filters, the walk with a budget of \<open>m\<close> neighbours finds the first \<open>m\<close> of those the
  walk without a budget finds, in its order and with the same depths, paths and attributes, although
  it stops fetching early, reads only a bounded part of a hub's edges, and fetches attributes only
  for some of the nodes.
\<close>

theorem budget_only_cuts:
  "graph_neighbors (fold apply_op ops empty_graph) n (rq\<lparr>wk_max_nodes := Some m\<rparr>)
     = take (nat m) (graph_neighbors (fold apply_op ops empty_graph) n (rq\<lparr>wk_max_nodes := None\<rparr>))"
  by (rule neighbors_cut[OF targets_ok_ops])

text \<open>A slice says it is truncated exactly when there are more neighbours than it may hold.\<close>

lemma slice_truncated:
  assumes "targets_ok g"
  shows "sl_truncated (graph_slice_of g n rq limit) \<longleftrightarrow>
    nat (max 0 limit) < length (graph_neighbors g n (rq\<lparr>wk_max_nodes := None\<rparr>))"
  unfolding graph_slice_of_def Let_def
  by (simp add: neighbors_cut[OF assms])

text \<open>What an expansion keeps was reached through nothing that \<open>admit\<close> removed.\<close>

lemma expansion_hides:
  assumes "nb \<in> set (admitted_walk admit found)" "step \<in> set (butlast (tl (nb_path nb)))"
    and "step \<in> set (map nb_node_id found)"
  shows "nb \<in> set (admit found) \<and> step \<in> set (map nb_node_id (admit found))"
  using assms by (auto simp: admitted_walk_def Let_def list_ex_iff)

section \<open>What is found, and how far\<close>

text \<open>One hop a request allows, and the number of hops of a shortest way\<close>

definition hop_allowed :: "graph \<Rightarrow> walk_request \<Rightarrow> string \<Rightarrow> string \<Rightarrow> bool" where
  "hop_allowed g rq u v \<longleftrightarrow> matching_edges rq (edges_of g (u, v)) \<noteq> [] \<and> \<not> hidden_type rq (node_attrs g v)"

definition hops_away :: "graph \<Rightarrow> walk_request \<Rightarrow> string \<Rightarrow> nat \<Rightarrow> string \<Rightarrow> bool" where
  "hops_away g rq s k v \<longleftrightarrow> (hop_allowed g rq ^^ k) s v \<and> (\<forall>j. (hop_allowed g rq ^^ j) s v \<longrightarrow> k \<le> j)"

definition way :: "graph \<Rightarrow> walk_request \<Rightarrow> string \<Rightarrow> string list \<Rightarrow> bool" where
  "way g rq s p \<longleftrightarrow> p \<noteq> [] \<and> hd p = s \<and> successively (hop_allowed g rq) p"

lemma way_snoc: "way g rq s p \<Longrightarrow> hop_allowed g rq (last p) v \<Longrightarrow> way g rq s (p @ [v])"
  by (auto simp: way_def successively_append_iff)

lemma hops_away_0: "hops_away g rq s 0 v \<longleftrightarrow> v = s"
  by (auto simp: hops_away_def)

lemma hops_away_unique: "hops_away g rq s j v \<Longrightarrow> hops_away g rq s k v \<Longrightarrow> j = k"
  unfolding hops_away_def by (meson le_antisym)

lemma hops_away_least: "(hop_allowed g rq ^^ k) s v \<Longrightarrow> \<exists>j \<le> k. hops_away g rq s j v"
  unfolding hops_away_def
  by (rule exI[of _ "LEAST j. (hop_allowed g rq ^^ j) s v"]) (auto intro: LeastI Least_le)

text \<open>A node is one hop further than another that is as near as any from which it can be reached.\<close>

lemma hops_away_Suc:
  "hops_away g rq s (Suc k) v \<longleftrightarrow>
     (\<exists>u. hops_away g rq s k u \<and> hop_allowed g rq u v) \<and> (\<forall>j \<le> k. \<not> hops_away g rq s j v)"
proof
  assume a: "hops_away g rq s (Suc k) v"
  then obtain u where u: "(hop_allowed g rq ^^ k) s u" "hop_allowed g rq u v"
    by (auto simp: hops_away_def)
  have "k \<le> j" if "(hop_allowed g rq ^^ j) s u" for j
  proof -
    have "(hop_allowed g rq ^^ Suc j) s v" using that u(2) by auto
    with a have "Suc k \<le> Suc j" unfolding hops_away_def by blast
    then show ?thesis by simp
  qed
  with u have "hops_away g rq s k u" by (simp add: hops_away_def)
  with u(2) a show "(\<exists>u. hops_away g rq s k u \<and> hop_allowed g rq u v) \<and> (\<forall>j \<le> k. \<not> hops_away g rq s j v)"
    using hops_away_unique by fastforce
next
  assume a: "(\<exists>u. hops_away g rq s k u \<and> hop_allowed g rq u v) \<and> (\<forall>j \<le> k. \<not> hops_away g rq s j v)"
  then have r: "(hop_allowed g rq ^^ Suc k) s v" by (auto simp: hops_away_def)
  then obtain j where j: "j \<le> Suc k" "hops_away g rq s j v" using hops_away_least by blast
  with a have "j = Suc k" using le_Suc_eq by blast
  with j show "hops_away g rq s (Suc k) v" by simp
qed

text \<open>What expanding a node, and a level, adds to an unbounded walk\<close>

definition added :: "walk \<Rightarrow> walk \<Rightarrow> neighbor list \<Rightarrow> bool" where
  "added ws ws' new \<longleftrightarrow> ws_found ws' = ws_found ws @ new \<and> ws_visited ws' = ws_visited ws @ map nb_node_id new \<and>
     ws_frontier ws' = ws_frontier ws @ map (\<lambda>nb. (nb_node_id nb, nb_depth nb, nb_path nb)) new"

lemma added_trans: "added a b xs \<Longrightarrow> added b c ys \<Longrightarrow> added a c (xs @ ys)"
  by (simp add: added_def)

definition wanted_edges :: "graph \<Rightarrow> walk_request \<Rightarrow> out_edge list \<Rightarrow> string set" where
  "wanted_edges g rq es = {t. \<exists>as. (t, as) \<in> set es \<and> matching_edges rq as \<noteq> [] \<and> \<not> hidden_type rq (node_attrs g t)}"

lemma expand_edges_adds:
  "\<exists>new. added ws (expand_edges (unbounded rq) (node_attrs g) hop path es ws) new \<and>
     (\<forall>nb \<in> set new. nb_depth nb = hop \<and> nb_path nb = path @ [nb_node_id nb]) \<and>
     nb_node_id ` set new = wanted_edges g rq es - set (ws_visited ws)"
proof (induction es arbitrary: ws)
  case Nil
  show ?case by (rule exI[of _ "[]"]) (simp add: added_def wanted_edges_def)
next
  case (Cons e es)
  obtain t as where e: "e = (t, as)" by (cases e)
  show ?case
  proof (cases "matching_edges rq as = [] \<or> hidden_type rq (node_attrs g t) \<or> t \<in> set (ws_visited ws)")
    case True
    then have "wanted_edges g rq (e # es) - set (ws_visited ws) = wanted_edges g rq es - set (ws_visited ws)"
      by (auto simp: wanted_edges_def e)
    with Cons.IH[of ws] True show ?thesis by (simp add: e Let_def)
  next
    case False
    let ?mid = "add_neighbor t hop (matching_edges rq as) path (node_attrs g t) ws"
    obtain nb where nb: "added ws ?mid [nb]" "nb_node_id nb = t" "nb_depth nb = hop" "nb_path nb = path @ [t]"
      by (rule that[of "last (ws_found ?mid)"]) (simp_all add: added_def add_neighbor_def)
    obtain new where new: "added ?mid (expand_edges (unbounded rq) (node_attrs g) hop path es ?mid) new"
      "\<forall>x \<in> set new. nb_depth x = hop \<and> nb_path x = path @ [nb_node_id x]"
      "nb_node_id ` set new = wanted_edges g rq es - set (ws_visited ?mid)"
      using Cons.IH[of ?mid] by blast
    have "nb_node_id ` set (nb # new) = wanted_edges g rq (e # es) - set (ws_visited ws)"
      using new(3) nb(2) False by (auto simp: wanted_edges_def e)
    with added_trans[OF nb(1) new(1)] nb new(2) False show ?thesis
      by (intro exI[of _ "nb # new"]) (simp add: e Let_def)
  qed
qed

lemma expand_level_adds:
  "\<exists>new. added ws (expand_level (unbounded rq) (node_attrs g) adj level ws) new \<and>
     (\<forall>nb \<in> set new. \<exists>(u, h, p) \<in> set level. nb_depth nb = h + 1 \<and> nb_path nb = p @ [nb_node_id nb] \<and>
        nb_node_id nb \<in> wanted_edges g rq (edges_at adj u)) \<and>
     nb_node_id ` set new = (\<Union>(u, _, _) \<in> set level. wanted_edges g rq (edges_at adj u)) - set (ws_visited ws)"
proof (induction level arbitrary: ws)
  case Nil
  show ?case by (rule exI[of _ "[]"]) (simp add: added_def)
next
  case (Cons x level)
  obtain n h p where x: "x = (n, h, p)" by (cases x)
  let ?mid = "expand_edges (unbounded rq) (node_attrs g) (h + 1) p (edges_at adj n) ws"
  obtain first where f: "added ws ?mid first" "\<forall>nb \<in> set first. nb_depth nb = h + 1 \<and> nb_path nb = p @ [nb_node_id nb]"
    "nb_node_id ` set first = wanted_edges g rq (edges_at adj n) - set (ws_visited ws)"
    using expand_edges_adds by blast
  obtain rest where r: "added ?mid (expand_level (unbounded rq) (node_attrs g) adj level ?mid) rest"
    "\<forall>nb \<in> set rest. \<exists>(u, h, p) \<in> set level. nb_depth nb = h + 1 \<and> nb_path nb = p @ [nb_node_id nb] \<and>
        nb_node_id nb \<in> wanted_edges g rq (edges_at adj u)"
    "nb_node_id ` set rest = (\<Union>(u, _, _) \<in> set level. wanted_edges g rq (edges_at adj u)) - set (ws_visited ?mid)"
    using Cons.IH[of ?mid] by blast
  have v: "set (ws_visited ?mid) = set (ws_visited ws) \<union> wanted_edges g rq (edges_at adj n)"
    using f(1,3) by (auto simp: added_def)
  have "nb_node_id ` set (first @ rest) =
      (\<Union>(u, _, _) \<in> set (x # level). wanted_edges g rq (edges_at adj u)) - set (ws_visited ws)"
    unfolding set_append image_Un f(3) r(3) v by (auto simp: x)
  moreover have "\<forall>nb \<in> set (first @ rest). \<exists>(u, h, p) \<in> set (x # level). nb_depth nb = h + 1 \<and>
      nb_path nb = p @ [nb_node_id nb] \<and> nb_node_id nb \<in> wanted_edges g rq (edges_at adj u)"
    using f(2,3) r(2) by (fastforce simp: x)
  moreover have "expand_level (unbounded rq) (node_attrs g) adj (x # level) ws =
      expand_level (unbounded rq) (node_attrs g) adj level ?mid"
    by (simp add: x edges_at_def)
  ultimately show ?case using added_trans[OF f(1) r(1)] by metis
qed

text \<open>After \<open>k\<close> levels the walk has visited what is at most \<open>k\<close> hops away, and goes on from what is \<open>k\<close>.\<close>

definition found_right :: "graph \<Rightarrow> walk_request \<Rightarrow> string \<Rightarrow> neighbor \<Rightarrow> bool" where
  "found_right g rq s nb \<longleftrightarrow> 1 \<le> nb_depth nb \<and> hops_away g rq s (nb_depth nb) (nb_node_id nb) \<and>
     way g rq s (nb_path nb) \<and> last (nb_path nb) = nb_node_id nb \<and> length (nb_path nb) = Suc (nb_depth nb)"

definition walked :: "graph \<Rightarrow> walk_request \<Rightarrow> string \<Rightarrow> nat \<Rightarrow> walk \<Rightarrow> bool" where
  "walked g rq s k ws \<longleftrightarrow> tidy s ws \<and> set (ws_visited ws) = {v. \<exists>j \<le> k. hops_away g rq s j v} \<and>
     fst ` set (ws_frontier ws) = {v. hops_away g rq s k v} \<and>
     (\<forall>(u, h, p) \<in> set (ws_frontier ws). h = k \<and> way g rq s p \<and> last p = u \<and> length p = Suc k) \<and>
     (\<forall>nb \<in> set (ws_found ws). found_right g rq s nb)"

lemma walked_start: "walked g rq s 0 (walk_start s)"
  by (auto simp: walked_def walk_start_def tidy_def hops_away_0 way_def)

lemma wanted_full:
  assumes "graph_ok g" shows "wanted_edges g rq (full_edges g u) = {t. hop_allowed g rq u t}"
proof -
  have "t \<in> set (neighbors g u) \<longleftrightarrow> edges_of g (u, t) \<noteq> []" for t
    using assms by (simp add: graph_ok_def adjacency_ok_def)
  then have "(t, as) \<in> set (full_edges g u) \<longleftrightarrow> as = edges_of g (u, t) \<and> as \<noteq> []" for t as
    unfolding full_edges_set by auto
  moreover have "matching_edges rq [] = []" by (simp add: matching_edges_def)
  ultimately show ?thesis unfolding wanted_edges_def hop_allowed_def by auto
qed

lemma walked_next:
  assumes "graph_ok g" "walked g rq s k ws"
  shows "walked g rq s (Suc k) (next_level g (unbounded rq) ws)"
proof -
  let ?ws = "ws\<lparr>ws_frontier := []\<rparr>" and ?adj = "level_adjacency g (unbounded rq) ws" and ?next = "next_level g (unbounded rq) ws"
  obtain new where new: "added ?ws ?next new"
    "\<forall>nb \<in> set new. \<exists>(u, h, p) \<in> set (ws_frontier ws). nb_depth nb = h + 1 \<and> nb_path nb = p @ [nb_node_id nb] \<and>
        nb_node_id nb \<in> wanted_edges g rq (edges_at ?adj u)"
    "nb_node_id ` set new = (\<Union>(u, _, _) \<in> set (ws_frontier ws). wanted_edges g rq (edges_at ?adj u)) - set (ws_visited ?ws)"
    using expand_level_adds[of ?ws rq g ?adj "ws_frontier ws"] unfolding next_level_def by blast
  have w: "wanted_edges g rq (edges_at ?adj u) = {t. hop_allowed g rq u t}" if "(u, h, p) \<in> set (ws_frontier ws)" for u h p
    using in_adjacency(1)[OF that, of g "unbounded rq"] wanted_full[OF assms(1)] by simp
  have fr: "fst ` set (ws_frontier ws) = {v. hops_away g rq s k v}"
    and vis: "set (ws_visited ws) = {v. \<exists>j \<le> k. hops_away g rq s j v}" using assms(2) by (simp_all add: walked_def)
  have "(\<Union>(u, _, _) \<in> set (ws_frontier ws). wanted_edges g rq (edges_at ?adj u)) = (\<Union>u \<in> fst ` set (ws_frontier ws). {t. hop_allowed g rq u t})"
    using w by fastforce
  also have "\<dots> = {t. \<exists>u. hops_away g rq s k u \<and> hop_allowed g rq u t}" unfolding fr by blast
  finally have ids: "nb_node_id ` set new = {v. hops_away g rq s (Suc k) v}"
    unfolding new(3) hops_away_Suc using vis by auto
  have each: "found_right g rq s nb \<and> nb_depth nb = Suc k" if nb: "nb \<in> set new" for nb
  proof -
    obtain u h p where u: "(u, h, p) \<in> set (ws_frontier ws)" "nb_depth nb = h + 1" "nb_path nb = p @ [nb_node_id nb]"
      "nb_node_id nb \<in> wanted_edges g rq (edges_at ?adj u)"
      using new(2) nb by blast
    have p: "h = k" "way g rq s p" "last p = u" "length p = Suc k" using assms(2) u(1) by (auto simp: walked_def)
    have "hop_allowed g rq (last p) (nb_node_id nb)" using u(4) w[OF u(1)] p(3) by simp
    moreover have "hops_away g rq s (Suc k) (nb_node_id nb)" using ids nb by auto
    ultimately show ?thesis using u p way_snoc[OF p(2)] by (simp add: found_right_def)
  qed
  have t: "tidy s ?next" using assms(2) next_level_tidy by (simp add: walked_def)
  have "set (ws_visited ?next) = {v. \<exists>j \<le> Suc k. hops_away g rq s j v}"
    using new(1) vis ids by (auto simp: added_def le_Suc_eq)
  moreover have "fst ` set (ws_frontier ?next) = {v. hops_away g rq s (Suc k) v}"
    using new(1) ids by (simp add: added_def image_image)
  moreover have "\<forall>(u, h, p) \<in> set (ws_frontier ?next). h = Suc k \<and> way g rq s p \<and> last p = u \<and> length p = Suc (Suc k)"
    using new(1) each by (auto simp: added_def found_right_def)
  moreover have "\<forall>nb \<in> set (ws_found ?next). found_right g rq s nb"
    using new(1) each assms(2) by (auto simp: added_def walked_def)
  ultimately show ?thesis using t by (simp add: walked_def)
qed

lemma walked_end:
  assumes "graph_ok g" "walked g rq s k ws"
  shows "tidy s (walk_levels g (unbounded rq) hops ws) \<and>
    set (ws_visited (walk_levels g (unbounded rq) hops ws)) = {v. \<exists>j \<le> k + hops. hops_away g rq s j v} \<and>
    (\<forall>nb \<in> set (ws_found (walk_levels g (unbounded rq) hops ws)). found_right g rq s nb)"
  using assms(2)
proof (induction hops arbitrary: k ws)
  case 0 then show ?case by (simp add: walked_def)
next
  case (Suc hops)
  show ?case
  proof (cases "ws_frontier ws = []")
    case True
    have none: "\<not> hops_away g rq s (k + i) v" for i v
    proof (induction i arbitrary: v)
      case 0
      have "fst ` set (ws_frontier ws) = {v. hops_away g rq s k v}" using Suc.prems by (simp add: walked_def)
      with True show ?case by auto
    next
      case (Suc i) then show ?case by (simp add: hops_away_Suc)
    qed
    have "(\<exists>j \<le> k + Suc hops. hops_away g rq s j v) \<longleftrightarrow> (\<exists>j \<le> k. hops_away g rq s j v)" for v
      using none by (metis le_add1 le_trans nat_le_linear le_Suc_ex)
    with Suc.prems True show ?thesis by (simp add: walk_levels_step walked_def del: walk_levels.simps(2))
  next
    case False
    from Suc.IH[OF walked_next[OF assms(1) Suc.prems]] False show ?thesis
      by (simp add: walk_levels_step del: walk_levels.simps(2))
  qed
qed

text \<open>
  Claim C22: a walk without a budget finds exactly the neighbourhood. On every graph the mutations can
  make, it lists a node at depth \<open>d\<close> exactly if the start is a node and the other is reached from it
  in \<open>d\<close> hops over edges and nodes the request allows and in no fewer, for \<open>d\<close> from one to the
  depth asked for, at most ten; each such node is listed once and never the start; and the path
  listed with it is such a way, from the start to the node, of \<open>d\<close> hops.
\<close>

theorem walk_finds_neighbourhood:
  "(let g = fold apply_op ops empty_graph; found = graph_neighbors g s (rq\<lparr>wk_max_nodes := None\<rparr>)
    in (list_ex (\<lambda>nb. nb_node_id nb = v \<and> nb_depth nb = d) found \<longleftrightarrow>
          has_node g s \<and> 1 \<le> d \<and> d \<le> max_hops rq \<and> hops_away g rq s d v)
     \<and> distinct (s # map nb_node_id found)
     \<and> list_all (\<lambda>nb. way g rq s (nb_path nb) \<and> last (nb_path nb) = nb_node_id nb
         \<and> length (nb_path nb) = Suc (nb_depth nb)) found)"
proof -
  let ?g = "fold apply_op ops empty_graph"
  have u: "rq\<lparr>wk_max_nodes := None\<rparr> = unbounded rq" by (simp add: unbounded_def)
  have ok: "graph_ok ?g" by (rule apply_ops_ok[OF graph_ok_empty])
  let ?fin = "walk_levels ?g (unbounded rq) (max_hops rq) (walk_start s)"
  have fin: "tidy s ?fin" "set (ws_visited ?fin) = {v. \<exists>j \<le> max_hops rq. hops_away ?g rq s j v}"
    "\<forall>nb \<in> set (ws_found ?fin). found_right ?g rq s nb"
    using walked_end[OF ok walked_start, where hops = "max_hops rq" and s = s] by auto
  have vis: "set (ws_visited ?fin) = insert s (nb_node_id ` set (ws_found ?fin))" "distinct (s # map nb_node_id (ws_found ?fin))"
    using fin(1) unfolding tidy_def by (metis list.simps(15) list.set_map)+
  have "(\<exists>nb \<in> set (ws_found ?fin). nb_node_id nb = v \<and> nb_depth nb = d) \<longleftrightarrow>
      1 \<le> d \<and> d \<le> max_hops rq \<and> hops_away ?g rq s d v"
  proof
    assume "\<exists>nb \<in> set (ws_found ?fin). nb_node_id nb = v \<and> nb_depth nb = d"
    then obtain nb where nb: "nb \<in> set (ws_found ?fin)" "nb_node_id nb = v" "nb_depth nb = d" by blast
    then have r: "1 \<le> d" "hops_away ?g rq s d v" using fin(3) by (auto simp: found_right_def)
    have "v \<in> set (ws_visited ?fin)" using nb vis(1) by auto
    then obtain j where "j \<le> max_hops rq" "hops_away ?g rq s j v" using fin(2) by auto
    with r show "1 \<le> d \<and> d \<le> max_hops rq \<and> hops_away ?g rq s d v" using hops_away_unique by metis
  next
    assume a: "1 \<le> d \<and> d \<le> max_hops rq \<and> hops_away ?g rq s d v"
    then have "v \<in> set (ws_visited ?fin)" using fin(2) by auto
    moreover have "v \<noteq> s"
    proof
      assume "v = s"
      then have "d = 0" using a hops_away_unique hops_away_0 by metis
      with a show False by simp
    qed
    ultimately obtain nb where nb: "nb \<in> set (ws_found ?fin)" "nb_node_id nb = v" using vis(1) by auto
    then have "nb_depth nb = d" using fin(3) a hops_away_unique unfolding found_right_def by metis
    with nb show "\<exists>nb \<in> set (ws_found ?fin). nb_node_id nb = v \<and> nb_depth nb = d" by blast
  qed
  moreover have "graph_neighbors ?g s (unbounded rq) = (if has_node ?g s then ws_found ?fin else [])"
    by (simp add: graph_neighbors_def)
  ultimately show ?thesis
    using vis(2) fin(3) unfolding u Let_def by (auto simp: list_ex_iff list_all_iff found_right_def)
qed

end
