(* ===== verification/TuningStages.thy ===== *)
theory TuningStages
  imports RankFusion
begin

text \<open>
  Which step of retrieval lost a document: \<open>src/pheasant/tuning/stages.py\<close>, attributing a miss to
  the first stage that lost it and counting the stages.

  The \<open>stages\<close> block of an explained query has the keys the merge writes (the record \<open>stages\<close> of
  the theory \<open>RankFusion\<close>) and those the arms and the filters write. A reason is a value rather than
  its sentence.
\<close>

section \<open>The stages\<close>

definition STAGES :: "string list" where
  "STAGES = [''absent_from_corpus'', ''candidates_missing'', ''lexical_candidates'',
     ''vector_candidates'', ''graph_candidates'', ''filters'', ''fusion'', ''truncation'', ''served'']"

definition ACTIONABLE_STAGES :: "string list" where
  "ACTIONABLE_STAGES =
     [''lexical_candidates'', ''vector_candidates'', ''filters'', ''fusion'', ''truncation'']"

definition ARM_STAGES :: "(string \<times> string) list" where
  "ARM_STAGES = [(''text'', ''lexical_candidates''), (''vector'', ''vector_candidates''),
     (''graph'', ''graph_candidates'')]"

record query_stages =
  qs_merge :: stages
  qs_candidates :: "(string \<times> string list) list"
  qs_surviving :: "(string \<times> string list) list"
  qs_filters :: "(string \<times> (string \<times> string list) list) list"
  qs_arms_run :: "string list option"
  qs_arms_failed :: "string list option"
  qs_paths :: "(string \<times> string) list"

datatype reason =
    Returned nat
  | NotIndexed
  | NotChecked
  | IndexedUnfound string
  | NoArmRan
  | RemovedBy "string list"
  | NotReported
  | FusedBelow nat
  | Deduplicated nat

record attribution =
  at_query :: string
  at_target :: string
  at_stage :: string
  at_reason :: reason
  actionable :: bool
  at_arms_run :: "string list"
  at_with :: "string list"
  at_missing :: "string list"
  at_failed :: "string list"
  at_path :: string

text \<open>\<open>_position\<close>: the rank, from one, of the first occurrence.\<close>

fun position_from :: "nat \<Rightarrow> string list \<Rightarrow> string \<Rightarrow> nat option" where
  "position_from i [] target = None"
| "position_from i (x # xs) target = (if x = target then Some i else position_from (i + 1) xs target)"

definition position :: "string list \<Rightarrow> string \<Rightarrow> nat option" where
  "position ids target = position_from 1 ids target"

text \<open>\<open>a or b\<close> of two lists, the first of which may be missing or empty\<close>

definition arms_that_ran :: "query_stages \<Rightarrow> string list" where
  "arms_that_ran st = (case qs_arms_run st of
       None \<Rightarrow> sort (map fst (qs_candidates st))
     | Some [] \<Rightarrow> sort (map fst (qs_candidates st))
     | Some arms \<Rightarrow> sort arms)"

definition arms_with_target :: "query_stages \<Rightarrow> string \<Rightarrow> string list" where
  "arms_with_target st target =
     sort (map fst (filter (\<lambda>(arm, ids). target \<in> set ids) (qs_candidates st)))"

definition still_present :: "query_stages \<Rightarrow> string \<Rightarrow> bool" where
  "still_present st target \<longleftrightarrow> list_ex (\<lambda>(arm, ids). target \<in> set ids) (qs_surviving st)"

definition removed_by :: "query_stages \<Rightarrow> string \<Rightarrow> string list" where
  "removed_by st target =
     sort (map fst (filter (\<lambda>(name, per_arm). list_ex (\<lambda>(arm, dropped). target \<in> set dropped) per_arm)
       (qs_filters st)))"

definition fused_order :: "query_stages \<Rightarrow> string list" where
  "fused_order st = (case st_fusion (qs_merge st) of None \<Rightarrow> [] | Some fb \<Rightarrow> fb_ranked fb)"

text \<open>\<open>for arm in ("text", "vector", "graph")\<close>, up to the first that ran\<close>

definition first_arm_run :: "string list \<Rightarrow> string option" where
  "first_arm_run arms_run = find (\<lambda>arm. arm \<in> set arms_run) [''text'', ''vector'', ''graph'']"

definition blamed :: "query_stages \<Rightarrow> string \<Rightarrow> int \<Rightarrow> (string \<Rightarrow> bool) option \<Rightarrow> string \<times> reason" where
  "blamed st target max_results indexed =
     (case position (list_or (returned (qs_merge st))) target of
        Some rank \<Rightarrow> (''served'', Returned rank)
      | None \<Rightarrow>
        if arms_with_target st target = [] then
          (case indexed of
             None \<Rightarrow> (''candidates_missing'', NotChecked)
           | Some known \<Rightarrow>
               if \<not> known target then (''absent_from_corpus'', NotIndexed)
               else (case first_arm_run (arms_that_ran st) of
                       Some arm \<Rightarrow> (the (map_of ARM_STAGES arm), IndexedUnfound arm)
                     | None \<Rightarrow> (''candidates_missing'', NoArmRan)))
        else if \<not> still_present st target then (''filters'', RemovedBy (removed_by st target))
        else (case position (fused_order st) target of
                None \<Rightarrow> (''fusion'', NotReported)
              | Some rank \<Rightarrow>
                  if max_results < int rank then (''fusion'', FusedBelow rank)
                  else (''truncation'', Deduplicated rank)))"

definition attribute ::
  "query_stages \<Rightarrow> string \<Rightarrow> int \<Rightarrow> string \<Rightarrow> (string \<Rightarrow> bool) option \<Rightarrow> attribution" where
  "attribute st target max_results query_id indexed =
     (let (stage, why) = blamed st target max_results indexed;
          with_target = arms_with_target st target;
          run = arms_that_ran st
      in \<lparr>at_query = query_id, at_target = target, at_stage = stage, at_reason = why,
          actionable = (stage \<in> set ACTIONABLE_STAGES), at_arms_run = run, at_with = with_target,
          at_missing = sort (filter (\<lambda>arm. arm \<notin> set with_target) (remdups run)),
          at_failed = sort (list_or (qs_arms_failed st)),
          at_path = (case map_of (qs_paths st) target of None \<Rightarrow> [] | Some p \<Rightarrow> p)\<rparr>)"

section \<open>The diagnosis\<close>

record histogram =
  hg_counts :: "(string \<times> nat) list"
  hg_evaluated :: nat
  hg_served :: nat
  hg_misses :: nat
  actionable_misses :: nat
  actionable_share :: "rat option"
  dominant_stage :: "string option"
  hg_ranked :: "(string \<times> nat) list"

definition count_of :: "(string \<times> nat) list \<Rightarrow> string \<Rightarrow> nat" where
  "count_of counts stage = (case map_of counts stage of None \<Rightarrow> 0 | Some n \<Rightarrow> n)"

fun tally_stages :: "attribution list \<Rightarrow> (string \<times> nat) list \<Rightarrow> (string \<times> nat) list" where
  "tally_stages [] counts = counts"
| "tally_stages (a # rest) counts =
     tally_stages rest (AList.update (at_stage a) (count_of counts (at_stage a) + 1) counts)"

text \<open>\<open>STAGES.index(s) if s in STAGES else 99\<close>\<close>

definition stage_index :: "string \<Rightarrow> nat" where
  "stage_index stage = (case position STAGES stage of None \<Rightarrow> 99 | Some i \<Rightarrow> i - 1)"

definition ranked_stages :: "(string \<times> nat) list \<Rightarrow> (string \<times> nat) list" where
  "ranked_stages counts =
     sort_key (\<lambda>(stage, n). (- int n, stage_index stage))
       (filter (\<lambda>(stage, n). n \<noteq> 0 \<and> stage \<noteq> ''served'') counts)"

definition stage_histogram :: "(rat \<Rightarrow> rat) \<Rightarrow> attribution list \<Rightarrow> histogram" where
  "stage_histogram rnd attributions =
     (let counts = tally_stages attributions (map (\<lambda>s. (s, 0)) STAGES);
          misses = length attributions - count_of counts ''served'';
          act = sum_list (map (count_of counts) ACTIONABLE_STAGES);
          ranked = ranked_stages counts
      in \<lparr>hg_counts = filter (\<lambda>(s, n). n \<noteq> 0) counts, hg_evaluated = length attributions,
          hg_served = count_of counts ''served'', hg_misses = misses, actionable_misses = act,
          actionable_share =
            (if misses = 0 then None else Some (rnd (of_nat act / of_nat misses))),
          dominant_stage = (case ranked of [] \<Rightarrow> None | (s, _) # _ \<Rightarrow> Some s),
          hg_ranked = ranked\<rparr>)"

section \<open>The counts partition the attributions\<close>

lemma map_of_update: "map_of (AList.update k v xs) k' = (if k' = k then Some v else map_of xs k')"
  by (simp add: update_conv')

lemma count_of_update: "count_of (AList.update s n counts) s' = (if s' = s then n else count_of counts s')"
  by (simp add: count_of_def map_of_update)

lemma tally_count:
  "count_of (tally_stages attributions counts) s =
     count_of counts s + length (filter (\<lambda>a. at_stage a = s) attributions)"
  by (induction attributions counts rule: tally_stages.induct) (auto simp: count_of_update)

lemma tally_keys:
  "distinct (map fst counts) \<Longrightarrow> distinct (map fst (tally_stages attributions counts))"
  by (induction attributions counts rule: tally_stages.induct) (simp_all add: distinct_update)

lemma count_of_absent: "s \<notin> fst ` set counts \<Longrightarrow> count_of counts s = 0"
  by (simp add: count_of_def map_of_eq_None_iff[THEN iffD2])

lemma count_of_nonzero:
  "distinct (map fst counts) \<Longrightarrow> count_of (filter (\<lambda>(s, n). n \<noteq> 0) counts) s = count_of counts s"
proof (induction counts)
  case (Cons c counts)
  show ?case
  proof (cases "fst c = s \<and> snd c = 0")
    case True
    then have "s \<notin> fst ` set (filter (\<lambda>(s, n). n \<noteq> 0) counts)" using Cons.prems by auto
    then show ?thesis using True by (cases c) (simp add: count_of_absent, simp add: count_of_def)
  next
    case False
    then show ?thesis using Cons by (cases c) (auto simp: count_of_def)
  qed
qed simp

definition start_counts :: "(string \<times> nat) list" where
  "start_counts = map (\<lambda>s. (s, 0)) STAGES"

lemma start_counts_simps:
  "map fst start_counts = STAGES" "distinct STAGES" "count_of start_counts s = 0"
  by (simp_all add: start_counts_def STAGES_def count_of_def)

lemma tally_from_start:
  "count_of (tally_stages attributions start_counts) s = length (filter (\<lambda>a. at_stage a = s) attributions)"
  by (simp add: tally_count start_counts_simps)

lemma tally_total:
  assumes "distinct (map fst counts)"
  shows "sum_list (map snd (tally_stages attributions counts)) = sum_list (map snd counts) + length attributions"
  using assms
proof (induction attributions counts rule: tally_stages.induct)
  case (2 a rest counts)
  have "sum_list (map snd (AList.update s (count_of counts s + 1) counts)) = sum_list (map snd counts) + 1"
    for s using "2.prems"
  proof (induction counts)
    case (Cons c counts)
    show ?case
    proof (cases "fst c = s")
      case True
      then show ?thesis by (cases c) (simp add: count_of_def)
    next
      case False
      then have "count_of (c # counts) s = count_of counts s" by (cases c) (simp add: count_of_def)
      then show ?thesis using Cons False by (cases c) simp
    qed
  qed (simp add: count_of_def)
  with 2 show ?case by (simp add: distinct_update)
qed simp

lemma sum_nonzero: "sum_list (map snd (filter (\<lambda>(s, n). n \<noteq> (0::nat) \<and> P s) xs)) =
    sum_list (map snd (filter (\<lambda>(s, n). P s) xs))"
  by (induction xs) auto

lemma sum_without_key:
  assumes "distinct (map fst counts)"
  shows "sum_list (map snd (filter (\<lambda>(s, n). s \<noteq> k) counts)) + count_of counts k = sum_list (map snd counts)"
  using assms
proof (induction counts)
  case (Cons c counts)
  obtain s n where c: "c = (s, n)" by force
  show ?case
  proof (cases "s = k")
    case True
    then have "filter (\<lambda>(s, n). s \<noteq> k) counts = counts" using Cons.prems c
      by (auto simp: filter_id_conv rev_image_eqI)
    then show ?thesis using True c by (simp add: count_of_def)
  next
    case False
    then have "count_of (c # counts) k = count_of counts k" by (simp add: c count_of_def)
    then show ?thesis using False Cons c by simp
  qed
qed (simp add: count_of_def)

lemma sum_list_sort_key: "sum_list (map snd (sort_key f xs)) = (sum_list (map snd xs) :: nat)"
  by (metis mset_map mset_sort sum_mset_sum_list)

text \<open>
  The diagnosis accounts for every attribution: the served ones and the misses make up the
  evaluated ones, the ranked stages count every miss once, and each count is the number of
  attributions to that stage.
\<close>

lemma histogram_accounts:
  fixes rnd attributions
  defines "h \<equiv> stage_histogram rnd attributions"
  shows "hg_served h + hg_misses h = length attributions \<and> hg_evaluated h = length attributions
    \<and> sum_list (map snd (hg_ranked h)) = hg_misses h
    \<and> (\<forall>s. count_of (hg_counts h) s = length (filter (\<lambda>a. at_stage a = s) attributions))"
proof -
  let ?c = "tally_stages attributions start_counts"
  have d: "distinct (map fst ?c)" using tally_keys[of start_counts attributions]
    by (simp add: start_counts_simps)
  have t: "sum_list (map snd ?c) = length attributions"
    using tally_total[of start_counts attributions] by (simp add: start_counts_simps start_counts_def comp_def)
  have served: "count_of ?c ''served'' \<le> length attributions" by (simp add: tally_from_start)
  have ranked: "sum_list (map snd (ranked_stages ?c)) + count_of ?c ''served'' = length attributions"
    unfolding ranked_stages_def sum_list_sort_key
    using sum_nonzero[of "\<lambda>s. s \<noteq> ''served''" ?c] sum_without_key[OF d, of "''served''"] t by simp
  have nonzero: "count_of (filter (\<lambda>(s, n). n \<noteq> 0) ?c) s = count_of ?c s" for s
    using d by (rule count_of_nonzero)
  show ?thesis using served ranked nonzero
    by (simp add: h_def stage_histogram_def Let_def tally_from_start flip: start_counts_def)
qed

section \<open>What a re-fusion cannot move\<close>

lemma position_from_None: "position_from i xs x = None \<longleftrightarrow> x \<notin> set xs"
  by (induction xs arbitrary: i) auto

lemma position_None: "position xs x = None \<longleftrightarrow> x \<notin> set xs"
  by (simp add: position_def position_from_None)

text \<open>The ids a capture's rows carry, which are all a re-fusion can return.\<close>

definition input_ids :: "stages \<Rightarrow> string set" where
  "input_ids st =
     {c_node_id (candidate_of_entry e) |arm entries e. (arm, entries) \<in> set (list_or (fusion_input st)) \<and> e \<in> set entries}"

lemma refuse_ids:
  assumes "x \<in> set (refuse rnd (list_or (fusion_input st)) n r arms)"
  shows "x \<in> input_ids st"
proof -
  let ?cs = "\<lambda>arm. if arm \<in> set arms
      then filter (\<lambda>c. c_key c \<noteq> []) (map candidate_of_entry (list_or (map_of (list_or (fusion_input st)) arm)))
      else []"
  obtain item where item: "item \<in> set (selected (fuse rnd ?cs n r arms))" and x: "x = f_node_id item"
    using assms by (auto simp: refuse_def)
  have "f_position item < length (?cs (f_arm item)) \<and>
      f_node_id item = c_node_id (?cs (f_arm item) ! f_position item)"
    using item by (elim selected_memD) blast
  then obtain c where "c \<in> set (?cs (f_arm item))" and c: "x = c_node_id c"
    using x nth_mem by blast
  then obtain e where e: "e \<in> set (list_or (map_of (list_or (fusion_input st)) (f_arm item)))"
    and "c = candidate_of_entry e"
    by (auto split: if_splits)
  moreover obtain entries where "map_of (list_or (fusion_input st)) (f_arm item) = Some entries"
    using e by (cases "map_of (list_or (fusion_input st)) (f_arm item)") auto
  ultimately show ?thesis using c unfolding input_ids_def by (auto dest: map_of_SomeD)
qed

text \<open>A trial of the cheap class: the capture re-fused under a point.\<close>

definition restaged ::
  "(rat \<Rightarrow> rat) \<Rightarrow> query_stages \<Rightarrow> string list \<Rightarrow> ranking_parameters \<Rightarrow> query_stages" where
  "restaged rnd st fused_ids r = st\<lparr>qs_merge := restage rnd (qs_merge st) fused_ids r\<rparr>"

lemma merge_only:
  "arms_with_target (st\<lparr>qs_merge := m\<rparr>) = arms_with_target st"
  "still_present (st\<lparr>qs_merge := m\<rparr>) = still_present st"
  "removed_by (st\<lparr>qs_merge := m\<rparr>) = removed_by st"
  "arms_that_ran (st\<lparr>qs_merge := m\<rparr>) = arms_that_ran st"
  by (simp_all add: arms_with_target_def still_present_def removed_by_def arms_that_ran_def fun_eq_iff
      split: option.split list.split)

lemma restaged_simps [simp]:
  "arms_with_target (restaged rnd st ids r) = arms_with_target st"
  "still_present (restaged rnd st ids r) = still_present st"
  "removed_by (restaged rnd st ids r) = removed_by st"
  "arms_that_ran (restaged rnd st ids r) = arms_that_ran st"
  "returned (qs_merge (restaged rnd st ids r)) = Some ids"
  by (simp_all add: restaged_def merge_only restage_def Let_def)

lemma first_arm_known: "first_arm_run arms = Some arm \<Longrightarrow>
    the (map_of ARM_STAGES arm) \<in> {''lexical_candidates'', ''vector_candidates'', ''graph_candidates''}"
  by (auto simp: first_arm_run_def ARM_STAGES_def split: if_splits)

lemma blamed_cases:
  "fst (blamed st target n indexed) \<notin> {''served'', ''fusion'', ''truncation''} \<longleftrightarrow>
     target \<notin> set (list_or (returned (qs_merge st))) \<and>
     (arms_with_target st target = [] \<or> \<not> still_present st target)"
proof (cases "position (list_or (returned (qs_merge st))) target")
  case None
  have "the (map_of ARM_STAGES arm) \<notin> {''served'', ''fusion'', ''truncation''}"
    if "first_arm_run (arms_that_ran st) = Some arm" for arm
    using first_arm_known[OF that] by auto
  moreover have "target \<notin> set (list_or (returned (qs_merge st)))" using None by (simp add: position_None)
  ultimately show ?thesis
    by (cases "arms_with_target st target = []"; cases "still_present st target")
      (auto simp: blamed_def None split: option.split)
next
  case (Some rank)
  then show ?thesis using position_None[of "list_or (returned (qs_merge st))" target]
    by (simp add: blamed_def)
qed

text \<open>
  What the cheap class cannot move: a miss that an arm or a filter caused stays where it was,
  for the same reason, whatever fusion parameters the captured query is re-fused under.
\<close>

theorem refusion_moves_only_fusion:
  assumes "fst (blamed st target max_results indexed) \<notin> {''served'', ''fusion'', ''truncation''}"
    and "target \<notin> input_ids (qs_merge st)"
  shows "blamed (restaged rnd st
      (refuse rnd (list_or (fusion_input (qs_merge st))) n r arms) r) target max_results indexed
    = blamed st target max_results indexed"
proof -
  let ?ids = "refuse rnd (list_or (fusion_input (qs_merge st))) n r arms"
  have "position ?ids target = None" using assms(2) refuse_ids by (metis position_None)
  moreover have "position (list_or (returned (qs_merge st))) target = None"
    and "arms_with_target st target = [] \<or> \<not> still_present st target"
    using assms(1) unfolding blamed_cases by (auto simp: position_None)
  ultimately show ?thesis unfolding blamed_def restaged_simps by (elim disjE) simp_all
qed

end
