(* ===== verification/TuningSpace.thy ===== *)
theory TuningSpace
  imports TuningStages
begin

text \<open>
  What a tuning batch may try: the parameters, their ladders and the space's own check
  (\<open>src/pheasant/tuning/space.py\<close>), points and proposals (\<open>src/pheasant/tuning/contracts.py\<close>), and
  which proposals one generation makes (\<open>src/pheasant/tuning/strategy.py\<close>).

  A parameter dict is an association list. The digest of a point's sorted items is the parameter
  \<open>dg\<close>. Rationales, which are sentences, are left out. The definitions are read for points without
  a NaN or an infinity; a decimal literal is its exact value.
\<close>

section \<open>The space\<close>

definition REFUSION :: string where "REFUSION = ''refusion''"
definition REQUERY :: string where "REQUERY = ''requery''"

record parameter =
  pa_name :: string
  pa_stage :: string
  pa_cost :: string
  pa_candidates :: "rat list"

definition neighbours :: "(rat \<Rightarrow> rat) \<Rightarrow> parameter \<Rightarrow> rat \<Rightarrow> rat list" where
  "neighbours rnd p cur =
     filter (\<lambda>v. v \<noteq> cur) (sort_key (\<lambda>v. (\<bar>rnd (v - cur)\<bar>, v)) (pa_candidates p))"

definition par :: "string \<Rightarrow> string \<Rightarrow> string \<Rightarrow> rat list \<Rightarrow> parameter" where
  "par name stage cost ladder =
     \<lparr>pa_name = name, pa_stage = stage, pa_cost = cost, pa_candidates = ladder\<rparr>"

definition DEFAULT_PARAMETERS :: "parameter list" where
  "DEFAULT_PARAMETERS =
     [par ''rrf_k'' ''fusion'' REFUSION [10, 20, 30, 60, 90, 120, 200],
      par ''text_arm_weight'' ''fusion'' REFUSION [1/2, 3/4, 1, 3/2, 2, 3],
      par ''vector_arm_weight'' ''fusion'' REFUSION [0, 1/4, 1/2, 3/4, 1, 3/2, 2],
      par ''graph_arm_weight'' ''fusion'' REFUSION [0, 1/4, 1/2, 3/4, 1, 3/2],
      par ''title_weight'' ''lexical_candidates'' REQUERY [2, 4, 6, 8, 12, 16, 24],
      par ''path_weight'' ''lexical_candidates'' REQUERY [1, 2, 3, 4, 6, 8],
      par ''heading_weight'' ''lexical_candidates'' REQUERY [0, 1, 2, 3, 4, 6],
      par ''text_weight'' ''lexical_candidates'' REQUERY [1/2, 1, 3/2, 2, 3],
      par ''depth_prior'' ''structural_prior'' REQUERY [0, 1/40, 1/20, 1/10, 3/20, 1/4],
      par ''test_prior'' ''structural_prior'' REQUERY [0, 3/10, 3/5, 1, 3/2, 2],
      par ''sample_prior'' ''structural_prior'' REQUERY [0, 3/20, 3/10, 3/5, 1],
      par ''filter_overfetch'' ''filters'' REQUERY [1, 2, 3, 4, 6]]"

record space =
  sp_parameters :: "parameter list"
  pinned :: "string list"

definition new_space :: "parameter list \<Rightarrow> string list \<Rightarrow> space" where
  "new_space parameters pins =
     \<lparr>sp_parameters = filter (\<lambda>p. pa_name p \<notin> set pins) parameters, pinned = pins\<rparr>"

definition by_name :: "space \<Rightarrow> string \<Rightarrow> parameter option" where
  "by_name sp name = find (\<lambda>p. pa_name p = name) (sp_parameters sp)"

definition wanted_stages :: "string \<Rightarrow> string list" where
  "wanted_stages stage = [stage]
     @ (if stage = ''truncation'' then [''fusion''] else [])
     @ (if stage = ''lexical_candidates'' then [''structural_prior''] else [])"

definition for_stage :: "space \<Rightarrow> string \<Rightarrow> parameter list" where
  "for_stage sp stage = filter (\<lambda>p. pa_stage p \<in> set (wanted_stages stage)) (sp_parameters sp)"

datatype problem =
    NotRanking string
  | StageDisagrees string
  | UnknownCost string
  | FusionNeedsQuery string
  | ChangesCandidates string
  | OutsideBounds string "rat list"
  | EmptyLadder string

definition outside_bounds :: "parameter \<Rightarrow> rat list" where
  "outside_bounds p = (case map_of BOUNDS (pa_name p) of
       None \<Rightarrow> []
     | Some (low, high) \<Rightarrow> filter (\<lambda>v. \<not> (low \<le> v \<and> v \<le> high)) (pa_candidates p))"

definition check_parameter :: "parameter \<Rightarrow> problem list" where
  "check_parameter p =
     (let name = pa_name p in
      case map_of PARAMETER_STAGES name of
        None \<Rightarrow> [NotRanking name]
      | Some declared \<Rightarrow>
          (if declared \<noteq> pa_stage p then [StageDisagrees name] else [])
          @ (if pa_cost p \<notin> {REFUSION, REQUERY} then [UnknownCost name] else [])
          @ (if pa_stage p = ''fusion'' \<and> pa_cost p \<noteq> REFUSION then [FusionNeedsQuery name] else [])
          @ (if pa_stage p \<noteq> ''fusion'' \<and> pa_cost p = REFUSION then [ChangesCandidates name] else [])
          @ (if outside_bounds p \<noteq> [] then [OutsideBounds name (outside_bounds p)] else [])
          @ (if pa_candidates p = [] then [EmptyLadder name] else []))"

definition validate_space :: "space \<Rightarrow> problem list" where
  "validate_space sp = concat (map check_parameter (sp_parameters sp))"

section \<open>Points and proposals\<close>

type_synonym pvalues = "(string \<times> rat) list"

definition baseline_values :: "ranking_parameters \<Rightarrow> space \<Rightarrow> pvalues" where
  "baseline_values r sp =
     fold (\<lambda>p. case numbers r (pa_name p) of
         None \<Rightarrow> id
       | Some x \<Rightarrow> AList.update (pa_name p) (num_of (clamp (pa_name p) x))) (sp_parameters sp) []"

text \<open>\<open>with_overlay\<close> takes the numbers of a point as they are.\<close>

definition apply_point :: "ranking_parameters \<Rightarrow> pvalues \<Rightarrow> ranking_parameters" where
  "apply_point r values =
     with_overlay (\<lambda>_. None) r (map (\<lambda>(name, v). (name, OFloat (Num v))) values) ''trial'' []"

record point =
  point_id :: string
  pvals :: pvalues
  parent_id :: string
  delta :: "(string \<times> rat \<times> rat) list"

definition point_of :: "(pvalues \<Rightarrow> string) \<Rightarrow> pvalues \<Rightarrow> point option \<Rightarrow> point" where
  "point_of dg values parent =
     (let items = sort_key fst values in
      \<lparr>point_id = ''pt-'' @ dg items, pvals = items,
       parent_id = (case parent of None \<Rightarrow> [] | Some p \<Rightarrow> point_id p),
       delta = (case parent of
           None \<Rightarrow> []
         | Some p \<Rightarrow> map (\<lambda>(name, v). (name, (case map_of (pvals p) name of None \<Rightarrow> v | Some w \<Rightarrow> w), v))
             (filter (\<lambda>(name, v). map_of (pvals p) name \<noteq> Some v) items))\<rparr>)"

record proposal =
  pr_point :: point
  motivating_stage :: string
  cost_class :: string
  generation :: nat

section \<open>One generation\<close>

record budget =
  refusion_trials :: int
  requery_trials :: int
  max_searches :: int

definition MIN_ACTIONABLE_SHARE :: rat where
  "MIN_ACTIONABLE_SHARE = 34 / 100"

definition stages_to_explore :: "histogram \<Rightarrow> string list" where
  "stages_to_explore h =
     take 3 (filter (\<lambda>s. s \<in> set ACTIONABLE_STAGES) (map fst (hg_ranked h)))"

record search =
  seen_ids :: "string list"
  spent :: "string \<Rightarrow> nat"
  made :: "proposal list"

definition candidate_point :: "(pvalues \<Rightarrow> string) \<Rightarrow> point \<Rightarrow> pvalues \<Rightarrow> string \<Rightarrow> rat \<Rightarrow> point" where
  "candidate_point dg base cur name v = point_of dg (AList.update name v cur) (Some base)"

fun try_values ::
  "(pvalues \<Rightarrow> string) \<Rightarrow> int \<Rightarrow> string \<Rightarrow> point \<Rightarrow> pvalues \<Rightarrow> nat \<Rightarrow> string \<Rightarrow> parameter \<Rightarrow>
     rat list \<Rightarrow> search \<Rightarrow> search" where
  "try_values dg limit stage base cur gen cost p [] st = st"
| "try_values dg limit stage base cur gen cost p (v # vs) st =
     (if limit \<le> int (spent st cost) then st
      else let pt = candidate_point dg base cur (pa_name p) v in
        if point_id pt \<in> set (seen_ids st)
        then try_values dg limit stage base cur gen cost p vs st
        else try_values dg limit stage base cur gen cost p vs
          (st\<lparr>seen_ids := point_id pt # seen_ids st,
              spent := (spent st)(cost := spent st cost + 1),
              made := made st @ [\<lparr>pr_point = pt, motivating_stage = stage, cost_class = cost,
                                  generation = gen\<rparr>]\<rparr>))"

definition try_parameter ::
  "(rat \<Rightarrow> rat) \<Rightarrow> (pvalues \<Rightarrow> string) \<Rightarrow> budget \<Rightarrow> point \<Rightarrow> pvalues \<Rightarrow> nat \<Rightarrow> string \<Rightarrow> string \<Rightarrow>
     parameter \<Rightarrow> search \<Rightarrow> search" where
  "try_parameter rnd dg b base cur gen cost stage p st =
     (if pa_cost p \<noteq> cost then st
      else try_values dg (if cost = REFUSION then refusion_trials b else requery_trials b) stage base
        cur gen cost p
        (neighbours rnd p (case map_of cur (pa_name p) of None \<Rightarrow> 0 | Some v \<Rightarrow> v)) st)"

text \<open>\<open>dict(current or baseline)\<close>\<close>

definition incumbent_values :: "pvalues \<Rightarrow> pvalues option \<Rightarrow> pvalues" where
  "incumbent_values baseline incumbent =
     (case incumbent of None \<Rightarrow> baseline | Some [] \<Rightarrow> baseline | Some c \<Rightarrow> c)"

definition propose ::
  "(rat \<Rightarrow> rat) \<Rightarrow> (pvalues \<Rightarrow> string) \<Rightarrow> space \<Rightarrow> pvalues \<Rightarrow> histogram \<Rightarrow> budget \<Rightarrow> nat \<Rightarrow>
     pvalues option \<Rightarrow> proposal list" where
  "propose rnd dg sp baseline h b gen incumbent =
     (let cur = incumbent_values baseline incumbent;
          base = point_of dg baseline None;
          stages = stages_to_explore h;
          start = \<lparr>seen_ids = [point_id (point_of dg cur None), point_id base],
                   spent = (\<lambda>_. 0), made = []\<rparr>
      in if (case actionable_share h of None \<Rightarrow> False | Some sh \<Rightarrow> sh < MIN_ACTIONABLE_SHARE)
           \<or> stages = [] then []
         else made (fold (\<lambda>cost. fold (\<lambda>stage. fold (try_parameter rnd dg b base cur gen cost stage)
             (for_stage sp stage)) stages) [REFUSION, REQUERY] start))"

text \<open>\<open>sorted(scored, key=lambda pair: (-pair[1], pair[0]))[:max(1, keep)]\<close>\<close>

definition select_survivors :: "(string \<times> rat) list \<Rightarrow> int \<Rightarrow> string list" where
  "select_survivors scored keep =
     map fst (take (nat (max 1 keep)) (sort_key (\<lambda>(id, v). (- v, id)) scored))"

text \<open>
  The schedule of successive halving: how many queries a round sees and how many points it gets.
  \<open>int(total * share)\<close> truncates.
\<close>

definition FIRST_ROUND_SHARE :: rat where
  "FIRST_ROUND_SHARE = 34 / 100"

fun halving_rounds :: "int \<Rightarrow> nat \<Rightarrow> int \<Rightarrow> int \<Rightarrow> (int \<times> int) list" where
  "halving_rounds everything 0 queries carried = []"
| "halving_rounds everything (Suc n) queries carried =
     (if n = 0 then everything else min everything queries, max 1 carried)
       # halving_rounds everything n (min everything (queries * 2)) (max 1 (carried div 2))"

definition halving_schedule :: "(rat \<Rightarrow> rat) \<Rightarrow> string list \<Rightarrow> int \<Rightarrow> int \<Rightarrow> rat \<Rightarrow> (int \<times> int) list" where
  "halving_schedule rnd query_ids trial_count rounds first_share =
     (let everything = int (length query_ids) in
      if trial_count \<le> 2 \<or> everything < 6 \<or> rounds \<le> 1 then [(everything, trial_count)]
      else halving_rounds everything (nat rounds)
        (max 1 (py_trunc (rnd (of_int everything * first_share)))) trial_count)"

section \<open>The shipped space\<close>

lemma validate_new_space:
  "validate_space (new_space ps []) = [] \<Longrightarrow> validate_space (new_space ps pins) = []"
  by (auto simp: validate_space_def new_space_def)

text \<open>The shipped space passes its own check, whatever an operator pins.\<close>

lemma shipped_space_valid: "validate_space (new_space DEFAULT_PARAMETERS pins) = []"
proof (rule validate_new_space)
  show "validate_space (new_space DEFAULT_PARAMETERS []) = []"
    by (simp add: validate_space_def new_space_def DEFAULT_PARAMETERS_def par_def check_parameter_def
        PARAMETER_STAGES_def outside_bounds_def BOUNDS_def REFUSION_def REQUERY_def)
qed

text \<open>
  No parameter of the shipped space acts on the vector arm's candidates, although a miss there
  counts as actionable: such misses lift the actionable share over its threshold and nothing is
  proposed.
\<close>

lemma vector_misses_have_no_parameter:
  "''vector_candidates'' \<in> set ACTIONABLE_STAGES
     \<and> for_stage (new_space DEFAULT_PARAMETERS []) ''vector_candidates'' = []"
  by code_simp

lemma valid_candidates:
  assumes "validate_space sp = []" and "p \<in> set (sp_parameters sp)" and "v \<in> set (pa_candidates p)"
  shows "pa_name p \<in> set parameter_names \<and> in_bounds (pa_name p) (Num v)"
proof -
  have none: "check_parameter p = []" using assms(1,2) by (simp add: validate_space_def)
  then obtain stage where stage: "map_of PARAMETER_STAGES (pa_name p) = Some stage"
    by (cases "map_of PARAMETER_STAGES (pa_name p)") (simp_all add: check_parameter_def)
  then have known: "pa_name p \<in> set parameter_names"
    unfolding parameter_names_def using map_of_SomeD[OF stage] by force
  then obtain l h where lh: "map_of BOUNDS (pa_name p) = Some (l, h)" using bounded_names by blast
  have "outside_bounds p = []"
  proof (rule ccontr)
    assume "outside_bounds p \<noteq> []"
    then show False using none stage by (simp add: check_parameter_def Let_def)
  qed
  then have "l \<le> v \<and> v \<le> h" using assms(3) lh by (auto simp: outside_bounds_def filter_empty_conv)
  with known lh show ?thesis by (simp add: in_bounds_def)
qed

section \<open>What a generation proposes\<close>

text \<open>One step away from the incumbent, along a parameter that acts on the stage it names.\<close>

definition one_step ::
  "(pvalues \<Rightarrow> string) \<Rightarrow> space \<Rightarrow> point \<Rightarrow> pvalues \<Rightarrow> histogram \<Rightarrow> proposal \<Rightarrow> bool" where
  "one_step dg sp base cur h pr \<longleftrightarrow>
     (motivating_stage pr \<in> set (stages_to_explore h) \<and>
      list_ex (\<lambda>p. cost_class pr = pa_cost p \<and>
         list_ex (\<lambda>v. map_of cur (pa_name p) \<noteq> Some v \<and>
           pr_point pr = candidate_point dg base cur (pa_name p) v) (pa_candidates p))
        (for_stage sp (motivating_stage pr)))"

definition search_inv ::
  "(pvalues \<Rightarrow> string) \<Rightarrow> space \<Rightarrow> budget \<Rightarrow> point \<Rightarrow> pvalues \<Rightarrow> histogram \<Rightarrow> string list \<Rightarrow> search \<Rightarrow> bool" where
  "search_inv dg sp b base cur h start st \<longleftrightarrow>
     (\<forall>pr \<in> set (made st). one_step dg sp base cur h pr \<and> cost_class pr \<in> {REFUSION, REQUERY}) \<and>
     distinct (map (\<lambda>pr. point_id (pr_point pr)) (made st)) \<and>
     set (seen_ids st) = set start \<union> (\<lambda>pr. point_id (pr_point pr)) ` set (made st) \<and>
     set start \<inter> (\<lambda>pr. point_id (pr_point pr)) ` set (made st) = {} \<and>
     (\<forall>cost. spent st cost = length (filter (\<lambda>pr. cost_class pr = cost) (made st))) \<and>
     int (spent st REFUSION) \<le> max 0 (refusion_trials b) \<and>
     int (spent st REQUERY) \<le> max 0 (requery_trials b)"

lemma try_values_inv:
  assumes "search_inv dg sp b base cur h start st" and "cost \<in> {REFUSION, REQUERY}"
    and "limit = (if cost = REFUSION then refusion_trials b else requery_trials b)"
    and "stage \<in> set (stages_to_explore h)" and "p \<in> set (for_stage sp stage)" and "pa_cost p = cost"
    and "\<forall>v \<in> set vs. v \<in> set (pa_candidates p) \<and> map_of cur (pa_name p) \<noteq> Some v"
  shows "search_inv dg sp b base cur h start (try_values dg limit stage base cur gen cost p vs st)"
  using assms(1,7)
proof (induction vs arbitrary: st)
  case (Cons v vs)
  let ?pt = "candidate_point dg base cur (pa_name p) v"
  let ?pr = "\<lparr>pr_point = ?pt, motivating_stage = stage, cost_class = cost, generation = gen\<rparr>"
  let ?st = "st\<lparr>seen_ids := point_id ?pt # seen_ids st, spent := (spent st)(cost := spent st cost + 1),
      made := made st @ [?pr]\<rparr>"
  show ?case
  proof (cases "limit \<le> int (spent st cost) \<or> point_id ?pt \<in> set (seen_ids st)")
    case True
    then show ?thesis using Cons by (auto simp: Let_def)
  next
    case False
    have "REFUSION \<noteq> REQUERY" by (simp add: REFUSION_def REQUERY_def)
    moreover have "one_step dg sp base cur h ?pr"
      using assms(4,5,6) Cons.prems(2) by (force simp: one_step_def list_ex_iff)
    ultimately have "search_inv dg sp b base cur h start ?st"
      using Cons.prems(1) False assms(2,3) by (auto simp: search_inv_def)
    then show ?thesis using Cons False by (simp add: Let_def)
  qed
qed simp

lemma try_parameter_inv:
  assumes "search_inv dg sp b base cur h start st" and "cost \<in> {REFUSION, REQUERY}"
    and "stage \<in> set (stages_to_explore h)" and "p \<in> set (for_stage sp stage)"
  shows "search_inv dg sp b base cur h start (try_parameter rnd dg b base cur gen cost stage p st)"
proof (cases "pa_cost p = cost")
  case True
  let ?c = "case map_of cur (pa_name p) of None \<Rightarrow> 0 | Some v \<Rightarrow> v"
  have "\<forall>v \<in> set (neighbours rnd p ?c). v \<in> set (pa_candidates p) \<and> map_of cur (pa_name p) \<noteq> Some v"
    by (auto simp: neighbours_def split: option.splits)
  then show ?thesis using True assms by (simp add: try_parameter_def try_values_inv)
qed (simp add: try_parameter_def assms(1))

lemma fold_keeps: "I s \<Longrightarrow> (\<And>x s. x \<in> set xs \<Longrightarrow> I s \<Longrightarrow> I (f x s)) \<Longrightarrow> I (fold f xs s)"
  by (induction xs arbitrary: s) auto

definition generation_end ::
  "(rat \<Rightarrow> rat) \<Rightarrow> (pvalues \<Rightarrow> string) \<Rightarrow> space \<Rightarrow> budget \<Rightarrow> point \<Rightarrow> pvalues \<Rightarrow> histogram \<Rightarrow> nat \<Rightarrow> search \<Rightarrow> search" where
  "generation_end rnd dg sp b base cur h gen start =
     fold (\<lambda>cost. fold (\<lambda>stage. fold (try_parameter rnd dg b base cur gen cost stage)
       (for_stage sp stage)) (stages_to_explore h)) [REFUSION, REQUERY] start"

lemma generation_end_inv:
  assumes "search_inv dg sp b base cur h start st"
  shows "search_inv dg sp b base cur h start (generation_end rnd dg sp b base cur h gen st)"
  unfolding generation_end_def
  by (intro fold_keeps[where I = "search_inv dg sp b base cur h start"] assms)
    (auto intro: try_parameter_inv)

lemma start_inv:
  "search_inv dg sp b base cur h start \<lparr>seen_ids = start, spent = (\<lambda>_. 0), made = []\<rparr>"
  by (simp add: search_inv_def)

lemma in_updated: "e \<in> set (AList.update k v xs) \<Longrightarrow> e = (k, v) \<or> e \<in> set xs"
  by (induction xs) (auto split: if_splits)

lemma one_step_bounds:
  assumes "one_step dg sp base cur h pr" and "validate_space sp = []"
    and "\<forall>(name, v) \<in> set cur. name \<in> set parameter_names \<and> in_bounds name (Num v)"
  shows "\<forall>(name, v) \<in> set (pvals (pr_point pr)). name \<in> set parameter_names \<and> in_bounds name (Num v)"
proof -
  obtain p v where p: "p \<in> set (for_stage sp (motivating_stage pr))" and v: "v \<in> set (pa_candidates p)"
    and pt: "pr_point pr = candidate_point dg base cur (pa_name p) v"
    using assms(1) by (auto simp: one_step_def list_ex_iff)
  have "pa_name p \<in> set parameter_names \<and> in_bounds (pa_name p) (Num v)"
    using valid_candidates[OF assms(2) _ v] p by (auto simp: for_stage_def)
  then show ?thesis using assms(3)
    by (auto simp: pt candidate_point_def point_of_def Let_def dest!: in_updated)
qed

definition proposes_right ::
  "(pvalues \<Rightarrow> string) \<Rightarrow> space \<Rightarrow> pvalues \<Rightarrow> pvalues \<Rightarrow> histogram \<Rightarrow> budget \<Rightarrow> proposal list \<Rightarrow> bool" where
  "proposes_right dg sp baseline cur h b ps \<longleftrightarrow>
     list_all (\<lambda>pr. one_step dg sp (point_of dg baseline None) cur h pr \<and>
        list_all (\<lambda>(name, v). name \<in> set parameter_names \<and> in_bounds name (Num v)) (pvals (pr_point pr))) ps \<and>
     distinct (point_id (point_of dg baseline None) # map (\<lambda>pr. point_id (pr_point pr)) ps) \<and>
     point_id (point_of dg cur None) \<notin> set (map (\<lambda>pr. point_id (pr_point pr)) ps) \<and>
     list_all (\<lambda>pr. cost_class pr \<in> {REFUSION, REQUERY}) ps \<and>
     int (length (filter (\<lambda>pr. cost_class pr = REFUSION) ps)) \<le> max 0 (refusion_trials b) \<and>
     int (length (filter (\<lambda>pr. cost_class pr = REQUERY) ps)) \<le> max 0 (requery_trials b)"

lemma search_inv_right:
  assumes "search_inv dg sp b (point_of dg baseline None) cur h
      [point_id (point_of dg cur None), point_id (point_of dg baseline None)] st"
    and "validate_space sp = []"
    and "\<forall>(name, v) \<in> set cur. name \<in> set parameter_names \<and> in_bounds name (Num v)"
  shows "proposes_right dg sp baseline cur h b (made st)"
proof -
  have step: "\<forall>pr \<in> set (made st). one_step dg sp (point_of dg baseline None) cur h pr"
    using assms(1) by (simp add: search_inv_def)
  then have "\<forall>pr \<in> set (made st). list_all
      (\<lambda>(name, v). name \<in> set parameter_names \<and> in_bounds name (Num v)) (pvals (pr_point pr))"
    using one_step_bounds[OF _ assms(2,3)] unfolding list_all_iff by blast
  then show ?thesis using step assms(1) by (auto simp: search_inv_def proposes_right_def list_all_iff)
qed

lemma propose_unfold:
  "propose rnd dg sp baseline h b gen incumbent =
     (let cur = incumbent_values baseline incumbent; base = point_of dg baseline None in
      if (case actionable_share h of None \<Rightarrow> False | Some sh \<Rightarrow> sh < MIN_ACTIONABLE_SHARE)
         \<or> stages_to_explore h = [] then []
      else made (generation_end rnd dg sp b base cur h gen
        \<lparr>seen_ids = [point_id (point_of dg cur None), point_id base], spent = (\<lambda>_. 0), made = []\<rparr>))"
  by (simp add: propose_def generation_end_def Let_def)


definition demo_digest :: "pvalues \<Rightarrow> string" where
  "demo_digest values = map (\<lambda>(n, v). char_of (nat \<lfloor>v\<rfloor>)) values"

definition demo_diagnosis :: histogram where
  "demo_diagnosis = \<lparr>hg_counts = [(''fusion'', 2), (''filters'', 1)], hg_evaluated = 4, hg_served = 1,
     hg_misses = 3, actionable_misses = 3, actionable_share = Some 1,
     dominant_stage = Some ''fusion'', hg_ranked = [(''fusion'', 2), (''filters'', 1)]\<rparr>"

definition demo_space :: space where
  "demo_space = new_space [par ''rrf_k'' ''fusion'' REFUSION [30, 60, 90],
     par ''text_arm_weight'' ''fusion'' REFUSION [1, 2],
     par ''filter_overfetch'' ''filters'' REQUERY [1, 3, 6, 2]] [''text_arm_weight'']"

definition demo_baseline :: pvalues where
  "demo_baseline = [(''rrf_k'', 60), (''filter_overfetch'', 3)]"

definition demo_budget :: budget where
  "demo_budget = \<lparr>refusion_trials = 400, requery_trials = 2, max_searches = 5000\<rparr>"


end
