(* ===== verification/TuningScore.thy ===== *)
theory TuningScore
  imports TuningSpace
begin

text \<open>
  Scoring ranked lists against known positives (\<open>src/pheasant/tuning/scoring.py\<close>), and what
  "better" means (\<open>src/pheasant/tuning/objective.py\<close>).

  Every float operation is the exact rational result rounded by \<open>rnd\<close>. The interpreter's \<open>sum\<close> of
  floats, which compensates its roundings since Python 3.12, is the parameter \<open>fsum\<close>.
  A dict that is only read by its keys is an association list. Parsing the number in a metric's
  name is the parameter \<open>parse_int\<close>, \<open>None\<close> being its \<open>ValueError\<close>.
\<close>

section \<open>One query\<close>

definition K_VALUES :: "nat list" where
  "K_VALUES = [5, 10]"

record query_score =
  sc_query :: string
  reciprocal_rank :: rat
  first_rank :: "nat option"
  sc_recall :: "(nat \<times> rat) list"
  sc_positives :: nat
  sc_returned :: nat

fun first_wanted :: "nat \<Rightarrow> string list \<Rightarrow> string list \<Rightarrow> nat option" where
  "first_wanted i wanted [] = None"
| "first_wanted i wanted (x # xs) = (if x \<in> set wanted then Some i else first_wanted (i + 1) wanted xs)"

definition recall_at :: "(rat \<Rightarrow> rat) \<Rightarrow> string list \<Rightarrow> string list \<Rightarrow> nat \<Rightarrow> rat" where
  "recall_at rnd wanted ranked_ids k =
     rnd (of_nat (length (filter (\<lambda>x. x \<in> set (take k ranked_ids)) wanted)) / of_nat (length wanted))"

definition score_query :: "(rat \<Rightarrow> rat) \<Rightarrow> string list \<Rightarrow> string list \<Rightarrow> query_score option" where
  "score_query rnd ranked_ids positives =
     (let wanted = remdups positives; first = first_wanted 1 wanted ranked_ids in
      if wanted = [] then None
      else Some \<lparr>sc_query = [],
        reciprocal_rank = (case first of None \<Rightarrow> 0 | Some i \<Rightarrow> rnd (1 / of_nat i)), first_rank = first,
        sc_recall = map (\<lambda>k. (k, recall_at rnd wanted ranked_ids k)) K_VALUES,
        sc_positives = length wanted, sc_returned = length ranked_ids\<rparr>)"

section \<open>A cohort\<close>

record cohort_score =
  per_query :: "(string \<times> query_score) list"
  unevidenced :: nat
  cs_failed :: "(string \<times> string) list"

definition evaluated :: "cohort_score \<Rightarrow> nat" where
  "evaluated c = length (per_query c)"

fun score_rankings ::
  "(rat \<Rightarrow> rat) \<Rightarrow> (string \<times> string list) list \<Rightarrow> (string \<times> string list) list \<Rightarrow> cohort_score \<Rightarrow> cohort_score" where
  "score_rankings rnd evidence [] result = result"
| "score_rankings rnd evidence ((query, ranked_ids) # rest) result =
     score_rankings rnd evidence rest
       (if query \<in> fst ` set (cs_failed result) then result
        else (case score_query rnd ranked_ids (list_or (map_of evidence query)) of
                None \<Rightarrow> result\<lparr>unevidenced := unevidenced result + 1\<rparr>
              | Some s \<Rightarrow> result\<lparr>per_query :=
                  AList.update query (s\<lparr>sc_query := query\<rparr>) (per_query result)\<rparr>))"

definition score_cohort ::
  "(rat \<Rightarrow> rat) \<Rightarrow> (string \<times> string list) list \<Rightarrow> (string \<times> string list) list \<Rightarrow>
     (string \<times> string) list \<Rightarrow> cohort_score" where
  "score_cohort rnd rankings evidence failures =
     score_rankings rnd evidence rankings \<lparr>per_query = [], unevidenced = 0, cs_failed = failures\<rparr>"

text \<open>Adding up with \<open>+=\<close>\<close>

definition sum_floats :: "(rat \<Rightarrow> rat) \<Rightarrow> rat list \<Rightarrow> rat" where
  "sum_floats rnd xs = fold (\<lambda>x acc. rnd (acc + x)) xs 0"

definition recall_of :: "query_score \<Rightarrow> nat \<Rightarrow> rat" where
  "recall_of s k = (case map_of (sc_recall s) k of None \<Rightarrow> 0 | Some v \<Rightarrow> v)"

definition RECIPROCAL_RANK :: string where
  "RECIPROCAL_RANK = ''known_positive_reciprocal_rank''"

definition RECALL_AT :: string where
  "RECALL_AT = ''known_positive_recall_at_''"

definition HIT_RATE :: string where
  "HIT_RATE = ''known_positive_hit_rate''"

definition aggregate :: "(rat \<Rightarrow> rat) \<Rightarrow> (rat list \<Rightarrow> rat) \<Rightarrow> cohort_score \<Rightarrow> (string \<times> rat) list" where
  "aggregate rnd fsum c =
     (let scores = map snd (per_query c); n = of_nat (length scores) in
      if scores = [] then []
      else (RECIPROCAL_RANK, rnd (fsum (map reciprocal_rank scores) / n))
        # map (\<lambda>k. (RECALL_AT @ nat_text k, rnd (fsum (map (\<lambda>s. recall_of s k) scores) / n))) K_VALUES
        @ [(HIT_RATE, rnd (of_nat (length (filter (\<lambda>s. first_rank s \<noteq> None) scores)) / n))])"

section \<open>A paired comparison\<close>

record comparison =
  cm_metric :: string
  baseline_value :: rat
  treatment_value :: rat
  cm_delta :: rat
  paired_queries :: nat
  improved_queries :: nat
  regressed_queries :: nat
  unchanged_queries :: nat
  missing_from_treatment :: nat
  missing_from_baseline :: nat

text \<open>\<open>metric.rsplit("_", 1)[1]\<close> of a text that has an underscore\<close>

definition after_underscore :: "string \<Rightarrow> string" where
  "after_underscore s = rev (takeWhile (\<lambda>c. c \<noteq> CHR ''_'') (rev s))"

definition metric_value :: "(string \<Rightarrow> int option) \<Rightarrow> string \<Rightarrow> query_score \<Rightarrow> rat option" where
  "metric_value parse_int metric s =
     (if metric = RECIPROCAL_RANK then Some (reciprocal_rank s)
      else if take (length RECALL_AT) metric = RECALL_AT then
        (case parse_int (after_underscore metric) of
           None \<Rightarrow> None | Some k \<Rightarrow> Some (if k < 0 then 0 else recall_of s (nat k)))
      else if metric = HIT_RATE then Some (if first_rank s = None then 0 else 1)
      else Some 0)"

text \<open>The values of the paired queries, in the sorted order of their ids; a metric no number can be
  read from raises at the first pair.\<close>

fun paired_values ::
  "(string \<Rightarrow> int option) \<Rightarrow> string \<Rightarrow> cohort_score \<Rightarrow> cohort_score \<Rightarrow> string list \<Rightarrow> (rat \<times> rat) list option" where
  "paired_values parse_int metric before after [] = Some []"
| "paired_values parse_int metric before after (q # qs) =
     (case (Option.bind (map_of (per_query before) q) (metric_value parse_int metric),
            Option.bind (map_of (per_query after) q) (metric_value parse_int metric)) of
        (Some x, Some y) \<Rightarrow> map_option ((#) (x, y)) (paired_values parse_int metric before after qs)
      | _ \<Rightarrow> None)"

definition paired_ids :: "cohort_score \<Rightarrow> cohort_score \<Rightarrow> string list" where
  "paired_ids before after =
     sort (filter (\<lambda>q. q \<in> fst ` set (per_query after)) (remdups (map fst (per_query before))))"

definition unpaired :: "cohort_score \<Rightarrow> cohort_score \<Rightarrow> nat" where
  "unpaired before after =
     length (filter (\<lambda>q. q \<notin> fst ` set (per_query after)) (remdups (map fst (per_query before))))"

definition mean :: "(rat \<Rightarrow> rat) \<Rightarrow> rat list \<Rightarrow> rat" where
  "mean rnd xs = (if xs = [] then 0 else rnd (sum_floats rnd xs / of_nat (length xs)))"

definition compare_scores ::
  "(rat \<Rightarrow> rat) \<Rightarrow> (string \<Rightarrow> int option) \<Rightarrow> string \<Rightarrow> cohort_score \<Rightarrow> cohort_score \<Rightarrow> comparison option" where
  "compare_scores rnd parse_int metric before after =
     map_option (\<lambda>pairs.
         let x = mean rnd (map fst pairs); y = mean rnd (map snd pairs) in
         \<lparr>cm_metric = metric, baseline_value = x, treatment_value = y, cm_delta = rnd (y - x),
          paired_queries = length pairs,
          improved_queries = length (filter (\<lambda>(x, y). x < y) pairs),
          regressed_queries = length (filter (\<lambda>(x, y). y < x) pairs),
          unchanged_queries = length (filter (\<lambda>(x, y). x = y) pairs),
          missing_from_treatment = unpaired before after,
          missing_from_baseline = unpaired after before\<rparr>)
       (paired_values parse_int metric before after (paired_ids before after))"

section \<open>Objectives\<close>

record objective =
  objective_id :: string
  ob_weights :: "(string \<times> rat) list"
  higher_is_better :: bool

definition primary_metric :: "objective \<Rightarrow> string" where
  "primary_metric ob = (case ob_weights ob of [(metric, _)] \<Rightarrow> metric | _ \<Rightarrow> [])"

definition normalized :: "(rat \<Rightarrow> rat) \<Rightarrow> (rat list \<Rightarrow> rat) \<Rightarrow> objective \<Rightarrow> (string \<times> rat) list" where
  "normalized rnd fsum ob =
     (let s = fsum (map (\<lambda>(_, w). \<bar>w\<bar>) (ob_weights ob)); denom = (if s = 0 then 1 else s)
      in map (\<lambda>(metric, w). (metric, rnd (w / denom))) (ob_weights ob))"

fun weigh :: "(rat \<Rightarrow> rat) \<Rightarrow> (string \<times> rat) list \<Rightarrow> (string \<times> rat) list \<Rightarrow> rat \<Rightarrow> rat option" where
  "weigh rnd metrics [] acc = Some acc"
| "weigh rnd metrics ((metric, w) # rest) acc =
     (case map_of metrics metric of
        None \<Rightarrow> None
      | Some v \<Rightarrow> weigh rnd metrics rest (rnd (acc + rnd (w * v))))"

definition objective_score :: "(rat \<Rightarrow> rat) \<Rightarrow> (rat list \<Rightarrow> rat) \<Rightarrow> objective \<Rightarrow> (string \<times> rat) list \<Rightarrow> rat option" where
  "objective_score rnd fsum ob metrics = weigh rnd metrics (normalized rnd fsum ob) 0"

definition builtin :: "string \<Rightarrow> (string \<times> rat) list \<Rightarrow> objective" where
  "builtin name weights = \<lparr>objective_id = name, ob_weights = weights, higher_is_better = True\<rparr>"

definition BUILTIN :: "(string \<times> objective) list" where
  "BUILTIN = map (\<lambda>ob. (objective_id ob, ob))
     [builtin ''reciprocal_rank'' [(RECIPROCAL_RANK, 1)],
      builtin ''recall_at_5'' [(RECALL_AT @ ''5'', 1)],
      builtin ''recall_at_10'' [(RECALL_AT @ ''10'', 1)],
      builtin ''hit_rate'' [(HIT_RATE, 1)],
      builtin ''balanced'' [(RECIPROCAL_RANK, 1/2), (RECALL_AT @ ''10'', 1/2)]]"

record objective_settings =
  os_metric :: string
  os_weights :: "(string \<times> rat) list"
  os_higher :: bool

definition resolve_objective :: "objective_settings option \<Rightarrow> objective" where
  "resolve_objective settings =
     (let fallback = the (map_of BUILTIN ''reciprocal_rank'') in
      case settings of
        None \<Rightarrow> fallback
      | Some s \<Rightarrow>
          if os_weights s \<noteq> [] then
            \<lparr>objective_id = ''custom'', ob_weights = os_weights s, higher_is_better = os_higher s\<rparr>
          else (case map_of BUILTIN (if os_metric s = [] then ''reciprocal_rank'' else os_metric s) of
                  None \<Rightarrow> fallback | Some ob \<Rightarrow> ob))"

section \<open>What a comparison says\<close>

lemma length_paired_values:
  "paired_values parse_int metric before after qs = Some pairs \<Longrightarrow> length pairs = length qs"
  by (induction qs arbitrary: pairs) (auto split: option.splits)

lemma length_split:
  fixes pairs :: "(rat \<times> rat) list"
  shows "length (filter (\<lambda>(x, y). x < y) pairs) + length (filter (\<lambda>(x, y). y < x) pairs)
     + length (filter (\<lambda>(x, y). x = y) pairs) = length pairs"
  by (induction pairs) auto

lemma sum_floats_Cons_mono:
  assumes "rounding rnd" and "\<forall>(x, y) \<in> set pairs. x \<le> y" and "a \<le> b"
  shows "fold (\<lambda>x acc. rnd (acc + x)) (map fst pairs) a \<le> fold (\<lambda>x acc. rnd (acc + x)) (map snd pairs) b"
  using assms(2,3)
proof (induction pairs arbitrary: a b)
  case (Cons p pairs)
  then have "rnd (a + fst p) \<le> rnd (b + snd p)"
    using roundingD(1)[OF assms(1)] by (cases p) (simp add: add_mono)
  with Cons show ?case by simp
qed simp

lemma mean_mono:
  assumes "rounding rnd" and "\<forall>(x, y) \<in> set pairs. x \<le> y"
  shows "mean rnd (map fst pairs) \<le> mean rnd (map snd pairs)"
  using sum_floats_Cons_mono[OF assms, of 0 0] roundingD(1)[OF assms(1)]
  by (simp add: mean_def sum_floats_def divide_right_mono)

text \<open>
  A comparison that reports a gain has a query that gained, and its counts account for every
  paired query: the ones scored on both sides.
\<close>

lemma gain_has_a_gainer:
  assumes "rounding rnd" and "compare_scores rnd parse_int metric before after = Some c" and "0 < cm_delta c"
  shows "0 < improved_queries c"
proof (rule ccontr)
  assume "\<not> 0 < improved_queries c"
  obtain pairs where c: "cm_delta c = rnd (mean rnd (map snd pairs) - mean rnd (map fst pairs))"
      "improved_queries c = length (filter (\<lambda>(x, y). x < y) pairs)"
    using assms(2) by (auto simp: compare_scores_def Let_def)
  with \<open>\<not> 0 < improved_queries c\<close> have "\<forall>(y, x) \<in> set (map prod.swap pairs). y \<le> x"
    by (auto simp: filter_empty_conv)
  then have "mean rnd (map snd pairs) \<le> mean rnd (map fst pairs)"
    using mean_mono[OF assms(1), of "map prod.swap pairs"] by (simp add: comp_def)
  then have "rnd (mean rnd (map snd pairs) - mean rnd (map fst pairs)) \<le> 0"
    using roundingD[OF assms(1)] by (metis diff_le_0_iff_le)
  with c assms(3) show False by simp
qed

lemma comparison_accounts:
  assumes "compare_scores rnd parse_int metric before after = Some c"
  shows "paired_queries c = length (paired_ids before after)
    \<and> improved_queries c + regressed_queries c + unchanged_queries c = paired_queries c"
  using assms length_split by (auto simp: compare_scores_def Let_def dest: length_paired_values)

end
