(* ===== verification/TuningDecision.thy ===== *)
theory TuningDecision
  imports TuningScore
begin

text \<open>
  Whether a batch's best point may be promoted: the evidence a batch reads
  (\<open>src/pheasant/evaluation/runner.py\<close>, \<open>evaluation/proof.py\<close>, \<open>evaluation/store.py\<close>), the gates
  (\<open>src/pheasant/decision.py\<close>, \<open>src/pheasant/tuning/gates.py\<close>), and \<open>_decide\<close> with \<open>_replay_for\<close> of
  \<open>src/pheasant/tuning/runner.py\<close>.

  A search under a point is the parameter \<open>search\<close>: the ids it ranks for a query, or \<open>None\<close> when it
  failed. Of a gate the model has its id, its verdict and whether it blocks; a batch that raises is
  \<open>None\<close>. Checkpoints, which end a batch early, are in the theory \<open>TuningBatch\<close>.
\<close>

section \<open>Evidence\<close>

datatype polarity = Positive | Negative | Unknown

record proof_row =
  pf_id :: string
  pf_query :: string
  pf_target :: string
  pf_polarity :: polarity
  pf_weight :: rat
  pf_observed :: string

fun in_batches :: "nat \<Rightarrow> 'a list \<Rightarrow> 'a list list" where
  "in_batches n xs = (if xs = [] \<or> n = 0 then [] else take n xs # in_batches n (drop n xs))"

declare in_batches.simps [simp del]

definition load_proofs :: "proof_row list \<Rightarrow> string list \<Rightarrow> nat \<Rightarrow> proof_row list" where
  "load_proofs rows query_ids limit =
     concat (map (\<lambda>batch. take limit (sort_key (\<lambda>p. (pf_observed p, pf_id p))
         (filter (\<lambda>p. pf_query p \<in> set batch) rows))) (in_batches 400 query_ids))"

text \<open>\<open>collect_proof\<close> without a time cap, as a tuning batch calls it\<close>

definition collect_proof ::
  "proof_row list \<Rightarrow> proof_row list \<Rightarrow> proof_row list \<Rightarrow> string list \<Rightarrow> proof_row list" where
  "collect_proof rows derived admitted query_ids =
     (let recorded = load_proofs rows query_ids 100000;
          extra = filter (\<lambda>p. pf_query p \<in> set query_ids) (derived @ admitted)
      in recorded @ filter (\<lambda>p. pf_id p \<notin> pf_id ` set recorded) extra)"

record target_evidence =
  te_positive :: rat
  te_negative :: rat

text \<open>\<open>aggregate\<close>: the dict of a query's targets, by the query\<close>

definition weigh_proof ::
  "(rat \<Rightarrow> rat) \<Rightarrow> bool \<Rightarrow> proof_row \<Rightarrow> target_evidence \<Rightarrow> target_evidence" where
  "weigh_proof rnd unknown_is_negative p t =
     (let add = (\<lambda>x. round6 rnd (rnd (x + \<bar>pf_weight p\<bar>))) in
      case pf_polarity p of
        Positive \<Rightarrow> t\<lparr>te_positive := add (te_positive t)\<rparr>
      | Negative \<Rightarrow> t\<lparr>te_negative := add (te_negative t)\<rparr>
      | Unknown \<Rightarrow> if unknown_is_negative then t\<lparr>te_negative := add (te_negative t)\<rparr> else t)"

type_synonym evidence = "(string \<times> (string \<times> target_evidence) list) list"

fun aggregate_proof :: "(rat \<Rightarrow> rat) \<Rightarrow> bool \<Rightarrow> proof_row list \<Rightarrow> evidence \<Rightarrow> evidence" where
  "aggregate_proof rnd unknown_is_negative [] out = out"
| "aggregate_proof rnd unknown_is_negative (p # ps) out =
     (let targets = list_or (map_of out (pf_query p));
          t = (case map_of targets (pf_target p) of
                 None \<Rightarrow> \<lparr>te_positive = 0, te_negative = 0\<rparr> | Some t \<Rightarrow> t)
      in aggregate_proof rnd unknown_is_negative ps
           (AList.update (pf_query p)
             (AList.update (pf_target p) (weigh_proof rnd unknown_is_negative p t) targets) out))"

definition positives_of :: "(rat \<Rightarrow> rat) \<Rightarrow> rat \<Rightarrow> (string \<times> target_evidence) list \<Rightarrow> string list" where
  "positives_of rnd least targets =
     sort (map fst (filter (\<lambda>(_, t). least \<le> round6 rnd (rnd (te_positive t - te_negative t))) targets))"

text \<open>What a batch scores by: the known positives of the queries it collected proof for.\<close>

definition batch_positives ::
  "(rat \<Rightarrow> rat) \<Rightarrow> bool \<Rightarrow> rat \<Rightarrow> proof_row list \<Rightarrow> proof_row list \<Rightarrow> proof_row list \<Rightarrow> string list \<Rightarrow>
     (string \<times> string list) list" where
  "batch_positives rnd unknown_is_negative least rows derived admitted query_ids =
     map (\<lambda>(q, targets). (q, positives_of rnd least targets))
       (aggregate_proof rnd unknown_is_negative (collect_proof rows derived admitted query_ids) [])"

section \<open>Gates\<close>

record gate =
  gate_id :: string
  passed :: bool
  blocking :: bool

text \<open>\<open>GateSet.of\<close>: a gate set, which is never empty, or none\<close>

definition gate_set_of :: "gate list \<Rightarrow> gate list option" where
  "gate_set_of gates = (if gates = [] then None else Some gates)"

definition all_passed :: "gate list \<Rightarrow> bool" where
  "all_passed gates = (case gate_set_of gates of None \<Rightarrow> False | Some gs \<Rightarrow> list_all passed gs)"

definition blocking_failures :: "gate list \<Rightarrow> string list" where
  "blocking_failures gates = (case gate_set_of gates of
       None \<Rightarrow> [] | Some gs \<Rightarrow> map gate_id (filter (\<lambda>g. blocking g \<and> \<not> passed g) gs))"

definition HOLDOUT_MIN_DELTA :: rat where "HOLDOUT_MIN_DELTA = 5 / 1000"
definition CONTROL_MAX_REGRESSION :: rat where "CONTROL_MAX_REGRESSION = 1 / 100"
definition MAX_STAGE_GROWTH_SHARE :: rat where "MAX_STAGE_GROWTH_SHARE = 15 / 100"

definition the_gate :: "string \<Rightarrow> bool \<Rightarrow> gate" where
  "the_gate name ok = \<lparr>gate_id = name, passed = ok, blocking = True\<rparr>"

text \<open>The largest growth of a stage's misses, of all stages either histogram counts but \<open>served\<close>.\<close>

definition stage_growths :: "histogram \<Rightarrow> histogram \<Rightarrow> int list" where
  "stage_growths before after =
     map (\<lambda>s. int (count_of (hg_counts after) s) - int (count_of (hg_counts before) s))
       (filter (\<lambda>s. s \<noteq> ''served'') (remdups (map fst (hg_counts before) @ map fst (hg_counts after))))"

definition worst_growth :: "histogram \<Rightarrow> histogram \<Rightarrow> int" where
  "worst_growth before after = (case stage_growths before after of [] \<Rightarrow> 0 | g # gs \<Rightarrow> fold max gs g)"

definition growth_share :: "(rat \<Rightarrow> rat) \<Rightarrow> histogram \<Rightarrow> histogram \<Rightarrow> rat" where
  "growth_share rnd before after =
     rnd (of_int (worst_growth before after) / of_nat (max 1 (hg_evaluated after)))"

definition point_within_bounds :: "pvalues \<Rightarrow> bool" where
  "point_within_bounds values \<longleftrightarrow>
     list_all (\<lambda>(name, v). in_bounds name (Num v)) values \<and>
     list_all (\<lambda>(name, v). name \<in> set parameter_names) values"

definition holdout_gate :: "int \<Rightarrow> comparison option \<Rightarrow> gate" where
  "holdout_gate min_paired holdout = (case holdout of
       None \<Rightarrow> the_gate ''holdout_confirms'' False
     | Some c \<Rightarrow> the_gate ''holdout_confirms''
         (HOLDOUT_MIN_DELTA \<le> cm_delta c \<and> min_paired \<le> int (paired_queries c)))"

definition control_gate :: "comparison option \<Rightarrow> gate" where
  "control_gate control = (case control of
       None \<Rightarrow> \<lparr>gate_id = ''control_does_not_regress'', passed = False, blocking = False\<rparr>
     | Some c \<Rightarrow> the_gate ''control_does_not_regress'' (- CONTROL_MAX_REGRESSION \<le> cm_delta c))"

definition evaluate_gates ::
  "(rat \<Rightarrow> rat) \<Rightarrow> comparison option \<Rightarrow> comparison option \<Rightarrow> comparison option \<Rightarrow> histogram \<Rightarrow>
     histogram \<Rightarrow> pvalues \<Rightarrow> int \<Rightarrow> gate list" where
  "evaluate_gates rnd on_search holdout control before after values min_paired =
     [the_gate ''sufficient_evidence''
        (min_paired \<le> (case on_search of None \<Rightarrow> 0 | Some c \<Rightarrow> int (paired_queries c))),
      holdout_gate min_paired holdout,
      control_gate control,
      the_gate ''no_stage_collapse'' (growth_share rnd before after \<le> MAX_STAGE_GROWTH_SHARE),
      the_gate ''parameters_within_bounds'' (point_within_bounds values)]"

section \<open>The decision\<close>

record cohort =
  cohort_id :: string
  cohort_queries :: "string list"

record trial =
  tr_id :: string
  tr_proposal :: proposal
  tr_metrics :: "(string \<times> rat) list"
  tr_histogram :: histogram
  tr_evaluated :: nat
  tr_excluded :: nat
  tr_searches :: nat
  tr_failed :: string

definition point_of_trial :: "trial \<Rightarrow> point" where
  "point_of_trial t = pr_point (tr_proposal t)"

datatype outcome = Promote | Reject | NoChange | InsufficientEvidence

record verdict_record =
  dc_outcome :: outcome
  winning_point :: string
  dc_gates :: "gate list"
  dc_comparisons :: "comparison list"
  holdout_confirmed :: bool
  control_regressed :: bool

type_synonym searcher = "ranking_parameters \<Rightarrow> string \<Rightarrow> string list option"

text \<open>\<open>_replay_for\<close>: a cohort's queries searched under a point, the failed ones left out\<close>

definition replay_for :: "searcher \<Rightarrow> cohort \<Rightarrow> ranking_parameters \<Rightarrow> (string \<times> string list) list" where
  "replay_for search co r =
     fold (\<lambda>q. case search r q of None \<Rightarrow> id | Some ids \<Rightarrow> AList.update q ids) (cohort_queries co) []"

definition scored_trials ::
  "(rat \<Rightarrow> rat) \<Rightarrow> (rat list \<Rightarrow> rat) \<Rightarrow> objective \<Rightarrow> (string \<times> trial) list \<Rightarrow>
     (string \<times> cohort_score) list \<Rightarrow> (string \<times> rat) list" where
  "scored_trials rnd fsum ob trials scores =
     List.map_filter (\<lambda>(_, t).
         let pid = point_id (point_of_trial t) in
         if tr_failed t \<noteq> [] \<or> tr_metrics t = [] \<or> map_of scores pid = None then None
         else map_option (Pair pid) (objective_score rnd fsum ob (tr_metrics t))) trials"

definition winner_of ::
  "(rat \<Rightarrow> rat) \<Rightarrow> (rat list \<Rightarrow> rat) \<Rightarrow> objective \<Rightarrow> (string \<times> trial) list \<Rightarrow>
     (string \<times> cohort_score) list \<Rightarrow> trial option" where
  "winner_of rnd fsum ob trials scores =
     (case select_survivors (scored_trials rnd fsum ob trials scores) 1 of
        [] \<Rightarrow> None | best # _ \<Rightarrow> map_of trials best)"

text \<open>\<open>max(normalized, key=...)\<close> of a dict that is not empty: the first greatest\<close>

definition comparison_metric ::
  "(rat \<Rightarrow> rat) \<Rightarrow> (rat list \<Rightarrow> rat) \<Rightarrow> objective \<Rightarrow> string option" where
  "comparison_metric rnd fsum ob =
     (if primary_metric ob \<noteq> [] then Some (primary_metric ob)
      else (case normalized rnd fsum ob of
              [] \<Rightarrow> None | w # ws \<Rightarrow> Some (fst (py_min_by (\<lambda>(_, x). - x) w ws))))"

text \<open>A cohort replayed under both points and compared; the outer \<open>None\<close> is an error, the inner one no
  cohort to replay.\<close>

definition compare_on ::
  "(rat \<Rightarrow> rat) \<Rightarrow> (string \<Rightarrow> int option) \<Rightarrow> searcher \<Rightarrow> (string \<times> string list) list \<Rightarrow> string \<Rightarrow>
     ranking_parameters \<Rightarrow> ranking_parameters \<Rightarrow> cohort option \<Rightarrow> comparison option option" where
  "compare_on rnd parse_int search positives metric base point co =
     (case co of
        None \<Rightarrow> Some None
      | Some c \<Rightarrow>
          if cohort_queries c = [] then Some None
          else map_option Some (compare_scores rnd parse_int metric
            (score_cohort rnd (replay_for search c base) positives [])
            (score_cohort rnd (replay_for search c point) positives [])))"

definition unusable :: verdict_record where
  "unusable = \<lparr>dc_outcome = InsufficientEvidence, winning_point = [],
     dc_gates = [the_gate ''sufficient_evidence'' False], dc_comparisons = [],
     holdout_confirmed = False, control_regressed = False\<rparr>"

definition outcome_of :: "comparison \<Rightarrow> gate list \<Rightarrow> outcome" where
  "outcome_of c gates =
     (if \<not> 0 < cm_delta c then NoChange
      else if blocking_failures gates \<noteq> [] then Reject else Promote)"

definition conclude ::
  "(rat \<Rightarrow> rat) \<Rightarrow> int \<Rightarrow> histogram \<Rightarrow> trial \<Rightarrow> comparison \<Rightarrow> comparison option \<Rightarrow> comparison option \<Rightarrow>
     verdict_record" where
  "conclude rnd min_paired before w c holdout control =
     (let gates = evaluate_gates rnd (Some c) holdout control before (tr_histogram w)
            (pvals (point_of_trial w)) min_paired
      in \<lparr>dc_outcome = outcome_of c gates, winning_point = point_id (point_of_trial w), dc_gates = gates,
          dc_comparisons = c # (case holdout of None \<Rightarrow> [] | Some h \<Rightarrow> [h])
            @ (case control of None \<Rightarrow> [] | Some k \<Rightarrow> [k]),
          holdout_confirmed = (case holdout of None \<Rightarrow> False | Some h \<Rightarrow> HOLDOUT_MIN_DELTA \<le> cm_delta h),
          control_regressed = (case control of None \<Rightarrow> False
            | Some k \<Rightarrow> cm_delta k < - CONTROL_MAX_REGRESSION)\<rparr>)"

record deciding =
  de_objective :: objective
  de_positives :: "(string \<times> string list) list"
  de_base :: ranking_parameters
  de_holdout :: "cohort option"
  de_control :: "cohort option"
  de_min_paired :: int
  de_histogram :: histogram

definition decide ::
  "(rat \<Rightarrow> rat) \<Rightarrow> (rat list \<Rightarrow> rat) \<Rightarrow> (string \<Rightarrow> int option) \<Rightarrow> searcher \<Rightarrow> deciding \<Rightarrow> cohort_score \<Rightarrow>
     (string \<times> trial) list \<Rightarrow> (string \<times> cohort_score) list \<Rightarrow> (verdict_record \<times> trial option) option" where
  "decide rnd fsum parse_int search d baseline trials scores =
     (case winner_of rnd fsum (de_objective d) trials scores of
        None \<Rightarrow> Some (unusable, None)
      | Some w \<Rightarrow>
          (let point = apply_point (de_base d) (pvals (point_of_trial w)) in
           Option.bind (comparison_metric rnd fsum (de_objective d)) (\<lambda>metric.
           Option.bind (map_of scores (point_id (point_of_trial w))) (\<lambda>score.
           Option.bind (compare_scores rnd parse_int metric baseline score) (\<lambda>c.
           Option.bind (compare_on rnd parse_int search (de_positives d) metric (de_base d) point
             (de_holdout d)) (\<lambda>holdout.
           Option.bind (compare_on rnd parse_int search (de_positives d) metric (de_base d) point
             (de_control d)) (\<lambda>control.
           Some (conclude rnd (de_min_paired d) (de_histogram d) w c holdout control, Some w))))))))"

section \<open>What a promotion rests on\<close>

lemma survivor_best:
  assumes "select_survivors scored 1 = best # rest"
  shows "rest = [] \<and> (\<exists>v. (best, v) \<in> set scored \<and> (\<forall>(p, u) \<in> set scored. u \<le> v))"
proof -
  let ?s = "sort_key (\<lambda>(id, v). (- v, id)) scored"
  obtain e es where s: "?s = e # es" using assms by (cases ?s) (auto simp: select_survivors_def)
  have e: "e \<in> set scored \<and> (\<forall>x \<in> set scored. (\<lambda>(id, v). (- v, id)) e \<le> (\<lambda>(id, v). (- v, id)) x)"
    by (rule hd_sort_key_least[OF s])
  have "best = fst e \<and> rest = []" using assms s by (simp add: select_survivors_def)
  then show ?thesis using e by (cases e) (force simp: less_eq_prod_def)
qed

lemma scored_trial:
  assumes "(pid, v) \<in> set (scored_trials rnd fsum ob trials scores)"
  shows "\<exists>k t. (k, t) \<in> set trials \<and> point_id (point_of_trial t) = pid \<and> tr_failed t = [] \<and>
    objective_score rnd fsum ob (tr_metrics t) = Some v \<and> (\<exists>s. map_of scores pid = Some s)"
  using assms by (fastforce simp: scored_trials_def map_filter_def Let_def split: if_splits)

lemma blocking_none:
  "blocking_failures gates = [] \<longleftrightarrow> (\<forall>g \<in> set gates. blocking g \<longrightarrow> passed g)"
  by (auto simp: blocking_failures_def gate_set_of_def filter_empty_conv)

text \<open>What the gates ask of a comparison on the search cohort and on the two others.\<close>

definition earned ::
  "(rat \<Rightarrow> rat) \<Rightarrow> int \<Rightarrow> histogram \<Rightarrow> trial \<Rightarrow> comparison \<Rightarrow> comparison option \<Rightarrow> comparison option \<Rightarrow> bool" where
  "earned rnd min_paired before w c holdout control \<longleftrightarrow>
     0 < cm_delta c \<and> min_paired \<le> int (paired_queries c) \<and>
     (case holdout of None \<Rightarrow> False
      | Some h \<Rightarrow> HOLDOUT_MIN_DELTA \<le> cm_delta h \<and> min_paired \<le> int (paired_queries h)) \<and>
     (case control of None \<Rightarrow> True | Some k \<Rightarrow> - CONTROL_MAX_REGRESSION \<le> cm_delta k) \<and>
     growth_share rnd before (tr_histogram w) \<le> MAX_STAGE_GROWTH_SHARE \<and>
     point_within_bounds (pvals (point_of_trial w))"

lemma promoted_iff_earned:
  "dc_outcome (conclude rnd min_paired before w c holdout control) = Promote
     \<longleftrightarrow> earned rnd min_paired before w c holdout control"
  unfolding conclude_def outcome_of_def earned_def Let_def
  by (cases holdout; cases control)
    (auto simp: blocking_none evaluate_gates_def holdout_gate_def control_gate_def the_gate_def)

lemma decide_cases:
  assumes "decide rnd fsum parse_int search d baseline trials scores = Some (v, out)"
  obtains (unusable) "v = unusable" and "out = None"
  | (winner) w metric score c holdout control point where "out = Some w"
      and "winner_of rnd fsum (de_objective d) trials scores = Some w"
      and "comparison_metric rnd fsum (de_objective d) = Some metric"
      and "map_of scores (point_id (point_of_trial w)) = Some score"
      and "compare_scores rnd parse_int metric baseline score = Some c"
      and "point = apply_point (de_base d) (pvals (point_of_trial w))"
      and "compare_on rnd parse_int search (de_positives d) metric (de_base d) point (de_holdout d) = Some holdout"
      and "compare_on rnd parse_int search (de_positives d) metric (de_base d) point (de_control d) = Some control"
      and "v = conclude rnd (de_min_paired d) (de_histogram d) w c holdout control"
proof (cases "winner_of rnd fsum (de_objective d) trials scores")
  case None
  then show ?thesis using assms by (intro unusable) (simp_all add: decide_def)
next
  case (Some w)
  with assms show ?thesis
    by (auto simp: decide_def Let_def bind_eq_Some_conv intro: winner)
qed

lemma compare_on_some:
  assumes "compare_on rnd parse_int search positives metric base point co = Some (Some h)"
  shows "\<exists>c. co = Some c \<and> cohort_queries c \<noteq> [] \<and>
    compare_scores rnd parse_int metric (score_cohort rnd (replay_for search c base) positives [])
      (score_cohort rnd (replay_for search c point) positives []) = Some h"
  using assms by (auto simp: compare_on_def split: option.splits if_splits)

lemma winner_of_best:
  assumes "winner_of rnd fsum ob trials scores = Some w"
    and "\<forall>(k, t) \<in> set trials. k = point_id (point_of_trial t)" and "distinct (map fst trials)"
  shows "(point_id (point_of_trial w), w) \<in> set trials \<and>
    (\<exists>v. objective_score rnd fsum ob (tr_metrics w) = Some v \<and>
      (\<forall>(p, u) \<in> set (scored_trials rnd fsum ob trials scores). u \<le> v))"
proof -
  obtain best rest where sel: "select_survivors (scored_trials rnd fsum ob trials scores) 1 = best # rest"
    and w: "map_of trials best = Some w"
    using assms(1) by (auto simp: winner_of_def split: list.splits)
  obtain v where v: "(best, v) \<in> set (scored_trials rnd fsum ob trials scores)"
    and greatest: "\<forall>(p, u) \<in> set (scored_trials rnd fsum ob trials scores). u \<le> v"
    using survivor_best[OF sel] by blast
  obtain k t where t: "(k, t) \<in> set trials" "point_id (point_of_trial t) = best"
    "objective_score rnd fsum ob (tr_metrics t) = Some v"
    using scored_trial[OF v] by blast
  with assms(2) have "k = best" by auto
  then have "t = w" using t(1) w assms(3) by simp
  then show ?thesis using t assms(2) greatest map_of_SomeD[OF w] by auto
qed


text \<open>
  A batch of one trial: under \<open>rrf_k = 30\<close> the searcher ranks the known positive first, under the
  baseline second.
\<close>

definition demo_search :: searcher where
  "demo_search r q = (if numbers r ''rrf_k'' = Some (Num 30) then Some [''a'', ''b''] else Some [''b'', ''a''])"

definition demo_point :: point where
  "demo_point = point_of demo_digest [(''rrf_k'', 30)] (Some (point_of demo_digest [(''rrf_k'', 60)] None))"

definition demo_evidence :: "(string \<times> string list) list" where
  "demo_evidence = [(''q'', [''a'']), (''h'', [''a''])]"

definition demo_score :: "ranking_parameters \<Rightarrow> cohort_score" where
  "demo_score r = score_cohort id (replay_for demo_search \<lparr>cohort_id = ''s'', cohort_queries = [''q'']\<rparr> r)
     demo_evidence []"

definition demo_trial :: trial where
  "demo_trial = \<lparr>tr_id = ''t'', tr_proposal = \<lparr>pr_point = demo_point, motivating_stage = ''fusion'',
       cost_class = REFUSION, generation = 0\<rparr>,
     tr_metrics = aggregate id sum_list (demo_score (apply_point DEFAULT_RANKING [(''rrf_k'', 30)])),
     tr_histogram = demo_diagnosis, tr_evaluated = 1, tr_excluded = 0, tr_searches = 0, tr_failed = []\<rparr>"

definition demo_deciding :: deciding where
  "demo_deciding = \<lparr>de_objective = resolve_objective None, de_positives = demo_evidence,
     de_base = DEFAULT_RANKING, de_holdout = Some \<lparr>cohort_id = ''o'', cohort_queries = [''h'']\<rparr>,
     de_control = None, de_min_paired = 1, de_histogram = demo_diagnosis\<rparr>"

definition demo_decided :: "(verdict_record \<times> trial option) option" where
  "demo_decided = decide id sum_list (\<lambda>_. None) demo_search demo_deciding (demo_score DEFAULT_RANKING)
     [(point_id demo_point, demo_trial)]
     [(point_id demo_point, demo_score (apply_point DEFAULT_RANKING [(''rrf_k'', 30)]))]"

lemma demo_promotes: "map_option (\<lambda>(v, _). dc_outcome v) demo_decided = Some Promote"
  by code_simp


section \<open>A holdout the batch has not seen\<close>

text \<open>
  The proof a batch collects is that of its search cohort's queries, and the holdout is scored by
  the same positives: a query only the holdout has is scored on neither side. So a holdout without
  queries of the search cohort confirms nothing, and nothing is ever promoted.
\<close>

lemma in_batches_subset: "b \<in> set (in_batches n xs) \<Longrightarrow> set b \<subseteq> set xs"
proof (induction n xs rule: in_batches.induct)
  case (1 n xs)
  show ?case
  proof (cases "xs = [] \<or> n = 0")
    case True
    then show ?thesis using "1.prems" by (simp add: in_batches.simps[of n xs])
  next
    case False
    then have "b = take n xs \<or> b \<in> set (in_batches n (drop n xs))"
      using "1.prems" by (simp add: in_batches.simps[of n xs])
    then show ?thesis using "1.IH"[OF False] set_take_subset[of n xs] set_drop_subset[of n xs] by blast
  qed
qed

lemma collected_queries:
  assumes "p \<in> set (collect_proof rows derived admitted ids)"
  shows "pf_query p \<in> set ids"
proof -
  have "pf_query p \<in> set ids" if "p \<in> set (load_proofs rows ids n)" for n
    using that by (auto simp: load_proofs_def dest!: in_set_takeD dest: subsetD[OF in_batches_subset])
  then show ?thesis using assms by (auto simp: collect_proof_def Let_def)
qed

lemma aggregate_keys:
  "fst ` set (aggregate_proof rnd u ps out) = fst ` set out \<union> pf_query ` set ps"
  by (induction ps arbitrary: out) (auto simp: Let_def dom_update)

lemma no_positives:
  assumes "q \<notin> set ids"
  shows "list_or (map_of (batch_positives rnd u least rows derived admitted ids) q) = []"
proof -
  let ?e = "aggregate_proof rnd u (collect_proof rows derived admitted ids) []"
  have "q \<notin> fst ` set ?e" using assms collected_queries by (auto simp: aggregate_keys)
  then have "map_of (map (\<lambda>(q, targets). (q, positives_of rnd least targets)) ?e) q = None"
    by (force simp: map_of_eq_None_iff)
  then show ?thesis by (simp add: batch_positives_def)
qed

lemma unscored:
  "\<forall>(q, ids) \<in> set rankings. list_or (map_of evidence q) = [] \<Longrightarrow>
     per_query (score_rankings rnd evidence rankings r) = per_query r"
  by (induction rnd evidence rankings r rule: score_rankings.induct)
    (auto simp: score_query_def Let_def)

lemma replayed_keys:
  "fst ` set (fold (\<lambda>q. case search r q of None \<Rightarrow> id | Some ids \<Rightarrow> AList.update q ids) qs acc)
     \<subseteq> fst ` set acc \<union> set qs"
proof (induction qs arbitrary: acc)
  case (Cons q qs)
  let ?acc = "(case search r q of None \<Rightarrow> id | Some ids \<Rightarrow> AList.update q ids) acc"
  have "fst ` set ?acc \<subseteq> insert q (fst ` set acc)" by (auto simp: dom_update split: option.split)
  then show ?case using Cons.IH[of ?acc] unfolding fold_Cons comp_apply list.set by blast
qed simp

lemma replayed_queries:
  assumes "(q, ids) \<in> set (replay_for search co r)"
  shows "q \<in> set (cohort_queries co)"
proof -
  have "q \<in> fst ` set (replay_for search co r)" using assms by (rule rev_image_eqI) simp
  then show ?thesis using replayed_keys[of search r "cohort_queries co" "[]"] by (auto simp: replay_for_def)
qed

lemma unseen_holdout_never_promotes:
  assumes "decide rnd fsum parse_int search d baseline trials scores = Some (v, out)"
    and "rounding rnd"
    and "de_positives d = batch_positives rnd u least rows derived admitted search_ids"
    and "\<forall>co. de_holdout d = Some co \<longrightarrow> set (cohort_queries co) \<inter> set search_ids = {}"
  shows "dc_outcome v \<noteq> Promote"
  using assms(1)
proof (cases rule: decide_cases)
  case unusable
  then show ?thesis by (simp add: unusable_def)
next
  case (winner w metric score c holdout control point)
  have zero: "cm_delta h = 0" if found: "holdout = Some h" for h
  proof -
    obtain co where co: "de_holdout d = Some co"
      and h: "compare_scores rnd parse_int metric
        (score_cohort rnd (replay_for search co (de_base d)) (de_positives d) [])
        (score_cohort rnd (replay_for search co point) (de_positives d) []) = Some h"
      using compare_on_some winner(7) found by blast
    have "list_or (map_of (de_positives d) q) = []" if "q \<in> set (cohort_queries co)" for q
      unfolding assms(3) using that assms(4) co by (intro no_positives) auto
    then have "per_query (score_cohort rnd (replay_for search co r) (de_positives d) []) = []" for r
      unfolding score_cohort_def by (subst unscored) (auto dest: replayed_queries)
    then show ?thesis using h roundingD(3)[OF assms(2)]
      by (auto simp: compare_scores_def paired_ids_def mean_def Let_def)
  qed
  have "\<not> earned rnd (de_min_paired d) (de_histogram d) w c holdout control"
    by (cases holdout) (simp_all add: earned_def HOLDOUT_MIN_DELTA_def zero)
  then show ?thesis using winner(9) promoted_iff_earned by simp
qed

end
