(* ===== verification/TuningStore.thy ===== *)
theory TuningStore
  imports TuningDecision SqlTable
begin

text \<open>
  The configuration a region serves: packaging a decision (\<open>src/pheasant/tuning/bundle.py\<close>), and the
  bundles, experiments, trials and decisions of \<open>src/pheasant/tuning/store.py\<close>.

  A table is the list of its rows and a JSON column the value it decodes to. \<open>utc_now\<close>, read by
  the caller, is an instant. A call that raises after it has written gives the table it leaves
  beside the error. The digest of a bundle's sorted items is the parameter \<open>dg\<close>.
\<close>

section \<open>Packaging\<close>

record tuning_bundle =
  tb_id :: string
  tb_kb :: string
  tb_experiment :: string
  tb_decision :: string
  tb_parameters :: pvalues
  tb_replaces :: pvalues
  tb_metrics :: "(string \<times> rat) list"
  tb_gates :: "gate list"
  tb_motivating :: string
  tb_created :: instant

definition bundle_identity :: "(pvalues \<Rightarrow> string) \<Rightarrow> pvalues \<Rightarrow> string" where
  "bundle_identity dg values = ''bundle-'' @ dg (sort values)"

definition clamped_values :: "pvalues \<Rightarrow> pvalues" where
  "clamped_values values =
     map (\<lambda>(name, v). (name, num_of (clamp name (Num v))))
       (filter (\<lambda>(name, v). name \<in> set parameter_names) values)"

definition package ::
  "(pvalues \<Rightarrow> string) \<Rightarrow> string \<Rightarrow> string \<Rightarrow> string \<Rightarrow> gate list \<Rightarrow> trial \<Rightarrow> pvalues \<Rightarrow> instant \<Rightarrow>
     tuning_bundle" where
  "package dg kb experiment decision gates w baseline now =
     (let values = clamped_values (pvals (point_of_trial w)) in
      \<lparr>tb_id = bundle_identity dg values, tb_kb = kb, tb_experiment = experiment,
       tb_decision = decision, tb_parameters = values, tb_replaces = baseline,
       tb_metrics = tr_metrics w, tb_gates = gates,
       tb_motivating = motivating_stage (tr_proposal w), tb_created = now\<rparr>)"

text \<open>What applying a bundle would change, parameter by parameter: its stage, the old and the new value.\<close>

definition bundle_diff ::
  "pvalues \<Rightarrow> pvalues \<Rightarrow> (string \<times> string \<times> rat option \<times> rat) list" where
  "bundle_diff parameters now_serving =
     map (\<lambda>(name, v). (name, (case map_of PARAMETER_STAGES name of None \<Rightarrow> ''unknown'' | Some s \<Rightarrow> s),
         map_of now_serving name, v))
       (filter (\<lambda>(name, v). map_of now_serving name \<noteq> Some v) (sort_key fst parameters))"

section \<open>Bundles\<close>

record bundle_row =
  bu_kb :: string
  bu_id :: string
  bu_experiment :: string
  bu_decision :: string
  bu_created :: instant
  applied_at :: "instant option"
  applied_by :: string
  superseded_at :: "instant option"
  bu_parameters :: pvalues
  bu_replaces :: pvalues
  bu_payload :: tuning_bundle

definition bundle_key :: "bundle_row \<Rightarrow> string \<times> string" where
  "bundle_key r = (bu_kb r, bu_id r)"

definition save_bundle :: "tuning_bundle \<Rightarrow> bundle_row list \<Rightarrow> bundle_row list" where
  "save_bundle b t = tbl_upsert bundle_key
     \<lparr>bu_kb = tb_kb b, bu_id = tb_id b, bu_experiment = tb_experiment b, bu_decision = tb_decision b,
      bu_created = tb_created b, applied_at = None, applied_by = [], superseded_at = None,
      bu_parameters = tb_parameters b, bu_replaces = tb_replaces b, bu_payload = b\<rparr>
     (\<lambda>_. False) id t"

definition active_bundle :: "string \<Rightarrow> bundle_row \<Rightarrow> bool" where
  "active_bundle kb r \<longleftrightarrow> bu_kb r = kb \<and> applied_at r \<noteq> None \<and> superseded_at r = None"

text \<open>\<open>ORDER BY applied_at DESC\<close>, of which the code reads the first row\<close>

definition active_overlay :: "string \<Rightarrow> bundle_row list \<Rightarrow> bundle_row option" where
  "active_overlay kb t =
     (case sort_key (\<lambda>r. - the (applied_at r)) (filter (active_bundle kb) t) of
        [] \<Rightarrow> None | r # _ \<Rightarrow> Some r)"

text \<open>The two writes of \<open>apply_bundle\<close>, each committed by itself.\<close>

definition supersede_active :: "instant \<Rightarrow> string \<Rightarrow> bundle_row list \<Rightarrow> bundle_row list" where
  "supersede_active now kb t = tbl_update (active_bundle kb) (\<lambda>r. r\<lparr>superseded_at := Some now\<rparr>) t"

definition activate ::
  "instant \<Rightarrow> string \<Rightarrow> string \<Rightarrow> string \<Rightarrow> pvalues \<Rightarrow> bundle_row list \<Rightarrow> bundle_row list" where
  "activate now who kb bundle replaces t =
     tbl_update (\<lambda>r. bundle_key r = (kb, bundle))
       (\<lambda>r. r\<lparr>applied_at := Some now, applied_by := who, superseded_at := None,
              bu_replaces := replaces\<rparr>) t"

datatype store_error = UnknownBundle string

definition replaced_values :: "string \<Rightarrow> bundle_row list \<Rightarrow> pvalues" where
  "replaced_values kb t = (case active_overlay kb t of None \<Rightarrow> [] | Some r \<Rightarrow> bu_parameters r)"

definition apply_bundle ::
  "instant \<Rightarrow> string \<Rightarrow> string \<Rightarrow> string \<Rightarrow> bundle_row list \<Rightarrow>
     bundle_row list \<times> (store_error + tuning_bundle)" where
  "apply_bundle now who kb bundle t =
     (case tbl_get bundle_key (kb, bundle) t of
        None \<Rightarrow> (t, Inl (UnknownBundle bundle))
      | Some r \<Rightarrow> (activate now who kb bundle (replaced_values kb t) (supersede_active now kb t),
                   Inr (bu_payload r)))"

definition revert_bundle ::
  "instant \<Rightarrow> string \<Rightarrow> string \<Rightarrow> string \<Rightarrow> bundle_row list \<Rightarrow>
     bundle_row list \<times> (store_error + bundle_row option)" where
  "revert_bundle now who kb target t =
     (case active_overlay kb t of
        None \<Rightarrow> (t, Inr None)
      | Some a \<Rightarrow>
          (let t' = tbl_update (\<lambda>r. bundle_key r = (kb, bu_id a) \<and> superseded_at r = None)
                      (\<lambda>r. r\<lparr>superseded_at := Some now, applied_by := who\<rparr>) t
           in if target \<noteq> [] \<and> target \<noteq> ''base'' then
                (case apply_bundle now (who @ '' (rollback)'') kb target t' of
                   (t'', Inl e) \<Rightarrow> (t'', Inl e)
                 | (t'', Inr _) \<Rightarrow> (t'', Inr (Some a)))
              else (t', Inr (Some a))))"

text \<open>Every configuration a region has served, newest first; ties break on the active row, then on the
  later supersession.\<close>

definition lineage_order :: "bundle_row \<Rightarrow> int \<times> nat \<times> int" where
  "lineage_order r = (- the (applied_at r), if superseded_at r = None then 0 else 1,
     case superseded_at r of None \<Rightarrow> 0 | Some s \<Rightarrow> - s)"

definition lineage :: "string \<Rightarrow> nat \<Rightarrow> bundle_row list \<Rightarrow> bundle_row list" where
  "lineage kb limit t =
     take limit (sort_key lineage_order (filter (\<lambda>r. bu_kb r = kb \<and> applied_at r \<noteq> None) t))"

definition load_bundle_row :: "string \<Rightarrow> string \<Rightarrow> bundle_row list \<Rightarrow> tuning_bundle option" where
  "load_bundle_row kb bundle t = map_option bu_payload (tbl_get bundle_key (kb, bundle) t)"

definition list_bundles :: "string \<Rightarrow> nat \<Rightarrow> bundle_row list \<Rightarrow> bundle_row list" where
  "list_bundles kb limit t =
     take limit (sort_key (\<lambda>r. - bu_created r) (filter (\<lambda>r. bu_kb r = kb) t))"

section \<open>The bundles as a pointer\<close>

text \<open>What callers may ask of the bundles.\<close>

datatype bundle_op =
    SaveBundle tuning_bundle
  | ApplyBundle instant string string string
  | RevertBundle instant string string string

fun bundle_step :: "bundle_op \<Rightarrow> bundle_row list \<Rightarrow> bundle_row list" where
  "bundle_step (SaveBundle b) t = save_bundle b t"
| "bundle_step (ApplyBundle now who kb bundle) t = fst (apply_bundle now who kb bundle t)"
| "bundle_step (RevertBundle now who kb target) t = fst (revert_bundle now who kb target t)"

text \<open>
  What the table stands for: the configurations a region knows, by their ids, and the one it
  serves, if it does not serve its configuration file.
\<close>

record overlays =
  known :: "string \<times> string \<Rightarrow> pvalues option"
  serving :: "string \<Rightarrow> string option"

fun overlay_step :: "bundle_op \<Rightarrow> overlays \<Rightarrow> overlays" where
  "overlay_step (SaveBundle b) s =
     (if known s (tb_kb b, tb_id b) = None then s\<lparr>known := (known s)((tb_kb b, tb_id b) \<mapsto> tb_parameters b)\<rparr>
      else s)"
| "overlay_step (ApplyBundle now who kb bundle) s =
     (if known s (kb, bundle) = None then s else s\<lparr>serving := (serving s)(kb \<mapsto> bundle)\<rparr>)"
| "overlay_step (RevertBundle now who kb target) s =
     (if serving s kb = None then s
      else if target \<noteq> [] \<and> target \<noteq> ''base'' \<and> known s (kb, target) \<noteq> None
      then s\<lparr>serving := (serving s)(kb \<mapsto> target)\<rparr>
      else s\<lparr>serving := (serving s)(kb := None)\<rparr>)"

definition overlays_of :: "bundle_row list \<Rightarrow> overlays" where
  "overlays_of t = \<lparr>known = (\<lambda>k. map_option bu_parameters (tbl_get bundle_key k t)),
     serving = (\<lambda>kb. map_option bu_id (active_overlay kb t))\<rparr>"

definition one_active :: "bundle_row list \<Rightarrow> bool" where
  "one_active t \<longleftrightarrow> keyed bundle_key t \<and>
     (\<forall>r \<in> set t. \<forall>r' \<in> set t. \<forall>kb. active_bundle kb r \<and> active_bundle kb r' \<longrightarrow> r = r')"

definition active_id :: "bundle_row list \<Rightarrow> string \<Rightarrow> string \<Rightarrow> bool" where
  "active_id t kb i \<longleftrightarrow> (\<exists>r \<in> set t. active_bundle kb r \<and> bu_id r = i)"

lemma active_overlay_mem:
  assumes "active_overlay kb t = Some r"
  shows "r \<in> set t \<and> active_bundle kb r"
proof -
  obtain rest where "sort_key (\<lambda>r. - the (applied_at r)) (filter (active_bundle kb) t) = r # rest"
    using assms by (auto simp: active_overlay_def split: list.splits)
  then have "r \<in> set (filter (active_bundle kb) t)" by (metis list.set_intros(1) set_sort)
  then show ?thesis by simp
qed

lemma active_overlay_None: "active_overlay kb t = None \<longleftrightarrow> (\<forall>r \<in> set t. \<not> active_bundle kb r)"
proof -
  let ?xs = "filter (active_bundle kb) t"
  have "active_overlay kb t = None \<longleftrightarrow> sort_key (\<lambda>r. - the (applied_at r)) ?xs = []"
    unfolding active_overlay_def
    by (cases "sort_key (\<lambda>r. - the (applied_at r)) ?xs") (simp_all only: list.case option.distinct list.distinct simp_thms)
  then show ?thesis by (simp add: filter_empty_conv)
qed

lemma serving_iff:
  assumes "one_active t"
  shows "serving (overlays_of t) kb = Some i \<longleftrightarrow> active_id t kb i"
proof (cases "active_overlay kb t")
  case None
  then have "\<forall>r \<in> set t. \<not> active_bundle kb r" by (simp add: active_overlay_None)
  then show ?thesis using None by (auto simp: overlays_of_def active_id_def)
next
  case (Some r)
  then have "r' = r" if "r' \<in> set t" "active_bundle kb r'" for r'
    using assms that active_overlay_mem unfolding one_active_def by blast
  then show ?thesis using active_overlay_mem[OF Some] Some
    by (auto simp: overlays_of_def active_id_def)
qed

lemma key_kept:
  "bundle_key (r\<lparr>superseded_at := x\<rparr>) = bundle_key r"
  "bundle_key (r\<lparr>superseded_at := x, applied_by := w\<rparr>) = bundle_key r"
  "bundle_key (r\<lparr>applied_at := a, applied_by := w, superseded_at := x, bu_replaces := v\<rparr>) = bundle_key r"
  by (simp_all add: bundle_key_def)

lemma active_kept:
  "active_bundle kb (r\<lparr>superseded_at := Some x\<rparr>) \<longleftrightarrow> False"
  "active_bundle kb (r\<lparr>superseded_at := Some x, applied_by := w\<rparr>) \<longleftrightarrow> False"
  "active_bundle kb (r\<lparr>applied_at := Some a, applied_by := w, superseded_at := None, bu_replaces := v\<rparr>)
     \<longleftrightarrow> bu_kb r = kb"
  by (simp_all add: active_bundle_def)

lemma active_superseded:
  "active_id (supersede_active now kb t) kb' i \<longleftrightarrow> kb' \<noteq> kb \<and> active_id t kb' i"
  by (auto simp: active_id_def supersede_active_def set_tbl_update active_bundle_def)

lemma active_activated:
  assumes "tbl_get bundle_key (kb, bundle) t \<noteq> None"
  shows "active_id (activate now who kb bundle v t) kb' i \<longleftrightarrow> (kb' = kb \<and> i = bundle) \<or> active_id t kb' i"
proof -
  obtain r where r: "r \<in> set t" "bu_kb r = kb" "bu_id r = bundle"
    using assms tbl_get_Some[of bundle_key "(kb, bundle)" t] by (auto simp: bundle_key_def)
  show ?thesis
  proof
    assume "active_id (activate now who kb bundle v t) kb' i"
    then show "(kb' = kb \<and> i = bundle) \<or> active_id t kb' i"
      by (auto simp: active_id_def activate_def set_tbl_update active_kept bundle_key_def split: if_splits)
  next
    assume "(kb' = kb \<and> i = bundle) \<or> active_id t kb' i"
    then obtain r' where "r' \<in> set t" "bu_kb r' = kb'" "bu_id r' = i"
      "active_bundle kb' r' \<or> bundle_key r' = (kb, bundle)"
      using r by (auto simp: active_id_def bundle_key_def active_bundle_def)
    moreover define r'' where "r'' = (if bundle_key r' = (kb, bundle)
        then r'\<lparr>applied_at := Some now, applied_by := who, superseded_at := None, bu_replaces := v\<rparr> else r')"
    ultimately have "r'' \<in> set (activate now who kb bundle v t)" and "active_bundle kb' r'' \<and> bu_id r'' = i"
      by (auto simp: activate_def set_tbl_update active_kept)
    then show "active_id (activate now who kb bundle v t) kb' i" by (auto simp: active_id_def)
  qed
qed

text \<open>The state has no place for two active rows: it is decided by which ids are active.\<close>

lemma one_active_ids:
  assumes "keyed bundle_key t" and "\<And>kb i j. active_id t kb i \<Longrightarrow> active_id t kb j \<Longrightarrow> i = j"
  shows "one_active t"
proof -
  have "r = r'" if "r \<in> set t" "r' \<in> set t" "active_bundle kb r" "active_bundle kb r'" for r r' kb
  proof -
    have "bu_id r = bu_id r'" using assms(2) that by (auto simp: active_id_def)
    then have "bundle_key r = bundle_key r'" using that by (simp add: bundle_key_def active_bundle_def)
    then show ?thesis using keyed_unique[OF assms(1)] that by blast
  qed
  then show ?thesis using assms(1) by (auto simp: one_active_def)
qed

lemma one_activeD: "one_active t \<Longrightarrow> active_id t kb i \<Longrightarrow> active_id t kb j \<Longrightarrow> i = j"
  by (auto simp: one_active_def active_id_def)

lemma keyed_supersede: "keyed bundle_key t \<Longrightarrow> keyed bundle_key (supersede_active now kb t)"
  by (simp add: supersede_active_def keyed_update key_kept)

lemma keyed_activate: "keyed bundle_key t \<Longrightarrow> keyed bundle_key (activate now who kb bundle v t)"
  by (simp add: activate_def keyed_update key_kept)

lemma get_superseded: "tbl_get bundle_key k (supersede_active now kb t) = None \<longleftrightarrow> tbl_get bundle_key k t = None"
  by (simp add: supersede_active_def tbl_get_update key_kept)

lemma known_updated:
  "(\<And>r. bundle_key (f r) = bundle_key r) \<Longrightarrow> (\<And>r. bu_parameters (f r) = bu_parameters r) \<Longrightarrow>
     known (overlays_of (tbl_update p f t)) = known (overlays_of t)"
  by (auto simp: overlays_of_def tbl_get_update fun_eq_iff option.map_comp comp_def
      intro!: option.map_cong)

lemma overlays_eqI:
  assumes "one_active t'" and "known (overlays_of t') = known s"
    and "\<And>kb i. active_id t' kb i \<longleftrightarrow> serving s kb = Some i"
  shows "overlays_of t' = s"
proof -
  have "serving (overlays_of t') kb = serving s kb" for kb
    using serving_iff[OF assms(1), of kb] assms(3)[of kb]
    by (cases "serving s kb"; cases "serving (overlays_of t') kb") auto
  with assms(2) show ?thesis by (simp add: overlays.equality fun_eq_iff)
qed

lemma apply_known:
  assumes "one_active t" and "tbl_get bundle_key (kb, bundle) t \<noteq> None"
  shows "let t' = fst (apply_bundle now who kb bundle t) in
    one_active t' \<and> known (overlays_of t') = known (overlays_of t) \<and>
    (\<forall>kb' i. active_id t' kb' i \<longleftrightarrow> (if kb' = kb then i = bundle else active_id t kb' i))"
proof -
  let ?s = "supersede_active now kb t"
  let ?t = "activate now who kb bundle (replaced_values kb t) ?s"
  have t': "fst (apply_bundle now who kb bundle t) = ?t"
    using assms(2) by (auto simp: apply_bundle_def split: option.split)
  have ids: "active_id ?t kb' i \<longleftrightarrow> (if kb' = kb then i = bundle else active_id t kb' i)" for kb' i
    using assms(2) by (auto simp: active_activated active_superseded get_superseded)
  have "keyed bundle_key ?t" using assms(1) by (simp add: one_active_def keyed_activate keyed_supersede)
  moreover have "i = j" if "active_id ?t kb' i" "active_id ?t kb' j" for kb' i j
    using that one_activeD[OF assms(1)] unfolding ids by (auto split: if_splits)
  ultimately have "one_active ?t" by (rule one_active_ids)
  moreover have "known (overlays_of ?t) = known (overlays_of t)"
    by (simp add: activate_def supersede_active_def known_updated key_kept)
  ultimately show ?thesis using ids by (simp add: t' Let_def)
qed

lemma apply_refines:
  assumes "one_active t"
  shows "one_active (fst (apply_bundle now who kb bundle t)) \<and>
    overlays_of (fst (apply_bundle now who kb bundle t)) = overlay_step (ApplyBundle now who kb bundle) (overlays_of t)"
proof (cases "tbl_get bundle_key (kb, bundle) t = None")
  case True
  then show ?thesis using assms by (simp add: apply_bundle_def overlays_of_def)
next
  case False
  let ?t' = "fst (apply_bundle now who kb bundle t)"
  have ap: "one_active ?t'" "known (overlays_of ?t') = known (overlays_of t)"
    and ids: "active_id ?t' kb' i \<longleftrightarrow> (if kb' = kb then i = bundle else active_id t kb' i)" for kb' i
    using apply_known[OF assms False] by (simp_all add: Let_def)
  have k: "known (overlays_of t) (kb, bundle) \<noteq> None" using False by (simp add: overlays_of_def)
  have "overlays_of ?t' = overlays_of t\<lparr>serving := (serving (overlays_of t))(kb \<mapsto> bundle)\<rparr>"
    by (rule overlays_eqI[OF ap(1)]) (auto simp: ap(2) ids serving_iff[OF assms])
  then show ?thesis using ap(1) k by auto
qed

lemma revert_refines:
  assumes "one_active t"
  shows "one_active (fst (revert_bundle now who kb target t)) \<and>
    overlays_of (fst (revert_bundle now who kb target t)) = overlay_step (RevertBundle now who kb target) (overlays_of t)"
proof (cases "active_overlay kb t")
  case None
  then have "serving (overlays_of t) kb = None" by (simp add: overlays_of_def)
  then show ?thesis using assms None by (simp add: revert_bundle_def)
next
  case (Some a)
  define t' where "t' = tbl_update (\<lambda>r. bundle_key r = (kb, bu_id a) \<and> superseded_at r = None)
      (\<lambda>r. r\<lparr>superseded_at := Some now, applied_by := who\<rparr>) t"
  have a: "a \<in> set t" "active_bundle kb a" using active_overlay_mem[OF Some] by auto
  have key: "keyed bundle_key t'" using assms
    by (simp add: t'_def one_active_def keyed_update key_kept)
  have only: "bu_id r = bu_id a" if "r \<in> set t" "active_bundle kb r" for r
    using that a assms unfolding one_active_def by blast
  have ids: "active_id t' kb' i \<longleftrightarrow> kb' \<noteq> kb \<and> active_id t kb' i" for kb' i
  proof
    assume "active_id t' kb' i"
    then obtain r where "r \<in> set t" "active_bundle kb' r" "bu_id r = i"
      "\<not> (bundle_key r = (kb, bu_id a) \<and> superseded_at r = None)"
      by (auto simp: active_id_def t'_def set_tbl_update active_kept split: if_splits)
    then show "kb' \<noteq> kb \<and> active_id t kb' i"
      using only by (auto simp: active_id_def bundle_key_def active_bundle_def)
  next
    assume "kb' \<noteq> kb \<and> active_id t kb' i"
    then show "active_id t' kb' i"
      by (auto simp: active_id_def t'_def set_tbl_update active_bundle_def bundle_key_def)
  qed
  have "i = j" if "active_id t' kb' i" "active_id t' kb' j" for kb' i j
    using that one_activeD[OF assms] unfolding ids by blast
  then have one: "one_active t'" by (rule one_active_ids[OF key])
  have kn: "known (overlays_of t') = known (overlays_of t)"
    by (simp add: t'_def known_updated key_kept)
  have served: "serving (overlays_of t) kb \<noteq> None" using Some by (simp add: overlays_of_def)
  have base: "overlays_of t' = overlays_of t\<lparr>serving := (serving (overlays_of t))(kb := None)\<rparr>"
    by (rule overlays_eqI[OF one]) (auto simp: kn ids serving_iff[OF assms])
  show ?thesis
  proof (cases "target \<noteq> [] \<and> target \<noteq> ''base''")
    case True
    then have "fst (revert_bundle now who kb target t) = fst (apply_bundle now (who @ '' (rollback)'') kb target t')"
      using Some by (auto simp: revert_bundle_def t'_def Let_def split: prod.split sum.split)
    then show ?thesis using apply_refines[OF one, of now "who @ '' (rollback)''" kb target] True served
      by (auto simp: base)
  next
    case False
    then have "fst (revert_bundle now who kb target t) = t'"
      using Some by (auto simp: revert_bundle_def t'_def Let_def)
    then show ?thesis using one False served base by auto
  qed
qed

lemma save_refines:
  assumes "one_active t"
  shows "one_active (save_bundle b t) \<and> overlays_of (save_bundle b t) = overlay_step (SaveBundle b) (overlays_of t)"
proof (cases "tbl_get bundle_key (tb_kb b, tb_id b) t")
  case (Some r)
  have "tbl_update (\<lambda>r. False) id t = t" by (simp add: tbl_update_def)
  then show ?thesis using assms Some
    by (simp add: save_bundle_def tbl_upsert_def bundle_key_def overlays_of_def)
next
  case None
  let ?r = "\<lparr>bu_kb = tb_kb b, bu_id = tb_id b, bu_experiment = tb_experiment b, bu_decision = tb_decision b,
      bu_created = tb_created b, applied_at = None, applied_by = [], superseded_at = None,
      bu_parameters = tb_parameters b, bu_replaces = tb_replaces b, bu_payload = b\<rparr>"
  have t': "save_bundle b t = t @ [?r]" using None
    by (simp add: save_bundle_def tbl_upsert_def bundle_key_def)
  have key: "keyed bundle_key (save_bundle b t)" using assms None
    by (auto simp: t' keyed_def one_active_def bundle_key_def tbl_get_None)
  have ids: "active_id (save_bundle b t) kb i \<longleftrightarrow> active_id t kb i" for kb i
    by (auto simp: t' active_id_def active_bundle_def)
  have one: "one_active (save_bundle b t)"
    by (rule one_active_ids[OF key]) (use one_activeD[OF assms] in \<open>simp add: ids\<close>)
  have kn: "known (overlays_of (save_bundle b t)) k =
      ((known (overlays_of t))((tb_kb b, tb_id b) \<mapsto> tb_parameters b)) k" for k
    using None by (auto simp: overlays_of_def t' tbl_get_append bundle_key_def split: option.split)
  have "overlays_of (save_bundle b t) =
      overlays_of t\<lparr>known := (known (overlays_of t))((tb_kb b, tb_id b) \<mapsto> tb_parameters b)\<rparr>"
    by (rule overlays_eqI[OF one]) (use kn in \<open>auto simp: ids serving_iff[OF assms]\<close>)
  moreover have "known (overlays_of t) (tb_kb b, tb_id b) = None" using None by (simp add: overlays_of_def)
  ultimately show ?thesis using one by simp
qed

lemma bundle_step_refines:
  "one_active t \<Longrightarrow> one_active (bundle_step op t) \<and> overlays_of (bundle_step op t) = overlay_step op (overlays_of t)"
  by (cases op) (simp_all only: bundle_step.simps save_refines apply_refines revert_refines)

text \<open>
  Claim C19: the bundles of a region are a pointer. Whatever callers ask, one after the other, of a
  store that began empty, at most one bundle per knowledge base is active, and the table stands
  for nothing but the configurations it knows and the one it serves: saving makes a configuration
  known and never changes one already known; applying a known bundle makes it the one served and
  applying an unknown one changes nothing; reverting returns to the configuration file, or to a
  named bundle it knows, and does nothing where none is served.
\<close>

theorem bundles_are_a_pointer:
  "one_active (fold bundle_step ops [])
     \<and> overlays_of (fold bundle_step ops []) = fold overlay_step ops \<lparr>known = (\<lambda>_. None), serving = (\<lambda>_. None)\<rparr>"
proof -
  have "one_active (fold bundle_step ops t) \<and> overlays_of (fold bundle_step ops t) = fold overlay_step ops (overlays_of t)"
    if "one_active t" for t
    using that by (induction ops arbitrary: t) (auto simp: bundle_step_refines)
  moreover have "one_active []" by (simp add: one_active_def keyed_def)
  moreover have "overlays_of [] = \<lparr>known = (\<lambda>_. None), serving = (\<lambda>_. None)\<rparr>"
    by (simp add: overlays_of_def active_overlay_def)
  ultimately show ?thesis by metis
qed

section \<open>Two writes are not one\<close>

text \<open>
  The module says that a bundle supersedes the incumbent in the transaction that applies it, so
  that two are never active; each of the two writes commits by itself. Two applies whose writes
  interleave leave two active rows, and between the writes of one there is none.
\<close>

definition demo_bundle :: "string \<Rightarrow> tuning_bundle" where
  "demo_bundle name = \<lparr>tb_id = name, tb_kb = ''kb'', tb_experiment = [], tb_decision = [],
     tb_parameters = [], tb_replaces = [], tb_metrics = [], tb_gates = [], tb_motivating = [], tb_created = 0\<rparr>"

lemma interleaved_applies_leave_two:
  "let t = save_bundle (demo_bundle ''b'') (save_bundle (demo_bundle ''a'') []);
       t' = activate 2 ''y'' ''kb'' ''b'' [] (activate 1 ''x'' ''kb'' ''a'' []
              (supersede_active 2 ''kb'' (supersede_active 1 ''kb'' t)))
   in map bu_id (filter (active_bundle ''kb'') t') = [''a'', ''b'']"
  by code_simp

lemma apply_passes_through_none:
  "let t = fst (apply_bundle 1 ''x'' ''kb'' ''a'' (save_bundle (demo_bundle ''b'') (save_bundle (demo_bundle ''a'') [])))
   in active_overlay ''kb'' t \<noteq> None \<and> active_overlay ''kb'' (supersede_active 2 ''kb'' t) = None"
  by code_simp

text \<open>A rollback to a bundle the store does not know raises, but only after it has stood the active one down.\<close>

lemma failed_rollback_stands_down:
  "let t = fst (apply_bundle 1 ''x'' ''kb'' ''a'' (save_bundle (demo_bundle ''a'') []))
   in snd (revert_bundle 2 ''x'' ''kb'' ''c'' t) = Inl (UnknownBundle ''c'')
      \<and> active_overlay ''kb'' (fst (revert_bundle 2 ''x'' ''kb'' ''c'' t)) = None"
  by code_simp

end
