(* ===== verification/TuningServed.thy ===== *)
theory TuningServed
  imports TuningStore "HOL-Library.Countable"
begin

text \<open>
  From a promotion to what a search ranks with: \<open>_decide\<close>, \<open>package\<close>, \<open>save_bundle\<close>, \<open>apply_bundle\<close>
  and the resolver of \<open>src/pheasant/search/ranking.py\<close>, composed as the batch composes them.
\<close>

definition overlay_of_values :: "pvalues \<Rightarrow> (string \<times> overlay_value) list" where
  "overlay_of_values values = map (\<lambda>(name, v). (name, OFloat (Num v))) values"

text \<open>What the resolver reads of the bundles: the numbers of a JSON object are floats.\<close>

definition read_overlay :: "string \<Rightarrow> bundle_row list \<Rightarrow> overlay_read" where
  "read_overlay kb t = (case active_overlay kb t of
       None \<Rightarrow> NoOverlay | Some r \<Rightarrow> Overlay (overlay_of_values (bu_parameters r)) (bu_id r))"

text \<open>The end of a batch that promotes and applies by itself (\<open>tuning.auto.apply\<close>)\<close>

definition save_and_apply :: "instant \<Rightarrow> string \<Rightarrow> tuning_bundle \<Rightarrow> bundle_row list \<Rightarrow> bundle_row list" where
  "save_and_apply now who b t = fst (apply_bundle now who (tb_kb b) (tb_id b) (save_bundle b t))"

text \<open>Every stored bundle is named after its parameters, a dict, as \<open>package\<close> names it.\<close>

definition content_addressed :: "(pvalues \<Rightarrow> string) \<Rightarrow> bundle_row list \<Rightarrow> bool" where
  "content_addressed dg t \<longleftrightarrow>
     list_all (\<lambda>r. bu_id r = bundle_identity dg (bu_parameters r) \<and> distinct (map fst (bu_parameters r))) t"

lemma overlay_names: "map fst (overlay_of_values values) = map fst values"
  by (simp add: overlay_of_values_def comp_def case_prod_unfold)

lemma overlay_value: "map_of (overlay_of_values values) name = map_option (\<lambda>v. OFloat (Num v)) (map_of values name)"
  by (simp add: overlay_of_values_def map_of_map)

lemma same_values_same_numbers:
  assumes "distinct (map fst xs)" and "distinct (map fst ys)" and "map_of xs = map_of ys"
  shows "numbers (with_overlay parse r (overlay_of_values xs) p b) =
    numbers (with_overlay parse' r (overlay_of_values ys) p' b')"
proof
  fix name
  show "numbers (with_overlay parse r (overlay_of_values xs) p b) name =
    numbers (with_overlay parse' r (overlay_of_values ys) p' b') name"
  proof (cases "name \<in> set parameter_names")
    case True
    have "overlay_changes parse (overlay_of_values xs) Map.empty name =
        overlay_changes parse' (overlay_of_values ys) Map.empty name"
      using overlay_changes_at[OF _ True, of "overlay_of_values xs" parse Map.empty]
        overlay_changes_at[OF _ True, of "overlay_of_values ys" parse' Map.empty] assms
      by (cases "map_of ys name") (simp_all add: overlay_names overlay_value)
    then show ?thesis using True
      by (simp add: with_overlay_def post_init_known map_add_def)
  qed (simp add: with_overlay_def post_init_unknown)
qed

lemma clamped_idle: "point_within_bounds values \<Longrightarrow> clamped_values values = values"
proof -
  assume ok: "point_within_bounds values"
  then have "filter (\<lambda>(name, v). name \<in> set parameter_names) values = values"
    by (auto simp: point_within_bounds_def list_all_iff filter_id_conv)
  moreover have "(\<lambda>(name, v). (name, num_of (clamp name (Num v)))) e = e" if "e \<in> set values" for e
  proof (cases e)
    case (Pair name v)
    then have "in_bounds name (Num v)" "name \<in> set parameter_names"
      using ok that by (auto simp: point_within_bounds_def list_all_iff)
    then show ?thesis by (simp add: Pair clamp_idle)
  qed
  ultimately show ?thesis by (simp add: clamped_values_def map_idI)
qed

lemma identity_inj:
  assumes "inj dg" and "bundle_identity dg xs = bundle_identity dg ys"
    and "distinct (map fst xs)" and "distinct (map fst ys)"
  shows "map_of xs = map_of ys"
proof -
  have "sort xs = sort ys" using assms(1,2) by (simp add: bundle_identity_def inj_eq)
  then have "set xs = set ys" by (metis set_sort)
  then show ?thesis using assms(3,4) by (simp add: map_of_inject_set)
qed

lemma saved_row:
  assumes "one_active t" and "content_addressed dg t" and "inj dg"
    and "tb_id b = bundle_identity dg (tb_parameters b)" and "distinct (map fst (tb_parameters b))"
    and "tbl_get bundle_key (tb_kb b, tb_id b) (save_bundle b t) = Some r"
  shows "distinct (map fst (bu_parameters r)) \<and> map_of (bu_parameters r) = map_of (tb_parameters b)"
proof (cases "tbl_get bundle_key (tb_kb b, tb_id b) t")
  case None
  then have "bu_parameters r = tb_parameters b"
    using assms(6) by (auto simp: save_bundle_def tbl_upsert_def bundle_key_def tbl_get_append)
  then show ?thesis using assms(5) by simp
next
  case (Some s)
  then have "r = s" using assms(6) by (simp add: save_bundle_def tbl_upsert_def bundle_key_def tbl_update_def)
  have s: "s \<in> set t" "bundle_key s = (tb_kb b, tb_id b)" using tbl_get_Some[OF Some] by auto
  then have named: "bundle_identity dg (bu_parameters s) = bu_id s" "distinct (map fst (bu_parameters s))"
    using assms(2) by (simp_all add: content_addressed_def list_all_iff)
  have "bu_id s = bundle_identity dg (tb_parameters b)" using s(2) assms(4) by (simp add: bundle_key_def)
  then have "map_of (bu_parameters s) = map_of (tb_parameters b)"
    using named(1) by (intro identity_inj[OF assms(3) _ named(2) assms(5)]) simp
  then show ?thesis using named(2) \<open>r = s\<close> by simp
qed

lemma applied_row:
  assumes "one_active t" and "tbl_get bundle_key (tb_kb b, tb_id b) (save_bundle b t) = Some r"
  shows "\<exists>r'. active_overlay (tb_kb b) (save_and_apply now who b t) = Some r' \<and>
    bu_parameters r' = bu_parameters r \<and> bu_id r' = tb_id b"
proof -
  let ?t = "save_bundle b t" and ?t' = "save_and_apply now who b t"
  have one: "one_active ?t" using save_refines[OF assms(1)] by simp
  then have refined: "one_active ?t'"
      "overlays_of ?t' = overlay_step (ApplyBundle now who (tb_kb b) (tb_id b)) (overlays_of ?t)"
    using apply_refines by (simp_all add: save_and_apply_def)
  have k: "known (overlays_of ?t) (tb_kb b, tb_id b) = Some (bu_parameters r)"
    using assms(2) by (simp add: overlays_of_def)
  then have "serving (overlays_of ?t') (tb_kb b) = Some (tb_id b)"
    and kn: "known (overlays_of ?t') (tb_kb b, tb_id b) = Some (bu_parameters r)"
    by (simp_all add: refined(2))
  then obtain r' where r': "active_overlay (tb_kb b) ?t' = Some r'" "bu_id r' = tb_id b"
    by (auto simp: overlays_of_def)
  then have mem: "r' \<in> set ?t'" "bundle_key r' = (tb_kb b, tb_id b)"
    using active_overlay_mem[OF r'(1)] by (auto simp: bundle_key_def active_bundle_def)
  then have "tbl_get bundle_key (tb_kb b, tb_id b) ?t' = Some r'"
    using refined(1) by (metis one_active_def tbl_get_mem)
  then show ?thesis using r' kn by (auto simp: overlays_of_def)
qed


text \<open>A digest without collisions\<close>

definition unary_digest :: "pvalues \<Rightarrow> string" where
  "unary_digest values = replicate (to_nat values) CHR ''x''"

lemma inj_unary_digest: "inj unary_digest"
  by (auto simp: inj_on_def unary_digest_def dest: arg_cong[where f = length])

lemma demo_winner:
  assumes "demo_decided = Some (v, Some w)"
  shows "w = demo_trial"
  using assms unfolding demo_decided_def
proof (cases rule: decide_cases)
  case (winner w' metric score c holdout control point)
  then show ?thesis
    using winner_of_best[OF winner(2)] by (simp add: point_of_trial_def demo_trial_def)
qed simp

lemma demo_decided_trial: "\<exists>v. demo_decided = Some (v, Some demo_trial) \<and> dc_outcome v = Promote"
proof -
  obtain v out where d: "demo_decided = Some (v, out)" and promoted: "dc_outcome v = Promote"
    using demo_promotes by auto
  have "out \<noteq> None"
    using d unfolding demo_decided_def
  proof (cases rule: decide_cases)
    case unusable
    then show ?thesis using promoted by (simp add: unusable_def)
  qed simp
  then obtain w where "out = Some w" by blast
  then show ?thesis using d promoted demo_winner by blast
qed

definition demo_resolver :: resolver where
  "demo_resolver = resolver_for DEFAULT_RANKING True"


end
