(* ===== verification/TuningBatch.thy ===== *)
theory TuningBatch
  imports TuningServed
begin

text \<open>
  The trials of a batch: \<open>_evaluate\<close>, \<open>_restore_trial\<close> and the trial loop of \<open>_run\<close>
  (\<open>src/pheasant/tuning/runner.py\<close>) over the stored trials and the cold payloads of
  \<open>src/pheasant/tuning/store.py\<close>.

  A checkpoint that raises ends an attempt between two trials: what a trial had not stored is lost
  with it, so an attempt that stands down, is cancelled or crashes is one over a prefix of the
  proposals. A cold payload is the score it decodes to, by the ref of its file. The identity of a
  trial is the parameter \<open>tid\<close>; an explained search under a point is \<open>explain\<close>, which gives the
  ranked ids and the stages, or \<open>None\<close> when it failed.
\<close>

section \<open>Evaluating a proposal\<close>

record batch_env =
  ev_experiment :: string
  ev_cohort :: cohort
  ev_captures :: "(string \<times> query_stages) list"
  ev_positives :: "(string \<times> string list) list"
  ev_base :: ranking_parameters
  ev_max_results :: int
  ev_indexed :: "(string \<Rightarrow> bool) option"
  ev_max_searches :: int
  ev_writable :: bool
  explain :: "ranking_parameters \<Rightarrow> string \<Rightarrow> (string list \<times> query_stages option) option"
  tid :: "string \<Rightarrow> string \<Rightarrow> string \<Rightarrow> string"
  ev_rnd :: "rat \<Rightarrow> rat"
  ev_fsum :: "rat list \<Rightarrow> rat"

text \<open>The cheap class: every capture that can be re-fused, re-fused under the point\<close>

definition refused_captures ::
  "batch_env \<Rightarrow> ranking_parameters \<Rightarrow> (string \<times> string list \<times> query_stages) list" where
  "refused_captures env r =
     map (\<lambda>(q, st).
         let ids = refuse (ev_rnd env) (list_or (fusion_input (qs_merge st)))
               (int_or (st_max_results (qs_merge st)) (ev_max_results env)) r ARM_ORDER
         in (q, ids, restaged (ev_rnd env) st ids r))
       (filter (\<lambda>(q, st). refusable (qs_merge st)) (ev_captures env))"

text \<open>The other class: a real search for every query of the cohort\<close>

definition requeried ::
  "batch_env \<Rightarrow> ranking_parameters \<Rightarrow> (string \<times> string list \<times> query_stages option) list" where
  "requeried env r =
     List.map_filter (\<lambda>q. map_option (\<lambda>(ids, st). (q, ids, st)) (explain env r q))
       (cohort_queries (ev_cohort env))"

definition dict_of :: "(string \<times> 'a) list \<Rightarrow> (string \<times> 'a) list" where
  "dict_of entries = fold (\<lambda>(k, v). AList.update k v) entries []"

definition attributions_of :: "batch_env \<Rightarrow> (string \<times> query_stages) list \<Rightarrow> attribution list" where
  "attributions_of env stages_of =
     concat (map (\<lambda>(q, st). map (\<lambda>target. attribute st target (ev_max_results env) q (ev_indexed env))
       (list_or (map_of (ev_positives env) q))) stages_of)"

definition evaluate_proposal :: "batch_env \<Rightarrow> proposal \<Rightarrow> trial \<times> nat \<times> cohort_score" where
  "evaluate_proposal env p =
     (let r = apply_point (ev_base env) (pvals (pr_point p));
          cheap = (cost_class p = REFUSION);
          rankings = (if cheap then map (\<lambda>(q, ids, _). (q, ids)) (refused_captures env r)
                      else dict_of (map (\<lambda>(q, ids, _). (q, ids)) (requeried env r)));
          staged = (if cheap then map (\<lambda>(q, _, st). (q, st)) (refused_captures env r)
                    else dict_of (List.map_filter (\<lambda>(q, _, st). map_option (Pair q) st) (requeried env r)));
          searches = (if cheap then 0 else length (cohort_queries (ev_cohort env)));
          score = score_cohort (ev_rnd env) rankings (ev_positives env) []
      in (\<lparr>tr_id = tid env (ev_experiment env) (point_id (pr_point p)) (cohort_id (ev_cohort env)),
           tr_proposal = p, tr_metrics = aggregate (ev_rnd env) (ev_fsum env) score,
           tr_histogram = stage_histogram (ev_rnd env) (attributions_of env staged),
           tr_evaluated = evaluated score, tr_excluded = unevidenced score + length (cs_failed score),
           tr_searches = searches, tr_failed = []\<rparr>, searches, score))"

section \<open>Stored trials\<close>

record trial_row =
  tw_id :: string
  tw_experiment :: string
  tw_point :: string
  tw_cohort :: string
  tw_metrics :: "(string \<times> rat) list"
  tw_histogram :: histogram
  tw_evaluated :: nat
  tw_excluded :: nat
  tw_searches :: nat
  tw_cold :: string
  tw_failed :: string

datatype trial_problem = NoMetrics | NoDenominator | NoStage | NoDelta

definition validate_trial :: "trial \<Rightarrow> trial_problem list" where
  "validate_trial t =
     (if tr_failed t \<noteq> [] then []
      else (if tr_metrics t = [] then [NoMetrics] else [])
        @ (if tr_evaluated t = 0 then [NoDenominator] else [])
        @ (if motivating_stage (tr_proposal t) = [] then [NoStage] else [])
        @ (if parent_id (point_of_trial t) \<noteq> [] \<and> delta (point_of_trial t) = [] then [NoDelta] else []))"

definition row_of_trial :: "string \<Rightarrow> string \<Rightarrow> string \<Rightarrow> trial \<Rightarrow> trial_row" where
  "row_of_trial experiment cohort ref t =
     \<lparr>tw_id = tr_id t, tw_experiment = experiment, tw_point = point_id (point_of_trial t),
      tw_cohort = cohort, tw_metrics = tr_metrics t, tw_histogram = tr_histogram t,
      tw_evaluated = tr_evaluated t, tw_excluded = tr_excluded t, tw_searches = tr_searches t,
      tw_cold = ref, tw_failed = tr_failed t\<rparr>"

definition save_trial ::
  "string \<Rightarrow> string \<Rightarrow> string \<Rightarrow> trial \<Rightarrow> trial_row list \<Rightarrow> trial_row list \<times> trial_problem list" where
  "save_trial experiment cohort ref t rows =
     (if validate_trial t \<noteq> [] then (rows, validate_trial t)
      else (tbl_upsert tw_id (row_of_trial experiment cohort ref t) (\<lambda>_. False) id rows, []))"

definition trial_key :: "string \<Rightarrow> string \<Rightarrow> string" where
  "trial_key point cohort = point @ ''::'' @ cohort"

definition load_trials :: "string \<Rightarrow> trial_row list \<Rightarrow> (string \<times> trial_row) list" where
  "load_trials experiment rows =
     dict_of (map (\<lambda>r. (trial_key (tw_point r) (tw_cohort r), r)) (filter (\<lambda>r. tw_experiment r = experiment) rows))"

section \<open>Cold payloads\<close>

type_synonym cold_store = "(string \<times> cohort_score) list"

text \<open>\<open>CohortScore.from_dict\<close>: the scores that carry a query id, by that id\<close>

definition score_from_dict :: "cohort_score \<Rightarrow> cohort_score" where
  "score_from_dict payload =
     \<lparr>per_query = dict_of (map (\<lambda>(_, s). (sc_query s, s)) (filter (\<lambda>(_, s). sc_query s \<noteq> []) (per_query payload))),
      unevidenced = unevidenced payload, cs_failed = cs_failed payload\<rparr>"

definition cold_path :: "string \<Rightarrow> string \<Rightarrow> string" where
  "cold_path experiment trial_id = experiment @ ''/trial-'' @ trial_id @ ''.jsonl.zst''"

text \<open>\<open>write_cold\<close> gives the ref, or nothing when the volume cannot be written.\<close>

definition write_cold :: "bool \<Rightarrow> string \<Rightarrow> cohort_score \<Rightarrow> cold_store \<Rightarrow> string \<times> cold_store" where
  "write_cold writable path score cold =
     (if writable then (path, AList.update path score cold) else ([], cold))"

definition read_cold :: "string \<Rightarrow> cold_store \<Rightarrow> cohort_score option" where
  "read_cold ref cold = (if ref = [] then None else map_of cold ref)"

definition restore_trial :: "proposal \<Rightarrow> trial_row \<Rightarrow> cold_store \<Rightarrow> (trial \<times> cohort_score) option" where
  "restore_trial p row cold =
     (case map_option score_from_dict (read_cold (tw_cold row) cold) of
        None \<Rightarrow> None
      | Some score \<Rightarrow>
          if per_query score = [] then None
          else Some (\<lparr>tr_id = tw_id row, tr_proposal = p, tr_metrics = tw_metrics row,
            tr_histogram = tw_histogram row, tr_evaluated = tw_evaluated row,
            tr_excluded = tw_excluded row, tr_searches = tw_searches row, tr_failed = []\<rparr>, score))"

section \<open>The trial loop\<close>

record batch_state =
  bs_results :: "(string \<times> trial) list"
  bs_scores :: "(string \<times> cohort_score) list"
  bs_searches :: int
  bs_trials_run :: nat
  bs_rows :: "trial_row list"
  bs_cold :: cold_store

definition add_result :: "string \<Rightarrow> trial \<Rightarrow> cohort_score \<Rightarrow> batch_state \<Rightarrow> batch_state" where
  "add_result pid t score s =
     s\<lparr>bs_results := AList.update pid t (bs_results s), bs_scores := AList.update pid score (bs_scores s)\<rparr>"

definition proposal_key :: "batch_env \<Rightarrow> proposal \<Rightarrow> string" where
  "proposal_key env p = trial_key (point_id (pr_point p)) (cohort_id (ev_cohort env))"

definition run_trial :: "batch_env \<Rightarrow> proposal \<Rightarrow> batch_state \<Rightarrow> batch_state" where
  "run_trial env p s =
     (let (t, used, score) = evaluate_proposal env p;
          (ref, cold) = write_cold (ev_writable env) (cold_path (ev_experiment env) (tr_id t)) score (bs_cold s)
      in (add_result (point_id (pr_point p)) t score s)
           \<lparr>bs_searches := bs_searches s + int used, bs_trials_run := bs_trials_run s + 1, bs_cold := cold,
            bs_rows := fst (save_trial (ev_experiment env) (cohort_id (ev_cohort env)) ref t (bs_rows s))\<rparr>)"

fun trial_loop ::
  "batch_env \<Rightarrow> (string \<times> trial_row) list \<Rightarrow> proposal list \<Rightarrow> batch_state \<Rightarrow> batch_state" where
  "trial_loop env stored [] s = s"
| "trial_loop env stored (p # ps) s =
     (case map_of stored (proposal_key env p) of
        None \<Rightarrow>
          if ev_max_searches env \<le> bs_searches s then s else trial_loop env stored ps (run_trial env p s)
      | Some row \<Rightarrow>
          (case restore_trial p row (bs_cold s) of
             Some (t, score) \<Rightarrow> trial_loop env stored ps (add_result (point_id (pr_point p)) t score s)
           | None \<Rightarrow>
               if cost_class p = REQUERY then trial_loop env stored ps s
               else if ev_max_searches env \<le> bs_searches s then s
               else trial_loop env stored ps (run_trial env p s)))"

text \<open>
  An attempt starts with what is stored, the searches of its own baseline replay, and stops at the
  end of the proposals, at the budget, or at a checkpoint that raises before some proposal.
\<close>

definition attempt ::
  "batch_env \<Rightarrow> proposal list \<Rightarrow> nat \<Rightarrow> trial_row list \<times> cold_store \<Rightarrow> batch_state" where
  "attempt env ps n = (\<lambda>(rows, cold).
     trial_loop env (load_trials (ev_experiment env) rows) (take n ps)
       \<lparr>bs_results = [], bs_scores = [], bs_searches = int (length (cohort_queries (ev_cohort env))),
        bs_trials_run = 0, bs_rows = rows, bs_cold = cold\<rparr>)"

definition left_on_disk :: "batch_state \<Rightarrow> trial_row list \<times> cold_store" where
  "left_on_disk s = (bs_rows s, bs_cold s)"

fun interrupted_attempts ::
  "batch_env \<Rightarrow> proposal list \<Rightarrow> nat list \<Rightarrow> trial_row list \<times> cold_store \<Rightarrow> trial_row list \<times> cold_store" where
  "interrupted_attempts env ps [] disk = disk"
| "interrupted_attempts env ps (n # ns) disk =
     interrupted_attempts env ps ns (left_on_disk (attempt env ps n disk))"

end
