(* ===== verification/TuningResume.thy ===== *)
theory TuningResume
  imports TuningBatch
begin

text \<open>
  What the trial loop of a batch keeps to: its search budget, and that a batch interrupted at any
  points and resumed from what it stored decides what an uninterrupted one decides.
\<close>

section \<open>The budget\<close>

lemma used_searches: "evaluate_proposal env p = (t, used, score) \<Longrightarrow> used \<le> length (cohort_queries (ev_cohort env))"
  by (auto simp: evaluate_proposal_def Let_def)

lemma run_trial_searches:
  "bs_searches (run_trial env p s) \<le> bs_searches s + int (length (cohort_queries (ev_cohort env)))"
proof -
  obtain t used score where e: "evaluate_proposal env p = (t, used, score)" by (cases "evaluate_proposal env p") auto
  show ?thesis using used_searches[OF e]
    by (simp add: run_trial_def e add_result_def split: prod.split)
qed

lemma add_result_keeps:
  "bs_searches (add_result pid t score s) = bs_searches s"
  "bs_rows (add_result pid t score s) = bs_rows s"
  "bs_cold (add_result pid t score s) = bs_cold s"
  "bs_results (add_result pid t score s) = AList.update pid t (bs_results s)"
  "bs_scores (add_result pid t score s) = AList.update pid score (bs_scores s)"
  by (simp_all add: add_result_def)

lemma trial_loop_searches:
  "bs_searches (trial_loop env stored ps s)
     \<le> max (bs_searches s) (ev_max_searches env - 1 + int (length (cohort_queries (ev_cohort env))))"
proof (induction ps arbitrary: s)
  case (Cons p ps)
  have step: "bs_searches (trial_loop env stored ps (run_trial env p s))
      \<le> ev_max_searches env - 1 + int (length (cohort_queries (ev_cohort env)))"
    if "\<not> ev_max_searches env \<le> bs_searches s"
    using Cons.IH[of "run_trial env p s"] run_trial_searches[of env p s] that by linarith
  show ?case
    using Cons.IH[of s] Cons.IH[of "add_result (point_id (pr_point p)) t sc s" for t sc] step
    by (auto simp: add_result_keeps le_max_iff_disj split: option.split)
qed simp

text \<open>
  A batch overruns its search budget by less than one cohort. Whatever was stored and
  wherever it stops, the searches an attempt counts, from its baseline replay to its last trial, are
  at most those of the baseline, or fewer than the configured number of searches and one replay of
  the cohort together: the budget is looked at before a trial, never inside one.
\<close>

theorem searches_stay_near_budget:
  "bs_searches (attempt env ps n disk)
     \<le> max (int (length (cohort_queries (ev_cohort env))))
           (ev_max_searches env - 1 + int (length (cohort_queries (ev_cohort env))))"
  using trial_loop_searches[of env _ "take n ps"] by (simp add: attempt_def case_prod_unfold) (metis batch_state.select_convs(3))

section \<open>Round trips\<close>

abbreviation pid :: "proposal \<Rightarrow> string" where "pid p \<equiv> point_id (pr_point p)"

definition trial_of :: "batch_env \<Rightarrow> proposal \<Rightarrow> trial" where
  "trial_of env p = fst (evaluate_proposal env p)"

definition score_of :: "batch_env \<Rightarrow> proposal \<Rightarrow> cohort_score" where
  "score_of env p = snd (snd (evaluate_proposal env p))"

definition cost_of :: "batch_env \<Rightarrow> proposal \<Rightarrow> int" where
  "cost_of env p = int (fst (snd (evaluate_proposal env p)))"

definition payload_path :: "batch_env \<Rightarrow> proposal \<Rightarrow> string" where
  "payload_path env p = cold_path (ev_experiment env) (tr_id (trial_of env p))"

definition well_keyed :: "cohort_score \<Rightarrow> bool" where
  "well_keyed c \<longleftrightarrow> distinct (map fst (per_query c)) \<and> (\<forall>(q, s) \<in> set (per_query c). sc_query s = q \<and> q \<noteq> [])"

lemma dict_of_id: "distinct (map fst xs) \<Longrightarrow> dict_of xs = xs"
proof -
  have "fold (\<lambda>(k, v). AList.update k v) xs acc = acc @ xs"
    if "distinct (map fst (acc @ xs))" for acc :: "(string \<times> 'a) list"
    using that
  proof (induction xs arbitrary: acc)
    case (Cons x xs)
    obtain k v where x: "x = (k, v)" by force
    have "k \<notin> fst ` set acc" using Cons.prems x by auto
    then have "AList.update k v acc = acc @ [x]" by (induction acc) (auto simp: x)
    then show ?case using Cons.IH[of "acc @ [x]"] Cons.prems x by simp
  qed simp
  from this[of "[]"] show "distinct (map fst xs) \<Longrightarrow> dict_of xs = xs" by (simp add: dict_of_def)
qed

text \<open>A score survives the cold payload.\<close>

lemma score_round_trip:
  assumes "well_keyed c"
  shows "score_from_dict c = c"
proof -
  have "filter (\<lambda>(_, s). sc_query s \<noteq> []) (per_query c) = per_query c"
    using assms by (auto simp: well_keyed_def filter_id_conv)
  moreover have "map (\<lambda>(_, s). (sc_query s, s)) (per_query c) = per_query c"
    using assms by (intro map_idI) (auto simp: well_keyed_def)
  ultimately show ?thesis using assms
    by (cases c) (simp add: score_from_dict_def well_keyed_def dict_of_id)
qed

lemma well_keyed_update:
  assumes "well_keyed c" and "q \<noteq> []"
  shows "well_keyed (c\<lparr>per_query := AList.update q (s\<lparr>sc_query := q\<rparr>) (per_query c)\<rparr>)"
  using assms by (auto simp: well_keyed_def distinct_update dest!: in_updated)

lemma score_rankings_keyed:
  "well_keyed c \<Longrightarrow> \<forall>(q, ids) \<in> set rankings. q \<noteq> [] \<Longrightarrow> well_keyed (score_rankings rnd evidence rankings c)"
proof (induction rnd evidence rankings c rule: score_rankings.induct)
  case (2 rnd evidence query ranked_ids rest c)
  have "well_keyed (c\<lparr>unevidenced := n\<rparr>)" for n using "2.prems" by (simp add: well_keyed_def)
  then show ?case using 2 well_keyed_update[of c query]
    by (cases "query \<in> fst ` set (cs_failed c)";
        cases "score_query rnd ranked_ids (list_or (map_of evidence query))") auto
qed simp

text \<open>Query ids are digests, so none is empty.\<close>

definition named_queries :: "batch_env \<Rightarrow> bool" where
  "named_queries env \<longleftrightarrow> [] \<notin> set (cohort_queries (ev_cohort env)) \<and> [] \<notin> fst ` set (ev_captures env)"

lemma in_dict_of: "e \<in> set (dict_of xs) \<Longrightarrow> e \<in> set xs"
proof -
  have "e \<in> set (fold (\<lambda>(k, v). AList.update k v) xs acc) \<Longrightarrow> e \<in> set xs \<union> set acc" for acc
  proof (induction xs arbitrary: acc)
    case (Cons x xs)
    then show ?case by (cases x) (auto dest!: Cons.IH in_updated)
  qed simp
  from this[of "[]"] show "e \<in> set (dict_of xs) \<Longrightarrow> e \<in> set xs" by (simp add: dict_of_def)
qed

lemma score_cohort_keyed:
  "(\<And>q ids. (q, ids) \<in> set rankings \<Longrightarrow> q \<noteq> []) \<Longrightarrow> well_keyed (score_cohort rnd rankings evidence [])"
  unfolding score_cohort_def by (rule score_rankings_keyed) (auto simp: well_keyed_def)

lemma score_of_keyed:
  assumes "named_queries env"
  shows "well_keyed (score_of env p)"
proof -
  let ?r = "apply_point (ev_base env) (pvals (pr_point p))"
  have cheap: "q \<noteq> []" if "(q, ids) \<in> set (map (\<lambda>(q, ids, _). (q, ids)) (refused_captures env ?r))" for q ids
    using that assms by (force simp: refused_captures_def named_queries_def Let_def)
  have searched: "q \<noteq> []" if "(q, ids) \<in> set (dict_of (map (\<lambda>(q, ids, _). (q, ids)) (requeried env ?r)))" for q ids
    using in_dict_of[OF that] assms by (auto simp: requeried_def named_queries_def map_filter_def)
  have "q \<noteq> []" if "(q, ids) \<in> set (if cost_class p = REFUSION
      then map (\<lambda>(q, ids, _). (q, ids)) (refused_captures env ?r)
      else dict_of (map (\<lambda>(q, ids, _). (q, ids)) (requeried env ?r)))" for q ids
  proof (cases "cost_class p = REFUSION")
    case True
    show ?thesis by (rule cheap[OF that[unfolded if_P[OF True]]])
  next
    case False
    show ?thesis by (rule searched[OF that[unfolded if_not_P[OF False]]])
  qed
  then show ?thesis
    unfolding score_of_def evaluate_proposal_def Let_def snd_conv by (rule score_cohort_keyed)
qed

lemma trial_of_simps:
  "tr_proposal (trial_of env p) = p" "tr_failed (trial_of env p) = []"
  "tr_evaluated (trial_of env p) = length (per_query (score_of env p))"
  by (simp_all add: trial_of_def score_of_def evaluate_proposal_def Let_def evaluated_def)

definition stored_row :: "batch_env \<Rightarrow> proposal \<Rightarrow> trial_row" where
  "stored_row env p = row_of_trial (ev_experiment env) (cohort_id (ev_cohort env)) (payload_path env p) (trial_of env p)"

lemma restored:
  assumes "named_queries env" and "validate_trial (trial_of env p) = []"
    and "map_of cold (payload_path env p) = Some (score_of env p)"
  shows "restore_trial p (stored_row env p) cold = Some (trial_of env p, score_of env p)"
proof -
  have "per_query (score_of env p) \<noteq> []"
    using assms(2) by (auto simp: validate_trial_def trial_of_simps split: if_splits)
  moreover have "read_cold (payload_path env p) cold = Some (score_of env p)"
    using assms(3) by (simp add: read_cold_def payload_path_def cold_path_def)
  ultimately show ?thesis
    using score_round_trip[OF score_of_keyed[OF assms(1)], of p]
    by (simp add: restore_trial_def stored_row_def row_of_trial_def trial_of_simps)
qed

section \<open>What an attempt leaves\<close>

text \<open>
  What is on disk is what evaluating the proposals gives: every stored trial of the experiment is a
  proposal's, with its cold payload.
\<close>

definition disk_right :: "batch_env \<Rightarrow> proposal list \<Rightarrow> trial_row list \<times> cold_store \<Rightarrow> bool" where
  "disk_right env ps = (\<lambda>(rows, cold). \<forall>row \<in> set rows. tw_experiment row = ev_experiment env \<longrightarrow>
     (\<exists>p \<in> set ps. row = stored_row env p \<and> validate_trial (trial_of env p) = [] \<and>
       map_of cold (payload_path env p) = Some (score_of env p)))"

definition separate :: "batch_env \<Rightarrow> proposal list \<Rightarrow> bool" where
  "separate env ps \<longleftrightarrow> distinct (map pid ps) \<and> distinct (map (\<lambda>p. tr_id (trial_of env p)) ps)"

lemma path_inj: "payload_path env p = payload_path env q \<Longrightarrow> tr_id (trial_of env p) = tr_id (trial_of env q)"
  by (simp add: payload_path_def cold_path_def)

lemma separateD:
  assumes "separate env ps" and "p \<in> set ps" and "q \<in> set ps"
  shows "pid p = pid q \<Longrightarrow> p = q" and "payload_path env p = payload_path env q \<Longrightarrow> p = q"
  using assms by (auto simp: separate_def distinct_map inj_on_def dest: path_inj)

definition ran :: "batch_env \<Rightarrow> proposal \<Rightarrow> batch_state \<Rightarrow> batch_state" where
  "ran env p s = (add_result (pid p) (trial_of env p) (score_of env p) s)
     \<lparr>bs_searches := bs_searches s + cost_of env p, bs_trials_run := bs_trials_run s + 1,
      bs_cold := AList.update (payload_path env p) (score_of env p) (bs_cold s),
      bs_rows := fst (save_trial (ev_experiment env) (cohort_id (ev_cohort env)) (payload_path env p)
        (trial_of env p) (bs_rows s))\<rparr>"

lemma run_trial_ran: "ev_writable env \<Longrightarrow> run_trial env p s = ran env p s"
  by (simp add: run_trial_def ran_def write_cold_def payload_path_def trial_of_def score_of_def cost_of_def
      case_prod_unfold Let_def)

lemma ran_simps:
  "bs_results (ran env p s) = AList.update (pid p) (trial_of env p) (bs_results s)"
  "bs_scores (ran env p s) = AList.update (pid p) (score_of env p) (bs_scores s)"
  "bs_searches (ran env p s) = bs_searches s + cost_of env p"
  "map_of (bs_cold (ran env p s)) q = (if q = payload_path env p then Some (score_of env p) else map_of (bs_cold s) q)"
  by (simp_all add: ran_def add_result_keeps map_of_update)

lemma ran_rows: "row \<in> set (bs_rows (ran env p s)) \<Longrightarrow>
    row \<in> set (bs_rows s) \<or> (row = stored_row env p \<and> validate_trial (trial_of env p) = [])"
  by (auto simp: ran_def save_trial_def stored_row_def tbl_upsert_def tbl_update_def split: if_splits)

lemma ran_disk_right:
  assumes "disk_right env ps (left_on_disk s)" and "separate env ps" and "p \<in> set ps"
  shows "disk_right env ps (left_on_disk (ran env p s))"
proof -
  have "\<exists>q \<in> set ps. row = stored_row env q \<and> validate_trial (trial_of env q) = [] \<and>
      map_of (bs_cold (ran env p s)) (payload_path env q) = Some (score_of env q)"
    if mem: "row \<in> set (bs_rows (ran env p s))" and own: "tw_experiment row = ev_experiment env" for row
    using ran_rows[OF mem]
  proof
    assume "row \<in> set (bs_rows s)"
    then obtain q where "q \<in> set ps" "row = stored_row env q" "validate_trial (trial_of env q) = []"
      "map_of (bs_cold s) (payload_path env q) = Some (score_of env q)"
      using assms(1) own by (auto simp: disk_right_def left_on_disk_def)
    then show ?thesis using separateD(2)[OF assms(2) _ assms(3), of q]
      by (intro bexI[of _ q]) (auto simp: ran_simps)
  qed (use assms(3) in \<open>auto simp: ran_simps\<close>)
  then show ?thesis by (simp add: disk_right_def left_on_disk_def)
qed

lemma loaded_row:
  assumes "map_of (load_trials experiment rows) key = Some row"
  shows "row \<in> set rows \<and> tw_experiment row = experiment \<and> trial_key (tw_point row) (tw_cohort row) = key"
  using in_dict_of[OF map_of_SomeD[OF assms[unfolded load_trials_def]]] by auto

text \<open>The rows an attempt loaded, as they stay restorable while it runs\<close>

definition loaded_right :: "batch_env \<Rightarrow> proposal list \<Rightarrow> (string \<times> trial_row) list \<Rightarrow> batch_state \<Rightarrow> bool" where
  "loaded_right env ps stored s \<longleftrightarrow> (\<forall>p \<in> set ps. \<forall>row. map_of stored (proposal_key env p) = Some row \<longrightarrow>
     row = stored_row env p \<and> validate_trial (trial_of env p) = [] \<and>
     map_of (bs_cold s) (payload_path env p) = Some (score_of env p))"

lemma loaded_right_start:
  assumes "disk_right env ps (rows, cold)" and "separate env ps" and "bs_cold s = cold"
  shows "loaded_right env ps (load_trials (ev_experiment env) rows) s"
  unfolding loaded_right_def
proof (intro ballI allI impI)
  fix p row
  assume p: "p \<in> set ps"
    and "map_of (load_trials (ev_experiment env) rows) (proposal_key env p) = Some row"
  then have row: "row \<in> set rows" "tw_experiment row = ev_experiment env"
      "trial_key (tw_point row) (tw_cohort row) = proposal_key env p"
    by (simp_all add: loaded_row)
  then obtain q where q: "q \<in> set ps" "row = stored_row env q" "validate_trial (trial_of env q) = []"
      "map_of cold (payload_path env q) = Some (score_of env q)"
    using assms(1) by (auto simp: disk_right_def)
  then have "pid q = pid p"
    using row(3) by (simp add: stored_row_def row_of_trial_def trial_key_def proposal_key_def
        point_of_trial_def trial_of_simps)
  then have "q = p" using separateD(1)[OF assms(2) q(1) p] by simp
  then show "row = stored_row env p \<and> validate_trial (trial_of env p) = [] \<and>
      map_of (bs_cold s) (payload_path env p) = Some (score_of env p)" using q assms(3) by simp
qed

lemma loaded_right_ran:
  assumes "loaded_right env ps stored s" and "separate env ps" and "p \<in> set ps"
  shows "loaded_right env ps stored (ran env p s)"
  using assms(1) separateD(2)[OF assms(2) _ assms(3)] by (auto simp: loaded_right_def ran_simps)

definition all_costs :: "batch_env \<Rightarrow> proposal list \<Rightarrow> int" where
  "all_costs env ps = sum_list (map (cost_of env) ps)"

lemma cost_nonneg: "0 \<le> cost_of env p" by (simp add: cost_of_def)

lemma trial_loop_direct:
  assumes "ev_writable env" and "named_queries env" and "separate env ps"
    and "set qs \<subseteq> set ps" and "loaded_right env ps stored s" and "disk_right env ps (left_on_disk s)"
    and "bs_searches s + all_costs env qs < ev_max_searches env"
  shows "let e = trial_loop env stored qs s in
    bs_results e = fold (\<lambda>p. AList.update (pid p) (trial_of env p)) qs (bs_results s)
    \<and> bs_scores e = fold (\<lambda>p. AList.update (pid p) (score_of env p)) qs (bs_scores s)
    \<and> disk_right env ps (left_on_disk e)"
  using assms(4-7)
proof (induction qs arbitrary: s)
  case (Cons p qs)
  have p: "p \<in> set ps" using Cons.prems(1) by simp
  have costs: "0 \<le> all_costs env qs" by (auto simp: all_costs_def cost_nonneg intro!: sum_list_nonneg)
  then have room: "bs_searches s < ev_max_searches env" "bs_searches s + all_costs env qs < ev_max_searches env"
    using Cons.prems(4) cost_nonneg[of env p] by (auto simp: all_costs_def)
  show ?case
  proof (cases "map_of stored (proposal_key env p)")
    case None
    have "bs_searches (ran env p s) + all_costs env qs < ev_max_searches env"
      using Cons.prems(4) by (simp add: ran_simps all_costs_def)
    then show ?thesis
      using Cons.IH[of "ran env p s"] Cons.prems(1) room None p run_trial_ran[OF assms(1)]
        loaded_right_ran[OF Cons.prems(2) assms(3) p] ran_disk_right[OF Cons.prems(3) assms(3) p]
      by (simp add: ran_simps)
  next
    case (Some row)
    let ?s = "add_result (pid p) (trial_of env p) (score_of env p) s"
    have "restore_trial p row (bs_cold s) = Some (trial_of env p, score_of env p)"
      using Cons.prems(2) p Some restored[OF assms(2)] unfolding loaded_right_def by blast
    moreover have "loaded_right env ps stored ?s" "disk_right env ps (left_on_disk ?s)"
      using Cons.prems(2,3) by (simp_all add: loaded_right_def left_on_disk_def add_result_keeps)
    ultimately show ?thesis
      using Cons.IH[of ?s] Cons.prems(1) room Some by (simp add: add_result_keeps)
  qed
qed simp

lemma all_costs_take: "all_costs env (take n ps) \<le> all_costs env ps"
proof -
  have "all_costs env ps = all_costs env (take n ps) + all_costs env (drop n ps)"
    unfolding all_costs_def by (metis append_take_drop_id map_append sum_list_append)
  moreover have "0 \<le> all_costs env (drop n ps)"
    by (auto simp: all_costs_def cost_nonneg intro!: sum_list_nonneg)
  ultimately show ?thesis by simp
qed

definition within_budget :: "batch_env \<Rightarrow> proposal list \<Rightarrow> bool" where
  "within_budget env ps \<longleftrightarrow>
     int (length (cohort_queries (ev_cohort env))) + all_costs env ps < ev_max_searches env"

lemma attempt_direct:
  assumes "ev_writable env" and "named_queries env" and "separate env ps" and "within_budget env ps"
    and "disk_right env ps disk"
  shows "let e = attempt env ps n disk in
    bs_results e = fold (\<lambda>p. AList.update (pid p) (trial_of env p)) (take n ps) []
    \<and> bs_scores e = fold (\<lambda>p. AList.update (pid p) (score_of env p)) (take n ps) []
    \<and> disk_right env ps (left_on_disk e)"
proof -
  obtain rows cold where d: "disk = (rows, cold)" by force
  let ?s = "\<lparr>bs_results = [], bs_scores = [], bs_searches = int (length (cohort_queries (ev_cohort env))),
        bs_trials_run = 0, bs_rows = rows, bs_cold = cold\<rparr>"
  have "loaded_right env ps (load_trials (ev_experiment env) rows) ?s"
    using assms(3,5) by (intro loaded_right_start[of _ _ rows cold]) (simp_all add: d)
  moreover have "disk_right env ps (left_on_disk ?s)" using assms(5) by (simp add: d left_on_disk_def)
  moreover have "bs_searches ?s + all_costs env (take n ps) < ev_max_searches env"
    using assms(4) all_costs_take[of env n ps] by (simp add: within_budget_def)
  ultimately show ?thesis
    using trial_loop_direct[OF assms(1-3) set_take_subset[of n ps], of "load_trials (ev_experiment env) rows" ?s]
    by (simp add: attempt_def d)
qed

lemma interrupted_right:
  assumes "ev_writable env" and "named_queries env" and "separate env ps" and "within_budget env ps"
    and "disk_right env ps disk"
  shows "disk_right env ps (interrupted_attempts env ps ns disk)"
  using assms(5)
proof (induction ns arbitrary: disk)
  case (Cons n ns)
  then show ?case using attempt_direct[OF assms(1-4) Cons.prems, of n] by (simp add: Let_def)
qed simp


definition demo_env :: batch_env where
  "demo_env = \<lparr>ev_experiment = ''e'', ev_cohort = \<lparr>cohort_id = ''s'', cohort_queries = [''q'']\<rparr>,
     ev_captures = [], ev_positives = demo_evidence, ev_base = DEFAULT_RANKING, ev_max_results = 10,
     ev_indexed = None, ev_max_searches = 10, ev_writable = True,
     explain = (\<lambda>r q. map_option (\<lambda>ids. (ids, None)) (demo_search r q)),
     tid = (\<lambda>experiment point cohort. point), ev_rnd = id, ev_fsum = sum_list\<rparr>"

definition demo_proposal :: "rat \<Rightarrow> proposal" where
  "demo_proposal k = \<lparr>pr_point = point_of demo_digest [(''rrf_k'', k)]
       (Some (point_of demo_digest [(''rrf_k'', 60)] None)),
     motivating_stage = ''fusion'', cost_class = REQUERY, generation = 0\<rparr>"


end
