(* ===== verification/TuningExperiments.thy ===== *)
theory TuningExperiments
  imports TuningBatch
begin

text \<open>
  Who runs an experiment: the experiment rows of \<open>src/pheasant/tuning/store.py\<close>.

  Stamps are ISO texts and compared as text, as the statements do; NULL is \<open>None\<close>, and
  \<open>COALESCE(h, '')\<close> of it the empty text. A batch's report and diagnosis are opaque texts. Each
  statement is one step; \<open>open_experiment\<close> reads the row first, so what it read is an argument of
  \<open>open_on\<close> beside the table its writes find.
\<close>

section \<open>Experiment rows\<close>

definition RUNNING :: string where "RUNNING = ''running''"
definition COMPLETED :: string where "COMPLETED = ''completed''"
definition EXPERIMENT_FAILED :: string where "EXPERIMENT_FAILED = ''failed''"
definition INTERRUPTED :: string where "INTERRUPTED = ''interrupted''"
definition CANCELLED :: string where "CANCELLED = ''cancelled''"

record experiment_row =
  xp_id :: string
  xp_kb :: string
  xp_status :: string
  xp_phase :: string
  xp_detail :: string
  xp_owner :: string
  xp_attempts :: nat
  xp_started :: string
  xp_finished :: "string option"
  xp_heartbeat :: "string option"
  xp_completed :: int
  xp_total :: int
  xp_searches :: int
  xp_cancel :: bool
  xp_cancel_by :: "string option"
  xp_error :: "string option"
  xp_report :: "string option"
  xp_diagnosis :: "string option"

type_synonym experiments = "experiment_row list"

definition coalesce :: "string option \<Rightarrow> string" where
  "coalesce h = (case h of None \<Rightarrow> [] | Some s \<Rightarrow> s)"

definition new_experiment :: "string \<Rightarrow> string \<Rightarrow> string \<Rightarrow> string \<Rightarrow> experiment_row" where
  "new_experiment now owner kb experiment =
     \<lparr>xp_id = experiment, xp_kb = kb, xp_status = RUNNING, xp_phase = ''starting'', xp_detail = [],
      xp_owner = owner, xp_attempts = 1, xp_started = now, xp_finished = None, xp_heartbeat = None,
      xp_completed = 0, xp_total = 0, xp_searches = 0, xp_cancel = False, xp_cancel_by = None,
      xp_error = None, xp_report = None, xp_diagnosis = None\<rparr>"

text \<open>An \<open>UPDATE\<close>: the table it leaves and whether it changed a row\<close>

definition update_where :: "(experiment_row \<Rightarrow> bool) \<Rightarrow> (experiment_row \<Rightarrow> experiment_row) \<Rightarrow> experiments \<Rightarrow> experiments \<times> bool" where
  "update_where p f t = (tbl_update p f t, list_ex p t)"

definition claim_ended :: "string \<Rightarrow> string \<Rightarrow> string \<Rightarrow> experiments \<Rightarrow> experiments \<times> bool" where
  "claim_ended now owner experiment =
     update_where (\<lambda>r. xp_id r = experiment \<and> xp_status r \<noteq> RUNNING)
       (\<lambda>r. r\<lparr>xp_status := RUNNING, xp_owner := owner, xp_started := now, xp_finished := None,
              xp_error := None, xp_heartbeat := Some now, xp_attempts := xp_attempts r + 1,
              xp_phase := ''starting''\<rparr>)"

definition claim_stale :: "string \<Rightarrow> string \<Rightarrow> string \<Rightarrow> string \<Rightarrow> experiments \<Rightarrow> experiments \<times> bool" where
  "claim_stale now owner stale experiment =
     update_where (\<lambda>r. xp_id r = experiment \<and> xp_status r = RUNNING \<and> coalesce (xp_heartbeat r) \<le> stale)
       (\<lambda>r. r\<lparr>xp_owner := owner, xp_started := now, xp_heartbeat := Some now,
              xp_attempts := xp_attempts r + 1, xp_phase := ''starting''\<rparr>)"

definition open_on ::
  "experiment_row option \<Rightarrow> string \<Rightarrow> string \<Rightarrow> string option \<Rightarrow> string \<Rightarrow> string \<Rightarrow> experiments \<Rightarrow> experiments \<times> bool" where
  "open_on existing now owner stale kb experiment t =
     (case existing of
        None \<Rightarrow>
          (let t' = tbl_upsert xp_id (new_experiment now owner kb experiment) (\<lambda>_. False) id t
           in (t', case tbl_get xp_id experiment t' of None \<Rightarrow> False | Some r \<Rightarrow> xp_owner r = owner))
      | Some r \<Rightarrow>
          if xp_status r = RUNNING \<and>
             (str_or stale [] = [] \<or> (coalesce (xp_heartbeat r) \<noteq> [] \<and> str_or stale [] < coalesce (xp_heartbeat r)))
          then (t, False)
          else (case claim_ended now owner experiment t of
                  (t', True) \<Rightarrow> (t', True)
                | (t', False) \<Rightarrow> claim_stale now owner (str_or stale []) experiment t'))"

definition open_experiment ::
  "string \<Rightarrow> string \<Rightarrow> string option \<Rightarrow> string \<Rightarrow> string \<Rightarrow> experiments \<Rightarrow> experiments \<times> bool" where
  "open_experiment now owner stale kb experiment t =
     open_on (tbl_get xp_id experiment t) now owner stale kb experiment t"

definition or_kept :: "'a option \<Rightarrow> 'a \<Rightarrow> 'a" where
  "or_kept new old = (case new of None \<Rightarrow> old | Some x \<Rightarrow> x)"

definition publish_phase ::
  "string \<Rightarrow> string \<Rightarrow> string \<Rightarrow> string \<Rightarrow> int option \<Rightarrow> int option \<Rightarrow> int option \<Rightarrow> experiments \<Rightarrow> experiments" where
  "publish_phase now experiment phase detail completed whole searches =
     tbl_update (\<lambda>r. xp_id r = experiment)
       (\<lambda>r. r\<lparr>xp_phase := phase, xp_detail := detail, xp_heartbeat := Some now,
              xp_completed := or_kept completed (xp_completed r), xp_total := or_kept whole (xp_total r),
              xp_searches := or_kept searches (xp_searches r)\<rparr>)"

definition request_cancel_experiment :: "string \<Rightarrow> string \<Rightarrow> string \<Rightarrow> experiments \<Rightarrow> experiments \<times> bool" where
  "request_cancel_experiment kb experiment who =
     update_where (\<lambda>r. xp_id r = experiment \<and> xp_kb r = kb \<and> xp_status r = RUNNING)
       (\<lambda>r. r\<lparr>xp_cancel := True, xp_cancel_by := Some who\<rparr>)"

definition experiment_cancelled_by :: "string \<Rightarrow> experiments \<Rightarrow> string" where
  "experiment_cancelled_by experiment t = (case tbl_get xp_id experiment t of
       None \<Rightarrow> []
     | Some r \<Rightarrow> if \<not> xp_cancel r then [] else str_or (xp_cancel_by r) ''a caller'')"

definition heartbeat_experiment :: "string \<Rightarrow> string \<Rightarrow> experiments \<Rightarrow> experiments" where
  "heartbeat_experiment now experiment =
     tbl_update (\<lambda>r. xp_id r = experiment \<and> xp_status r = RUNNING) (\<lambda>r. r\<lparr>xp_heartbeat := Some now\<rparr>)"

definition close_experiment ::
  "string \<Rightarrow> string \<Rightarrow> string \<Rightarrow> string option \<Rightarrow> string option \<Rightarrow> string \<Rightarrow> experiments \<Rightarrow> experiments" where
  "close_experiment now experiment status report diagnosis error =
     tbl_update (\<lambda>r. xp_id r = experiment)
       (\<lambda>r. r\<lparr>xp_status := status, xp_finished := Some now, xp_phase := status, xp_report := report,
              xp_diagnosis := (case diagnosis of None \<Rightarrow> xp_diagnosis r | Some d \<Rightarrow> Some d),
              xp_error := Some error\<rparr>)"

definition stale_row :: "string \<Rightarrow> experiment_row \<Rightarrow> bool" where
  "stale_row stale r \<longleftrightarrow> xp_status r = RUNNING \<and> coalesce (xp_heartbeat r) \<le> stale"

fun reclaim_each :: "string \<Rightarrow> string \<Rightarrow> string list \<Rightarrow> experiments \<Rightarrow> experiments \<times> string list" where
  "reclaim_each now stale [] t = (t, [])"
| "reclaim_each now stale (x # xs) t =
     (let (t', changed) = update_where (\<lambda>r. xp_id r = x \<and> stale_row stale r)
            (\<lambda>r. r\<lparr>xp_status := INTERRUPTED, xp_finished := Some now, xp_phase := INTERRUPTED,
                   xp_error := Some ''the process running this batch stopped''\<rparr>) t;
          (t'', ids) = reclaim_each now stale xs t'
      in (t'', if changed then x # ids else ids))"

definition reclaim_stale_experiments :: "string \<Rightarrow> string \<Rightarrow> string \<Rightarrow> experiments \<Rightarrow> experiments \<times> string list" where
  "reclaim_stale_experiments now kb stale t =
     reclaim_each now stale (map xp_id (filter (\<lambda>r. xp_kb r = kb \<and> stale_row stale r) t)) t"

text \<open>Pruning one experiment: its trials, its decisions (here their experiment and knowledge base) and,
  unless it runs, its row\<close>

definition prune_experiment ::
  "string \<Rightarrow> string \<Rightarrow> experiments \<Rightarrow> trial_row list \<Rightarrow> (string \<times> string) list \<Rightarrow>
     experiments \<times> trial_row list \<times> (string \<times> string) list" where
  "prune_experiment kb experiment t trials decisions =
     (tbl_delete (\<lambda>r. xp_id r = experiment \<and> xp_kb r = kb \<and> xp_status r \<noteq> RUNNING) t,
      tbl_delete (\<lambda>r. tw_experiment r = experiment) trials,
      tbl_delete (\<lambda>(x, k). x = experiment \<and> k = kb) decisions)"

definition latest_first :: "experiments \<Rightarrow> experiments" where
  "latest_first t = rev (sort_key xp_started (rev t))"

definition active_experiment :: "string \<Rightarrow> experiments \<Rightarrow> experiment_row option" where
  "active_experiment kb t = (case latest_first (filter (\<lambda>r. xp_kb r = kb \<and> xp_status r = RUNNING) t) of
       [] \<Rightarrow> None | r # _ \<Rightarrow> Some r)"

definition latest_experiment :: "string \<Rightarrow> experiments \<Rightarrow> experiment_row option" where
  "latest_experiment kb t = (case latest_first (filter (\<lambda>r. xp_kb r = kb) t) of
       [] \<Rightarrow> None | r # _ \<Rightarrow> Some r)"

definition list_experiments :: "string \<Rightarrow> nat \<Rightarrow> experiments \<Rightarrow> experiments" where
  "list_experiments kb limit t = take limit (latest_first (filter (\<lambda>r. xp_kb r = kb) t))"

section \<open>One process runs an experiment\<close>

named_theorems experiment_ops

lemmas [experiment_ops] = claim_ended_def claim_stale_def update_where_def publish_phase_def
  request_cancel_experiment_def heartbeat_experiment_def close_experiment_def

lemma or_empty_coalesce: "str_or v [] = coalesce v"
  by (simp add: str_or_empty coalesce_def)

lemma some_row: "keyed xp_id t \<Longrightarrow>
  list_ex (\<lambda>r. xp_id r = x \<and> p r) t = (case tbl_get xp_id x t of None \<Rightarrow> False | Some r \<Rightarrow> p r)"
  by (auto simp: list_ex_iff tbl_get_None dest: tbl_get_Some tbl_get_mem split: option.splits)

lemma claim_ended_row:
  assumes "keyed xp_id t" and "tbl_get xp_id x t = Some r"
  shows "snd (claim_ended now w x t) \<longleftrightarrow> xp_status r \<noteq> RUNNING"
    and "tbl_get xp_id x (fst (claim_ended now w x t)) =
      Some (if xp_status r \<noteq> RUNNING then r\<lparr>xp_status := RUNNING, xp_owner := w, xp_started := now,
          xp_finished := None, xp_error := None, xp_heartbeat := Some now,
          xp_attempts := xp_attempts r + 1, xp_phase := ''starting''\<rparr> else r)"
  using assms tbl_get_Some[OF assms(2)]
  by (auto simp: experiment_ops some_row tbl_get_update)

lemma claim_stale_row:
  assumes "keyed xp_id t" and "tbl_get xp_id x t = Some r"
  shows "snd (claim_stale now w stale x t) \<longleftrightarrow> stale_row stale r"
    and "tbl_get xp_id x (fst (claim_stale now w stale x t)) =
      Some (if stale_row stale r then r\<lparr>xp_owner := w, xp_started := now, xp_heartbeat := Some now,
          xp_attempts := xp_attempts r + 1, xp_phase := ''starting''\<rparr> else r)"
  using assms tbl_get_Some[OF assms(2)]
  by (auto simp: experiment_ops stale_row_def some_row tbl_get_update)

text \<open>A row that is running and whose beat is younger than the bound is nobody else's to take.\<close>

definition alive :: "string \<Rightarrow> experiment_row \<Rightarrow> bool" where
  "alive stale r \<longleftrightarrow> xp_status r = RUNNING \<and> stale < coalesce (xp_heartbeat r)"

lemma alive_not_stale: "alive stale r \<Longrightarrow> \<not> stale_row stale r"
  by (auto simp: alive_def stale_row_def)

lemma keyed_claim_ended [keyed_intros]: "keyed xp_id t \<Longrightarrow> keyed xp_id (fst (claim_ended now w x t))"
  by (simp add: experiment_ops keyed_update)

lemma tbl_update_none:
  assumes "\<not> list_ex p t" shows "tbl_update p f t = t"
  using assms by (intro tbl_update_id) (auto simp: list_ex_iff)

lemma claim_ended_none:
  assumes "\<not> snd (claim_ended now w x t)" shows "fst (claim_ended now w x t) = t"
  using assms by (simp add: claim_ended_def update_where_def tbl_update_none)

lemma claim_stale_none:
  assumes "\<not> snd (claim_stale now w stale x t)" shows "fst (claim_stale now w stale x t) = t"
  using assms by (simp add: claim_stale_def update_where_def tbl_update_none)

text \<open>Whatever it read before, an opener that finds the row alive loses and changes nothing.\<close>

lemma open_on_alive:
  assumes keyed: "keyed xp_id t" and row: "tbl_get xp_id x t = Some r" and alive: "alive (str_or stale []) r"
    and other: "xp_owner r \<noteq> w"
  shows "open_on existing now w stale kb x t = (t, False)"
proof (cases existing)
  case None
  have "tbl_upsert xp_id (new_experiment now w kb x) (\<lambda>_. False) id t = t"
    using row by (simp add: tbl_upsert_def new_experiment_def tbl_update_def map_idI)
  then show ?thesis using None row other by (simp add: open_on_def Let_def)
next
  case (Some e)
  have ended: "\<not> snd (claim_ended now w x t)"
    using claim_ended_row(1)[OF keyed row] alive by (simp add: alive_def)
  have stale: "\<not> snd (claim_stale now w (str_or stale []) x t)"
    using claim_stale_row(1)[OF keyed row] alive_not_stale[OF alive] by blast
  have "claim_ended now w x t = (t, False)" "claim_stale now w (str_or stale []) x t = (t, False)"
    using ended stale claim_ended_none[OF ended] claim_stale_none[OF stale] by (simp_all add: prod_eq_iff)
  then show ?thesis using Some by (simp add: open_on_def)
qed

text \<open>A win leaves the row to the winner: running, its own, and with a fresh beat unless it is new.\<close>

lemma open_on_won:
  assumes keyed: "keyed xp_id t" and won: "snd (open_on existing now w stale kb x t)"
  shows "\<exists>r. tbl_get xp_id x (fst (open_on existing now w stale kb x t)) = Some r \<and> xp_owner r = w
    \<and> (existing \<noteq> None \<longrightarrow> xp_status r = RUNNING \<and> xp_heartbeat r = Some now)"
proof (cases existing)
  case None
  then show ?thesis using won by (auto simp: open_on_def Let_def split: option.splits)
next
  case (Some e)
  show ?thesis
  proof (cases "tbl_get xp_id x t")
    case missing: None
    have "x \<notin> xp_id ` set t" using missing by (simp add: tbl_get_None)
    then have "\<not> list_ex (\<lambda>r. xp_id r = x \<and> p r) t" for p by (auto simp: list_ex_iff)
    then have "claim_ended now w x t = (t, False)" "claim_stale now w (str_or stale []) x t = (t, False)"
      by (simp_all add: experiment_ops tbl_update_none)
    then show ?thesis using won Some by (simp add: open_on_def split: if_splits)
  next
    case row: (Some r)
    show ?thesis
    proof (cases "snd (claim_ended now w x t)")
      case ended: True
      have "open_on existing now w stale kb x t = claim_ended now w x t"
        using won Some ended
        by (cases "claim_ended now w x t") (auto simp: open_on_def split: if_splits)
      then show ?thesis using claim_ended_row[OF keyed row] ended by auto
    next
      case False
      have "claim_ended now w x t = (t, False)" using False claim_ended_none[OF False] by (simp add: prod_eq_iff)
      then have eq: "open_on existing now w stale kb x t = claim_stale now w (str_or stale []) x t"
        using won Some by (auto simp: open_on_def split: if_splits)
      then show ?thesis using claim_stale_row[OF keyed row] won by (auto simp: stale_row_def)
    qed
  qed
qed

lemma keyed_open_on [keyed_intros]:
  assumes "keyed xp_id t" shows "keyed xp_id (fst (open_on existing now w stale kb x t))"
proof (cases existing)
  case None
  then show ?thesis using keyed_upsert[of xp_id id t] assms by (simp add: open_on_def Let_def)
next
  case (Some e)
  have step: "keyed xp_id u \<Longrightarrow> keyed xp_id (fst (claim_stale now w s x u))" for u s
    by (simp add: experiment_ops keyed_update)
  show ?thesis using Some assms step keyed_claim_ended[OF assms, of now w x]
    by (auto simp: open_on_def split: prod.splits bool.splits)
qed

text \<open>
  Two processes whose openings interleave: both have read the row, or its absence, before either
  writes. When the row existed and the first won after its bound, the second does not win; nor does
  it when neither found a row.
\<close>

theorem open_race_has_one_winner:
  assumes keyed: "keyed xp_id t" and others: "w \<noteq> w'"
    and first: "snd (open_on existing now w stale kb x t)"
    and same: "existing = None \<longrightarrow> existing' = None"
    and bound: "str_or stale' [] < now"
  shows "\<not> snd (open_on existing' now' w' stale' kb x (fst (open_on existing now w stale kb x t)))"
proof -
  let ?t = "fst (open_on existing now w stale kb x t)"
  obtain r where row: "tbl_get xp_id x ?t = Some r" and mine: "xp_owner r = w"
    and fresh: "existing \<noteq> None \<longrightarrow> xp_status r = RUNNING \<and> xp_heartbeat r = Some now"
    using open_on_won[OF keyed first] by blast
  show ?thesis
  proof (cases existing)
    case None
    then have "existing' = None" using same by simp
    moreover have "tbl_upsert xp_id (new_experiment now' w' kb x) (\<lambda>_. False) id ?t = ?t"
      using row by (simp add: tbl_upsert_def new_experiment_def tbl_update_def map_idI)
    ultimately show ?thesis using row mine others by (simp add: open_on_def Let_def)
  next
    case (Some e)
    then have "alive (str_or stale' []) r" using fresh bound by (auto simp: alive_def coalesce_def)
    then show ?thesis
      using open_on_alive[OF keyed_open_on[OF keyed] row] mine others by simp
  qed
qed

text \<open>A batch that beats is left alone by the reclaiming of others.\<close>

lemma reclaim_each_alive:
  assumes "tbl_get xp_id x t = Some r" and "\<not> stale_row stale r"
  shows "tbl_get xp_id x (fst (reclaim_each now stale xs t)) = Some r"
  using assms
proof (induction xs arbitrary: t)
  case (Cons y ys)
  let ?p = "\<lambda>q. xp_id q = y \<and> stale_row stale q"
  have kept: "tbl_get xp_id x (tbl_update ?p f t) = Some r" if same_id: "\<And>q. xp_id (f q) = xp_id q" for f
    using Cons.prems by (simp add: tbl_get_update same_id)
  show ?case
    by (simp add: update_where_def case_prod_beta Cons.IH[OF kept Cons.prems(2)])
qed simp

theorem live_experiment_is_left_alone:
  assumes "keyed xp_id t" and "tbl_get xp_id x t = Some r" and "alive stale r" and "xp_owner r \<noteq> w"
    and "stale \<noteq> []"
  shows "open_experiment now w (Some stale) kb x t = (t, False)"
    and "tbl_get xp_id x (fst (reclaim_stale_experiments now kb' stale t)) = Some r"
  using assms open_on_alive[of t x r "Some stale" w] reclaim_each_alive[of x t r stale] alive_not_stale[of stale r]
  by (simp_all add: open_experiment_def reclaim_stale_experiments_def str_or_def)

section \<open>Where the rows fall short\<close>

text \<open>An insertion leaves the heartbeat NULL, which every bound counts as stale: until its first
  published phase a new batch can be reclaimed, and taken over, at once.\<close>

lemma newborn_experiment_is_taken_over:
  "let (t, won) = open_experiment ''12'' ''a'' (Some ''10'') ''kb'' ''x'' [];
       (t', won') = open_experiment ''13'' ''b'' (Some ''10'') ''kb'' ''x'' t
   in won \<and> won' \<and> reclaim_stale_experiments ''13'' ''kb'' ''10'' t \<noteq> (t, [])"
  by code_simp

text \<open>A request to cancel stays on the row: the batch that reopens it finds it cancelled.\<close>

lemma cancelled_experiment_stays_cancelled:
  "let t = fst (open_experiment ''12'' ''a'' (Some ''10'') ''kb'' ''x'' []);
       t = fst (request_cancel_experiment ''kb'' ''x'' ''me'' t);
       t = close_experiment ''13'' ''x'' CANCELLED None None ''cancelled by me'' t;
       (t, won) = open_experiment ''14'' ''b'' (Some ''11'') ''kb'' ''x'' t
   in won \<and> experiment_cancelled_by ''x'' t = ''me''"
  by code_simp

text \<open>Closing does not look at the owner: a batch that lost its row ends its successor's.\<close>

lemma old_batch_closes_its_successor:
  "let t = fst (open_experiment ''12'' ''a'' (Some ''10'') ''kb'' ''x'' []);
       (t, won) = open_experiment ''14'' ''b'' (Some ''13'') ''kb'' ''x'' t;
       t = close_experiment ''15'' ''x'' EXPERIMENT_FAILED None None ''late'' t
   in won \<and> map (\<lambda>r. (xp_owner r, xp_status r)) t = [(''b'', EXPERIMENT_FAILED)]"
  by code_simp

text \<open>Pruning a running experiment keeps its row and deletes its stored trials.\<close>

lemma pruning_strips_a_running_experiment:
  assumes "keyed xp_id t" and "tbl_get xp_id x t = Some r" and "xp_status r = RUNNING"
  shows "tbl_get xp_id x (fst (prune_experiment kb x t trials decisions)) = Some r"
    and "\<forall>w \<in> set (fst (snd (prune_experiment kb x t trials decisions))). tw_experiment w \<noteq> x"
  using assms by (simp_all add: prune_experiment_def tbl_get_delete) (simp add: tbl_delete_def)

end
