(* ===== verification/TuningGate.thy ===== *)
theory TuningGate
  imports Queue TuningExperiments
begin

text \<open>
  What makes a batch yield: the gate and the checkpoint of \<open>src/pheasant/tuning/executor.py\<close>, over
  the index queue's table.

  The monotonic clock is an argument. A query that raises is \<open>None\<close>. The reason a checkpoint
  raises with is a value of \<open>stop\<close>, not its sentence.
\<close>

section \<open>Yielding\<close>

datatype stop = Cancelled string | StopRequested | QueueBusy int | SyncRunning "string list"

record gate_state =
  max_queue_depth :: int
  respect_sync :: bool
  gate_interval :: rat
  last_checked :: rat
  last_answer :: "stop option"

text \<open>
  \<open>_probe\<close>: the number of tasks in the status \<open>pending\<close> or \<open>claimed\<close>, and the ids of the source
  leases that do not begin with two underscores. No task has the status \<open>claimed\<close>: a claim writes
  \<open>inflight\<close>.
\<close>

definition status_text :: "task_status \<Rightarrow> string" where
  "status_text s = (case s of PENDING \<Rightarrow> ''pending'' | INFLIGHT \<Rightarrow> ''inflight'' | DONE \<Rightarrow> ''done'' | DEAD \<Rightarrow> ''dead'')"

definition waiting_tasks :: "task_table \<Rightarrow> int" where
  "waiting_tasks tbl = int (length (filter (\<lambda>r. status_text (task_row.status r) \<in> {''pending'', ''claimed''}) tbl))"

definition source_leases :: "string list option \<Rightarrow> string list" where
  "source_leases leases = filter (\<lambda>s. take 2 s \<noteq> ''__'') (list_or leases)"

definition sync_answer :: "gate_state \<Rightarrow> string list option \<Rightarrow> stop option" where
  "sync_answer g leases =
     (if respect_sync g \<and> source_leases leases \<noteq> [] then Some (SyncRunning (take 3 (source_leases leases)))
      else None)"

definition probe :: "gate_state \<Rightarrow> task_table option \<Rightarrow> string list option \<Rightarrow> stop option" where
  "probe g tasks leases =
     (case tasks of
        None \<Rightarrow> sync_answer g leases
      | Some tbl \<Rightarrow> if max_queue_depth g \<le> waiting_tasks tbl then Some (QueueBusy (waiting_tasks tbl))
                   else sync_answer g leases)"

definition gate_check ::
  "rat \<Rightarrow> task_table option \<Rightarrow> string list option \<Rightarrow> gate_state \<Rightarrow> gate_state \<times> stop option" where
  "gate_check now tasks leases g =
     (if now - last_checked g < gate_interval g then (g, last_answer g)
      else (let answer = probe g tasks leases in (g\<lparr>last_checked := now, last_answer := answer\<rparr>, answer)))"

text \<open>\<open>checkpoint\<close>: what it raises, if anything. A cancel check that raises counts for none.\<close>

definition executor_checkpoint ::
  "string option \<Rightarrow> bool \<Rightarrow> rat \<Rightarrow> task_table option \<Rightarrow> string list option \<Rightarrow> gate_state option \<Rightarrow>
     gate_state option \<times> stop option" where
  "executor_checkpoint cancel stopped now tasks leases g =
     (if str_or cancel [] \<noteq> [] then (g, Some (Cancelled (str_or cancel [])))
      else if stopped then (g, Some StopRequested)
      else (case g of
              None \<Rightarrow> (None, None)
            | Some gate \<Rightarrow> (let (gate', answer) = gate_check now tasks leases gate in (Some gate', answer))))"

section \<open>When a batch goes on\<close>

text \<open>
  A checkpoint lets a batch go on only when nobody cancelled it, no stop was asked for, and the
  gate, just now or at most an interval ago, found fewer tasks waiting than it allows and, if it
  minds, no source lease.
\<close>

definition region_idle :: "gate_state \<Rightarrow> task_table option \<Rightarrow> string list option \<Rightarrow> bool" where
  "region_idle g tasks leases \<longleftrightarrow>
     (case tasks of None \<Rightarrow> True | Some tbl \<Rightarrow> int (depth tbl PENDING) < max_queue_depth g) \<and>
     (respect_sync g \<longrightarrow> source_leases leases = [])"

lemma waiting_tasks_pending: "waiting_tasks tbl = int (depth tbl PENDING)"
proof -
  have "status_text s \<in> {''pending'', ''claimed''} \<longleftrightarrow> s = PENDING" for s
    by (cases s) (simp_all add: status_text_def)
  then show ?thesis by (simp add: waiting_tasks_def depth_def)
qed

lemma probe_none: "probe g tasks leases = None \<longleftrightarrow> region_idle g tasks leases"
  by (auto simp: probe_def region_idle_def sync_answer_def waiting_tasks_pending split: option.splits)

text \<open>The gate's memory: what it last answered is what the probe said when it last looked.\<close>

inductive gate_history :: "gate_state \<Rightarrow> (rat \<times> task_table option \<times> string list option) list \<Rightarrow> gate_state \<Rightarrow> bool"
  for g where
  unasked: "gate_history g [] g"
| asked: "gate_history g seen g' \<Longrightarrow> \<forall>(t, _) \<in> set seen. t \<le> now \<Longrightarrow>
    gate_history g ((now, tasks, leases) # seen) (fst (gate_check now tasks leases g'))"

lemma gate_settings:
  "gate_history g seen g' \<Longrightarrow> max_queue_depth g' = max_queue_depth g \<and> respect_sync g' = respect_sync g
     \<and> gate_interval g' = gate_interval g"
  by (induction rule: gate_history.induct) (auto simp: gate_check_def Let_def)

lemma region_idle_settings:
  "gate_history g seen g' \<Longrightarrow> region_idle g' = region_idle g"
  using gate_settings[of g seen g'] by (auto simp: region_idle_def fun_eq_iff split: option.splits)

lemma gate_remembers:
  "gate_history g seen g' \<Longrightarrow>
     (last_checked g' = last_checked g \<and> last_answer g' = last_answer g) \<or>
     (\<exists>tasks leases. (last_checked g', tasks, leases) \<in> set seen \<and>
        (last_answer g' = None \<longleftrightarrow> region_idle g tasks leases))"
proof (induction rule: gate_history.induct)
  case (asked seen g' now tasks leases)
  show ?case
  proof (cases "now - last_checked g' < gate_interval g'")
    case True
    then have "fst (gate_check now tasks leases g') = g'" by (simp add: gate_check_def)
    then show ?thesis using asked.IH by (metis insert_iff list.simps(15))
  next
    case False
    then have "last_checked (fst (gate_check now tasks leases g')) = now"
      "last_answer (fst (gate_check now tasks leases g')) = probe g' tasks leases"
      by (simp_all add: gate_check_def Let_def)
    then show ?thesis using probe_none region_idle_settings[OF asked.hyps(1)] by auto
  qed
qed simp

theorem batch_goes_on_only_when_idle:
  assumes history: "gate_history g seen g'" and first: "last_checked g + gate_interval g \<le> now"
    and goes: "snd (executor_checkpoint cancel stopped now tasks leases (Some g')) = None"
  shows "str_or cancel [] = [] \<and> \<not> stopped \<and>
    (\<exists>t tasks' leases'. (t, tasks', leases') \<in> set ((now, tasks, leases) # seen) \<and>
       (t = now \<or> now - t < gate_interval g) \<and> region_idle g tasks' leases')"
proof (intro conjI)
  have answer: "snd (gate_check now tasks leases g') = None" and "str_or cancel [] = []" "\<not> stopped"
    using goes by (auto simp: executor_checkpoint_def Let_def split: if_splits prod.splits)
  then show "str_or cancel [] = []" "\<not> stopped" by auto
  show "\<exists>t tasks' leases'. (t, tasks', leases') \<in> set ((now, tasks, leases) # seen) \<and>
       (t = now \<or> now - t < gate_interval g) \<and> region_idle g tasks' leases'"
  proof (cases "now - last_checked g' < gate_interval g'")
    case cached: True
    then have "last_answer g' = None" using answer by (simp add: gate_check_def)
    then obtain tasks' leases' where "(last_checked g', tasks', leases') \<in> set seen"
      "region_idle g tasks' leases'"
      using gate_remembers[OF history] gate_settings[OF history] cached first by auto
    then show ?thesis using cached gate_settings[OF history] by force
  next
    case False
    then have "region_idle g tasks leases"
      using answer probe_none region_idle_settings[OF history] by (simp add: gate_check_def Let_def)
    then show ?thesis by auto
  qed
qed

text \<open>A task that a worker holds does not count: with the queue's own claim the region looks idle.\<close>

lemma claimed_task_leaves_region_idle:
  "depth tbl PENDING = 0 \<Longrightarrow> 0 < max_queue_depth g \<Longrightarrow> \<not> respect_sync g \<Longrightarrow> probe g (Some tbl) leases = None"
  by (simp add: probe_none region_idle_def)

end
