(* ===== verification/EvalProof.thy ===== *)
theory EvalProof
  imports PyText SqlTable TuningDecision
begin

text \<open>
  Typed evidence (\<open>src/pheasant/evaluation/proof.py\<close>, and of \<open>evaluation/store.py\<close> and
  \<open>evaluation/runner.py\<close> what saves, loads and collects it): the taxonomy, the policy, one proof and
  its identity, the fold into evidence per query and target, and whether there is enough of it.

  A proof is a \<open>proof_row\<close> with what a batch of the tuning plane does not read. Polarities and
  strengths are texts where the code compares texts. Float operations are the exact result rounded
  by \<open>rnd\<close>; the digest of a list of parts is \<open>dg\<close>, the id of a query's text \<open>qid\<close>, the number of
  days between two stamps \<open>days\<close> and a half to a power \<open>half_to\<close>. Stamps are texts, compared as
  the statements do.
\<close>

section \<open>The taxonomy and the policy\<close>

record event_kind =
  ek_polarity :: polarity
  ek_strength :: string
  ek_weight :: rat

definition strength_rank :: "string \<Rightarrow> nat option" where
  "strength_rank s = map_of [(''weak'', 0), (''moderate'', 1), (''strong'', 2), (''conclusive'', 3)] s"

definition DEFAULT_TAXONOMY :: "(string \<times> event_kind) list" where
  "DEFAULT_TAXONOMY =
    [(''considered'', \<lparr>ek_polarity = Unknown, ek_strength = ''weak'', ek_weight = 0\<rparr>),
     (''served'', \<lparr>ek_polarity = Unknown, ek_strength = ''weak'', ek_weight = 0\<rparr>),
     (''included_in_context'', \<lparr>ek_polarity = Unknown, ek_strength = ''moderate'', ek_weight = 0\<rparr>),
     (''cited'', \<lparr>ek_polarity = Positive, ek_strength = ''weak'', ek_weight = 1 / 4\<rparr>),
     (''selected'', \<lparr>ek_polarity = Positive, ek_strength = ''moderate'', ek_weight = 1 / 2\<rparr>),
     (''explicit_accept'', \<lparr>ek_polarity = Positive, ek_strength = ''strong'', ek_weight = 1\<rparr>),
     (''downstream_success'', \<lparr>ek_polarity = Positive, ek_strength = ''strong'', ek_weight = 1\<rparr>),
     (''deterministic_validation_pass'', \<lparr>ek_polarity = Positive, ek_strength = ''conclusive'', ek_weight = 1\<rparr>),
     (''explicit_reject'', \<lparr>ek_polarity = Negative, ek_strength = ''strong'', ek_weight = - 1\<rparr>),
     (''downstream_failure'', \<lparr>ek_polarity = Negative, ek_strength = ''strong'', ek_weight = - 1\<rparr>),
     (''deterministic_validation_fail'', \<lparr>ek_polarity = Negative, ek_strength = ''conclusive'', ek_weight = - 1\<rparr>),
     (''explicit_correction'', \<lparr>ek_polarity = Negative, ek_strength = ''strong'', ek_weight = - 1\<rparr>),
     (''superseded'', \<lparr>ek_polarity = Negative, ek_strength = ''strong'', ek_weight = - 1\<rparr>),
     (''immediate_reformulation'', \<lparr>ek_polarity = Unknown, ek_strength = ''weak'', ek_weight = 0\<rparr>),
     (''not_selected'', \<lparr>ek_polarity = Unknown, ek_strength = ''weak'', ek_weight = 0\<rparr>)]"

definition DEFAULT_STRENGTH_MULTIPLIERS :: "(string \<times> rat) list" where
  "DEFAULT_STRENGTH_MULTIPLIERS = [(''weak'', 1 / 4), (''moderate'', 1 / 2), (''strong'', 1), (''conclusive'', 1)]"

record proof_policy =
  event_weights :: "(string \<times> rat) list"
  strength_multipliers :: "(string \<times> rat) list"
  unknown_is_negative :: bool
  non_selection_is_negative :: bool
  temporal_decay_enabled :: bool
  temporal_half_life_days :: rat
  positive_floor :: rat
  minimum_eligible_queries :: int
  minimum_evidenced_queries :: int
  minimum_independent_interactions :: int
  maximum_single_query_proof_share :: rat

definition weight_of :: "proof_policy \<Rightarrow> string \<Rightarrow> rat" where
  "weight_of policy event =
     (case map_of (event_weights policy) event of
        Some w \<Rightarrow> w
      | None \<Rightarrow> (case map_of DEFAULT_TAXONOMY event of None \<Rightarrow> 0 | Some kind \<Rightarrow> ek_weight kind))"

definition strength_of :: "string \<Rightarrow> string" where
  "strength_of event = (case map_of DEFAULT_TAXONOMY event of None \<Rightarrow> ''weak'' | Some kind \<Rightarrow> ek_strength kind)"

definition polarity_of :: "proof_policy \<Rightarrow> string \<Rightarrow> polarity" where
  "polarity_of policy event =
     (case map_of DEFAULT_TAXONOMY event of
        None \<Rightarrow> Unknown
      | Some kind \<Rightarrow> if event = ''not_selected'' \<and> non_selection_is_negative policy then Negative
                     else ek_polarity kind)"

text \<open>\<open>dict.update\<close>\<close>

definition dict_update :: "(string \<times> 'a) list \<Rightarrow> (string \<times> 'a) list \<Rightarrow> (string \<times> 'a) list" where
  "dict_update d new = fold (\<lambda>(k, v). AList.update k v) new d"

definition default_proof_policy :: proof_policy where
  "default_proof_policy =
     \<lparr>event_weights = map (\<lambda>(k, kind). (k, ek_weight kind)) DEFAULT_TAXONOMY,
      strength_multipliers = DEFAULT_STRENGTH_MULTIPLIERS, unknown_is_negative = False,
      non_selection_is_negative = False, temporal_decay_enabled = False, temporal_half_life_days = 180,
      positive_floor = 1 / 5, minimum_eligible_queries = 10, minimum_evidenced_queries = 5,
      minimum_independent_interactions = 5, maximum_single_query_proof_share = 1 / 2\<rparr>"

definition policy_from_config :: "proof_policy option \<Rightarrow> proof_policy" where
  "policy_from_config settings =
     (case settings of
        None \<Rightarrow> default_proof_policy
      | Some s \<Rightarrow> s\<lparr>event_weights := dict_update (event_weights default_proof_policy) (event_weights s),
                    strength_multipliers := dict_update DEFAULT_STRENGTH_MULTIPLIERS (strength_multipliers s)\<rparr>)"

section \<open>One proof\<close>

record typed_proof = proof_row +
  pr_kb :: string
  pr_type :: string
  pr_event :: string
  pr_strength :: string
  pr_interaction :: "string option"
  pr_position :: "nat option"
  pr_exposed :: bool

definition weigh_event ::
  "(rat \<Rightarrow> rat) \<Rightarrow> (string \<Rightarrow> string \<Rightarrow> rat) \<Rightarrow> (rat \<Rightarrow> rat) \<Rightarrow> proof_policy \<Rightarrow> string \<Rightarrow> string \<Rightarrow> string \<Rightarrow> rat \<Rightarrow> rat" where
  "weigh_event rnd days half_to policy event observed now source_reliability =
     (let w_type = weight_of policy event;
          w_strength = (case map_of (strength_multipliers policy) (strength_of event) of None \<Rightarrow> 1 | Some m \<Rightarrow> m);
          w_temporal = (if temporal_decay_enabled policy \<and> observed \<noteq> []
            then half_to (rnd (days now observed / max (1 / 1000000) (temporal_half_life_days policy))) else 1)
      in round6 rnd (rnd (rnd (rnd (w_type * w_strength) * w_temporal) * source_reliability)))"

record proof_call =
  pc_kb :: string
  pc_query :: string
  pc_type :: string
  pc_target :: string
  pc_event :: string
  pc_observed :: "string option"
  pc_interaction :: "string option"
  pc_position :: "nat option"
  pc_exposed :: bool

text \<open>What \<open>make_proof\<close> digests: the occasion is the interaction, or else the clock.\<close>

definition proof_parts :: "proof_call \<Rightarrow> string \<Rightarrow> string list" where
  "proof_parts c observed =
     [pc_kb c, pc_query c, pc_type c, pc_target c, pc_event c, str_or (pc_interaction c) [],
      if str_or (pc_interaction c) [] = [] then observed else [],
      case pc_position c of None \<Rightarrow> [] | Some n \<Rightarrow> nat_text n]"

definition make_proof ::
  "(rat \<Rightarrow> rat) \<Rightarrow> (string \<Rightarrow> string \<Rightarrow> rat) \<Rightarrow> (rat \<Rightarrow> rat) \<Rightarrow> (string list \<Rightarrow> string) \<Rightarrow>
     proof_policy \<Rightarrow> string \<Rightarrow> proof_call \<Rightarrow> typed_proof" where
  "make_proof rnd days half_to dg policy now c =
     (let observed = str_or (pc_observed c) now in
      \<lparr>pf_id = ''proof-'' @ dg (proof_parts c observed), pf_query = pc_query c, pf_target = pc_target c,
       pf_polarity = polarity_of policy (pc_event c),
       pf_weight = weigh_event rnd days half_to policy (pc_event c) observed now 1,
       pf_observed = observed, pr_kb = pc_kb c, pr_type = pc_type c, pr_event = pc_event c,
       pr_strength = strength_of (pc_event c), pr_interaction = pc_interaction c,
       pr_position = pc_position c, pr_exposed = pc_exposed c\<rparr>)"

text \<open>\<open>save_proofs\<close>: one insertion each, an existing id left as it is; \<open>accepts\<close> is the database
  taking the row. What it returns counts the statements that ran.\<close>

definition save_proofs :: "(typed_proof \<Rightarrow> bool) \<Rightarrow> typed_proof list \<Rightarrow> typed_proof list \<Rightarrow> typed_proof list \<times> nat" where
  "save_proofs accepts proofs t =
     (fold (\<lambda>p t. tbl_upsert pf_id p (\<lambda>_. False) id t) (filter accepts proofs) t,
      length (filter accepts proofs))"

section \<open>What is collected\<close>

definition load_proofs_before ::
  "typed_proof list \<Rightarrow> string \<Rightarrow> string list option \<Rightarrow> string option \<Rightarrow> nat \<Rightarrow> typed_proof list" where
  "load_proofs_before rows kb query_ids before limit =
     (let eligible = (\<lambda>p. pr_kb p = kb \<and> (str_or before [] \<noteq> [] \<longrightarrow> pf_observed p \<le> str_or before []));
          ordered_rows = (\<lambda>rs. take limit (sort_key (\<lambda>p. (pf_observed p, pf_id p)) rs))
      in case query_ids of
           None \<Rightarrow> ordered_rows (filter eligible rows)
         | Some ids \<Rightarrow> concat (map (\<lambda>batch. ordered_rows (filter (\<lambda>p. eligible p \<and> pf_query p \<in> set batch) rows))
             (in_batches 400 ids)))"

record ledger_row =
  lr_id :: string
  lr_kb :: string
  lr_query :: "string option"
  lr_started :: string
  lr_results :: "string list option"

definition ledger_order :: "ledger_row \<Rightarrow> string \<times> string" where
  "ledger_order r = (lr_started r, lr_id r)"

definition served_calls :: "(string \<Rightarrow> string) \<Rightarrow> string \<Rightarrow> ledger_row \<Rightarrow> proof_call list" where
  "served_calls qid kb r =
     map (\<lambda>(position, target).
        \<lparr>pc_kb = kb, pc_query = qid (str_or (lr_query r) []), pc_type = ''artifact'', pc_target = target,
         pc_event = ''served'', pc_observed = Some (lr_started r), pc_interaction = Some (lr_id r),
         pc_position = Some position, pc_exposed = True\<rparr>)
       (enumerate 1 (list_or (lr_results r)))"

definition project_from_interactions ::
  "(proof_call \<Rightarrow> typed_proof) \<Rightarrow> (string \<Rightarrow> string) \<Rightarrow> string \<Rightarrow> string option \<Rightarrow> nat \<Rightarrow> ledger_row list \<Rightarrow> typed_proof list" where
  "project_from_interactions mk qid kb since limit rows =
     concat (map (\<lambda>r. map mk (served_calls qid kb r))
       (take limit (sort_key ledger_order
         (filter (\<lambda>r. lr_kb r = kb \<and> str_or (lr_query r) [] \<noteq> [] \<and>
           (str_or since [] \<noteq> [] \<longrightarrow> str_or since [] \<le> lr_started r)) rows))))"

text \<open>A memory candidate; its evidence is \<open>None\<close> when the stored text does not parse.\<close>

record memory_candidate =
  ca_id :: string
  ca_rule :: string
  ca_kind :: "string option"
  ca_scope :: "string option"
  ca_text :: "string option"
  ca_record :: "string option"
  ca_evidence :: "(string option \<times> string list) option"
  ca_first_seen :: "string option"
  ca_last_seen :: "string option"
  ca_decided :: "string option"

definition project_from_admitted_candidates ::
  "(proof_call \<Rightarrow> typed_proof) \<Rightarrow> (string \<Rightarrow> string) \<Rightarrow> string \<Rightarrow> memory_candidate list \<Rightarrow> typed_proof list" where
  "project_from_admitted_candidates mk qid kb candidates =
     concat (map (\<lambda>c. case ca_evidence c of
         None \<Rightarrow> []
       | Some (query, _) \<Rightarrow>
           if str_or (ca_record c) [] = [] \<or> str_or query [] = [] then []
           else [mk \<lparr>pc_kb = kb, pc_query = qid (str_or query []), pc_type = ''memory'',
                 pc_target = str_or (ca_record c) [], pc_event = ''explicit_accept'',
                 pc_observed = Some (str_or (ca_decided c) (str_or (ca_last_seen c) [])),
                 pc_interaction = None, pc_position = None, pc_exposed = True\<rparr>]) candidates)"

definition collect_proof_before ::
  "typed_proof list \<Rightarrow> typed_proof list \<Rightarrow> typed_proof list \<Rightarrow> string \<Rightarrow> string option \<Rightarrow> string list \<Rightarrow> typed_proof list" where
  "collect_proof_before rows derived admitted_candidates kb before query_ids =
     (let recorded = load_proofs_before rows kb (Some query_ids) before 100000;
          extra = filter (\<lambda>p. pf_query p \<in> set query_ids \<and>
            (str_or before [] = [] \<or> pf_observed p = [] \<or> pf_observed p \<le> str_or before [])) (derived @ admitted_candidates)
      in recorded @ filter (\<lambda>p. pf_id p \<notin> pf_id ` set recorded) extra)"

section \<open>The evidence about a target\<close>

record full_evidence =
  fe_positive :: rat
  fe_negative :: rat
  fe_ids :: "string list"
  fe_events :: "string list"
  fe_best :: string
  fe_exposures :: nat

definition no_evidence :: full_evidence where
  "no_evidence = \<lparr>fe_positive = 0, fe_negative = 0, fe_ids = [], fe_events = [], fe_best = ''weak'', fe_exposures = 0\<rparr>"

definition better_strength :: "string \<Rightarrow> string \<Rightarrow> string" where
  "better_strength new best =
     (case (strength_rank new, strength_rank best) of
        (Some a, Some b) \<Rightarrow> if a > b then new else best
      | _ \<Rightarrow> best)"

definition add_proof :: "(rat \<Rightarrow> rat) \<Rightarrow> bool \<Rightarrow> typed_proof \<Rightarrow> full_evidence \<Rightarrow> full_evidence" where
  "add_proof rnd unknown_negative p t =
     (let add = (\<lambda>x. round6 rnd (rnd (x + \<bar>pf_weight p\<bar>)));
          t' = t\<lparr>fe_ids := fe_ids t @ [pf_id p], fe_events := fe_events t @ [pr_event p],
                 fe_exposures := fe_exposures t + (if pr_exposed p then 1 else 0),
                 fe_best := better_strength (pr_strength p) (fe_best t)\<rparr>
      in case pf_polarity p of
           Positive \<Rightarrow> t'\<lparr>fe_positive := add (fe_positive t')\<rparr>
         | Negative \<Rightarrow> t'\<lparr>fe_negative := add (fe_negative t')\<rparr>
         | Unknown \<Rightarrow> if unknown_negative then t'\<lparr>fe_negative := add (fe_negative t')\<rparr> else t')"

type_synonym query_evidence = "(string \<times> full_evidence) list"

fun aggregate_typed ::
  "(rat \<Rightarrow> rat) \<Rightarrow> bool \<Rightarrow> typed_proof list \<Rightarrow> (string \<times> query_evidence) list \<Rightarrow> (string \<times> query_evidence) list" where
  "aggregate_typed rnd unknown_negative [] out = out"
| "aggregate_typed rnd unknown_negative (p # ps) out =
     (let targets = list_or (map_of out (pf_query p));
          t = (case map_of targets (pf_target p) of None \<Rightarrow> no_evidence | Some t \<Rightarrow> t)
      in aggregate_typed rnd unknown_negative ps
           (AList.update (pf_query p)
             (AList.update (pf_target p) (add_proof rnd unknown_negative p t) targets) out))"

definition net :: "(rat \<Rightarrow> rat) \<Rightarrow> full_evidence \<Rightarrow> rat" where
  "net rnd t = round6 rnd (rnd (fe_positive t - fe_negative t))"

definition positive_ids :: "(rat \<Rightarrow> rat) \<Rightarrow> rat \<Rightarrow> query_evidence \<Rightarrow> string list" where
  "positive_ids rnd least ts = sort (map fst (filter (\<lambda>(_, t). least \<le> net rnd t) ts))"

definition negative_ids :: "(rat \<Rightarrow> rat) \<Rightarrow> rat \<Rightarrow> query_evidence \<Rightarrow> string list" where
  "negative_ids rnd least ts = sort (map fst (filter (\<lambda>(_, t). net rnd t \<le> - least) ts))"

definition judged_ids :: "(rat \<Rightarrow> rat) \<Rightarrow> rat \<Rightarrow> query_evidence \<Rightarrow> string set" where
  "judged_ids rnd least ts = set (positive_ids rnd least ts) \<union> set (negative_ids rnd least ts)"

definition utility :: "(rat \<Rightarrow> rat) \<Rightarrow> query_evidence \<Rightarrow> string \<Rightarrow> rat" where
  "utility rnd ts target = (case map_of ts target of None \<Rightarrow> 0 | Some t \<Rightarrow> net rnd t)"

definition evidence_ids :: "query_evidence \<Rightarrow> string list" where
  "evidence_ids ts = sort (remdups (concat (map (\<lambda>(_, t). fe_ids t) ts)))"

definition conflicted :: "rat \<Rightarrow> full_evidence \<Rightarrow> bool" where
  "conflicted least t \<longleftrightarrow> least \<le> fe_positive t \<and> least \<le> fe_negative t"

definition conflict_rate :: "proof_policy \<Rightarrow> (string \<times> query_evidence) list \<Rightarrow> nat \<times> nat" where
  "conflict_rate policy evidence =
     (let proved = filter (\<lambda>(_, t). fe_positive t \<noteq> 0 \<or> fe_negative t \<noteq> 0) (concat (map snd evidence))
      in (length (filter (\<lambda>(_, t). conflicted (positive_floor policy) t) proved), length proved))"

section \<open>Whether there is enough\<close>

datatype shortage = FewEligible | FewEvidenced | FewInteractions | OneQueryDominates

record sufficiency =
  su_eligible :: nat
  su_evidenced :: nat
  su_interactions :: nat
  su_share :: rat
  su_reasons :: "shortage list"

definition judged_counts :: "typed_proof list \<Rightarrow> (string \<times> nat) list" where
  "judged_counts proofs =
     (let judged = filter (\<lambda>p. pf_polarity p \<noteq> Unknown) proofs
      in map (\<lambda>q. (q, length (filter (\<lambda>p. pf_query p = q) judged))) (dict_fromkeys (map pf_query judged)))"

definition assess_sufficiency ::
  "(rat \<Rightarrow> rat) \<Rightarrow> proof_policy \<Rightarrow> string list \<Rightarrow> (string \<times> query_evidence) list \<Rightarrow> typed_proof list \<Rightarrow> sufficiency" where
  "assess_sufficiency rnd policy eligible evidence proofs =
     (let evidenced = length (filter (\<lambda>q. case map_of evidence q of
              None \<Rightarrow> False
            | Some ts \<Rightarrow> positive_ids rnd (positive_floor policy) ts \<noteq> [] \<or> negative_ids rnd (positive_floor policy) ts \<noteq> [])
            eligible);
          interactions = length (dict_fromkeys (filter (\<lambda>i. i \<noteq> []) (map (\<lambda>p. str_or (pr_interaction p) []) proofs)));
          counts = map snd (judged_counts proofs);
          judged_total = sum_list counts;
          share = (if judged_total = 0 then 0 else rnd (of_nat (Max (set counts)) / of_nat judged_total));
          reasons = (if int (length eligible) < minimum_eligible_queries policy then [FewEligible] else [])
            @ (if int evidenced < minimum_evidenced_queries policy then [FewEvidenced] else [])
            @ (if int interactions < minimum_independent_interactions policy then [FewInteractions] else [])
            @ (if judged_total \<noteq> 0 \<and> maximum_single_query_proof_share policy < share then [OneQueryDominates] else [])
      in \<lparr>su_eligible = length eligible, su_evidenced = evidenced, su_interactions = interactions,
          su_share = share, su_reasons = reasons\<rparr>)"

end
