(* ===== verification/EvalReplay.thy ===== *)
theory EvalReplay
  imports EvalProof
begin

text \<open>
  Replaying a cohort under a variant of the retrieval (\<open>src/pheasant/evaluation/replay.py\<close>), the
  matrix of variants (\<open>evaluation/variants.py\<close>) and the records of both
  (\<open>evaluation/contracts.py\<close>).

  A search is the parameter \<open>search\<close>: what it returns for a call, and how long it took, or \<open>None\<close>
  for its items when it raised. A dict is an association list in insertion order. Paths, scores,
  the stages and the steering a payload reports are not kept.
\<close>

section \<open>Variants\<close>

record variant =
  va_id :: string
  va_memory :: string
  va_kinds :: "string list"
  va_tiers :: "string list option"
  va_baseline :: "string option"
  va_candidates :: "string list"
  va_excluded :: "string list"

definition VARIANT_STEERING_KINDS :: "string list" where
  "VARIANT_STEERING_KINDS = [''alias'', ''preference'', ''exclusion'']"

definition CORPUS_BASELINE :: string where "CORPUS_BASELINE = ''B0''"

definition matrix_row :: "string \<Rightarrow> string \<Rightarrow> string list \<Rightarrow> string option \<Rightarrow> string list \<Rightarrow> variant" where
  "matrix_row vid memory kinds baseline cands =
     \<lparr>va_id = vid, va_memory = memory, va_kinds = kinds, va_tiers = None, va_baseline = baseline,
      va_candidates = cands, va_excluded = []\<rparr>"

definition default_matrix :: "string list \<Rightarrow> variant list" where
  "default_matrix cands =
     [matrix_row ''B0'' ''off'' [] None [],
      matrix_row ''B1'' ''auto'' [] (Some CORPUS_BASELINE) [],
      matrix_row ''B2'' ''off'' [''alias''] (Some CORPUS_BASELINE) [],
      matrix_row ''B3'' ''off'' [''preference''] (Some CORPUS_BASELINE) [],
      matrix_row ''B4'' ''off'' [''exclusion''] (Some CORPUS_BASELINE) [],
      matrix_row ''B5'' ''auto'' VARIANT_STEERING_KINDS (Some CORPUS_BASELINE) []]
     @ (if cands = [] then [] else [matrix_row ''B6'' ''auto'' VARIANT_STEERING_KINDS (Some ''B5'') (sort cands)])"

definition leave_one_out :: "variant \<Rightarrow> string \<Rightarrow> variant" where
  "leave_one_out base record_id =
     base\<lparr>va_id := va_id base @ ''-loo-'' @ record_id, va_baseline := Some (va_id base),
          va_candidates := [], va_excluded := [record_id]\<rparr>"

definition leave_one_cluster_out :: "variant \<Rightarrow> string \<Rightarrow> string list \<Rightarrow> variant" where
  "leave_one_cluster_out base cluster_id record_ids =
     base\<lparr>va_id := va_id base @ ''-loco-'' @ cluster_id, va_baseline := Some (va_id base),
          va_candidates := [], va_excluded := sort record_ids\<rparr>"

definition tier_comparison :: "variant \<Rightarrow> variant" where
  "tier_comparison base =
     base\<lparr>va_id := va_id base @ ''-cold'', va_tiers := Some [''hot'', ''cold''], va_baseline := Some (va_id base),
          va_candidates := [], va_excluded := []\<rparr>"

record variant_settings =
  vs_memory_content :: bool
  vs_alias_only :: bool
  vs_preference_only :: bool
  vs_exclusion_only :: bool
  vs_full_memory :: bool
  vs_candidate_shadow :: bool

definition wanted_variant :: "variant_settings \<Rightarrow> string list \<Rightarrow> string \<Rightarrow> bool" where
  "wanted_variant s cands vid =
     (case map_of [(''B0'', True), (''B1'', vs_memory_content s), (''B2'', vs_alias_only s),
        (''B3'', vs_preference_only s), (''B4'', vs_exclusion_only s), (''B5'', vs_full_memory s),
        (''B6'', vs_candidate_shadow s \<and> cands \<noteq> [])] vid of None \<Rightarrow> True | Some b \<Rightarrow> b)"

definition selected_matrix :: "variant_settings option \<Rightarrow> string list \<Rightarrow> variant list" where
  "selected_matrix settings cands =
     (case settings of None \<Rightarrow> default_matrix cands
      | Some s \<Rightarrow> filter (\<lambda>v. wanted_variant s cands (va_id v)) (default_matrix cands))"

section \<open>Queries\<close>

datatype expectation_kind = StaleCurrent | TemporalAsOf | AclIsolation | Abstention

record expectation =
  ex_kind :: expectation_kind
  ex_as_of :: "string option"
  ex_principal :: "string option"
  ex_forbidden :: string
  ex_expected :: string
  ex_results :: int

record evaluated_query =
  eq_id :: string
  eq_text :: string
  eq_occurred :: "string option"
  eq_asked :: nat
  eq_expectation :: "expectation option"

record eval_cohort =
  ec_id :: string
  ec_name :: string
  ec_purpose :: string
  ec_queries :: "evaluated_query list"
  ec_created :: string
  ec_frozen :: bool

definition query_ids :: "eval_cohort \<Rightarrow> string list" where
  "query_ids c = map eq_id (ec_queries c)"

section \<open>Replaying\<close>

definition OVERFETCH :: int where "OVERFETCH = 3"

record memory_request =
  mq_mode :: string
  mq_tiers :: "string list option"
  mq_as_of :: "string option"
  mq_current_only :: "bool option"

record shadow_rule =
  sr_id :: string
  sr_scope :: string
  sr_kind :: string
  sr_text :: string
  sr_from :: string

definition shadow_records :: "memory_candidate list \<Rightarrow> string \<Rightarrow> shadow_rule list" where
  "shadow_records cands now =
     map (\<lambda>c. \<lparr>sr_id = str_or (Some (ca_id c)) (str_or (ca_record c) []), sr_scope = str_or (ca_scope c) ''org'',
        sr_kind = str_or (ca_kind c) [], sr_text = str_or (ca_text c) [], sr_from = str_or (ca_first_seen c) now\<rparr>)
       (filter (\<lambda>c. str_or (ca_kind c) [] \<in> set VARIANT_STEERING_KINDS) cands)"

record search_call =
  sq_text :: string
  sq_fetch :: int
  sq_principal :: "string option"
  sq_memory :: memory_request
  sq_kinds :: "string list"
  sq_extra :: "shadow_rule list option"

record search_item =
  si_node :: "string option"
  si_chunk :: "string option"
  si_record :: "string option"
  si_arms :: "string list"

record query_replay =
  qr_query :: string
  qr_variant :: string
  qr_text :: string
  ranked_ids :: "string list"
  memory_record_ids :: "string list"
  contributing_arms :: "(string \<times> string list) list"
  result_count :: nat
  duration_ms :: rat
  qr_failed :: string

definition failed_replay :: "query_replay \<Rightarrow> bool" where
  "failed_replay r \<longleftrightarrow> qr_failed r \<noteq> []"

definition top_ids :: "query_replay \<Rightarrow> nat \<Rightarrow> string list" where
  "top_ids r k = take k (ranked_ids r)"

fun index_of :: "nat \<Rightarrow> string \<Rightarrow> string list \<Rightarrow> nat option" where
  "index_of i x [] = None"
| "index_of i x (y # ys) = (if y = x then Some i else index_of (i + 1) x ys)"

definition rank_of :: "query_replay \<Rightarrow> string \<Rightarrow> nat option" where
  "rank_of r target = index_of 1 target (ranked_ids r)"

record replay_engine =
  re_max_results :: int
  re_shadow :: "memory_candidate list"

definition make_engine :: "int \<Rightarrow> memory_candidate list \<Rightarrow> replay_engine" where
  "make_engine max_results shadow = \<lparr>re_max_results = max 1 max_results, re_shadow = shadow\<rparr>"

definition memory_policy :: "variant \<Rightarrow> evaluated_query \<Rightarrow> memory_request" where
  "memory_policy v q =
     (let as_of = (case eq_expectation q of None \<Rightarrow> [] | Some e \<Rightarrow> str_or (ex_as_of e) []) in
      \<lparr>mq_mode = va_memory v, mq_tiers = (if list_or (va_tiers v) = [] then None else va_tiers v),
       mq_as_of = (if as_of = [] then None else Some as_of),
       mq_current_only = (if as_of = [] then None else Some False)\<rparr>)"

definition item_id :: "search_item \<Rightarrow> string" where
  "item_id i = str_or (si_node i) (str_or (si_chunk i) [])"

definition kept_items :: "replay_engine \<Rightarrow> variant \<Rightarrow> search_item list \<Rightarrow> search_item list" where
  "kept_items e v items =
     filter (\<lambda>i. item_id i \<noteq> []) (take (nat (re_max_results e))
       (filter (\<lambda>i. va_excluded v = [] \<or> str_or (si_record i) [] \<notin> set (va_excluded v)) items))"

definition the_call :: "replay_engine \<Rightarrow> variant \<Rightarrow> evaluated_query \<Rightarrow> search_call" where
  "the_call e v q =
     \<lparr>sq_text = eq_text q,
      sq_fetch = (if va_excluded v = [] then re_max_results e else re_max_results e * OVERFETCH),
      sq_principal = (case eq_expectation q of None \<Rightarrow> None | Some x \<Rightarrow> ex_principal x),
      sq_memory = memory_policy v q, sq_kinds = va_kinds v,
      sq_extra = (if va_candidates v = [] then None else Some (shadow_records (re_shadow e) (str_or (eq_occurred q) [])))\<rparr>"

definition replay_query ::
  "(search_call \<Rightarrow> (search_item list, string) sum \<times> rat) \<Rightarrow> replay_engine \<Rightarrow> variant \<Rightarrow> evaluated_query \<Rightarrow> query_replay" where
  "replay_query search e v q =
     (let (answer, took) = search (the_call e v q);
          blank = \<lparr>qr_query = eq_id q, qr_variant = va_id v, qr_text = eq_text q, ranked_ids = [], memory_record_ids = [],
            contributing_arms = [], result_count = 0, duration_ms = took, qr_failed = []\<rparr>
      in case answer of
           Inr err \<Rightarrow> blank\<lparr>qr_failed := err\<rparr>
         | Inl items \<Rightarrow>
             (let kept = kept_items e v items in
              blank\<lparr>ranked_ids := map item_id kept,
                memory_record_ids := filter (\<lambda>r. r \<noteq> []) (map (\<lambda>i. str_or (si_record i) []) kept),
                contributing_arms := fold (\<lambda>i. AList.update (item_id i) (si_arms i)) (filter (\<lambda>i. si_arms i \<noteq> []) kept) [],
                result_count := length kept\<rparr>))"

record variant_replay =
  vr_variant :: variant
  vr_cohort :: string
  vr_results :: "(string \<times> query_replay) list"
  vr_failures :: "(string \<times> string) list"

definition replay_one ::
  "(search_call \<Rightarrow> (search_item list, string) sum \<times> rat) \<Rightarrow> replay_engine \<Rightarrow> variant \<Rightarrow> evaluated_query \<Rightarrow>
     variant_replay \<Rightarrow> variant_replay" where
  "replay_one search e v q run =
     (let r = replay_query search e v q in
      run\<lparr>vr_results := AList.update (eq_id q) r (vr_results run),
          vr_failures := (if failed_replay r then AList.update (eq_id q) (qr_failed r) (vr_failures run)
                          else vr_failures run)\<rparr>)"

definition replay_variant ::
  "(search_call \<Rightarrow> (search_item list, string) sum \<times> rat) \<Rightarrow> replay_engine \<Rightarrow> eval_cohort \<Rightarrow> variant \<Rightarrow> variant_replay" where
  "replay_variant search e c v =
     fold (replay_one search e v) (ec_queries c)
       \<lparr>vr_variant = v, vr_cohort = ec_id c, vr_results = [], vr_failures = []\<rparr>"

definition completed :: "variant_replay \<Rightarrow> (string \<times> query_replay) list" where
  "completed run = filter (\<lambda>(_, r). \<not> failed_replay r) (vr_results run)"

definition latencies :: "variant_replay \<Rightarrow> rat list" where
  "latencies run = sort (map (\<lambda>(_, r). duration_ms r) (completed run))"

section \<open>Checkpoints\<close>

record replay_payload =
  pl_variant :: string
  pl_cohort :: string
  pl_results :: "query_replay list"
  pl_failures :: "(string \<times> string) list"

definition round3 :: "(rat \<Rightarrow> rat) \<Rightarrow> rat \<Rightarrow> rat" where
  "round3 rnd q = rnd (of_int (half_even (q * 1000)) / 1000)"

definition replay_as_dict :: "(rat \<Rightarrow> rat) \<Rightarrow> variant_replay \<Rightarrow> replay_payload" where
  "replay_as_dict rnd run =
     \<lparr>pl_variant = va_id (vr_variant run), pl_cohort = vr_cohort run,
      pl_results = map (\<lambda>(_, r). r\<lparr>duration_ms := round3 rnd (duration_ms r)\<rparr>) (vr_results run),
      pl_failures = vr_failures run\<rparr>"

definition replay_from_dict :: "variant \<Rightarrow> replay_payload \<Rightarrow> variant_replay" where
  "replay_from_dict v p =
     \<lparr>vr_variant = v, vr_cohort = pl_cohort p,
      vr_results = fold (\<lambda>r. AList.update (qr_query r) r) (filter (\<lambda>r. qr_query r \<noteq> []) (pl_results p)) [],
      vr_failures = pl_failures p\<rparr>"

section \<open>Pairs\<close>

datatype drop_reason = FailedInBoth | FailedInBaseline | FailedInTreatment | AbsentFromOneRun | NotScorable | NoProofToScore

definition both_completed :: "variant_replay \<Rightarrow> variant_replay \<Rightarrow> string list" where
  "both_completed baseline treatment =
     sort (remdups (filter (\<lambda>q. q \<in> fst ` set (completed treatment)) (map fst (completed baseline))))"

definition drop_reason_of :: "variant_replay \<Rightarrow> variant_replay \<Rightarrow> string \<Rightarrow> drop_reason" where
  "drop_reason_of baseline treatment q =
     (let b = (q \<in> fst ` set (vr_failures baseline)); t = (q \<in> fst ` set (vr_failures treatment))
      in if b \<and> t then FailedInBoth else if b then FailedInBaseline else if t then FailedInTreatment
         else AbsentFromOneRun)"

definition add_reason :: "drop_reason \<Rightarrow> (drop_reason \<times> nat) list \<Rightarrow> (drop_reason \<times> nat) list" where
  "add_reason r reasons = AList.update r ((case map_of reasons r of None \<Rightarrow> 0 | Some n \<Rightarrow> n) + 1) reasons"

definition paired_replays :: "variant_replay \<Rightarrow> variant_replay \<Rightarrow> string list \<times> (drop_reason \<times> nat) list" where
  "paired_replays baseline treatment =
     (let both = both_completed baseline treatment;
          rest = filter (\<lambda>q. q \<notin> set both)
            (remdups (map fst (vr_results baseline) @ map fst (vr_results treatment)))
      in (both, fold (\<lambda>q. add_reason (drop_reason_of baseline treatment q)) rest []))"

end
