(* ===== verification/EvalMetrics.thy ===== *)
theory EvalMetrics
  imports EvalReplay
begin

text \<open>
  The metrics of an evaluation (\<open>src/pheasant/evaluation/metrics.py\<close>), each with its numerator, its
  denominator and what it leaves out, and what may be published of them
  (\<open>MetricResult.validate\<close>, \<open>evaluation/contracts.py\<close>).

  The formula, the substituted calculation, the summary and the limitation of a metric are texts
  that no code reads but \<open>validate\<close>, which asks that they are not empty: \<open>worded\<close> says so. Proof
  ids, examples and operands other than those a gate reads are not kept. Floats are exact results
  rounded by \<open>rnd\<close>; the interpreter's compensated \<open>sum\<close> is \<open>fsum\<close>, the logarithm \<open>log2\<close>.
\<close>

section \<open>Results\<close>

datatype classification = Demonstrated | Structural | Diagnostic | Operational

datatype metric_status = Pass | Warn | Fail | Informational | InsufficientEvidence | NotApplicable

record metric_result =
  mr_id :: string
  mr_class :: classification
  mr_cohort :: string
  mr_variant :: "string option"
  mr_query :: "string option"
  mr_value :: "rat option"
  mr_numerator :: "rat option"
  mr_denominator :: "rat option"
  mr_status :: metric_status
  mr_excluded :: nat
  worded :: bool

record metric_set =
  aggregates :: "metric_result list"
  ms_per_query :: "metric_result list"

datatype metric_problem = Unworded | ValueWithoutDenominator

definition validate_metric :: "metric_result \<Rightarrow> metric_problem list" where
  "validate_metric m =
     (if worded m then [] else [Unworded]) @
     (if mr_value m \<noteq> None \<and> mr_denominator m = None \<and> mr_status m \<notin> {InsufficientEvidence, NotApplicable}
      then [ValueWithoutDenominator] else [])"

definition by_id :: "metric_result list \<Rightarrow> string \<Rightarrow> string option \<Rightarrow> metric_result option" where
  "by_id ms metric_id variant_id =
     List.find (\<lambda>m. mr_id m = metric_id \<and> (variant_id = None \<or> mr_variant m = variant_id)) ms"

record float_ops =
  fo_rnd :: "rat \<Rightarrow> rat"
  fo_sum :: "rat list \<Rightarrow> rat"
  fo_log2 :: "rat \<Rightarrow> rat"

record metric_ctx =
  cx_cohort :: eval_cohort
  cx_policy :: proof_policy
  cx_evidence :: "(string \<times> query_evidence) list"
  cx_max_per_query :: nat

definition cx_known :: "metric_ctx \<Rightarrow> string \<Rightarrow> query_evidence" where
  "cx_known ctx q = list_or (map_of (cx_evidence ctx) q)"

definition cx_positives :: "float_ops \<Rightarrow> metric_ctx \<Rightarrow> string \<Rightarrow> string list" where
  "cx_positives f ctx q = positive_ids (fo_rnd f) (positive_floor (cx_policy ctx)) (cx_known ctx q)"

definition cx_negatives :: "float_ops \<Rightarrow> metric_ctx \<Rightarrow> string \<Rightarrow> string list" where
  "cx_negatives f ctx q = negative_ids (fo_rnd f) (positive_floor (cx_policy ctx)) (cx_known ctx q)"

definition cx_judged :: "float_ops \<Rightarrow> metric_ctx \<Rightarrow> string \<Rightarrow> string set" where
  "cx_judged f ctx q = judged_ids (fo_rnd f) (positive_floor (cx_policy ctx)) (cx_known ctx q)"

definition mean_value :: "float_ops \<Rightarrow> rat list \<Rightarrow> rat option" where
  "mean_value f values = (if values = [] then None
     else Some (round6 (fo_rnd f) (fo_rnd f (fo_sum f values / of_nat (length values)))))"

definition ratio :: "float_ops \<Rightarrow> nat \<Rightarrow> nat \<Rightarrow> rat option" where
  "ratio f n d = (if d = 0 then None else Some (round6 (fo_rnd f) (fo_rnd f (of_nat n / of_nat d))))"

definition insufficient :: "metric_ctx \<Rightarrow> string \<Rightarrow> string option \<Rightarrow> classification \<Rightarrow> metric_result" where
  "insufficient ctx metric_id vid class =
     \<lparr>mr_id = metric_id, mr_class = class, mr_cohort = ec_id (cx_cohort ctx), mr_variant = vid, mr_query = None,
      mr_value = None, mr_numerator = None, mr_denominator = Some 0, mr_status = InsufficientEvidence,
      mr_excluded = 0, worded = True\<rparr>"

text \<open>A share of counted things, which says so when there was nothing to count\<close>

definition counted ::
  "float_ops \<Rightarrow> metric_ctx \<Rightarrow> string \<Rightarrow> string option \<Rightarrow> classification \<Rightarrow> nat \<Rightarrow> nat \<Rightarrow> metric_result" where
  "counted f ctx metric_id vid class n d =
     \<lparr>mr_id = metric_id, mr_class = class, mr_cohort = ec_id (cx_cohort ctx), mr_variant = vid, mr_query = None,
      mr_value = ratio f n d, mr_numerator = Some (of_nat n), mr_denominator = Some (of_nat d),
      mr_status = (if d = 0 then InsufficientEvidence else Informational), mr_excluded = 0, worded = True\<rparr>"

text \<open>A mean over some queries, its numerator reconstructed from the rounded value\<close>

definition averaged ::
  "float_ops \<Rightarrow> metric_ctx \<Rightarrow> string \<Rightarrow> string option \<Rightarrow> classification \<Rightarrow> nat \<Rightarrow> rat list \<Rightarrow> metric_result" where
  "averaged f ctx metric_id vid class excluded values =
     (case mean_value f values of
        None \<Rightarrow> insufficient ctx metric_id vid class
      | Some value \<Rightarrow>
          \<lparr>mr_id = metric_id, mr_class = class, mr_cohort = ec_id (cx_cohort ctx), mr_variant = vid, mr_query = None,
           mr_value = Some value,
           mr_numerator = Some (round6 (fo_rnd f) (fo_rnd f (value * of_nat (length values)))),
           mr_denominator = Some (of_nat (length values)), mr_status = Informational,
           mr_excluded = excluded, worded = True\<rparr>)"

definition at_k :: "string \<Rightarrow> nat \<Rightarrow> string" where
  "at_k name k = name @ ''_at_'' @ nat_text k"

definition vid_of :: "variant_replay \<Rightarrow> string option" where
  "vid_of run = Some (va_id (vr_variant run))"

section \<open>Coverage\<close>

definition query_evidence_coverage :: "float_ops \<Rightarrow> metric_ctx \<Rightarrow> metric_result" where
  "query_evidence_coverage f ctx =
     (let eligible = query_ids (cx_cohort ctx) in
      counted f ctx ''query_evidence_coverage'' None Demonstrated
        (length (filter (\<lambda>q. cx_judged f ctx q \<noteq> {}) eligible)) (length eligible))"

definition result_evidence_coverage :: "float_ops \<Rightarrow> metric_ctx \<Rightarrow> variant_replay \<Rightarrow> nat \<Rightarrow> metric_result" where
  "result_evidence_coverage f ctx run k =
     counted f ctx (at_k ''result_evidence_coverage'' k) (vid_of run) Demonstrated
       (sum_list (map (\<lambda>(q, r). length (filter (\<lambda>i. i \<in> cx_judged f ctx q) (top_ids r k))) (completed run)))
       (sum_list (map (\<lambda>(q, r). length (top_ids r k)) (completed run)))"

definition proof_conflict_rate :: "float_ops \<Rightarrow> metric_ctx \<Rightarrow> metric_result" where
  "proof_conflict_rate f ctx =
     (let (n, d) = conflict_rate (cx_policy ctx) (cx_evidence ctx) in
      counted f ctx ''proof_conflict_rate'' None Demonstrated n d)"

text \<open>The counts of a region: artifacts that are indexed, artifacts, artifacts with a chunk, memory
  records, memory records whose artifact has a chunk; a count that fails is zero.\<close>

record region_counts =
  rc_indexed :: nat
  rc_artifacts :: nat
  rc_lexical :: nat
  rc_memory :: nat
  rc_memory_indexed :: nat

definition completeness :: "float_ops \<Rightarrow> metric_ctx \<Rightarrow> string \<Rightarrow> nat \<Rightarrow> nat \<Rightarrow> metric_result" where
  "completeness f ctx arm n d =
     (counted f ctx (''index_completeness_'' @ arm) None Structural n d)
       \<lparr>mr_status := (if d \<noteq> 0 \<and> n = d then Pass else if d \<noteq> 0 then Warn else NotApplicable)\<rparr>"

definition index_completeness :: "float_ops \<Rightarrow> metric_ctx \<Rightarrow> region_counts \<Rightarrow> metric_result list" where
  "index_completeness f ctx c =
     [completeness f ctx ''lexical'' (rc_lexical c) (if rc_indexed c = 0 then rc_artifacts c else rc_indexed c),
      completeness f ctx ''memory'' (rc_memory_indexed c) (rc_memory c)]"

definition growth :: "metric_ctx \<Rightarrow> region_counts \<Rightarrow> metric_result" where
  "growth ctx c =
     \<lparr>mr_id = ''growth'', mr_class = Operational, mr_cohort = ec_id (cx_cohort ctx), mr_variant = None, mr_query = None,
      mr_value = Some (of_nat (rc_memory c)), mr_numerator = Some (of_nat (rc_memory c)),
      mr_denominator = Some (of_nat (max 1 (rc_artifacts c))), mr_status = Informational, mr_excluded = 0,
      worded = True\<rparr>"

definition rank_churn ::
  "float_ops \<Rightarrow> metric_ctx \<Rightarrow> variant_replay \<Rightarrow> (string \<times> string list) list \<Rightarrow> nat \<Rightarrow> metric_result" where
  "rank_churn f ctx run previous k =
     (let overlaps = List.map_filter (\<lambda>(q, r). case map_of previous q of
            None \<Rightarrow> None
          | Some old \<Rightarrow>
              (let before = take k old; after = top_ids r k;
                   widest = max (max (length before) (length after)) 1
               in if before = [] \<and> after = [] then None
                  else Some (fo_rnd f (1 - fo_rnd f
                    (of_nat (card (set before \<inter> set after)) / of_nat widest))))) (completed run)
      in averaged f ctx (at_k ''rank_churn'' k) (vid_of run) Structural 0 overlaps)"

definition arm_contribution :: "float_ops \<Rightarrow> metric_ctx \<Rightarrow> variant_replay \<Rightarrow> nat \<Rightarrow> metric_result" where
  "arm_contribution f ctx run k =
     counted f ctx (at_k ''arm_agreement'' k) (vid_of run) Structural
       (sum_list (map (\<lambda>(_, r). length (filter (\<lambda>i. 1 < length (list_or (map_of (contributing_arms r) i)))
          (top_ids r k))) (completed run)))
       (sum_list (map (\<lambda>(_, r). length (top_ids r k)) (completed run)))"

section \<open>Retrieval of what is known\<close>

definition one_query ::
  "float_ops \<Rightarrow> metric_ctx \<Rightarrow> string \<Rightarrow> variant_replay \<Rightarrow> string \<Rightarrow> rat \<Rightarrow> rat \<Rightarrow> rat \<Rightarrow> metric_result" where
  "one_query f ctx metric_id run q value n d =
     \<lparr>mr_id = metric_id, mr_class = Demonstrated, mr_cohort = ec_id (cx_cohort ctx), mr_variant = vid_of run,
      mr_query = Some q, mr_value = Some (round6 (fo_rnd f) value), mr_numerator = Some n, mr_denominator = Some d,
      mr_status = Informational, mr_excluded = 0, worded = True\<rparr>"

definition with_positives :: "float_ops \<Rightarrow> metric_ctx \<Rightarrow> variant_replay \<Rightarrow> (string \<times> query_replay) list" where
  "with_positives f ctx run = filter (\<lambda>(q, _). cx_positives f ctx q \<noteq> []) (completed run)"

definition hits_in :: "string list \<Rightarrow> string list \<Rightarrow> nat" where
  "hits_in shown wanted = card (set shown \<inter> set wanted)"

definition recall_value :: "float_ops \<Rightarrow> metric_ctx \<Rightarrow> nat \<Rightarrow> string \<Rightarrow> query_replay \<Rightarrow> rat" where
  "recall_value f ctx k q r =
     fo_rnd f (of_nat (hits_in (top_ids r k) (cx_positives f ctx q)) / of_nat (length (cx_positives f ctx q)))"

definition known_positive_recall :: "float_ops \<Rightarrow> metric_ctx \<Rightarrow> variant_replay \<Rightarrow> nat \<Rightarrow> metric_set" where
  "known_positive_recall f ctx run k =
     (let scored = with_positives f ctx run; metric_id = at_k ''known_positive_recall'' k in
      \<lparr>aggregates = [averaged f ctx metric_id (vid_of run) Demonstrated
           (length (vr_results run) - length scored) (map (\<lambda>(q, r). recall_value f ctx k q r) scored)],
       ms_per_query = map (\<lambda>(q, r). one_query f ctx metric_id run q (recall_value f ctx k q r)
           (of_nat (hits_in (top_ids r k) (cx_positives f ctx q))) (of_nat (length (cx_positives f ctx q))))
         (take (cx_max_per_query ctx) scored)\<rparr>)"

definition known_positive_hit :: "float_ops \<Rightarrow> metric_ctx \<Rightarrow> variant_replay \<Rightarrow> nat \<Rightarrow> metric_result" where
  "known_positive_hit f ctx run k =
     (let scored = with_positives f ctx run; metric_id = at_k ''known_positive_hit'' k in
      if scored = [] then insufficient ctx metric_id (vid_of run) Demonstrated
      else counted f ctx metric_id (vid_of run) Demonstrated
        (length (filter (\<lambda>(q, r). set (cx_positives f ctx q) \<inter> set (top_ids r k) \<noteq> {}) scored)) (length scored))"

definition first_positive :: "float_ops \<Rightarrow> metric_ctx \<Rightarrow> string \<Rightarrow> query_replay \<Rightarrow> nat option" where
  "first_positive f ctx q r = first_wanted 1 (cx_positives f ctx q) (ranked_ids r)"

definition reciprocal :: "float_ops \<Rightarrow> nat option \<Rightarrow> rat" where
  "reciprocal f rank = (case rank of None \<Rightarrow> 0 | Some i \<Rightarrow> fo_rnd f (1 / of_nat i))"

definition known_positive_reciprocal_rank :: "float_ops \<Rightarrow> metric_ctx \<Rightarrow> variant_replay \<Rightarrow> metric_set" where
  "known_positive_reciprocal_rank f ctx run =
     (let scored = with_positives f ctx run; metric_id = ''known_positive_reciprocal_rank'' in
      \<lparr>aggregates = [averaged f ctx metric_id (vid_of run) Demonstrated 0
           (map (\<lambda>(q, r). reciprocal f (first_positive f ctx q r)) scored)],
       ms_per_query = map (\<lambda>(q, r). let rank = first_positive f ctx q r in
           one_query f ctx metric_id run q (reciprocal f rank)
             (if rank = None then 0 else 1) (case rank of None \<Rightarrow> 0 | Some i \<Rightarrow> of_nat i))
         (take (cx_max_per_query ctx) scored)\<rparr>)"

definition negative_exposure :: "float_ops \<Rightarrow> metric_ctx \<Rightarrow> variant_replay \<Rightarrow> nat \<Rightarrow> metric_result" where
  "negative_exposure f ctx run k =
     (let scored = filter (\<lambda>(q, _). cx_negatives f ctx q \<noteq> []) (completed run);
          slots = sum_list (map (\<lambda>(_, r). length (top_ids r k)) scored);
          shown = sum_list (map (\<lambda>(q, r). length (filter (\<lambda>i. i \<in> set (cx_negatives f ctx q)) (top_ids r k))) scored);
          metric_id = at_k ''negative_exposure'' k
      in if slots = 0 then insufficient ctx metric_id (vid_of run) Demonstrated
         else counted f ctx metric_id (vid_of run) Demonstrated shown slots)"

definition TERMINAL_RANK :: nat where "TERMINAL_RANK = 10000"

definition terminal_rank :: "query_replay \<Rightarrow> string \<Rightarrow> nat" where
  "terminal_rank r target = (case rank_of r target of None \<Rightarrow> TERMINAL_RANK | Some i \<Rightarrow> i)"

definition judged_pairs :: "float_ops \<Rightarrow> metric_ctx \<Rightarrow> variant_replay \<Rightarrow> (query_replay \<times> string \<times> string) list" where
  "judged_pairs f ctx run =
     concat (map (\<lambda>(q, r). concat (map (\<lambda>p. map (\<lambda>n. (r, p, n)) (cx_negatives f ctx q)) (cx_positives f ctx q)))
       (completed run))"

definition pairwise_proof_accuracy :: "float_ops \<Rightarrow> metric_ctx \<Rightarrow> variant_replay \<Rightarrow> metric_result" where
  "pairwise_proof_accuracy f ctx run =
     (let pairs = judged_pairs f ctx run in
      if pairs = [] then insufficient ctx ''pairwise_proof_accuracy'' (vid_of run) Demonstrated
      else counted f ctx ''pairwise_proof_accuracy'' (vid_of run) Demonstrated
        (length (filter (\<lambda>(r, p, n). terminal_rank r p < terminal_rank r n) pairs)) (length pairs))"

definition discounted :: "float_ops \<Rightarrow> rat list \<Rightarrow> rat list" where
  "discounted f us = map (\<lambda>(i, u). fo_rnd f (u / fo_log2 f (of_nat (i + 1)))) (enumerate 1 us)"

definition discounted_gain :: "float_ops \<Rightarrow> metric_ctx \<Rightarrow> nat \<Rightarrow> string \<Rightarrow> query_replay \<Rightarrow> rat option" where
  "discounted_gain f ctx k q r =
     (let known = cx_known ctx q; utilities = utility (fo_rnd f) known;
          judged = sorted_list_of_set (cx_judged f ctx q);
          actual = fo_sum f (discounted f (map utilities (top_ids r k)));
          ideals = take k (rev (sort (map utilities judged)));
          ideal = fo_sum f (map (\<lambda>(i, u). fo_rnd f (u / fo_log2 f (of_nat (i + 1))))
            (filter (\<lambda>(_, u). 0 < u) (enumerate 1 ideals)))
      in if judged = [] \<or> ideal \<le> 0 then None
         else Some (max (- 1) (min 1 (fo_rnd f (actual / ideal)))))"

definition evidence_discounted_gain :: "float_ops \<Rightarrow> metric_ctx \<Rightarrow> variant_replay \<Rightarrow> nat \<Rightarrow> metric_result" where
  "evidence_discounted_gain f ctx run k =
     averaged f ctx (at_k ''evidence_discounted_gain'' k) (vid_of run) Demonstrated 0
       (List.map_filter (\<lambda>(q, r). discounted_gain f ctx k q r) (completed run))"

definition bpref :: "float_ops \<Rightarrow> metric_ctx \<Rightarrow> string \<Rightarrow> query_replay \<Rightarrow> rat option" where
  "bpref f ctx q r =
     (let ps = cx_positives f ctx q; ns = remdups (cx_negatives f ctx q);
          share_above = (\<lambda>p. fo_rnd f (1 - fo_rnd f (of_nat
            (min (length (filter (\<lambda>n. terminal_rank r n < terminal_rank r p) ns)) (length ps)) / of_nat (length ps))))
      in if ps = [] \<or> ns = [] then None
         else Some (fo_rnd f (sum_floats (fo_rnd f) (map share_above ps) / of_nat (length ps))))"

definition binary_preference :: "float_ops \<Rightarrow> metric_ctx \<Rightarrow> variant_replay \<Rightarrow> metric_result" where
  "binary_preference f ctx run =
     averaged f ctx ''binary_preference'' (vid_of run) Demonstrated 0
       (List.map_filter (\<lambda>(q, r). bpref f ctx q r) (completed run))"

definition percentile :: "float_ops \<Rightarrow> rat \<Rightarrow> rat list \<Rightarrow> rat" where
  "percentile f fraction samples =
     round3 (fo_rnd f) (samples ! nat (max 0 (\<lceil>fo_rnd f (fraction * of_nat (length samples))\<rceil> - 1)))"

definition latency :: "float_ops \<Rightarrow> metric_ctx \<Rightarrow> variant_replay \<Rightarrow> metric_result" where
  "latency f ctx run =
     (let samples = latencies run in
      if samples = [] then insufficient ctx ''replay_latency_ms'' (vid_of run) Operational
      else (counted f ctx ''replay_latency_ms'' (vid_of run) Operational 0 (length samples))
        \<lparr>mr_value := Some (percentile f (1 / 2) samples), mr_numerator := Some (percentile f (1 / 2) samples)\<rparr>)"

section \<open>Attribution\<close>

type_synonym scorer = "string \<Rightarrow> variant_replay \<Rightarrow> rat option"

definition kprr_scorer :: "float_ops \<Rightarrow> metric_ctx \<Rightarrow> scorer" where
  "kprr_scorer f ctx q run =
     (case map_of (vr_results run) q of
        None \<Rightarrow> None
      | Some r \<Rightarrow> if failed_replay r \<or> cx_positives f ctx q = [] then None
                 else Some (reciprocal f (first_positive f ctx q r)))"

definition recall_scorer :: "float_ops \<Rightarrow> metric_ctx \<Rightarrow> nat \<Rightarrow> scorer" where
  "recall_scorer f ctx k q run =
     (case map_of (vr_results run) q of
        None \<Rightarrow> None
      | Some r \<Rightarrow> if failed_replay r \<or> cx_positives f ctx q = [] then None
                 else Some (recall_value f ctx k q r))"

definition both_scores :: "scorer \<Rightarrow> variant_replay \<Rightarrow> variant_replay \<Rightarrow> string \<Rightarrow> (rat \<times> rat) option" where
  "both_scores score baseline treatment q =
     (case (score q baseline, score q treatment) of (Some b, Some a) \<Rightarrow> Some (b, a) | _ \<Rightarrow> None)"

definition total_reasons :: "(drop_reason \<times> nat) list \<Rightarrow> nat" where
  "total_reasons reasons = sum_list (map snd reasons)"

definition paired_delta ::
  "float_ops \<Rightarrow> metric_ctx \<Rightarrow> string \<Rightarrow> variant_replay \<Rightarrow> variant_replay \<Rightarrow> scorer \<Rightarrow> metric_result" where
  "paired_delta f ctx metric_id baseline treatment score =
     (let (both, dropped) = paired_replays baseline treatment;
          pair = both_scores score baseline treatment;
          reasons = fold (\<lambda>_. add_reason NotScorable) (filter (\<lambda>q. pair q = None) both) dropped;
          deltas = List.map_filter (\<lambda>q. map_option (\<lambda>(b, a). round6 (fo_rnd f) (fo_rnd f (a - b))) (pair q)) both
      in averaged f ctx metric_id (vid_of treatment) Demonstrated (total_reasons reasons) deltas)"

definition displacement :: "float_ops \<Rightarrow> metric_ctx \<Rightarrow> variant_replay \<Rightarrow> variant_replay \<Rightarrow> nat \<Rightarrow> metric_result list" where
  "displacement f ctx baseline treatment k =
     (let (both, reasons) = paired_replays baseline treatment;
          shown = (\<lambda>run q. case map_of (vr_results run) q of None \<Rightarrow> [] | Some r \<Rightarrow> top_ids r k);
          dropped = (\<lambda>q. filter (\<lambda>i. i \<notin> set (shown treatment q)) (shown baseline q));
          wanted = (\<lambda>q. filter (\<lambda>i. i \<in> set (cx_positives f ctx q)) (shown baseline q));
          lost = (\<lambda>q. filter (\<lambda>i. i \<notin> set (shown treatment q)) (wanted q))
      in [(counted f ctx (at_k ''displacement'' k) (vid_of treatment) Structural
             (sum_list (map (\<lambda>q. length (dropped q)) both)) (sum_list (map (\<lambda>q. length (shown baseline q)) both)))
            \<lparr>mr_excluded := total_reasons reasons\<rparr>,
          counted f ctx (at_k ''positive_displacement'' k) (vid_of treatment) Demonstrated
             (sum_list (map (\<lambda>q. length (lost q)) both)) (sum_list (map (\<lambda>q. length (wanted q)) both))])"

definition control_regression ::
  "float_ops \<Rightarrow> metric_ctx \<Rightarrow> variant_replay \<Rightarrow> variant_replay \<Rightarrow> rat \<Rightarrow> metric_result" where
  "control_regression f ctx baseline treatment tolerance =
     (let (both, dropped) = paired_replays baseline treatment;
          pair = both_scores (kprr_scorer f ctx) baseline treatment;
          scored = List.map_filter pair both;
          reasons = fold (\<lambda>_. add_reason NoProofToScore) (filter (\<lambda>q. pair q = None) both) dropped;
          regressed = length (filter (\<lambda>(b, a). fo_rnd f (a - b) < - tolerance) scored)
      in if scored = [] then insufficient ctx ''control_regression_rate'' (vid_of treatment) Demonstrated
         else (counted f ctx ''control_regression_rate'' (vid_of treatment) Demonstrated regressed (length scored))
           \<lparr>mr_status := (if regressed = 0 then Pass else Fail), mr_excluded := total_reasons reasons\<rparr>)"

definition generalization_gap :: "float_ops \<Rightarrow> metric_result \<Rightarrow> metric_result \<Rightarrow> metric_result" where
  "generalization_gap f learned holdout =
     (let gap = \<lparr>mr_id = ''generalization_gap'', mr_class = Demonstrated, mr_cohort = mr_cohort holdout,
            mr_variant = mr_variant holdout, mr_query = mr_query holdout, mr_value = None, mr_numerator = None,
            mr_denominator = Some 0, mr_status = InsufficientEvidence, mr_excluded = 0, worded = True\<rparr>
      in case (mr_value learned, mr_value holdout) of
           (Some l, Some h) \<Rightarrow>
             (let value = round6 (fo_rnd f) (fo_rnd f (l - h)) in
              gap\<lparr>mr_value := Some value, mr_numerator := Some value, mr_denominator := Some 1,
                  mr_status := Informational\<rparr>)
         | _ \<Rightarrow> gap)"

end
