(* ===== verification/EvalGates.thy ===== *)
theory EvalGates
  imports EvalMetrics
begin

text \<open>
  The hard gates (\<open>src/pheasant/evaluation/gates.py\<close>), the metrics of a variant and of a pair
  (\<open>_variant_metrics\<close>, \<open>_attribution_metrics\<close> of \<open>evaluation/runner.py\<close>), the promotion of
  candidates (\<open>evaluation/candidates.py\<close>), and how \<open>run_evaluation\<close> puts them together.

  Of a gate the model has its id, its verdict, what it observed and the queries or ids that failed
  it; details are texts. A decision's reasons and evidence are not kept.
\<close>

section \<open>Gates\<close>

record gate_result =
  gr_id :: string
  gr_passed :: bool
  gr_observed :: rat
  gr_maximum :: rat
  gr_failed :: "string list"

definition cases_of :: "eval_cohort \<Rightarrow> expectation_kind \<Rightarrow> (evaluated_query \<times> expectation) list" where
  "cases_of cohort kind =
     List.map_filter (\<lambda>q. case eq_expectation q of
         None \<Rightarrow> None | Some e \<Rightarrow> if ex_kind e = kind then Some (q, e) else None) (ec_queries cohort)"

definition returned_record_ids :: "variant_replay \<Rightarrow> string \<Rightarrow> string list" where
  "returned_record_ids run q =
     (case map_of (vr_results run) q of
        None \<Rightarrow> [] | Some r \<Rightarrow> if failed_replay r then [] else memory_record_ids r)"

definition zero_gate :: "string \<Rightarrow> string list \<Rightarrow> gate_result" where
  "zero_gate gid failed =
     \<lparr>gr_id = gid, gr_passed = (failed = []), gr_observed = of_nat (length failed), gr_maximum = 0,
      gr_failed = take 20 failed\<rparr>"

definition stale_current_leak :: "eval_cohort \<Rightarrow> variant_replay \<Rightarrow> gate_result" where
  "stale_current_leak cohort run =
     zero_gate ''stale_current_leak'' (map (\<lambda>(q, _). eq_id q)
       (filter (\<lambda>(q, e). ex_forbidden e \<in> set (returned_record_ids run (eq_id q))) (cases_of cohort StaleCurrent)))"

definition temporal_invariant :: "eval_cohort \<Rightarrow> variant_replay \<Rightarrow> gate_result" where
  "temporal_invariant cohort run =
     zero_gate ''temporal_invariant'' (map (\<lambda>(q, _). eq_id q)
       (filter (\<lambda>(q, e). ex_expected e \<notin> set (returned_record_ids run (eq_id q))) (cases_of cohort TemporalAsOf)))"

definition acl_leak :: "eval_cohort \<Rightarrow> variant_replay \<Rightarrow> bool \<Rightarrow> gate_result" where
  "acl_leak cohort run acl_enforced =
     zero_gate ''acl_leak'' (if \<not> acl_enforced then []
       else map (\<lambda>(q, _). eq_id q)
         (filter (\<lambda>(q, e). ex_forbidden e \<in> set (returned_record_ids run (eq_id q))) (cases_of cohort AclIsolation)))"

definition abstention :: "eval_cohort \<Rightarrow> variant_replay \<Rightarrow> gate_result" where
  "abstention cohort run =
     zero_gate ''abstention'' (map (\<lambda>(q, _). eq_id q)
       (filter (\<lambda>(q, e). case map_of (vr_results run) (eq_id q) of
            None \<Rightarrow> False
          | Some r \<Rightarrow> \<not> failed_replay r \<and> ex_results e < int (result_count r)) (cases_of cohort Abstention)))"

definition evaluate_invariants :: "eval_cohort \<Rightarrow> variant_replay \<Rightarrow> bool \<Rightarrow> gate_result list" where
  "evaluate_invariants cohort run acl_enforced =
     [stale_current_leak cohort run, temporal_invariant cohort run, acl_leak cohort run acl_enforced,
      abstention cohort run]"

definition lost_positives ::
  "float_ops \<Rightarrow> metric_ctx \<Rightarrow> variant_replay \<Rightarrow> variant_replay \<Rightarrow> (string \<times> string list) list" where
  "lost_positives f ctx baseline treatment =
     List.map_filter (\<lambda>(q, base). case map_of (vr_results treatment) q of
         None \<Rightarrow> None
       | Some treat \<Rightarrow>
           (let lost = filter (\<lambda>i. i \<in> set (ranked_ids base) \<and> i \<notin> set (ranked_ids treat)) (cx_positives f ctx q)
            in if failed_replay base \<or> failed_replay treat \<or> lost = [] then None else Some (q, lost)))
       (vr_results baseline)"

definition evaluate_known_positive_exclusion ::
  "float_ops \<Rightarrow> metric_ctx \<Rightarrow> variant_replay \<Rightarrow> variant_replay \<Rightarrow> gate_result" where
  "evaluate_known_positive_exclusion f ctx baseline treatment =
     (let removed = lost_positives f ctx baseline treatment in
      \<lparr>gr_id = ''known_positive_exclusion'', gr_passed = (removed = []),
       gr_observed = of_nat (sum_list (map (\<lambda>(_, lost). length lost) removed)), gr_maximum = 0,
       gr_failed = map fst (take 20 removed)\<rparr>)"

definition evaluate_snapshot :: "string list \<Rightarrow> bool \<Rightarrow> gate_result" where
  "evaluate_snapshot incomplete blocks =
     \<lparr>gr_id = ''snapshot_complete'', gr_passed = (incomplete = [] \<or> \<not> blocks),
      gr_observed = of_nat (length incomplete), gr_maximum = 0, gr_failed = incomplete\<rparr>"

definition evaluate_negative_exposure_increase ::
  "float_ops \<Rightarrow> metric_result option \<Rightarrow> metric_result option \<Rightarrow> rat \<Rightarrow> gate_result" where
  "evaluate_negative_exposure_increase f before after tolerance =
     (let value = (\<lambda>m. Option.bind m mr_value);
          the_gate = (\<lambda>ok x. \<lparr>gr_id = ''negative_exposure_increase'', gr_passed = ok, gr_observed = x,
            gr_maximum = tolerance, gr_failed = []\<rparr>)
      in case (value before, value after) of
           (Some b, Some a) \<Rightarrow>
             (let delta = round6 (fo_rnd f) (fo_rnd f (a - b)) in the_gate (delta \<le> tolerance) delta)
         | _ \<Rightarrow> the_gate True 0)"

definition evaluate_control_regression :: "metric_result \<Rightarrow> rat \<Rightarrow> gate_result" where
  "evaluate_control_regression m tolerance =
     (case mr_value m of
        None \<Rightarrow> \<lparr>gr_id = ''control_regression'', gr_passed = True, gr_observed = 0, gr_maximum = tolerance, gr_failed = []\<rparr>
      | Some v \<Rightarrow> \<lparr>gr_id = ''control_regression'', gr_passed = (v \<le> tolerance), gr_observed = v,
                  gr_maximum = tolerance, gr_failed = []\<rparr>)"

definition gates_all_passed :: "gate_result list \<Rightarrow> bool" where
  "gates_all_passed gates = list_all gr_passed gates"

definition gate_failures :: "gate_result list \<Rightarrow> gate_result list" where
  "gate_failures gates = filter (\<lambda>g. \<not> gr_passed g) gates"

text \<open>
  A case whose replay is missing, or failed, counts as kept: these gates pass on an empty run,
  whatever the cohort asserts. Only the as-of cases fail without an answer.
\<close>

lemma unanswered_cases_pass:
  assumes "\<forall>(q, r) \<in> set (vr_results run). failed_replay r"
  shows "gr_passed (stale_current_leak cohort run)" and "gr_passed (acl_leak cohort run enforced)"
    and "gr_passed (abstention cohort run)"
proof -
  have silent: "returned_record_ids run q = []" for q
    using assms by (auto simp: returned_record_ids_def split: option.splits dest!: map_of_SomeD)
  have failed: "failed_replay r" if found: "map_of (vr_results run) q = Some r" for q r
    using assms map_of_SomeD[OF found] by auto
  show "gr_passed (stale_current_leak cohort run)" "gr_passed (acl_leak cohort run enforced)"
    by (simp_all add: stale_current_leak_def acl_leak_def zero_gate_def silent)
  show "gr_passed (abstention cohort run)"
    using failed by (auto simp: abstention_def zero_gate_def filter_empty_conv split: option.splits)
qed

text \<open>The exclusion gate passes exactly when no query both replays completed lost a known positive.\<close>

lemma exclusion_gate_exact:
  assumes "distinct (map fst (vr_results baseline))"
  shows "gr_passed (evaluate_known_positive_exclusion f ctx baseline treatment) \<longleftrightarrow>
    (\<forall>q base treat i. map_of (vr_results baseline) q = Some base \<longrightarrow> map_of (vr_results treatment) q = Some treat \<longrightarrow>
       \<not> failed_replay base \<longrightarrow> \<not> failed_replay treat \<longrightarrow> i \<in> set (cx_positives f ctx q) \<longrightarrow>
       i \<in> set (ranked_ids base) \<longrightarrow> i \<in> set (ranked_ids treat))"
  using assms
  by (fastforce simp: evaluate_known_positive_exclusion_def lost_positives_def Let_def List.map_filter_def
      filter_empty_conv map_of_eq_Some_iff split: option.splits if_splits)

section \<open>The metrics of a cohort\<close>

record eval_settings =
  es_retrieval_diagnostics :: bool
  es_binary_preference :: bool
  es_max_per_query :: nat
  es_control_tolerance :: rat
  es_negative_tolerance :: rat
  es_snapshot_blocks :: bool
  es_acl_enforced :: bool

definition join_sets :: "metric_set list \<Rightarrow> metric_set" where
  "join_sets ms = \<lparr>aggregates = concat (map aggregates ms), ms_per_query = concat (map ms_per_query ms)\<rparr>"

definition only :: "metric_result list \<Rightarrow> metric_set" where
  "only ms = \<lparr>aggregates = ms, ms_per_query = []\<rparr>"

definition metrics_at :: "float_ops \<Rightarrow> metric_ctx \<Rightarrow> variant_replay \<Rightarrow> nat \<Rightarrow> metric_set" where
  "metrics_at f ctx run k =
     join_sets [only [result_evidence_coverage f ctx run k], known_positive_recall f ctx run k,
       only [known_positive_hit f ctx run k, negative_exposure f ctx run k]]"

definition variant_metrics :: "float_ops \<Rightarrow> metric_ctx \<Rightarrow> variant_replay \<Rightarrow> eval_settings \<Rightarrow> metric_set" where
  "variant_metrics f ctx run s =
     join_sets ([metrics_at f ctx run 5, metrics_at f ctx run 10, known_positive_reciprocal_rank f ctx run,
         only [pairwise_proof_accuracy f ctx run, latency f ctx run]]
       @ (if es_retrieval_diagnostics s then
            [only [evidence_discounted_gain f ctx run 5, arm_contribution f ctx run 5,
                   evidence_discounted_gain f ctx run 10, arm_contribution f ctx run 10]] else [])
       @ (if es_binary_preference s then [only [binary_preference f ctx run]] else []))"

type_synonym replays = "(string \<times> variant_replay) list"

definition pair_metrics :: "float_ops \<Rightarrow> metric_ctx \<Rightarrow> replays \<Rightarrow> string \<Rightarrow> metric_result list" where
  "pair_metrics f ctx replays vid =
     (case map_of replays vid of
        None \<Rightarrow> []
      | Some run \<Rightarrow> (case map_of replays (str_or (va_baseline (vr_variant run)) []) of
          None \<Rightarrow> []
        | Some parent \<Rightarrow>
            if str_or (va_baseline (vr_variant run)) [] = [] then []
            else if vid \<in> {''B1'', ''B5'', ''B6''}
            then paired_delta f ctx ''memory_attributable_gain'' parent run (kprr_scorer f ctx) # displacement f ctx parent run 5
            else if vid \<in> {''B2'', ''B3'', ''B4''}
            then [paired_delta f ctx ''steering_lift'' parent run (kprr_scorer f ctx)]
            else []))"

definition attribution_metrics :: "float_ops \<Rightarrow> metric_ctx \<Rightarrow> replays \<Rightarrow> metric_set" where
  "attribution_metrics f ctx replays =
     only (if map_of replays CORPUS_BASELINE = None then []
           else concat (map (pair_metrics f ctx replays) (sort (map fst replays))))"

definition cohort_metrics ::
  "float_ops \<Rightarrow> metric_ctx \<Rightarrow> string \<Rightarrow> region_counts \<Rightarrow> eval_settings \<Rightarrow> replays \<Rightarrow> metric_set" where
  "cohort_metrics f ctx name counts s replays =
     join_sets ([only (if name = ''anchor'' then
         [query_evidence_coverage f ctx, proof_conflict_rate f ctx] @ index_completeness f ctx counts @ [growth ctx counts]
         else [])]
       @ map (\<lambda>(_, run). variant_metrics f ctx run s) replays
       @ [attribution_metrics f ctx replays])"

end
