(* ===== verification/EvalPromotion.thy ===== *)
theory EvalPromotion
  imports EvalGates
begin

text \<open>
  Whether a proposed memory reaches retrieval: \<open>src/pheasant/evaluation/candidates.py\<close>, and steps 7
  to 13 of \<open>run_evaluation\<close> (\<open>evaluation/runner.py\<close>), from the replays of a batch to the candidates
  it admits. The reasons and the evidence a decision lists are not kept; admitting one is the
  parameter \<open>admit\<close> of what happens to it elsewhere, and here the id handed over.
\<close>

section \<open>One candidate\<close>

datatype promotion = Promote | RetainCandidate | NotEnoughEvidence | NotShadowReplayable

record promotion_settings =
  ps_enabled :: bool
  ps_require_gates :: bool
  ps_min_independent :: int
  ps_min_holdout :: int
  ps_min_gain :: rat
  ps_max_control :: rat
  ps_allow_originating :: bool

definition shadow_ids :: "memory_candidate list \<Rightarrow> string list" where
  "shadow_ids cands = sort (filter (\<lambda>i. i \<noteq> []) (map sr_id (shadow_records cands [])))"

definition originating_queries :: "(string \<Rightarrow> string) \<Rightarrow> memory_candidate \<Rightarrow> string set" where
  "originating_queries qid c =
     (case ca_evidence c of
        None \<Rightarrow> {}
      | Some (query, queries) \<Rightarrow> qid ` set (filter (\<lambda>t. t \<noteq> []) (str_or query [] # queries)))"

definition value_of :: "metric_result option \<Rightarrow> rat option" where
  "value_of m = Option.bind m mr_value"

definition validate_candidate ::
  "(string \<Rightarrow> string) \<Rightarrow> promotion_settings \<Rightarrow> gate_result list \<Rightarrow> metric_result option \<Rightarrow>
     metric_result option \<Rightarrow> gate_result option \<Rightarrow> string list \<Rightarrow> string set \<Rightarrow> memory_candidate \<Rightarrow> promotion" where
  "validate_candidate qid s gates holdout control negative_gate replayable independent_ids c =
     (if ca_id c \<notin> set replayable then NotShadowReplayable
      else if ps_require_gates s \<and> gate_failures gates \<noteq> [] then RetainCandidate
      else (let independent = independent_ids - originating_queries qid c in
        if \<not> ps_allow_originating s \<and> independent = {} then RetainCandidate
        else if int (card independent) < ps_min_independent s then NotEnoughEvidence
        else if (case value_of control of None \<Rightarrow> False | Some v \<Rightarrow> ps_max_control s < v) then RetainCandidate
        else if (case negative_gate of None \<Rightarrow> False | Some g \<Rightarrow> \<not> gr_passed g) then RetainCandidate
        else (case (holdout, value_of holdout) of
            (Some h, Some gain) \<Rightarrow>
              if (case mr_denominator h of None \<Rightarrow> 0 | Some d \<Rightarrow> \<lfloor>d\<rfloor>) < ps_min_holdout s then NotEnoughEvidence
              else if gain < ps_min_gain s then RetainCandidate
              else Promote
          | _ \<Rightarrow> NotEnoughEvidence)))"

definition apply_decisions :: "bool \<Rightarrow> (string \<times> promotion) list \<Rightarrow> string list" where
  "apply_decisions enabled decisions = map fst (filter (\<lambda>(_, d). d = Promote \<and> enabled) decisions)"

section \<open>The end of a batch\<close>

record eval_batch =
  eb_cohorts :: "(string \<times> eval_cohort) list"
  eb_replays :: "(string \<times> replays) list"
  eb_evidence :: "(string \<times> query_evidence) list"
  eb_policy :: proof_policy
  eb_counts :: region_counts
  eb_settings :: eval_settings
  eb_promotion :: promotion_settings
  eb_incomplete :: "string list"
  eb_pending :: "memory_candidate list"

definition PRIMARY_VARIANT :: string where "PRIMARY_VARIANT = ''B5''"

definition replays_of :: "eval_batch \<Rightarrow> string \<Rightarrow> replays" where
  "replays_of b name = list_or (map_of (eb_replays b) name)"

definition ctx_of :: "eval_batch \<Rightarrow> eval_cohort \<Rightarrow> metric_ctx" where
  "ctx_of b c = \<lparr>cx_cohort = c, cx_policy = eb_policy b, cx_evidence = eb_evidence b,
     cx_max_per_query = es_max_per_query (eb_settings b)\<rparr>"

definition cohort_results :: "float_ops \<Rightarrow> eval_batch \<Rightarrow> string \<Rightarrow> metric_set option" where
  "cohort_results f b name =
     (case map_of (eb_cohorts b) name of
        None \<Rightarrow> None
      | Some c \<Rightarrow> if name = ''invariants'' \<or> replays_of b name = [] then None
                 else Some (cohort_metrics f (ctx_of b c) name (eb_counts b) (eb_settings b) (replays_of b name)))"

definition metric_named :: "metric_set option \<Rightarrow> string \<Rightarrow> string \<Rightarrow> metric_result option" where
  "metric_named ms metric_id vid = (case ms of None \<Rightarrow> None | Some m \<Rightarrow> by_id (aggregates m) metric_id (Some vid))"

definition gain_of :: "metric_set option \<Rightarrow> string \<Rightarrow> metric_result option" where
  "gain_of ms vid = metric_named ms ''memory_attributable_gain'' vid"

definition relabel :: "metric_result option \<Rightarrow> string \<Rightarrow> metric_result option" where
  "relabel m metric_id = map_option (\<lambda>r. r\<lparr>mr_id := metric_id\<rparr>) m"

definition holdout_gain :: "float_ops \<Rightarrow> eval_batch \<Rightarrow> metric_result option" where
  "holdout_gain f b =
     relabel (gain_of (cohort_results f b ''temporal_holdout'') PRIMARY_VARIANT) ''future_query_generalization''"

definition learned_gain :: "float_ops \<Rightarrow> eval_batch \<Rightarrow> metric_result option" where
  "learned_gain f b = relabel (gain_of (cohort_results f b ''learned'') PRIMARY_VARIANT) ''learned_query_gain''"

definition control_metric :: "float_ops \<Rightarrow> eval_batch \<Rightarrow> metric_result option" where
  "control_metric f b =
     (let rs = replays_of b ''control''; base = (if map_of rs ''B1'' \<noteq> None then ''B1'' else CORPUS_BASELINE) in
      case (map_of rs base, map_of rs PRIMARY_VARIANT, map_of (eb_cohorts b) ''control'') of
        (Some before, Some after, Some c) \<Rightarrow>
          Some (control_regression f (ctx_of b c) before after (es_control_tolerance (eb_settings b)))
      | _ \<Rightarrow> None)"

definition negative_gate :: "float_ops \<Rightarrow> eval_batch \<Rightarrow> gate_result" where
  "negative_gate f b =
     evaluate_negative_exposure_increase f
       (metric_named (cohort_results f b ''anchor'') (at_k ''negative_exposure'' 5) ''B0'')
       (metric_named (cohort_results f b ''anchor'') (at_k ''negative_exposure'' 5) PRIMARY_VARIANT)
       (es_negative_tolerance (eb_settings b))"

definition run_gates :: "float_ops \<Rightarrow> eval_batch \<Rightarrow> gate_result list" where
  "run_gates f b =
     [evaluate_snapshot (eb_incomplete b) (es_snapshot_blocks (eb_settings b))]
     @ (case (map_of (replays_of b ''invariants'') PRIMARY_VARIANT, map_of (eb_cohorts b) ''invariants'') of
          (Some run, Some c) \<Rightarrow> evaluate_invariants c run (es_acl_enforced (eb_settings b))
        | _ \<Rightarrow> [])
     @ (case (map_of (replays_of b ''anchor'') CORPUS_BASELINE, map_of (replays_of b ''anchor'') PRIMARY_VARIANT,
              map_of (eb_cohorts b) ''anchor'') of
          (Some before, Some after, Some c) \<Rightarrow> [evaluate_known_positive_exclusion f (ctx_of b c) before after]
        | _ \<Rightarrow> [])
     @ [negative_gate f b]
     @ (case control_metric f b of None \<Rightarrow> []
        | Some m \<Rightarrow> [evaluate_control_regression m (es_control_tolerance (eb_settings b))])"

definition candidate_decisions ::
  "float_ops \<Rightarrow> (string \<Rightarrow> string) \<Rightarrow> eval_batch \<Rightarrow> (string \<times> promotion) list" where
  "candidate_decisions f qid b =
     (let independent = (case map_of (eb_cohorts b) ''temporal_holdout'' of None \<Rightarrow> [] | Some c \<Rightarrow> query_ids c) in
      map (\<lambda>c. (ca_id c, validate_candidate qid (eb_promotion b) (run_gates f b) (holdout_gain f b) (control_metric f b)
         (Some (negative_gate f b)) (shadow_ids (eb_pending b)) (set independent) c)) (eb_pending b))"

definition admitted_candidates :: "float_ops \<Rightarrow> (string \<Rightarrow> string) \<Rightarrow> eval_batch \<Rightarrow> string list" where
  "admitted_candidates f qid b =
     apply_decisions (ps_enabled (eb_promotion b) \<and> gates_all_passed (run_gates f b)) (candidate_decisions f qid b)"

section \<open>The shadow replay\<close>

text \<open>
  Dropping the replays of the candidate shadow changes no decision: the gain a candidate is judged by
  is that of the memory system without it.
\<close>

definition without_shadow :: "eval_batch \<Rightarrow> eval_batch" where
  "without_shadow b = b\<lparr>eb_replays := map (\<lambda>(name, rs). (name, filter (\<lambda>e. fst e \<noteq> ''B6'') rs)) (eb_replays b)\<rparr>"

definition from_matrix :: "string list \<Rightarrow> eval_batch \<Rightarrow> bool" where
  "from_matrix cands b \<longleftrightarrow> (\<forall>(name, rs) \<in> set (eb_replays b). \<forall>(vid, run) \<in> set rs.
     vr_variant run \<in> set (default_matrix cands) \<and> vid = va_id (vr_variant run))"

lemma replays_without_shadow:
  "replays_of (without_shadow b) name = filter (\<lambda>e. fst e \<noteq> ''B6'') (replays_of b name)"
proof -
  have "map_of (eb_replays (without_shadow b)) name =
    map_option (filter (\<lambda>e. fst e \<noteq> ''B6'')) (map_of (eb_replays b) name)"
    by (simp add: without_shadow_def map_of_map)
  then show ?thesis by (cases "map_of (eb_replays b) name") (simp_all add: replays_of_def)
qed

lemma map_of_not_shadow: "vid \<noteq> ''B6'' \<Longrightarrow> map_of (filter (\<lambda>e. fst e \<noteq> ''B6'') rs) vid = map_of rs vid"
  by (induction rs) auto

lemma metric_variant [simp]:
  "mr_variant (insufficient ctx i v c) = v" "mr_variant (counted f ctx i v c n d) = v"
  "mr_variant (averaged f ctx i v c e vs) = v"
  by (auto simp: insufficient_def counted_def averaged_def split: option.splits)

lemma run_metric_variant [simp]:
  "mr_variant (result_evidence_coverage f ctx run k) = vid_of run"
  "mr_variant (known_positive_hit f ctx run k) = vid_of run"
  "mr_variant (negative_exposure f ctx run k) = vid_of run"
  "mr_variant (pairwise_proof_accuracy f ctx run) = vid_of run"
  "mr_variant (latency f ctx run) = vid_of run"
  "mr_variant (evidence_discounted_gain f ctx run k) = vid_of run"
  "mr_variant (arm_contribution f ctx run k) = vid_of run"
  "mr_variant (binary_preference f ctx run) = vid_of run"
  by (simp_all add: result_evidence_coverage_def known_positive_hit_def negative_exposure_def latency_def
      pairwise_proof_accuracy_def evidence_discounted_gain_def arm_contribution_def binary_preference_def Let_def)

definition of_variant :: "string option \<Rightarrow> metric_set \<Rightarrow> bool" where
  "of_variant v ms \<longleftrightarrow> list_all (\<lambda>m. mr_variant m = v) (aggregates ms)"

lemma of_variant_parts [simp]:
  "of_variant v (join_sets []) = True"
  "of_variant v (join_sets (ms # mss)) = (of_variant v ms \<and> of_variant v (join_sets mss))"
  "of_variant v (only ms') = list_all (\<lambda>m. mr_variant m = v) ms'"
  "of_variant (vid_of run) (known_positive_recall f ctx run k)"
  "of_variant (vid_of run) (known_positive_reciprocal_rank f ctx run)"
  by (simp_all add: of_variant_def join_sets_def only_def known_positive_recall_def
      known_positive_reciprocal_rank_def Let_def)

lemma variant_metrics_variant: "of_variant (vid_of run) (variant_metrics f ctx run s)"
  by (simp add: variant_metrics_def metrics_at_def)

lemma pair_metrics_variant:
  assumes "m \<in> set (pair_metrics f ctx rs vid)" and "\<And>run. map_of rs vid = Some run \<Longrightarrow> va_id (vr_variant run) = vid"
  shows "mr_variant m = Some vid"
  using assms by (auto simp: pair_metrics_def paired_delta_def displacement_def vid_of_def Let_def
      split: option.splits if_splits prod.splits)

lemma filter_concat_map:
  assumes "\<And>x y. x \<in> set xs \<Longrightarrow> y \<in> set (g x) \<Longrightarrow> Q y = K x" and "\<And>x. x \<in> set xs \<Longrightarrow> K x \<Longrightarrow> g' x = g x"
  shows "filter Q (concat (map g xs)) = concat (map g' (filter K xs))"
  using assms
proof (induction xs)
  case (Cons x xs)
  have "filter Q (g x) = (if K x then g' x else [])"
    using Cons.prems by (auto intro: filter_True filter_False)
  then show ?case using Cons by auto
qed simp

definition shadowless :: "metric_result \<Rightarrow> bool" where
  "shadowless m \<longleftrightarrow> mr_variant m \<noteq> Some ''B6''"

definition matrix_replays :: "string list \<Rightarrow> replays \<Rightarrow> bool" where
  "matrix_replays cands rs \<longleftrightarrow> (\<forall>(vid, run) \<in> set rs. vr_variant run \<in> set (default_matrix cands) \<and> vid = va_id (vr_variant run))"

lemma matrix_baseline: "v \<in> set (default_matrix cands) \<Longrightarrow> va_baseline v \<in> {None, Some ''B0'', Some ''B5''}"
  by (auto simp: default_matrix_def matrix_row_def CORPUS_BASELINE_def split: if_splits)

lemma matrix_replays_lookup:
  assumes "matrix_replays cands rs" and "map_of rs vid = Some run"
  shows "vid = va_id (vr_variant run)" and "str_or (va_baseline (vr_variant run)) [] \<noteq> ''B6''"
proof -
  have "vr_variant run \<in> set (default_matrix cands) \<and> vid = va_id (vr_variant run)"
    using assms(1) map_of_SomeD[OF assms(2)] by (auto simp: matrix_replays_def)
  then show "vid = va_id (vr_variant run)" "str_or (va_baseline (vr_variant run)) [] \<noteq> ''B6''"
    using matrix_baseline[of "vr_variant run" cands] by auto
qed

lemma pair_metrics_shadowless:
  assumes "matrix_replays cands rs" and "vid \<noteq> ''B6''"
  shows "pair_metrics f ctx (filter (\<lambda>e. fst e \<noteq> ''B6'') rs) vid = pair_metrics f ctx rs vid"
proof (cases "map_of rs vid")
  case (Some run)
  then show ?thesis
    using matrix_replays_lookup(2)[OF assms(1) Some] assms(2) by (simp add: pair_metrics_def map_of_not_shadow)
qed (simp add: pair_metrics_def map_of_not_shadow assms(2))

lemma attribution_shadowless:
  assumes "matrix_replays cands rs"
  shows "aggregates (attribution_metrics f ctx (filter (\<lambda>e. fst e \<noteq> ''B6'') rs)) =
    filter shadowless (aggregates (attribution_metrics f ctx rs))"
proof -
  let ?rs = "filter (\<lambda>e. fst e \<noteq> ''B6'') rs"
  have keys: "sort (map fst ?rs) = filter (\<lambda>vid. vid \<noteq> ''B6'') (sort (map fst rs))"
    by (simp add: filter_sort filter_map o_def case_prod_beta)
  have "filter shadowless (concat (map (pair_metrics f ctx rs) (sort (map fst rs)))) =
    concat (map (pair_metrics f ctx ?rs) (filter (\<lambda>vid. vid \<noteq> ''B6'') (sort (map fst rs))))"
  proof (rule filter_concat_map)
    fix vid m
    assume "m \<in> set (pair_metrics f ctx rs vid)"
    then have "mr_variant m = Some vid"
      using pair_metrics_variant matrix_replays_lookup(1)[OF assms] by metis
    then show "shadowless m = (vid \<noteq> ''B6'')" by (simp add: shadowless_def)
  qed (simp add: pair_metrics_shadowless[OF assms])
  then show ?thesis
    using map_of_not_shadow[of CORPUS_BASELINE rs] by (simp add: attribution_metrics_def only_def keys CORPUS_BASELINE_def)
qed

lemma general_variant:
  "list_all (\<lambda>m. mr_variant m = None) (index_completeness f ctx counts)"
  "mr_variant (query_evidence_coverage f ctx) = None" "mr_variant (proof_conflict_rate f ctx) = None"
  "mr_variant (growth ctx counts) = None"
  by (simp_all add: index_completeness_def completeness_def query_evidence_coverage_def
      proof_conflict_rate_def growth_def Let_def split: prod.splits)

lemma cohort_metrics_shadowless:
  assumes "matrix_replays cands rs"
  shows "aggregates (cohort_metrics f ctx name counts s (filter (\<lambda>e. fst e \<noteq> ''B6'') rs)) =
    filter shadowless (aggregates (cohort_metrics f ctx name counts s rs))"
proof -
  have general: "list_all shadowless (index_completeness f ctx counts)" "shadowless (query_evidence_coverage f ctx)"
    "shadowless (proof_conflict_rate f ctx)" "shadowless (growth ctx counts)"
    using general_variant(1)[of f ctx counts] by (auto simp: shadowless_def list_all_iff general_variant(2-4))
  have variants: "filter shadowless (concat (map (\<lambda>e. aggregates (variant_metrics f ctx (snd e) s)) rs)) =
    concat (map (\<lambda>e. aggregates (variant_metrics f ctx (snd e) s)) (filter (\<lambda>e. fst e \<noteq> ''B6'') rs))"
  proof (rule filter_concat_map)
    fix x m
    assume "x \<in> set rs" and "m \<in> set (aggregates (variant_metrics f ctx (snd x) s))"
    then show "shadowless m = (fst x \<noteq> ''B6'')"
      using variant_metrics_variant[of "snd x" f ctx s] assms
      by (auto simp: shadowless_def of_variant_def vid_of_def matrix_replays_def list_all_iff case_prod_beta)
  qed simp
  show ?thesis
    using general variants attribution_shadowless[OF assms, of f ctx]
    by (simp add: cohort_metrics_def join_sets_def only_def o_def case_prod_beta list_all_iff filter_True)
qed

lemma find_filter: "(\<And>x. P x \<Longrightarrow> Q x) \<Longrightarrow> List.find P (filter Q xs) = List.find P xs"
  by (induction xs) auto

lemma by_id_shadowless:
  "vid \<noteq> ''B6'' \<Longrightarrow> by_id (filter shadowless ms) i (Some vid) = by_id ms i (Some vid)"
  unfolding by_id_def by (rule find_filter) (simp add: shadowless_def)

lemma by_id_no_replays: "by_id (aggregates (cohort_metrics f ctx name counts s [])) i (Some vid) = None"
proof -
  have "list_all (\<lambda>m. mr_variant m = None) (aggregates (cohort_metrics f ctx name counts s []))"
    by (simp add: cohort_metrics_def join_sets_def only_def attribution_metrics_def general_variant)
  then show ?thesis by (auto simp: by_id_def find_None_iff list_all_iff)
qed

lemma metric_named_results:
  "metric_named (cohort_results f b name) i vid =
     (case map_of (eb_cohorts b) name of
        None \<Rightarrow> None
      | Some c \<Rightarrow> if name = ''invariants'' then None
          else by_id (aggregates (cohort_metrics f (ctx_of b c) name (eb_counts b) (eb_settings b) (replays_of b name)))
            i (Some vid))"
  by (simp add: metric_named_def cohort_results_def by_id_no_replays split: option.splits)

lemma without_shadow_same [simp]:
  "eb_cohorts (without_shadow b) = eb_cohorts b" "eb_counts (without_shadow b) = eb_counts b"
  "eb_settings (without_shadow b) = eb_settings b" "ctx_of (without_shadow b) c = ctx_of b c"
  "eb_promotion (without_shadow b) = eb_promotion b" "eb_incomplete (without_shadow b) = eb_incomplete b"
  "eb_pending (without_shadow b) = eb_pending b"
  by (simp_all add: without_shadow_def ctx_of_def)

lemma metric_named_shadowless:
  assumes "from_matrix cands b" and "vid \<noteq> ''B6''"
  shows "metric_named (cohort_results f (without_shadow b) name) i vid = metric_named (cohort_results f b name) i vid"
proof -
  have "matrix_replays cands (replays_of b name)"
    using assms(1) by (cases "map_of (eb_replays b) name")
      (auto simp: from_matrix_def matrix_replays_def replays_of_def dest!: map_of_SomeD)
  from cohort_metrics_shadowless[OF this] show ?thesis
    by (simp add: metric_named_results replays_without_shadow by_id_shadowless[OF assms(2)] split: option.split)
qed

lemma lookup_shadowless:
  "map_of (replays_of (without_shadow b) name) ''B0'' = map_of (replays_of b name) ''B0''"
  "map_of (replays_of (without_shadow b) name) ''B1'' = map_of (replays_of b name) ''B1''"
  "map_of (replays_of (without_shadow b) name) ''B5'' = map_of (replays_of b name) ''B5''"
  by (simp_all add: replays_without_shadow map_of_not_shadow)

lemma control_shadowless: "control_metric f (without_shadow b) = control_metric f b"
  unfolding control_metric_def CORPUS_BASELINE_def PRIMARY_VARIANT_def Let_def lookup_shadowless without_shadow_same
  by (cases "map_of (replays_of b ''control'') ''B1''") (simp_all add: lookup_shadowless)

lemma negative_shadowless:
  assumes "from_matrix cands b"
  shows "negative_gate f (without_shadow b) = negative_gate f b"
  by (simp add: negative_gate_def metric_named_shadowless[OF assms] PRIMARY_VARIANT_def)

lemma gates_shadowless:
  assumes "from_matrix cands b"
  shows "run_gates f (without_shadow b) = run_gates f b"
  unfolding run_gates_def CORPUS_BASELINE_def PRIMARY_VARIANT_def lookup_shadowless without_shadow_same
    control_shadowless negative_shadowless[OF assms] by (rule refl)

theorem shadow_replay_decides_nothing:
  assumes "from_matrix cands b"
  shows "candidate_decisions f qid (without_shadow b) = candidate_decisions f qid b \<and>
    admitted_candidates f qid (without_shadow b) = admitted_candidates f qid b"
proof -
  have "holdout_gain f (without_shadow b) = holdout_gain f b"
    by (simp add: holdout_gain_def gain_of_def metric_named_shadowless[OF assms] PRIMARY_VARIANT_def)
  then show ?thesis
    by (simp add: candidate_decisions_def admitted_candidates_def gates_shadowless[OF assms] control_shadowless
        negative_shadowless[OF assms])
qed

section \<open>What a promotion rests on\<close>

text \<open>The floats a mean needs: rounding, and a sum that is not positive when no summand is.\<close>

definition sound_floats :: "float_ops \<Rightarrow> bool" where
  "sound_floats f \<longleftrightarrow> rounding (fo_rnd f) \<and> (\<forall>xs. (\<forall>x \<in> set xs. x \<le> 0) \<longrightarrow> fo_sum f xs \<le> 0)"

lemma half_even_nonpos: "q \<le> 0 \<Longrightarrow> half_even q \<le> 0"
  by (auto simp: half_even_def Let_def)

lemma round6_nonpos:
  assumes "rounding rnd" and "q \<le> 0"
  shows "round6 rnd q \<le> 0"
proof -
  have "of_int (half_even (q * 1000000)) / 1000000 \<le> (0 :: rat)"
    using half_even_nonpos[of "q * 1000000"] assms(2) by (simp add: divide_nonpos_pos)
  then show ?thesis unfolding round6_def by (metis assms(1) roundingD)
qed

lemma averaged_positive:
  assumes floats: "sound_floats f" and gained: "mr_value (averaged f ctx i v c e xs) = Some m" and "0 < m"
  shows "\<exists>x \<in> set xs. 0 < x"
proof (rule ccontr)
  assume "\<not> ?thesis"
  then have none: "\<forall>x \<in> set xs. x \<le> 0" by auto
  have rnd: "rounding (fo_rnd f)" and "fo_sum f xs \<le> 0" using floats none by (auto simp: sound_floats_def)
  then have "fo_sum f xs / of_nat (length xs) \<le> 0" by (simp add: divide_nonpos_nonneg)
  then have "fo_rnd f (fo_sum f xs / of_nat (length xs)) \<le> 0" by (metis rnd roundingD)
  from round6_nonpos[OF rnd this] show False
    using gained \<open>0 < m\<close> by (auto simp: averaged_def mean_value_def insufficient_def split: if_splits)
qed

lemma paired_gain_has_a_gainer:
  assumes floats: "sound_floats f" and gained: "mr_value (paired_delta f ctx i base run score) = Some m" and "0 < m"
  shows "\<exists>q b a. q \<in> set (both_completed base run) \<and> score q base = Some b \<and> score q run = Some a \<and> b < a"
proof -
  let ?pair = "both_scores score base run"
  let ?delta = "\<lambda>q. map_option (\<lambda>(b, a). round6 (fo_rnd f) (fo_rnd f (a - b))) (?pair q)"
  have rnd: "rounding (fo_rnd f)" using floats by (simp add: sound_floats_def)
  obtain e where "paired_delta f ctx i base run score =
      averaged f ctx i (vid_of run) Demonstrated e (List.map_filter ?delta (both_completed base run))"
    by (simp add: paired_delta_def paired_replays_def Let_def)
  then obtain x where "x \<in> set (List.map_filter ?delta (both_completed base run))" and "0 < x"
    using averaged_positive[OF floats _ \<open>0 < m\<close>] gained by metis
  then obtain q b a where q: "q \<in> set (both_completed base run)" and scores: "?pair q = Some (b, a)"
    and "0 < round6 (fo_rnd f) (fo_rnd f (a - b))"
    by (auto simp: List.map_filter_def split: option.splits)
  then have "b < a"
    using round6_nonpos[OF rnd] roundingD[OF rnd] by (metis diff_le_0_iff_le not_less)
  moreover have "score q base = Some b" "score q run = Some a"
    using scores by (auto simp: both_scores_def split: option.splits)
  ultimately show ?thesis using q by blast
qed

lemma metric_id [simp]:
  "mr_id (insufficient ctx i v c) = i" "mr_id (counted f ctx i v c n d) = i" "mr_id (averaged f ctx i v c e vs) = i"
  by (auto simp: insufficient_def counted_def averaged_def split: option.splits)

definition no_gain :: "metric_set \<Rightarrow> bool" where
  "no_gain ms \<longleftrightarrow> list_all (\<lambda>m. mr_id m \<noteq> ''memory_attributable_gain'') (aggregates ms)"

lemma no_gain_parts [simp]:
  "no_gain (join_sets [])" "no_gain (join_sets (ms # mss)) = (no_gain ms \<and> no_gain (join_sets mss))"
  "no_gain (only ms') = list_all (\<lambda>m. mr_id m \<noteq> ''memory_attributable_gain'') ms'"
  "no_gain (known_positive_recall f ctx run k)" "no_gain (known_positive_reciprocal_rank f ctx run)"
  by (simp_all add: no_gain_def join_sets_def only_def known_positive_recall_def
      known_positive_reciprocal_rank_def Let_def at_k_def)

lemma variant_metrics_no_gain: "no_gain (variant_metrics f ctx run s)"
  by (simp add: variant_metrics_def metrics_at_def result_evidence_coverage_def known_positive_hit_def
      negative_exposure_def latency_def pairwise_proof_accuracy_def evidence_discounted_gain_def
      arm_contribution_def binary_preference_def Let_def at_k_def)

lemma general_no_gain:
  "list_all (\<lambda>m. mr_id m \<noteq> ''memory_attributable_gain'') (index_completeness f ctx counts)"
  "mr_id (query_evidence_coverage f ctx) \<noteq> ''memory_attributable_gain''"
  "mr_id (proof_conflict_rate f ctx) \<noteq> ''memory_attributable_gain''" "mr_id (growth ctx counts) \<noteq> ''memory_attributable_gain''"
  by (simp_all add: index_completeness_def completeness_def query_evidence_coverage_def
      proof_conflict_rate_def growth_def Let_def split: prod.splits)

lemma paired_delta_id [simp]: "mr_id (paired_delta f ctx i base run score) = i"
  by (simp add: paired_delta_def Let_def split: prod.split)

lemma displacement_no_gain: "m \<in> set (displacement f ctx base run k) \<Longrightarrow> mr_id m \<noteq> ''memory_attributable_gain''"
  by (auto simp: displacement_def at_k_def Let_def split: prod.splits)

lemma pair_metrics_gain:
  assumes "m \<in> set (pair_metrics f ctx rs vid)" and "mr_id m = ''memory_attributable_gain''"
  shows "\<exists>run parent. map_of rs vid = Some run \<and> map_of rs (str_or (va_baseline (vr_variant run)) []) = Some parent \<and>
    m = paired_delta f ctx ''memory_attributable_gain'' parent run (kprr_scorer f ctx)"
proof -
  obtain run where run: "map_of rs vid = Some run"
    using assms(1) by (cases "map_of rs vid") (simp_all add: pair_metrics_def)
  obtain parent where parent: "map_of rs (str_or (va_baseline (vr_variant run)) []) = Some parent"
    using assms(1) by (cases "map_of rs (str_or (va_baseline (vr_variant run)) [])") (simp_all add: pair_metrics_def run)
  have "m \<in> set (paired_delta f ctx ''memory_attributable_gain'' parent run (kprr_scorer f ctx) # displacement f ctx parent run 5)
    \<or> mr_id m = ''steering_lift''"
    using assms(1) by (auto simp: pair_metrics_def run parent split: if_splits)
  then show ?thesis using run parent assms(2) displacement_no_gain[of m f ctx parent run 5] by auto
qed

lemma cohort_gain:
  assumes "m \<in> set (aggregates (cohort_metrics f ctx name counts s rs))" and "mr_id m = ''memory_attributable_gain''"
  shows "\<exists>vid. m \<in> set (pair_metrics f ctx rs vid)"
proof -
  have "\<forall>run. m \<notin> set (aggregates (variant_metrics f ctx run s))"
    using variant_metrics_no_gain assms(2) by (auto simp: no_gain_def list_all_iff)
  moreover have "m \<notin> set (index_completeness f ctx counts)" "m \<noteq> query_evidence_coverage f ctx"
    "m \<noteq> proof_conflict_rate f ctx" "m \<noteq> growth ctx counts"
    using general_no_gain assms(2) by (auto simp: list_all_iff)
  ultimately have "m \<in> set (aggregates (attribution_metrics f ctx rs))"
    using assms(1) by (auto simp: cohort_metrics_def join_sets_def only_def split: if_splits)
  then show ?thesis by (auto simp: attribution_metrics_def only_def split: if_splits)
qed

text \<open>
  A candidate that is admitted was proposed as a steering rule while promotion is on, every gate
  passed, enough queries of the temporal holdout are none of its own, and, when a gain is asked for,
  some holdout query both replays answered found its first known positive earlier with the memory
  system than without.
\<close>

lemma validated_promote:
  assumes "validate_candidate qid s gates holdout control ng replayable independent_ids c = Promote"
  shows "ca_id c \<in> set replayable"
    and "ps_min_independent s \<le> int (card (independent_ids - originating_queries qid c))"
    and "\<exists>h gain. holdout = Some h \<and> mr_value h = Some gain \<and> ps_min_gain s \<le> gain"
proof -
  show "ca_id c \<in> set replayable"
    using assms by (cases "ca_id c \<in> set replayable") (simp_all add: validate_candidate_def)
  show "ps_min_independent s \<le> int (card (independent_ids - originating_queries qid c))"
    by (rule ccontr) (use assms in \<open>simp add: validate_candidate_def Let_def split: if_splits\<close>)
  show "\<exists>h gain. holdout = Some h \<and> mr_value h = Some gain \<and> ps_min_gain s \<le> gain"
    using assms by (simp add: validate_candidate_def Let_def value_of_def not_less split: if_splits option.splits)
qed

lemma by_id_Some: "by_id ms i (Some vid) = Some m \<Longrightarrow> m \<in> set ms \<and> mr_id m = i \<and> mr_variant m = Some vid"
  by (auto simp: by_id_def find_Some_iff in_set_conv_nth)

lemma holdout_gain_has_a_gainer:
  assumes floats: "sound_floats f" and matrix: "from_matrix cands b"
    and gain: "holdout_gain f b = Some h" "mr_value h = Some x" "0 < x"
  shows "\<exists>cohort run parent q before after. map_of (eb_cohorts b) ''temporal_holdout'' = Some cohort \<and>
    map_of (replays_of b ''temporal_holdout'') PRIMARY_VARIANT = Some run \<and>
    map_of (replays_of b ''temporal_holdout'') (str_or (va_baseline (vr_variant run)) []) = Some parent \<and>
    q \<in> set (both_completed parent run) \<and>
    kprr_scorer f (ctx_of b cohort) q parent = Some before \<and> kprr_scorer f (ctx_of b cohort) q run = Some after \<and>
    before < after"
proof -
  let ?rs = "replays_of b ''temporal_holdout''"
  obtain m where m: "gain_of (cohort_results f b ''temporal_holdout'') PRIMARY_VARIANT = Some m" "mr_value m = Some x"
    using gain by (auto simp: holdout_gain_def relabel_def)
  obtain cohort where cohort: "map_of (eb_cohorts b) ''temporal_holdout'' = Some cohort"
    and found: "by_id (aggregates (cohort_metrics f (ctx_of b cohort) ''temporal_holdout'' (eb_counts b)
      (eb_settings b) ?rs)) ''memory_attributable_gain'' (Some PRIMARY_VARIANT) = Some m"
    using m(1) by (cases "map_of (eb_cohorts b) ''temporal_holdout''") (simp_all add: gain_of_def metric_named_results)
  have known: "matrix_replays cands ?rs"
    using matrix by (cases "map_of (eb_replays b) ''temporal_holdout''")
      (auto simp: from_matrix_def matrix_replays_def replays_of_def dest!: map_of_SomeD)
  obtain vid where vid: "m \<in> set (pair_metrics f (ctx_of b cohort) ?rs vid)"
    using cohort_gain by_id_Some[OF found] by blast
  then obtain run parent where run: "map_of ?rs vid = Some run"
    and parent: "map_of ?rs (str_or (va_baseline (vr_variant run)) []) = Some parent"
    and delta: "m = paired_delta f (ctx_of b cohort) ''memory_attributable_gain'' parent run (kprr_scorer f (ctx_of b cohort))"
    using pair_metrics_gain by_id_Some[OF found] by blast
  have "Some vid = Some PRIMARY_VARIANT"
    using pair_metrics_variant[OF vid] matrix_replays_lookup(1)[OF known] by_id_Some[OF found] by auto
  then have "vid = PRIMARY_VARIANT" by simp
  moreover obtain q before after where "q \<in> set (both_completed parent run)"
    "kprr_scorer f (ctx_of b cohort) q parent = Some before" "kprr_scorer f (ctx_of b cohort) q run = Some after"
    "before < after"
    using paired_gain_has_a_gainer[OF floats _ gain(3)] m(2) delta by metis
  ultimately show ?thesis using cohort run parent by blast
qed


section \<open>A batch that admits\<close>

definition demo_floats :: float_ops where
  "demo_floats = \<lparr>fo_rnd = \<lambda>x. x, fo_sum = sum_list, fo_log2 = \<lambda>x. x\<rparr>"

definition demo_query :: evaluated_query where
  "demo_query = \<lparr>eq_id = ''q'', eq_text = ''q'', eq_occurred = None, eq_asked = 1, eq_expectation = None\<rparr>"

definition demo_replay :: "string \<Rightarrow> string list \<Rightarrow> variant_replay" where
  "demo_replay vid ids =
     \<lparr>vr_variant = (if vid = ''B0'' then matrix_row ''B0'' ''off'' [] None []
        else matrix_row ''B5'' ''auto'' VARIANT_STEERING_KINDS (Some CORPUS_BASELINE) []), vr_cohort = ''c'',
      vr_results = [(''q'', \<lparr>qr_query = ''q'', qr_variant = vid, qr_text = ''q'', ranked_ids = ids, memory_record_ids = [],
        contributing_arms = [], result_count = length ids, duration_ms = 1, qr_failed = []\<rparr>)],
      vr_failures = []\<rparr>"

definition demo_batch :: eval_batch where
  "demo_batch =
     \<lparr>eb_cohorts = [(''temporal_holdout'', \<lparr>ec_id = ''c'', ec_name = ''temporal_holdout'', ec_purpose = ''temporal_holdout'',
        ec_queries = [demo_query], ec_created = [], ec_frozen = False\<rparr>)],
      eb_replays = [(''temporal_holdout'', [(''B0'', demo_replay ''B0'' [''x'', ''t'']), (''B5'', demo_replay ''B5'' [''t''])])],
      eb_evidence = [(''q'', [(''t'', no_evidence\<lparr>fe_positive := 1\<rparr>)])], eb_policy = default_proof_policy,
      eb_counts = \<lparr>rc_indexed = 1, rc_artifacts = 1, rc_lexical = 1, rc_memory = 1, rc_memory_indexed = 1\<rparr>,
      eb_settings = \<lparr>es_retrieval_diagnostics = False, es_binary_preference = False, es_max_per_query = 1,
        es_control_tolerance = 0, es_negative_tolerance = 0, es_snapshot_blocks = True, es_acl_enforced = True\<rparr>,
      eb_promotion = \<lparr>ps_enabled = True, ps_require_gates = True, ps_min_independent = 1, ps_min_holdout = 1,
        ps_min_gain = 1 / 10, ps_max_control = 0, ps_allow_originating = False\<rparr>,
      eb_incomplete = [],
      eb_pending = [\<lparr>ca_id = ''m'', ca_rule = ''r'', ca_kind = Some ''alias'', ca_scope = None, ca_text = Some ''a: b'',
        ca_record = None, ca_evidence = None, ca_first_seen = None, ca_last_seen = None, ca_decided = None\<rparr>]\<rparr>"

lemma demo_floats_sound: "sound_floats demo_floats"
  by (auto simp: sound_floats_def demo_floats_def rounding_def intro: sum_list_nonpos)

lemma demo_batch_matrix: "from_matrix [] demo_batch"
  by (simp add: from_matrix_def demo_batch_def demo_replay_def default_matrix_def matrix_row_def)

lemma find_skips: "list_all (\<lambda>x. \<not> P x) xs \<Longrightarrow> List.find P (xs @ ys) = List.find P ys"
  by (induction xs) auto

lemma gain_by_attribution:
  "by_id (aggregates (cohort_metrics f ctx name counts s rs)) ''memory_attributable_gain'' v =
     by_id (aggregates (attribution_metrics f ctx rs)) ''memory_attributable_gain'' v"
proof -
  let ?P = "\<lambda>m. mr_id m = ''memory_attributable_gain'' \<and> (v = None \<or> mr_variant m = v)"
  obtain xs where xs: "aggregates (cohort_metrics f ctx name counts s rs) = xs @ aggregates (attribution_metrics f ctx rs)"
    and others: "list_all (\<lambda>m. mr_id m \<noteq> ''memory_attributable_gain'') xs"
  proof
    show "aggregates (cohort_metrics f ctx name counts s rs) =
      (aggregates (only (if name = ''anchor'' then
         [query_evidence_coverage f ctx, proof_conflict_rate f ctx] @ index_completeness f ctx counts @ [growth ctx counts]
         else [])) @ concat (map (\<lambda>(_, run). aggregates (variant_metrics f ctx run s)) rs)) @ aggregates (attribution_metrics f ctx rs)"
      by (simp add: cohort_metrics_def join_sets_def o_def case_prod_unfold)
    show "list_all (\<lambda>m. mr_id m \<noteq> ''memory_attributable_gain'') (aggregates (only (if name = ''anchor'' then
         [query_evidence_coverage f ctx, proof_conflict_rate f ctx] @ index_completeness f ctx counts @ [growth ctx counts]
         else [])) @ concat (map (\<lambda>(_, run). aggregates (variant_metrics f ctx run s)) rs))"
      using variant_metrics_no_gain[of f ctx _ s] general_no_gain(1)[of f ctx counts]
      by (auto simp: only_def no_gain_def list_all_iff general_no_gain(2-4))
  qed
  have "list_all (\<lambda>m. \<not> ?P m) xs" using others by (auto simp: list_all_iff)
  then show ?thesis unfolding by_id_def xs by (rule find_skips)
qed

definition demo_cohort :: eval_cohort where
  "demo_cohort = \<lparr>ec_id = ''c'', ec_name = ''temporal_holdout'', ec_purpose = ''temporal_holdout'',
     ec_queries = [demo_query], ec_created = [], ec_frozen = False\<rparr>"

definition demo_gain :: metric_result where
  "demo_gain = averaged demo_floats (ctx_of demo_batch demo_cohort) ''memory_attributable_gain'' (Some ''B5'') Demonstrated 0 [1 / 2]"

lemma demo_attribution:
  "by_id (aggregates (attribution_metrics demo_floats (ctx_of demo_batch demo_cohort) (replays_of demo_batch ''temporal_holdout'')))
     ''memory_attributable_gain'' (Some ''B5'') = Some demo_gain"
  by code_simp

lemma demo_holdout: "holdout_gain demo_floats demo_batch = Some (demo_gain\<lparr>mr_id := ''future_query_generalization''\<rparr>)"
proof -
  have "map_of (eb_cohorts demo_batch) ''temporal_holdout'' = Some demo_cohort"
    by (simp add: demo_batch_def demo_cohort_def)
  then show ?thesis
    by (simp add: holdout_gain_def relabel_def gain_of_def metric_named_results gain_by_attribution PRIMARY_VARIANT_def demo_attribution)
qed

lemma demo_gates: "run_gates demo_floats demo_batch =
  [evaluate_snapshot [] True, evaluate_negative_exposure_increase demo_floats None None 0]"
  by code_simp

lemma demo_others: "control_metric demo_floats demo_batch = None" "gr_passed (negative_gate demo_floats demo_batch)"
  "shadow_ids (eb_pending demo_batch) = [''m'']" "mr_value demo_gain = Some (1 / 2)" "mr_denominator demo_gain = Some 1"
  "originating_queries id (hd (eb_pending demo_batch)) = {}" "query_ids demo_cohort = [''q'']"
  "gate_failures (run_gates demo_floats demo_batch) = []" "gates_all_passed (run_gates demo_floats demo_batch)"
  by code_simp+

lemma demo_admits: "admitted_candidates demo_floats id demo_batch = [''m'']"
proof -
  have cohort: "map_of (eb_cohorts demo_batch) ''temporal_holdout'' = Some demo_cohort"
    by (simp add: demo_batch_def demo_cohort_def)
  have pending: "eb_pending demo_batch = [hd (eb_pending demo_batch)]" "ca_id (hd (eb_pending demo_batch)) = ''m''"
    by (simp_all add: demo_batch_def)
  have settings: "ps_enabled (eb_promotion demo_batch)" "ps_min_independent (eb_promotion demo_batch) = 1"
    "ps_min_holdout (eb_promotion demo_batch) = 1" "ps_min_gain (eb_promotion demo_batch) = 1 / 10"
    by (simp_all add: demo_batch_def)
  have "validate_candidate id (eb_promotion demo_batch) (run_gates demo_floats demo_batch) (holdout_gain demo_floats demo_batch)
    (control_metric demo_floats demo_batch) (Some (negative_gate demo_floats demo_batch)) (shadow_ids (eb_pending demo_batch))
    {''q''} (hd (eb_pending demo_batch)) = Promote"
    by (simp add: validate_candidate_def demo_holdout demo_others settings pending(2) value_of_def)
  then show ?thesis
    by (subst admitted_candidates_def, subst candidate_decisions_def, subst (2) pending(1))
      (simp add: apply_decisions_def cohort demo_others settings pending(2))
qed


end
