(* ===== verification/EvalEvidence.thy ===== *)
theory EvalEvidence
  imports EvalProof
begin

text \<open>
  What the evidence of an evaluation rests on: nothing observed after the instant described, no
  exposure, no retry counted twice; and that the tuning plane, which reads less of a proof, folds
  it alike.
\<close>

section \<open>Nothing from the future\<close>

lemma make_proof_observed:
  "now \<noteq> [] \<Longrightarrow> pf_observed (make_proof rnd days half_to dg policy now c) \<noteq> []"
  by (simp add: make_proof_def Let_def str_or_def split: option.splits)

lemma load_proofs_before_capped:
  assumes "p \<in> set (load_proofs_before rows kb query_ids before limit)" and "str_or before [] \<noteq> []"
  shows "pf_observed p \<le> str_or before []"
  using assms by (auto simp: load_proofs_before_def Let_def split: option.splits dest!: in_set_takeD)

lemma projected_are_made:
  "p \<in> set (project_from_interactions mk qid kb since limit rows) \<Longrightarrow> \<exists>c. p = mk c"
  "p \<in> set (project_from_admitted_candidates mk qid kb cands) \<Longrightarrow> \<exists>c. p = mk c"
  by (auto simp: project_from_interactions_def project_from_admitted_candidates_def
      split: option.splits if_splits)

theorem no_evidence_from_the_future:
  assumes clock: "now \<noteq> []" and cap: "str_or before [] \<noteq> []"
    and mk: "mk = make_proof rnd days half_to dg policy now"
    and p: "p \<in> set (collect_proof_before rows (project_from_interactions mk qid kb since limit ledger)
      (project_from_admitted_candidates mk qid kb cands) kb before query_ids)"
  shows "pf_observed p \<le> str_or before []"
proof -
  have made: "pf_observed p' \<noteq> []"
    if found: "p' \<in> set (project_from_interactions mk qid kb since limit ledger) \<union>
      set (project_from_admitted_candidates mk qid kb cands)" for p'
  proof -
    obtain c where "p' = mk c" using found projected_are_made by (elim UnE) metis+
    then show ?thesis by (simp add: mk make_proof_observed[OF clock])
  qed
  from p consider "p \<in> set (load_proofs_before rows kb (Some query_ids) before 100000)"
    | "p \<in> set (project_from_interactions mk qid kb since limit ledger) \<union>
        set (project_from_admitted_candidates mk qid kb cands)" "pf_observed p = [] \<or> pf_observed p \<le> str_or before []"
    using cap by (auto simp: collect_proof_before_def Let_def)
  then show ?thesis
    using load_proofs_before_capped[OF _ cap] made by cases blast+
qed

section \<open>The fold, target by target\<close>

definition evidence_of :: "(string \<times> query_evidence) list \<Rightarrow> string \<Rightarrow> string \<Rightarrow> full_evidence option" where
  "evidence_of out q t = map_of (list_or (map_of out q)) t"

definition touch :: "(rat \<Rightarrow> rat) \<Rightarrow> bool \<Rightarrow> typed_proof \<Rightarrow> full_evidence option \<Rightarrow> full_evidence option" where
  "touch rnd u p found = Some (add_proof rnd u p (case found of None \<Rightarrow> no_evidence | Some t \<Rightarrow> t))"

lemma evidence_of_update:
  "evidence_of (AList.update q (AList.update t e (list_or (map_of out q))) out) q' t' =
     (if q' = q \<and> t' = t then Some e else evidence_of out q' t')"
  by (simp add: evidence_of_def update_conv)

lemma aggregate_lookup:
  "evidence_of (aggregate_typed rnd u ps out) q t =
     fold (touch rnd u) (filter (\<lambda>p. pf_query p = q \<and> pf_target p = t) ps) (evidence_of out q t)"
proof (induction ps arbitrary: out)
  case (Cons p ps)
  then show ?case by (auto simp: Let_def evidence_of_update touch_def) (simp add: evidence_of_def)
qed simp

lemma distinct_targets:
  assumes "\<forall>q. distinct (map fst (list_or (map_of out q)))"
  shows "distinct (map fst (list_or (map_of (aggregate_typed rnd u ps out) q)))"
  using assms
proof (induction ps arbitrary: out)
  case (Cons p ps)
  let ?ts = "list_or (map_of out (pf_query p))"
  have "\<forall>q. distinct (map fst (list_or (map_of (AList.update (pf_query p) (AList.update (pf_target p) e ?ts) out) q)))" for e
    using Cons.prems by (simp add: update_conv distinct_update)
  then show ?case using Cons.IH by (simp add: Let_def)
qed simp

text \<open>A list of ids by what is known of each: what a lookup decides\<close>

lemma sorted_ids_by_lookup:
  assumes "distinct (map fst ts)" and "distinct (map fst us)"
    and same: "\<And>t. (case map_of ts t of None \<Rightarrow> False | Some e \<Rightarrow> P e) \<longleftrightarrow>
      (case map_of us t of None \<Rightarrow> False | Some e \<Rightarrow> P e)"
  shows "sort (map fst (filter (\<lambda>(_, e). P e) ts)) = sort (map fst (filter (\<lambda>(_, e). P e) (us :: (string \<times> 'e) list)))"
proof -
  have chosen: "t \<in> set (map fst (filter (\<lambda>(_, e). P e) vs)) \<longleftrightarrow> (case map_of vs t of None \<Rightarrow> False | Some e \<Rightarrow> P e)"
    if once: "distinct (map fst vs)" for vs :: "(string \<times> 'e) list" and t
  proof -
    have "t \<in> set (map fst (filter (\<lambda>(_, e). P e) vs)) \<longleftrightarrow> (\<exists>e. (t, e) \<in> set vs \<and> P e)" by force
    also have "\<dots> \<longleftrightarrow> (\<exists>e. map_of vs t = Some e \<and> P e)" using once by (simp add: map_of_eq_Some_iff)
    finally show ?thesis by (cases "map_of vs t") auto
  qed
  have once: "distinct (map fst (filter (\<lambda>(_, e). P e) vs))"
    if "distinct (map fst vs)" for vs :: "(string \<times> 'e) list"
    using that by (simp add: distinct_map_filter)
  show ?thesis
  proof (rule sorted_distinct_set_unique)
    show "set (sort (map fst (filter (\<lambda>(_, e). P e) ts))) = set (sort (map fst (filter (\<lambda>(_, e). P e) us)))"
      using chosen[OF assms(1)] chosen[OF assms(2)] same by (simp only: set_sort set_eq_iff) blast
  qed (use once assms(1,2) in simp_all)
qed


section \<open>Exposure is not evidence\<close>

definition judged_rows :: "typed_proof list \<Rightarrow> typed_proof list" where
  "judged_rows = filter (\<lambda>p. pf_polarity p \<noteq> Unknown)"

definition sides :: "full_evidence option \<Rightarrow> rat \<times> rat" where
  "sides found = (case found of None \<Rightarrow> (0, 0) | Some t \<Rightarrow> (fe_positive t, fe_negative t))"

lemma sides_touch:
  "sides (touch rnd False p found) =
     (case pf_polarity p of
        Positive \<Rightarrow> (round6 rnd (rnd (fst (sides found) + \<bar>pf_weight p\<bar>)), snd (sides found))
      | Negative \<Rightarrow> (fst (sides found), round6 rnd (rnd (snd (sides found) + \<bar>pf_weight p\<bar>)))
      | Unknown \<Rightarrow> sides found)"
  by (simp add: sides_def touch_def add_proof_def no_evidence_def Let_def split: option.splits polarity.splits)

lemma sides_of_judged:
  "sides found = sides found' \<Longrightarrow>
   sides (fold (touch rnd False) ps found) = sides (fold (touch rnd False) (judged_rows ps) found')"
  by (induction ps arbitrary: found found')
    (auto simp: judged_rows_def sides_touch split: polarity.splits)

definition folded :: "(rat \<Rightarrow> rat) \<Rightarrow> proof_policy \<Rightarrow> typed_proof list \<Rightarrow> string \<Rightarrow> query_evidence" where
  "folded rnd policy ps q = list_or (map_of (aggregate_typed rnd (unknown_is_negative policy) ps []) q)"

lemma folded_lookup:
  "map_of (folded rnd policy ps q) t =
     fold (touch rnd (unknown_is_negative policy)) (filter (\<lambda>p. pf_query p = q \<and> pf_target p = t) ps) None"
  using aggregate_lookup[of rnd _ ps "[]" q t] by (simp add: folded_def evidence_of_def)

lemma folded_distinct: "distinct (map fst (folded rnd policy ps q))"
  unfolding folded_def by (rule distinct_targets) simp

lemma folded_sides:
  assumes "\<not> unknown_is_negative policy"
  shows "sides (map_of (folded rnd policy ps q) t) = sides (map_of (folded rnd policy (judged_rows ps) q) t)"
  using assms sides_of_judged[of None None rnd "filter (\<lambda>p. pf_query p = q \<and> pf_target p = t) ps"]
  by (simp add: folded_lookup judged_rows_def conj_commute)

lemma utility_by_sides:
  assumes "rnd 0 = 0"
  shows "utility rnd ts t = round6 rnd (rnd (fst (sides (map_of ts t)) - snd (sides (map_of ts t))))"
  using assms by (simp add: utility_def sides_def net_def round6_def half_even_def Let_def split: option.splits)

lemma chosen_by_utility:
  assumes "rnd 0 = 0" and "0 < least"
  shows "(case map_of ts t of None \<Rightarrow> False | Some e \<Rightarrow> least \<le> net rnd e) \<longleftrightarrow> least \<le> utility rnd ts t"
    and "(case map_of ts t of None \<Rightarrow> False | Some e \<Rightarrow> net rnd e \<le> - least) \<longleftrightarrow> utility rnd ts t \<le> - least"
  using assms by (auto simp: utility_def split: option.splits)

text \<open>
  Claim C16: while the policy does not count the unknown as negative, proofs that only say something was
  shown change no known positive, no known negative and no utility of any query: the evidence is that
  of the judged proofs alone.
\<close>

theorem exposure_is_not_evidence:
  assumes off: "\<not> unknown_is_negative policy" and zero: "rnd 0 = 0" and least: "0 < positive_floor policy"
  shows "positive_ids rnd (positive_floor policy) (folded rnd policy ps q) =
      positive_ids rnd (positive_floor policy) (folded rnd policy (judged_rows ps) q) \<and>
    negative_ids rnd (positive_floor policy) (folded rnd policy ps q) =
      negative_ids rnd (positive_floor policy) (folded rnd policy (judged_rows ps) q) \<and>
    utility rnd (folded rnd policy ps q) t = utility rnd (folded rnd policy (judged_rows ps) q) t"
proof (intro conjI)
  have same: "utility rnd (folded rnd policy ps q) t = utility rnd (folded rnd policy (judged_rows ps) q) t" for t
    using folded_sides[OF off, of rnd ps q t] by (simp add: utility_by_sides[of rnd, OF zero])
  show "utility rnd (folded rnd policy ps q) t = utility rnd (folded rnd policy (judged_rows ps) q) t" by (rule same)
  show "positive_ids rnd (positive_floor policy) (folded rnd policy ps q) =
      positive_ids rnd (positive_floor policy) (folded rnd policy (judged_rows ps) q)"
    unfolding positive_ids_def
    by (rule sorted_ids_by_lookup) (simp_all add: folded_distinct chosen_by_utility(1)[of rnd, OF zero least] same)
  show "negative_ids rnd (positive_floor policy) (folded rnd policy ps q) =
      negative_ids rnd (positive_floor policy) (folded rnd policy (judged_rows ps) q)"
    unfolding negative_ids_def
    by (rule sorted_ids_by_lookup) (simp_all add: folded_distinct chosen_by_utility(2)[of rnd, OF zero least] same)
qed

definition demo_proof :: "string \<Rightarrow> string \<Rightarrow> typed_proof" where
  "demo_proof event target =
     make_proof (\<lambda>x. x) (\<lambda>_ _. 0) (\<lambda>_. 1) concat default_proof_policy ''9''
       \<lparr>pc_kb = ''kb'', pc_query = ''q'', pc_type = ''artifact'', pc_target = target, pc_event = event,
        pc_observed = Some ''1'', pc_interaction = Some ''i'', pc_position = None, pc_exposed = True\<rparr>"

theorem exposure_is_not_evidence_witness:
  "positive_ids (\<lambda>x. x) (positive_floor default_proof_policy) (folded (\<lambda>x. x) default_proof_policy
      [demo_proof ''served'' ''a'', demo_proof ''selected'' ''b''] ''q'') =
   positive_ids (\<lambda>x. x) (positive_floor default_proof_policy) (folded (\<lambda>x. x) default_proof_policy
      (judged_rows [demo_proof ''served'' ''a'', demo_proof ''selected'' ''b'']) ''q'') \<and>
   positive_ids (\<lambda>x. x) (positive_floor default_proof_policy) (folded (\<lambda>x. x) default_proof_policy
      [demo_proof ''served'' ''a'', demo_proof ''selected'' ''b''] ''q'') = [''b'']"
proof -
  have "\<not> unknown_is_negative default_proof_policy" "0 < positive_floor default_proof_policy"
    by (simp_all add: default_proof_policy_def)
  from exposure_is_not_evidence[OF this(1) _ this(2), of "\<lambda>x. x" "[demo_proof ''served'' ''a'', demo_proof ''selected'' ''b'']" "''q''"]
  have "positive_ids (\<lambda>x. x) (positive_floor default_proof_policy) (folded (\<lambda>x. x) default_proof_policy
      [demo_proof ''served'' ''a'', demo_proof ''selected'' ''b''] ''q'') =
    positive_ids (\<lambda>x. x) (positive_floor default_proof_policy) (folded (\<lambda>x. x) default_proof_policy
      (judged_rows [demo_proof ''served'' ''a'', demo_proof ''selected'' ''b'']) ''q'')" by simp
  moreover have "positive_ids (\<lambda>x. x) (positive_floor default_proof_policy) (folded (\<lambda>x. x) default_proof_policy
      [demo_proof ''served'' ''a'', demo_proof ''selected'' ''b''] ''q'') = [''b'']"
    by code_simp
  ultimately show ?thesis by blast
qed

section \<open>A retry is one observation\<close>

lemma retry_has_the_id:
  assumes "str_or (pc_interaction c) [] \<noteq> []"
  shows "pf_id (make_proof rnd days half_to dg policy now' (c\<lparr>pc_observed := seen\<rparr>)) =
    pf_id (make_proof rnd days half_to dg policy now c)"
  using assms by (simp add: make_proof_def proof_parts_def Let_def)

theorem retried_proof_counts_once:
  assumes "str_or (pc_interaction c) [] \<noteq> []"
    and first: "p = make_proof rnd days half_to dg policy now c"
    and retry: "p' = make_proof rnd days half_to dg policy now' (c\<lparr>pc_observed := seen\<rparr>)"
    and "accepts p"
  shows "fst (save_proofs accepts [p'] (fst (save_proofs accepts [p] t))) = fst (save_proofs accepts [p] t)"
proof -
  have same: "pf_id p' = pf_id p" using assms(1) first retry retry_has_the_id by metis
  let ?t = "tbl_upsert pf_id p (\<lambda>_. False) id t"
  have "tbl_get pf_id (pf_id p') ?t \<noteq> None" by (auto simp: same tbl_get_upsert split: option.splits)
  then have "tbl_upsert pf_id p' (\<lambda>_. False) id ?t = ?t"
    by (simp add: tbl_upsert_def[of _ p'] tbl_update_def)
  then show ?thesis using assms(4) by (simp add: save_proofs_def)
qed

section \<open>The two planes read the same evidence\<close>

definition as_tuning :: "full_evidence \<Rightarrow> target_evidence" where
  "as_tuning t = \<lparr>te_positive = fe_positive t, te_negative = fe_negative t\<rparr>"

definition tuning_view :: "(string \<times> query_evidence) list \<Rightarrow> evidence" where
  "tuning_view out = map (\<lambda>(q, ts). (q, map (\<lambda>(t, e). (t, as_tuning e)) ts)) out"

lemma map_update: "map (\<lambda>(k, v). (k, f v)) (AList.update k v al) = AList.update k (f v) (map (\<lambda>(k, v). (k, f v)) al)"
  by (induction al) auto

lemma map_of_map_snd: "map_of (map (\<lambda>(k, v). (k, f v)) al) k = map_option f (map_of al k)"
  by (induction al) auto

lemma as_tuning_add: "as_tuning (add_proof rnd u p t) = weigh_proof rnd u (proof_row.truncate p) (as_tuning t)"
  by (simp add: as_tuning_def add_proof_def weigh_proof_def Let_def proof_row.truncate_def split: polarity.splits)

theorem tuning_reads_the_same_evidence:
  "tuning_view (aggregate_typed rnd u ps out) =
     aggregate_proof rnd u (map proof_row.truncate ps) (tuning_view out)"
proof (induction ps arbitrary: out)
  case (Cons p ps)
  let ?f = "\<lambda>ts. map (\<lambda>(t, e). (t, as_tuning e)) ts"
  have view: "tuning_view (AList.update q ts out) = AList.update q (?f ts) (tuning_view out)" for q ts
    unfolding tuning_view_def by (rule map_update)
  have targets: "list_or (map_of (tuning_view out) q) = ?f (list_or (map_of out q))" for q
    unfolding tuning_view_def map_of_map_snd by (cases "map_of out q") simp_all
  have start: "as_tuning no_evidence = \<lparr>te_positive = 0, te_negative = 0\<rparr>"
    by (simp add: as_tuning_def no_evidence_def)
  have keys: "pf_query (proof_row.truncate p) = pf_query p" "pf_target (proof_row.truncate p) = pf_target p"
    by (simp_all add: proof_row.truncate_def)
  show ?case
    using Cons.IH
    by (simp add: Let_def keys targets view map_update as_tuning_add map_of_map_snd)
      (simp add: start as_tuning_add split: option.split)
qed simp

section \<open>How much an event weighs\<close>

text \<open>With the default policy one citation is no known positive, one selection is.\<close>

lemma lone_citation_is_not_positive:
  "weigh_event id days half_to default_proof_policy ''cited'' observed now 1 < positive_floor default_proof_policy \<and>
   positive_floor default_proof_policy \<le> weigh_event id days half_to default_proof_policy ''selected'' observed now 1"
proof -
  have facts: "temporal_decay_enabled default_proof_policy = False"
    "weight_of default_proof_policy ''cited'' = 1 / 4" "weight_of default_proof_policy ''selected'' = 1 / 2"
    "strength_of ''cited'' = ''weak''" "strength_of ''selected'' = ''moderate''"
    "map_of (strength_multipliers default_proof_policy) ''weak'' = Some (1 / 4)"
    "map_of (strength_multipliers default_proof_policy) ''moderate'' = Some (1 / 2)"
    "round6 id (1 / 16) = 1 / 16" "round6 id (1 / 4) = 1 / 4" "positive_floor default_proof_policy = 1 / 5"
    by code_simp+
  show ?thesis by (simp add: weigh_event_def Let_def facts)
qed

end
