(* ===== verification/EvalRuns.thy ===== *)
theory EvalRuns
  imports EvalEvidence EvalReplay
begin

text \<open>
  The rows of an evaluation run, its replay checkpoints (\<open>src/pheasant/evaluation/store.py\<close>) and the
  replay loop of \<open>run_evaluation\<close> (\<open>evaluation/runner.py\<close>).

  Stamps are texts, compared as the statements do, NULL is \<open>None\<close>. A report is an opaque text. Each
  statement is one step; what a function read before it writes is an argument of its \<open>_on\<close> form. The
  clock the loop looks at is \<open>late\<close>: whether the deadline has passed before the pair of that number.
\<close>

section \<open>Run rows\<close>

definition TERMINAL_RUN_STATUSES :: "string list" where
  "TERMINAL_RUN_STATUSES = [''completed'', ''truncated'', ''invalid'', ''failed'', ''interrupted'']"

definition SETTLED_RUN_STATUSES :: "string list" where
  "SETTLED_RUN_STATUSES = [''completed'', ''truncated'', ''invalid'']"

definition RUN_HEARTBEAT_SECONDS :: rat where "RUN_HEARTBEAT_SECONDS = 15"
definition RUN_STALE_SECONDS :: rat where "RUN_STALE_SECONDS = 90"
definition RUN_HEARTBEAT_MARGIN :: rat where "RUN_HEARTBEAT_MARGIN = 3"
definition MINIMUM_RUN_HEARTBEAT_SECONDS :: rat where "MINIMUM_RUN_HEARTBEAT_SECONDS = 1"
definition MINIMUM_RUN_STALE_SECONDS :: rat where
  "MINIMUM_RUN_STALE_SECONDS = MINIMUM_RUN_HEARTBEAT_SECONDS * RUN_HEARTBEAT_MARGIN"

definition stale_window :: "rat option \<Rightarrow> rat" where
  "stale_window configured = max (case configured of None \<Rightarrow> RUN_STALE_SECONDS
     | Some s \<Rightarrow> if s = 0 then RUN_STALE_SECONDS else s) MINIMUM_RUN_STALE_SECONDS"

definition heartbeat_interval_for :: "rat option \<Rightarrow> rat" where
  "heartbeat_interval_for configured =
     max MINIMUM_RUN_HEARTBEAT_SECONDS (min RUN_HEARTBEAT_SECONDS (stale_window configured / RUN_HEARTBEAT_MARGIN))"

text \<open>Three beats fit in the window, however narrow an operator makes it.\<close>

lemma three_beats_fit: "RUN_HEARTBEAT_MARGIN * heartbeat_interval_for configured \<le> stale_window configured"
  by (auto simp: heartbeat_interval_for_def stale_window_def RUN_HEARTBEAT_MARGIN_def RUN_HEARTBEAT_SECONDS_def
      MINIMUM_RUN_HEARTBEAT_SECONDS_def MINIMUM_RUN_STALE_SECONDS_def RUN_STALE_SECONDS_def max_def min_def
      split: option.splits)

record evaluation_run =
  rr_id :: string
  rr_kb :: string
  rr_snapshot :: string
  rr_started :: string
  rr_finished :: "string option"
  rr_status :: string
  rr_gates_passed :: bool
  rr_report :: "string option"
  rr_phase :: string
  rr_detail :: "string option"
  rr_completed :: int
  rr_total :: int
  rr_heartbeat :: "string option"
  rr_owner :: string
  rr_attempts :: int
  rr_error :: "string option"

type_synonym runs = "evaluation_run list"

record run_claim =
  claimed :: bool
  resumed :: bool
  rc_attempts :: int
  previous_status :: string

definition new_evaluation_run :: "string \<Rightarrow> string \<Rightarrow> string \<Rightarrow> string \<Rightarrow> string \<Rightarrow> int \<Rightarrow> evaluation_run" where
  "new_evaluation_run run kb snapshot started owner units =
     \<lparr>rr_id = run, rr_kb = kb, rr_snapshot = snapshot, rr_started = started, rr_finished = None,
      rr_status = ''running'', rr_gates_passed = True, rr_report = None, rr_phase = ''starting'', rr_detail = None,
      rr_completed = 0, rr_total = units, rr_heartbeat = Some started, rr_owner = owner, rr_attempts = 1,
      rr_error = None\<rparr>"

definition or_one :: "int \<Rightarrow> int" where
  "or_one n = (if n = 0 then 1 else n)"

definition open_run_on ::
  "evaluation_run option \<Rightarrow> string \<Rightarrow> string \<Rightarrow> string \<Rightarrow> string \<Rightarrow> string \<Rightarrow> int \<Rightarrow> runs \<Rightarrow> runs \<times> run_claim" where
  "open_run_on existing run kb snapshot started owner units t =
     (case existing of
        None \<Rightarrow> (tbl_upsert rr_id (new_evaluation_run run kb snapshot started owner units) (\<lambda>_. False) id t,
                 \<lparr>claimed = True, resumed = False, rc_attempts = 1, previous_status = []\<rparr>)
      | Some r \<Rightarrow>
          if rr_status r \<in> set SETTLED_RUN_STATUSES
          then (t, \<lparr>claimed = False, resumed = False, rc_attempts = or_one (rr_attempts r), previous_status = rr_status r\<rparr>)
          else (tbl_update (\<lambda>q. rr_id q = run)
                  (\<lambda>q. q\<lparr>rr_status := ''running'', rr_phase := ''starting'', rr_heartbeat := Some started,
                         rr_owner := owner, rr_attempts := rr_attempts q + 1, rr_error := None,
                         rr_finished := None, rr_total := units\<rparr>) t,
                \<lparr>claimed = True, resumed = True, rc_attempts = or_one (rr_attempts r) + 1, previous_status = rr_status r\<rparr>))"

definition open_run ::
  "string \<Rightarrow> string \<Rightarrow> string \<Rightarrow> string \<Rightarrow> string \<Rightarrow> int \<Rightarrow> runs \<Rightarrow> runs \<times> run_claim" where
  "open_run run kb snapshot started owner units t =
     open_run_on (tbl_get rr_id run t) run kb snapshot started owner units t"

definition heartbeat_run ::
  "string \<Rightarrow> string \<Rightarrow> string option \<Rightarrow> string option \<Rightarrow> int option \<Rightarrow> int option \<Rightarrow> runs \<Rightarrow> runs" where
  "heartbeat_run run now phase detail units whole =
     tbl_update (\<lambda>q. rr_id q = run)
       (\<lambda>q. q\<lparr>rr_heartbeat := Some now,
              rr_phase := (case phase of None \<Rightarrow> rr_phase q | Some p \<Rightarrow> p),
              rr_detail := (case detail of None \<Rightarrow> rr_detail q | Some d \<Rightarrow> Some (take 400 d)),
              rr_completed := (case units of None \<Rightarrow> rr_completed q | Some n \<Rightarrow> n),
              rr_total := (case whole of None \<Rightarrow> rr_total q | Some n \<Rightarrow> n)\<rparr>)"

definition close_run ::
  "string \<Rightarrow> string \<Rightarrow> string \<Rightarrow> bool \<Rightarrow> string \<Rightarrow> string option \<Rightarrow> runs \<Rightarrow> runs" where
  "close_run run finished status ok report error =
     tbl_update (\<lambda>q. rr_id q = run)
       (\<lambda>q. q\<lparr>rr_finished := Some finished, rr_status := status, rr_gates_passed := ok, rr_report := Some report,
              rr_phase := status, rr_detail := None, rr_heartbeat := Some finished, rr_error := error\<rparr>)"

definition stale_run :: "string \<Rightarrow> evaluation_run \<Rightarrow> bool" where
  "stale_run stale q \<longleftrightarrow> rr_status q = ''running'' \<and> (case rr_heartbeat q of None \<Rightarrow> True | Some h \<Rightarrow> h < stale)"

definition interrupt_run :: "string \<Rightarrow> string \<Rightarrow> runs \<Rightarrow> runs" where
  "interrupt_run now run =
     tbl_update (\<lambda>q. rr_id q = run \<and> rr_status q = ''running'')
       (\<lambda>q. q\<lparr>rr_status := ''interrupted'', rr_phase := ''interrupted'',
              rr_detail := Some ''the process running this batch stopped without finishing it'',
              rr_finished := Some now, rr_error := Some ''heartbeat expired; the run was reclaimed''\<rparr>)"

definition stale_runs :: "string \<Rightarrow> string \<Rightarrow> runs \<Rightarrow> string list" where
  "stale_runs kb stale t = map rr_id (sort_key rr_started (filter (\<lambda>q. rr_kb q = kb \<and> stale_run stale q) t))"

definition reclaim_stale_runs :: "string \<Rightarrow> string \<Rightarrow> string \<Rightarrow> runs \<Rightarrow> runs \<times> string list" where
  "reclaim_stale_runs now kb stale t =
     (fold (interrupt_run now) (stale_runs kb stale t) t, stale_runs kb stale t)"

definition newest_runs :: "runs \<Rightarrow> runs" where
  "newest_runs t = rev (sort_key (\<lambda>q. (rr_started q, rr_id q)) t)"

definition latest_run :: "string \<Rightarrow> runs \<Rightarrow> evaluation_run option" where
  "latest_run kb t = (case newest_runs (filter (\<lambda>q. rr_kb q = kb) t) of [] \<Rightarrow> None | q # _ \<Rightarrow> Some q)"

definition list_runs :: "string \<Rightarrow> nat \<Rightarrow> runs \<Rightarrow> runs" where
  "list_runs kb limit t = take limit (newest_runs (filter (\<lambda>q. rr_kb q = kb) t))"

definition load_report :: "string \<Rightarrow> runs \<Rightarrow> string option" where
  "load_report run t = (case tbl_get rr_id run t of None \<Rightarrow> None
     | Some q \<Rightarrow> if str_or (rr_report q) [] = [] then None else rr_report q)"

subsection \<open>A settled run is history\<close>

lemma tbl_get_fold_interrupt:
  assumes "tbl_get rr_id run t = Some q" and "rr_status q \<noteq> ''running''"
  shows "tbl_get rr_id run (fold (interrupt_run now) xs t) = Some q"
  using assms by (induction xs arbitrary: t) (simp_all add: interrupt_run_def tbl_get_update)

lemma settled_run_is_history:
  assumes "tbl_get rr_id run t = Some q" and "rr_status q \<in> set SETTLED_RUN_STATUSES"
  shows "open_run run kb snapshot started owner units t =
      (t, \<lparr>claimed = False, resumed = False, rc_attempts = or_one (rr_attempts q), previous_status = rr_status q\<rparr>)"
    and "tbl_get rr_id run (fst (reclaim_stale_runs now kb' stale t)) = Some q"
  using assms tbl_get_fold_interrupt[OF assms(1), of now "stale_runs kb' stale t"]
  by (auto simp: open_run_def open_run_on_def reclaim_stale_runs_def SETTLED_RUN_STATUSES_def)

text \<open>
  Reclaiming reads the stale runs and then interrupts them by id: a run that was resumed in between,
  and beats, is interrupted under its new attempt.
\<close>

lemma reclaiming_interrupts_a_successor:
  "let dead = (new_evaluation_run ''r'' ''kb'' ''s'' ''10'' ''a'' 0);
       stale = stale_runs ''kb'' ''50'' [dead];
       (t, claim) = open_run ''r'' ''kb'' ''s'' ''60'' ''b'' 0 [dead]
   in claimed claim \<and> stale_runs ''kb'' ''50'' t = [] \<and>
      map (\<lambda>q. (rr_owner q, rr_status q)) (fold (interrupt_run ''61'') stale t) = [(''b'', ''interrupted'')]"
  by code_simp

section \<open>Replay checkpoints\<close>

record replay_row =
  rp_id :: string
  rp_run :: string
  rp_cohort :: string
  rp_variant :: string
  rp_payload :: replay_payload

definition save_replay_checkpoint ::
  "(string list \<Rightarrow> string) \<Rightarrow> string \<Rightarrow> string \<Rightarrow> string \<Rightarrow> replay_payload \<Rightarrow> replay_row list \<Rightarrow> replay_row list" where
  "save_replay_checkpoint dg run name cid p t =
     tbl_upsert rp_id \<lparr>rp_id = dg [run, cid, pl_variant p], rp_run = run, rp_cohort = name,
       rp_variant = pl_variant p, rp_payload = p\<rparr> (\<lambda>_. False) id t"

definition load_replay_checkpoints :: "string \<Rightarrow> replay_row list \<Rightarrow> ((string \<times> string) \<times> replay_payload) list" where
  "load_replay_checkpoints run t =
     fold (\<lambda>r. AList.update (rp_cohort r, rp_variant r) (rp_payload r)) (filter (\<lambda>r. rp_run r = run) t) []"

definition clear_replay_checkpoints :: "string \<Rightarrow> replay_row list \<Rightarrow> replay_row list" where
  "clear_replay_checkpoints run = tbl_delete (\<lambda>r. rp_run r = run)"

section \<open>The replay loop\<close>

type_synonym planned_pair = "string \<times> eval_cohort \<times> variant"

definition planned_pairs :: "(string \<times> eval_cohort) list \<Rightarrow> variant list \<Rightarrow> planned_pair list" where
  "planned_pairs cohorts matrix = concat (map (\<lambda>(name, c). map (\<lambda>v. (name, c, v)) matrix) cohorts)"

record loop_env =
  le_replay :: "eval_cohort \<Rightarrow> variant \<Rightarrow> variant_replay"
  le_digest :: "string list \<Rightarrow> string"
  le_rnd :: "rat \<Rightarrow> rat"
  le_run :: string
  le_budget :: nat
  late :: "nat \<Rightarrow> bool"

record loop_state =
  by_cohort :: "(string \<times> (string \<times> variant_replay) list) list"
  truncated_pairs :: "(string \<times> string) list"
  spent_queries :: nat
  resumed_replays :: nat
  advanced :: nat
  saved :: "replay_row list"

definition put_replay ::
  "string \<Rightarrow> string \<Rightarrow> variant_replay \<Rightarrow> (string \<times> (string \<times> variant_replay) list) list \<Rightarrow>
     (string \<times> (string \<times> variant_replay) list) list" where
  "put_replay name vid run acc = AList.update name (AList.update vid run (list_or (map_of acc name))) acc"

definition loop_step ::
  "loop_env \<Rightarrow> ((string \<times> string) \<times> replay_payload) list \<Rightarrow> nat \<Rightarrow> planned_pair \<Rightarrow> loop_state \<Rightarrow> loop_state" where
  "loop_step env checkpoints i pair s =
     (case pair of (name, c, v) \<Rightarrow>
        (case map_of checkpoints (name, va_id v) of
           Some p \<Rightarrow> s\<lparr>by_cohort := put_replay name (va_id v) (replay_from_dict v p) (by_cohort s),
                       resumed_replays := resumed_replays s + 1, advanced := advanced s + 1\<rparr>
         | None \<Rightarrow>
             if le_budget env \<le> spent_queries s \<or> late env i
             then s\<lparr>truncated_pairs := truncated_pairs s @ [(name, va_id v)]\<rparr>
             else (let run = le_replay env c v in
               s\<lparr>by_cohort := put_replay name (va_id v) run (by_cohort s),
                 spent_queries := spent_queries s + length (ec_queries c), advanced := advanced s + 1,
                 saved := save_replay_checkpoint (le_digest env) (le_run env) name (ec_id c)
                   (replay_as_dict (le_rnd env) run) (saved s)\<rparr>)))"

fun replay_loop ::
  "loop_env \<Rightarrow> ((string \<times> string) \<times> replay_payload) list \<Rightarrow> nat \<Rightarrow> planned_pair list \<Rightarrow> loop_state \<Rightarrow> loop_state" where
  "replay_loop env checkpoints i [] s = s"
| "replay_loop env checkpoints i (pair # rest) s =
     replay_loop env checkpoints (i + 1) rest (loop_step env checkpoints i pair s)"

definition start_loop :: "(string \<times> eval_cohort) list \<Rightarrow> replay_row list \<Rightarrow> loop_state" where
  "start_loop cohorts t =
     \<lparr>by_cohort = map (\<lambda>(name, _). (name, [])) cohorts, truncated_pairs = [], spent_queries = 0,
      resumed_replays = 0, advanced = 0, saved = t\<rparr>"

section \<open>Every pair is replayed, resumed or truncated\<close>

lemma loop_accounts:
  "advanced (replay_loop env ck i pairs s) + length (truncated_pairs (replay_loop env ck i pairs s)) =
     advanced s + length (truncated_pairs s) + length pairs"
  by (induction pairs arbitrary: i s) (auto simp: loop_step_def Let_def split: option.splits)

text \<open>The budget is looked at before a cohort is replayed, so a run ends past it by less than one.\<close>

lemma spent_stays_near_budget:
  assumes "\<forall>(_, c, _) \<in> set pairs. length (ec_queries c) \<le> widest" and "spent_queries s < le_budget env + widest"
  shows "spent_queries (replay_loop env ck i pairs s) < le_budget env + widest"
  using assms by (induction pairs arbitrary: i s) (auto simp: loop_step_def Let_def split: option.splits)

text \<open>A checkpoint is looked up by the cohort's name: it stands for whatever the cohort now holds.\<close>

lemma checkpoint_ignores_its_cohort:
  "map_of ck (name, va_id v) = Some p \<Longrightarrow> loop_step env ck i (name, c, v) s = loop_step env ck i (name, c', v) s"
  by (simp add: loop_step_def)

section \<open>A resumed run computes what an uninterrupted one does\<close>

definition untimed :: "variant_replay \<Rightarrow> variant_replay" where
  "untimed run = run\<lparr>vr_results := map (\<lambda>(q, r). (q, r\<lparr>duration_ms := 0\<rparr>)) (vr_results run)\<rparr>"

definition untimed_all ::
  "(string \<times> (string \<times> variant_replay) list) list \<Rightarrow> (string \<times> (string \<times> variant_replay) list) list" where
  "untimed_all acc = map (\<lambda>(name, rs). (name, map (\<lambda>(vid, run). (vid, untimed run)) rs)) acc"

lemma put_untimed:
  "untimed_all (put_replay name vid run acc) = put_replay name vid (untimed run) (untimed_all acc)"
proof -
  have "list_or (map_of (untimed_all acc) name) = map (\<lambda>(vid, run). (vid, untimed run)) (list_or (map_of acc name))"
    unfolding untimed_all_def map_of_map_snd by (cases "map_of acc name") simp_all
  then show ?thesis by (simp add: put_replay_def) (simp add: untimed_all_def map_update)
qed

definition keyed_replay :: "variant_replay \<Rightarrow> bool" where
  "keyed_replay run \<longleftrightarrow> distinct (map fst (vr_results run)) \<and> (\<forall>(q, r) \<in> set (vr_results run). qr_query r = q \<and> q \<noteq> [])"

lemma update_absent: "k \<notin> fst ` set al \<Longrightarrow> AList.update k v al = al @ [(k, v)]"
  by (induction al) auto

lemma fold_update_distinct:
  "distinct (map fst (acc @ map (\<lambda>r. (key r, r)) rs)) \<Longrightarrow>
   fold (\<lambda>r. AList.update (key r) r) rs acc = acc @ map (\<lambda>r. (key r, r)) rs"
proof (induction rs arbitrary: acc)
  case (Cons r rs)
  then have "AList.update (key r) r acc = acc @ [(key r, r)]" by (intro update_absent) auto
  then show ?case using Cons by simp
qed simp

lemma fold_update_fresh:
  "distinct (map key rs) \<Longrightarrow> fold (\<lambda>r. AList.update (key r) r) rs [] = map (\<lambda>r. (key r, r)) rs"
  using fold_update_distinct[of "[]" key rs] by (simp add: comp_def)

lemma replay_round_trip:
  assumes "keyed_replay run" and "vr_variant run = v"
  shows "untimed (replay_from_dict v (replay_as_dict rnd run)) = untimed run"
proof -
  let ?round = "\<lambda>r. r\<lparr>duration_ms := round3 rnd (duration_ms r)\<rparr>"
  let ?rs = "map (\<lambda>(_, r). ?round r) (vr_results run)"
  have keys: "map qr_query ?rs = map fst (vr_results run)" "\<forall>r \<in> set ?rs. qr_query r \<noteq> []"
    using assms(1) by (auto simp: keyed_replay_def)
  have "fold (\<lambda>r. AList.update (qr_query r) r) ?rs [] = map (\<lambda>r. (qr_query r, r)) ?rs"
    by (rule fold_update_fresh) (use assms(1) in \<open>simp only: keys(1) keyed_replay_def\<close>)
  moreover have "filter (\<lambda>r. qr_query r \<noteq> []) ?rs = ?rs" using keys(2) by (simp add: filter_id_conv)
  ultimately have "vr_results (replay_from_dict v (replay_as_dict rnd run)) = map (\<lambda>r. (qr_query r, r)) ?rs"
    by (simp add: replay_from_dict_def replay_as_dict_def)
  moreover have "map (\<lambda>(q, r). (q, r\<lparr>duration_ms := 0\<rparr>)) (map (\<lambda>r. (qr_query r, r)) ?rs) =
    map (\<lambda>(q, r). (q, r\<lparr>duration_ms := 0\<rparr>)) (vr_results run)"
    using assms(1) by (auto simp: keyed_replay_def)
  ultimately have "vr_results (untimed (replay_from_dict v (replay_as_dict rnd run))) = vr_results (untimed run)"
    by (simp add: untimed_def)
  then show ?thesis
    using assms(2) by (auto simp: untimed_def replay_from_dict_def replay_as_dict_def intro!: variant_replay.equality)
qed

lemma replay_one_keyed:
  assumes "keyed_replay run" and "eq_id q \<noteq> []"
  shows "keyed_replay (replay_one search e v q run)" and "vr_variant (replay_one search e v q run) = vr_variant run"
proof -
  have "qr_query (replay_query search e v q) = eq_id q"
    by (simp add: replay_query_def Let_def split: prod.split sum.split)
  then have "\<forall>(k, r) \<in> set (AList.update (eq_id q) (replay_query search e v q) rs). qr_query r = k \<and> k \<noteq> []"
    if good: "\<forall>(k, r) \<in> set rs. qr_query r = k \<and> k \<noteq> []" for rs
    using good assms(2) by (induction rs) auto
  from this[of "vr_results run"] show "keyed_replay (replay_one search e v q run)"
    using assms(1) by (simp add: replay_one_def keyed_replay_def distinct_update Let_def)
qed (simp add: replay_one_def Let_def)

lemma replay_variant_keyed:
  assumes "\<forall>q \<in> set (ec_queries c). eq_id q \<noteq> []"
  shows "keyed_replay (replay_variant search e c v) \<and> vr_variant (replay_variant search e c v) = v"
proof -
  have kept: "keyed_replay run \<Longrightarrow> \<forall>q \<in> set qs. eq_id q \<noteq> [] \<Longrightarrow>
    keyed_replay (fold (replay_one search e v) qs run) \<and> vr_variant (fold (replay_one search e v) qs run) = vr_variant run" for qs run
    by (induction qs arbitrary: run) (simp_all add: replay_one_keyed)
  let ?blank = "\<lparr>vr_variant = v, vr_cohort = ec_id c, vr_results = [], vr_failures = []\<rparr>"
  have "keyed_replay ?blank" by (simp add: keyed_replay_def)
  from kept[OF this assms] show ?thesis by (simp add: replay_variant_def)
qed

text \<open>Two attempts at one run replay alike; their budgets and deadlines may differ.\<close>

definition same_run :: "loop_env \<Rightarrow> loop_env \<Rightarrow> bool" where
  "same_run env env' \<longleftrightarrow> le_replay env' = le_replay env \<and> le_rnd env' = le_rnd env \<and> le_run env' = le_run env"

definition pair_key :: "planned_pair \<Rightarrow> string \<times> string" where
  "pair_key pair = (case pair of (name, c, v) \<Rightarrow> (name, va_id v))"

definition replays_keyed :: "loop_env \<Rightarrow> planned_pair list \<Rightarrow> bool" where
  "replays_keyed env pairs \<longleftrightarrow>
     (\<forall>(name, c, v) \<in> set pairs. keyed_replay (le_replay env c v) \<and> vr_variant (le_replay env c v) = v)"

text \<open>A table whose rows of this run were written for its planned pairs\<close>

definition rows_from :: "loop_env \<Rightarrow> planned_pair list \<Rightarrow> replay_row list \<Rightarrow> bool" where
  "rows_from env pairs t \<longleftrightarrow> (\<forall>r \<in> set t. rp_run r = le_run env \<longrightarrow>
     (\<exists>name c v. (name, c, v) \<in> set pairs \<and> (rp_cohort r, rp_variant r) = (name, va_id v) \<and>
        rp_payload r = replay_as_dict (le_rnd env) (le_replay env c v)))"

lemma save_rows_from:
  assumes "rows_from env pairs t" and "(name, c, v) \<in> set pairs" and "vr_variant (le_replay env c v) = v"
  shows "rows_from env pairs (save_replay_checkpoint dg (le_run env) name cid
    (replay_as_dict (le_rnd env) (le_replay env c v)) t)"
  using assms by (fastforce simp: rows_from_def save_replay_checkpoint_def tbl_upsert_def tbl_update_def replay_as_dict_def)

lemma loop_rows_from:
  assumes "same_run env env'" and "replays_keyed env pairs" and "set some \<subseteq> set pairs" and "rows_from env pairs (saved s)"
  shows "rows_from env pairs (saved (replay_loop env' ck i some s))"
  using assms(3,4)
proof (induction some arbitrary: i s)
  case (Cons pair some)
  obtain name c v where pair: "pair = (name, c, v)" by (cases pair)
  have "vr_variant (le_replay env c v) = v" using assms(2) Cons.prems(1) pair by (auto simp: replays_keyed_def)
  then have "rows_from env pairs (saved (loop_step env' ck i pair s))"
    using Cons.prems assms(1) save_rows_from[of env pairs "saved s" name c v]
    by (auto simp: pair loop_step_def same_run_def Let_def split: option.splits)
  then show ?case using Cons by simp
qed simp

lemma loaded_from:
  assumes "rows_from env pairs t" and "map_of (load_replay_checkpoints (le_run env) t) key = Some p"
  shows "\<exists>name c v. (name, c, v) \<in> set pairs \<and> key = (name, va_id v) \<and> p = replay_as_dict (le_rnd env) (le_replay env c v)"
proof -
  let ?good = "\<lambda>k p. \<exists>name c v. (name, c, v) \<in> set pairs \<and> k = (name, va_id v) \<and>
    p = replay_as_dict (le_rnd env) (le_replay env c v)"
  have good: "(\<And>r. r \<in> set rs \<Longrightarrow> G (rp_cohort r, rp_variant r) (rp_payload r)) \<Longrightarrow>
    (\<And>k p. map_of acc k = Some p \<Longrightarrow> G k p) \<Longrightarrow>
    map_of (fold (\<lambda>r. AList.update (rp_cohort r, rp_variant r) (rp_payload r)) rs acc) k = Some p \<Longrightarrow> G k p"
    for rs acc k p G
  proof (induction rs arbitrary: acc)
    case (Cons r rs)
    show ?case
      by (rule Cons.IH[of "AList.update (rp_cohort r, rp_variant r) (rp_payload r) acc"])
        (use Cons.prems in \<open>auto simp: update_conv split: if_splits\<close>)
  qed simp
  show ?thesis
  proof (rule good[where G = ?good and acc = "[]"])
    fix r
    assume "r \<in> set (filter (\<lambda>r. rp_run r = le_run env) t)"
    then show "?good (rp_cohort r, rp_variant r) (rp_payload r)" using assms(1) by (simp add: rows_from_def)
  qed (use assms(2) in \<open>simp_all add: load_replay_checkpoints_def\<close>)
qed

lemma step_truncated: "truncated_pairs (loop_step env ck i pair s) = [] \<Longrightarrow> truncated_pairs s = []"
proof -
  obtain name c v where pair: "pair = (name, c, v)" by (cases pair)
  show "truncated_pairs (loop_step env ck i pair s) = [] \<Longrightarrow> truncated_pairs s = []"
    by (cases "map_of ck (name, va_id v)") (simp_all add: pair loop_step_def Let_def split: if_splits)
qed

lemma truncated_grows: "truncated_pairs (replay_loop env ck i pairs s) = [] \<Longrightarrow> truncated_pairs s = []"
proof (induction pairs arbitrary: i s)
  case (Cons pair pairs)
  then have "truncated_pairs (loop_step env ck i pair s) = []" by (metis replay_loop.simps(2))
  then show ?case by (rule step_truncated)
qed simp

lemma step_replays:
  assumes "truncated_pairs (loop_step env ck i (name, c, v) s) = []"
  shows "by_cohort (loop_step env ck i (name, c, v) s) = put_replay name (va_id v)
    (case map_of ck (name, va_id v) of None \<Rightarrow> le_replay env c v | Some p \<Rightarrow> replay_from_dict v p) (by_cohort s)"
  using assms by (auto simp: loop_step_def Let_def split: option.splits if_splits)

definition checkpoints_from :: "loop_env \<Rightarrow> planned_pair list \<Rightarrow> ((string \<times> string) \<times> replay_payload) list \<Rightarrow> bool" where
  "checkpoints_from env pairs ck \<longleftrightarrow> (\<forall>key p. map_of ck key = Some p \<longrightarrow>
     (\<exists>name c v. (name, c, v) \<in> set pairs \<and> key = (name, va_id v) \<and> p = replay_as_dict (le_rnd env) (le_replay env c v)))"

lemma checkpoint_replay:
  assumes "checkpoints_from env pairs ck" and "distinct (map pair_key pairs)" and "replays_keyed env pairs"
    and pair: "(name, c, v) \<in> set pairs" and p: "map_of ck (name, va_id v) = Some p"
  shows "untimed (replay_from_dict v p) = untimed (le_replay env c v)"
proof -
  obtain name' c' v' where other: "(name', c', v') \<in> set pairs" "(name, va_id v) = (name', va_id v')"
    and p': "p = replay_as_dict (le_rnd env) (le_replay env c' v')"
    using assms(1) p unfolding checkpoints_from_def by blast
  then have "pair_key (name, c, v) = pair_key (name', c', v')" by (simp add: pair_key_def)
  then have "(name, c, v) = (name', c', v')"
    using assms(2) pair other(1) by (metis distinct_map inj_onD)
  then show ?thesis using p' assms(3) pair replay_round_trip by (auto simp: replays_keyed_def)
qed

lemma loops_agree:
  assumes "same_run env env'" and "checkpoints_from env pairs ck" and "distinct (map pair_key pairs)"
    and "replays_keyed env pairs" and "set some \<subseteq> set pairs"
    and "untimed_all (by_cohort s') = untimed_all (by_cohort s)"
    and "truncated_pairs (replay_loop env' ck i some s') = []" and "truncated_pairs (replay_loop env [] j some s) = []"
  shows "untimed_all (by_cohort (replay_loop env' ck i some s')) = untimed_all (by_cohort (replay_loop env [] j some s))"
  using assms(5-8)
proof (induction some arbitrary: i j s s')
  case (Cons pair some)
  obtain name c v where pair: "pair = (name, c, v)" by (cases pair)
  have "truncated_pairs (loop_step env' ck i pair s') = []" "truncated_pairs (loop_step env [] j pair s) = []"
    using truncated_grows[of env' ck "i + 1" some "loop_step env' ck i pair s'"]
      truncated_grows[of env "[]" "j + 1" some "loop_step env [] j pair s"] Cons.prems(3,4) by simp_all
  then have "untimed_all (by_cohort (loop_step env' ck i pair s')) = untimed_all (by_cohort (loop_step env [] j pair s))"
    using Cons.prems(1,2) assms(1) checkpoint_replay[OF assms(2-4), of name c v]
    by (auto simp: pair step_replays put_untimed same_run_def split: option.split)
  then show ?case using Cons.IH Cons.prems by simp
qed simp

text \<open>
  Claim C15: an evaluation that was cut off after any part of its plan and is resumed from the
  checkpoints it stored ends with the same replays, but for durations, as one that was never cut off,
  when neither is truncated and both plan the same cohorts.
\<close>

theorem resumed_evaluation_replays_alike:
  assumes runs: "same_run env first" "same_run env second" and plan: "distinct (map pair_key pairs)"
    and queries: "le_replay env = replay_variant search engine" "\<forall>(_, c, _) \<in> set pairs. \<forall>q \<in> set (ec_queries c). eq_id q \<noteq> []"
    and fresh: "\<forall>r \<in> set t. rp_run r \<noteq> le_run env"
    and rows: "rows = saved (replay_loop first [] 0 (take n pairs) (start_loop cohorts t))"
    and whole: "truncated_pairs (replay_loop env [] 0 pairs (start_loop cohorts t)) = []"
    and again: "truncated_pairs (replay_loop second (load_replay_checkpoints (le_run env) rows) 0 pairs (start_loop cohorts rows)) = []"
  shows "untimed_all (by_cohort (replay_loop second (load_replay_checkpoints (le_run env) rows) 0 pairs (start_loop cohorts rows))) =
    untimed_all (by_cohort (replay_loop env [] 0 pairs (start_loop cohorts t)))"
proof -
  have keyed: "replays_keyed env pairs"
    using queries replay_variant_keyed by (fastforce simp: replays_keyed_def)
  have "rows_from env pairs t" using fresh by (simp add: rows_from_def)
  then have "rows_from env pairs rows"
    unfolding rows by (intro loop_rows_from[OF runs(1) keyed]) (auto simp: start_loop_def dest: in_set_takeD)
  then have "checkpoints_from env pairs (load_replay_checkpoints (le_run env) rows)"
    unfolding checkpoints_from_def using loaded_from by blast
  from loops_agree[OF runs(2) this plan keyed subset_refl _ again whole] show ?thesis
    by (simp add: start_loop_def)
qed

section \<open>A run that is cut off and resumed\<close>

definition demo_searcher :: "search_call \<Rightarrow> (search_item list, string) sum \<times> rat" where
  "demo_searcher call =
     (Inl [\<lparr>si_node = Some (sq_text call), si_chunk = None, si_record = None, si_arms = [''text'']\<rparr>], 1)"

definition demo_rolling :: "string \<Rightarrow> eval_cohort" where
  "demo_rolling q =
     \<lparr>ec_id = q, ec_name = ''rolling'', ec_purpose = ''rolling'',
      ec_queries = [\<lparr>eq_id = q, eq_text = q, eq_occurred = None, eq_asked = 1, eq_expectation = None\<rparr>],
      ec_created = [], ec_frozen = False\<rparr>"

definition demo_loop :: loop_env where
  "demo_loop = \<lparr>le_replay = replay_variant demo_searcher (make_engine 10 []), le_digest = concat, le_rnd = \<lambda>x. x,
     le_run = ''r'', le_budget = 9, late = \<lambda>_. False\<rparr>"

definition demo_plan :: "string \<Rightarrow> planned_pair list" where
  "demo_plan q = planned_pairs [(''rolling'', demo_rolling q)]
     [matrix_row ''B0'' ''off'' [] None [], matrix_row ''B5'' ''auto'' [] None []]"

theorem resumed_evaluation_replays_alike_witness:
  "let rows = saved (replay_loop demo_loop [] 0 (take 1 (demo_plan ''q'')) (start_loop [(''rolling'', demo_rolling ''q'')] []));
       again = replay_loop demo_loop (load_replay_checkpoints (le_run demo_loop) rows) 0 (demo_plan ''q'')
         (start_loop [(''rolling'', demo_rolling ''q'')] rows)
   in untimed_all (by_cohort again) =
      untimed_all (by_cohort (replay_loop demo_loop [] 0 (demo_plan ''q'') (start_loop [(''rolling'', demo_rolling ''q'')] [])))"
proof -
  have "truncated_pairs (replay_loop demo_loop [] 0 (demo_plan ''q'') (start_loop [(''rolling'', demo_rolling ''q'')] [])) = []"
    by code_simp
  moreover have "truncated_pairs (replay_loop demo_loop (load_replay_checkpoints (le_run demo_loop)
      (saved (replay_loop demo_loop [] 0 (take 1 (demo_plan ''q'')) (start_loop [(''rolling'', demo_rolling ''q'')] [])))) 0
      (demo_plan ''q'') (start_loop [(''rolling'', demo_rolling ''q'')]
      (saved (replay_loop demo_loop [] 0 (take 1 (demo_plan ''q'')) (start_loop [(''rolling'', demo_rolling ''q'')] []))))) = []"
    by code_simp
  ultimately show ?thesis
    unfolding Let_def
    by (intro resumed_evaluation_replays_alike[where search = demo_searcher and engine = "make_engine 10 []", OF _ _ _ _ _ _ refl])
      (simp_all add: same_run_def demo_loop_def demo_plan_def planned_pairs_def pair_key_def demo_rolling_def matrix_row_def)
qed

text \<open>
  A rolling cohort is built anew by every attempt. When its queries have changed since the first one,
  the resumed run answers for the queries it no longer holds.
\<close>

lemma resumed_batch_mixes_cohorts:
  "let rows = saved (replay_loop demo_loop [] 0 (demo_plan ''old'') (start_loop [(''rolling'', demo_rolling ''old'')] []));
       again = replay_loop demo_loop (load_replay_checkpoints (le_run demo_loop) rows) 0 (demo_plan ''new'')
         (start_loop [(''rolling'', demo_rolling ''new'')] rows)
   in map (\<lambda>(_, rs). map (\<lambda>(_, run). map fst (vr_results run)) rs) (by_cohort again) = [[[''old''], [''old'']]]"
  by code_simp

end
