(* ===== verification/Spec2Isabelle.thy ===== *)
theory Spec2Isabelle
  imports IndexStatus SyncCancel WriterFiles GraphCommit GraphCodec Retraction MemoryIndex RankFusion Packing Acl SyncFull JobClaims Inventory WalkClaims TuningResume TuningGate EvalPromotion EvalRuns
begin

text \<open>
  A verification development of pheasant, a knowledge base that indexes the files of registered
  sources into SQL tables and a knowledge graph and answers searches over them. The Python code is
  under \<open>src/src/pheasant\<close>, \<open>src/pheasant\<close> below; each theory names the files it translates and keeps
  the names of the code's functions.

  \<^bold>\<open>The program and its parts.\<close> Work arrives as tasks of a durable queue. A worker drains it, takes the
  writer's lease of a source, and runs a pass over the source: list its files, skip the unchanged
  ones by a manifest, refuse denied content, cut the text of the others into chunks, replace their
  rows, update the graph, and publish the graph and then the manifest at checkpoints. A pass can
  be cancelled from another process, crash at any write, and be resumed. The graph is
  held in memory with the changes its persisted rows are owed, and committed as a delta. Readers
  search text, vector and graph arms whose rankings are merged by reciprocal rank fusion, under an
  access filter, a memory policy and a scope of documents; the numbers of the merge come from the
  configuration under an overlay, the active tuning bundle. The overlay is proposed by batches of
  the tuning plane, which replay recorded queries, try points near the configuration, and promote
  one that passes its gates. Jobs report the progress of all this to processes that share a
  directory of snapshots.

  \<^bold>\<open>Shared ground.\<close>
  \<^item> \<open>Prelude\<close>: instants, Python's \<open>or\<close>, ordered dicts, stable sorting, rendering of numbers, and the
    collections of hints. \<open>SqlTable\<close>: a table as the list of its rows, its primary key, and the
    statements (insert, upsert, update, delete, select in an order), each one atomic step.
    \<open>PyText\<close>: the text operations on ASCII text and SQLite's \<open>LIKE\<close>.

  \<^bold>\<open>Queue, locks, cancellation.\<close>
  \<^item> \<open>Queue\<close>, \<open>QueueProps\<close>, \<open>QueueLife\<close>, \<open>Drain\<close> (\<open>sync/queue.py\<close>): the task row, \<open>LocalQueue\<close>'s statements, the claim loop (at
    most \<open>CLAIM_ATTEMPTS\<close>, eight tries, which is the recursion's own bound), and \<open>drain\<close> over any
    backend, the locale \<open>task_queue\<close>, of which \<open>LocalQueue\<close> is the interpretation. Lemmas: which
    task a claim hands out, one winner of a race, the table as an \<open>inductive\<close> step relation with its
    invariant and its refinement of the task lifecycle, the cap on attempts, termination of the
    drain (a measure on attempts left). \<open>IndexStatus\<close> (\<open>services/index_queue.py\<close>) is the listing callers see.
  \<^item> \<open>Leases\<close>, \<open>WriterFiles\<close> (\<open>sync/locks.py\<close>): the database lease, whose exclusiveness is the locale
    \<open>exclusive_lease\<close>, and the two lock files, where what another process does between two file
    operations is an argument. The waiting loops take fuel, one pass per quarter of a second of the
    timeout and two more, shown to be enough.
  \<^item> \<open>SyncCancel\<close> (\<open>sync/cancellation.py\<close>): the run's row, the request, the checkpoints.

  \<^bold>\<open>The graph.\<close>
  \<^item> \<open>Graph\<close>, \<open>GraphInv\<close> (\<open>graph/simple.py\<close>, \<open>graph/builder.py\<close>): the dicts as association lists, the mutations,
    the running aggregates and the pending delta; every reachable graph has exact aggregates.
  \<^item> \<open>GraphRows\<close>, \<open>GraphFold\<close>, \<open>GraphCommit\<close>, \<open>GraphCodec\<close> (\<open>persistence/graph_codec.py\<close>,
    \<open>graph_rows.py\<close>, \<open>graph_store.py\<close>): rows, batched statements, the XOR folds on 128-bit words, the
    commit; the store refines the graph after any history, and a node survives its row.
  \<^item> \<open>Retraction\<close> (\<open>graph/retraction.py\<close>, \<open>sync/vanished.py\<close>): what a re-index takes back and what a
    vanished file takes with it.
  \<^item> \<open>Traversal\<close>, \<open>WalkClaims\<close> (\<open>graph/traversal.py\<close>): the bounded walk, at most ten levels, with its
    batches, slices and expansions; a budget yields a prefix, no budget the exact neighbourhood.

  \<^bold>\<open>A pass over a source.\<close>
  \<^item> \<open>Denylist\<close> (\<open>security/corpus_policy.py\<close>): denied content, with Python's shell patterns.
  \<^item> \<open>SyncPass\<close> (\<open>sync/engine.py\<close>, \<open>sync/archived.py\<close>, \<open>sync/preparation.py\<close>): the pass as the list of the writes it makes,
    so that any prefix of it is a crash; its parameters (the listing, the readable contents, the
    parser's rows, hashes) are the record \<open>world\<close>. Repairing prepares from the state at the start of
    the pass, pruning is one write.
  \<^item> \<open>SyncTruth\<close>, \<open>SyncCrash\<close>, \<open>SyncRecovery\<close>, \<open>SyncClaims\<close>, \<open>SyncFull\<close>: what a finished pass leaves, what
    each write keeps true of the disk, recovery by a second pass, interrupted full passes, and the
    order of graph and manifest.

  \<^bold>\<open>Text into chunks.\<close>
  \<^item> \<open>Chunking\<close> (\<open>ingestion/chunking.py\<close>, \<open>pipeline.py\<close>) and \<open>Packing\<close> (\<open>ingestion/packing.py\<close>): windows, units,
    packing, and that no line is lost and no chunk passes its ceiling.

  \<^bold>\<open>Answering.\<close>
  \<^item> \<open>Ranking\<close> (\<open>search/ranking.py\<close>), \<open>RankFusion\<close> (\<open>search/fusion.py\<close>, \<open>hybrid.py\<close>, \<open>tuning/refusion.py\<close>): the
    parameters, clamping, overlays and the resolver; the merge, and the re-fusion of a captured query.
    A float is a rational, an infinity or a NaN; every float operation is the exact result rounded by
    a parameter \<open>rnd\<close>.
  \<^item> \<open>MemoryPolicy\<close>, \<open>MemoryIndex\<close> (\<open>memory/policy.py\<close>): the rule in SQL's three truth values and in Python.
  \<^item> \<open>Acl\<close> (\<open>security/acl.py\<close>, \<open>idp.py\<close>): who may see what, on the three surfaces.
  \<^item> \<open>Criteria\<close> (\<open>search/criteria.py\<close>), \<open>Scope\<close>, \<open>ScopeClaims\<close> (\<open>services/scope.py\<close>), \<open>Inventory\<close>
    (\<open>services/inventory.py\<close>): post-filters and their SQL forms, names resolved under the reader's rights, listings
    and their pages.

  \<^bold>\<open>The tuning plane.\<close>
  \<^item> \<open>TuningStages\<close> (\<open>tuning/stages.py\<close>): the stage that lost a document, the histogram, which counts
    every miss once, and what a re-fusion cannot move.
  \<^item> \<open>TuningSpace\<close> (\<open>tuning/space.py\<close>, \<open>strategy.py\<close>): ladders, the space's check, the proposals of a
    generation: one step from the incumbent, on a blamed stage, inside bounds and budgets.
  \<^item> \<open>TuningScore\<close> (\<open>tuning/scoring.py\<close>, \<open>objective.py\<close>), \<open>TuningDecision\<close> (\<open>decision.py\<close>,
    \<open>tuning/gates.py\<close>, \<open>_decide\<close> of \<open>tuning/runner.py\<close>, and of \<open>evaluation/\<close> the evidence a batch
    reads): scores, paired comparisons, gates; what a promotion rests on.
  \<^item> \<open>TuningStore\<close> (\<open>tuning/bundle.py\<close>, \<open>store.py\<close>): bundles; the table refines a pointer from each
    knowledge base to the configuration it serves. \<open>TuningServed\<close>: what is applied ranks exactly as
    what was measured, through the resolver.
  \<^item> \<open>TuningBatch\<close>, \<open>TuningResume\<close> (\<open>tuning/runner.py\<close>, \<open>store.py\<close>): evaluating proposals, stored trials and cold payloads,
    the trial loop; the search budget, and that resuming decides as not stopping does. An attempt
    that is stopped is one over a prefix of the proposals.
  \<^item> \<open>TuningExperiments\<close> (\<open>tuning/store.py\<close>), \<open>TuningGate\<close> (\<open>tuning/executor.py\<close>): the experiment rows,
    where a race has one winner and a batch that beats is left alone; when a batch goes on.

  \<^bold>\<open>The evaluation plane.\<close>
  \<^item> \<open>EvalProof\<close>, \<open>EvalEvidence\<close> (\<open>evaluation/proof.py\<close>, \<open>store.py\<close>): which interaction says what of a
    document, how it is weighed and added up; that showing a document is no evidence, that a retried
    proof counts once, that a reconstructed past reads nothing later, and that the tuning plane
    reads the same evidence.
  \<^item> \<open>EvalReplay\<close> (\<open>evaluation/variants.py\<close>, \<open>replay.py\<close>, \<open>contracts.py\<close>): the matrix of variants, what a
    replay asks of the search and what it keeps, its payload, and the pairs two replays share.
  \<^item> \<open>EvalMetrics\<close> (\<open>evaluation/metrics.py\<close>), \<open>EvalGates\<close> (\<open>evaluation/gates.py\<close>): the metrics with their
    denominators over rationals, every float operation a parameter, and the gates over them.
  \<^item> \<open>EvalPromotion\<close> (\<open>evaluation/candidates.py\<close>, and \<open>run_evaluation\<close> of \<open>evaluation/runner.py\<close> from
    the metrics to the decisions): what the admission of a candidate rests on, and that the shadow
    replay has no part in it.
  \<^item> \<open>EvalRuns\<close> (\<open>evaluation/store.py\<close>, the replay loop of \<open>evaluation/runner.py\<close>): run rows, claims,
    heartbeats and reclaiming, checkpoints; a resumed evaluation replays as one that was not cut off,
    up to durations, while it plans the same cohorts. The clock is a predicate on the steps that
    come too late.

  \<^bold>\<open>Jobs.\<close>
  \<^item> \<open>Jobs\<close>, \<open>JobRegistry\<close>, \<open>JobClaims\<close> (\<open>jobs.py\<close>), \<open>JobSnapshots\<close> (\<open>job_snapshots.py\<close>): progress
    records and their rollup, the registry as a step function with its invariant, the shared
    snapshots with one clock per pass over the directory.

  \<^bold>\<open>Conventions.\<close> State is passed explicitly as records; errors are values of a sum or an option; what
  the code does not contain (hashes, parsers, the clock, the network, JSON and number parsing) is an
  argument. Instants are whole microseconds or rationals, integers unbounded as Python's, the folds
  words of their width. Texts are ASCII. Loops are structural recursion, recursion with a measure,
  or take fuel that a lemma shows to be enough. Findings, where the code departs from what it says,
  are lemmas on concrete inputs next to the definitions concerned.

  \<^bold>\<open>Not modelled.\<close> The HTTP, MCP and command line surfaces, the setup wizard and deployment files render or
  parse requests over the services above; the configuration schema is declarative validation by
  pydantic; the assistant's workflows are prompts and provider calls; enrichment is regular
  expressions over text; of the engine, the process and remote executors, vectors, media and
  events; of the evaluation, the queries that fill cohorts, snapshots, reports and the benchmark. The NATS backend of the queue is a client of a service; reading files and extracting text
  belongs to third-party parsers.
\<close>

end
